(* ===== verification/Prelude.thy ===== *)
theory Prelude
  imports Main "HOL-Library.AList"
begin

text \<open>
  Shared vocabulary of the development: the exceptions the code throws and the result type
  that carries them, the string searches of \<^verbatim>\<open>std::string_view\<close>, the character
  classes of \<^verbatim>\<open><cctype>\<close> in the C locale, and the generic lemmas on lists and
  association lists the components use.

  \<^item> \<^verbatim>\<open>exn\<close>: one constructor per exception type the sources throw, and \<^verbatim>\<open>Undefined\<close> for an execution
    that leaves the defined behaviour of the language (an index past a vector, a buffer read at a
    type it was not written with).
  \<^item> \<^verbatim>\<open>res\<close> with \<^verbatim>\<open>bindR\<close>: a computation that may throw.
  \<^item> \<^verbatim>\<open>str_find\<close>, \<^verbatim>\<open>substr\<close>: \<^verbatim>\<open>find\<close> and \<^verbatim>\<open>substr\<close> of the standard string types.
  \<^item> association lists stand for \<^verbatim>\<open>std::map\<close> and \<^verbatim>\<open>std::unordered_map\<close>: keys are distinct by
    invariant, \<^verbatim>\<open>map_of\<close> is the lookup and \<^verbatim>\<open>length\<close> the size.
\<close>

section \<open>Exceptions and fallible computations\<close>

datatype exn =
    InvalidArgument string
  | OutOfRange string
  | RuntimeError string
  | LogicError string
  | DslError string nat nat
  | UserError string
  | Undefined string

type_synonym 'a res = "exn + 'a"

abbreviation Throw :: "exn \<Rightarrow> 'a res" where
  "Throw \<equiv> Inl"

abbreviation Ok :: "'a \<Rightarrow> 'a res" where
  "Ok \<equiv> Inr"

fun bindR :: "'e + 'a \<Rightarrow> ('a \<Rightarrow> 'e + 'b) \<Rightarrow> 'e + 'b" where
  "bindR (Inl e) f = Inl e"
| "bindR (Inr x) f = f x"

fun what :: "exn \<Rightarrow> string" where
  "what (InvalidArgument m) = m"
| "what (OutOfRange m) = m"
| "what (RuntimeError m) = m"
| "what (LogicError m) = m"
| "what (DslError m l c) = m"
| "what (UserError m) = m"
| "what (Undefined m) = m"

fun foldR :: "('a \<Rightarrow> 's \<Rightarrow> 'e + 's) \<Rightarrow> 'a list \<Rightarrow> 's \<Rightarrow> 'e + 's" where
  "foldR f [] s = Inr s"
| "foldR f (x # xs) s = bindR (f x s) (foldR f xs)"

named_theorems ok_iff \<open>when a fallible computation succeeds, and with which result\<close>

lemma bindR_Inr_iff [ok_iff]: "bindR m f = Inr y \<longleftrightarrow> (\<exists>x. m = Inr x \<and> f x = Inr y)"
  by (cases m) auto

lemma bindR_Inl_iff: "bindR m f = Inl e \<longleftrightarrow> m = Inl e \<or> (\<exists>x. m = Inr x \<and> f x = Inl e)"
  by (cases m) auto

lemma bindR_split:
  "P (bindR m f) \<longleftrightarrow> (\<forall>e. m = Inl e \<longrightarrow> P (Inl e)) \<and> (\<forall>x. m = Inr x \<longrightarrow> P (f x))"
  by (cases m) auto

lemma bindR_assoc: "bindR (bindR m f) g = bindR m (\<lambda>x. bindR (f x) g)"
  by (cases m) auto

lemma foldR_append: "foldR f (xs @ ys) s = bindR (foldR f xs s) (foldR f ys)"
proof (induction xs arbitrary: s)
  case (Cons x xs)
  then show ?case by (cases "f x s") auto
qed simp

lemma foldR_cong: "(\<And>x a. x \<in> set xs \<Longrightarrow> f x a = g x a) \<Longrightarrow> foldR f xs s = foldR g xs s"
proof (induction xs arbitrary: s)
  case (Cons x xs)
  then show ?case by (cases "g x s") auto
qed simp

text \<open>An invariant kept by each step of a throwing loop is kept by the loop.\<close>

lemma foldR_invariant:
  assumes "foldR f xs s = Inr s'" and "P s"
    and "\<And>x a b. x \<in> set xs \<Longrightarrow> P a \<Longrightarrow> f x a = Inr b \<Longrightarrow> P b"
  shows "P s'"
  using assms
proof (induction xs arbitrary: s)
  case (Cons x xs)
  then obtain t where "f x s = Inr t" "foldR f xs t = Inr s'" by (auto simp: bindR_Inr_iff)
  with Cons show ?case by (metis list.set_intros(1,2))
qed simp

section \<open>Strings\<close>

definition substr :: "string \<Rightarrow> nat \<Rightarrow> nat \<Rightarrow> string" where
  "substr s pos n = take n (drop pos s)"

definition occurs_at :: "string \<Rightarrow> string \<Rightarrow> nat \<Rightarrow> bool" where
  "occurs_at s pat i = (take (length pat) (drop i s) = pat)"

definition str_find :: "string \<Rightarrow> string \<Rightarrow> nat \<Rightarrow> nat option" where
  "str_find s pat start = find (occurs_at s pat) [start..<Suc (length s)]"

definition isspace :: "char \<Rightarrow> bool" where
  "isspace c = (of_char c \<in> {9, 10, 11, 12, 13, 32 :: nat})"

definition isdigit :: "char \<Rightarrow> bool" where
  "isdigit c = (48 \<le> (of_char c :: nat) \<and> (of_char c :: nat) \<le> 57)"

definition isupper :: "char \<Rightarrow> bool" where
  "isupper c = (65 \<le> (of_char c :: nat) \<and> (of_char c :: nat) \<le> 90)"

definition islower :: "char \<Rightarrow> bool" where
  "islower c = (97 \<le> (of_char c :: nat) \<and> (of_char c :: nat) \<le> 122)"

definition isalpha :: "char \<Rightarrow> bool" where
  "isalpha c = (isupper c \<or> islower c)"

definition isalnum :: "char \<Rightarrow> bool" where
  "isalnum c = (isalpha c \<or> isdigit c)"

lemma occurs_atD: "occurs_at s pat i \<Longrightarrow> pat = take (length pat) (drop i s)"
  by (simp add: occurs_at_def)

lemma occurs_at_bound: "occurs_at s pat i \<Longrightarrow> i \<le> length s \<Longrightarrow> i + length pat \<le> length s"
  by (drule occurs_atD) (metis add.commute le_diff_conv2 length_drop length_take min.cobounded1 min.absorb_iff2)

lemma occurs_at_split:
  assumes "occurs_at s pat i"
  shows "drop i s = pat @ drop (i + length pat) s"
  using assms append_take_drop_id [of "length pat" "drop i s"]
  by (simp add: occurs_at_def add.commute)

lemma str_find_SomeD:
  assumes "str_find s pat start = Some i"
  shows "start \<le> i" "i + length pat \<le> length s" "occurs_at s pat i"
    "\<And>j. start \<le> j \<Longrightarrow> j < i \<Longrightarrow> \<not> occurs_at s pat j"
proof -
  obtain k where k: "k < length [start..<Suc (length s)]" "occurs_at s pat ([start..<Suc (length s)] ! k)"
    "i = [start..<Suc (length s)] ! k" "\<forall>j<k. \<not> occurs_at s pat ([start..<Suc (length s)] ! j)"
    using assms by (auto simp only: str_find_def find_Some_iff)
  then have i: "i = start + k" "start + k < Suc (length s)"
    by (simp_all del: upt_Suc)
  show "start \<le> i" and occ: "occurs_at s pat i"
    using i k by auto
  show "i + length pat \<le> length s"
    using occurs_at_bound [OF occ] i by simp
  fix j assume "start \<le> j" "j < i"
  then show "\<not> occurs_at s pat j"
    using k(4) [rule_format, of "j - start"] i by (simp del: upt_Suc)
qed

lemma str_find_NoneD:
  "str_find s pat start = None \<Longrightarrow> start \<le> i \<Longrightarrow> i \<le> length s \<Longrightarrow> \<not> occurs_at s pat i"
  by (auto simp: str_find_def find_None_iff simp del: upt_Suc)

lemma str_find_eqI:
  assumes "start \<le> i" "i \<le> length s" "occurs_at s pat i"
    and "\<And>j. start \<le> j \<Longrightarrow> j < i \<Longrightarrow> \<not> occurs_at s pat j"
  shows "str_find s pat start = Some i"
proof (cases "str_find s pat start")
  case None
  then show ?thesis using str_find_NoneD assms by blast
next
  case (Some k)
  then show ?thesis
    using str_find_SomeD [OF Some] assms by (metis linorder_neqE_nat)
qed

section \<open>Lists and association lists\<close>

text \<open>The first keys of an association list are what a keyed container iterates over.\<close>

abbreviation keys :: "('k \<times> 'v) list \<Rightarrow> 'k list" where
  "keys \<equiv> map fst"

lemma map_of_update [simp]: "map_of (AList.update k v xs) = (map_of xs)(k \<mapsto> v)"
  by (simp add: update_conv')

lemma map_of_delete [simp]: "map_of (AList.delete k xs) = (map_of xs)(k := None)"
  by (rule delete_conv')

lemma set_keys_dom: "set (keys xs) = dom (map_of xs)"
  by (simp add: dom_map_of_conv_image_fst)

lemma keys_update_set: "set (keys (AList.update k v xs)) = insert k (set (keys xs))"
  unfolding set_keys_dom by simp

lemma keys_delete_set: "set (keys (AList.delete k xs)) = set (keys xs) - {k}"
  unfolding set_keys_dom by simp

lemma map_of_None_iff: "map_of xs k = None \<longleftrightarrow> k \<notin> set (keys xs)"
  by (simp add: map_of_eq_None_iff)

lemma distinct_keys_delete [simp]: "distinct (keys xs) \<Longrightarrow> distinct (keys (AList.delete k xs))"
  by (rule distinct_delete)

lemma distinct_keys_update [simp]: "distinct (keys xs) \<Longrightarrow> distinct (keys (AList.update k v xs))"
  by (rule distinct_update)

lemma length_delete_key:
  assumes "distinct (keys xs)" "k \<in> set (keys xs)"
  shows "Suc (length (AList.delete k xs)) = length xs"
  using assms
proof (induction xs)
  case (Cons p xs)
  show ?case
  proof (cases "fst p = k")
    case True
    then have "AList.delete k xs = xs" using Cons.prems by (auto simp: delete_id)
    with True show ?thesis by simp
  next
    case False
    then have "Suc (length (AList.delete k xs)) = length xs" using Cons by auto
    with False show ?thesis by simp
  qed
qed simp

lemma length_delete_absent: "k \<notin> set (keys xs) \<Longrightarrow> AList.delete k xs = xs"
  by (simp add: delete_id)

lemma length_keys_card: "distinct (keys xs) \<Longrightarrow> length xs = card (set (keys xs))"
  using distinct_card [of "keys xs"] by simp

text \<open>Removing one occurrence from a duplicate-free list.\<close>

lemma remove1_distinct_set [simp]: "distinct xs \<Longrightarrow> set (remove1 x xs) = set xs - {x}"
  by (rule set_remove1_eq)

end
