(* ===== verification/Dependency.thy ===== *)
theory Dependency
  imports Prelude
begin

text \<open>
  Dependency graphs and the two algorithms the library runs on them: Kahn's queue, shared by
  \<^verbatim>\<open>OpGraph::Compile\<close> and \<^verbatim>\<open>ComputeGraph::Finalize\<close>, and the iterative three-colour depth-first search of
  \<^verbatim>\<open>GraphBuilder::RejectCycles\<close>.  A graph is its node list and the dependency list of each node.
  Both loops carry fuel; the lemmas show that the fuel the callers pass is never used up, and
  that each algorithm succeeds exactly on acyclic graphs.
\<close>

section \<open>Topological orders and cycles\<close>

text \<open>Latest node first: each node's dependencies are among the nodes after it.\<close>

fun topo_rev :: "('a \<Rightarrow> 'a list) \<Rightarrow> 'a list \<Rightarrow> bool" where
  "topo_rev deps [] = True"
| "topo_rev deps (v # vs) = (v \<notin> set vs \<and> set (deps v) \<subseteq> set vs \<and> topo_rev deps vs)"

definition topo_order :: "('a \<Rightarrow> 'a list) \<Rightarrow> 'a list \<Rightarrow> bool" where
  "topo_order deps xs = topo_rev deps (rev xs)"

definition dep_rel :: "('a \<Rightarrow> 'a list) \<Rightarrow> 'a set \<Rightarrow> ('a \<times> 'a) set" where
  "dep_rel deps N = {(d, v). v \<in> N \<and> d \<in> set (deps v)}"

definition closed_graph :: "('a \<Rightarrow> 'a list) \<Rightarrow> 'a list \<Rightarrow> bool" where
  "closed_graph deps nodes = (distinct nodes \<and> list_all (\<lambda>v. set (deps v) \<subseteq> set nodes) nodes)"

definition suffix_rank :: "'a list \<Rightarrow> 'a \<Rightarrow> nat" where
  "suffix_rank xs x = length (dropWhile (\<lambda>y. y \<noteq> x) xs)"

lemma topo_order_Nil [simp]: "topo_order deps []"
  by (simp add: topo_order_def)

lemma topo_order_snoc:
  "topo_order deps (xs @ [v]) \<longleftrightarrow> topo_order deps xs \<and> v \<notin> set xs \<and> set (deps v) \<subseteq> set xs"
  by (auto simp: topo_order_def)

lemma topo_order_distinct: "topo_order deps xs \<Longrightarrow> distinct xs"
  by (induction xs rule: rev_induct) (auto simp: topo_order_snoc)

text \<open>Read off a topological order: a dependency stands strictly before its dependent.\<close>

lemma topo_order_prefix:
  "topo_order deps (xs @ a # ys) \<Longrightarrow> set (deps a) \<subseteq> set xs"
proof (induction ys rule: rev_induct)
  case (snoc y ys)
  then show ?case using topo_order_snoc [of deps "xs @ a # ys" y] by simp
qed (simp add: topo_order_snoc)

lemma topo_order_nth:
  "topo_order deps xs \<Longrightarrow> j < length xs \<Longrightarrow> d \<in> set (deps (xs ! j)) \<Longrightarrow> \<exists>i < j. xs ! i = d"
proof (induction xs rule: rev_induct)
  case (snoc v xs)
  show ?case
  proof (cases "j < length xs")
    case True
    then obtain i where "i < j" "xs ! i = d"
      using snoc by (auto simp: topo_order_snoc nth_append)
    then show ?thesis using True by (auto simp: nth_append intro!: exI [of _ i])
  next
    case False
    then have j: "j = length xs" using snoc.prems by simp
    then have "d \<in> set xs" using snoc.prems by (auto simp: topo_order_snoc)
    then obtain i where "i < length xs" "xs ! i = d" by (metis in_set_conv_nth)
    then show ?thesis using j by (auto simp: nth_append intro!: exI [of _ i])
  qed
qed simp

lemma suffix_rank_le: "suffix_rank xs x \<le> length xs"
  by (simp add: suffix_rank_def length_dropWhile_le)

lemma topo_rev_rank:
  "topo_rev deps xs \<Longrightarrow> v \<in> set xs \<Longrightarrow> d \<in> set (deps v) \<Longrightarrow> suffix_rank xs d < suffix_rank xs v"
proof (induction xs)
  case (Cons x xs)
  show ?case
  proof (cases "v = x")
    case True
    then have "d \<noteq> x" using Cons.prems by auto
    then have "suffix_rank (x # xs) d = suffix_rank xs d" by (simp add: suffix_rank_def)
    then show ?thesis using True suffix_rank_le [of xs d] by (simp add: suffix_rank_def)
  next
    case False
    then have v: "v \<in> set xs" using Cons.prems by simp
    have "set (deps v) \<subseteq> set xs" if "v \<in> set xs" "topo_rev deps xs" for xs
      using that by (induction xs) auto
    then have "d \<in> set xs" using v Cons.prems by auto
    then have "d \<noteq> x" using Cons.prems by auto
    then show ?thesis using False Cons.IH v Cons.prems by (simp add: suffix_rank_def)
  qed
qed simp

lemma topo_order_acyclic: "topo_order deps xs \<Longrightarrow> set xs = N \<Longrightarrow> acyclic (dep_rel deps N)"
proof -
  assume t: "topo_order deps xs" "set xs = N"
  have "dep_rel deps N \<subseteq> measure (suffix_rank (rev xs))"
    using t topo_rev_rank [of deps "rev xs"] by (auto simp: dep_rel_def topo_order_def)
  then show ?thesis using wf_acyclic wf_subset wf_measure by blast
qed

lemma finite_dep_rel: "finite N \<Longrightarrow> finite (dep_rel deps N)"
proof -
  assume "finite N"
  moreover have "dep_rel deps N \<subseteq> (\<Union>v \<in> N. set (deps v)) \<times> N" by (auto simp: dep_rel_def)
  ultimately show ?thesis by (meson finite_SigmaI finite_UN_I finite_subset List.finite_set)
qed

text \<open>Nodes that all wait for each other lie on a cycle.\<close>

lemma stuck_cycle:
  assumes "finite N" "R \<subseteq> N" "R \<noteq> {}" "\<And>v. v \<in> R \<Longrightarrow> \<exists>d \<in> set (deps v). d \<in> R"
  shows "\<not> acyclic (dep_rel deps N)"
proof
  assume "acyclic (dep_rel deps N)"
  then have "wf (dep_rel deps N)" using finite_acyclic_wf finite_dep_rel assms(1) by blast
  then obtain m where m: "m \<in> R" "\<And>y. (y, m) \<in> dep_rel deps N \<Longrightarrow> y \<notin> R"
    using assms(3) by (metis wf_eq_minimal ex_in_conv)
  obtain d where "d \<in> set (deps m)" "d \<in> R" using assms(4) m(1) by blast
  then show False using m assms(2) by (auto simp: dep_rel_def)
qed

lemma path_cycle: "(a, b) \<in> (dep_rel deps N)\<^sup>* \<Longrightarrow> (b, a) \<in> dep_rel deps N \<Longrightarrow> \<not> acyclic (dep_rel deps N)"
  by (metis acyclic_def rtrancl_into_trancl1)

section \<open>Kahn's algorithm\<close>

text \<open>The first loop fills \<open>outs\<close> and \<open>in_degree\<close> edge by edge; duplicated dependencies count twice in both.\<close>

definition kahn_edges :: "('a \<Rightarrow> 'a list) \<Rightarrow> 'a list \<Rightarrow> ('a \<times> 'a) list" where
  "kahn_edges deps ops = concat (map (\<lambda>v. map (\<lambda>d. (d, v)) (deps v)) ops)"

definition kahn_init :: "('a \<Rightarrow> 'a list) \<Rightarrow> 'a list \<Rightarrow> ('a \<Rightarrow> 'a list) \<times> ('a \<Rightarrow> nat)" where
  "kahn_init deps ops =
    fold (\<lambda>(d, v) (outs, indeg). (outs(d := outs d @ [v]), indeg(v := Suc (indeg v))))
      (kahn_edges deps ops) (\<lambda>_. [], \<lambda>_. 0)"

fun kahn_visit :: "'a list \<Rightarrow> ('a \<Rightarrow> nat) \<times> 'a list \<Rightarrow> ('a \<Rightarrow> nat) \<times> 'a list" where
  "kahn_visit [] (indeg, q) = (indeg, q)"
| "kahn_visit (x # xs) (indeg, q) =
    kahn_visit xs (indeg(x := indeg x - 1), if indeg x - 1 = 0 then q @ [x] else q)"

fun kahn_loop :: "nat \<Rightarrow> ('a \<Rightarrow> 'a list) \<Rightarrow> ('a \<Rightarrow> nat) \<Rightarrow> 'a list \<Rightarrow> 'a list \<Rightarrow> 'a list option" where
  "kahn_loop 0 outs indeg queue order = None"
| "kahn_loop (Suc n) outs indeg [] order = Some order"
| "kahn_loop (Suc n) outs indeg (v # queue) order =
    (case kahn_visit (outs v) (indeg, queue) of (indeg', queue') \<Rightarrow> kahn_loop n outs indeg' queue' (order @ [v]))"

definition kahn :: "('a \<Rightarrow> 'a list) \<Rightarrow> 'a list \<Rightarrow> 'a list option" where
  "kahn deps ops = (case kahn_init deps ops of (outs, indeg) \<Rightarrow>
     kahn_loop (Suc (length ops)) outs indeg (filter (\<lambda>v. indeg v = 0) ops) [])"

lemma kahn_init_fold:
  "fold (\<lambda>(d, v) (outs, indeg). (outs(d := outs d @ [v]), indeg(v := Suc (indeg v)))) es (o0, i0)
    = (\<lambda>x. o0 x @ map snd (filter (\<lambda>e. fst e = x) es), \<lambda>x. i0 x + length (filter (\<lambda>e. snd e = x) es))"
  by (induction es arbitrary: o0 i0) (auto simp: fun_eq_iff)

lemma kahn_edges_in: "distinct ops \<Longrightarrow>
    length (filter (\<lambda>e. snd e = v) (kahn_edges deps ops)) = (if v \<in> set ops then length (deps v) else 0)"
proof (induction ops)
  case (Cons u ops)
  have "filter (\<lambda>e. snd e = v) (map (\<lambda>d. (d, u)) ds) = (if v = u then map (\<lambda>d. (d, u)) ds else [])" for ds
    by (induction ds) auto
  then show ?case using Cons by (auto simp: kahn_edges_def filter_empty_conv)
qed (simp add: kahn_edges_def)

lemma kahn_edges_out: "distinct ops \<Longrightarrow>
    count_list (map snd (filter (\<lambda>e. fst e = x) (kahn_edges deps ops))) v
      = (if v \<in> set ops then count_list (deps v) x else 0)"
proof (induction ops)
  case (Cons u ops)
  have "count_list (map snd (filter (\<lambda>e. fst e = x) (map (\<lambda>d. (d, u)) ds))) v
      = (if v = u then count_list ds x else 0)" for ds
    by (induction ds) auto
  then show ?case using Cons by (auto simp: kahn_edges_def)
qed (simp add: kahn_edges_def)

lemma kahn_visit_spec:
  assumes "\<And>v. count_list xs v \<le> indeg v"
  shows "\<exists>new. kahn_visit xs (indeg, q) = (\<lambda>v. indeg v - count_list xs v, q @ new)
    \<and> distinct new \<and> set new = {v \<in> set xs. indeg v = count_list xs v}"
  using assms
proof (induction xs arbitrary: indeg q)
  case Nil
  then show ?case by (intro exI [of _ "[]"]) auto
next
  case (Cons x xs)
  let ?i = "indeg(x := indeg x - 1)" and ?q = "if indeg x - 1 = 0 then q @ [x] else q"
  have pos: "indeg x > 0" using Cons.prems [of x] by simp
  have c: "count_list xs v \<le> ?i v" for v using Cons.prems [of v] by (auto split: if_splits)
  obtain new where n: "kahn_visit xs (?i, ?q) = (\<lambda>v. ?i v - count_list xs v, ?q @ new)"
    "distinct new" "set new = {v \<in> set xs. ?i v = count_list xs v}"
    using Cons.IH [OF c] by blast
  have f: "(\<lambda>v. ?i v - count_list xs v) = (\<lambda>v. indeg v - count_list (x # xs) v)" by (auto simp: fun_eq_iff)
  show ?case
  proof (cases "indeg x - 1 = 0")
    case True
    then have x0: "indeg x = 1" "x \<notin> set xs" using pos c [of x] by (auto simp: count_list_0_iff)
    have "x \<notin> set new" using n(3) x0 by simp
    moreover have "set (x # new) = {v \<in> set (x # xs). indeg v = count_list (x # xs) v}"
    proof -
      have c0: "count_list xs x = 0" using x0(2) by (rule count_notin)
      have "v \<in> set (x # new) \<longleftrightarrow> v \<in> {v \<in> set (x # xs). indeg v = count_list (x # xs) v}" for v
        using n(3) x0(1) c0 by (cases "v = x") simp_all
      then show ?thesis by blast
    qed
    ultimately show ?thesis using n(1,2) f True by (intro exI [of _ "x # new"]) simp
  next
    case False
    have "v \<in> set new \<longleftrightarrow> v \<in> {v \<in> set (x # xs). indeg v = count_list (x # xs) v}" for v
    proof (cases "v = x")
      case True
      have "x \<in> set new \<longleftrightarrow> x \<in> set xs \<and> indeg x - 1 = count_list xs x" unfolding n(3) by simp
      also have "\<dots> \<longleftrightarrow> indeg x = count_list (x # xs) x"
        using False pos count_notin [of x xs] by (cases "x \<in> set xs") auto
      finally show ?thesis using True by simp
    qed (use n(3) in simp)
    then have "set new = {v \<in> set (x # xs). indeg v = count_list (x # xs) v}" by blast
    then show ?thesis using n(1,2) f False by (intro exI [of _ new]) simp
  qed
qed

text \<open>The loop invariant: \<open>indeg\<close> counts the dependencies not yet in the order, and the order with the queue
  holds exactly the nodes that wait for none.\<close>

definition pending :: "('a \<Rightarrow> 'a list) \<Rightarrow> 'a list \<Rightarrow> 'a \<Rightarrow> nat" where
  "pending deps order v = length (filter (\<lambda>d. d \<notin> set order) (deps v))"

definition kahn_inv :: "('a \<Rightarrow> 'a list) \<Rightarrow> 'a list \<Rightarrow> ('a \<Rightarrow> nat) \<Rightarrow> 'a list \<Rightarrow> 'a list \<Rightarrow> bool" where
  "kahn_inv deps ops indeg queue order =
    (distinct (order @ queue) \<and> set (order @ queue) \<subseteq> set ops \<and> topo_order deps order
     \<and> (\<forall>v. indeg v = (if v \<in> set ops then pending deps order v else 0))
     \<and> (\<forall>v \<in> set ops. v \<in> set (order @ queue) \<longleftrightarrow> pending deps order v = 0))"

lemma pending_0_iff: "pending deps order v = 0 \<longleftrightarrow> set (deps v) \<subseteq> set order"
  by (auto simp: pending_def filter_empty_conv)

lemma pending_snoc:
  assumes "u \<notin> set order"
  shows "pending deps order v = pending deps (order @ [u]) v + count_list (deps v) u"
proof -
  have "length (filter (\<lambda>d. d \<notin> set order) ds)
      = length (filter (\<lambda>d. d \<notin> set (order @ [u])) ds) + count_list ds u" for ds
    using assms by (induction ds) auto
  then show ?thesis by (simp add: pending_def)
qed

lemma kahn_step:
  assumes inv: "kahn_inv deps ops indeg (u # queue) order"
    and outs: "\<And>v. count_list outs v = (if v \<in> set ops then count_list (deps v) u else 0)"
  shows "\<exists>indeg' queue'. kahn_visit outs (indeg, queue) = (indeg', queue')
    \<and> kahn_inv deps ops indeg' queue' (order @ [u])"
proof -
  have d: "distinct (order @ u # queue)" "set (order @ u # queue) \<subseteq> set ops" "topo_order deps order"
    and ind: "\<And>v. indeg v = (if v \<in> set ops then pending deps order v else 0)"
    and mem: "\<And>v. v \<in> set ops \<Longrightarrow> v \<in> set (order @ u # queue) \<longleftrightarrow> pending deps order v = 0"
    using inv unfolding kahn_inv_def by blast+
  have u: "u \<notin> set order" "u \<in> set ops" "set (deps u) \<subseteq> set order"
    using d mem [of u] by (auto simp: pending_0_iff)
  note ps = pending_snoc [OF u(1)]
  have le: "count_list outs v \<le> indeg v" for v using ps [of deps v] ind [of v] outs [of v] by simp
  obtain new where new: "kahn_visit outs (indeg, queue) = (\<lambda>v. indeg v - count_list outs v, queue @ new)"
    "distinct new" "set new = {v \<in> set outs. indeg v = count_list outs v}"
    using kahn_visit_spec [OF le] by blast
  have ind': "indeg v - count_list outs v = (if v \<in> set ops then pending deps (order @ [u]) v else 0)" for v
    using ps [of deps v] ind [of v] outs [of v] by simp
  have newv: "v \<in> set new \<longleftrightarrow> v \<in> set ops \<and> pending deps (order @ [u]) v = 0 \<and> pending deps order v \<noteq> 0" for v
  proof -
    have oc: "v \<in> set outs \<longleftrightarrow> v \<in> set ops \<and> count_list (deps v) u \<noteq> 0"
      using outs [of v] count_list_0_iff [of outs v] by (metis (full_types))
    show ?thesis unfolding new(3) mem_Collect_eq oc
      using ps [of deps v] ind [of v] outs [of v] by (cases "v \<in> set ops") auto
  qed
  have "kahn_inv deps ops (\<lambda>v. indeg v - count_list outs v) (queue @ new) (order @ [u])"
    unfolding kahn_inv_def
  proof (intro conjI allI ballI)
    have "set new \<inter> set (order @ u # queue) = {}" using newv mem by blast
    then show "distinct ((order @ [u]) @ queue @ new)" using d(1) new(2) by auto
    show "set ((order @ [u]) @ queue @ new) \<subseteq> set ops" using d(2) newv by auto
    show "topo_order deps (order @ [u])" using d(3) u by (simp add: topo_order_snoc)
    show "indeg v - count_list outs v = (if v \<in> set ops then pending deps (order @ [u]) v else 0)" for v
      by (rule ind')
    fix v assume v: "v \<in> set ops"
    have "pending deps order v = 0 \<Longrightarrow> pending deps (order @ [u]) v = 0" using ps [of deps v] by simp
    then show "v \<in> set ((order @ [u]) @ queue @ new) \<longleftrightarrow> pending deps (order @ [u]) v = 0"
      using newv [of v] mem [OF v] v by auto
  qed
  then show ?thesis using new(1) by blast
qed

lemma kahn_loop_spec:
  assumes "kahn_inv deps ops indeg queue order" and "distinct ops"
    and "length ops < fuel + length order"
    and "\<And>u v. count_list (outs u) v = (if v \<in> set ops then count_list (deps v) u else 0)"
  shows "\<exists>order'. kahn_loop fuel outs indeg queue order = Some order' \<and> topo_order deps order'
    \<and> set order' \<subseteq> set ops \<and> (\<forall>v \<in> set ops. v \<in> set order' \<longleftrightarrow> set (deps v) \<subseteq> set order')"
  using assms(1,3)
proof (induction fuel arbitrary: indeg queue order)
  case 0
  have "length order \<le> length ops"
    using 0 assms(2) distinct_card [of order] distinct_card [of ops] card_mono [of "set ops" "set order"]
    by (auto simp: kahn_inv_def)
  then show ?case using 0 by simp
next
  case (Suc n)
  show ?case
  proof (cases queue)
    case Nil
    then show ?thesis using Suc.prems(1) by (auto simp: kahn_inv_def pending_0_iff)
  next
    case (Cons u q)
    obtain indeg' q' where st: "kahn_visit (outs u) (indeg, q) = (indeg', q')"
      "kahn_inv deps ops indeg' q' (order @ [u])"
      using kahn_step [OF Suc.prems(1) [unfolded Cons], of "outs u"] assms(4) by blast
    show ?thesis using Suc.IH [OF st(2)] Suc.prems(2) st(1) Cons by simp
  qed
qed

text \<open>Kahn's loop ends, gives a topological order, and orders every node exactly when there is no cycle.\<close>

lemma kahn_correct:
  assumes "closed_graph deps ops"
  shows "\<exists>order. kahn deps ops = Some order \<and> topo_order deps order \<and> set order \<subseteq> set ops
    \<and> (length order = length ops \<longleftrightarrow> acyclic (dep_rel deps (set ops)))"
proof -
  have d: "distinct ops" and cl: "\<And>v. v \<in> set ops \<Longrightarrow> set (deps v) \<subseteq> set ops"
    using assms by (auto simp: closed_graph_def list_all_iff)
  obtain outs indeg where ki: "kahn_init deps ops = (outs, indeg)" by fastforce
  then have outs: "count_list (outs u) v = (if v \<in> set ops then count_list (deps v) u else 0)"
    and indeg: "indeg v = (if v \<in> set ops then length (deps v) else 0)" for u v
    using kahn_edges_out [OF d] kahn_edges_in [OF d] by (auto simp: kahn_init_def kahn_init_fold)
  have "kahn_inv deps ops indeg (filter (\<lambda>v. indeg v = 0) ops) []"
    unfolding kahn_inv_def using d indeg by (auto simp: pending_def)
  from kahn_loop_spec [OF this d _ outs, of "Suc (length ops)"]
  obtain order where o: "kahn deps ops = Some order" "topo_order deps order" "set order \<subseteq> set ops"
    "\<And>v. v \<in> set ops \<Longrightarrow> v \<in> set order \<longleftrightarrow> set (deps v) \<subseteq> set order"
    by (auto simp: kahn_def ki)
  have len: "length order = length ops \<longleftrightarrow> set order = set ops"
    using distinct_card [OF topo_order_distinct [OF o(2)]] distinct_card [OF d] o(3)
    by (metis card_subset_eq List.finite_set)
  have "set order = set ops" if "acyclic (dep_rel deps (set ops))"
  proof (rule ccontr)
    assume "set order \<noteq> set ops"
    then have "set ops - set order \<noteq> {}" using o(3) by auto
    moreover have "\<exists>x \<in> set (deps v). x \<in> set ops - set order" if "v \<in> set ops - set order" for v
      using that o(4) [of v] cl [of v] by auto
    ultimately show False using stuck_cycle [of "set ops" "set ops - set order" deps] that by blast
  qed
  then show ?thesis using o len topo_order_acyclic [OF o(2)] by blast
qed

section \<open>Three-colour depth-first search\<close>

datatype Mark = kUnvisited | kInStack | kDone

text \<open>The explicit stack holds a node with the index of its next dependency, top first.  \<open>Inl\<close> is the node
  whose second visit closes a cycle.\<close>

fun dfs_loop :: "nat \<Rightarrow> ('a \<Rightarrow> 'a list) \<Rightarrow> ('a \<Rightarrow> Mark) \<Rightarrow> ('a \<times> nat) list \<Rightarrow> ('a + ('a \<Rightarrow> Mark)) option" where
  "dfs_loop 0 deps marks stack = None"
| "dfs_loop (Suc n) deps marks [] = Some (Inr marks)"
| "dfs_loop (Suc n) deps marks ((v, i) # stack) =
    (if i < length (deps v) then
       (let nxt = deps v ! i in
        case marks nxt of
          kInStack \<Rightarrow> Some (Inl nxt)
        | kUnvisited \<Rightarrow> dfs_loop n deps (marks(nxt := kInStack)) ((nxt, 0) # (v, Suc i) # stack)
        | kDone \<Rightarrow> dfs_loop n deps marks ((v, Suc i) # stack))
     else dfs_loop n deps (marks(v := kDone)) stack)"

fun dfs_all :: "nat \<Rightarrow> ('a \<Rightarrow> 'a list) \<Rightarrow> 'a list \<Rightarrow> ('a \<Rightarrow> Mark) \<Rightarrow> ('a + ('a \<Rightarrow> Mark)) option" where
  "dfs_all fuel deps [] marks = Some (Inr marks)"
| "dfs_all fuel deps (start # rest) marks =
    (if marks start \<noteq> kUnvisited then dfs_all fuel deps rest marks
     else (case dfs_loop fuel deps (marks(start := kInStack)) [(start, 0)] of
        Some (Inr marks') \<Rightarrow> dfs_all fuel deps rest marks'
      | r \<Rightarrow> r))"

definition dfs_fuel :: "('a \<Rightarrow> 'a list) \<Rightarrow> 'a list \<Rightarrow> nat" where
  "dfs_fuel deps nodes = Suc (sum_list (map (\<lambda>v. Suc (length (deps v))) nodes))"

definition find_cycle :: "('a \<Rightarrow> 'a list) \<Rightarrow> 'a list \<Rightarrow> ('a + ('a \<Rightarrow> Mark)) option" where
  "find_cycle deps nodes = dfs_all (dfs_fuel deps nodes) deps nodes (\<lambda>_. kUnvisited)"

text \<open>Below the top, the last dependency taken is the node above; all earlier ones are done.\<close>

fun explored :: "('a \<Rightarrow> 'a list) \<Rightarrow> 'a set \<Rightarrow> 'a option \<Rightarrow> ('a \<times> nat) list \<Rightarrow> bool" where
  "explored deps D c [] = True"
| "explored deps D None ((v, i) # st) =
    (i \<le> length (deps v) \<and> (\<forall>j < i. deps v ! j \<in> D) \<and> explored deps D (Some v) st)"
| "explored deps D (Some c) ((v, i) # st) =
    (0 < i \<and> i \<le> length (deps v) \<and> deps v ! (i - 1) = c \<and> (\<forall>j < i - 1. deps v ! j \<in> D) \<and> explored deps D (Some v) st)"

definition dfs_inv :: "('a \<Rightarrow> 'a list) \<Rightarrow> 'a set \<Rightarrow> ('a \<Rightarrow> Mark) \<Rightarrow> ('a \<times> nat) list \<Rightarrow> 'a list \<Rightarrow> bool" where
  "dfs_inv deps N marks stack fin =
    (topo_order deps fin \<and> set fin = {v. marks v = kDone} \<and> set fin \<subseteq> N
     \<and> distinct (map fst stack) \<and> set (map fst stack) = {v. marks v = kInStack} \<and> set (map fst stack) \<subseteq> N
     \<and> explored deps (set fin) None stack)"

definition dfs_potential :: "('a \<Rightarrow> 'a list) \<Rightarrow> 'a list \<Rightarrow> ('a \<Rightarrow> Mark) \<Rightarrow> ('a \<times> nat) list \<Rightarrow> nat" where
  "dfs_potential deps nodes marks stack =
    sum_list (map (\<lambda>v. Suc (length (deps v))) (filter (\<lambda>v. marks v = kUnvisited) nodes))
    + sum_list (map (\<lambda>(v, i). Suc (length (deps v) - i)) stack)"

lemma explored_mono: "explored deps D c st \<Longrightarrow> D \<subseteq> E \<Longrightarrow> explored deps E c st"
  by (induction deps D c st rule: explored.induct) auto

lemma explored_path:
  "explored deps D (Some v) st \<Longrightarrow> set (map fst st) \<subseteq> N \<Longrightarrow> u \<in> set (map fst st) \<Longrightarrow> (v, u) \<in> (dep_rel deps N)\<^sup>*"
proof (induction st arbitrary: v)
  case (Cons x st)
  obtain w k where x: "x = (w, k)" by (cases x)
  have k: "0 < k" "k \<le> length (deps w)" "deps w ! (k - 1) = v" using Cons.prems(1) by (auto simp: x)
  then have "v \<in> set (deps w)" by (metis diff_less less_le_trans nth_mem zero_less_one)
  then have e: "(v, w) \<in> dep_rel deps N" using Cons.prems(2) by (auto simp: dep_rel_def x)
  show ?case
  proof (cases "u = w")
    case False
    then have "(w, u) \<in> (dep_rel deps N)\<^sup>*" using Cons.IH [of w] Cons.prems by (auto simp: x)
    then show ?thesis using e by simp
  qed (use e in simp)
qed simp

lemma potential_mark:
  "distinct nodes \<Longrightarrow> marks x = kUnvisited \<Longrightarrow> m \<noteq> kUnvisited \<Longrightarrow> x \<in> set nodes \<Longrightarrow>
    sum_list (map (\<lambda>v. Suc (length (deps v))) (filter (\<lambda>v. marks v = kUnvisited) nodes))
      = Suc (length (deps x)) + sum_list (map (\<lambda>v. Suc (length (deps v))) (filter (\<lambda>v. (marks(x := m)) v = kUnvisited) nodes))"
proof (induction nodes)
  case (Cons y ys)
  show ?case
  proof (cases "y = x")
    case True
    then have "filter (\<lambda>v. (marks(x := m)) v = kUnvisited) ys = filter (\<lambda>v. marks v = kUnvisited) ys"
      using Cons.prems by (intro filter_cong) auto
    then show ?thesis using True Cons.prems by (simp del: fun_upd_apply) (simp)
  next
    case False
    then show ?thesis using Cons by auto
  qed
qed simp

lemma potential_keep:
  "marks x \<noteq> kUnvisited \<Longrightarrow> m \<noteq> kUnvisited \<Longrightarrow>
    filter (\<lambda>v. (marks(x := m)) v = kUnvisited) nodes = filter (\<lambda>v. marks v = kUnvisited) nodes"
  by (intro filter_cong) auto

text \<open>The three moves of the loop keep the invariant.\<close>

lemma dfs_inv_top:
  "dfs_inv deps N marks ((v, i) # st) fin \<longleftrightarrow>
    topo_order deps fin \<and> set fin = {v. marks v = kDone} \<and> set fin \<subseteq> N
     \<and> distinct (v # map fst st) \<and> set (v # map fst st) = {v. marks v = kInStack} \<and> set (v # map fst st) \<subseteq> N
     \<and> i \<le> length (deps v) \<and> (\<forall>j < i. deps v ! j \<in> set fin) \<and> explored deps (set fin) (Some v) st"
  by (simp only: dfs_inv_def explored.simps list.map fst_conv)

lemma dfs_inv_pop:
  assumes "dfs_inv deps N marks ((v, i) # st) fin" "\<not> i < length (deps v)"
  shows "dfs_inv deps N (marks(v := kDone)) st (fin @ [v])"
proof -
  have i: "i = length (deps v)" and dn: "\<forall>j < i. deps v ! j \<in> set fin" and ex: "explored deps (set fin) (Some v) st"
    and fin: "topo_order deps fin" "set fin = {v. marks v = kDone}" "set fin \<subseteq> N"
    and st: "distinct (v # map fst st)" "set (v # map fst st) = {v. marks v = kInStack}" "set (v # map fst st) \<subseteq> N"
    using assms unfolding dfs_inv_top by (linarith | blast)+
  have mv: "marks v = kInStack" using st(2) by auto
  then have vf: "v \<notin> set fin" using fin(2) by simp
  have "set (deps v) \<subseteq> set fin" using dn i by (auto simp: in_set_conv_nth)
  then have 1: "topo_order deps (fin @ [v])" using fin(1) vf by (simp add: topo_order_snoc)
  have 2: "set (fin @ [v]) = {x. (marks(v := kDone)) x = kDone}" using fin(2) by auto
  have 3: "set (map fst st) = {x. (marks(v := kDone)) x = kInStack}" using st(1,2) by auto
  have "explored deps (set (fin @ [v])) None st"
  proof (cases st)
    case (Cons y ys)
    obtain w k where y: "y = (w, k)" by (cases y)
    have k: "0 < k" "k \<le> length (deps w)" "deps w ! (k - 1) = v" "\<forall>j < k - 1. deps w ! j \<in> set fin"
      and r: "explored deps (set fin) (Some w) ys" using ex by (auto simp: Cons y)
    have "deps w ! j \<in> set (fin @ [v])" if "j < k" for j
      using that k(3,4) by (cases "j = k - 1") auto
    then show ?thesis using k(2) explored_mono [OF r, of "set (fin @ [v])"] by (auto simp: Cons y)
  qed simp
  moreover have "set (fin @ [v]) \<subseteq> N" "distinct (map fst st)" "set (map fst st) \<subseteq> N" using st(1,3) fin(3) by auto
  ultimately show ?thesis unfolding dfs_inv_def using 1 2 3 by (intro conjI)
qed

lemma dfs_inv_advance:
  assumes "dfs_inv deps N marks ((v, i) # st) fin" "i < length (deps v)" "marks (deps v ! i) = kDone"
  shows "dfs_inv deps N marks ((v, Suc i) # st) fin"
proof -
  have "deps v ! i \<in> set fin" using assms(1,3) unfolding dfs_inv_top by blast
  then have "\<forall>j < Suc i. deps v ! j \<in> set fin" using assms(1) unfolding dfs_inv_top less_Suc_eq by blast
  moreover have "Suc i \<le> length (deps v)" using assms(2) by simp
  ultimately show ?thesis using assms(1) unfolding dfs_inv_top by blast
qed

lemma dfs_inv_push:
  assumes "dfs_inv deps N marks ((v, i) # st) fin" "i < length (deps v)" "marks (deps v ! i) = kUnvisited"
    and "deps v ! i \<in> N"
  shows "dfs_inv deps N (marks(deps v ! i := kInStack)) ((deps v ! i, 0) # (v, Suc i) # st) fin"
proof -
  have a: "topo_order deps fin" "set fin = {v. marks v = kDone}" "set fin \<subseteq> N"
    "distinct (v # map fst st)" "set (v # map fst st) = {v. marks v = kInStack}" "set (v # map fst st) \<subseteq> N"
    "\<forall>j < i. deps v ! j \<in> set fin" "explored deps (set fin) (Some v) st"
    using assms(1) unfolding dfs_inv_top by blast+
  let ?x = "deps v ! i" and ?m = "marks(deps v ! i := kInStack)"
  have x: "?x \<notin> set (v # map fst st)" using a(5) assms(3) by auto
  have "set fin = {u. ?m u = kDone}" using a(2) assms(3) by auto
  moreover have "set (map fst ((?x, 0) # (v, Suc i) # st)) = {u. ?m u = kInStack}" using a(5) by auto
  moreover have "explored deps (set fin) None ((?x, 0) # (v, Suc i) # st)" using a(7,8) assms(2) by simp
  moreover have "distinct (map fst ((?x, 0) # (v, Suc i) # st))" using a(4) x by simp
  moreover have "set (map fst ((?x, 0) # (v, Suc i) # st)) \<subseteq> N" using a(6) assms(4) by simp
  ultimately show ?thesis unfolding dfs_inv_def using a(1,3) by (intro conjI)
qed

definition dfs_result :: "('a \<Rightarrow> 'a list) \<Rightarrow> 'a set \<Rightarrow> ('a \<Rightarrow> Mark) \<Rightarrow> ('a + ('a \<Rightarrow> Mark)) option \<Rightarrow> bool" where
  "dfs_result deps N marks r =
    ((\<exists>x. r = Some (Inl x) \<and> \<not> acyclic (dep_rel deps N))
     \<or> (\<exists>marks' fin. r = Some (Inr marks') \<and> dfs_inv deps N marks' [] fin
          \<and> (\<forall>u. marks u \<noteq> kUnvisited \<longrightarrow> marks' u \<noteq> kUnvisited)))"

lemma dfs_result_mono:
  "dfs_result deps N marks r \<Longrightarrow> (\<And>u. m0 u \<noteq> kUnvisited \<Longrightarrow> marks u \<noteq> kUnvisited) \<Longrightarrow> dfs_result deps N m0 r"
  unfolding dfs_result_def by blast

lemma dfs_loop_spec:
  assumes "closed_graph deps nodes" "dfs_inv deps (set nodes) marks stack fin"
    and "dfs_potential deps nodes marks stack < fuel"
  shows "dfs_result deps (set nodes) marks (dfs_loop fuel deps marks stack)"
  using assms(2,3)
proof (induction fuel arbitrary: marks stack fin)
  case (Suc n)
  show ?case
  proof (cases stack)
    case Nil
    then show ?thesis using Suc.prems(1) by (auto simp: dfs_result_def)
  next
    case (Cons x st)
    obtain v i where x: "x = (v, i)" by (cases x)
    note inv = Suc.prems(1) [unfolded Cons x] and pot = Suc.prems(2) [unfolded Cons x]
    have vN: "v \<in> set nodes" "marks v = kInStack" "set (v # map fst st) = {u. marks u = kInStack}"
      using inv unfolding dfs_inv_top by auto
    show ?thesis
    proof (cases "i < length (deps v)")
      case False
      have "dfs_potential deps nodes (marks(v := kDone)) st < n"
        using pot potential_keep [of marks v kDone nodes] vN(2) by (simp add: dfs_potential_def)
      note r = Suc.IH [OF dfs_inv_pop [OF inv False] this]
      have e: "dfs_loop (Suc n) deps marks stack = dfs_loop n deps (marks(v := kDone)) st"
        using False by (simp add: Cons x)
      show ?thesis unfolding e by (rule dfs_result_mono [OF r]) simp
    next
      case True
      let ?u = "deps v ! i"
      have uN: "?u \<in> set nodes"
        using assms(1) vN(1) nth_mem [OF True] unfolding closed_graph_def list_all_iff by blast
      show ?thesis
      proof (cases "marks ?u")
        case kUnvisited
        have "dfs_potential deps nodes (marks(?u := kInStack)) ((?u, 0) # (v, Suc i) # st) < n"
          using pot potential_mark [of nodes marks ?u kInStack deps] kUnvisited uN assms(1) True
          by (simp add: dfs_potential_def closed_graph_def)
        note r = Suc.IH [OF dfs_inv_push [OF inv True kUnvisited uN] this]
        have e: "dfs_loop (Suc n) deps marks stack
            = dfs_loop n deps (marks(?u := kInStack)) ((?u, 0) # (v, Suc i) # st)"
          using True kUnvisited by (simp add: Cons x Let_def)
        show ?thesis unfolding e by (rule dfs_result_mono [OF r]) simp
      next
        case kInStack
        have "explored deps (set fin) (Some v) st" "set (map fst st) \<subseteq> set nodes"
          using inv unfolding dfs_inv_top by auto
        moreover have "?u = v \<or> ?u \<in> set (map fst st)" using vN(3) kInStack by auto
        ultimately have "(v, ?u) \<in> (dep_rel deps (set nodes))\<^sup>*"
          using explored_path [of deps "set fin" v st "set nodes" ?u] by (metis rtrancl.rtrancl_refl)
        moreover have "(?u, v) \<in> dep_rel deps (set nodes)" using vN(1) True by (simp add: dep_rel_def)
        ultimately have "\<not> acyclic (dep_rel deps (set nodes))" by (rule path_cycle)
        then show ?thesis using True kInStack by (simp add: Cons x Let_def dfs_result_def)
      next
        case kDone
        have "dfs_potential deps nodes marks ((v, Suc i) # st) < n"
          using pot True by (simp add: dfs_potential_def)
        from Suc.IH [OF dfs_inv_advance [OF inv True kDone] this] show ?thesis
          using True kDone by (simp add: Cons x Let_def)
      qed
    qed
  qed
qed simp

lemma sum_filter_le: "sum_list (map (f :: 'a \<Rightarrow> nat) (filter P xs)) \<le> sum_list (map f xs)"
  by (induction xs) auto

lemma dfs_all_spec:
  assumes "closed_graph deps nodes" "set starts \<subseteq> set nodes" "dfs_inv deps (set nodes) marks [] fin"
  shows "dfs_result deps (set nodes) marks (dfs_all (dfs_fuel deps nodes) deps starts marks)
    \<and> (\<forall>m. dfs_all (dfs_fuel deps nodes) deps starts marks = Some (Inr m) \<longrightarrow> (\<forall>v \<in> set starts. m v \<noteq> kUnvisited))"
  using assms(2,3)
proof (induction starts arbitrary: marks fin)
  case Nil
  then show ?case by (auto simp: dfs_result_def)
next
  case (Cons s rest)
  show ?case
  proof (cases "marks s = kUnvisited")
    case False
    then show ?thesis using Cons.IH [OF _ Cons.prems(2)] Cons.prems(1) by (auto simp: dfs_result_def)
  next
    case True
    let ?m = "marks(s := kInStack)"
    have inv: "dfs_inv deps (set nodes) ?m [(s, 0)] fin"
      using Cons.prems True by (auto simp: dfs_inv_def)
    have "dfs_potential deps nodes ?m [(s, 0)] < dfs_fuel deps nodes"
      using potential_mark [of nodes marks s kInStack deps] True Cons.prems(1) assms(1)
        sum_filter_le [of "\<lambda>v. Suc (length (deps v))" "\<lambda>v. marks v = kUnvisited" nodes]
      by (simp add: dfs_potential_def dfs_fuel_def closed_graph_def)
    from dfs_loop_spec [OF assms(1) inv this]
    have r: "dfs_result deps (set nodes) ?m (dfs_loop (dfs_fuel deps nodes) deps ?m [(s, 0)])" .
    then consider x where "dfs_loop (dfs_fuel deps nodes) deps ?m [(s, 0)] = Some (Inl x)" "\<not> acyclic (dep_rel deps (set nodes))"
      | m' fin' where "dfs_loop (dfs_fuel deps nodes) deps ?m [(s, 0)] = Some (Inr m')"
        "dfs_inv deps (set nodes) m' [] fin'" "\<And>u. ?m u \<noteq> kUnvisited \<Longrightarrow> m' u \<noteq> kUnvisited"
      unfolding dfs_result_def by blast
    then show ?thesis
    proof cases
      case 1
      then show ?thesis using True by (auto simp: dfs_result_def)
    next
      case 2
      have sub: "set rest \<subseteq> set nodes" using Cons.prems(1) by simp
      note ih = Cons.IH [OF sub 2(2)]
      have keep: "marks u \<noteq> kUnvisited \<Longrightarrow> m' u \<noteq> kUnvisited" for u using 2(3) [of u] by (auto split: if_splits)
      have ms: "m' s \<noteq> kUnvisited" using 2(3) [of s] by simp
      have e: "dfs_all (dfs_fuel deps nodes) deps (s # rest) marks = dfs_all (dfs_fuel deps nodes) deps rest m'"
        using 2(1) True by simp
      have "m s \<noteq> kUnvisited" if "dfs_all (dfs_fuel deps nodes) deps rest m' = Some (Inr m)" for m
        using ih that ms unfolding dfs_result_def by auto
      then show ?thesis unfolding e using ih dfs_result_mono [of deps "set nodes" m' _ marks] keep by auto
    qed
  qed
qed

text \<open>The search never runs out of fuel and reports a cycle exactly when there is one.\<close>

lemma find_cycle_correct:
  assumes "closed_graph deps nodes"
  shows "if acyclic (dep_rel deps (set nodes)) then \<exists>m. find_cycle deps nodes = Some (Inr m)
    else \<exists>x. find_cycle deps nodes = Some (Inl x)"
proof -
  have "dfs_inv deps (set nodes) (\<lambda>_. kUnvisited) [] []" by (simp add: dfs_inv_def)
  note all = dfs_all_spec [OF assms order.refl this, folded find_cycle_def]
  have "acyclic (dep_rel deps (set nodes))" if m: "find_cycle deps nodes = Some (Inr m)" for m
  proof -
    obtain fin where fin: "dfs_inv deps (set nodes) m [] fin" using all m by (auto simp: dfs_result_def)
    have "v \<in> set fin" if "v \<in> set nodes" for v
      using fin all m that by (cases "m v") (auto simp: dfs_inv_def)
    then have "set fin = set nodes" using fin by (auto simp: dfs_inv_def)
    then show ?thesis using fin topo_order_acyclic by (auto simp: dfs_inv_def)
  qed
  then show ?thesis using all unfolding dfs_result_def by (auto split: if_splits)
qed

end
