(* ===== verification/Registry.thy ===== *)
theory Registry
  imports Prelude
begin

text \<open>
  The contract shared by the library's name-to-factory registries (monitors, caches, RPC backends, dag
  nodes, ops): registration refuses a taken name and otherwise adds the entry; creation refuses an
  unknown name; lookups see exactly what was registered.  The clients' lemmas are proved once here
  and each registry's theory interprets the locale on its own operations.
\<close>

fun register_all :: "('k \<Rightarrow> 'f \<Rightarrow> 'r \<Rightarrow> 'r res) \<Rightarrow> ('k \<times> 'f) list \<Rightarrow> 'r \<Rightarrow> 'r res" where
  "register_all reg [] r = Inr r"
| "register_all reg ((k, f) # kfs) r = bindR (reg k f r) (register_all reg kfs)"

locale named_registry =
  fixes register :: "'k \<Rightarrow> 'f \<Rightarrow> 'r \<Rightarrow> 'r res"
    and lookup :: "'r \<Rightarrow> 'k \<Rightarrow> 'f res"
    and contains :: "'r \<Rightarrow> 'k \<Rightarrow> bool"
    and abs :: "'r \<Rightarrow> 'k \<Rightarrow> 'f option"
  assumes register_fresh: "abs r k = None \<Longrightarrow> \<exists>r'. register k f r = Inr r' \<and> abs r' = (abs r)(k \<mapsto> f)"
    and register_taken: "abs r k \<noteq> None \<Longrightarrow> \<exists>m. register k f r = Inl (InvalidArgument m)"
    and lookup_some: "abs r k = Some f \<Longrightarrow> lookup r k = Inr f"
    and lookup_none: "abs r k = None \<Longrightarrow> \<exists>m. lookup r k = Inl (OutOfRange m)"
    and contains_iff: "contains r k \<longleftrightarrow> abs r k \<noteq> None"
begin

lemma register_abs: "register k f r = Inr r' \<Longrightarrow> abs r k = None \<and> abs r' = (abs r)(k \<mapsto> f)"
  using register_fresh [of r k f] register_taken [of r k f] by (cases "abs r k") auto

lemma register_then_lookup: "register k f r = Inr r' \<Longrightarrow> lookup r' k = Inr f \<and> contains r' k"
  using register_abs lookup_some contains_iff by fastforce

lemma register_keeps: "register k f r = Inr r' \<Longrightarrow> lookup r j = Inr g \<Longrightarrow> lookup r' j = Inr g"
proof -
  assume a: "register k f r = Inr r'" "lookup r j = Inr g"
  then have s: "abs r j = Some g" using lookup_some [of r j] lookup_none [of r j] by (cases "abs r j") auto
  then have "abs r' j = Some g" using register_abs [OF a(1)] by (auto split: if_splits)
  then show ?thesis by (rule lookup_some)
qed

lemma register_twice: "register k f r = Inr r' \<Longrightarrow> \<exists>m. register k g r' = Inl (InvalidArgument m)"
  using register_abs register_taken by fastforce

text \<open>A batch of registrations succeeds exactly when its names are new and distinct, and then every
  lookup is answered from the batch first and from the old registry otherwise.\<close>

lemma register_all_abs:
  "register_all register kfs r = Inr r' \<Longrightarrow>
    distinct (map fst kfs) \<and> (\<forall>k \<in> set (map fst kfs). abs r k = None) \<and> abs r' = abs r ++ map_of kfs"
proof (induction kfs arbitrary: r)
  case (Cons kf kfs)
  obtain k f where kf: "kf = (k, f)" by (cases kf)
  from Cons.prems kf obtain r1 where r1: "register k f r = Inr r1" "register_all register kfs r1 = Inr r'"
    by (auto simp: ok_iff)
  note a = register_abs [OF r1(1)]
  have ih: "distinct (map fst kfs)" "\<forall>j \<in> set (map fst kfs). abs r1 j = None" "abs r' = abs r1 ++ map_of kfs"
    using Cons.IH [OF r1(2)] by auto
  have k: "k \<notin> set (map fst kfs)" using ih(2) a by auto
  then have "map_of kfs k = None" by (simp add: map_of_None_iff)
  then have "abs r' x = (abs r ++ map_of (kf # kfs)) x" for x
    using ih(3) a by (cases "x = k") (auto simp: kf map_add_def split: option.splits)
  then have "abs r' = abs r ++ map_of (kf # kfs)" ..
  moreover have "distinct (map fst (kf # kfs))" using ih(1) k by (simp add: kf)
  moreover have "\<forall>j \<in> set (map fst (kf # kfs)). abs r j = None"
    using ih(2) a k by (auto simp: kf split: if_splits)
  ultimately show ?case by (intro conjI)
qed simp

lemma register_all_total:
  "distinct (map fst kfs) \<Longrightarrow> (\<forall>k \<in> set (map fst kfs). abs r k = None) \<Longrightarrow>
    \<exists>r'. register_all register kfs r = Inr r'"
proof (induction kfs arbitrary: r)
  case (Cons kf kfs)
  obtain k f where kf: "kf = (k, f)" by (cases kf)
  obtain r1 where r1: "register k f r = Inr r1" "abs r1 = (abs r)(k \<mapsto> f)"
    using register_fresh [of r k f] Cons.prems by (auto simp: kf)
  have "\<exists>r'. register_all register kfs r1 = Inr r'"
    by (rule Cons.IH) (use Cons.prems r1(2) in \<open>auto simp: kf\<close>)
  then show ?case using r1(1) by (simp add: kf)
qed simp

lemma register_all_iff:
  "(\<exists>r'. register_all register kfs r = Inr r') \<longleftrightarrow>
    distinct (map fst kfs) \<and> (\<forall>k \<in> set (map fst kfs). abs r k = None)"
  using register_all_abs register_all_total by blast

end

end
