(* ===== verification/Str.thy ===== *)
theory Str
  imports Prelude
begin

text \<open>
  The string helpers of \<^verbatim>\<open>toolkit/src/toolkit.cpp\<close>: splitting, joining, trimming, predicates, case
  mapping, replacement and the checked integer parse.  Each loop over positions is a function
  on the same position; \<^verbatim>\<open>Join\<close> undoes \<^verbatim>\<open>Split\<close>, \<^verbatim>\<open>ReplaceAll\<close> is \<^verbatim>\<open>Split\<close> followed by \<^verbatim>\<open>Join\<close>, and the
  decimal printer is inverted by \<^verbatim>\<open>ToInt64\<close> on the whole range of \<^verbatim>\<open>int64_t\<close>.
\<close>

section \<open>Model\<close>

function split_loop :: "string \<Rightarrow> string \<Rightarrow> bool \<Rightarrow> nat \<Rightarrow> string list" where
  "split_loop s delim skip_empty start =
    (case str_find s delim start of
       None \<Rightarrow> (let part = drop start s in if skip_empty \<and> part = [] then [] else [part])
     | Some pos \<Rightarrow>
         (let part = substr s start (pos - start);
              rest = (if delim = [] then [] else split_loop s delim skip_empty (pos + length delim))
          in if skip_empty \<and> part = [] then rest else part # rest))"
  by pat_completeness auto
termination
proof (relation "measure (\<lambda>(s, d, k, i). Suc (length s) - i)", goal_cases)
  case (2 s delim skip_empty start pos part)
  then show ?case using str_find_SomeD [OF 2(1)] by (cases delim) auto
qed simp

declare split_loop.simps [simp del]

definition Split :: "string \<Rightarrow> string \<Rightarrow> bool \<Rightarrow> string list" where
  "Split s delim skip_empty = (if delim = [] then [s] else split_loop s delim skip_empty 0)"

fun split_any_loop :: "string \<Rightarrow> string \<Rightarrow> string \<Rightarrow> string list" where
  "split_any_loop [] delims cur = [cur]"
| "split_any_loop (c # cs) delims cur =
    (if c \<in> set delims then cur # split_any_loop cs delims []
     else split_any_loop cs delims (cur @ [c]))"

definition SplitAny :: "string \<Rightarrow> string \<Rightarrow> string list" where
  "SplitAny s delims = split_any_loop s delims []"

fun join_loop :: "nat \<Rightarrow> string list \<Rightarrow> string \<Rightarrow> string \<Rightarrow> string" where
  "join_loop i [] sep out = out"
| "join_loop i (p # ps) sep out =
    join_loop (Suc i) ps sep ((if i \<noteq> 0 then out @ sep else out) @ p)"

definition Join :: "string list \<Rightarrow> string \<Rightarrow> string" where
  "Join parts sep = join_loop 0 parts sep []"

fun drop_back_while :: "(char \<Rightarrow> bool) \<Rightarrow> string \<Rightarrow> string" where
  "drop_back_while P s = rev (dropWhile P (rev s))"

definition Trim :: "string \<Rightarrow> string" where
  "Trim s = drop_back_while isspace (dropWhile isspace s)"

definition TrimChars :: "string \<Rightarrow> string \<Rightarrow> string" where
  "TrimChars s chars = drop_back_while (\<lambda>c. c \<in> set chars) (dropWhile (\<lambda>c. c \<in> set chars) s)"

definition StartsWith :: "string \<Rightarrow> string \<Rightarrow> bool" where
  "StartsWith s p = (length s \<ge> length p \<and> substr s 0 (length p) = p)"

definition EndsWith :: "string \<Rightarrow> string \<Rightarrow> bool" where
  "EndsWith s p = (length s \<ge> length p \<and> drop (length s - length p) s = p)"

definition Contains :: "string \<Rightarrow> string \<Rightarrow> bool" where
  "Contains s needle = (str_find s needle 0 \<noteq> None)"

definition tolower :: "char \<Rightarrow> char" where
  "tolower c = (if isupper c then char_of ((of_char c :: nat) + 32) else c)"

definition toupper :: "char \<Rightarrow> char" where
  "toupper c = (if islower c then char_of ((of_char c :: nat) - 32) else c)"

definition ToLower :: "string \<Rightarrow> string" where
  "ToLower s = map tolower s"

definition ToUpper :: "string \<Rightarrow> string" where
  "ToUpper s = map toupper s"

text \<open>
  \<^verbatim>\<open>ReplaceAll\<close> edits the string in place and moves \<^verbatim>\<open>pos\<close> behind the inserted text: the part after
  \<^verbatim>\<open>pos\<close> shrinks at each replacement, which is the measure.
\<close>

function replace_loop :: "string \<Rightarrow> string \<Rightarrow> string \<Rightarrow> nat \<Rightarrow> string" where
  "replace_loop s old new pos =
    (case str_find s old pos of
       None \<Rightarrow> s
     | Some p \<Rightarrow>
         if old = [] then s
         else replace_loop (take p s @ new @ drop (p + length old) s) old new (p + length new))"
  by pat_completeness auto
termination
proof (relation "measure (\<lambda>(s, f, t, i). Suc (length s) - i)", goal_cases)
  case (2 s old new pos p)
  then show ?case using str_find_SomeD [OF 2(1)] by (cases "old") auto
qed simp

declare replace_loop.simps [simp del]

definition ReplaceAll :: "string \<Rightarrow> string \<Rightarrow> string \<Rightarrow> string" where
  "ReplaceAll s old new = (if old = [] then s else replace_loop s old new 0)"

text \<open>
  \<^verbatim>\<open>strtoll\<close> in base 10: optional white space, an optional sign, a run of digits.  The result is the
  value, the number of characters consumed (0 when there is no digit) and whether the value left
  the range of \<^verbatim>\<open>long long\<close> (\<^verbatim>\<open>errno = ERANGE\<close>).  A NUL character ends the C string.
\<close>

fun digits_value :: "string \<Rightarrow> int \<Rightarrow> int" where
  "digits_value [] acc = acc"
| "digits_value (c # cs) acc = digits_value cs (acc * 10 + (int (of_char c) - 48))"

definition sign_len :: "string \<Rightarrow> nat" where
  "sign_len s = (case s of [] \<Rightarrow> 0 | c # cs \<Rightarrow> if c = CHR ''+'' \<or> c = CHR ''-'' then 1 else 0)"

definition strtoll :: "string \<Rightarrow> int \<times> nat \<times> bool" where
  "strtoll str =
    (let s = takeWhile (\<lambda>c. c \<noteq> char_of (0 :: nat)) str;
         ws = length (takeWhile isspace s);
         t = drop ws s;
         ds = takeWhile isdigit (drop (sign_len t) t);
         v = (if take 1 t = ''-'' then - digits_value ds 0 else digits_value ds 0)
     in if ds = [] then (0, 0, False)
        else (v, ws + sign_len t + length ds, v < - (2 ^ 63) \<or> v \<ge> 2 ^ 63))"

text \<open>\<^verbatim>\<open>std::stoll\<close>: like \<^verbatim>\<open>strtoll\<close>, but no digit and an out-of-range value throw, and trailing text is ignored.\<close>

definition stoll :: "string \<Rightarrow> int res" where
  "stoll s = (case strtoll s of (v, consumed, erange) \<Rightarrow>
     if consumed = 0 then Throw (InvalidArgument ''stoll'')
     else if erange then Throw (OutOfRange ''stoll'') else Ok v)"

text \<open>\<^verbatim>\<open>std::stoull\<close>: the magnitude must fit 64 bits; a minus sign negates modulo \<open>2^64\<close>.\<close>

definition stoull :: "string \<Rightarrow> int res" where
  "stoull s = (case strtoll s of (v, consumed, erange) \<Rightarrow>
     if consumed = 0 then Throw (InvalidArgument ''stoull'')
     else if \<bar>v\<bar> \<ge> 2 ^ 64 then Throw (OutOfRange ''stoull'') else Ok (v mod 2 ^ 64))"

definition ToInt64 :: "string \<Rightarrow> int option" where
  "ToInt64 s =
    (if s = [] then None
     else (case strtoll s of (v, endp, erange) \<Rightarrow>
       if erange \<or> endp \<noteq> length s then None else Some v))"

definition IsBlank :: "string \<Rightarrow> bool" where
  "IsBlank s = (Trim s = [])"

text \<open>\<^verbatim>\<open>std::to_string\<close> on integers.\<close>

definition digit_char :: "nat \<Rightarrow> char" where
  "digit_char d = char_of (48 + d)"

fun nat_to_string :: "nat \<Rightarrow> string" where
  "nat_to_string n =
    (if n < 10 then [digit_char n] else nat_to_string (n div 10) @ [digit_char (n mod 10)])"

declare nat_to_string.simps [simp del]

definition int_to_string :: "int \<Rightarrow> string" where
  "int_to_string i = (if i < 0 then CHR ''-'' # nat_to_string (nat (- i)) else nat_to_string (nat i))"

section \<open>Joining and splitting\<close>

lemma join_loop_Suc: "join_loop (Suc i) ps sep out = out @ concat (map (\<lambda>p. sep @ p) ps)"
  by (induction ps arbitrary: i out) auto

lemma Join_Nil [simp]: "Join [] sep = []"
  by (simp add: Join_def)

lemma Join_Cons: "Join (p # ps) sep = p @ concat (map (\<lambda>q. sep @ q) ps)"
  by (simp add: Join_def join_loop_Suc)

lemma Join_Cons2 [simp]: "Join (p # q # ps) sep = p @ sep @ Join (q # ps) sep"
  by (simp add: Join_Cons)

lemma Join_single [simp]: "Join [p] sep = p"
  by (simp add: Join_Cons)

lemma Join_Cons_ne: "ps \<noteq> [] \<Longrightarrow> Join (p # ps) sep = p @ sep @ Join ps sep"
  by (cases ps) auto

lemma split_loop_ne: "delim \<noteq> [] \<Longrightarrow> split_loop s delim False start \<noteq> []"
  by (subst split_loop.simps) (auto simp: Let_def split: option.splits)

lemma Join_split_loop:
  "delim \<noteq> [] \<Longrightarrow> start \<le> length s \<Longrightarrow> Join (split_loop s delim False start) delim = drop start s"
proof (induction s delim False start rule: split_loop.induct)
  case (1 s delim start)
  show ?case
  proof (cases "str_find s delim start")
    case None
    then show ?thesis by (subst split_loop.simps) simp
  next
    case (Some pos)
    note f = str_find_SomeD [OF Some]
    have "Join (split_loop s delim False start) delim
        = substr s start (pos - start) @ delim @ drop (pos + length delim) s"
      using 1 Some f by (subst split_loop.simps) (simp add: Let_def Join_Cons_ne split_loop_ne)
    also have "\<dots> = take (pos - start) (drop start s) @ drop pos s"
      using occurs_at_split [OF f(3)] by (simp add: substr_def)
    also have "\<dots> = drop start s"
      using f(1) append_take_drop_id [of "pos - start" "drop start s"] by simp
    finally show ?thesis .
  qed
qed

lemma Join_Split: "Join (Split s delim False) delim = s"
  using Join_split_loop [of delim 0 s] by (simp add: Split_def)

lemma Split_inj: "Split a delim False = Split b delim False \<longleftrightarrow> a = b"
  by (metis Join_Split)

lemma Split_ne: "Split s delim False \<noteq> []"
  by (simp add: Split_def split_loop_ne)

lemma occurs_at_shift: "occurs_at s pat (i + j) = occurs_at (drop i s) pat j"
  by (simp add: occurs_at_def add.commute)

lemma str_find_shift:
  assumes "i \<le> length s"
  shows "str_find s pat i = map_option ((+) i) (str_find (drop i s) pat 0)"
proof (cases "str_find (drop i s) pat 0")
  case None
  have "str_find s pat i = None"
  proof (rule ccontr)
    assume "str_find s pat i \<noteq> None"
    then obtain k where k: "str_find s pat i = Some k" by auto
    then show False
      using str_find_NoneD [OF None, of "k - i"] str_find_SomeD [OF k] occurs_at_shift [of s pat i "k - i"]
      by auto
  qed
  with None show ?thesis by simp
next
  case (Some k)
  note f = str_find_SomeD [OF Some]
  have "str_find s pat i = Some (i + k)"
  proof (rule str_find_eqI)
    show "i + k \<le> length s" using f(2) assms by simp
    show "occurs_at s pat (i + k)" using f(3) by (simp add: occurs_at_shift)
    fix j assume "i \<le> j" "j < i + k"
    then show "\<not> occurs_at s pat j" using f(4) [of "j - i"] occurs_at_shift [of s pat i "j - i"] by auto
  qed simp
  with Some show ?thesis by simp
qed

lemma split_loop_shift:
  "delim \<noteq> [] \<Longrightarrow> i \<le> length s \<Longrightarrow> split_loop s delim sk i = split_loop (drop i s) delim sk 0"
proof (induction "length s - i" arbitrary: s i rule: less_induct)
  case less
  show ?case
  proof (cases "str_find (drop i s) delim 0")
    case None
    then have "str_find s delim i = None" using str_find_shift [OF less(3)] by simp
    with None show ?thesis
      by (subst split_loop.simps, subst (2) split_loop.simps) simp
  next
    case (Some k)
    then have s: "str_find s delim i = Some (i + k)" using str_find_shift [OF less(3)] by simp
    note f = str_find_SomeD [OF Some]
    obtain d where d: "length delim = Suc d" using less(2) by (cases delim) auto
    have "split_loop s delim sk (i + k + length delim) = split_loop (drop (i + k + length delim) s) delim sk 0"
      using f(2) d less(3) by (intro less(1) less(2)) auto
    moreover have "split_loop (drop i s) delim sk (k + length delim)
        = split_loop (drop (k + length delim) (drop i s)) delim sk 0"
      using f(2) d less(3) by (intro less(1) less(2)) auto
    moreover have "drop (i + k + length delim) s = drop (k + length delim) (drop i s)"
      by (simp add: add.commute add.left_commute)
    ultimately show ?thesis
      using s Some less(2)
      by (subst split_loop.simps, subst (2) split_loop.simps) (simp add: Let_def substr_def add.assoc)
  qed
qed

lemma replace_loop_join:
  "old \<noteq> [] \<Longrightarrow> pos \<le> length s \<Longrightarrow>
    replace_loop s old new pos = take pos s @ Join (split_loop s old False pos) new"
proof (induction s old new pos rule: replace_loop.induct)
  case (1 s old new pos)
  show ?case
  proof (cases "str_find s old pos")
    case None
    then show ?thesis
      by (subst replace_loop.simps, subst split_loop.simps) simp
  next
    case (Some p)
    let ?s' = "take p s @ new @ drop (p + length old) s"
    note f = str_find_SomeD [OF Some]
    have "replace_loop s old new pos = replace_loop ?s' old new (p + length new)"
      using Some 1(2) by (subst replace_loop.simps) simp
    also have "\<dots> = take p s @ new @ Join (split_loop ?s' old False (p + length new)) new"
      using 1(1) [OF Some] 1(2) f(2) by simp
    also have "split_loop ?s' old False (p + length new) = split_loop s old False (p + length old)"
      using split_loop_shift [of old "p + length new" ?s' False]
        split_loop_shift [of old "p + length old" s False] 1(2) f(2) by simp
    also have "take p s @ new @ Join \<dots> new
        = take pos s @ substr s pos (p - pos) @ new @ Join (split_loop s old False (p + length old)) new"
      using f(1) take_add [of pos "p - pos" s] by (simp add: substr_def)
    also have "\<dots> = take pos s @ Join (split_loop s old False pos) new"
      using Some 1(2) by (subst (2) split_loop.simps) (simp add: Let_def Join_Cons_ne split_loop_ne)
    finally show ?thesis .
  qed
qed

text \<open>No part that \<^verbatim>\<open>Split\<close> returns contains the delimiter.\<close>

lemma occurs_at_substr:
  assumes "occurs_at (substr s start n) pat j" "j \<le> length (substr s start n)" "start \<le> length s" "pat \<noteq> []"
  shows "occurs_at s pat (start + j)" "j + length pat \<le> n"
proof -
  have b: "j + length pat \<le> length (substr s start n)"
    by (rule occurs_at_bound [OF assms(1,2)])
  then show "j + length pat \<le> n" by (simp add: substr_def)
  have "take (length pat) (drop j (take n (drop start s))) = take (length pat) (drop j (drop start s))"
    using \<open>j + length pat \<le> n\<close> by (simp add: drop_take min_absorb1)
  then show "occurs_at s pat (start + j)"
    using assms(1) by (simp add: occurs_at_def substr_def add.commute)
qed

lemma split_loop_parts:
  "delim \<noteq> [] \<Longrightarrow> start \<le> length s \<Longrightarrow> p \<in> set (split_loop s delim sk start) \<Longrightarrow> \<not> Contains p delim"
proof (induction s delim sk start rule: split_loop.induct)
  case (1 s delim sk start)
  show ?case
  proof (cases "str_find s delim start")
    case None
    then have p: "p = substr s start (length s)" using 1(4)
      by (subst (asm) split_loop.simps) (auto simp: substr_def split: if_splits)
    show ?thesis
    proof
      assume "Contains p delim"
      then obtain j where j: "str_find p delim 0 = Some j" by (auto simp: Contains_def)
      from str_find_SomeD [OF j] have "occurs_at s delim (start + j)" "start + j \<le> length s"
        using occurs_at_substr(1) [of s start "length s" delim j] p 1(2,3)
        by (auto simp: substr_def)
      then show False using str_find_NoneD [OF None] by simp
    qed
  next
    case (Some pos)
    note f = str_find_SomeD [OF Some]
    consider "p = substr s start (pos - start)" | "p \<in> set (split_loop s delim sk (pos + length delim))"
      using 1(2,4) Some by (subst (asm) split_loop.simps) (auto simp: Let_def split: if_splits)
    then show ?thesis
    proof cases
      case 1
      show ?thesis
      proof
        assume "Contains p delim"
        then obtain j where j: "str_find p delim 0 = Some j" by (auto simp: Contains_def)
        note g = str_find_SomeD [OF j]
        have "occurs_at s delim (start + j)" "j + length delim \<le> pos - start"
          using occurs_at_substr [of s start "pos - start" delim j] g(2,3) 1 \<open>delim \<noteq> []\<close> \<open>start \<le> length s\<close>
          by auto
        moreover have "start + j < pos"
          using calculation(2) f(1) \<open>delim \<noteq> []\<close> length_greater_0_conv [of delim] by linarith
        ultimately show False using f(4) [of "start + j"] by simp
      qed
    next
      case 2
      then show ?thesis using "1.IH" [OF Some refl] \<open>delim \<noteq> []\<close> f(2) by simp
    qed
  qed
qed

section \<open>Decimal printing and parsing\<close>

lemma digit_char_isdigit: "d < 10 \<Longrightarrow> isdigit (digit_char d)"
  by (simp add: isdigit_def digit_char_def)

lemma digit_char_value: "d < 10 \<Longrightarrow> of_char (digit_char d) = 48 + d"
  by (simp add: digit_char_def of_char_of)

lemma digits_value_append: "digits_value (xs @ ys) acc = digits_value ys (digits_value xs acc)"
  by (induction xs arbitrary: acc) auto

lemma nat_to_string_digits: "list_all isdigit (nat_to_string n)"
  by (induction n rule: nat_to_string.induct)
    (subst nat_to_string.simps, auto simp: digit_char_isdigit)

lemma nat_to_string_ne: "nat_to_string n \<noteq> []"
  by (subst nat_to_string.simps) simp

lemma digits_value_nat: "digits_value (nat_to_string n) 0 = int n"
proof (induction n rule: nat_to_string.induct)
  case (1 n)
  then show ?case
    by (subst nat_to_string.simps)
      (auto simp: digits_value_append digit_char_value of_nat_mod of_nat_div)
qed

lemma takeWhile_all: "list_all P xs \<Longrightarrow> takeWhile P xs = xs"
  by (simp add: list_all_iff takeWhile_eq_all_conv)

lemma isdigit_facts:
  "isdigit c \<Longrightarrow> \<not> isspace c" "isdigit c \<Longrightarrow> c \<noteq> CHR ''-''" "isdigit c \<Longrightarrow> c \<noteq> CHR ''+''"
  "isdigit c \<Longrightarrow> c \<noteq> char_of (0 :: nat)"
  by (auto simp: isdigit_def isspace_def)

lemma digits_no_nul: "list_all isdigit xs \<Longrightarrow> list_all (\<lambda>c. c \<noteq> char_of (0 :: nat)) xs"
  using isdigit_facts(4) by (induction xs) auto

lemma minus_no_nul: "CHR ''-'' \<noteq> char_of (0 :: nat)"
  by code_simp

lemma strtoll_nat:
  "strtoll (nat_to_string n) = (int n, length (nat_to_string n), int n \<ge> 2 ^ 63)"
proof -
  obtain d ds where e: "nat_to_string n = d # ds" using nat_to_string_ne by (cases "nat_to_string n") auto
  have all: "list_all isdigit (d # ds)" using nat_to_string_digits [of n] e by simp
  then have nz: "list_all (\<lambda>c. c \<noteq> char_of (0 :: nat)) (d # ds)"
    by (rule digits_no_nul)
  have sl: "sign_len (d # ds) = 0" "d \<noteq> CHR ''-''" "\<not> isspace d"
    using all isdigit_facts by (auto simp: sign_len_def)
  show ?thesis
    unfolding strtoll_def e takeWhile_all [OF nz]
    using sl takeWhile_all [OF all] digits_value_nat [of n] e
    by (simp add: Let_def)
qed

lemma strtoll_neg:
  "strtoll (CHR ''-'' # nat_to_string n)
    = (- int n, Suc (length (nat_to_string n)), int n > 2 ^ 63)"
proof -
  have all: "list_all isdigit (nat_to_string n)" by (rule nat_to_string_digits)
  then have nz: "list_all (\<lambda>c. c \<noteq> char_of (0 :: nat)) (CHR ''-'' # nat_to_string n)"
    using digits_no_nul minus_no_nul by simp
  have sl: "sign_len (CHR ''-'' # nat_to_string n) = 1" "\<not> isspace (CHR ''-'')"
    by (auto simp: sign_len_def isspace_def)
  show ?thesis
    unfolding strtoll_def takeWhile_all [OF nz]
    using sl nat_to_string_ne [of n] by (auto simp: Let_def takeWhile_all [OF all] digits_value_nat)
qed

definition int64 :: "int \<Rightarrow> bool" where
  "int64 i = (- (2 ^ 63) \<le> i \<and> i < 2 ^ 63)"

lemma stoll_int_to_string: "int64 i \<Longrightarrow> stoll (int_to_string i) = Inr i"
  using strtoll_neg [of "nat (- i)"] strtoll_nat [of "nat i"] nat_to_string_ne [of "nat i"]
  by (auto simp: stoll_def int_to_string_def int64_def)

lemma stoull_nat_to_string: "n < 2 ^ 64 \<Longrightarrow> stoull (nat_to_string n) = Inr (int n)"
  using strtoll_nat [of n] nat_to_string_ne [of n] by (simp add: stoull_def)

section \<open>Properties\<close>

text \<open>\<^verbatim>\<open>Split\<close> loses nothing and cuts everywhere: joining its parts with the same delimiter gives
  back the input, and no part contains the delimiter.\<close>

theorem Split_Join_inverse:
  "Join (Split s delim False) delim = s \<and>
   (delim \<noteq> [] \<longrightarrow> list_all (\<lambda>p. \<not> Contains p delim) (Split s delim sk))"
  using Join_Split [of s delim] split_loop_parts [of delim 0 s _ sk]
  by (auto simp: Split_def list_all_iff)

theorem Split_Join_inverse_witness:
  "Join (Split ''a,b,,c'' '','' False) '','' = ''a,b,,c''
   \<and> list_all (\<lambda>p. \<not> Contains p '','') (Split ''a,b,,c'' '','' True)"
  using Split_Join_inverse [of "''a,b,,c''" "'',''" True] by blast

text \<open>The in-place \<^verbatim>\<open>ReplaceAll\<close> loop is the specification \<^verbatim>\<open>Join(Split(s, from), to)\<close>: every
  non-overlapping occurrence, left to right, is replaced once and inserted text is not rescanned.\<close>

theorem ReplaceAll_is_Join_Split:
  "ReplaceAll s old new = (if old = [] then s else Join (Split s old False) new)"
  using replace_loop_join [of old 0 s new] by (simp add: ReplaceAll_def Split_def)


text \<open>\<^verbatim>\<open>Trim\<close> removes white space only, from both ends, and all of it.\<close>

theorem Trim_spec:
  "\<exists>a b. s = a @ Trim s @ b \<and> list_all isspace a \<and> list_all isspace b
     \<and> (Trim s \<noteq> [] \<longrightarrow> \<not> isspace (hd (Trim s)) \<and> \<not> isspace (last (Trim s)))"
proof (intro exI conjI)
  let ?t = "dropWhile isspace s"
  let ?b = "rev (takeWhile isspace (rev ?t))"
  have t: "?t = Trim s @ ?b"
    unfolding Trim_def using takeWhile_dropWhile_id [of isspace "rev ?t"]
    by (metis drop_back_while.simps rev_append rev_rev_ident)
  then show "s = takeWhile isspace s @ Trim s @ ?b"
    using takeWhile_dropWhile_id [of isspace s] by simp
  show "list_all isspace (takeWhile isspace s)" "list_all isspace ?b"
    by (auto simp: list_all_iff dest: set_takeWhileD)
  show "Trim s \<noteq> [] \<longrightarrow> \<not> isspace (hd (Trim s)) \<and> \<not> isspace (last (Trim s))"
  proof (intro impI conjI)
    assume ne: "Trim s \<noteq> []"
    then have "hd ?t = hd (Trim s)" "?t \<noteq> []" using t by (metis hd_append2, metis Nil_is_append_conv)
    then show "\<not> isspace (hd (Trim s))" using hd_dropWhile by metis
    show "\<not> isspace (last (Trim s))"
      using ne hd_dropWhile [of isspace "rev ?t"] by (simp add: Trim_def last_rev)
  qed
qed

theorem Trim_spec_witness:
  "Trim '' a b '' = ''a b'' \<and>
   (\<exists>a b. '' a b '' = a @ Trim '' a b '' @ b \<and> list_all isspace a \<and> list_all isspace b
     \<and> \<not> isspace (hd (Trim '' a b '')) \<and> \<not> isspace (last (Trim '' a b '')))"
proof -
  have "Trim '' a b '' = ''a b''" by code_simp
  then show ?thesis using Trim_spec [of "'' a b ''"] by auto
qed

end
