(* ===== verification/DagGraph.thy ===== *)
theory DagGraph
  imports Dependency Registry Str
begin

text \<open>
  Nodes, the node registry, graphs and \<^verbatim>\<open>GraphBuilder\<close> of the dag module.  A graph's nodes are addressed by
  their position, which stands for the node pointer; \<open>'b\<close> is the business object a factory makes.
  \<^verbatim>\<open>GraphBuilder::Build\<close> runs its three passes in order and is proved to accept exactly the
  definitions that describe an acyclic graph of registered types.
\<close>

section \<open>Model: nodes\<close>

datatype NodeStatus = kPending | kRunning | kSuccess | kFailed | kFallback | kSkipped

fun NodeStatus_ToString :: "NodeStatus \<Rightarrow> string" where
  "NodeStatus_ToString kPending = ''pending''"
| "NodeStatus_ToString kRunning = ''running''"
| "NodeStatus_ToString kSuccess = ''success''"
| "NodeStatus_ToString kFailed = ''failed''"
| "NodeStatus_ToString kFallback = ''fallback''"
| "NodeStatus_ToString kSkipped = ''skipped''"

record 'b Node =
  nd_id :: string
  nd_type :: string
  nd_dependencies :: "nat list"
  nd_done :: bool
  nd_status :: NodeStatus
  nd_elapsed :: int
  nd_started_at :: int
  nd_error :: "exn option"
  nd_business :: 'b

definition Node_new :: "'b \<Rightarrow> 'b Node" where
  "Node_new b = \<lparr>nd_id = [], nd_type = [], nd_dependencies = [], nd_done = False, nd_status = kPending,
     nd_elapsed = 0, nd_started_at = 0, nd_error = None, nd_business = b\<rparr>"

definition SetIdentity :: "string \<Rightarrow> string \<Rightarrow> 'b Node \<Rightarrow> 'b Node" where
  "SetIdentity i t n = n\<lparr>nd_id := i, nd_type := t\<rparr>"

definition AddDependency :: "nat \<Rightarrow> 'b Node \<Rightarrow> 'b Node" where
  "AddDependency d n = n\<lparr>nd_dependencies := nd_dependencies n @ [d]\<rparr>"

definition Node_ResetRunState :: "'b Node \<Rightarrow> 'b Node" where
  "Node_ResetRunState n = n\<lparr>nd_status := kPending, nd_elapsed := 0, nd_started_at := 0, nd_error := None, nd_done := False\<rparr>"

section \<open>Model: registry and graph\<close>

type_synonym 'b node_factories = "(string \<times> 'b) list"

definition NodeRegistry_Register :: "string \<Rightarrow> 'b \<Rightarrow> 'b node_factories \<Rightarrow> 'b node_factories res" where
  "NodeRegistry_Register t f fs =
    (if map_of fs t \<noteq> None
     then Throw (InvalidArgument (''NodeRegistry: duplicate node type '' @ [CHR 0x27] @ t @ [CHR 0x27]))
     else Ok ((t, f) # fs))"

definition NodeRegistry_Contains :: "'b node_factories \<Rightarrow> string \<Rightarrow> bool" where
  "NodeRegistry_Contains fs t = (map_of fs t \<noteq> None)"

definition NodeRegistry_find :: "'b node_factories \<Rightarrow> string \<Rightarrow> 'b res" where
  "NodeRegistry_find fs t = (case map_of fs t of
     None \<Rightarrow> Throw (OutOfRange (''NodeRegistry: unknown node type '' @ [CHR 0x27] @ t @ [CHR 0x27]))
   | Some f \<Rightarrow> Ok f)"

definition NodeRegistry_Create :: "'b node_factories \<Rightarrow> string \<Rightarrow> string \<Rightarrow> 'b Node res" where
  "NodeRegistry_Create fs t i =
    bindR (NodeRegistry_find fs t) (\<lambda>f. Ok (SetIdentity (if i = [] then t else i) t (Node_new f)))"

definition RegisteredTypes :: "'b node_factories \<Rightarrow> string list" where
  "RegisteredTypes fs = keys fs"

record 'b Graph =
  gr_nodes :: "'b Node list"
  gr_by_id :: "(string \<times> nat) list"

definition Graph_new :: "'b Graph" where
  "Graph_new = \<lparr>gr_nodes = [], gr_by_id = []\<rparr>"

definition Graph_size :: "'b Graph \<Rightarrow> nat" where
  "Graph_size g = length (gr_nodes g)"

definition Graph_empty :: "'b Graph \<Rightarrow> bool" where
  "Graph_empty g = (gr_nodes g = [])"

definition Graph_Find :: "'b Graph \<Rightarrow> string \<Rightarrow> nat option" where
  "Graph_Find g i = map_of (gr_by_id g) i"

definition Graph_ResetRunState :: "'b Graph \<Rightarrow> 'b Graph" where
  "Graph_ResetRunState g = g\<lparr>gr_nodes := map Node_ResetRunState (gr_nodes g)\<rparr>"

section \<open>Model: the builder\<close>

record NodeDef =
  df_type :: string
  df_deps :: "string list"
  df_id :: string

definition NodeDef_new :: "string \<Rightarrow> string list \<Rightarrow> string \<Rightarrow> NodeDef" where
  "NodeDef_new t ds i = \<lparr>df_type = t, df_deps = ds, df_id = (if t = [] then [] else i)\<rparr>"

definition effective_id :: "NodeDef \<Rightarrow> string" where
  "effective_id d = (if df_id d = [] then df_type d else df_id d)"

definition create_node :: "'b node_factories \<Rightarrow> NodeDef \<Rightarrow> 'b Graph \<Rightarrow> 'b Graph res" where
  "create_node reg d g =
    (if df_type d = [] then Throw (InvalidArgument ''GraphBuilder: node def has empty type'')
     else bindR (NodeRegistry_Create reg (df_type d) (effective_id d)) (\<lambda>n.
       if map_of (gr_by_id g) (effective_id d) \<noteq> None
       then Throw (InvalidArgument (''GraphBuilder: duplicate node id '' @ [CHR 0x27] @ effective_id d @ [CHR 0x27]))
       else Ok (g\<lparr>gr_by_id := gr_by_id g @ [(effective_id d, length (gr_nodes g))], gr_nodes := gr_nodes g @ [n]\<rparr>)))"

definition CreateAndIndexNodes :: "'b node_factories \<Rightarrow> NodeDef list \<Rightarrow> 'b Graph \<Rightarrow> 'b Graph res" where
  "CreateAndIndexNodes reg defs g = foldR (create_node reg) defs g"

definition resolve_dep :: "'b Graph \<Rightarrow> nat \<Rightarrow> string \<Rightarrow> nat list \<Rightarrow> nat list res" where
  "resolve_dep g i dep_id ds = (case Graph_Find g dep_id of
     None \<Rightarrow> Throw (InvalidArgument (''GraphBuilder: node '' @ [CHR 0x27] @ nd_id (gr_nodes g ! i) @ [CHR 0x27]
        @ '' depends on unknown id '' @ [CHR 0x27] @ dep_id @ [CHR 0x27]))
   | Some j \<Rightarrow> if j = i
       then Throw (RuntimeError (''GraphBuilder: node '' @ [CHR 0x27] @ nd_id (gr_nodes g ! i) @ [CHR 0x27] @ '' depends on itself''))
       else Ok (ds @ [j]))"

definition wire_node :: "nat \<times> NodeDef \<Rightarrow> 'b Graph \<Rightarrow> 'b Graph res" where
  "wire_node = (\<lambda>(i, d) g.
     bindR (foldR (resolve_dep g i) (df_deps d) (nd_dependencies (gr_nodes g ! i)))
       (\<lambda>ds. Ok (g\<lparr>gr_nodes := (gr_nodes g)[i := (gr_nodes g ! i)\<lparr>nd_dependencies := ds\<rparr>]\<rparr>)))"

definition WireDependencies :: "NodeDef list \<Rightarrow> 'b Graph \<Rightarrow> 'b Graph res" where
  "WireDependencies defs g = foldR wire_node (enumerate 0 defs) g"

definition node_deps :: "'b Graph \<Rightarrow> nat \<Rightarrow> nat list" where
  "node_deps g i = nd_dependencies (gr_nodes g ! i)"

definition RejectCycles :: "'b Graph \<Rightarrow> unit res" where
  "RejectCycles g = (case find_cycle (node_deps g) [0..<Graph_size g] of
     Some (Inr _) \<Rightarrow> Ok ()
   | Some (Inl x) \<Rightarrow> Throw (RuntimeError (''GraphBuilder: dependency cycle detected involving node ''
        @ [CHR 0x27] @ nd_id (gr_nodes g ! x) @ [CHR 0x27]))
   | None \<Rightarrow> Throw (LogicError ''no result''))"

definition Build :: "'b node_factories \<Rightarrow> NodeDef list \<Rightarrow> 'b Graph res" where
  "Build reg defs =
    bindR (CreateAndIndexNodes reg defs Graph_new) (\<lambda>g1.
    bindR (WireDependencies defs g1) (\<lambda>g2.
    bindR (RejectCycles g2) (\<lambda>_. Ok g2)))"

section \<open>The registry meets its contract\<close>

interpretation node_registry: named_registry NodeRegistry_Register NodeRegistry_find NodeRegistry_Contains
    "map_of :: 'b node_factories \<Rightarrow> string \<Rightarrow> 'b option"
  by unfold_locales
    (auto simp: NodeRegistry_Register_def NodeRegistry_find_def NodeRegistry_Contains_def)

section \<open>Pass 1\<close>

definition def_ok :: "'b node_factories \<Rightarrow> NodeDef \<Rightarrow> bool" where
  "def_ok reg d = (df_type d \<noteq> [] \<and> map_of reg (df_type d) \<noteq> None)"

definition made_node :: "'b node_factories \<Rightarrow> NodeDef \<Rightarrow> 'b Node" where
  "made_node reg d = SetIdentity (effective_id d) (df_type d) (Node_new (the (map_of reg (df_type d))))"

lemma create_node_ok [ok_iff]:
  "create_node reg d g = Inr g' \<longleftrightarrow> def_ok reg d \<and> effective_id d \<notin> set (keys (gr_by_id g))
    \<and> g' = g\<lparr>gr_by_id := gr_by_id g @ [(effective_id d, length (gr_nodes g))], gr_nodes := gr_nodes g @ [made_node reg d]\<rparr>"
proof -
  have "df_type d \<noteq> [] \<Longrightarrow> effective_id d \<noteq> []" by (simp add: effective_id_def)
  then show ?thesis
    unfolding map_of_None_iff [symmetric]
    by (auto simp: create_node_def def_ok_def made_node_def NodeRegistry_Create_def NodeRegistry_find_def
        split: option.splits if_splits)
qed

lemma create_nodes_ok:
  "foldR (create_node reg) defs g = Inr g' \<longleftrightarrow>
    list_all (def_ok reg) defs \<and> distinct (map effective_id defs)
    \<and> set (map effective_id defs) \<inter> set (keys (gr_by_id g)) = {}
    \<and> g' = g\<lparr>gr_by_id := gr_by_id g @ zip (map effective_id defs) [length (gr_nodes g)..<length (gr_nodes g) + length defs],
             gr_nodes := gr_nodes g @ map (made_node reg) defs\<rparr>"
proof (induction defs arbitrary: g)
  case Nil
  show ?case by auto
next
  case (Cons d defs)
  have up: "[n..<Suc (n + m)] = n # [Suc n..<Suc (n + m)]" for n m by (simp add: upt_conv_Cons del: upt_Suc)
  show ?case
    unfolding foldR.simps ok_iff Cons.IH
    by (auto simp: up simp del: upt_Suc)
qed

section \<open>Pass 2\<close>

lemma resolve_ok [ok_iff]:
  "foldR (resolve_dep g i) deps acc = Inr ds \<longleftrightarrow>
    list_all (\<lambda>d. \<exists>j. map_of (gr_by_id g) d = Some j \<and> j \<noteq> i) deps
    \<and> ds = acc @ map (\<lambda>d. the (map_of (gr_by_id g) d)) deps"
  by (induction deps arbitrary: acc)
    (auto simp: resolve_dep_def Graph_Find_def ok_iff split: option.splits if_splits)

definition wired :: "(string \<times> nat) list \<Rightarrow> NodeDef \<Rightarrow> 'b Node \<Rightarrow> 'b Node" where
  "wired m d n = n\<lparr>nd_dependencies := nd_dependencies n @ map (\<lambda>x. the (map_of m x)) (df_deps d)\<rparr>"

definition deps_known :: "(string \<times> nat) list \<Rightarrow> nat \<Rightarrow> NodeDef \<Rightarrow> bool" where
  "deps_known m i d = list_all (\<lambda>x. \<exists>j. map_of m x = Some j \<and> j \<noteq> i) (df_deps d)"

lemma wire_node_ok [ok_iff]:
  "wire_node (i, d) g = Inr g' \<longleftrightarrow> deps_known (gr_by_id g) i d
    \<and> g' = g\<lparr>gr_nodes := (gr_nodes g)[i := wired (gr_by_id g) d (gr_nodes g ! i)]\<rparr>"
  by (auto simp: wire_node_def ok_iff deps_known_def wired_def)

lemma map2_Cons_drop:
  "k < length ns \<Longrightarrow> take k ns @ map2 f (d # ds) (drop k ns) = take (Suc k) (ns[k := f d (ns ! k)]) @ map2 f ds (drop (Suc k) (ns[k := f d (ns ! k)]))"
  by (simp add: take_Suc_conv_app_nth Cons_nth_drop_Suc [symmetric])

lemma wire_all_ok:
  "k + length defs = length (gr_nodes g) \<Longrightarrow>
    foldR wire_node (enumerate k defs) g = Inr g' \<longleftrightarrow>
    (\<forall>i < length defs. deps_known (gr_by_id g) (k + i) (defs ! i))
    \<and> g' = g\<lparr>gr_nodes := take k (gr_nodes g) @ map2 (wired (gr_by_id g)) defs (drop k (gr_nodes g))\<rparr>"
proof (induction defs arbitrary: k g)
  case Nil
  then show ?case by auto
next
  case (Cons d defs)
  let ?g = "g\<lparr>gr_nodes := (gr_nodes g)[k := wired (gr_by_id g) d (gr_nodes g ! k)]\<rparr>"
  have len: "Suc k + length defs = length (gr_nodes ?g)" using Cons.prems by simp
  have k: "k < length (gr_nodes g)" using Cons.prems by simp
  have all: "(\<forall>i < length (d # defs). deps_known (gr_by_id g) (k + i) ((d # defs) ! i)) \<longleftrightarrow>
      deps_known (gr_by_id g) k d \<and> (\<forall>i < length defs. deps_known (gr_by_id g) (Suc k + i) (defs ! i))"
    by (auto simp: less_Suc_eq_0_disj)
  show ?case
    unfolding enumerate_simps foldR.simps ok_iff all map2_Cons_drop [OF k, of "wired (gr_by_id g)" d defs]
    using Cons.IH [OF len] by auto
qed

lemma WireDependencies_ok:
  "length defs = length (gr_nodes g) \<Longrightarrow> WireDependencies defs g = Inr g' \<longleftrightarrow>
    (\<forall>i < length defs. deps_known (gr_by_id g) i (defs ! i))
    \<and> g' = g\<lparr>gr_nodes := map2 (wired (gr_by_id g)) defs (gr_nodes g)\<rparr>"
  using wire_all_ok [of 0 defs g g'] by (simp add: WireDependencies_def)

section \<open>The whole builder\<close>

definition id_index :: "NodeDef list \<Rightarrow> (string \<times> nat) list" where
  "id_index defs = zip (map effective_id defs) [0..<length defs]"

text \<open>The graph the definitions describe: one node per definition, dependencies as positions.\<close>

definition described_graph :: "'b node_factories \<Rightarrow> NodeDef list \<Rightarrow> 'b Graph" where
  "described_graph reg defs = \<lparr>
     gr_nodes = map (\<lambda>d. (made_node reg d)\<lparr>nd_dependencies := map (\<lambda>x. the (map_of (id_index defs) x)) (df_deps d)\<rparr>) defs,
     gr_by_id = id_index defs\<rparr>"

definition id_rel :: "NodeDef list \<Rightarrow> (string \<times> string) set" where
  "id_rel defs = {(x, effective_id d) | x d. d \<in> set defs \<and> x \<in> set (df_deps d)}"

definition defs_valid :: "'b node_factories \<Rightarrow> NodeDef list \<Rightarrow> bool" where
  "defs_valid reg defs = (list_all (def_ok reg) defs \<and> distinct (map effective_id defs)
     \<and> list_all (\<lambda>d. set (df_deps d) \<subseteq> set (map effective_id defs)) defs)"

lemma id_index_Some:
  "distinct (map effective_id defs) \<Longrightarrow>
    map_of (id_index defs) x = Some i \<longleftrightarrow> i < length defs \<and> effective_id (defs ! i) = x"
proof -
  assume "distinct (map effective_id defs)"
  then have d: "distinct (keys (id_index defs))" by (simp add: id_index_def)
  show ?thesis unfolding map_of_eq_Some_iff [OF d] unfolding id_index_def in_set_zip by (auto intro!: exI [of _ i])
qed

lemma id_index_known:
  "distinct (map effective_id defs) \<Longrightarrow> (\<exists>i. map_of (id_index defs) x = Some i) \<longleftrightarrow> x \<in> set (map effective_id defs)"
  by (auto simp: id_index_Some in_set_conv_nth simp del: set_map)

lemma described_deps:
  assumes "i < length defs"
  shows "node_deps (described_graph reg defs) i = map (\<lambda>x. the (map_of (id_index defs) x)) (df_deps (defs ! i))"
  using assms by (simp add: node_deps_def described_graph_def)

lemma described_closed:
  assumes "defs_valid reg defs"
  shows "closed_graph (node_deps (described_graph reg defs)) [0..<length defs]"
proof -
  have d: "distinct (map effective_id defs)" using assms by (simp add: defs_valid_def)
  have "the (map_of (id_index defs) x) < length defs" if "i < length defs" "x \<in> set (df_deps (defs ! i))" for i x
  proof -
    have "x \<in> set (map effective_id defs)"
      using assms that nth_mem unfolding defs_valid_def list_all_iff by blast
    then obtain j where "map_of (id_index defs) x = Some j" using id_index_known [OF d] by blast
    then show ?thesis using id_index_Some [OF d, of x j] by simp
  qed
  then show ?thesis by (auto simp: closed_graph_def list_all_iff described_deps)
qed

text \<open>Cycles among positions are cycles among ids.\<close>

lemma described_acyclic:
  assumes "defs_valid reg defs"
  shows "acyclic (dep_rel (node_deps (described_graph reg defs)) (set [0..<length defs])) \<longleftrightarrow> acyclic (id_rel defs)"
    (is "acyclic ?I \<longleftrightarrow> acyclic ?S")
proof -
  have d: "distinct (map effective_id defs)" using assms by (simp add: defs_valid_def)
  have known: "\<exists>j. map_of (id_index defs) x = Some j" if "e \<in> set defs" "x \<in> set (df_deps e)" for x e
    using assms that id_index_known [OF d] unfolding defs_valid_def list_all_iff by blast
  have idx: "map_of (id_index defs) (effective_id (defs ! i)) = Some i" if "i < length defs" for i
    using id_index_Some [OF d] that by simp
  have I: "?I \<subseteq> inv_image ?S (\<lambda>i. effective_id (defs ! i))"
  proof
    fix p assume "p \<in> ?I"
    then obtain i x where p: "p = (the (map_of (id_index defs) x), i)" "i < length defs" "x \<in> set (df_deps (defs ! i))"
      by (auto simp: dep_rel_def described_deps)
    obtain j where j: "map_of (id_index defs) x = Some j" using known p nth_mem by blast
    then have "effective_id (defs ! j) = x" using id_index_Some [OF d] by simp
    then show "p \<in> inv_image ?S (\<lambda>i. effective_id (defs ! i))"
      using p j nth_mem by (fastforce simp: id_rel_def)
  qed
  have S: "?S \<subseteq> inv_image ?I (\<lambda>x. the (map_of (id_index defs) x))"
  proof
    fix p assume "p \<in> ?S"
    then obtain x i where p: "p = (x, effective_id (defs ! i))" "i < length defs" "x \<in> set (df_deps (defs ! i))"
      by (auto simp: id_rel_def in_set_conv_nth)
    then show "p \<in> inv_image ?I (\<lambda>x. the (map_of (id_index defs) x))"
      using idx by (auto simp: dep_rel_def described_deps)
  qed
  have "finite ?I" by (rule finite_dep_rel) simp
  moreover have "finite ?S"
  proof (rule finite_subset)
    show "?S \<subseteq> (\<Union>e \<in> set defs. set (df_deps e)) \<times> effective_id ` set defs" by (auto simp: id_rel_def)
  qed simp
  ultimately show ?thesis
    using I S wf_inv_image wf_subset wf_acyclic finite_acyclic_wf by metis
qed

lemma create_wire:
  "(\<exists>g1. CreateAndIndexNodes reg defs Graph_new = Inr g1 \<and> WireDependencies defs g1 = Inr g2) \<longleftrightarrow>
    defs_valid reg defs \<and> (\<forall>i < length defs. \<forall>x \<in> set (df_deps (defs ! i)). x \<noteq> effective_id (defs ! i))
    \<and> g2 = described_graph reg defs"
proof -
  let ?g1 = "\<lparr>gr_nodes = map (made_node reg) defs, gr_by_id = id_index defs\<rparr>"
  have c: "CreateAndIndexNodes reg defs Graph_new = Inr g1 \<longleftrightarrow>
      list_all (def_ok reg) defs \<and> distinct (map effective_id defs) \<and> g1 = ?g1" for g1 :: "'a Graph"
    by (simp add: CreateAndIndexNodes_def create_nodes_ok Graph_new_def id_index_def)
  have known: "(\<forall>i < length defs. deps_known (id_index defs) i (defs ! i)) \<longleftrightarrow>
      list_all (\<lambda>d. set (df_deps d) \<subseteq> set (map effective_id defs)) defs
      \<and> (\<forall>i < length defs. \<forall>x \<in> set (df_deps (defs ! i)). x \<noteq> effective_id (defs ! i))"
    if d: "distinct (map effective_id defs)"
  proof -
    have "(\<exists>j. map_of (id_index defs) x = Some j \<and> j \<noteq> i) \<longleftrightarrow> x \<in> set (map effective_id defs) \<and> x \<noteq> effective_id (defs ! i)"
      if "i < length defs" for x i
      using id_index_known [OF d, of x] id_index_Some [OF d, of x] that by (metis option.inject)
    then show ?thesis unfolding deps_known_def list_all_iff all_set_conv_all_nth [of defs] by blast
  qed
  have w: "map2 (wired (id_index defs)) defs (map (made_node reg) defs) = gr_nodes (described_graph reg defs)"
    using map2_map_map [of "wired (id_index defs)" "\<lambda>d. d" defs "made_node reg"]
    by (simp add: described_graph_def wired_def made_node_def SetIdentity_def Node_new_def)
  show ?thesis
    unfolding c using known w WireDependencies_ok [of defs ?g1 g2]
    by (auto simp: defs_valid_def described_graph_def)
qed

lemma self_dep_cyclic:
  assumes "acyclic (id_rel defs)" "i < length defs" "x \<in> set (df_deps (defs ! i))"
  shows "x \<noteq> effective_id (defs ! i)"
proof
  assume "x = effective_id (defs ! i)"
  then have "(x, x) \<in> id_rel defs" using assms(2,3) nth_mem by (fastforce simp: id_rel_def)
  then show False using assms(1) by (auto simp: acyclic_def)
qed

lemma RejectCycles_described:
  assumes "defs_valid reg defs"
  shows "if acyclic (id_rel defs) then RejectCycles (described_graph reg defs) = Inr ()
    else \<exists>m. RejectCycles (described_graph reg defs) = Inl (RuntimeError m)"
  using find_cycle_correct [OF described_closed [OF assms]] described_acyclic [OF assms]
  by (auto simp: RejectCycles_def Graph_size_def described_graph_def split: if_splits)

lemma Build_described:
  assumes "Build reg defs = Inr g"
  shows "defs_valid reg defs" "acyclic (id_rel defs)" "g = described_graph reg defs"
proof -
  from assms have w: "\<exists>g1. CreateAndIndexNodes reg defs Graph_new = Inr g1 \<and> WireDependencies defs g1 = Inr g"
    and "RejectCycles g = Inr ()"
    by (auto simp: Build_def ok_iff)
  then show "defs_valid reg defs" "acyclic (id_rel defs)" "g = described_graph reg defs"
    unfolding create_wire using RejectCycles_described [of reg defs] by (auto split: if_splits)
qed

text \<open>What the executors rely on.\<close>

lemma Build_runnable:
  assumes "Build reg defs = Inr g"
  shows "closed_graph (node_deps g) [0..<Graph_size g]" "acyclic (dep_rel (node_deps g) {0..<Graph_size g})"
  using Build_described [OF assms] described_closed described_acyclic
  by (fastforce simp: Graph_size_def described_graph_def)+

section \<open>Properties\<close>

text \<open>C1. \<^verbatim>\<open>GraphBuilder::Build\<close> succeeds exactly when every type is registered (and not empty), the ids are distinct,
  every dependency names a node and the dependencies have no cycle; and it then returns the
  graph the definitions describe.  The three-colour search always ends.\<close>

theorem GraphBuilder_Build_iff:
  "Build reg defs = Inr g \<longleftrightarrow> defs_valid reg defs \<and> acyclic (id_rel defs) \<and> g = described_graph reg defs"
proof
  assume "Build reg defs = Inr g"
  then show "defs_valid reg defs \<and> acyclic (id_rel defs) \<and> g = described_graph reg defs"
    using Build_described by blast
next
  assume v: "defs_valid reg defs \<and> acyclic (id_rel defs) \<and> g = described_graph reg defs"
  then have "\<exists>g1. CreateAndIndexNodes reg defs Graph_new = Inr g1 \<and> WireDependencies defs g1 = Inr g"
    unfolding create_wire using self_dep_cyclic by blast
  then show "Build reg defs = Inr g"
    using v RejectCycles_described [of reg defs] by (auto simp: Build_def)
qed

text \<open>C5. The cycle check on its own: on any graph whose dependency pointers lie inside it, \<^verbatim>\<open>RejectCycles\<close>
  returns when there is no cycle and throws \<^verbatim>\<open>runtime_error\<close> when there is one.\<close>

theorem RejectCycles_correct:
  assumes "closed_graph (node_deps g) [0..<Graph_size g]"
  shows "if acyclic (dep_rel (node_deps g) {0..<Graph_size g}) then RejectCycles g = Inr ()
    else \<exists>m. RejectCycles g = Inl (RuntimeError m)"
  using find_cycle_correct [OF assms] by (auto simp: RejectCycles_def split: if_splits)

definition demo_graph :: "unit Graph" where
  "demo_graph = \<lparr>gr_nodes = [(Node_new ())\<lparr>nd_dependencies := [1]\<rparr>, (Node_new ())\<lparr>nd_dependencies := []\<rparr>], gr_by_id = []\<rparr>"

theorem RejectCycles_correct_witness:
  "RejectCycles demo_graph = Inr () \<and> Graph_size demo_graph = 2"
proof -
  have n: "node_deps demo_graph 0 = [1]" "node_deps demo_graph (Suc 0) = []" "Graph_size demo_graph = 2"
    by (simp_all add: node_deps_def demo_graph_def Graph_size_def)
  have two: "[0..<2] = [0, 1 :: nat]" by (simp add: upt_rec)
  have c: "closed_graph (node_deps demo_graph) [0..<Graph_size demo_graph]"
    by (simp add: n two closed_graph_def)
  have "topo_order (node_deps demo_graph) [Suc 0, 0]" by (simp add: topo_order_def n)
  then have "acyclic (dep_rel (node_deps demo_graph) {0..<2})"
    by (rule topo_order_acyclic) auto
  then show ?thesis using RejectCycles_correct [OF c] n by simp
qed

end
