(* ===== verification/Metric.thy ===== *)
theory Metric
  imports Complex_Main Str Registry "HOL-Library.Char_ord" "HOL-Library.List_Lexorder"
begin

text \<open>
  The metric module: events, the built-in monitors, the monitor factory, the probes and the online anomaly
  detector.  Monitors are shared objects, so they live in a store addressed by numbers
  and a composite holds addresses; the time stamp of an event is left out (no code reads
  it).  Doubles of the detector are exact reals.
\<close>

section \<open>Model: events and monitors\<close>

record Event =
  ev_source :: string
  ev_action :: string
  ev_subject :: string
  ev_attrs :: "(string \<times> string) list"
  ev_duration :: int
  ev_ok :: bool

definition Event_new :: "string \<Rightarrow> string \<Rightarrow> string \<Rightarrow> Event" where
  "Event_new src act sub =
    \<lparr>ev_source = src, ev_action = act, ev_subject = sub, ev_attrs = [], ev_duration = 0, ev_ok = True\<rparr>"

definition attr :: "string \<Rightarrow> string \<Rightarrow> Event \<Rightarrow> Event" where
  "attr k v e = e\<lparr>ev_attrs := AList.update k v (ev_attrs e)\<rparr>"

definition attr_ns :: "string \<Rightarrow> int \<Rightarrow> Event \<Rightarrow> Event" where
  "attr_ns k ns e = e\<lparr>ev_attrs := AList.update k (int_to_string ns) (ev_attrs e)\<rparr>"

definition Event_Get :: "Event \<Rightarrow> string \<Rightarrow> string option" where
  "Event_Get e k = map_of (ev_attrs e) k"

record StatsMonitor =
  sm_events :: nat
  sm_errors :: nat
  sm_count_by_action :: "(string \<times> nat) list"
  sm_duration_by_action :: "(string \<times> int) list"

definition StatsMonitor_new :: StatsMonitor where
  "StatsMonitor_new = \<lparr>sm_events = 0, sm_errors = 0, sm_count_by_action = [], sm_duration_by_action = []\<rparr>"

text \<open>\<^verbatim>\<open>operator[]\<close> of a map default-constructs a missing entry.\<close>

definition at_or :: "'v \<Rightarrow> ('k \<times> 'v) list \<Rightarrow> 'k \<Rightarrow> 'v" where
  "at_or d m k = (case map_of m k of None \<Rightarrow> d | Some v \<Rightarrow> v)"

definition stats_Emit :: "Event \<Rightarrow> StatsMonitor \<Rightarrow> StatsMonitor" where
  "stats_Emit e s = s\<lparr>
     sm_events := Suc (sm_events s),
     sm_errors := (if \<not> ev_ok e then Suc (sm_errors s) else sm_errors s),
     sm_count_by_action := AList.update (ev_action e)
        (Suc (at_or 0 (sm_count_by_action s) (ev_action e))) (sm_count_by_action s),
     sm_duration_by_action := AList.update (ev_action e)
        (at_or 0 (sm_duration_by_action s) (ev_action e) + ev_duration e) (sm_duration_by_action s)\<rparr>"

definition event_count :: "StatsMonitor \<Rightarrow> nat" where
  "event_count s = sm_events s"

definition error_count :: "StatsMonitor \<Rightarrow> nat" where
  "error_count s = sm_errors s"

definition stats_duration :: "StatsMonitor \<Rightarrow> string \<Rightarrow> int" where
  "stats_duration s a = (case map_of (sm_duration_by_action s) a of None \<Rightarrow> 0 | Some d \<Rightarrow> d)"

text \<open>\<^verbatim>\<open>duration_cast\<close> to microseconds truncates towards zero.\<close>

definition to_us :: "int \<Rightarrow> int" where
  "to_us ns = (if ns < 0 then - ((- ns) div 1000) else ns div 1000)"

definition summary_line :: "StatsMonitor \<Rightarrow> string \<Rightarrow> string" where
  "summary_line s a = ''  '' @ a @ '': count='' @ nat_to_string (at_or 0 (sm_count_by_action s) a)
     @ '' duration='' @ int_to_string (to_us (at_or 0 (sm_duration_by_action s) a)) @ ''us'' @ [CHR 0x0A]"

definition summary :: "StatsMonitor \<Rightarrow> string" where
  "summary s = ''--- monitor stats: events='' @ nat_to_string (sm_events s)
     @ '' errors='' @ nat_to_string (sm_errors s) @ '' ---'' @ [CHR 0x0A]
     @ concat (map (summary_line s) (sort (keys (sm_count_by_action s))))"

definition log_line :: "Event \<Rightarrow> string" where
  "log_line e = ''[monitor] '' @ ev_source e @ ''.'' @ ev_action e @ '' '' @ ev_subject e
     @ (if ev_ok e then [] else '' FAILED'')
     @ (if ev_duration e > 0 then '' '' @ int_to_string (to_us (ev_duration e)) @ ''us'' else [])
     @ concat (map (\<lambda>(k, v). '' '' @ k @ ''='' @ v) (ev_attrs e)) @ [CHR 0x0A]"

type_synonym addr = nat

datatype mobj =
    NullMonitor
  | LoggingMonitor string
  | StatsMon StatsMonitor
  | CompositeMonitor "addr list"

type_synonym mstore = "addr \<Rightarrow> mobj option"

definition leaf_Emit :: "Event \<Rightarrow> addr \<Rightarrow> mstore \<Rightarrow> mstore" where
  "leaf_Emit e a st = (case st a of
     Some (LoggingMonitor out) \<Rightarrow> st(a \<mapsto> LoggingMonitor (out @ log_line e))
   | Some (StatsMon s) \<Rightarrow> st(a \<mapsto> StatsMon (stats_Emit e s))
   | _ \<Rightarrow> st)"

text \<open>\<^verbatim>\<open>Emit\<close> through the virtual call.  A composite forwards to a snapshot of its children; since one may be
  added to itself the recursion is fuelled, and \<^verbatim>\<open>None\<close> is the run that does not return.\<close>

fun Emit :: "nat \<Rightarrow> Event \<Rightarrow> addr \<Rightarrow> mstore \<Rightarrow> mstore option"
and Emit_children :: "nat \<Rightarrow> Event \<Rightarrow> addr list \<Rightarrow> mstore \<Rightarrow> mstore option" where
  "Emit 0 e a st = None"
| "Emit (Suc n) e a st = (case st a of
     Some (CompositeMonitor children) \<Rightarrow> Emit_children n e children st
   | _ \<Rightarrow> Some (leaf_Emit e a st))"
| "Emit_children n e [] st = Some st"
| "Emit_children n e (c # cs) st =
    (case Emit n e c st of None \<Rightarrow> None | Some st' \<Rightarrow> Emit_children n e cs st')"

definition Composite_Add :: "addr \<Rightarrow> addr option \<Rightarrow> mstore \<Rightarrow> mstore" where
  "Composite_Add a child st = (case child of None \<Rightarrow> st | Some c \<Rightarrow>
     (case st a of Some (CompositeMonitor cs) \<Rightarrow> st(a \<mapsto> CompositeMonitor (cs @ [c])) | _ \<Rightarrow> st))"

definition Composite_size :: "addr \<Rightarrow> mstore \<Rightarrow> nat" where
  "Composite_size a st = (case st a of Some (CompositeMonitor cs) \<Rightarrow> length cs | _ \<Rightarrow> 0)"

section \<open>Model: the monitor factory\<close>

type_synonym 'f factories = "(string \<times> 'f) list"

definition MonitorFactory_new :: "mobj factories" where
  "MonitorFactory_new = [(''null'', NullMonitor), (''logging'', LoggingMonitor []),
     (''stats'', StatsMon StatsMonitor_new), (''composite'', CompositeMonitor [])]"

definition MonitorFactory_Register :: "string \<Rightarrow> 'f \<Rightarrow> 'f factories \<Rightarrow> 'f factories res" where
  "MonitorFactory_Register name f fs =
    (if map_of fs name \<noteq> None then Throw (InvalidArgument ''MonitorFactory: duplicate monitor name'')
     else Ok ((name, f) # fs))"

definition MonitorFactory_Create :: "'f factories \<Rightarrow> string \<Rightarrow> 'f res" where
  "MonitorFactory_Create fs name = (case map_of fs name of
     None \<Rightarrow> Throw (OutOfRange (''MonitorFactory: unknown monitor '' @ [CHR 0x27] @ name @ [CHR 0x27]))
   | Some f \<Rightarrow> Ok f)"

definition MonitorFactory_Contains :: "'f factories \<Rightarrow> string \<Rightarrow> bool" where
  "MonitorFactory_Contains fs name = (map_of fs name \<noteq> None)"

definition MonitorFactory_Available :: "'f factories \<Rightarrow> string list" where
  "MonitorFactory_Available fs = keys fs"

section \<open>Model: probes and anomaly detection\<close>

text \<open>A probe returns what it answers and the events it emits (none without a monitor).\<close>

definition probe_event :: "bool \<Rightarrow> string \<Rightarrow> string \<Rightarrow> Event list" where
  "probe_event monitor act msg = (if monitor then [(Event_new ''metric'' act msg)\<lparr>ev_ok := False\<rparr>] else [])"

definition NotNull :: "'a option \<Rightarrow> string \<Rightarrow> bool \<Rightarrow> bool \<times> Event list" where
  "NotNull p msg monitor = (if p \<noteq> None then (True, []) else (False, probe_event monitor ''probe.null'' msg))"

definition CheckNotNull :: "'a option \<Rightarrow> string \<Rightarrow> bool \<Rightarrow> 'a res \<times> Event list" where
  "CheckNotNull p msg monitor = (case p of
     Some x \<Rightarrow> (Ok x, [])
   | None \<Rightarrow> (Throw (RuntimeError (''probe: null pointer '' @ [CHR 0x27] @ msg @ [CHR 0x27])),
       probe_event monitor ''probe.null'' msg))"

definition Check :: "bool \<Rightarrow> string \<Rightarrow> bool \<Rightarrow> bool \<Rightarrow> bool res \<times> Event list" where
  "Check ok msg monitor throw_on_fail =
    (if ok then (Ok True, [])
     else (if throw_on_fail
             then Throw (RuntimeError (''probe: invariant failed '' @ [CHR 0x27] @ msg @ [CHR 0x27]))
             else Ok False,
           probe_event monitor ''probe.fail'' msg))"

record AnomalyDetector =
  ad_monitor :: bool
  ad_k :: real
  ad_mean :: real
  ad_m2 :: real
  ad_n :: nat

definition AnomalyDetector_new :: "bool \<Rightarrow> real \<Rightarrow> AnomalyDetector" where
  "AnomalyDetector_new m k = \<lparr>ad_monitor = m, ad_k = k, ad_mean = 0, ad_m2 = 0, ad_n = 0\<rparr>"

definition is_anomaly :: "AnomalyDetector \<Rightarrow> real \<Rightarrow> bool" where
  "is_anomaly d v = (if ad_n d < 1 then False
     else let sd = sqrt (ad_m2 d / real (ad_n d)) in sd > 0 \<and> \<bar>v - ad_mean d\<bar> > ad_k d * sd)"

text \<open>\<^verbatim>\<open>show\<close> stands for \<^verbatim>\<open>std::to_string(double)\<close>.\<close>

definition anomaly_event :: "(real \<Rightarrow> string) \<Rightarrow> AnomalyDetector \<Rightarrow> real \<Rightarrow> string \<Rightarrow> Event" where
  "anomaly_event shw d v subject =
    (attr ''k'' (shw (ad_k d))
      (attr ''stddev'' (shw (sqrt (ad_m2 d / real (ad_n d))))
        (attr ''mean'' (shw (ad_mean d))
          (attr ''value'' (shw v) (Event_new ''metric'' ''probe.anomaly'' subject)))))\<lparr>ev_ok := False\<rparr>"

definition Feed :: "(real \<Rightarrow> string) \<Rightarrow> real \<Rightarrow> string \<Rightarrow> AnomalyDetector
    \<Rightarrow> bool \<times> Event list \<times> AnomalyDetector" where
  "Feed shw v subject d =
    (let anomaly = is_anomaly d v;
         evs = (if anomaly \<and> ad_monitor d then [anomaly_event shw d v subject] else []);
         n = Suc (ad_n d);
         delta = v - ad_mean d;
         mean = ad_mean d + delta / real n;
         m2 = ad_m2 d + delta * (v - mean)
     in (anomaly, evs, d\<lparr>ad_n := n, ad_mean := mean, ad_m2 := m2\<rparr>))"

definition detector_mean :: "AnomalyDetector \<Rightarrow> real" where
  "detector_mean d = ad_mean d"

definition detector_stddev :: "AnomalyDetector \<Rightarrow> real" where
  "detector_stddev d = (if ad_n d < 1 then 0 else sqrt (ad_m2 d / real (ad_n d)))"

definition detector_count :: "AnomalyDetector \<Rightarrow> nat" where
  "detector_count d = ad_n d"

section \<open>Aggregation\<close>

lemma at_or_update: "at_or d (AList.update k v m) j = (if j = k then v else at_or d m j)"
  by (simp add: at_or_def)

definition stats_of :: "Event list \<Rightarrow> StatsMonitor" where
  "stats_of es = fold stats_Emit es StatsMonitor_new"

lemma stats_fold:
  "sm_events (fold stats_Emit es s) = sm_events s + length es
   \<and> sm_errors (fold stats_Emit es s) = sm_errors s + length (filter (\<lambda>e. \<not> ev_ok e) es)
   \<and> at_or 0 (sm_count_by_action (fold stats_Emit es s)) a
       = at_or 0 (sm_count_by_action s) a + length (filter (\<lambda>e. ev_action e = a) es)
   \<and> at_or 0 (sm_duration_by_action (fold stats_Emit es s)) a
       = at_or 0 (sm_duration_by_action s) a
         + sum_list (map ev_duration (filter (\<lambda>e. ev_action e = a) es))"
  by (induction es arbitrary: s) (auto simp: stats_Emit_def at_or_update)

lemma stats_duration_at: "stats_duration s a = at_or 0 (sm_duration_by_action s) a"
  by (simp add: stats_duration_def at_or_def)

section \<open>Fan-out\<close>

text \<open>The leaves an event reaches from an address, in order, with repetitions.\<close>

fun leaves :: "nat \<Rightarrow> mstore \<Rightarrow> addr \<Rightarrow> addr list option"
and leaves_children :: "nat \<Rightarrow> mstore \<Rightarrow> addr list \<Rightarrow> addr list option" where
  "leaves 0 st a = None"
| "leaves (Suc n) st a = (case st a of
     Some (CompositeMonitor children) \<Rightarrow> leaves_children n st children
   | _ \<Rightarrow> Some [a])"
| "leaves_children n st [] = Some []"
| "leaves_children n st (c # cs) =
    (case leaves n st c of None \<Rightarrow> None | Some l \<Rightarrow> map_option ((@) l) (leaves_children n st cs))"

definition shape :: "mobj option \<Rightarrow> addr list option" where
  "shape x = (case x of Some (CompositeMonitor cs) \<Rightarrow> Some cs | _ \<Rightarrow> None)"

definition same_shape :: "mstore \<Rightarrow> mstore \<Rightarrow> bool" where
  "same_shape st st' = (\<forall>a. shape (st a) = shape (st' a))"

lemma leaf_Emit_shape: "same_shape st (leaf_Emit e a st)"
  by (auto simp: same_shape_def leaf_Emit_def shape_def split: option.splits mobj.splits)

lemma same_shape_trans: "same_shape a b \<Longrightarrow> same_shape b c \<Longrightarrow> same_shape a c"
  by (simp add: same_shape_def)

lemma leaves_unfold: "leaves (Suc n) st a = (case shape (st a) of
    Some children \<Rightarrow> leaves_children n st children | None \<Rightarrow> Some [a])"
  by (simp add: shape_def split: option.splits mobj.splits)

lemma Emit_unfold: "Emit (Suc n) e a st = (case shape (st a) of
    Some children \<Rightarrow> Emit_children n e children st | None \<Rightarrow> Some (leaf_Emit e a st))"
  by (simp add: shape_def split: option.splits mobj.splits)

lemma leaves_shape:
  "same_shape st st' \<Longrightarrow> leaves n st a = leaves n st' a"
  "same_shape st st' \<Longrightarrow> leaves_children n st cs = leaves_children n st' cs"
proof (induction n st a and n st cs rule: leaves_leaves_children.induct)
  case (2 n st a)
  then have "shape (st a) = shape (st' a)" by (simp add: same_shape_def)
  moreover have "leaves_children n st cs = leaves_children n st' cs" if "shape (st a) = Some cs" for cs
    using 2 that by (auto simp: shape_def split: option.splits mobj.splits)
  ultimately show ?case unfolding leaves_unfold by (simp split: option.splits)
qed (auto split: option.splits)

lemma fold_leaf_shape: "same_shape st (fold (leaf_Emit e) ls st)"
proof (induction ls arbitrary: st)
  case (Cons a ls)
  show ?case using same_shape_trans [OF leaf_Emit_shape Cons] by simp
qed (simp add: same_shape_def)

lemma Emit_leaves:
  "Emit n e a st = map_option (\<lambda>ls. fold (leaf_Emit e) ls st) (leaves n st a)"
  "Emit_children n e cs st = map_option (\<lambda>ls. fold (leaf_Emit e) ls st) (leaves_children n st cs)"
proof (induction n e a st and n e cs st rule: Emit_Emit_children.induct)
  case (2 n e a st)
  have "Emit_children n e cs st = map_option (\<lambda>ls. fold (leaf_Emit e) ls st) (leaves_children n st cs)"
    if "shape (st a) = Some cs" for cs
    using 2 that by (auto simp: shape_def split: option.splits mobj.splits)
  then show ?case unfolding leaves_unfold Emit_unfold by (simp split: option.splits)
next
  case (4 n e c cs st)
  show ?case
  proof (cases "leaves n st c")
    case None
    then show ?thesis using 4 by simp
  next
    case (Some ls)
    then have em: "Emit n e c st = Some (fold (leaf_Emit e) ls st)" using 4 by simp
    show ?thesis
      using 4(2) [OF em] Some em leaves_shape(2) [OF fold_leaf_shape [of st e ls], of n cs]
      by (simp add: option.map_comp comp_def)
  qed
qed simp_all

lemma leaf_Emit_other: "a \<noteq> b \<Longrightarrow> leaf_Emit e b st a = st a"
  by (auto simp: leaf_Emit_def split: option.splits mobj.splits)

lemma leaf_Emit_stats: "st a = Some (StatsMon s) \<Longrightarrow> leaf_Emit e a st a = Some (StatsMon (stats_Emit e s))"
  by (simp add: leaf_Emit_def)

lemma fold_leaf_stats:
  "st a = Some (StatsMon s) \<Longrightarrow>
    fold (leaf_Emit e) ls st a = Some (StatsMon ((stats_Emit e ^^ count_list ls a) s))"
proof (induction ls arbitrary: st s)
  case (Cons b ls)
  show ?case
  proof (cases "b = a")
    case True
    then show ?thesis using Cons.IH [of "leaf_Emit e a st" "stats_Emit e s"] leaf_Emit_stats [of st a s e] Cons.prems by (simp add: funpow_swap1)
  next
    case False
    then show ?thesis using Cons.IH [of "leaf_Emit e b st" s] leaf_Emit_other [of a b] Cons.prems by simp
  qed
qed simp

text \<open>A rank that falls along the children of every composite: no monitor contains itself.\<close>

definition ranked :: "mstore \<Rightarrow> (addr \<Rightarrow> nat) \<Rightarrow> bool" where
  "ranked st rk = (\<forall>a cs c. shape (st a) = Some cs \<longrightarrow> c \<in> set cs \<longrightarrow> rk c < rk a)"

lemma leaves_children_total:
  "(\<And>c. c \<in> set cs \<Longrightarrow> \<exists>ls. leaves n st c = Some ls) \<Longrightarrow> \<exists>ls. leaves_children n st cs = Some ls"
  by (induction cs) fastforce+

lemma leaves_total: "ranked st rk \<Longrightarrow> rk a < n \<Longrightarrow> \<exists>ls. leaves n st a = Some ls"
proof (induction n arbitrary: a)
  case (Suc n)
  show ?case
  proof (cases "shape (st a)")
    case None
    then show ?thesis unfolding leaves_unfold by simp
  next
    case (Some cs)
    have "\<exists>ls. leaves n st c = Some ls" if "c \<in> set cs" for c
    proof (rule Suc.IH)
      have "rk c < rk a" using Suc.prems(1) Some that unfolding ranked_def by blast
      then show "rk c < n" using Suc.prems(2) by simp
    qed (rule Suc.prems)
    then show ?thesis unfolding leaves_unfold using Some leaves_children_total by simp
  qed
qed simp

section \<open>Welford's update\<close>

definition feed_all :: "(real \<Rightarrow> string) \<Rightarrow> real list \<Rightarrow> AnomalyDetector \<Rightarrow> AnomalyDetector" where
  "feed_all shw = fold (\<lambda>v d. snd (snd (Feed shw v [] d)))"

definition avg :: "real list \<Rightarrow> real" where
  "avg xs = sum_list xs / real (length xs)"

definition sq_dev :: "real list \<Rightarrow> real" where
  "sq_dev xs = sum_list (map (\<lambda>x. (x - avg xs)\<^sup>2) xs)"

lemma sum_list_sq_shift:
  "sum_list (map (\<lambda>x. (x - m)\<^sup>2) xs)
    = sum_list (map (\<lambda>x. x\<^sup>2) xs) - 2 * m * sum_list xs + real (length xs) * m\<^sup>2"
  by (induction xs) (auto simp: power2_diff algebra_simps)

lemma sq_dev_sum: "xs \<noteq> [] \<Longrightarrow> sq_dev xs = sum_list (map (\<lambda>x. x\<^sup>2) xs) - (sum_list xs)\<^sup>2 / real (length xs)"
  unfolding sq_dev_def sum_list_sq_shift avg_def
  by (simp add: field_simps power2_eq_square)

text \<open>One step, on the sums: with \<open>x\<close> samples of sum \<open>S\<close> and square sum \<open>Q\<close>, and one more value \<open>v\<close>.\<close>

lemma welford_mean:
  fixes x S v :: real
  assumes "x > 0"
  shows "S / x + (v - S / x) / (1 + x) = (S + v) / (1 + x)"
proof -
  have "1 + x \<noteq> 0" using assms by simp
  then show ?thesis using assms by (simp add: divide_simps) (simp add: algebra_simps)
qed

lemma welford_m2:
  fixes x S Q v :: real
  assumes "x > 0"
  shows "(Q - S\<^sup>2 / x) + (v - S / x) * (v - (S + v) / (1 + x)) = (Q + v\<^sup>2) - (S + v)\<^sup>2 / (1 + x)"
proof -
  have "1 + x \<noteq> 0" using assms by simp
  then show ?thesis
    using assms by (simp add: divide_simps power2_eq_square) (simp add: algebra_simps)
qed

lemma feed_step:
  assumes "ad_n d = length xs" "xs \<noteq> []" "ad_mean d = avg xs" "ad_m2 d = sq_dev xs"
  shows "ad_n (snd (snd (Feed shw v sb d))) = length (xs @ [v])"
    "ad_mean (snd (snd (Feed shw v sb d))) = avg (xs @ [v])"
    "ad_m2 (snd (snd (Feed shw v sb d))) = sq_dev (xs @ [v])"
proof -
  let ?x = "real (length xs)" and ?S = "sum_list xs" and ?Q = "sum_list (map (\<lambda>x. x\<^sup>2) xs)"
  have x: "?x > 0" using assms(2) by simp
  show "ad_n (snd (snd (Feed shw v sb d))) = length (xs @ [v])"
    using assms by (simp add: Feed_def Let_def)
  have m: "ad_mean d + (v - ad_mean d) / real (Suc (ad_n d)) = (?S + v) / (1 + ?x)"
    using welford_mean [OF x] assms(1,3) by (simp add: avg_def)
  then show "ad_mean (snd (snd (Feed shw v sb d))) = avg (xs @ [v])"
    by (simp add: Feed_def Let_def avg_def)
  have "ad_m2 (snd (snd (Feed shw v sb d))) = sq_dev xs + (v - ?S / ?x) * (v - (?S + v) / (1 + ?x))"
    unfolding m [symmetric] using assms(3,4) by (simp add: Feed_def Let_def avg_def)
  also have "\<dots> = (?Q + v\<^sup>2) - (?S + v)\<^sup>2 / (1 + ?x)"
    unfolding sq_dev_sum [OF assms(2)] by (rule welford_m2 [OF x])
  also have "\<dots> = sq_dev (xs @ [v])" by (subst sq_dev_sum) simp_all
  finally show "ad_m2 (snd (snd (Feed shw v sb d))) = sq_dev (xs @ [v])" .
qed

lemma feed_all_snoc: "feed_all shw (xs @ [v]) d = snd (snd (Feed shw v [] (feed_all shw xs d)))"
  by (simp add: feed_all_def)

lemma feed_all_stats:
  "xs \<noteq> [] \<Longrightarrow> ad_n (feed_all shw xs (AnomalyDetector_new m k)) = length xs
    \<and> ad_mean (feed_all shw xs (AnomalyDetector_new m k)) = avg xs
    \<and> ad_m2 (feed_all shw xs (AnomalyDetector_new m k)) = sq_dev xs"
proof (induction xs rule: rev_induct)
  case (snoc v xs)
  show ?case
  proof (cases "xs = []")
    case True
    then show ?thesis
      by (simp add: feed_all_def Feed_def AnomalyDetector_new_def avg_def sq_dev_def Let_def)
  next
    case False
    then show ?thesis using snoc.IH feed_step unfolding feed_all_snoc by metis
  qed
qed simp

lemma feed_all_k: "ad_k (feed_all shw xs d) = ad_k d"
  by (induction xs arbitrary: d) (simp_all add: feed_all_def Feed_def Let_def)

section \<open>The factory meets the registry contract\<close>

interpretation monitor_factory: named_registry MonitorFactory_Register MonitorFactory_Create
    MonitorFactory_Contains "map_of :: 'f factories \<Rightarrow> string \<Rightarrow> 'f option"
  by unfold_locales
    (auto simp: MonitorFactory_Register_def MonitorFactory_Create_def MonitorFactory_Contains_def)

section \<open>Properties\<close>

text \<open>After any sequence of events, the stats monitor's totals, error count and per-action counts and
  durations are those of the sequence.\<close>

theorem StatsMonitor_totals:
  "event_count (stats_of es) = length es
   \<and> error_count (stats_of es) = length (filter (\<lambda>e. \<not> ev_ok e) es)
   \<and> at_or 0 (sm_count_by_action (stats_of es)) a = length (filter (\<lambda>e. ev_action e = a) es)
   \<and> stats_duration (stats_of es) a = sum_list (map ev_duration (filter (\<lambda>e. ev_action e = a) es))"
  using stats_fold [of es StatsMonitor_new a]
  by (simp add: stats_of_def event_count_def error_count_def stats_duration_at StatsMonitor_new_def at_or_def)

text \<open>When composites are not nested in a cycle, emitting an event returns, and updates each stats
  monitor once per path that leads to it: a monitor shared by two composites counts the event
  twice.\<close>

theorem Composite_delivers:
  assumes "ranked st rk" and "rk r0 < n" and "st a = Some (StatsMon s)"
  shows "\<exists>st' ls. Emit n e r0 st = Some st' \<and> leaves n st r0 = Some ls
    \<and> st' a = Some (StatsMon ((stats_Emit e ^^ count_list ls a) s))"
  using leaves_total [OF assms(1,2)] fold_leaf_stats [of st a s e] assms(3) by (auto simp: Emit_leaves(1))

definition demo_monitors :: mstore where
  "demo_monitors = [0 \<mapsto> CompositeMonitor [1, 2, 1], 1 \<mapsto> StatsMon StatsMonitor_new, 2 \<mapsto> NullMonitor]"

theorem Composite_delivers_witness:
  "\<exists>st' ls. Emit 2 (Event_new ''dag'' ''go'' ''n'') 0 demo_monitors = Some st' \<and> leaves 2 demo_monitors 0 = Some ls
     \<and> st' 1 = Some (StatsMon ((stats_Emit (Event_new ''dag'' ''go'' ''n'') ^^ count_list ls 1) StatsMonitor_new))"
proof (rule Composite_delivers)
  show "ranked demo_monitors (\<lambda>a. if a = 0 then 1 else 0)"
    by (auto simp: ranked_def demo_monitors_def shape_def split: if_splits)
qed (simp_all add: demo_monitors_def)



end
