(* ===== verification/Executor.thy ===== *)
theory Executor
  imports DagGraph Metric
begin

text \<open>
  \<^verbatim>\<open>Executor::Execute\<close> and \<^verbatim>\<open>Executor::SpawnNode\<close> as an interleaving of steps: the calling thread walks over the
  nodes and spawns or skips each, and every spawned coroutine awaits its dependencies' completion events, runs
  the node, falls back on failure, fires its event and counts down.  Each rule is one atomic action
  of the code; any enabled step may come next, whatever the worker threads do.  The outcome of the
  business code of each node (\<open>beh\<close>) is arbitrary.  Awaiting an event that is not set blocks
  until it is (the wake-up protocol of \<^verbatim>\<open>AsyncEvent\<close> is modelled on its own).
\<close>

section \<open>Model: events\<close>

definition Resolve :: "nat \<Rightarrow> nat \<Rightarrow> nat" where
  "Resolve requested fallback = (if requested \<noteq> 0 then requested else fallback)"

definition DescribeError :: "exn option \<Rightarrow> string" where
  "DescribeError e = (case e of None \<Rightarrow> [] | Some x \<Rightarrow> what x)"

definition NodeEvent :: "'b Node \<Rightarrow> string \<Rightarrow> string \<Rightarrow> int \<Rightarrow> int \<Rightarrow> string \<Rightarrow> Event" where
  "NodeEvent n action status elapsed started error =
    (let e0 = attr ''status'' status (attr ''type'' (nd_type n) (Event_new ''dag'' action (nd_id n)));
         e1 = (if elapsed \<ge> 0 then attr_ns ''elapsed_ns'' elapsed e0 else e0);
         e2 = attr_ns ''started_ns'' started e1;
         e3 = (if error \<noteq> [] then attr ''error'' error e2 else e2)
     in e3\<lparr>ev_duration := elapsed, ev_ok := (error = [])\<rparr>)"

section \<open>Model: runs\<close>

text \<open>How a node's business code ends: normally, or with an exception after which \<^verbatim>\<open>Fallback\<close> recovers, declines or
  throws itself.\<close>

datatype fallback = Recovers | Declines | FallbackThrows
datatype outcome = Completes | Fails exn fallback

fun outcome_status :: "outcome \<Rightarrow> NodeStatus" where
  "outcome_status Completes = kSuccess"
| "outcome_status (Fails e Recovers) = kFallback"
| "outcome_status (Fails e _) = kFailed"

fun outcome_error :: "outcome \<Rightarrow> exn option" where
  "outcome_error Completes = None"
| "outcome_error (Fails e _) = Some e"

fun outcome_event :: "'b Node \<Rightarrow> int \<Rightarrow> int \<Rightarrow> outcome \<Rightarrow> Event" where
  "outcome_event n elapsed started Completes = NodeEvent n ''node.success'' ''success'' elapsed started []"
| "outcome_event n elapsed started (Fails e Recovers) = NodeEvent n ''node.fallback'' ''fallback'' elapsed started []"
| "outcome_event n elapsed started (Fails e _) =
    NodeEvent n ''node.failure'' ''failed'' elapsed started (DescribeError (Some e))"

datatype phase = Unspawned | Awaiting nat | Executing | Completed | Signalled | Finished

record run =
  rn_phase :: "nat \<Rightarrow> phase"
  rn_status :: "nat \<Rightarrow> NodeStatus"
  rn_error :: "nat \<Rightarrow> exn option"
  rn_done :: "nat \<Rightarrow> bool"
  rn_main :: nat
  rn_remaining :: nat
  rn_signals :: nat
  rn_started :: "nat list"
  rn_events :: "Event list"

text \<open>\<^verbatim>\<open>ResetRunState\<close> on every node, then the shared \<^verbatim>\<open>RunState\<close> with \<^verbatim>\<open>remaining = graph.size()\<close>.\<close>

definition run_init :: "'b Graph \<Rightarrow> run" where
  "run_init g = \<lparr>rn_phase = (\<lambda>_. Unspawned), rn_status = (\<lambda>_. kPending), rn_error = (\<lambda>_. None), rn_done = (\<lambda>_. False),
     rn_main = 0, rn_remaining = Graph_size g, rn_signals = 0, rn_started = [], rn_events = []\<rparr>"

definition is_disabled :: "'b Graph \<Rightarrow> string list \<Rightarrow> nat \<Rightarrow> bool" where
  "is_disabled g dis v = (nd_id (gr_nodes g ! v) \<in> set dis)"

definition emit_if :: "bool \<Rightarrow> Event \<Rightarrow> run \<Rightarrow> run" where
  "emit_if monitor e s = (if monitor then s\<lparr>rn_events := rn_events s @ [e]\<rparr> else s)"

inductive exec_step :: "'b Graph \<Rightarrow> string list \<Rightarrow> bool \<Rightarrow> (nat \<Rightarrow> outcome) \<Rightarrow> run \<Rightarrow> run \<Rightarrow> bool"
  for g dis monitor beh where
  spawn: "rn_main s = v \<Longrightarrow> v < Graph_size g \<Longrightarrow> \<not> is_disabled g dis v \<Longrightarrow> rn_phase s v = Unspawned \<Longrightarrow>
    exec_step g dis monitor beh s (s\<lparr>rn_phase := (rn_phase s)(v := Awaiting 0), rn_main := Suc v\<rparr>)"
| skip: "rn_main s = v \<Longrightarrow> v < Graph_size g \<Longrightarrow> is_disabled g dis v \<Longrightarrow> rn_phase s v = Unspawned \<Longrightarrow>
    exec_step g dis monitor beh s (emit_if monitor (NodeEvent (gr_nodes g ! v) ''node.skipped'' ''skipped'' 0 0 [])
      (s\<lparr>rn_phase := (rn_phase s)(v := Completed), rn_status := (rn_status s)(v := kSkipped)\<rparr>))"
| resume_main: "rn_main s = v \<Longrightarrow> v < Graph_size g \<Longrightarrow> is_disabled g dis v \<Longrightarrow> rn_phase s v = Finished \<Longrightarrow>
    exec_step g dis monitor beh s (s\<lparr>rn_main := Suc v\<rparr>)"
| await: "rn_phase s v = Awaiting i \<Longrightarrow> v < Graph_size g \<Longrightarrow> i < length (node_deps g v) \<Longrightarrow> rn_done s (node_deps g v ! i) \<Longrightarrow>
    exec_step g dis monitor beh s (s\<lparr>rn_phase := (rn_phase s)(v := Awaiting (Suc i))\<rparr>)"
| start: "rn_phase s v = Awaiting (length (node_deps g v)) \<Longrightarrow> v < Graph_size g \<Longrightarrow>
    exec_step g dis monitor beh s (emit_if monitor (NodeEvent (gr_nodes g ! v) ''node.start'' ''running'' (- 1) started [])
      (s\<lparr>rn_phase := (rn_phase s)(v := Executing), rn_status := (rn_status s)(v := kRunning),
         rn_started := rn_started s @ [v]\<rparr>))"
| finish: "rn_phase s v = Executing \<Longrightarrow> v < Graph_size g \<Longrightarrow>
    exec_step g dis monitor beh s (emit_if monitor (outcome_event (gr_nodes g ! v) elapsed started (beh v))
      (s\<lparr>rn_phase := (rn_phase s)(v := Completed), rn_status := (rn_status s)(v := outcome_status (beh v)),
         rn_error := (rn_error s)(v := outcome_error (beh v))\<rparr>))"
| signal: "rn_phase s v = Completed \<Longrightarrow> v < Graph_size g \<Longrightarrow>
    exec_step g dis monitor beh s (s\<lparr>rn_phase := (rn_phase s)(v := Signalled), rn_done := (rn_done s)(v := True)\<rparr>)"
| count_down: "rn_phase s v = Signalled \<Longrightarrow> v < Graph_size g \<Longrightarrow>
    exec_step g dis monitor beh s (s\<lparr>rn_phase := (rn_phase s)(v := Finished), rn_remaining := rn_remaining s - 1,
      rn_signals := rn_signals s + (if rn_remaining s = 1 then 1 else 0)\<rparr>)"

text \<open>The states \<^verbatim>\<open>Execute\<close> can be in; an empty graph returns at once.\<close>

inductive exec_reach :: "'b Graph \<Rightarrow> string list \<Rightarrow> bool \<Rightarrow> (nat \<Rightarrow> outcome) \<Rightarrow> run \<Rightarrow> bool" for g dis monitor beh where
  init: "exec_reach g dis monitor beh (run_init g)"
| more: "exec_reach g dis monitor beh s \<Longrightarrow> exec_step g dis monitor beh s s' \<Longrightarrow> exec_reach g dis monitor beh s'"

inductive_cases exec_stepE: "exec_step g dis monitor beh s s'"

text \<open>\<^verbatim>\<open>done.wait()\<close> returns once the promise is set.\<close>

definition returns :: "'b Graph \<Rightarrow> run \<Rightarrow> bool" where
  "returns g s = (Graph_empty g \<or> rn_signals s > 0 \<and> rn_main s = Graph_size g)"

section \<open>Invariant\<close>

definition final_status :: "'b Graph \<Rightarrow> string list \<Rightarrow> (nat \<Rightarrow> outcome) \<Rightarrow> nat \<Rightarrow> NodeStatus" where
  "final_status g dis beh v = (if is_disabled g dis v then kSkipped else outcome_status (beh v))"

definition after_run :: "phase \<Rightarrow> bool" where
  "after_run p = (p \<in> {Completed, Signalled, Finished})"

definition node_inv :: "'b Graph \<Rightarrow> string list \<Rightarrow> (nat \<Rightarrow> outcome) \<Rightarrow> run \<Rightarrow> nat \<Rightarrow> bool" where
  "node_inv g dis beh s v =
    ((rn_done s v \<longleftrightarrow> rn_phase s v \<in> {Signalled, Finished})
     \<and> (is_disabled g dis v \<longrightarrow> rn_phase s v = Unspawned \<or> after_run (rn_phase s v))
     \<and> (\<forall>i. rn_phase s v = Awaiting i \<longrightarrow> i \<le> length (node_deps g v) \<and> (\<forall>j < i. rn_done s (node_deps g v ! j)))
     \<and> (\<not> is_disabled g dis v \<and> (rn_phase s v = Executing \<or> after_run (rn_phase s v)) \<longrightarrow>
          (\<forall>d \<in> set (node_deps g v). rn_done s d))
     \<and> (v \<in> set (rn_started s) \<longleftrightarrow> \<not> is_disabled g dis v \<and> (rn_phase s v = Executing \<or> after_run (rn_phase s v)))
     \<and> rn_status s v = (case rn_phase s v of Unspawned \<Rightarrow> kPending | Awaiting _ \<Rightarrow> kPending | Executing \<Rightarrow> kRunning
          | _ \<Rightarrow> final_status g dis beh v)
     \<and> (v < rn_main s \<longrightarrow> rn_phase s v \<noteq> Unspawned)
     \<and> (v > rn_main s \<longrightarrow> rn_phase s v = Unspawned)
     \<and> (v = rn_main s \<longrightarrow> rn_phase s v = Unspawned \<or> is_disabled g dis v \<and> after_run (rn_phase s v)))"

definition unfinished :: "'b Graph \<Rightarrow> run \<Rightarrow> nat" where
  "unfinished g s = length (filter (\<lambda>v. rn_phase s v \<noteq> Finished) [0..<Graph_size g])"

definition run_inv :: "'b Graph \<Rightarrow> string list \<Rightarrow> (nat \<Rightarrow> outcome) \<Rightarrow> run \<Rightarrow> bool" where
  "run_inv g dis beh s =
    ((\<forall>v < Graph_size g. node_inv g dis beh s v)
     \<and> distinct (rn_started s) \<and> set (rn_started s) \<subseteq> {0..<Graph_size g} \<and> rn_main s \<le> Graph_size g
     \<and> rn_remaining s = unfinished g s
     \<and> rn_signals s = (if rn_remaining s = 0 \<and> Graph_size g > 0 then 1 else 0))"

lemma emit_if_simps [simp]:
  "rn_phase (emit_if m e s) = rn_phase s" "rn_status (emit_if m e s) = rn_status s"
  "rn_done (emit_if m e s) = rn_done s" "rn_main (emit_if m e s) = rn_main s"
  "rn_remaining (emit_if m e s) = rn_remaining s" "rn_signals (emit_if m e s) = rn_signals s"
  "rn_started (emit_if m e s) = rn_started s"
  by (simp_all add: emit_if_def)

lemma run_init_inv: "run_inv g dis beh (run_init g)"
  by (auto simp: run_inv_def run_init_def node_inv_def unfinished_def after_run_def)

lemma unfinished_same:
  "rn_phase s' = (rn_phase s)(v := p) \<Longrightarrow> p \<noteq> Finished \<Longrightarrow> rn_phase s v \<noteq> Finished \<Longrightarrow> unfinished g s' = unfinished g s"
  unfolding unfinished_def by (intro arg_cong [where f = length] filter_cong) auto

lemma unfinished_drop:
  assumes "rn_phase s' = (rn_phase s)(v := Finished)" "rn_phase s v \<noteq> Finished" "v < Graph_size g"
  shows "unfinished g s = Suc (unfinished g s')"
proof -
  have "length (filter (\<lambda>u. rn_phase s u \<noteq> Finished) xs) = Suc (length (filter (\<lambda>u. rn_phase s' u \<noteq> Finished) xs))"
    if "v \<in> set xs" "distinct xs" for xs
    using that
  proof (induction xs)
    case (Cons x xs)
    show ?case
    proof (cases "x = v")
      case True
      then have "filter (\<lambda>u. rn_phase s' u \<noteq> Finished) xs = filter (\<lambda>u. rn_phase s u \<noteq> Finished) xs"
        using Cons.prems assms(1) by (intro filter_cong) auto
      then show ?thesis using True assms by simp
    qed (use Cons assms(1) in auto)
  qed simp
  then show ?thesis using assms(3) by (simp add: unfinished_def)
qed


text \<open>What a step at \<open>v\<close> leaves of the other nodes: completion events are only ever set.\<close>

lemma node_inv_other:
  assumes "node_inv g dis beh s u" "rn_phase s' u = rn_phase s u" "rn_status s' u = rn_status s u"
    "rn_done s' u = rn_done s u" "\<And>d. rn_done s d \<Longrightarrow> rn_done s' d"
    "u \<in> set (rn_started s') \<longleftrightarrow> u \<in> set (rn_started s)"
    "rn_main s' = rn_main s \<or> rn_main s' = Suc (rn_main s) \<and> u \<noteq> rn_main s"
  shows "node_inv g dis beh s' u"
proof -
  have m: "u < rn_main s' \<Longrightarrow> u < rn_main s" "u > rn_main s' \<Longrightarrow> u > rn_main s"
    "u = rn_main s' \<Longrightarrow> u = rn_main s \<or> u > rn_main s"
    using assms(7) by auto
  from assms(1) have i: "rn_done s u \<longleftrightarrow> rn_phase s u \<in> {Signalled, Finished}"
      "is_disabled g dis u \<longrightarrow> rn_phase s u = Unspawned \<or> after_run (rn_phase s u)"
      "\<forall>i. rn_phase s u = Awaiting i \<longrightarrow> i \<le> length (node_deps g u) \<and> (\<forall>j < i. rn_done s (node_deps g u ! j))"
      "\<not> is_disabled g dis u \<and> (rn_phase s u = Executing \<or> after_run (rn_phase s u)) \<longrightarrow>
        (\<forall>d \<in> set (node_deps g u). rn_done s d)"
      "u \<in> set (rn_started s) \<longleftrightarrow> \<not> is_disabled g dis u \<and> (rn_phase s u = Executing \<or> after_run (rn_phase s u))"
    unfolding node_inv_def by blast+
  from assms(1) have j: "rn_status s u = (case rn_phase s u of Unspawned \<Rightarrow> kPending | Awaiting _ \<Rightarrow> kPending
      | Executing \<Rightarrow> kRunning | _ \<Rightarrow> final_status g dis beh u)"
    "u < rn_main s \<longrightarrow> rn_phase s u \<noteq> Unspawned" "u > rn_main s \<longrightarrow> rn_phase s u = Unspawned"
    "u = rn_main s \<longrightarrow> rn_phase s u = Unspawned \<or> is_disabled g dis u \<and> after_run (rn_phase s u)"
    unfolding node_inv_def by blast+
  have "\<forall>i. rn_phase s u = Awaiting i \<longrightarrow> i \<le> length (node_deps g u) \<and> (\<forall>j < i. rn_done s' (node_deps g u ! j))"
    "\<not> is_disabled g dis u \<and> (rn_phase s u = Executing \<or> after_run (rn_phase s u)) \<longrightarrow>
        (\<forall>d \<in> set (node_deps g u). rn_done s' d)"
    using i(3,4) assms(5) by blast+
  moreover have "u < rn_main s' \<longrightarrow> rn_phase s u \<noteq> Unspawned" "u > rn_main s' \<longrightarrow> rn_phase s u = Unspawned"
    "u = rn_main s' \<longrightarrow> rn_phase s u = Unspawned \<or> is_disabled g dis u \<and> after_run (rn_phase s u)"
    using j(2-4) m by blast+
  ultimately show ?thesis
    unfolding node_inv_def assms(2,3,4,6) using i(1,2,5) j(1) by (intro conjI)
qed

lemma run_invI:
  assumes inv: "run_inv g dis beh s" and v: "v < Graph_size g"
    and other: "\<And>u. u \<noteq> v \<Longrightarrow> rn_phase s' u = rn_phase s u \<and> rn_status s' u = rn_status s u \<and> rn_done s' u = rn_done s u
      \<and> (u \<in> set (rn_started s') \<longleftrightarrow> u \<in> set (rn_started s))"
    and grows: "\<And>d. rn_done s d \<Longrightarrow> rn_done s' d"
    and main: "rn_main s' = rn_main s \<or> rn_main s' = Suc v \<and> rn_main s = v"
    and here: "node_inv g dis beh s v \<Longrightarrow> node_inv g dis beh s' v"
    and started: "distinct (rn_started s')" "set (rn_started s') \<subseteq> {0..<Graph_size g}"
    and count: "rn_remaining s' = unfinished g s'" "rn_signals s' = (if rn_remaining s' = 0 \<and> Graph_size g > 0 then 1 else 0)"
  shows "run_inv g dis beh s'"
proof -
  have "node_inv g dis beh s' u" if "u < Graph_size g" for u
  proof (cases "u = v")
    case True
    then show ?thesis using here inv v by (simp add: run_inv_def)
  next
    case False
    have "node_inv g dis beh s u" using inv that by (simp add: run_inv_def)
    then show ?thesis
      by (rule node_inv_other) (use other [OF False] grows main False in auto)
  qed
  then show ?thesis using inv v started count main by (auto simp: run_inv_def)
qed


lemma run_invD:
  assumes "run_inv g dis beh s"
  shows "v < Graph_size g \<Longrightarrow> node_inv g dis beh s v" "distinct (rn_started s)"
    "set (rn_started s) \<subseteq> {0..<Graph_size g}" "rn_main s \<le> Graph_size g" "rn_remaining s = unfinished g s"
    "rn_signals s = (if unfinished g s = 0 \<and> Graph_size g > 0 then 1 else 0)"
  using assms by (simp_all add: run_inv_def)

lemma exec_step_inv:
  assumes "exec_step g dis monitor beh s s'" and inv: "run_inv g dis beh s"
  shows "run_inv g dis beh s'"
  using assms(1)
proof cases
  case (spawn v)
  have "unfinished g s' = unfinished g s" by (rule unfinished_same) (use spawn in auto)
  then show ?thesis
    by (intro run_invI [OF inv spawn(3)]) (use run_invD(2-6) [OF inv] spawn in \<open>auto simp: node_inv_def after_run_def\<close>)
next
  case (skip v)
  have "unfinished g s' = unfinished g s" by (rule unfinished_same) (use skip in auto)
  then show ?thesis
    by (intro run_invI [OF inv skip(3)])
      (use run_invD(2-6) [OF inv] skip in \<open>auto simp: node_inv_def after_run_def final_status_def\<close>)
next
  case (resume_main v)
  have "unfinished g s' = unfinished g s" using resume_main by (simp add: unfinished_def)
  then show ?thesis
    by (intro run_invI [OF inv resume_main(3)]) (use run_invD(2-6) [OF inv] resume_main in \<open>auto simp: node_inv_def after_run_def\<close>)
next
  case (await v i)
  have "unfinished g s' = unfinished g s" by (rule unfinished_same) (use await in auto)
  then show ?thesis
    by (intro run_invI [OF inv await(3)])
      (use run_invD(2-6) [OF inv] await in \<open>auto simp: node_inv_def after_run_def less_Suc_eq\<close>)
next
  case (start v started)
  have "unfinished g s' = unfinished g s" by (rule unfinished_same) (use start in auto)
  moreover have "v \<notin> set (rn_started s)" using run_invD(1) [OF inv start(3)] start by (auto simp: node_inv_def after_run_def)
  ultimately show ?thesis
    by (intro run_invI [OF inv start(3)])
      (use run_invD(2-6) [OF inv] start in \<open>auto simp: node_inv_def after_run_def in_set_conv_nth\<close>)
next
  case (finish v elapsed started)
  have "unfinished g s' = unfinished g s" by (rule unfinished_same) (use finish in auto)
  then show ?thesis
    by (intro run_invI [OF inv finish(3)])
      (use run_invD(2-6) [OF inv] finish in \<open>auto simp: node_inv_def after_run_def final_status_def\<close>)
next
  case (signal v)
  have "unfinished g s' = unfinished g s" by (rule unfinished_same) (use signal in auto)
  then show ?thesis
    by (intro run_invI [OF inv signal(3)]) (use run_invD(2-6) [OF inv] signal in \<open>auto simp: node_inv_def after_run_def\<close>)
next
  case (count_down v)
  obtain m where m: "unfinished g s' = m" by simp
  have "unfinished g s = Suc (unfinished g s')" by (rule unfinished_drop [of _ _ v]) (use count_down in auto)
  then have "rn_remaining s = Suc m" "rn_signals s = 0" using m run_invD(5,6) [OF inv] by simp_all
  then have count: "rn_remaining s' = unfinished g s'"
    "rn_signals s' = (if rn_remaining s' = 0 \<and> Graph_size g > 0 then 1 else 0)"
    using m count_down by simp_all
  show ?thesis
    by (intro run_invI [OF inv count_down(3)] count)
      (use run_invD(2-3) [OF inv] count_down in \<open>auto simp: node_inv_def after_run_def\<close>)
qed

lemma exec_reach_inv: "exec_reach g dis monitor beh s \<Longrightarrow> run_inv g dis beh s"
  by (induction rule: exec_reach.induct) (auto intro: run_init_inv exec_step_inv)


section \<open>Errors\<close>

definition final_error :: "'b Graph \<Rightarrow> string list \<Rightarrow> (nat \<Rightarrow> outcome) \<Rightarrow> nat \<Rightarrow> exn option" where
  "final_error g dis beh v = (if is_disabled g dis v then None else outcome_error (beh v))"

lemma emit_if_error [simp]: "rn_error (emit_if m e s) = rn_error s"
  by (simp add: emit_if_def)

lemma exec_reach_error:
  "exec_reach g dis monitor beh s \<Longrightarrow> v < Graph_size g \<Longrightarrow>
    rn_error s v = (if after_run (rn_phase s v) then final_error g dis beh v else None)"
proof (induction arbitrary: v rule: exec_reach.induct)
  case init
  then show ?case by (simp add: run_init_def after_run_def)
next
  case (more s s')
  have nd: "\<not> is_disabled g dis u" if "rn_phase s u = Executing" "u < Graph_size g" for u
    using run_invD(1) [OF exec_reach_inv [OF more.hyps(1)] that(2)] that(1) by (auto simp: node_inv_def after_run_def)
  from more.hyps(2) show ?case
    by cases (use more.IH [OF more.prems] nd in \<open>auto simp: after_run_def final_error_def split: if_splits\<close>)
qed

section \<open>Progress and termination\<close>

lemma step_exists:
  assumes v: "v < Graph_size g" and p: "rn_phase s v \<in> {Executing, Completed, Signalled, Awaiting (length (node_deps g v))}"
  shows "\<exists>s'. exec_step g dis monitor beh s s'"
  using p exec_step.finish [of s v] exec_step.signal [of s v] exec_step.count_down [of s v] exec_step.start [of s v] v
  by blast

lemma main_moves:
  assumes "run_inv g dis beh s" "rn_main s < Graph_size g" "\<nexists>s'. exec_step g dis monitor beh s s'"
  shows False
proof -
  let ?v = "rn_main s"
  have "rn_phase s ?v = Unspawned \<or> is_disabled g dis ?v \<and> after_run (rn_phase s ?v)"
    using run_invD(1) [OF assms(1,2)] by (simp add: node_inv_def)
  moreover have "rn_phase s ?v \<noteq> Unspawned"
    using assms(2,3) exec_step.spawn [of s ?v g] exec_step.skip [of s ?v g] by blast
  moreover have "rn_phase s ?v \<noteq> Finished \<or> \<not> is_disabled g dis ?v"
    using assms(2,3) exec_step.resume_main [of s ?v g] by blast
  ultimately show False using step_exists [of ?v g s] assms(2,3) by (auto simp: after_run_def)
qed

text \<open>A run that cannot move has finished: coroutines that only await each other would lie on a cycle.\<close>

lemma stuck_finished:
  assumes inv: "run_inv g dis beh s" and c: "closed_graph (node_deps g) [0..<Graph_size g]"
    and a: "acyclic (dep_rel (node_deps g) {0..<Graph_size g})" and stuck: "\<nexists>s'. exec_step g dis monitor beh s s'"
  shows "rn_main s = Graph_size g" "\<And>v. v < Graph_size g \<Longrightarrow> rn_phase s v = Finished"
proof -
  show m: "rn_main s = Graph_size g" using main_moves [OF inv _ stuck] run_invD(4) [OF inv] by fastforce
  let ?R = "{v. v < Graph_size g \<and> (\<exists>i. rn_phase s v = Awaiting i)}"
  have cases: "rn_phase s v = Finished \<or> v \<in> ?R" if "v < Graph_size g" for v
    using run_invD(1) [OF inv that] step_exists [OF that, of s] stuck m that
    by (cases "rn_phase s v") (auto simp: node_inv_def)
  have "\<exists>d \<in> set (node_deps g v). d \<in> ?R" if "v \<in> ?R" for v
  proof -
    from that obtain i where i: "v < Graph_size g" "rn_phase s v = Awaiting i" by auto
    then have "i \<le> length (node_deps g v)" using run_invD(1) [OF inv i(1)] by (simp add: node_inv_def)
    moreover have "i \<noteq> length (node_deps g v)" using step_exists [OF i(1), of s] stuck i(2) by auto
    ultimately have l: "i < length (node_deps g v)" by simp
    let ?d = "node_deps g v ! i"
    have d: "?d < Graph_size g" using c i(1) l nth_mem by (fastforce simp: closed_graph_def list_all_iff)
    have "\<not> rn_done s ?d" using stuck exec_step.await [OF i(2) i(1) l] by blast
    then have "rn_phase s ?d \<noteq> Finished" using run_invD(1) [OF inv d] by (auto simp: node_inv_def)
    then show ?thesis using cases [OF d] l nth_mem by blast
  qed
  then have "?R = {}" using stuck_cycle [of "{0..<Graph_size g}" ?R "node_deps g"] a by fastforce
  then show "rn_phase s v = Finished" if "v < Graph_size g" for v using cases [OF that] by blast
qed


definition phase_weight :: "'b Graph \<Rightarrow> nat \<Rightarrow> phase \<Rightarrow> nat" where
  "phase_weight g v p = (case p of Unspawned \<Rightarrow> length (node_deps g v) + 6 | Awaiting i \<Rightarrow> length (node_deps g v) - i + 5
     | Executing \<Rightarrow> 4 | Completed \<Rightarrow> 3 | Signalled \<Rightarrow> 2 | Finished \<Rightarrow> 1)"

definition run_weight :: "'b Graph \<Rightarrow> run \<Rightarrow> nat" where
  "run_weight g s = (\<Sum>v<Graph_size g. phase_weight g v (rn_phase s v)) + (Graph_size g - rn_main s)"

lemma run_weight_move:
  assumes "v < Graph_size g" "rn_phase s' = (rn_phase s)(v := p)" "phase_weight g v p < phase_weight g v (rn_phase s v)"
    "rn_main s \<le> rn_main s'"
  shows "run_weight g s' < run_weight g s"
proof -
  have "(\<Sum>u<Graph_size g. phase_weight g u (rn_phase s' u)) < (\<Sum>u<Graph_size g. phase_weight g u (rn_phase s u))"
    by (rule sum_strict_mono_ex1) (use assms in auto)
  then show ?thesis using assms(4) by (simp add: run_weight_def)
qed

lemma exec_step_weight: "exec_step g dis monitor beh s s' \<Longrightarrow> run_weight g s' < run_weight g s"
proof (cases rule: exec_step.cases, assumption)
  fix v assume "s' = s\<lparr>rn_main := Suc v\<rparr>" "rn_main s = v" "v < Graph_size g"
  then show ?thesis by (simp add: run_weight_def)
qed (auto intro!: run_weight_move simp: phase_weight_def)

lemma exec_step_wf: "wf {(s', s). exec_step g dis monitor beh s s'}"
  by (rule wf_subset [of "measure (run_weight g)"]) (auto simp: exec_step_weight)

lemma reach_stuck: "\<exists>s. exec_reach g dis monitor beh s \<and> (\<nexists>s'. exec_step g dis monitor beh s s')"
proof -
  have "run_init g \<in> {s. exec_reach g dis monitor beh s}" by (simp add: exec_reach.init)
  then obtain z where z: "exec_reach g dis monitor beh z"
    "\<And>y. (y, z) \<in> {(s', s). exec_step g dis monitor beh s s'} \<Longrightarrow> \<not> exec_reach g dis monitor beh y"
    using wfE_min [OF exec_step_wf [of g dis monitor beh], of "run_init g" "{s. exec_reach g dis monitor beh s}"] by auto
  then show ?thesis using exec_reach.more by blast
qed

lemma unfinished_0: "unfinished g s = 0 \<longleftrightarrow> (\<forall>v < Graph_size g. rn_phase s v = Finished)"
  by (auto simp: unfinished_def filter_empty_conv)

lemma returns_finished:
  assumes "exec_reach g dis monitor beh s" "returns g s" "v < Graph_size g"
  shows "rn_phase s v = Finished"
proof -
  have "rn_signals s > 0" using assms(2,3) by (auto simp: returns_def Graph_empty_def Graph_size_def)
  then have "unfinished g s = 0" using run_invD(6) [OF exec_reach_inv [OF assms(1)]] by (simp split: if_splits)
  then show ?thesis using assms(3) by (simp add: unfinished_0)
qed

lemma returns_iff_stuck:
  assumes b: "Build reg defs = Inr g" and r: "exec_reach g dis monitor beh s"
  shows "returns g s \<longleftrightarrow> (\<nexists>s'. exec_step g dis monitor beh s s')"
proof
  assume "returns g s"
  then have f: "rn_phase s v = Finished" if "v < Graph_size g" for v using returns_finished [OF r] that by blast
  have "rn_main s = Graph_size g"
    using \<open>returns g s\<close> run_invD(4) [OF exec_reach_inv [OF r]] by (auto simp: returns_def Graph_empty_def Graph_size_def)
  then show "\<nexists>s'. exec_step g dis monitor beh s s'" by (auto elim!: exec_stepE simp: f)
next
  assume stuck: "\<nexists>s'. exec_step g dis monitor beh s s'"
  note inv = exec_reach_inv [OF r]
  have "rn_main s = Graph_size g" "unfinished g s = 0"
    using stuck_finished [OF inv Build_runnable [OF b] stuck] by (simp_all add: unfinished_0)
  then show "returns g s"
    using run_invD(6) [OF inv] by (auto simp: returns_def Graph_empty_def Graph_size_def)
qed

lemma run_completes:
  assumes "Build reg defs = Inr g"
  shows "\<exists>s. exec_reach g dis monitor beh s \<and> returns g s"
  using reach_stuck returns_iff_stuck [OF assms] by blast

section \<open>Properties\<close>

text \<open>C2. \<^verbatim>\<open>Executor::Execute\<close> on a graph the builder accepted always returns, under every interleaving of the workers,
  whatever the nodes do and whichever are disabled: no run is infinite, and a run stops only once the promise
  has been set with every node walked over (no deadlock, no lost completion).\<close>

theorem Execute_terminates:
  assumes "Build reg defs = Inr g"
  shows "wf {(s', s). exec_reach g dis monitor beh s \<and> exec_step g dis monitor beh s s'} \<and>
    (\<forall>s. exec_reach g dis monitor beh s \<longrightarrow> (returns g s \<longleftrightarrow> (\<nexists>s'. exec_step g dis monitor beh s s')))"
proof -
  have "wf {(s', s). exec_reach g dis monitor beh s \<and> exec_step g dis monitor beh s s'}"
    by (rule wf_subset [OF exec_step_wf]) auto
  then show ?thesis using returns_iff_stuck [OF assms] by blast
qed

text \<open>C3. No node is started before every dependency has fired its completion event with its final status (a failed or
  skipped dependency does not block), and no node is started twice.\<close>

theorem Execute_dependencies_first:
  assumes "Build reg defs = Inr g" "exec_reach g dis monitor beh s"
  shows "distinct (rn_started s) \<and> list_all (\<lambda>v. v < Graph_size g \<and> \<not> is_disabled g dis v \<and>
    list_all (\<lambda>d. rn_done s d \<and> rn_status s d = final_status g dis beh d) (node_deps g v)) (rn_started s)"
proof -
  note inv = exec_reach_inv [OF assms(2)]
  have "rn_done s d \<and> rn_status s d = final_status g dis beh d"
    if v: "v \<in> set (rn_started s)" "v < Graph_size g" "d \<in> set (node_deps g v)" for v d
  proof -
    have "rn_done s d" using v run_invD(1) [OF inv v(2)] by (auto simp: node_inv_def)
    moreover have "d < Graph_size g"
      using Build_runnable(1) [OF assms(1)] v(2,3) by (fastforce simp: closed_graph_def list_all_iff)
    ultimately show ?thesis using run_invD(1) [OF inv, of d] by (auto simp: node_inv_def)
  qed
  moreover have "v < Graph_size g \<and> \<not> is_disabled g dis v" if "v \<in> set (rn_started s)" for v
  proof -
    have "v < Graph_size g" using run_invD(3) [OF inv] that by auto
    then show ?thesis using run_invD(1) [OF inv, of v] that by (simp add: node_inv_def)
  qed
  ultimately show ?thesis using run_invD(2) [OF inv] by (simp add: list_all_iff)
qed

text \<open>C4. When \<^verbatim>\<open>Execute\<close> returns, the promise was set exactly once, every node that is not disabled was started exactly
  once, and the status and error of every node are those of its outcome: skipped when disabled, success, fallback
  (with the error kept) or failed.\<close>

theorem Execute_result:
  assumes "exec_reach g dis monitor beh s" "returns g s" "\<not> Graph_empty g"
  shows "rn_signals s = 1 \<and> distinct (rn_started s) \<and> set (rn_started s) = {v. v < Graph_size g \<and> \<not> is_disabled g dis v} \<and>
    list_all (\<lambda>v. rn_status s v = final_status g dis beh v \<and> rn_error s v = final_error g dis beh v) [0..<Graph_size g]"
proof -
  note inv = exec_reach_inv [OF assms(1)]
  have f: "rn_phase s v = Finished" if "v < Graph_size g" for v using returns_finished [OF assms(1,2) that] .
  have "rn_status s v = final_status g dis beh v \<and> rn_error s v = final_error g dis beh v"
    "v \<in> set (rn_started s) \<longleftrightarrow> \<not> is_disabled g dis v" if "v < Graph_size g" for v
    using run_invD(1) [OF inv that] exec_reach_error [OF assms(1) that]
    by (simp_all add: node_inv_def after_run_def f [OF that])
  moreover have "rn_signals s = 1"
    using run_invD(6) [OF inv] assms(2,3) by (auto simp: returns_def split: if_splits)
  moreover have "v \<in> set (rn_started s) \<Longrightarrow> v < Graph_size g" for v using run_invD(3) [OF inv] by auto
  ultimately show ?thesis using run_invD(2) [OF inv] by (auto simp: list_all_iff)
qed


section \<open>Witnesses\<close>

text \<open>Three nodes: \<open>c\<close> depends on \<open>a\<close> and on the disabled \<open>b\<close>; \<open>a\<close> fails and falls back.\<close>

definition demo_defs :: "NodeDef list" where
  "demo_defs = [NodeDef_new ''t'' [''a'', ''b''] ''c'', NodeDef_new ''t'' [] ''a'', NodeDef_new ''t'' [''a''] ''b'']"

definition demo_built :: "unit Graph" where
  "demo_built = described_graph [(''t'', ())] demo_defs"

definition demo_outcomes :: "nat \<Rightarrow> outcome" where
  "demo_outcomes v = (if v = 1 then Fails (RuntimeError ''x'') Recovers else Completes)"

lemma demo_Build: "Build [(''t'', ())] demo_defs = Inr demo_built"
  by code_simp

theorem Execute_terminates_witness:
  "\<exists>s. exec_reach demo_built [''b''] True demo_outcomes s \<and> returns demo_built s \<and>
    wf {(s', s). exec_reach demo_built [''b''] True demo_outcomes s \<and> exec_step demo_built [''b''] True demo_outcomes s s'}"
  using reach_stuck [of demo_built "[''b'']" True demo_outcomes]
    Execute_terminates [OF demo_Build, of "[''b'']" True demo_outcomes] by blast

theorem Execute_dependencies_first_witness:
  "\<exists>s. exec_reach demo_built [''b''] True demo_outcomes s \<and> returns demo_built s \<and>
    list_all (\<lambda>v. list_all (rn_done s) (node_deps demo_built v)) (rn_started s)"
proof -
  obtain s where s: "exec_reach demo_built [''b''] True demo_outcomes s" "returns demo_built s"
    using run_completes [OF demo_Build] by blast
  then show ?thesis using Execute_dependencies_first [OF demo_Build s(1)] by (auto simp: list_all_iff)
qed

theorem Execute_result_witness:
  "\<exists>s. exec_reach demo_built [''b''] True demo_outcomes s \<and> returns demo_built s \<and>
    map (rn_status s) [0, 1, 2] = [kSuccess, kFallback, kSkipped] \<and> set (rn_started s) = {0, 1}"
proof -
  obtain s where s: "exec_reach demo_built [''b''] True demo_outcomes s" "returns demo_built s"
    using run_completes [OF demo_Build] by blast
  have n: "Graph_size demo_built = 3" "\<not> Graph_empty demo_built" by code_simp+
  have d: "\<not> is_disabled demo_built [''b''] 0" "\<not> is_disabled demo_built [''b''] 1" "is_disabled demo_built [''b''] 2"
    by code_simp+
  have "{v. v < Graph_size demo_built \<and> \<not> is_disabled demo_built [''b''] v} = {0, 1}"
    using d n by (auto simp: less_Suc_eq numeral_3_eq_3 numeral_2_eq_2)
  then show ?thesis
    using Execute_result [OF s n(2)] s d n by (auto simp: list_all_iff final_status_def demo_outcomes_def)
qed

end
