(* ===== verification/Lexer.thy ===== *)
theory Lexer
  imports Complex_Main Str
begin

text \<open>
  The tokenizer and the parser base of \<^verbatim>\<open>toolkit/dsl\<close>, shared by the Op arrow language and the column
  expression language.  \<^verbatim>\<open>lexer\<close> is the object's state; an operation that throws abandons the lexer, so
  it returns \<^verbatim>\<open>Inl\<close> of the exception, and otherwise the token and the new state.  Number values are
  exact reals (no rounding); \<^verbatim>\<open>stod\<close> reads the longest decimal prefix and throws on overflow of
  \<^verbatim>\<open>double\<close>.
\<close>

section \<open>Model\<close>

datatype TokenKind = kIdent | kNumber | kSymbol | kEnd

record Token =
  kind :: TokenKind
  ttext :: string
  tnumber :: real
  toffset :: nat
  tline :: nat
  tcol :: nat

record Lexer =
  lx_source :: string
  lx_symbols :: string
  lx_multi :: "string list"
  lx_pos :: nat
  lx_line :: nat
  lx_col :: nat
  lx_peek :: Token
  lx_peeked :: bool

definition no_token :: Token where
  "no_token = \<lparr>kind = kEnd, ttext = [], tnumber = 0, toffset = 0, tline = 1, tcol = 1\<rparr>"

definition longest_first :: "string list \<Rightarrow> string list" where
  "longest_first = sort_key (\<lambda>s. - int (length s))"

definition Lexer_new :: "string \<Rightarrow> string \<Rightarrow> string list \<Rightarrow> Lexer" where
  "Lexer_new source symbols multi =
    \<lparr>lx_source = source, lx_symbols = symbols, lx_multi = longest_first multi,
     lx_pos = 0, lx_line = 1, lx_col = 1, lx_peek = no_token, lx_peeked = False\<rparr>"

definition NL :: char where
  "NL = CHR 0x0A"

text \<open>
  \<^verbatim>\<open>SkipSpace\<close> and the scans of \<^verbatim>\<open>Lex\<close> walk over the unread part of the source: \<^verbatim>\<open>rest\<close> is
  \<^verbatim>\<open>source_\<close> from \<^verbatim>\<open>pos_\<close> on.  The result is the number of characters passed, the line and the column.
\<close>

fun skip_comment :: "string \<Rightarrow> nat" where
  "skip_comment [] = 0"
| "skip_comment (c # rest) = (if c \<noteq> NL then Suc (skip_comment rest) else 0)"

function SkipSpace :: "string \<Rightarrow> nat \<Rightarrow> nat \<Rightarrow> nat \<Rightarrow> nat \<times> nat \<times> nat" where
  "SkipSpace src pos line col =
    (if pos < length src then
       (let c = src ! pos in
        if c = CHR ''#'' then
          (let k = skip_comment (drop pos src) in SkipSpace src (pos + k) line (col + k))
        else if isspace c then
          (if c = NL then SkipSpace src (Suc pos) (Suc line) 1 else SkipSpace src (Suc pos) line (Suc col))
        else (pos, line, col))
     else (pos, line, col))"
  by pat_completeness auto
termination
proof (relation "measure (\<lambda>(s, p, l, c). length s - p)", goal_cases)
  case (2 src pos line col c k)
  then have "drop pos src = CHR ''#'' # drop (Suc pos) src" by (metis Cons_nth_drop_Suc)
  then have "skip_comment (drop pos src) > 0" by (simp only: skip_comment.simps) (simp add: NL_def)
  then show ?case using 2 by auto
qed auto

declare SkipSpace.simps [simp del]

definition is_num_char :: "char \<Rightarrow> bool" where
  "is_num_char c = (isdigit c \<or> c = CHR ''.'')"

definition is_ident_start :: "char \<Rightarrow> bool" where
  "is_ident_start c = (isalpha c \<or> c = CHR ''_'')"

definition is_ident_char :: "char \<Rightarrow> bool" where
  "is_ident_char c = (isalnum c \<or> c = CHR ''_'')"

definition starts_number :: "string \<Rightarrow> bool" where
  "starts_number rest = (case rest of [] \<Rightarrow> False | c # cs \<Rightarrow>
     isdigit c \<or> (c = CHR ''.'' \<and> cs \<noteq> [] \<and> isdigit (hd cs)))"

text \<open>\<^verbatim>\<open>std::stod\<close> on a text of digits and dots: the second dot ends the number; a value that rounds
  beyond the largest \<^verbatim>\<open>double\<close> throws \<^verbatim>\<open>std::out_of_range\<close>.\<close>

fun frac_value :: "string \<Rightarrow> real \<Rightarrow> real" where
  "frac_value [] scale = 0"
| "frac_value (c # cs) scale = (real (of_char c) - 48) * scale + frac_value cs (scale / 10)"

definition stod_value :: "string \<Rightarrow> real" where
  "stod_value t =
    (let ip = takeWhile isdigit t;
         fp = takeWhile isdigit (drop (Suc (length ip)) t)
     in of_int (digits_value ip 0) + frac_value fp (1 / 10))"

definition stod :: "string \<Rightarrow> real res" where
  "stod t = (if stod_value t \<ge> 2 ^ 1024 - 2 ^ 970 then Throw (OutOfRange ''stod'') else Ok (stod_value t))"

definition Lex :: "Lexer \<Rightarrow> (Token \<times> Lexer) res" where
  "Lex lx =
    (case SkipSpace (lx_source lx) (lx_pos lx) (lx_line lx) (lx_col lx) of (off, lno, cno) \<Rightarrow>
      let rest = drop off (lx_source lx);
          adv = (\<lambda>n. lx\<lparr>lx_pos := off + n, lx_line := lno, lx_col := cno + n\<rparr>);
          tok = (\<lambda>k txt v. \<lparr>kind = k, ttext = txt, tnumber = v, toffset = off, tline = lno, tcol = cno\<rparr>)
      in case rest of
           [] \<Rightarrow> Ok (tok kEnd [] 0, adv 0)
         | c # cs \<Rightarrow>
             if starts_number rest then
               (let t = takeWhile is_num_char rest
                in bindR (stod t) (\<lambda>v. Ok (tok kNumber t v, adv (length t))))
             else if is_ident_start c then
               (let t = takeWhile is_ident_char rest in Ok (tok kIdent t 0, adv (length t)))
             else (case find (\<lambda>sy. take (length sy) rest = sy) (lx_multi lx) of
                 Some sy \<Rightarrow> Ok (tok kSymbol sy 0, adv (length sy))
               | None \<Rightarrow>
                   if c \<in> set (lx_symbols lx) then Ok (tok kSymbol [c] 0, adv 1)
                   else Throw (DslError (''unexpected character '' @ [CHR 0x27, c, CHR 0x27]) lno cno)))"

definition Peek :: "Lexer \<Rightarrow> (Token \<times> Lexer) res" where
  "Peek lx =
    (if lx_peeked lx then Ok (lx_peek lx, lx)
     else bindR (Lex lx) (\<lambda>(t, lx'). Ok (t, lx'\<lparr>lx_peek := t, lx_peeked := True\<rparr>)))"

definition Next :: "Lexer \<Rightarrow> (Token \<times> Lexer) res" where
  "Next lx = bindR (Peek lx) (\<lambda>(t, lx'). Ok (t, lx'\<lparr>lx_peeked := False\<rparr>))"

definition AtEnd :: "Lexer \<Rightarrow> (bool \<times> Lexer) res" where
  "AtEnd lx = bindR (Peek lx) (\<lambda>(t, lx'). Ok (kind t = kEnd, lx'))"

text \<open>The parser base: \<^verbatim>\<open>Fail\<close> takes the position of the next token, or 0:0 when it cannot be lexed.\<close>

definition Fail :: "Lexer \<Rightarrow> string \<Rightarrow> exn" where
  "Fail lx msg = (case Peek lx of
     Inl _ \<Rightarrow> DslError msg 0 0 | Inr (t, _) \<Rightarrow> DslError msg (tline t) (tcol t))"

definition Consume :: "Lexer \<Rightarrow> (Token \<times> Lexer) res" where
  "Consume lx = bindR (Peek lx) (\<lambda>(t, lx1). bindR (Next lx1) (\<lambda>(_, lx2). Ok (t, lx2)))"

definition Match :: "TokenKind \<Rightarrow> Lexer \<Rightarrow> (bool \<times> Lexer) res" where
  "Match k lx = bindR (Peek lx) (\<lambda>(t, lx1).
     if kind t = k then bindR (Next lx1) (\<lambda>(_, lx2). Ok (True, lx2)) else Ok (False, lx1))"

definition MatchSymbol :: "string \<Rightarrow> Lexer \<Rightarrow> (bool \<times> Lexer) res" where
  "MatchSymbol sy lx = bindR (Peek lx) (\<lambda>(t, lx1).
     if kind t = kSymbol \<and> ttext t = sy then bindR (Next lx1) (\<lambda>(_, lx2). Ok (True, lx2))
     else Ok (False, lx1))"

definition Expect :: "TokenKind \<Rightarrow> string \<Rightarrow> Lexer \<Rightarrow> Lexer res" where
  "Expect k msg lx = bindR (Peek lx) (\<lambda>(t, lx1).
     if kind t \<noteq> k then Throw (Fail lx1 (''expected '' @ msg)) else bindR (Next lx1) (\<lambda>(_, lx2). Ok lx2))"

definition ExpectToken :: "TokenKind \<Rightarrow> string \<Rightarrow> Lexer \<Rightarrow> (Token \<times> Lexer) res" where
  "ExpectToken k msg lx = bindR (Peek lx) (\<lambda>(t, lx1).
     if kind t \<noteq> k then Throw (Fail lx1 (''expected '' @ msg)) else bindR (Next lx1) (\<lambda>(_, lx2). Ok (t, lx2)))"

definition ExpectSymbol :: "string \<Rightarrow> string \<Rightarrow> Lexer \<Rightarrow> Lexer res" where
  "ExpectSymbol sy msg lx = bindR (Peek lx) (\<lambda>(t, lx1).
     if kind t \<noteq> kSymbol \<or> ttext t \<noteq> sy then Throw (Fail lx1 (''expected '' @ msg))
     else bindR (Next lx1) (\<lambda>(_, lx2). Ok lx2))"

section \<open>Source positions\<close>

text \<open>The line and column a reader counts at an offset: newlines before it, and characters since the
  last newline, both from 1.\<close>

definition at_pos :: "string \<Rightarrow> nat \<Rightarrow> nat \<Rightarrow> nat \<Rightarrow> bool" where
  "at_pos src p l c = (p \<le> length src
     \<and> l = Suc (length (filter (\<lambda>x. x = NL) (take p src)))
     \<and> c = Suc (length (takeWhile (\<lambda>x. x \<noteq> NL) (rev (take p src)))))"

definition tok_ok :: "string \<Rightarrow> Token \<Rightarrow> bool" where
  "tok_ok src t = (at_pos src (toffset t) (tline t) (tcol t)
     \<and> toffset t + length (ttext t) \<le> length src
     \<and> ttext t = substr src (toffset t) (length (ttext t))
     \<and> (kind t = kEnd \<longleftrightarrow> ttext t = [])
     \<and> (kind t = kEnd \<longrightarrow> toffset t = length src))"

definition multi_ok :: "string list \<Rightarrow> bool" where
  "multi_ok ms = list_all (\<lambda>m. m \<noteq> [] \<and> NL \<notin> set m) ms"

definition lex_inv :: "Lexer \<Rightarrow> bool" where
  "lex_inv lx = (at_pos (lx_source lx) (lx_pos lx) (lx_line lx) (lx_col lx) \<and> multi_ok (lx_multi lx)
     \<and> (lx_peeked lx \<longrightarrow> tok_ok (lx_source lx) (lx_peek lx)
          \<and> lx_pos lx = toffset (lx_peek lx) + length (ttext (lx_peek lx))))"

text \<open>What is left to consume: a peeked token still counts.\<close>

definition remaining :: "Lexer \<Rightarrow> nat" where
  "remaining lx = length (lx_source lx) - (if lx_peeked lx then toffset (lx_peek lx) else lx_pos lx)"

lemma takeWhile_append_all: "list_all P xs \<Longrightarrow> takeWhile P (xs @ ys) = xs @ takeWhile P ys"
  by (induction xs) auto

lemma at_pos_advance:
  assumes "at_pos src p l c" "NL \<notin> set (take n (drop p src))" "p + n \<le> length src"
  shows "at_pos src (p + n) l (c + n)"
proof -
  have e: "take (p + n) src = take p src @ take n (drop p src)" by (rule take_add)
  have "list_all (\<lambda>x. x \<noteq> NL) (rev (take n (drop p src)))" using assms(2) by (auto simp: list_all_iff)
  then have "takeWhile (\<lambda>x. x \<noteq> NL) (rev (take (p + n) src))
      = rev (take n (drop p src)) @ takeWhile (\<lambda>x. x \<noteq> NL) (rev (take p src))"
    by (simp add: e takeWhile_append_all)
  moreover have "filter (\<lambda>x. x = NL) (take n (drop p src)) = []"
    using assms(2) by (auto simp: filter_empty_conv)
  ultimately show ?thesis using assms by (simp add: at_pos_def e)
qed

lemma at_pos_newline:
  "at_pos src p l c \<Longrightarrow> p < length src \<Longrightarrow> src ! p = NL \<Longrightarrow> at_pos src (Suc p) (Suc l) 1"
  by (simp add: at_pos_def take_Suc_conv_app_nth)

lemma skip_comment_spec:
  "skip_comment xs \<le> length xs \<and> NL \<notin> set (take (skip_comment xs) xs)"
  by (induction xs) auto

lemma SkipSpace_spec:
  "SkipSpace src p l c = (p', l', c') \<Longrightarrow> at_pos src p l c \<Longrightarrow>
    p \<le> p' \<and> at_pos src p' l' c' \<and> (p' < length src \<longrightarrow> \<not> isspace (src ! p') \<and> src ! p' \<noteq> CHR ''#'')"
proof (induction src p l c rule: SkipSpace.induct)
  case (1 src p l c)
  show ?case
  proof (cases "p < length src")
    case False
    then show ?thesis using 1(4,5) by (simp add: SkipSpace.simps [of src p l c])
  next
    case True
    note unf = 1(4) [unfolded SkipSpace.simps [of src p l c]]
    consider (cm) "src ! p = CHR ''#''" | (nl) "src ! p = NL" "src ! p \<noteq> CHR ''#''"
      | (sp) "isspace (src ! p)" "src ! p \<noteq> NL" "src ! p \<noteq> CHR ''#''"
      | (other) "\<not> isspace (src ! p)" "src ! p \<noteq> CHR ''#''" by blast
    then show ?thesis
    proof cases
      case cm
      let ?k = "skip_comment (drop p src)"
      have "at_pos src (p + ?k) l (c + ?k)"
        using at_pos_advance [OF 1(5), of ?k] skip_comment_spec [of "drop p src"] True
        by (simp add: le_diff_conv2 add.commute)
      then show ?thesis using 1(1) [OF True refl cm refl] unf True cm by (simp add: Let_def)
    next
      case nl
      then have "isspace (src ! p)" by (simp add: isspace_def NL_def)
      then show ?thesis using 1(2) [OF True refl nl(2)] unf True nl at_pos_newline [OF 1(5)] by simp
    next
      case sp
      have "take 1 (drop p src) = [src ! p]" using Cons_nth_drop_Suc [OF True, symmetric] by simp
      then have "at_pos src (Suc p) l (Suc c)" using at_pos_advance [OF 1(5), of 1] sp True by simp
      then show ?thesis using 1(3) [OF True refl sp(3,1,2)] unf True sp by simp
    next
      case other
      then show ?thesis using unf True 1(5) by simp
    qed
  qed
qed

section \<open>Lexing\<close>

lemma token_at:
  assumes "t = takeWhile P rest \<or> take (length t) rest = t" "rest = drop off src" "off \<le> length src"
  shows "t = substr src off (length t)" "off + length t \<le> length src"
proof -
  have t: "take (length t) rest = t" using assms(1) by (metis takeWhile_eq_take take_take min.idem length_takeWhile_le length_take min.absorb2)
  then show "t = substr src off (length t)" by (simp add: substr_def assms(2))
  have "length t \<le> length rest" using t by (metis length_take min.cobounded1)
  then show "off + length t \<le> length src" using assms by simp
qed

lemma no_newline:
  "\<not> is_num_char NL" "\<not> is_ident_char NL" "isspace NL"
  by (simp_all add: is_num_char_def is_ident_char_def isalnum_def isalpha_def isdigit_def isupper_def
      islower_def NL_def isspace_def)

lemma starts_number_ne: "starts_number rest \<Longrightarrow> takeWhile is_num_char rest \<noteq> []"
  by (auto simp: starts_number_def is_num_char_def split: list.splits)

lemma is_ident_start_char: "is_ident_start c \<Longrightarrow> is_ident_char c"
  by (auto simp: is_ident_start_def is_ident_char_def isalnum_def)

lemma takeWhile_no_NL: "\<not> P NL \<Longrightarrow> NL \<notin> set (takeWhile P xs)"
  by (auto dest: set_takeWhileD)

text \<open>The four ways a token is produced, over the position \<^verbatim>\<open>SkipSpace\<close> reaches.\<close>

definition mk_tok :: "nat \<times> nat \<times> nat \<Rightarrow> TokenKind \<Rightarrow> string \<Rightarrow> real \<Rightarrow> Token" where
  "mk_tok p k txt v = (case p of (off, lno, cno) \<Rightarrow>
     \<lparr>kind = k, ttext = txt, tnumber = v, toffset = off, tline = lno, tcol = cno\<rparr>)"

definition adv_lexer :: "nat \<times> nat \<times> nat \<Rightarrow> nat \<Rightarrow> Lexer \<Rightarrow> Lexer" where
  "adv_lexer p n lx = (case p of (off, lno, cno) \<Rightarrow> lx\<lparr>lx_pos := off + n, lx_line := lno, lx_col := cno + n\<rparr>)"

lemma Lex_unfold:
  assumes "SkipSpace (lx_source lx) (lx_pos lx) (lx_line lx) (lx_col lx) = p"
  defines "rest \<equiv> drop (fst p) (lx_source lx)"
  shows "Lex lx =
    (if rest = [] then Inr (mk_tok p kEnd [] 0, adv_lexer p 0 lx)
     else if starts_number rest then
       bindR (stod (takeWhile is_num_char rest)) (\<lambda>v.
         Inr (mk_tok p kNumber (takeWhile is_num_char rest) v, adv_lexer p (length (takeWhile is_num_char rest)) lx))
     else if is_ident_start (hd rest) then
       Inr (mk_tok p kIdent (takeWhile is_ident_char rest) 0, adv_lexer p (length (takeWhile is_ident_char rest)) lx)
     else (case find (\<lambda>sy. take (length sy) rest = sy) (lx_multi lx) of
         Some sy \<Rightarrow> Inr (mk_tok p kSymbol sy 0, adv_lexer p (length sy) lx)
       | None \<Rightarrow>
           if hd rest \<in> set (lx_symbols lx) then Inr (mk_tok p kSymbol [hd rest] 0, adv_lexer p 1 lx)
           else Inl (DslError (''unexpected character '' @ [CHR 0x27, hd rest, CHR 0x27]) (fst (snd p)) (snd (snd p)))))"
proof -
  obtain off lno cno where p: "p = (off, lno, cno)" by (cases p)
  show ?thesis
  proof (cases "drop off (lx_source lx)")
    case Nil
    then show ?thesis by (simp add: Lex_def assms(1) rest_def p mk_tok_def adv_lexer_def Let_def)
  next
    case (Cons c cs)
    have r: "rest = c # cs" using Cons by (simp add: rest_def p)
    show ?thesis unfolding r
      by (simp add: Lex_def assms(1) p Cons mk_tok_def adv_lexer_def Let_def cong: option.case_cong)
  qed
qed

lemma mk_tok_simps [simp]:
  "kind (mk_tok p k txt v) = k" "ttext (mk_tok p k txt v) = txt"
  "toffset (mk_tok p k txt v) = fst p" "tline (mk_tok p k txt v) = fst (snd p)" "tcol (mk_tok p k txt v) = snd (snd p)"
  by (simp_all add: mk_tok_def split: prod.splits)

lemma Lex_cases:
  assumes "Lex lx = Inr (t, lx')" and "SkipSpace (lx_source lx) (lx_pos lx) (lx_line lx) (lx_col lx) = (off, lno, cno)"
  defines "rest \<equiv> drop off (lx_source lx)"
  shows "toffset t = off" "tline t = lno" "tcol t = cno"
    "lx' = lx\<lparr>lx_pos := off + length (ttext t), lx_line := lno, lx_col := cno + length (ttext t)\<rparr>"
    "(kind t = kEnd \<and> rest = [] \<and> ttext t = [])
     \<or> (kind t = kNumber \<and> starts_number rest \<and> ttext t = takeWhile is_num_char rest)
     \<or> (kind t = kIdent \<and> rest \<noteq> [] \<and> is_ident_start (hd rest) \<and> ttext t = takeWhile is_ident_char rest)
     \<or> (kind t = kSymbol \<and> rest \<noteq> [] \<and>
          (find (\<lambda>sy. take (length sy) rest = sy) (lx_multi lx) = Some (ttext t)
           \<or> find (\<lambda>sy. take (length sy) rest = sy) (lx_multi lx) = None \<and> ttext t = [hd rest]))"
proof -
  let ?p = "(off, lno, cno)" and ?f = "find (\<lambda>sy. take (length sy) rest = sy) (lx_multi lx)"
  note u = Lex_unfold [OF assms(2), unfolded fst_conv snd_conv, folded rest_def]
  have "lx' = adv_lexer ?p (length (ttext t)) lx \<and> (\<exists>k txt v. t = mk_tok ?p k txt v)
    \<and> ((kind t = kEnd \<and> rest = [] \<and> ttext t = [])
     \<or> (kind t = kNumber \<and> starts_number rest \<and> ttext t = takeWhile is_num_char rest)
     \<or> (kind t = kIdent \<and> rest \<noteq> [] \<and> is_ident_start (hd rest) \<and> ttext t = takeWhile is_ident_char rest)
     \<or> (kind t = kSymbol \<and> rest \<noteq> [] \<and> (?f = Some (ttext t) \<or> ?f = None \<and> ttext t = [hd rest])))"
  proof -
    consider "rest = []" | "rest \<noteq> []" "starts_number rest"
      | "rest \<noteq> []" "\<not> starts_number rest" "is_ident_start (hd rest)"
      | sy where "rest \<noteq> []" "\<not> starts_number rest" "\<not> is_ident_start (hd rest)" "?f = Some sy"
      | "rest \<noteq> []" "\<not> starts_number rest" "\<not> is_ident_start (hd rest)" "?f = None"
      by (cases ?f) auto
    then show ?thesis
    proof cases
      case 2
      then show ?thesis using assms(1) by (auto simp: u ok_iff)
    qed (use assms(1) in \<open>auto simp: u split: if_splits\<close>)
  qed
  then show "toffset t = off" "tline t = lno" "tcol t = cno"
    "lx' = lx\<lparr>lx_pos := off + length (ttext t), lx_line := lno, lx_col := cno + length (ttext t)\<rparr>"
    "(kind t = kEnd \<and> rest = [] \<and> ttext t = [])
     \<or> (kind t = kNumber \<and> starts_number rest \<and> ttext t = takeWhile is_num_char rest)
     \<or> (kind t = kIdent \<and> rest \<noteq> [] \<and> is_ident_start (hd rest) \<and> ttext t = takeWhile is_ident_char rest)
     \<or> (kind t = kSymbol \<and> rest \<noteq> [] \<and> (?f = Some (ttext t) \<or> ?f = None \<and> ttext t = [hd rest]))"
    by (auto simp: adv_lexer_def)
qed

lemma Lex_token:
  assumes L: "Lex lx = Inr (t, lx')" and inv: "lex_inv lx"
  shows "tok_ok (lx_source lx) t" "lx_pos lx \<le> toffset t" "NL \<notin> set (ttext t)"
    "lx' = lx\<lparr>lx_pos := toffset t + length (ttext t), lx_line := tline t, lx_col := tcol t + length (ttext t)\<rparr>"
proof -
  obtain off lno cno where S: "SkipSpace (lx_source lx) (lx_pos lx) (lx_line lx) (lx_col lx) = (off, lno, cno)"
    by (metis prod_cases3)
  note c = Lex_cases [OF L S]
  let ?rest = "drop off (lx_source lx)"
  have sk: "lx_pos lx \<le> off" "at_pos (lx_source lx) off lno cno"
    and nsp: "off < length (lx_source lx) \<Longrightarrow> \<not> isspace (lx_source lx ! off)"
    using SkipSpace_spec [OF S] inv by (auto simp: lex_inv_def)
  then have le: "off \<le> length (lx_source lx)" by (simp add: at_pos_def)
  show "lx_pos lx \<le> toffset t" using sk c by simp
  show "lx' = lx\<lparr>lx_pos := toffset t + length (ttext t), lx_line := tline t, lx_col := tcol t + length (ttext t)\<rparr>"
    using c by simp
  have hd_ok: "hd ?rest \<noteq> NL" if "?rest \<noteq> []"
    using nsp no_newline(3) that by (auto simp: hd_drop_conv_nth)
  have m: "find (\<lambda>sy. take (length sy) ?rest = sy) (lx_multi lx) = Some x \<Longrightarrow>
      take (length x) ?rest = x \<and> x \<noteq> [] \<and> NL \<notin> set x" for x
    using inv unfolding lex_inv_def multi_ok_def list_all_length
    by (auto simp: find_Some_iff)
  have tx: "(\<exists>P. ttext t = takeWhile P ?rest) \<or> take (length (ttext t)) ?rest = ttext t"
    using c(5) m [of "ttext t"] hd_Cons_tl [of ?rest]
    by (elim disjE conjE) (auto simp: take_Suc)
  have sub: "ttext t = substr (lx_source lx) off (length (ttext t))" "off + length (ttext t) \<le> length (lx_source lx)"
    using tx token_at [OF _ refl le] by blast+
  show "NL \<notin> set (ttext t)"
    using c(5) m [of "ttext t"] hd_ok takeWhile_no_NL [of is_num_char ?rest]
      takeWhile_no_NL [of is_ident_char ?rest] no_newline by (elim disjE) auto
  have "is_ident_start (hd ?rest) \<Longrightarrow> ?rest \<noteq> [] \<Longrightarrow> takeWhile is_ident_char ?rest \<noteq> []"
    using is_ident_start_char by (cases ?rest) auto
  then have "kind t = kEnd \<longleftrightarrow> ttext t = []"
    using c(5) m [of "ttext t"] starts_number_ne [of ?rest] by (elim disjE) auto
  moreover have "kind t = kEnd \<longrightarrow> off = length (lx_source lx)" using c(5) le by auto
  ultimately show "tok_ok (lx_source lx) t" using sub sk c by (simp add: tok_ok_def)
qed

lemma Lex_inv:
  assumes "Lex lx = Inr (t, lx')" "lex_inv lx"
  shows "lex_inv (lx'\<lparr>lx_peek := t, lx_peeked := True\<rparr>)"
proof -
  note l = Lex_token [OF assms]
  have "at_pos (lx_source lx) (toffset t + length (ttext t)) (tline t) (tcol t + length (ttext t))"
    using l(1,3) by (intro at_pos_advance) (auto simp: tok_ok_def substr_def)
  then show ?thesis using l assms(2) by (simp add: lex_inv_def)
qed

lemma Peek_ok:
  assumes "Peek lx = Inr (t, lx')" "lex_inv lx"
  shows "lex_inv lx'" "lx_peeked lx'" "lx_peek lx' = t" "lx_source lx' = lx_source lx"
    "lx_symbols lx' = lx_symbols lx" "lx_multi lx' = lx_multi lx"
    "tok_ok (lx_source lx) t" "remaining lx' \<le> remaining lx" "lx_pos lx \<le> lx_pos lx'"
proof -
  have *: "lex_inv lx' \<and> lx_peeked lx' \<and> lx_peek lx' = t \<and> lx_source lx' = lx_source lx
      \<and> lx_symbols lx' = lx_symbols lx \<and> lx_multi lx' = lx_multi lx
      \<and> tok_ok (lx_source lx) t \<and> remaining lx' \<le> remaining lx \<and> lx_pos lx \<le> lx_pos lx'"
  proof (cases "lx_peeked lx")
    case True
    then show ?thesis using assms by (auto simp: Peek_def lex_inv_def)
  next
    case False
    then obtain l1 where L: "Lex lx = Inr (t, l1)" and l': "lx' = l1\<lparr>lx_peek := t, lx_peeked := True\<rparr>"
      using assms(1) by (auto simp: Peek_def ok_iff)
    show ?thesis
      using Lex_token [OF L assms(2)] Lex_inv [OF L assms(2)] False
      by (auto simp: l' remaining_def intro: diff_le_mono2)
  qed
  then show "lex_inv lx'" "lx_peeked lx'" "lx_peek lx' = t" "lx_source lx' = lx_source lx"
    "lx_symbols lx' = lx_symbols lx" "lx_multi lx' = lx_multi lx"
    "tok_ok (lx_source lx) t" "remaining lx' \<le> remaining lx" "lx_pos lx \<le> lx_pos lx'" by simp_all
qed

lemma Peek_Peek: "lx_peeked lx \<Longrightarrow> Peek lx = Inr (lx_peek lx, lx)"
  by (simp add: Peek_def)

lemma Next_peeked: "lx_peeked lx \<Longrightarrow> Next lx = Inr (lx_peek lx, lx\<lparr>lx_peeked := False\<rparr>)"
  by (simp add: Next_def Peek_Peek)

lemma Next_ok:
  assumes "Next lx = Inr (t, lx')" "lex_inv lx"
  shows "lex_inv lx'" "\<not> lx_peeked lx'" "lx_source lx' = lx_source lx" "tok_ok (lx_source lx) t"
    "remaining lx' \<le> remaining lx" "kind t \<noteq> kEnd \<Longrightarrow> remaining lx' < remaining lx"
    "lx_pos lx' = toffset t + length (ttext t)"
proof -
  obtain l1 where P: "Peek lx = Inr (t, l1)" and l': "lx' = l1\<lparr>lx_peeked := False\<rparr>"
    using assms(1) by (auto simp: Next_def ok_iff)
  note p = Peek_ok [OF P assms(2)]
  have pos: "lx_pos l1 = toffset t + length (ttext t)" using p by (simp add: lex_inv_def)
  show "lex_inv lx'" "\<not> lx_peeked lx'" "lx_source lx' = lx_source lx" "tok_ok (lx_source lx) t"
    "lx_pos lx' = toffset t + length (ttext t)"
    using p pos by (simp_all add: l' lex_inv_def)
  have r: "remaining lx' = length (lx_source lx) - (toffset t + length (ttext t))"
    "remaining l1 = length (lx_source lx) - toffset t" using p pos by (simp_all add: remaining_def l')
  then show "remaining lx' \<le> remaining lx" using p(8) by simp
  assume "kind t \<noteq> kEnd"
  then have "length (ttext t) > 0" "toffset t + length (ttext t) \<le> length (lx_source lx)"
    using p(7) by (auto simp: tok_ok_def)
  then have "remaining lx' < remaining l1" unfolding r by linarith
  then show "remaining lx' < remaining lx" using p(8) by linarith
qed

lemma lex_inv_new: "multi_ok ms \<Longrightarrow> lex_inv (Lexer_new src sy ms)"
  by (simp add: lex_inv_def Lexer_new_def at_pos_def multi_ok_def longest_first_def list_all_iff)

lemma find_Some_in: "find P xs = Some x \<Longrightarrow> x \<in> set xs"
  by (induction xs) (auto split: if_splits)

text \<open>Longest match: the constructor sorts by descending length, so the first symbol that matches is a
  longest one.\<close>

lemma find_sorted_longest:
  "sorted (map (\<lambda>s. - int (length s)) ms) \<Longrightarrow> find P ms = Some x \<Longrightarrow> y \<in> set ms \<Longrightarrow> P y
    \<Longrightarrow> length y \<le> length x"
proof (induction ms)
  case (Cons m ms)
  then show ?case by (cases "P m") auto
qed simp

section \<open>Properties\<close>

text \<open>C33. Every token of a lexer in a consistent state is the source text at its offset, with the line
  and column a reader counts there; the state stays consistent; consuming a token other than the
  end token strictly shortens what is left, so every token loop ends.\<close>

theorem Next_token_position:
  assumes "lex_inv lx" and "Next lx = Inr (t, lx')"
  shows "ttext t = substr (lx_source lx) (toffset t) (length (ttext t))
    \<and> tline t = Suc (length (filter (\<lambda>x. x = NL) (take (toffset t) (lx_source lx))))
    \<and> tcol t = Suc (length (takeWhile (\<lambda>x. x \<noteq> NL) (rev (take (toffset t) (lx_source lx)))))
    \<and> lex_inv lx' \<and> (if kind t = kEnd then toffset t = length (lx_source lx) else remaining lx' < remaining lx)"
  using Next_ok [OF assms(2,1)] by (auto simp: tok_ok_def at_pos_def)

definition demo_lexer :: Lexer where
  "demo_lexer = Lexer_new '' ->b'' ''-'' [''->'']"

lemma demo_inv: "lex_inv demo_lexer"
  by (simp add: demo_lexer_def lex_inv_new multi_ok_def NL_def)

lemma demo_lex:
  "Lex demo_lexer = Inr (\<lparr>kind = kSymbol, ttext = ''->'', tnumber = 0, toffset = 1, tline = 1, tcol = 2\<rparr>,
    demo_lexer\<lparr>lx_pos := 3, lx_col := 4\<rparr>)"
  by code_simp

theorem Next_token_position_witness:
  "\<exists>t lx'. Next demo_lexer = Inr (t, lx') \<and> ttext t = ''->'' \<and> tcol t = 2
     \<and> lex_inv lx' \<and> remaining lx' < remaining demo_lexer"
proof -
  have e: "Next demo_lexer = Inr (\<lparr>kind = kSymbol, ttext = ''->'', tnumber = 0, toffset = 1, tline = 1, tcol = 2\<rparr>,
      demo_lexer\<lparr>lx_pos := 3, lx_col := 4,
        lx_peek := \<lparr>kind = kSymbol, ttext = ''->'', tnumber = 0, toffset = 1, tline = 1, tcol = 2\<rparr>,
        lx_peeked := False\<rparr>)"
    by (simp add: Next_def Peek_def demo_lex) (simp add: demo_lexer_def Lexer_new_def)
  show ?thesis using Next_token_position [OF demo_inv e] e by auto
qed

text \<open>Among the multi-character symbols the longest one that matches wins, whatever order the
  symbols are given in; a symbol token is a single character only when none of them matches.\<close>

theorem Lex_longest_match:
  assumes "Lex (Lexer_new src sy ms) = Inr (t, lx')" and "kind t = kSymbol"
    and "m \<in> set ms" and "take (length m) (drop (toffset t) src) = m"
  shows "length m \<le> length (ttext t) \<and> ttext t \<in> set ms"
proof -
  let ?lx = "Lexer_new src sy ms"
  obtain off lno cno where S: "SkipSpace src 0 1 1 = (off, lno, cno)" by (metis prod_cases3)
  let ?P = "\<lambda>sy. take (length sy) (drop off src) = sy"
  have off: "toffset t = off" using Lex_cases(1) [OF assms(1)] S by (simp add: Lexer_new_def)
  have mm: "find ?P (longest_first ms) \<noteq> None"
    using assms(3,4) off by (auto simp: find_None_iff longest_first_def)
  then have f: "find ?P (longest_first ms) = Some (ttext t)"
    using Lex_cases(5) [OF assms(1)] S assms(2) by (auto simp: Lexer_new_def)
  have "sorted (map (\<lambda>s. - int (length s)) (longest_first ms))" by (simp add: longest_first_def)
  then have "length m \<le> length (ttext t)"
    using find_sorted_longest [OF _ f, of m] assms(3,4) off by (simp add: longest_first_def)
  moreover have "ttext t \<in> set ms"
    using find_Some_in [OF f] by (simp add: longest_first_def)
  ultimately show ?thesis ..
qed

theorem Lex_longest_match_witness:
  "\<exists>t lx'. Lex demo_lexer = Inr (t, lx') \<and> length ''->'' \<le> length (ttext t) \<and> ttext t \<in> set [''->'']"
proof (intro exI conjI)
  let ?t = "\<lparr>kind = kSymbol, ttext = ''->'', tnumber = 0, toffset = 1, tline = 1, tcol = 2\<rparr>"
  show "Lex demo_lexer = Inr (?t, demo_lexer\<lparr>lx_pos := 3, lx_col := 4\<rparr>)" by (rule demo_lex)
  have "length ''->'' \<le> length (ttext ?t) \<and> ttext ?t \<in> set [''->'']"
    by (rule Lex_longest_match [OF demo_lex [unfolded demo_lexer_def]]) simp_all
  then show "length ''->'' \<le> length (ttext ?t)" "ttext ?t \<in> set [''->'']" by blast+
qed

end
