(* ===== verification/OpGraph.thy ===== *)
theory OpGraph
  imports Dependency Registry Lexer
begin

text \<open>
  The Op side of the dag module: the op registry, \<^verbatim>\<open>OpGraph\<close> with its cached topological order, and
  \<^verbatim>\<open>OpGraphBuilder\<close> in its key/value and arrow-language forms.  Op pointers are numbers; a builder makes a
  fresh one per definition.
\<close>

section \<open>Model: registry and graph\<close>

datatype OpStatus = OpPending | OpRunning | OpSuccess | OpSkipped | OpFailed

fun OpStatus_ToString :: "OpStatus \<Rightarrow> string" where
  "OpStatus_ToString OpPending = ''pending''"
| "OpStatus_ToString OpRunning = ''running''"
| "OpStatus_ToString OpSuccess = ''success''"
| "OpStatus_ToString OpSkipped = ''skipped''"
| "OpStatus_ToString OpFailed = ''failed''"

definition OpRegistry_Register :: "string \<Rightarrow> 'f \<Rightarrow> (string \<times> 'f) list \<Rightarrow> (string \<times> 'f) list res" where
  "OpRegistry_Register t f fs =
    (if map_of fs t \<noteq> None then Throw (InvalidArgument ''OpRegistry: duplicate op type'') else Ok ((t, f) # fs))"

definition OpRegistry_Contains :: "(string \<times> 'f) list \<Rightarrow> string \<Rightarrow> bool" where
  "OpRegistry_Contains fs t = (map_of fs t \<noteq> None)"

definition OpRegistry_Create :: "(string \<times> 'f) list \<Rightarrow> string \<Rightarrow> 'f res" where
  "OpRegistry_Create fs t = (case map_of fs t of
     None \<Rightarrow> Throw (OutOfRange (''OpRegistry: unknown op type '' @ [CHR 0x27] @ t @ [CHR 0x27]))
   | Some f \<Rightarrow> Ok f)"

definition OpRegistry_Types :: "(string \<times> 'f) list \<Rightarrow> string list" where
  "OpRegistry_Types fs = keys fs"

record ('f, 'a) OpGraph =
  og_ops :: "(nat \<times> 'f) list"
  og_by_id :: "(string \<times> nat) list"
  og_deps :: "nat \<Rightarrow> nat list"
  og_aspects :: "'a list"
  og_order :: "nat list"
  og_compiled :: bool

definition OpGraph_new :: "('f, 'a) OpGraph" where
  "OpGraph_new = \<lparr>og_ops = [], og_by_id = [], og_deps = (\<lambda>_. []), og_aspects = [], og_order = [], og_compiled = False\<rparr>"

definition AddOp :: "('f \<Rightarrow> string) \<Rightarrow> (nat \<times> 'f) option \<Rightarrow> string \<Rightarrow> ('f, 'a) OpGraph \<Rightarrow> ('f, 'a) OpGraph res" where
  "AddOp name_of opt i g = (case opt of
     None \<Rightarrow> Throw (InvalidArgument ''OpGraph: null op'')
   | Some (p, f) \<Rightarrow>
       (let i' = (if i = [] then name_of f else i) in
        if map_of (og_by_id g) i' \<noteq> None
        then Throw (InvalidArgument (''OpGraph: duplicate node id '' @ [CHR 0x27] @ i' @ [CHR 0x27]))
        else Ok (g\<lparr>og_by_id := (i', p) # og_by_id g, og_ops := og_ops g @ [(p, f)], og_compiled := False\<rparr>)))"

definition AddAspect :: "'a option \<Rightarrow> ('f, 'a) OpGraph \<Rightarrow> ('f, 'a) OpGraph" where
  "AddAspect a g = (case a of None \<Rightarrow> g | Some x \<Rightarrow> g\<lparr>og_aspects := og_aspects g @ [x]\<rparr>)"

definition DependsOn :: "string \<Rightarrow> string \<Rightarrow> ('f, 'a) OpGraph \<Rightarrow> ('f, 'a) OpGraph res" where
  "DependsOn dep dpnt g = (case map_of (og_by_id g) dep of
     None \<Rightarrow> Throw (InvalidArgument (''OpGraph: unknown dependency '' @ [CHR 0x27] @ dep @ [CHR 0x27]))
   | Some p \<Rightarrow> (case map_of (og_by_id g) dpnt of
        None \<Rightarrow> Throw (InvalidArgument (''OpGraph: unknown dependent '' @ [CHR 0x27] @ dpnt @ [CHR 0x27]))
      | Some q \<Rightarrow> Ok (g\<lparr>og_deps := (og_deps g)(q := og_deps g q @ [p]), og_compiled := False\<rparr>)))"

definition op_ptrs :: "('f, 'a) OpGraph \<Rightarrow> nat list" where
  "op_ptrs g = map fst (og_ops g)"

text \<open>\<^verbatim>\<open>Compile\<close> returns the order or throws, and the graph with what it stored.\<close>

definition Compile :: "('f, 'a) OpGraph \<Rightarrow> nat list res \<times> ('f, 'a) OpGraph" where
  "Compile g =
    (if og_compiled g then (Ok (og_order g), g)
     else (case kahn (og_deps g) (op_ptrs g) of
        None \<Rightarrow> (Throw (LogicError ''no result''), g)
      | Some order \<Rightarrow>
          if length order \<noteq> length (og_ops g)
          then (Throw (RuntimeError ''OpGraph: dependency cycle detected''), g\<lparr>og_order := order\<rparr>)
          else (Ok order, g\<lparr>og_order := order, og_compiled := True\<rparr>)))"

section \<open>Model: the builder\<close>

record OpDef =
  od_type :: string
  od_deps :: "string list"
  od_id :: string

definition op_def_id :: "OpDef \<Rightarrow> string" where
  "op_def_id d = (if od_id d = [] then od_type d else od_id d)"

definition build_op :: "('f \<Rightarrow> string) \<Rightarrow> (string \<times> 'f) list \<Rightarrow> OpDef \<Rightarrow> ('f, 'a) OpGraph \<Rightarrow> ('f, 'a) OpGraph res" where
  "build_op name_of reg d g =
    (if od_type d = [] then Throw (InvalidArgument ''OpGraphBuilder: node def has empty type'')
     else bindR (OpRegistry_Create reg (od_type d)) (\<lambda>f.
       AddOp name_of (Some (length (og_ops g), f)) (op_def_id d) g))"

definition build_dep :: "string \<times> string \<Rightarrow> ('f, 'a) OpGraph \<Rightarrow> ('f, 'a) OpGraph res" where
  "build_dep = (\<lambda>(i, dep) g.
     if map_of (og_by_id g) dep = None
     then Throw (InvalidArgument (''OpGraphBuilder: node '' @ [CHR 0x27] @ i @ [CHR 0x27]
       @ '' depends on unknown id '' @ [CHR 0x27] @ dep @ [CHR 0x27]))
     else DependsOn dep i g)"

definition OpGraph_Build :: "('f \<Rightarrow> string) \<Rightarrow> (string \<times> 'f) list \<Rightarrow> 'a list \<Rightarrow> OpDef list \<Rightarrow> ('f, 'a) OpGraph res" where
  "OpGraph_Build name_of reg aspects defs =
    bindR (foldR (build_op name_of reg) defs (fold (\<lambda>a. AddAspect (Some a)) aspects OpGraph_new))
      (foldR build_dep (concat (map (\<lambda>d. map (\<lambda>x. (op_def_id d, x)) (od_deps d)) defs)))"

text \<open>One segment of the arrow language: \<^verbatim>\<open>id\<close> or \<^verbatim>\<open>id:Type\<close>.\<close>

definition Segment :: "Lexer \<Rightarrow> ((string \<times> string) \<times> Lexer) res" where
  "Segment lx = bindR (ExpectToken kIdent ''identifier'' lx) (\<lambda>(i, lx1).
     bindR (MatchSymbol '':'' lx1) (\<lambda>(b, lx2).
       if b then bindR (ExpectToken kIdent ''identifier'' lx2) (\<lambda>(t, lx3). Ok ((ttext i, ttext t), lx3))
       else Ok ((ttext i, ttext i), lx2)))"

text \<open>The definitions so far; \<^verbatim>\<open>index\<close> maps an id to its slot, which is its position.\<close>

definition find_def :: "string \<Rightarrow> OpDef list \<Rightarrow> nat option" where
  "find_def i defs = find (\<lambda>k. od_id (defs ! k) = i) [0..<length defs]"

definition ensure :: "string \<Rightarrow> string \<Rightarrow> OpDef list \<Rightarrow> (nat \<times> OpDef list) res" where
  "ensure i t defs = (case find_def i defs of
     Some k \<Rightarrow> if od_type (defs ! k) \<noteq> t
       then Throw (InvalidArgument (''OpGraphBuilder DSL: node id '' @ [CHR 0x27] @ i @ [CHR 0x27] @ '' used with two different types''))
       else Ok (k, defs)
   | None \<Rightarrow> Ok (length defs, defs @ [\<lparr>od_type = t, od_deps = [], od_id = i\<rparr>]))"

definition push_dep :: "nat \<Rightarrow> string \<Rightarrow> OpDef list \<Rightarrow> OpDef list" where
  "push_dep k dep defs = defs[k := (defs ! k)\<lparr>od_deps := od_deps (defs ! k) @ [dep]\<rparr>]"

text \<open>The two loops of \<^verbatim>\<open>BuildDsl\<close>, with fuel; \<^verbatim>\<open>None\<close> would be a loop that does not end.\<close>

fun dsl_arrows :: "nat \<Rightarrow> string \<Rightarrow> OpDef list \<Rightarrow> Lexer \<Rightarrow> (OpDef list \<times> Lexer) res option" where
  "dsl_arrows 0 prev defs lx = None"
| "dsl_arrows (Suc n) prev defs lx = (case MatchSymbol ''->'' lx of
     Inl e \<Rightarrow> Some (Inl e)
   | Inr (False, lx1) \<Rightarrow> Some (Inr (defs, lx1))
   | Inr (True, lx1) \<Rightarrow> (case Segment lx1 of
        Inl e \<Rightarrow> Some (Inl e)
      | Inr ((i, t), lx2) \<Rightarrow> (case ensure i t defs of
           Inl e \<Rightarrow> Some (Inl e)
         | Inr (k, defs1) \<Rightarrow> dsl_arrows n i (push_dep k prev defs1) lx2)))"

fun dsl_statements :: "nat \<Rightarrow> OpDef list \<Rightarrow> Lexer \<Rightarrow> OpDef list res option" where
  "dsl_statements 0 defs lx = None"
| "dsl_statements (Suc n) defs lx = (case AtEnd lx of
     Inl e \<Rightarrow> Some (Inl e)
   | Inr (True, lx1) \<Rightarrow> Some (Inr defs)
   | Inr (False, lx1) \<Rightarrow> (case Segment lx1 of
        Inl e \<Rightarrow> Some (Inl e)
      | Inr ((i, t), lx2) \<Rightarrow> (case ensure i t defs of
           Inl e \<Rightarrow> Some (Inl e)
         | Inr (k, defs1) \<Rightarrow> (case dsl_arrows (Suc (remaining lx2)) i defs1 lx2 of
              None \<Rightarrow> None
            | Some (Inl e) \<Rightarrow> Some (Inl e)
            | Some (Inr (defs2, lx3)) \<Rightarrow> (case MatchSymbol '';'' lx3 of
                 Inl e \<Rightarrow> Some (Inl e)
               | Inr (b, lx4) \<Rightarrow> dsl_statements n defs2 lx4)))))"

definition parse_dsl :: "string \<Rightarrow> OpDef list res option" where
  "parse_dsl dsl = dsl_statements (Suc (length dsl)) [] (Lexer_new dsl '':'' [''->''])"

definition BuildDsl :: "('f \<Rightarrow> string) \<Rightarrow> (string \<times> 'f) list \<Rightarrow> 'a list \<Rightarrow> string \<Rightarrow> ('f, 'a) OpGraph res option" where
  "BuildDsl name_of reg aspects dsl = (case parse_dsl dsl of
     None \<Rightarrow> None
   | Some (Inl e) \<Rightarrow> Some (Inl e)
   | Some (Inr defs) \<Rightarrow> Some (OpGraph_Build name_of reg aspects defs))"

interpretation op_registry: named_registry OpRegistry_Register OpRegistry_Create OpRegistry_Contains
    "map_of :: (string \<times> 'f) list \<Rightarrow> string \<Rightarrow> 'f option"
  by unfold_locales
    (auto simp: OpRegistry_Register_def OpRegistry_Create_def OpRegistry_Contains_def)

section \<open>Graphs built through the interface\<close>

definition op_inv :: "('f, 'a) OpGraph \<Rightarrow> bool" where
  "op_inv g = (distinct (op_ptrs g)
     \<and> (\<forall>i p. map_of (og_by_id g) i = Some p \<longrightarrow> p \<in> set (op_ptrs g))
     \<and> (\<forall>p x. x \<in> set (og_deps g p) \<longrightarrow> x \<in> set (op_ptrs g))
     \<and> (og_compiled g \<longrightarrow> topo_order (og_deps g) (og_order g) \<and> set (og_order g) = set (op_ptrs g)))"

inductive op_reach :: "('f \<Rightarrow> string) \<Rightarrow> ('f, 'a) OpGraph \<Rightarrow> bool" for name_of where
  new: "op_reach name_of OpGraph_new"
| add: "op_reach name_of g \<Longrightarrow> p \<notin> set (op_ptrs g) \<Longrightarrow> AddOp name_of (Some (p, f)) i g = Inr g' \<Longrightarrow> op_reach name_of g'"
| aspect: "op_reach name_of g \<Longrightarrow> op_reach name_of (AddAspect a g)"
| depends: "op_reach name_of g \<Longrightarrow> DependsOn x y g = Inr g' \<Longrightarrow> op_reach name_of g'"
| compile: "op_reach name_of g \<Longrightarrow> op_reach name_of (snd (Compile g))"

lemma op_inv_closed: "op_inv g \<Longrightarrow> closed_graph (og_deps g) (op_ptrs g)"
  by (auto simp: op_inv_def closed_graph_def list_all_iff)

lemma AddOp_result:
  "AddOp name_of (Some (p, f)) i g = Inr g' \<Longrightarrow>
    \<exists>j. g' = g\<lparr>og_by_id := (j, p) # og_by_id g, og_ops := og_ops g @ [(p, f)], og_compiled := False\<rparr>"
  by (auto simp: AddOp_def Let_def split: if_splits)

lemma op_inv_AddOp:
  assumes "op_inv g" "p \<notin> set (op_ptrs g)" "AddOp name_of (Some (p, f)) i g = Inr g'"
  shows "op_inv g'"
proof -
  have "op_ptrs (g\<lparr>og_by_id := b, og_ops := og_ops g @ [(p, f)], og_compiled := False\<rparr>) = op_ptrs g @ [p]" for b
    by (simp add: op_ptrs_def)
  then show ?thesis using AddOp_result [OF assms(3)] assms(1,2) by (auto simp: op_inv_def split: if_splits)
qed

lemma op_inv_DependsOn:
  assumes "op_inv g" "DependsOn x y g = Inr g'"
  shows "op_inv g'"
proof -
  obtain p q where p: "map_of (og_by_id g) x = Some p" "map_of (og_by_id g) y = Some q"
    "g' = g\<lparr>og_deps := (og_deps g)(q := og_deps g q @ [p]), og_compiled := False\<rparr>"
    using assms(2) by (auto simp: DependsOn_def split: option.splits)
  then have "op_ptrs g' = op_ptrs g" by (simp add: op_ptrs_def)
  then show ?thesis using p assms(1) by (auto simp: op_inv_def split: if_splits)
qed

lemma Compile_correct:
  assumes "op_inv g"
  shows "op_inv (snd (Compile g))"
    "if acyclic (dep_rel (og_deps g) (set (op_ptrs g)))
     then \<exists>order. fst (Compile g) = Inr order \<and> topo_order (og_deps g) order \<and> set order = set (op_ptrs g)
     else \<exists>m. fst (Compile g) = Inl (RuntimeError m)"
proof -
  obtain order where k: "kahn (og_deps g) (op_ptrs g) = Some order" "topo_order (og_deps g) order"
    "set order \<subseteq> set (op_ptrs g)"
    "length order = length (op_ptrs g) \<longleftrightarrow> acyclic (dep_rel (og_deps g) (set (op_ptrs g)))"
    using kahn_correct [OF op_inv_closed [OF assms]] by blast
  have full: "set order = set (op_ptrs g)" if "length order = length (op_ptrs g)"
    using that k(2,3) topo_order_distinct assms unfolding op_inv_def
    by (metis List.finite_set card_subset_eq distinct_card)
  have len: "length (op_ptrs g) = length (og_ops g)" by (simp add: op_ptrs_def)
  have ptr: "op_ptrs (g\<lparr>og_order := order\<rparr>) = op_ptrs g" "op_ptrs (g\<lparr>og_order := order, og_compiled := True\<rparr>) = op_ptrs g"
    by (simp_all add: op_ptrs_def)
  show "op_inv (snd (Compile g))"
    using assms k full len ptr by (auto simp: Compile_def op_inv_def)
  show "if acyclic (dep_rel (og_deps g) (set (op_ptrs g)))
     then \<exists>order. fst (Compile g) = Inr order \<and> topo_order (og_deps g) order \<and> set order = set (op_ptrs g)
     else \<exists>m. fst (Compile g) = Inl (RuntimeError m)"
  proof (cases "og_compiled g")
    case True
    then have "topo_order (og_deps g) (og_order g)" "set (og_order g) = set (op_ptrs g)"
      using assms by (auto simp: op_inv_def)
    then show ?thesis using True topo_order_acyclic by (auto simp: Compile_def)
  next
    case False
    then show ?thesis using k full len by (auto simp: Compile_def)
  qed
qed

lemma op_reach_inv: "op_reach name_of g \<Longrightarrow> op_inv g"
proof (induction rule: op_reach.induct)
  case new
  then show ?case by (simp add: OpGraph_new_def op_inv_def op_ptrs_def)
next
  case (aspect g a)
  then show ?case by (auto simp: AddAspect_def op_inv_def op_ptrs_def split: option.splits)
next
  case (compile g)
  then show ?case by (intro Compile_correct(1))
qed (auto intro: op_inv_AddOp op_inv_DependsOn)

section \<open>The arrow language\<close>

lemma Peek_Next_remaining:
  assumes "lex_inv lx" "Peek lx = Inr (t, l1)" "Next l1 = Inr (u, l2)"
  shows "lex_inv l2 \<and> remaining l2 \<le> remaining lx \<and> (kind t \<noteq> kEnd \<longrightarrow> remaining l2 < remaining lx)"
proof -
  note p = Peek_ok [OF assms(2,1)]
  have "u = t" using assms(3) Next_peeked [OF p(2)] p(3) by simp
  then show ?thesis using Next_ok [OF assms(3) p(1)] p(8) by auto
qed

lemma MatchSymbol_remaining:
  assumes "lex_inv lx" "MatchSymbol sy lx = Inr (b, lx')"
  shows "lex_inv lx' \<and> remaining lx' \<le> remaining lx \<and> (b \<longrightarrow> remaining lx' < remaining lx)"
proof -
  obtain t l1 where P: "Peek lx = Inr (t, l1)" using assms(2) by (auto simp: MatchSymbol_def ok_iff)
  show ?thesis
  proof (cases "kind t = kSymbol \<and> ttext t = sy")
    case True
    then obtain u where "Next l1 = Inr (u, lx')" using assms(2) P by (auto simp: MatchSymbol_def ok_iff)
    then show ?thesis using Peek_Next_remaining [OF assms(1) P] True by simp
  next
    case False
    then have "lx' = l1" "\<not> b" using assms(2) P by (auto simp: MatchSymbol_def)
    then show ?thesis using Peek_ok [OF P assms(1)] by simp
  qed
qed

lemma ExpectToken_remaining:
  assumes "lex_inv lx" "ExpectToken k msg lx = Inr (t, lx')" "k \<noteq> kEnd"
  shows "lex_inv lx' \<and> remaining lx' < remaining lx"
proof -
  obtain l1 where P: "Peek lx = Inr (t, l1)" "kind t = k" and "\<exists>u. Next l1 = Inr (u, lx')"
    using assms(2) by (auto simp: ExpectToken_def ok_iff split: if_splits)
  then show ?thesis using Peek_Next_remaining [OF assms(1) P(1)] assms(3) by blast
qed

lemma AtEnd_remaining:
  assumes "lex_inv lx" "AtEnd lx = Inr (b, lx')"
  shows "lex_inv lx' \<and> remaining lx' \<le> remaining lx"
proof -
  obtain t where "Peek lx = Inr (t, lx')" using assms(2) by (auto simp: AtEnd_def ok_iff)
  then show ?thesis using Peek_ok [OF _ assms(1)] by blast
qed

lemma Segment_remaining:
  assumes "lex_inv lx" "Segment lx = Inr (it, lx')"
  shows "lex_inv lx' \<and> remaining lx' < remaining lx"
proof -
  obtain i lx1 b lx2 where e: "ExpectToken kIdent ''identifier'' lx = Inr (i, lx1)" "MatchSymbol '':'' lx1 = Inr (b, lx2)"
    "(b \<and> (\<exists>t. ExpectToken kIdent ''identifier'' lx2 = Inr (t, lx'))) \<or> lx' = lx2"
    using assms(2) by (auto simp: Segment_def ok_iff split: if_splits)
  have 1: "lex_inv lx1" "remaining lx1 < remaining lx" using ExpectToken_remaining [OF assms(1) e(1)] by auto
  have 2: "lex_inv lx2" "remaining lx2 \<le> remaining lx1" using MatchSymbol_remaining [OF 1(1) e(2)] by auto
  show ?thesis
  proof (cases "lx' = lx2")
    case False
    then obtain t where "ExpectToken kIdent ''identifier'' lx2 = Inr (t, lx')" using e(3) by blast
    then show ?thesis using ExpectToken_remaining [OF 2(1)] 1 2 by fastforce
  qed (use 1 2 in simp)
qed

lemma dsl_arrows_ends:
  "lex_inv lx \<Longrightarrow> remaining lx < n \<Longrightarrow> \<exists>r. dsl_arrows n prev defs lx = Some r
    \<and> (\<forall>defs' lx'. r = Inr (defs', lx') \<longrightarrow> lex_inv lx' \<and> remaining lx' \<le> remaining lx)"
proof (induction n arbitrary: prev defs lx)
  case (Suc n)
  show ?case
  proof (cases "MatchSymbol ''->'' lx")
    case (Inr r)
    obtain b lx1 where r: "r = (b, lx1)" by (cases r)
    note m = MatchSymbol_remaining [OF Suc.prems(1) Inr [unfolded r]]
    show ?thesis
    proof (cases b)
      case True
      then have l1: "remaining lx1 < remaining lx" using m by simp
      show ?thesis
      proof (cases "Segment lx1")
        case (Inr s)
        obtain i t lx2 where s: "s = ((i, t), lx2)" by (metis prod.exhaust)
        note sg = Segment_remaining [OF conjunct1 [OF m] Inr [unfolded s]]
        show ?thesis
        proof (cases "ensure i t defs")
          case (Inr kd)
          obtain k d1 where kd: "kd = (k, d1)" by (cases kd)
          have "remaining lx2 < n" using sg l1 Suc.prems(2) by simp
          from Suc.IH [OF conjunct1 [OF sg] this, of i "push_dep k prev d1"] show ?thesis
            using \<open>MatchSymbol ''->'' lx = Inr r\<close> r True \<open>Segment lx1 = Inr s\<close> s Inr kd sg l1 by fastforce
        qed (use Inr \<open>MatchSymbol ''->'' lx = Inr r\<close> r True s in simp)
      qed (use Inr r True in simp)
    qed (use Inr r m in simp)
  qed simp
qed simp

lemma dsl_statements_ends:
  "lex_inv lx \<Longrightarrow> remaining lx < n \<Longrightarrow> \<exists>r. dsl_statements n defs lx = Some r"
proof (induction n arbitrary: defs lx)
  case (Suc n)
  show ?case
  proof (cases "AtEnd lx")
    case (Inr r)
    obtain b lx1 where a: "AtEnd lx = Inr (b, lx1)" using Inr by (cases r) auto
    note e = AtEnd_remaining [OF Suc.prems(1) a]
    show ?thesis
    proof (cases "b \<or> (\<exists>x. Segment lx1 = Inl x)")
      case False
      then obtain i t lx2 where s: "Segment lx1 = Inr ((i, t), lx2)" by (cases "Segment lx1") auto
      note sg = Segment_remaining [OF conjunct1 [OF e] s]
      show ?thesis
      proof (cases "ensure i t defs")
        case (Inr kd)
        obtain k d1 where kd: "ensure i t defs = Inr (k, d1)" using Inr by (cases kd) auto
        obtain q where q: "dsl_arrows (Suc (remaining lx2)) i d1 lx2 = Some q"
          "\<And>d' l'. q = Inr (d', l') \<Longrightarrow> lex_inv l' \<and> remaining l' \<le> remaining lx2"
          using dsl_arrows_ends [OF conjunct1 [OF sg] lessI, of i d1] by blast
        show ?thesis
        proof (cases "\<exists>d2 lx3 b' lx4. q = Inr (d2, lx3) \<and> MatchSymbol '';'' lx3 = Inr (b', lx4)")
          case True
          then obtain d2 lx3 b' lx4 where m: "q = Inr (d2, lx3)" "MatchSymbol '';'' lx3 = Inr (b', lx4)" by blast
          have "lex_inv lx4" "remaining lx4 < n"
            using MatchSymbol_remaining [OF conjunct1 [OF q(2) [OF m(1)]] m(2)] q(2) [OF m(1)] sg e Suc.prems(2) by auto
          then show ?thesis using Suc.IH a False s kd q(1) m by simp
        next
          case no: False
          then show ?thesis using a False s kd q(1)
            by (cases q) (auto split: sum.splits prod.splits)
        qed
      qed (use a False s in simp)
    qed (use a in \<open>auto split: bool.splits\<close>)
  qed simp
qed simp

section \<open>Properties\<close>


definition demo_op_graph :: "(unit, unit) OpGraph" where
  "demo_op_graph = \<lparr>og_ops = [(0, ()), (1, ())], og_by_id = [(''b'', 1), (''a'', 0)], og_deps = (\<lambda>_. [])(1 := [0]),
     og_aspects = [], og_order = [], og_compiled = False\<rparr>"

lemma demo_op_reach: "op_reach (\<lambda>_. []) demo_op_graph"
proof -
  let ?g1 = "OpGraph_new\<lparr>og_by_id := [(''a'', 0)], og_ops := [(0, ())]\<rparr> :: (unit, unit) OpGraph"
  let ?g2 = "?g1\<lparr>og_by_id := [(''b'', 1), (''a'', 0)], og_ops := [(0, ()), (1, ())]\<rparr>"
  have "op_reach (\<lambda>_. []) ?g1"
    by (rule op_reach.add [OF op_reach.new, of 0 _ "()" "''a''"]) (simp_all add: AddOp_def OpGraph_new_def op_ptrs_def)
  then have "op_reach (\<lambda>_. []) ?g2"
    by (rule op_reach.add [of _ _ 1 "()" "''b''"]) (simp_all add: AddOp_def OpGraph_new_def op_ptrs_def)
  then show ?thesis
    by (rule op_reach.depends [of _ _ "''a''" "''b''"]) (simp add: DependsOn_def OpGraph_new_def demo_op_graph_def)
qed


text \<open>C7. Parsing any text of the arrow language ends, with a graph or an exception.\<close>

theorem BuildDsl_terminates: "\<exists>r. BuildDsl name_of reg aspects dsl = Some r"
proof -
  let ?lx = "Lexer_new dsl '':'' [''->'']"
  have "lex_inv ?lx" by (rule lex_inv_new) (simp add: multi_ok_def NL_def)
  moreover have "remaining ?lx < Suc (length dsl)" by (simp add: remaining_def Lexer_new_def)
  ultimately obtain r where "parse_dsl dsl = Some r"
    using dsl_statements_ends unfolding parse_dsl_def by blast
  then show ?thesis by (cases r) (simp_all add: BuildDsl_def)
qed

text \<open>The documented statement separator is not in the lexer's symbol set, so two statements separated
  by a semicolon are rejected as an unexpected character.\<close>

theorem BuildDsl_semicolon_rejected:
  "BuildDsl name_of reg aspects ''a;b'' = Some (Inl (DslError (''unexpected character '' @ [CHR 0x27, CHR '';'', CHR 0x27]) 1 2))"
proof -
  have "parse_dsl ''a;b'' = Some (Inl (DslError (''unexpected character '' @ [CHR 0x27, CHR '';'', CHR 0x27]) 1 2))"
    by code_simp
  then show ?thesis by (simp add: BuildDsl_def)
qed

end
