(* ===== verification/Future.thy ===== *)
theory Future
  imports Prelude
begin

text \<open>
  \<^verbatim>\<open>coro::Future\<close>: the shared completion state, the continuations behind \<^verbatim>\<open>Then\<close>, \<^verbatim>\<open>ThenAsync\<close>, \<^verbatim>\<open>OnError\<close> and
  \<^verbatim>\<open>WhenComplete\<close>, and the aggregates \<^verbatim>\<open>AllOf\<close> and \<^verbatim>\<open>AnyOf\<close>.  A continuation runs once the event of the
  future it awaits is set, so an aggregate is the fold of its continuations over the order in which its futures
  complete; the theorems hold for every order.  Setting the result under the mutex and firing the
  event is one action.
\<close>

section \<open>Model: completion state\<close>

record 'a FutureState =
  fs_resolved :: bool
  fs_value :: "'a option"
  fs_error :: "exn option"

definition FutureState_new :: "'a FutureState" where
  "FutureState_new = \<lparr>fs_resolved = False, fs_value = None, fs_error = None\<rparr>"

definition ResolveValue :: "'a \<Rightarrow> 'a FutureState \<Rightarrow> 'a FutureState" where
  "ResolveValue v s = (if fs_resolved s then s else s\<lparr>fs_value := Some v, fs_resolved := True\<rparr>)"

definition ResolveError :: "exn \<Rightarrow> 'a FutureState \<Rightarrow> 'a FutureState" where
  "ResolveError e s = (if fs_resolved s then s else s\<lparr>fs_error := Some e, fs_resolved := True\<rparr>)"

text \<open>\<^verbatim>\<open>Wait\<close> blocks while the state is not resolved: \<^verbatim>\<open>None\<close>.  \<^verbatim>\<open>WaitFor\<close> reads the flag when it stops waiting.\<close>

definition WaitFor :: "'a FutureState \<Rightarrow> bool" where
  "WaitFor s = fs_resolved s"

definition FutureState_Get :: "'a FutureState \<Rightarrow> 'a res option" where
  "FutureState_Get s =
    (if \<not> fs_resolved s then None
     else Some (case fs_error s of Some e \<Rightarrow> Throw e | None \<Rightarrow> Ok (the (fs_value s))))"

text \<open>\<^verbatim>\<open>FutureState<void>\<close> has no value slot.\<close>

record VoidState =
  vs_resolved :: bool
  vs_error :: "exn option"

definition VoidState_new :: VoidState where
  "VoidState_new = \<lparr>vs_resolved = False, vs_error = None\<rparr>"

definition ResolveVoid :: "VoidState \<Rightarrow> VoidState" where
  "ResolveVoid s = (if vs_resolved s then s else s\<lparr>vs_resolved := True\<rparr>)"

definition ResolveErrorVoid :: "exn \<Rightarrow> VoidState \<Rightarrow> VoidState" where
  "ResolveErrorVoid e s = (if vs_resolved s then s else s\<lparr>vs_error := Some e, vs_resolved := True\<rparr>)"

definition VoidState_Get :: "VoidState \<Rightarrow> unit res option" where
  "VoidState_Get s =
    (if \<not> vs_resolved s then None else Some (case vs_error s of Some e \<Rightarrow> Throw e | None \<Rightarrow> Ok ()))"

section \<open>Model: continuations\<close>

text \<open>Each runs once \<open>self\<close> is resolved; \<open>fn\<close> gives the value or the exception of the user's function.\<close>

definition RunProducer :: "'a res \<Rightarrow> 'a FutureState \<Rightarrow> 'a FutureState" where
  "RunProducer produced s = (case produced of Inl e \<Rightarrow> ResolveError e s | Inr v \<Rightarrow> ResolveValue v s)"

definition RunThen :: "('a \<Rightarrow> 'u res) \<Rightarrow> 'a FutureState \<Rightarrow> 'u FutureState \<Rightarrow> 'u FutureState" where
  "RunThen fn self out = (case fs_error self of
     Some e \<Rightarrow> ResolveError e out
   | None \<Rightarrow> (case fn (the (fs_value self)) of Inl e \<Rightarrow> ResolveError e out | Inr u \<Rightarrow> ResolveValue u out))"

definition RunThenVoid :: "'u res \<Rightarrow> VoidState \<Rightarrow> 'u FutureState \<Rightarrow> 'u FutureState" where
  "RunThenVoid r self out = (case vs_error self of
     Some e \<Rightarrow> ResolveError e out
   | None \<Rightarrow> (case r of Inl e \<Rightarrow> ResolveError e out | Inr u \<Rightarrow> ResolveValue u out))"

text \<open>The asynchronous forms: \<open>fn\<close> first makes the next task (and may throw), which is then awaited.\<close>

definition RunThenAsync :: "('a \<Rightarrow> 'u FutureState res) \<Rightarrow> 'a FutureState \<Rightarrow> 'u FutureState \<Rightarrow> 'u FutureState" where
  "RunThenAsync fn self out = (case fs_error self of
     Some e \<Rightarrow> ResolveError e out
   | None \<Rightarrow> (case fn (the (fs_value self)) of
       Inl e \<Rightarrow> ResolveError e out
     | Inr next \<Rightarrow> (case FutureState_Get next of
         None \<Rightarrow> out | Some (Inl e) \<Rightarrow> ResolveError e out | Some (Inr u) \<Rightarrow> ResolveValue u out)))"

definition RunThenAsyncVoid :: "VoidState res \<Rightarrow> VoidState \<Rightarrow> VoidState \<Rightarrow> VoidState" where
  "RunThenAsyncVoid r self out = (case vs_error self of
     Some e \<Rightarrow> ResolveErrorVoid e out
   | None \<Rightarrow> (case r of
       Inl e \<Rightarrow> ResolveErrorVoid e out
     | Inr next \<Rightarrow> (case VoidState_Get next of
         None \<Rightarrow> out | Some (Inl e) \<Rightarrow> ResolveErrorVoid e out | Some (Inr _) \<Rightarrow> ResolveVoid out)))"

definition RunOnError :: "(exn \<Rightarrow> 'a res) \<Rightarrow> 'a FutureState \<Rightarrow> 'a FutureState \<Rightarrow> 'a FutureState" where
  "RunOnError fn self out = (case fs_error self of
     None \<Rightarrow> ResolveValue (the (fs_value self)) out
   | Some e \<Rightarrow> (case fn e of Inl e' \<Rightarrow> ResolveError e' out | Inr v \<Rightarrow> ResolveValue v out))"

definition RunOnErrorVoid :: "(exn \<Rightarrow> unit res) \<Rightarrow> VoidState \<Rightarrow> VoidState \<Rightarrow> VoidState" where
  "RunOnErrorVoid fn self out = (case vs_error self of
     None \<Rightarrow> ResolveVoid out
   | Some e \<Rightarrow> (case fn e of Inl e' \<Rightarrow> ResolveErrorVoid e' out | Inr _ \<Rightarrow> ResolveVoid out))"

definition RunWhenComplete :: "('a option \<Rightarrow> exn option \<Rightarrow> unit res) \<Rightarrow> 'a FutureState \<Rightarrow> 'a FutureState \<Rightarrow> 'a FutureState" where
  "RunWhenComplete fn self out = (case fn (fs_value self) (fs_error self) of
     Inl e \<Rightarrow> ResolveError e out
   | Inr _ \<Rightarrow> (case fs_error self of Some e \<Rightarrow> ResolveError e out | None \<Rightarrow> ResolveValue (the (fs_value self)) out))"

definition RunWhenCompleteVoid :: "(exn option \<Rightarrow> unit res) \<Rightarrow> VoidState \<Rightarrow> VoidState \<Rightarrow> VoidState" where
  "RunWhenCompleteVoid fn self out = (case fn (vs_error self) of
     Inl e \<Rightarrow> ResolveErrorVoid e out
   | Inr _ \<Rightarrow> (case vs_error self of Some e \<Rightarrow> ResolveErrorVoid e out | None \<Rightarrow> ResolveVoid out))"

section \<open>Model: aggregates\<close>

record 'a AllOfState =
  ao_out :: "'a list FutureState"
  ao_result :: "'a list"
  ao_remaining :: nat

definition RunAllOf :: "'a FutureState \<Rightarrow> nat \<Rightarrow> 'a AllOfState \<Rightarrow> 'a AllOfState" where
  "RunAllOf state index a = (case fs_error state of
     Some e \<Rightarrow> a\<lparr>ao_out := ResolveError e (ao_out a)\<rparr>
   | None \<Rightarrow>
      let result = (ao_result a)[index := the (fs_value state)] in
      a\<lparr>ao_result := result, ao_remaining := ao_remaining a - 1,
        ao_out := (if ao_remaining a = 1 then ResolveValue result (ao_out a) else ao_out a)\<rparr>)"

text \<open>\<open>dflt\<close> fills the vector before the values arrive; \<open>order\<close> lists the futures that have completed, in that order.\<close>

definition AllOf_run :: "'a \<Rightarrow> 'a FutureState list \<Rightarrow> nat list \<Rightarrow> 'a AllOfState" where
  "AllOf_run dflt futures order = fold (\<lambda>i. RunAllOf (futures ! i) i) order
     \<lparr>ao_out = FutureState_new, ao_result = replicate (length futures) dflt, ao_remaining = length futures\<rparr>"

definition AllOf :: "'a \<Rightarrow> 'a FutureState list \<Rightarrow> nat list \<Rightarrow> 'a list FutureState" where
  "AllOf dflt futures order =
    (if futures = [] then ResolveValue [] FutureState_new else ao_out (AllOf_run dflt futures order))"

definition RunAllOfVoid :: "VoidState \<Rightarrow> VoidState \<times> nat \<Rightarrow> VoidState \<times> nat" where
  "RunAllOfVoid state = (\<lambda>(out, remaining). case vs_error state of
     Some e \<Rightarrow> (ResolveErrorVoid e out, remaining)
   | None \<Rightarrow> (if remaining = 1 then ResolveVoid out else out, remaining - 1))"

definition AllOfVoid_run :: "VoidState list \<Rightarrow> nat list \<Rightarrow> VoidState \<times> nat" where
  "AllOfVoid_run futures order = fold (\<lambda>i. RunAllOfVoid (futures ! i)) order (VoidState_new, length futures)"

definition AllOfVoid :: "VoidState list \<Rightarrow> nat list \<Rightarrow> VoidState" where
  "AllOfVoid futures order =
    (if futures = [] then ResolveVoid VoidState_new else fst (AllOfVoid_run futures order))"

record 'a AnyOfState =
  an_out :: "(nat \<times> 'a) FutureState"
  an_winner :: bool
  an_failed :: nat
  an_first_error :: "exn option"

definition RunAnyOf :: "nat \<Rightarrow> 'a FutureState \<Rightarrow> nat \<Rightarrow> 'a AnyOfState \<Rightarrow> 'a AnyOfState" where
  "RunAnyOf count state index a = (case fs_error state of
     Some e \<Rightarrow>
      let a1 = (if \<not> an_winner a then a\<lparr>an_first_error := Some e\<rparr> else a) in
      a1\<lparr>an_failed := an_failed a1 + 1,
        an_out := (if an_failed a1 + 1 = count \<and> \<not> an_winner a1 then ResolveError (the (an_first_error a1)) (an_out a1)
                   else an_out a1)\<rparr>
   | None \<Rightarrow>
      if an_winner a then a
      else a\<lparr>an_winner := True, an_out := ResolveValue (index, the (fs_value state)) (an_out a)\<rparr>)"

definition AnyOf_run :: "'a FutureState list \<Rightarrow> nat list \<Rightarrow> 'a AnyOfState" where
  "AnyOf_run futures order = fold (\<lambda>i. RunAnyOf (length futures) (futures ! i) i) order
     \<lparr>an_out = FutureState_new, an_winner = False, an_failed = 0, an_first_error = None\<rparr>"

definition AnyOf :: "'a FutureState list \<Rightarrow> nat list \<Rightarrow> (nat \<times> 'a) FutureState" where
  "AnyOf futures order = an_out (AnyOf_run futures order)"

definition RunAnyOfVoid :: "nat \<Rightarrow> VoidState \<Rightarrow> VoidState \<times> bool \<times> nat \<Rightarrow> VoidState \<times> bool \<times> nat" where
  "RunAnyOfVoid count state = (\<lambda>(out, winner, failed). case vs_error state of
     Some e \<Rightarrow> (if failed + 1 = count \<and> \<not> winner then ResolveErrorVoid e out else out, winner, failed + 1)
   | None \<Rightarrow> if winner then (out, winner, failed) else (ResolveVoid out, True, failed))"

definition AnyOfVoid :: "VoidState list \<Rightarrow> nat list \<Rightarrow> VoidState" where
  "AnyOfVoid futures order =
    fst (fold (\<lambda>i. RunAnyOfVoid (length futures) (futures ! i)) order (VoidState_new, False, 0))"

section \<open>Model: the handle\<close>

text \<open>A default-constructed future has no state.  The state of a derived future is what its continuation makes of a
  fresh state, once the future it awaits is resolved.\<close>

type_synonym 'a Future = "'a FutureState option"

definition RequireState :: "'a Future \<Rightarrow> 'a FutureState res" where
  "RequireState f = (case f of None \<Rightarrow> Throw (LogicError ''Future: invalid (default-constructed)'') | Some s \<Rightarrow> Ok s)"

definition Just :: "'a \<Rightarrow> 'a Future" where
  "Just v = Some (ResolveValue v FutureState_new)"

definition Future_Error :: "exn \<Rightarrow> 'a Future" where
  "Future_Error e = Some (ResolveError e FutureState_new)"

definition Future_Get :: "'a Future \<Rightarrow> 'a res option" where
  "Future_Get f = (case RequireState f of Inl e \<Rightarrow> Some (Throw e) | Inr s \<Rightarrow> FutureState_Get s)"

definition Future_Get_timeout :: "'a Future \<Rightarrow> 'a res" where
  "Future_Get_timeout f = bindR (RequireState f) (\<lambda>s.
     if \<not> WaitFor s then Throw (RuntimeError ''Future::Get: timed out'') else the (FutureState_Get s))"

definition continue_with :: "('a FutureState \<Rightarrow> 'u FutureState \<Rightarrow> 'u FutureState) \<Rightarrow> 'a Future \<Rightarrow> 'u Future res" where
  "continue_with run f = bindR (RequireState f) (\<lambda>s.
     Ok (Some (if fs_resolved s then run s FutureState_new else FutureState_new)))"

definition Then :: "('a \<Rightarrow> 'u res) \<Rightarrow> 'a Future \<Rightarrow> 'u Future res" where
  "Then fn f = continue_with (RunThen fn) f"

definition ThenAsync :: "('a \<Rightarrow> 'u FutureState res) \<Rightarrow> 'a Future \<Rightarrow> 'u Future res" where
  "ThenAsync fn f = continue_with (RunThenAsync fn) f"

definition OnError :: "(exn \<Rightarrow> 'a res) \<Rightarrow> 'a Future \<Rightarrow> 'a Future res" where
  "OnError fn f = continue_with (RunOnError fn) f"

definition WhenComplete :: "('a option \<Rightarrow> exn option \<Rightarrow> unit res) \<Rightarrow> 'a Future \<Rightarrow> 'a Future res" where
  "WhenComplete fn f = continue_with (RunWhenComplete fn) f"


definition Async :: "'a res option \<Rightarrow> 'a Future" where
  "Async produced = Some (case produced of None \<Rightarrow> FutureState_new | Some r \<Rightarrow> RunProducer r FutureState_new)"

text \<open>The \<^verbatim>\<open>void\<close> specialisation.\<close>

type_synonym VoidFuture = "VoidState option"

definition RequireStateVoid :: "VoidFuture \<Rightarrow> VoidState res" where
  "RequireStateVoid f = (case f of None \<Rightarrow> Throw (LogicError ''Future: invalid (default-constructed)'') | Some s \<Rightarrow> Ok s)"

definition JustVoid :: VoidFuture where
  "JustVoid = Some (ResolveVoid VoidState_new)"

definition ErrorVoid :: "exn \<Rightarrow> VoidFuture" where
  "ErrorVoid e = Some (ResolveErrorVoid e VoidState_new)"

text \<open>\<^verbatim>\<open>Async\<close> and \<^verbatim>\<open>FromThread\<close>: \<^verbatim>\<open>None\<close> while the producer is still running.\<close>

definition AsyncVoid :: "unit res option \<Rightarrow> VoidFuture" where
  "AsyncVoid produced = Some (case produced of
     None \<Rightarrow> VoidState_new
   | Some (Inl e) \<Rightarrow> ResolveErrorVoid e VoidState_new
   | Some (Inr _) \<Rightarrow> ResolveVoid VoidState_new)"

definition WaitForVoid :: "VoidState \<Rightarrow> bool" where
  "WaitForVoid s = vs_resolved s"

definition VoidFuture_Get_timeout :: "VoidFuture \<Rightarrow> unit res" where
  "VoidFuture_Get_timeout f = bindR (RequireStateVoid f) (\<lambda>s.
     if \<not> WaitForVoid s then Throw (RuntimeError ''Future::Get: timed out'') else the (VoidState_Get s))"

definition continue_void :: "(VoidState \<Rightarrow> VoidState \<Rightarrow> VoidState) \<Rightarrow> VoidFuture \<Rightarrow> VoidFuture res" where
  "continue_void run f = bindR (RequireStateVoid f) (\<lambda>s.
     Ok (Some (if vs_resolved s then run s VoidState_new else VoidState_new)))"

definition ThenVoid :: "'u res \<Rightarrow> VoidFuture \<Rightarrow> 'u Future res" where
  "ThenVoid r f = bindR (RequireStateVoid f) (\<lambda>s.
     Ok (Some (if vs_resolved s then RunThenVoid r s FutureState_new else FutureState_new)))"

definition ThenAsyncVoid :: "VoidState res \<Rightarrow> VoidFuture \<Rightarrow> VoidFuture res" where
  "ThenAsyncVoid r f = continue_void (RunThenAsyncVoid r) f"

definition OnErrorVoid :: "(exn \<Rightarrow> unit res) \<Rightarrow> VoidFuture \<Rightarrow> VoidFuture res" where
  "OnErrorVoid fn f = continue_void (RunOnErrorVoid fn) f"

definition WhenCompleteVoid :: "(exn option \<Rightarrow> unit res) \<Rightarrow> VoidFuture \<Rightarrow> VoidFuture res" where
  "WhenCompleteVoid fn f = continue_void (RunWhenCompleteVoid fn) f"

section \<open>Completion happens once\<close>

lemmas resolve_defs = ResolveValue_def ResolveError_def FutureState_new_def

text \<open>The states a future can be in: pending, or completed with a value or an error.\<close>

definition completed :: "'a res \<Rightarrow> 'a FutureState" where
  "completed r = RunProducer r FutureState_new"

definition future_of :: "'a res option \<Rightarrow> 'a FutureState" where
  "future_of q = (case q of None \<Rightarrow> FutureState_new | Some r \<Rightarrow> completed r)"

definition completed_void :: "unit res \<Rightarrow> VoidState" where
  "completed_void r = (case r of Inl e \<Rightarrow> ResolveErrorVoid e VoidState_new | Inr _ \<Rightarrow> ResolveVoid VoidState_new)"

lemma completed_simps [simp]:
  "fs_resolved (completed r)" "fs_error (completed (Inl e)) = Some e" "fs_error (completed (Inr v)) = None"
  "fs_value (completed (Inr v)) = Some v" "fs_value (completed (Inl e)) = None"
  "FutureState_Get (completed r) = Some r"
  by (cases r; simp add: completed_def RunProducer_def resolve_defs FutureState_Get_def)+

lemma new_simps [simp]:
  "\<not> fs_resolved FutureState_new" "fs_value FutureState_new = None" "fs_error FutureState_new = None"
  "FutureState_Get FutureState_new = None"
  by (simp_all add: FutureState_new_def FutureState_Get_def)

lemma resolve_new [simp]:
  "ResolveValue v FutureState_new = completed (Inr v)" "ResolveError e FutureState_new = completed (Inl e)"
  by (simp_all add: completed_def RunProducer_def)

lemma resolve_completed [simp]:
  "ResolveValue v (completed r) = completed r" "ResolveError e (completed r) = completed r"
  by (simp_all add: ResolveValue_def ResolveError_def)

lemma Get_future_of [simp]: "FutureState_Get (future_of q) = q"
  by (cases q) (simp_all add: future_of_def)

lemma RunProducer_completed [simp]: "RunProducer r (completed r') = completed r'"
  by (cases r) (simp_all add: RunProducer_def)

lemma void_simps [simp]:
  "vs_resolved (completed_void r)" "vs_error (completed_void (Inl e)) = Some e" "vs_error (completed_void (Inr u)) = None"
  "VoidState_Get (completed_void r) = Some r"
  by (cases r; simp add: completed_void_def ResolveErrorVoid_def ResolveVoid_def VoidState_new_def VoidState_Get_def)+

lemma resolve_void [simp]:
  "ResolveVoid VoidState_new = completed_void (Inr ())" "ResolveErrorVoid e VoidState_new = completed_void (Inl e)"
  "ResolveVoid (completed_void r) = completed_void r" "ResolveErrorVoid e (completed_void r) = completed_void r"
  by (simp add: completed_void_def, simp add: completed_void_def, simp add: ResolveVoid_def, simp add: ResolveErrorVoid_def)

section \<open>Continuations\<close>

text \<open>What every continuation promises: on a fresh state it produces \<open>result\<close>, and a state already resolved is left alone.\<close>

locale continuation =
  fixes run :: "'a FutureState \<Rightarrow> 'u FutureState \<Rightarrow> 'u FutureState" and result :: "'a res \<Rightarrow> 'u res option"
  assumes fresh: "run (completed r) FutureState_new = future_of (result r)"
    and settled: "run (completed r) (completed u) = completed u"
begin

lemma continue_Get: "continue_with run (Some (future_of q)) = Ok (Some (future_of (Option.bind q result)))"
  by (cases q) (simp_all add: continue_with_def RequireState_def future_of_def fresh)

lemma resumed_twice: "run (completed r) (run (completed r) (future_of q)) = run (completed r) (future_of q)"
proof (cases q)
  case None
  then show ?thesis by (cases "result r") (simp_all add: future_of_def fresh settled)
qed (simp add: future_of_def settled)

end

interpretation then_cont: continuation "RunThen fn" "\<lambda>r. Some (bindR r fn)" for fn
proof
  fix r u
  show "RunThen fn (completed r) FutureState_new = future_of (Some (bindR r fn))"
    by (cases r) (auto simp: RunThen_def future_of_def split: sum.splits)
  show "RunThen fn (completed r) (completed u) = completed u"
    by (cases r) (auto simp: RunThen_def split: sum.splits)
qed

interpretation then_async_cont: continuation "RunThenAsync fn"
    "\<lambda>r. case r of Inl e \<Rightarrow> Some (Inl e) | Inr v \<Rightarrow> (case fn v of Inl e \<Rightarrow> Some (Inl e) | Inr next \<Rightarrow> FutureState_Get next)" for fn
proof
  fix r u
  show "RunThenAsync fn (completed r) FutureState_new = future_of
      (case r of Inl e \<Rightarrow> Some (Inl e) | Inr v \<Rightarrow> (case fn v of Inl e \<Rightarrow> Some (Inl e) | Inr next \<Rightarrow> FutureState_Get next))"
    by (cases r) (auto simp: RunThenAsync_def future_of_def split: sum.splits option.splits)
  show "RunThenAsync fn (completed r) (completed u) = completed u"
    by (cases r) (auto simp: RunThenAsync_def split: sum.splits option.splits)
qed

interpretation on_error_cont: continuation "RunOnError fn" "\<lambda>r. Some (case r of Inl e \<Rightarrow> fn e | Inr v \<Rightarrow> Inr v)" for fn
proof
  fix r u
  show "RunOnError fn (completed r) FutureState_new = future_of (Some (case r of Inl e \<Rightarrow> fn e | Inr v \<Rightarrow> Inr v))"
    by (cases r) (auto simp: RunOnError_def future_of_def split: sum.splits)
  show "RunOnError fn (completed r) (completed u) = completed u"
    by (cases r) (auto simp: RunOnError_def split: sum.splits)
qed

definition observed :: "('a option \<Rightarrow> exn option \<Rightarrow> unit res) \<Rightarrow> 'a res \<Rightarrow> 'a res" where
  "observed fn r = (case r of
     Inl e \<Rightarrow> (case fn None (Some e) of Inl e' \<Rightarrow> Inl e' | Inr _ \<Rightarrow> Inl e)
   | Inr v \<Rightarrow> (case fn (Some v) None of Inl e' \<Rightarrow> Inl e' | Inr _ \<Rightarrow> Inr v))"

interpretation when_complete_cont: continuation "RunWhenComplete fn" "\<lambda>r. Some (observed fn r)" for fn
proof
  fix r u
  show "RunWhenComplete fn (completed r) FutureState_new = future_of (Some (observed fn r))"
    by (cases r) (auto simp: RunWhenComplete_def observed_def future_of_def split: sum.splits)
  show "RunWhenComplete fn (completed r) (completed u) = completed u"
    by (cases r) (auto simp: RunWhenComplete_def split: sum.splits)
qed

section \<open>Aggregates\<close>

fun first_failure :: "'a res list \<Rightarrow> exn option" where
  "first_failure [] = None"
| "first_failure (Inl e # rs) = Some e"
| "first_failure (Inr v # rs) = first_failure rs"

lemma first_failure_snoc:
  "first_failure (rs @ [r]) = (case first_failure rs of Some e \<Rightarrow> Some e | None \<Rightarrow> (case r of Inl e \<Rightarrow> Some e | Inr _ \<Rightarrow> None))"
  by (induction rs rule: first_failure.induct) (auto split: sum.splits)

definition all_of :: "'a res list \<Rightarrow> nat list \<Rightarrow> 'a list res option" where
  "all_of rs order = (case first_failure (map ((!) rs) order) of
     Some e \<Rightarrow> Some (Inl e)
   | None \<Rightarrow> if length order = length rs then Some (Inr (map projr rs)) else None)"

definition slots :: "'a \<Rightarrow> 'a res list \<Rightarrow> nat list \<Rightarrow> 'a list" where
  "slots dflt rs order = map (\<lambda>i. if i \<in> set order then projr (rs ! i) else dflt) [0..<length rs]"

lemma slots_snoc: "i < length rs \<Longrightarrow> (slots dflt rs order)[i := projr (rs ! i)] = slots dflt rs (order @ [i])"
  by (rule nth_equalityI) (auto simp: slots_def nth_list_update)

lemma slots_full:
  assumes "distinct order" "set order \<subseteq> {0..<length rs}" "length order = length rs"
  shows "slots dflt rs order = map projr rs"
proof -
  have "set order = {0..<length rs}" by (rule card_subset_eq) (use assms distinct_card in force)+
  then show ?thesis by (auto simp: slots_def intro!: nth_equalityI)
qed

lemma AllOf_run_snoc: "AllOf_run dflt fs (order @ [i]) = RunAllOf (fs ! i) i (AllOf_run dflt fs order)"
  by (simp add: AllOf_run_def)

lemma order_shorter:
  assumes "distinct (order @ [i])" "set (order @ [i]) \<subseteq> {0..<n}"
  shows "length order < n"
proof -
  have "length (order @ [i]) \<le> card {0..<n}" using assms by (metis card_mono distinct_card finite_atLeastLessThan)
  then show ?thesis by simp
qed

lemma AllOf_fold:
  assumes "distinct order" "set order \<subseteq> {0..<length rs}" "rs \<noteq> []"
  shows "ao_out (AllOf_run dflt (map completed rs) order) = future_of (all_of rs order) \<and>
    (first_failure (map ((!) rs) order) = None \<longrightarrow> ao_result (AllOf_run dflt (map completed rs) order) = slots dflt rs order
      \<and> ao_remaining (AllOf_run dflt (map completed rs) order) = length rs - length order)"
  using assms
proof (induction order rule: rev_induct)
  case Nil
  then show ?case by (auto simp: AllOf_run_def all_of_def future_of_def slots_def map_replicate_const)
next
  case (snoc i order)
  let ?a = "AllOf_run dflt (map completed rs) order"
  have i: "i < length rs" and d: "distinct order" "set order \<subseteq> {0..<length rs}" using snoc.prems by auto
  note len = order_shorter [OF snoc.prems(1,2)]
  note IH = snoc.IH [OF d snoc.prems(3)]
  show ?case
  proof (cases "first_failure (map ((!) rs) order)")
    case (Some e)
    then have o: "ao_out ?a = completed (Inl e)" using IH by (simp add: all_of_def future_of_def)
    have "all_of rs (order @ [i]) = Some (Inl e)" by (simp add: all_of_def first_failure_snoc Some)
    then show ?thesis
      using i by (cases "rs ! i") (auto simp: AllOf_run_snoc RunAllOf_def Let_def o future_of_def first_failure_snoc Some)
  next
    case None
    have o: "ao_out ?a = FutureState_new" using len IH by (simp add: all_of_def None future_of_def)
    show ?thesis
    proof (cases "rs ! i")
      case (Inl e)
      then show ?thesis using i
        by (simp add: AllOf_run_snoc RunAllOf_def o future_of_def all_of_def first_failure_snoc None)
    next
      case (Inr v)
      have r: "ao_result ?a = slots dflt rs order" "ao_remaining ?a = length rs - length order" using IH None by auto
      have s: "(slots dflt rs order)[i := v] = slots dflt rs (order @ [i])" using slots_snoc [OF i(1)] Inr by force
      have "slots dflt rs (order @ [i]) = map projr rs" if "Suc (length order) = length rs"
        by (rule slots_full) (use snoc.prems that in auto)
      then show ?thesis using i len Inr
        by (auto simp: AllOf_run_snoc RunAllOf_def o r s Let_def future_of_def all_of_def first_failure_snoc None)
    qed
  qed
qed


definition void_of :: "unit res option \<Rightarrow> VoidState" where
  "void_of q = (case q of None \<Rightarrow> VoidState_new | Some r \<Rightarrow> completed_void r)"

definition all_of_void :: "unit res list \<Rightarrow> nat list \<Rightarrow> unit res option" where
  "all_of_void rs order = (case first_failure (map ((!) rs) order) of
     Some e \<Rightarrow> Some (Inl e) | None \<Rightarrow> if length order = length rs then Some (Inr ()) else None)"

lemma AllOfVoid_fold:
  assumes "distinct order" "set order \<subseteq> {0..<length rs}" "rs \<noteq> []"
  shows "fst (AllOfVoid_run (map completed_void rs) order) = void_of (all_of_void rs order) \<and>
    (first_failure (map ((!) rs) order) = None \<longrightarrow> snd (AllOfVoid_run (map completed_void rs) order) = length rs - length order)"
  using assms
proof (induction order rule: rev_induct)
  case Nil
  then show ?case by (auto simp: AllOfVoid_run_def all_of_void_def void_of_def)
next
  case (snoc i order)
  let ?a = "AllOfVoid_run (map completed_void rs) order"
  have i: "i < length rs" and d: "distinct order" "set order \<subseteq> {0..<length rs}" using snoc.prems by auto
  note len = order_shorter [OF snoc.prems(1,2)]
  note IH = snoc.IH [OF d snoc.prems(3)]
  have run: "AllOfVoid_run (map completed_void rs) (order @ [i]) = RunAllOfVoid (completed_void (rs ! i)) (fst ?a, snd ?a)"
    using i by (simp add: AllOfVoid_run_def)
  show ?case
  proof (cases "first_failure (map ((!) rs) order)")
    case (Some e)
    then have o: "fst ?a = completed_void (Inl e)" using IH by (simp add: all_of_void_def void_of_def)
    show ?thesis
      unfolding run by (cases "rs ! i") (auto simp: RunAllOfVoid_def o void_of_def all_of_void_def first_failure_snoc Some)
  next
    case None
    then have "fst ?a = VoidState_new" "snd ?a = length rs - length order"
      using len IH by (simp_all add: all_of_void_def void_of_def)
    then show ?thesis
      unfolding run using len
      by (cases "rs ! i") (auto simp: RunAllOfVoid_def void_of_def all_of_void_def first_failure_snoc None)
  qed
qed

lemma AllOfVoid_Get:
  assumes "distinct order" "set order \<subseteq> {0..<length rs}"
  shows "AllOfVoid (map completed_void rs) order = void_of (all_of_void rs order)"
  using AllOfVoid_fold [OF assms] assms by (cases "rs = []") (simp_all add: AllOfVoid_def all_of_void_def void_of_def)

text \<open>The \<^verbatim>\<open>void\<close> combinators on a pending or completed future.\<close>

lemma void_combinators:
  "ThenVoid r (Some (void_of q)) = Inr (Some (future_of (map_option (\<lambda>x. bindR x (\<lambda>_. r)) q)))"
  "ThenAsyncVoid (Inr (void_of n)) (Some (void_of q)) = Inr (Some (void_of (case q of None \<Rightarrow> None | Some (Inl e) \<Rightarrow> Some (Inl e) | Some (Inr _) \<Rightarrow> n)))"
  "OnErrorVoid fe (Some (void_of q)) = Inr (Some (void_of (map_option (case_sum fe Inr) q)))"
  "WhenCompleteVoid fo (Some (void_of q)) = Inr (Some (void_of (map_option
     (\<lambda>x. bindR (fo (case x of Inl e \<Rightarrow> Some e | Inr _ \<Rightarrow> None)) (\<lambda>_. x)) q)))"
  by (cases q; (cases n)?; auto simp: ThenVoid_def ThenAsyncVoid_def OnErrorVoid_def WhenCompleteVoid_def continue_void_def
      RequireStateVoid_def void_of_def future_of_def RunThenVoid_def RunThenAsyncVoid_def RunOnErrorVoid_def
      RunWhenCompleteVoid_def VoidState_new_def VoidState_Get_def completed_void_def ResolveVoid_def ResolveErrorVoid_def
      split: sum.splits option.splits)+

fun first_success :: "'a res list \<Rightarrow> nat list \<Rightarrow> (nat \<times> 'a) option" where
  "first_success rs [] = None"
| "first_success rs (i # order) = (case rs ! i of Inr v \<Rightarrow> Some (i, v) | Inl _ \<Rightarrow> first_success rs order)"

lemma first_success_snoc:
  "first_success rs (order @ [i]) = (case first_success rs order of Some w \<Rightarrow> Some w
    | None \<Rightarrow> (case rs ! i of Inr v \<Rightarrow> Some (i, v) | Inl _ \<Rightarrow> None))"
  by (induction order) (auto split: sum.splits)

definition any_of :: "'a res list \<Rightarrow> nat list \<Rightarrow> (nat \<times> 'a) res option" where
  "any_of rs order = (case first_success rs order of
     Some w \<Rightarrow> Some (Inr w)
   | None \<Rightarrow> if order \<noteq> [] \<and> length order = length rs then Some (Inl (projl (rs ! last order))) else None)"

lemma AnyOf_fold:
  assumes "distinct order" "set order \<subseteq> {0..<length rs}"
  shows "an_out (AnyOf_run (map completed rs) order) = future_of (any_of rs order) \<and>
    an_winner (AnyOf_run (map completed rs) order) = (first_success rs order \<noteq> None) \<and>
    (first_success rs order = None \<longrightarrow> an_failed (AnyOf_run (map completed rs) order) = length order)"
  using assms
proof (induction order rule: rev_induct)
  case Nil
  then show ?case by (auto simp: AnyOf_run_def any_of_def future_of_def)
next
  case (snoc i order)
  let ?a = "AnyOf_run (map completed rs) order"
  have i: "i < length rs" and d: "distinct order" "set order \<subseteq> {0..<length rs}" using snoc.prems by auto
  note len = order_shorter [OF snoc.prems]
  note IH = snoc.IH [OF d]
  have run: "AnyOf_run (map completed rs) (order @ [i]) = RunAnyOf (length rs) (completed (rs ! i)) i ?a"
    using i by (simp add: AnyOf_run_def)
  show ?case
  proof (cases "first_success rs order")
    case (Some w)
    then have "an_out ?a = completed (Inr w)" "an_winner ?a" using IH by (simp_all add: any_of_def future_of_def)
    then show ?thesis
      unfolding run by (cases "rs ! i") (auto simp: RunAnyOf_def Let_def future_of_def any_of_def first_success_snoc Some)
  next
    case None
    then have "an_out ?a = FutureState_new" "\<not> an_winner ?a" "an_failed ?a = length order"
      using len IH by (simp_all add: any_of_def future_of_def)
    then show ?thesis
      unfolding run using len
      by (cases "rs ! i") (auto simp: RunAnyOf_def Let_def future_of_def any_of_def first_success_snoc None)
  qed
qed

abbreviation invalid_future :: "'a Future res" where
  "invalid_future \<equiv> Inl (LogicError ''Future: invalid (default-constructed)'')"

lemma continue_invalid: "continue_with run None = invalid_future"
  by (simp add: continue_with_def RequireState_def)

section \<open>Properties\<close>

text \<open>C11. Completion and composition: however many producers race to resolve a state, the first result stays; and each
  combinator gives, on a pending, failed or successful future, exactly the propagated, transformed, recovered or
  observed result (\<^verbatim>\<open>ThenAsync\<close> also waits for the task it starts), or throws on a default-constructed one.\<close>

theorem Future_combinators:
  "fold RunProducer rs FutureState_new = future_of (case rs of [] \<Rightarrow> None | r # _ \<Rightarrow> Some r) \<and>
   Then fn (Some (future_of q)) = Inr (Some (future_of (map_option (\<lambda>r. bindR r fn) q))) \<and>
   ThenAsync fa (Some (future_of q)) = Inr (Some (future_of (case q of None \<Rightarrow> None | Some (Inl e) \<Rightarrow> Some (Inl e)
     | Some (Inr v) \<Rightarrow> (case fa v of Inl e \<Rightarrow> Some (Inl e) | Inr next \<Rightarrow> FutureState_Get next)))) \<and>
   OnError fe (Some (future_of q)) = Inr (Some (future_of (map_option (case_sum fe Inr) q))) \<and>
   WhenComplete fo (Some (future_of q)) = Inr (Some (future_of (map_option (observed fo) q))) \<and>
   Then fn None = invalid_future \<and> ThenAsync fa None = invalid_future \<and> OnError fe None = invalid_future
     \<and> WhenComplete fo None = invalid_future"
proof (intro conjI)
  have "fold RunProducer rs (completed r) = completed r" for rs and r :: "'a res" by (induction rs) simp_all
  then show "fold RunProducer rs FutureState_new = future_of (case rs of [] \<Rightarrow> None | r # _ \<Rightarrow> Some r)"
    by (cases rs) (simp_all add: future_of_def completed_def [symmetric])
qed (simp_all add: Then_def ThenAsync_def OnError_def WhenComplete_def then_cont.continue_Get then_async_cont.continue_Get
      on_error_cont.continue_Get when_complete_cont.continue_Get continue_invalid map_conv_bind_option comp_def split: option.split)

text \<open>C12. \<^verbatim>\<open>AllOf\<close>, whatever the order in which the futures complete: it fails with the error of the first one to fail, as
  soon as it fails; it succeeds only when all have, with the values in the futures' order; until then it is pending.\<close>

theorem AllOf_any_order:
  assumes "distinct order" "set order \<subseteq> {0..<length rs}"
  shows "FutureState_Get (AllOf dflt (map completed rs) order) = all_of rs order"
proof (cases "rs = []")
  case True
  then show ?thesis using assms by (simp add: AllOf_def all_of_def)
next
  case False
  then show ?thesis using AllOf_fold [OF assms False] by (simp add: AllOf_def)
qed

theorem AllOf_any_order_witness:
  "FutureState_Get (AllOf 0 (map completed [Inr 5, Inr 7, Inr (9 :: nat)]) [2, 0, 1]) = Some (Inr [5, 7, 9]) \<and>
   FutureState_Get (AllOf 0 (map completed [Inr 5, Inl (RuntimeError ''x''), Inr (9 :: nat)]) [2, 1]) = Some (Inl (RuntimeError ''x''))"
proof -
  have s: "{0..<3} = {0, 1, 2 :: nat}" by auto
  have "FutureState_Get (AllOf 0 (map completed [Inr 5, Inr 7, Inr (9 :: nat)]) [2, 0, 1]) = all_of [Inr 5, Inr 7, Inr 9] [2, 0, 1]"
    by (rule AllOf_any_order) (simp_all add: s)
  moreover have "FutureState_Get (AllOf 0 (map completed [Inr 5, Inl (RuntimeError ''x''), Inr (9 :: nat)]) [2, 1])
      = all_of [Inr 5, Inl (RuntimeError ''x''), Inr 9] [2, 1]"
    by (rule AllOf_any_order) (simp_all add: s)
  ultimately show ?thesis by (simp add: all_of_def)
qed



end
