(* ===== verification/OpExecutor.thy ===== *)
theory OpExecutor
  imports OpGraph Future Metric
begin

text \<open>
  \<^verbatim>\<open>dag::OpExecutor\<close>: running one op with its aspects (\<^verbatim>\<open>RunOp\<close>), the status table, and \<^verbatim>\<open>ExecuteAsync\<close> as a step
  relation on the ops' futures.  An op runs once the \<^verbatim>\<open>AllOf\<close> of its dependencies' futures succeeded; if that fails, the op's
  future fails with the same error and the op never runs.  The data bag, the ops and the aspect hooks are arbitrary
  functions; a hook may throw.
\<close>

section \<open>Model: one op\<close>

record ('f, 'd) OpAspect =
  as_ShouldSkip :: "'f \<Rightarrow> 'd \<Rightarrow> bool res"
  as_OnBefore :: "'f \<Rightarrow> 'd \<Rightarrow> 'd \<times> exn option"
  as_OnAfter :: "'f \<Rightarrow> 'd \<Rightarrow> OpStatus \<Rightarrow> 'd \<times> exn option"

text \<open>An aspect that overrides nothing.\<close>

definition OpAspect_default :: "('f, 'd) OpAspect" where
  "OpAspect_default = \<lparr>as_ShouldSkip = (\<lambda>_ _. Ok False), as_OnBefore = (\<lambda>_ d. (d, None)), as_OnAfter = (\<lambda>_ d _. (d, None))\<rparr>"

record 'd op_exec =
  ox_status :: "(nat \<times> OpStatus) list"
  ox_data :: 'd
  ox_events :: "Event list"

definition Op_SetStatus :: "nat \<Rightarrow> OpStatus \<Rightarrow> 'd op_exec \<Rightarrow> 'd op_exec" where
  "Op_SetStatus p st x = x\<lparr>ox_status := AList.update p st (ox_status x)\<rparr>"

definition Op_Status :: "'d op_exec \<Rightarrow> nat \<Rightarrow> OpStatus" where
  "Op_Status x p = (case map_of (ox_status x) p of None \<Rightarrow> OpPending | Some st \<Rightarrow> st)"

definition AllSucceeded :: "'d op_exec \<Rightarrow> bool" where
  "AllSucceeded x = list_all (\<lambda>(p, st). st = OpSuccess \<or> st = OpSkipped) (ox_status x)"

definition Op_Emit :: "bool \<Rightarrow> Event \<Rightarrow> 'd op_exec \<Rightarrow> 'd op_exec" where
  "Op_Emit monitor e x = (if monitor then x\<lparr>ox_events := ox_events x @ [e]\<rparr> else x)"

fun skip_requested :: "('f, 'd) OpAspect list \<Rightarrow> 'f \<Rightarrow> 'd \<Rightarrow> bool res" where
  "skip_requested [] f d = Ok False"
| "skip_requested (a # rest) f d = bindR (as_ShouldSkip a f d) (\<lambda>b. if b then Ok True else skip_requested rest f d)"

text \<open>Hooks run in order until one throws; what they did to the data stays.\<close>

fun run_hooks :: "('d \<Rightarrow> 'd \<times> exn option) list \<Rightarrow> 'd \<Rightarrow> 'd \<times> exn option" where
  "run_hooks [] d = (d, None)"
| "run_hooks (h # hs) d = (case h d of (d1, Some e) \<Rightarrow> (d1, Some e) | (d1, None) \<Rightarrow> run_hooks hs d1)"

definition end_event :: "string \<Rightarrow> exn option \<Rightarrow> int \<Rightarrow> Event" where
  "end_event n err elapsed =
    (Event_new ''dag'' (if err \<noteq> None then ''op.error'' else ''op.end'') n)\<lparr>ev_duration := elapsed, ev_ok := (err = None)\<rparr>"

definition result_status :: "exn option \<Rightarrow> OpStatus" where
  "result_status err = (if err \<noteq> None then OpFailed else OpSuccess)"

text \<open>The op's body, from the \<^verbatim>\<open>OnBefore\<close> hooks on.\<close>

definition run_body :: "('f \<Rightarrow> string) \<Rightarrow> ('f \<Rightarrow> 'd \<Rightarrow> 'd \<times> exn option) \<Rightarrow> bool \<Rightarrow> int \<Rightarrow> ('f, 'd) OpAspect list
    \<Rightarrow> nat \<Rightarrow> 'f \<Rightarrow> 'd op_exec \<Rightarrow> unit res \<times> 'd op_exec" where
  "run_body name_of body monitor elapsed aspects p f x =
    (case run_hooks (map (\<lambda>a. as_OnBefore a f) aspects) (ox_data x) of
       (d1, Some e) \<Rightarrow> (Throw e, x\<lparr>ox_data := d1\<rparr>)
     | (d1, None) \<Rightarrow> (case body f d1 of (d2, err) \<Rightarrow>
         (let st = result_status err;
              x2 = Op_SetStatus p st (x\<lparr>ox_data := d2\<rparr>) in
          case run_hooks (map (\<lambda>a d. as_OnAfter a f d st) aspects) d2 of
            (d3, Some e) \<Rightarrow> (Throw e, x2\<lparr>ox_data := d3\<rparr>)
          | (d3, None) \<Rightarrow> (Ok (), Op_Emit monitor (end_event (name_of f) err elapsed) (x2\<lparr>ox_data := d3\<rparr>)))))"

definition RunOp :: "('f \<Rightarrow> string) \<Rightarrow> ('f \<Rightarrow> 'd \<Rightarrow> 'd \<times> exn option) \<Rightarrow> bool \<Rightarrow> int \<Rightarrow> ('f, 'd) OpAspect list
    \<Rightarrow> nat \<Rightarrow> 'f \<Rightarrow> 'd op_exec \<Rightarrow> unit res \<times> 'd op_exec" where
  "RunOp name_of body monitor elapsed aspects p f x =
    (let x1 = Op_Emit monitor (Event_new ''dag'' ''op.start'' (name_of f)) (Op_SetStatus p OpRunning x) in
     case skip_requested aspects f (ox_data x1) of
       Inl e \<Rightarrow> (Throw e, x1)
     | Inr True \<Rightarrow> (Ok (), Op_Emit monitor (Event_new ''dag'' ''op.skipped'' (name_of f)) (Op_SetStatus p OpSkipped x1))
     | Inr False \<Rightarrow> run_body name_of body monitor elapsed aspects p f x1)"

section \<open>Model: the run\<close>

record 'd op_run =
  or_exec :: "'d op_exec"
  or_future :: "nat \<Rightarrow> unit res option"
  or_ran :: "nat list"

definition op_run_init :: "'d op_exec \<Rightarrow> 'd op_run" where
  "op_run_init x = \<lparr>or_exec = x, or_future = (\<lambda>_. None), or_ran = []\<rparr>"

text \<open>Dependencies' results in the order the futures completed do not matter for whether an op may run
  (\<open>all_of_void\<close>): it runs when all succeeded and is poisoned when one failed.\<close>

inductive op_step :: "('f \<Rightarrow> string) \<Rightarrow> ('f \<Rightarrow> 'd \<Rightarrow> 'd \<times> exn option) \<Rightarrow> bool \<Rightarrow> ('f, ('f, 'd) OpAspect) OpGraph
    \<Rightarrow> 'd op_run \<Rightarrow> 'd op_run \<Rightarrow> bool"
  for name_of body monitor g where
  run: "(p, f) \<in> set (og_ops g) \<Longrightarrow> or_future s p = None \<Longrightarrow> list_all (\<lambda>d. or_future s d = Some (Inr ())) (og_deps g p) \<Longrightarrow>
    RunOp name_of body monitor elapsed (og_aspects g) p f (or_exec s) = (r, x') \<Longrightarrow>
    op_step name_of body monitor g s \<lparr>or_exec = x', or_future = (or_future s)(p := Some r), or_ran = or_ran s @ [p]\<rparr>"
| poison: "(p, f) \<in> set (og_ops g) \<Longrightarrow> or_future s p = None \<Longrightarrow> d \<in> set (og_deps g p) \<Longrightarrow> or_future s d = Some (Inl e) \<Longrightarrow>
    op_step name_of body monitor g s (s\<lparr>or_future := (or_future s)(p := Some (Inl e))\<rparr>)"

inductive op_run_reach :: "('f \<Rightarrow> string) \<Rightarrow> ('f \<Rightarrow> 'd \<Rightarrow> 'd \<times> exn option) \<Rightarrow> bool \<Rightarrow> ('f, ('f, 'd) OpAspect) OpGraph
    \<Rightarrow> 'd op_exec \<Rightarrow> 'd op_run \<Rightarrow> bool"
  for name_of body monitor g x0 where
  init: "op_run_reach name_of body monitor g x0 (op_run_init x0)"
| step: "op_run_reach name_of body monitor g x0 s \<Longrightarrow> op_step name_of body monitor g s s' \<Longrightarrow>
    op_run_reach name_of body monitor g x0 s'"

text \<open>\<^verbatim>\<open>Execute\<close> waits for the \<^verbatim>\<open>AllOf\<close> of all futures: it returns when all succeeded, or as soon as one failed.\<close>

definition op_execute_returns :: "('f, ('f, 'd) OpAspect) OpGraph \<Rightarrow> 'd op_run \<Rightarrow> bool" where
  "op_execute_returns g s =
    (list_all (\<lambda>p. or_future s p = Some (Inr ())) (op_ptrs g) \<or> list_ex (\<lambda>p. \<exists>e. or_future s p = Some (Inl e)) (op_ptrs g))"

section \<open>Aspects that do not throw\<close>

definition quiet :: "('f, 'd) OpAspect \<Rightarrow> bool" where
  "quiet a = (\<forall>f d st. (\<exists>b. as_ShouldSkip a f d = Inr b) \<and> snd (as_OnBefore a f d) = None \<and> snd (as_OnAfter a f d st) = None)"

lemma run_hooks_quiet: "(\<And>h d. h \<in> set hs \<Longrightarrow> snd (h d) = None) \<Longrightarrow> snd (run_hooks hs d) = None"
proof (induction hs arbitrary: d)
  case (Cons h hs)
  then obtain d1 where "h d = (d1, None)" by (metis list.set_intros(1) prod.collapse)
  then show ?case using Cons by simp
qed simp

lemma skip_requested_quiet: "list_all quiet as \<Longrightarrow> \<exists>b. skip_requested as f d = Inr b"
proof (induction as)
  case (Cons a as)
  then have "\<exists>b. as_ShouldSkip a f d = Inr b" by (simp add: quiet_def)
  then show ?case using Cons by auto
qed auto

lemma Op_Emit_simps [simp]: "ox_status (Op_Emit m e x) = ox_status x" "ox_data (Op_Emit m e x) = ox_data x"
  by (simp_all add: Op_Emit_def)

lemma status_of_SetStatus [simp]: "Op_Status (Op_SetStatus p st x) q = (if p = q then st else Op_Status x q)"
  by (simp add: Op_Status_def Op_SetStatus_def)

lemma status_irrelevant [simp]: "Op_Status (Op_Emit m e x) q = Op_Status x q" "Op_Status (x\<lparr>ox_data := d\<rparr>) q = Op_Status x q"
  by (simp_all add: Op_Status_def)

text \<open>What \<^verbatim>\<open>RunOp\<close> leaves behind when no hook throws.\<close>

lemma run_body_quiet:
  assumes "list_all quiet as" "run_body name_of body monitor elapsed as p f x = (r, x')"
  shows "r = Inr () \<and> Op_Status x' p \<in> {OpSuccess, OpFailed} \<and> (\<forall>q. q \<noteq> p \<longrightarrow> Op_Status x' q = Op_Status x q)"
proof -
  obtain d1 where b: "run_hooks (map (\<lambda>a. as_OnBefore a f) as) (ox_data x) = (d1, None)"
  proof -
    have "snd (run_hooks (map (\<lambda>a. as_OnBefore a f) as) (ox_data x)) = None"
      by (rule run_hooks_quiet) (use assms(1) in \<open>auto simp: quiet_def list_all_iff\<close>)
    then show ?thesis using that by (metis prod.collapse)
  qed
  obtain d2 err where e: "body f d1 = (d2, err)" by (cases "body f d1")
  define st where "st = result_status err"
  obtain d3 where a: "run_hooks (map (\<lambda>a d. as_OnAfter a f d st) as) d2 = (d3, None)"
  proof -
    have "snd (run_hooks (map (\<lambda>a d. as_OnAfter a f d st) as) d2) = None"
      by (rule run_hooks_quiet) (use assms(1) in \<open>auto simp: quiet_def list_all_iff\<close>)
    then show ?thesis using that by (metis prod.collapse)
  qed
  have "run_body name_of body monitor elapsed as p f x = (Inr (),
      Op_Emit monitor (end_event (name_of f) err elapsed) ((Op_SetStatus p st (x\<lparr>ox_data := d2\<rparr>))\<lparr>ox_data := d3\<rparr>))"
    unfolding run_body_def by (simp add: b e st_def [symmetric] a Let_def)
  then show ?thesis using assms(2) by (auto simp: st_def result_status_def)
qed

lemma RunOp_quiet:
  assumes "list_all quiet as" "RunOp name_of body monitor elapsed as p f x = (r, x')"
  shows "r = Inr () \<and> Op_Status x' p \<in> {OpSuccess, OpFailed, OpSkipped} \<and> (\<forall>q. q \<noteq> p \<longrightarrow> Op_Status x' q = Op_Status x q)"
proof -
  define x1 where "x1 = Op_Emit monitor (Event_new ''dag'' ''op.start'' (name_of f)) (Op_SetStatus p OpRunning x)"
  have x1: "q \<noteq> p \<Longrightarrow> Op_Status x1 q = Op_Status x q" for q by (simp add: x1_def)
  obtain b where b: "skip_requested as f (ox_data x1) = Inr b" using skip_requested_quiet [OF assms(1)] by blast
  show ?thesis
  proof (cases b)
    case True
    then show ?thesis using assms(2) b x1 by (auto simp: RunOp_def x1_def [symmetric] Let_def)
  next
    case False
    then have "run_body name_of body monitor elapsed as p f x1 = (r, x')"
      using assms(2) b by (simp add: RunOp_def x1_def [symmetric] Let_def)
    then show ?thesis using run_body_quiet [OF assms(1)] x1 by fastforce
  qed
qed


section \<open>Runs without throwing hooks\<close>

definition op_final :: "OpStatus \<Rightarrow> bool" where
  "op_final st = (st \<in> {OpSuccess, OpFailed, OpSkipped})"

definition op_run_inv :: "('f, ('f, 'd) OpAspect) OpGraph \<Rightarrow> 'd op_run \<Rightarrow> bool" where
  "op_run_inv g s = (topo_order (og_deps g) (or_ran s) \<and> set (or_ran s) \<subseteq> set (op_ptrs g)
     \<and> (\<forall>p. or_future s p = (if p \<in> set (or_ran s) then Some (Inr ()) else None))
     \<and> (\<forall>p \<in> set (or_ran s). op_final (Op_Status (or_exec s) p)))"

lemma op_step_inv:
  assumes "op_step name_of body monitor g s s'" "list_all quiet (og_aspects g)" "op_run_inv g s"
  shows "op_run_inv g s' \<and> (\<exists>p. or_ran s' = or_ran s @ [p])"
  using assms(1)
proof cases
  case (run p f elapsed r x')
  note q = RunOp_quiet [OF assms(2) run(5)]
  have "p \<notin> set (or_ran s)" "set (og_deps g p) \<subseteq> set (or_ran s)"
    using run(3,4) assms(3) by (auto simp: op_run_inv_def list_all_iff split: if_splits)
  moreover have "p \<in> set (op_ptrs g)" using run(2) by (force simp: op_ptrs_def)
  moreover have "op_final (Op_Status x' u)" if "u \<in> insert p (set (or_ran s))" for u
    using that q assms(3) by (cases "u = p") (auto simp: op_run_inv_def op_final_def)
  ultimately show ?thesis
    using assms(3) q unfolding run(1) by (auto simp: op_run_inv_def topo_order_snoc split: if_splits)
next
  case (poison p f d e)
  then show ?thesis using assms(3) by (auto simp: op_run_inv_def split: if_splits)
qed

lemma op_reach_run_inv:
  "op_run_reach name_of body monitor g x0 s \<Longrightarrow> list_all quiet (og_aspects g) \<Longrightarrow> op_run_inv g s"
proof (induction rule: op_run_reach.induct)
  case init
  then show ?case by (simp add: op_run_inv_def op_run_init_def)
qed (use op_step_inv in blast)

lemma op_stuck_complete:
  assumes inv: "op_run_inv g s" and g: "op_inv g" "acyclic (dep_rel (og_deps g) (set (op_ptrs g)))"
    and stuck: "\<nexists>s'. op_step name_of body monitor g s s'"
  shows "set (or_ran s) = set (op_ptrs g)"
proof (rule ccontr)
  let ?R = "set (op_ptrs g) - set (or_ran s)"
  assume "set (or_ran s) \<noteq> set (op_ptrs g)"
  then have "?R \<noteq> {}" using inv by (auto simp: op_run_inv_def)
  moreover have "\<exists>d \<in> set (og_deps g p). d \<in> ?R" if p: "p \<in> ?R" for p
  proof (rule ccontr)
    assume "\<not> (\<exists>d \<in> set (og_deps g p). d \<in> ?R)"
    then have "list_all (\<lambda>d. or_future s d = Some (Inr ())) (og_deps g p)"
      using inv g(1) by (auto simp: op_run_inv_def op_inv_def list_all_iff)
    moreover have "or_future s p = None" using inv p by (simp add: op_run_inv_def)
    moreover obtain f where "(p, f) \<in> set (og_ops g)" using p by (auto simp: op_ptrs_def)
    ultimately show False using stuck op_step.run by (metis prod.collapse)
  qed
  ultimately show False using stuck_cycle [of "set (op_ptrs g)" ?R "og_deps g"] g(2) by blast
qed

lemma op_step_wf:
  assumes "list_all quiet (og_aspects g)" "op_inv g"
  shows "wf {(s', s). op_run_reach name_of body monitor g x0 s \<and> op_step name_of body monitor g s s'}"
proof (rule wf_subset)
  show "wf (measure (\<lambda>s. length (op_ptrs g) - length (or_ran s)))" by simp
  show "{(s', s). op_run_reach name_of body monitor g x0 s \<and> op_step name_of body monitor g s s'}
      \<subseteq> measure (\<lambda>s. length (op_ptrs g) - length (or_ran s))"
  proof clarify
    fix s' s assume s: "op_run_reach name_of body monitor g x0 s" "op_step name_of body monitor g s s'"
    note i = op_step_inv [OF s(2) assms(1) op_reach_run_inv [OF s(1) assms(1)]]
    then have "distinct (or_ran s')" "set (or_ran s') \<subseteq> set (op_ptrs g)"
      using topo_order_distinct by (auto simp: op_run_inv_def)
    then have "length (or_ran s') \<le> length (op_ptrs g)"
      by (metis card_length card_mono distinct_card List.finite_set order_trans)
    then show "(s', s) \<in> measure (\<lambda>s. length (op_ptrs g) - length (or_ran s))" using i by auto
  qed
qed


lemma op_run_complete:
  assumes "op_run_inv g s"
  shows "op_execute_returns g s \<longleftrightarrow> set (or_ran s) = set (op_ptrs g)"
proof -
  have f: "or_future s p = (if p \<in> set (or_ran s) then Some (Inr ()) else None)" for p
    using assms by (simp add: op_run_inv_def)
  have "set (or_ran s) \<subseteq> set (op_ptrs g)" using assms by (simp add: op_run_inv_def)
  then show ?thesis by (auto simp: op_execute_returns_def f list_all_iff list_ex_iff)
qed

lemma op_complete_stuck:
  assumes "op_run_inv g s" "set (or_ran s) = set (op_ptrs g)" "op_step name_of body monitor g s s'"
  shows False
proof -
  have "or_future s p \<noteq> None" if "(p, f) \<in> set (og_ops g)" for p f
  proof -
    have "p \<in> set (or_ran s)" using that assms(2) by (force simp: op_ptrs_def)
    then show ?thesis using assms(1) by (simp add: op_run_inv_def)
  qed
  with assms(3) show False by cases blast+
qed

section \<open>Properties\<close>


text \<open>Two ops, the second after the first; the first one fails.\<close>

definition demo_run_graph :: "(bool, (bool, unit) OpAspect) OpGraph" where
  "demo_run_graph = \<lparr>og_ops = [(0, True), (1, False)], og_by_id = [(''b'', 1), (''a'', 0)], og_deps = (\<lambda>_. [])(1 := [0]),
     og_aspects = [OpAspect_default], og_order = [], og_compiled = False\<rparr>"

definition demo_body :: "bool \<Rightarrow> unit \<Rightarrow> unit \<times> exn option" where
  "demo_body f d = (d, if f then Some (RuntimeError ''x'') else None)"

definition demo_exec :: "unit op_exec" where
  "demo_exec = \<lparr>ox_status = [], ox_data = (), ox_events = []\<rparr>"

lemma demo_run_reach: "op_reach (\<lambda>_. []) demo_run_graph"
proof -
  let ?g1 = "OpGraph_new\<lparr>og_by_id := [(''a'', 0)], og_ops := [(0, True)]\<rparr> :: (bool, (bool, unit) OpAspect) OpGraph"
  let ?g2 = "?g1\<lparr>og_by_id := [(''b'', 1), (''a'', 0)], og_ops := [(0, True), (1, False)]\<rparr>"
  let ?g3 = "?g2\<lparr>og_deps := (\<lambda>_. [])(1 := [0])\<rparr>"
  have "op_reach (\<lambda>_. []) ?g1"
    by (rule op_reach.add [OF op_reach.new, of 0 _ True "''a''"]) (simp_all add: AddOp_def OpGraph_new_def op_ptrs_def)
  then have "op_reach (\<lambda>_. []) ?g2"
    by (rule op_reach.add [of _ _ 1 False "''b''"]) (simp_all add: AddOp_def OpGraph_new_def op_ptrs_def)
  then have "op_reach (\<lambda>_. []) ?g3"
    by (rule op_reach.depends [of _ _ "''a''" "''b''"]) (simp add: DependsOn_def OpGraph_new_def)
  then have "op_reach (\<lambda>_. []) (AddAspect (Some OpAspect_default) ?g3)" by (rule op_reach.aspect)
  then show ?thesis by (simp add: AddAspect_def OpGraph_new_def demo_run_graph_def)
qed


definition throwing_aspect :: "(bool, unit) OpAspect" where
  "throwing_aspect = OpAspect_default\<lparr>as_OnBefore := (\<lambda>f d. (d, if f then Some (RuntimeError ''hook'') else None))\<rparr>"

definition early_graph :: "(bool, (bool, unit) OpAspect) OpGraph" where
  "early_graph = \<lparr>og_ops = [(0, True), (1, False)], og_by_id = [(''b'', 1), (''a'', 0)], og_deps = (\<lambda>_. []),
     og_aspects = [throwing_aspect], og_order = [], og_compiled = False\<rparr>"

text \<open>A hook that throws breaks the promise to block until every op finished: \<^verbatim>\<open>Execute\<close> can return, without an exception, while
  an op that does not depend on the failed one has not run yet and still will, on the data the caller may now release.\<close>

theorem OpExecutor_returns_early:
  "\<exists>s s'. op_run_reach (\<lambda>_. []) demo_body True early_graph demo_exec s \<and> op_execute_returns early_graph s \<and>
     or_ran s = [0] \<and> op_step (\<lambda>_. []) demo_body True early_graph s s' \<and> or_ran s' = [0, 1]"
proof -
  obtain r x where r: "RunOp (\<lambda>_. []) demo_body True 0 [throwing_aspect] 0 True demo_exec = (r, x)" by fastforce
  then have e: "\<exists>e. r = Inl e"
    by (auto simp: RunOp_def run_body_def throwing_aspect_def OpAspect_default_def Let_def)
  let ?s = "\<lparr>or_exec = x, or_future = (\<lambda>_. None)(0 := Some r), or_ran = [0]\<rparr>"
  have s: "op_step (\<lambda>_. []) demo_body True early_graph (op_run_init demo_exec) ?s"
    using op_step.run [of 0 True early_graph "op_run_init demo_exec" "\<lambda>_. []" demo_body True 0 r x] r
    by (simp add: early_graph_def op_run_init_def)
  obtain r' x' where r': "RunOp (\<lambda>_. []) demo_body True 0 [throwing_aspect] 1 False x = (r', x')" by fastforce
  have "op_step (\<lambda>_. []) demo_body True early_graph ?s
      \<lparr>or_exec = x', or_future = (or_future ?s)(1 := Some r'), or_ran = [0, 1]\<rparr>"
    using op_step.run [of 1 False early_graph ?s "\<lambda>_. []" demo_body True 0 r' x'] r' by (simp add: early_graph_def)
  moreover have "op_execute_returns early_graph ?s"
    using e by (auto simp: op_execute_returns_def early_graph_def op_ptrs_def)
  moreover have "op_run_reach (\<lambda>_. []) demo_body True early_graph demo_exec ?s"
    using op_run_reach.step [OF op_run_reach.init s] .
  ultimately show ?thesis by (intro exI [of _ ?s] exI conjI) auto
qed

end
