(* ===== verification/DagStats.thy ===== *)
theory DagStats
  imports Executor
begin

text \<open>
  \<^verbatim>\<open>StatsCollector\<close>: the monitor that turns the executor's node events back into per-node records.  The round trip from
  a node's outcome through the event's string attributes to the record is proved for every
  clock value the code can hold.  Printing of floating point numbers is an argument of the summary.
\<close>

section \<open>Model\<close>

record NodeRunStats =
  ns_id :: string
  ns_type :: string
  ns_status :: NodeStatus
  ns_elapsed :: int
  ns_started_at :: int

record ExecutionStats =
  es_total_elapsed :: int
  es_nodes :: "NodeRunStats list"

definition ExecutionStats_new :: ExecutionStats where
  "ExecutionStats_new = \<lparr>es_total_elapsed = 0, es_nodes = []\<rparr>"

definition read_ns :: "Event \<Rightarrow> string \<Rightarrow> int res" where
  "read_ns e k = (case Event_Get e k of None \<Rightarrow> Ok 0 | Some s \<Rightarrow> stoll s)"

definition status_of_string :: "string \<Rightarrow> NodeStatus" where
  "status_of_string s = (if s = ''failed'' then kFailed else if s = ''fallback'' then kFallback
     else if s = ''skipped'' then kSkipped else kSuccess)"

definition HandleNodeEvent :: "Event \<Rightarrow> ExecutionStats \<Rightarrow> ExecutionStats res" where
  "HandleNodeEvent e st = (case Event_Get e ''status'' of
     None \<Rightarrow> Ok st
   | Some s \<Rightarrow>
       if s = ''running'' then Ok st
       else bindR (read_ns e ''elapsed_ns'') (\<lambda>elapsed.
            bindR (read_ns e ''started_ns'') (\<lambda>started.
              Ok (st\<lparr>es_nodes := es_nodes st @ [\<lparr>ns_id = ev_subject e,
                ns_type = (case Event_Get e ''type'' of Some t \<Rightarrow> t | None \<Rightarrow> []),
                ns_status = status_of_string s, ns_elapsed = elapsed, ns_started_at = started\<rparr>]\<rparr>))))"

definition StatsCollector_Emit :: "Event \<Rightarrow> ExecutionStats \<Rightarrow> ExecutionStats res" where
  "StatsCollector_Emit e st =
    (if ev_source e \<noteq> ''dag'' then Ok st
     else if take 5 (ev_action e) = ''node.'' then HandleNodeEvent e st else Ok st)"

definition StatsCollector_Reset :: "ExecutionStats \<Rightarrow> ExecutionStats" where
  "StatsCollector_Reset st = st\<lparr>es_nodes := [], es_total_elapsed := 0\<rparr>"

text \<open>\<^verbatim>\<open>duration_cast\<close> truncates towards zero; \<open>fixed2\<close> prints with two decimals.\<close>

definition FmtNs :: "(real \<Rightarrow> string) \<Rightarrow> int \<Rightarrow> string" where
  "FmtNs fixed2 ns =
    (let us = real_of_int (sgn ns * (\<bar>ns\<bar> div 1000)) / 1000 in
     if us \<ge> 1000 then fixed2 (us / 1000) @ ''ms'' else fixed2 us @ ''us'')"

definition stats_line :: "(real \<Rightarrow> string) \<Rightarrow> NodeRunStats \<Rightarrow> string" where
  "stats_line fixed2 n = ''  ['' @ NodeStatus_ToString (ns_status n) @ ''] '' @ ns_id n @ '' (start=''
     @ FmtNs fixed2 (ns_started_at n) @ '', elapsed='' @ FmtNs fixed2 (ns_elapsed n) @ '')'' @ [CHR 0x0A]"

definition ExecutionStats_summary :: "(real \<Rightarrow> string) \<Rightarrow> ExecutionStats \<Rightarrow> string" where
  "ExecutionStats_summary fixed2 st =
    ''--- dag run stats (nodes='' @ int_to_string (int (length (es_nodes st))) @ '', total=''
      @ FmtNs fixed2 (es_total_elapsed st) @ '') ---'' @ [CHR 0x0A]
      @ concat (map (stats_line fixed2) (sort_key ns_started_at (es_nodes st)))"

section \<open>Reading the attributes back\<close>

lemma NodeEvent_fields:
  "ev_source (NodeEvent n a s el st err) = ''dag''" "ev_action (NodeEvent n a s el st err) = a"
  "ev_subject (NodeEvent n a s el st err) = nd_id n" "Event_Get (NodeEvent n a s el st err) ''status'' = Some s"
  "Event_Get (NodeEvent n a s el st err) ''type'' = Some (nd_type n)"
  "Event_Get (NodeEvent n a s el st err) ''elapsed_ns'' = (if el \<ge> 0 then Some (int_to_string el) else None)"
  "Event_Get (NodeEvent n a s el st err) ''started_ns'' = Some (int_to_string st)"
  by (simp_all add: NodeEvent_def Let_def Event_Get_def attr_def attr_ns_def Event_new_def)

lemma StatsCollector_NodeEvent:
  assumes "take 5 a = ''node.''" "s \<noteq> ''running''" "int64 el" "int64 st" "el \<ge> 0"
  shows "StatsCollector_Emit (NodeEvent n a s el st err) c = Inr (c\<lparr>es_nodes := es_nodes c @
    [\<lparr>ns_id = nd_id n, ns_type = nd_type n, ns_status = status_of_string s, ns_elapsed = el, ns_started_at = st\<rparr>]\<rparr>)"
  using assms by (simp add: StatsCollector_Emit_def HandleNodeEvent_def NodeEvent_fields read_ns_def stoll_int_to_string)

text \<open>The divisor is applied once too often: what is labelled microseconds is milliseconds.\<close>

lemma FmtNs_mislabels: "FmtNs fixed2 5000000 = fixed2 5 @ ''us''" "FmtNs fixed2 2000000000 = fixed2 2 @ ''ms''"
  by (simp_all add: FmtNs_def Let_def)

section \<open>Properties\<close>

text \<open>C9. What the executor reports, the collector records: the terminal event of a node outcome adds exactly one record, with
  the node's id, type, final status and both times read back exactly; the skip event likewise;
  the start event adds none.\<close>

theorem StatsCollector_records_outcome:
  assumes "int64 elapsed" "int64 started" "elapsed \<ge> 0"
  shows "StatsCollector_Emit (outcome_event n elapsed started oc) c = Inr (c\<lparr>es_nodes := es_nodes c @
      [\<lparr>ns_id = nd_id n, ns_type = nd_type n, ns_status = outcome_status oc, ns_elapsed = elapsed, ns_started_at = started\<rparr>]\<rparr>) \<and>
    StatsCollector_Emit (NodeEvent n ''node.skipped'' ''skipped'' 0 0 []) c = Inr (c\<lparr>es_nodes := es_nodes c @
      [\<lparr>ns_id = nd_id n, ns_type = nd_type n, ns_status = kSkipped, ns_elapsed = 0, ns_started_at = 0\<rparr>]\<rparr>) \<and>
    StatsCollector_Emit (NodeEvent n ''node.start'' ''running'' (- 1) started []) c = Inr c"
proof (intro conjI)
  show "StatsCollector_Emit (outcome_event n elapsed started oc) c = Inr (c\<lparr>es_nodes := es_nodes c @
      [\<lparr>ns_id = nd_id n, ns_type = nd_type n, ns_status = outcome_status oc, ns_elapsed = elapsed, ns_started_at = started\<rparr>]\<rparr>)"
  proof (cases oc)
    case (Fails e f)
    then show ?thesis
      by (cases f) (use assms in \<open>simp_all add: StatsCollector_NodeEvent status_of_string_def\<close>)
  qed (use assms in \<open>simp add: StatsCollector_NodeEvent status_of_string_def\<close>)
qed (simp_all add: StatsCollector_NodeEvent status_of_string_def int64_def StatsCollector_Emit_def HandleNodeEvent_def NodeEvent_fields
    read_ns_def stoll_int_to_string)

theorem StatsCollector_records_outcome_witness:
  "StatsCollector_Emit (outcome_event (SetIdentity ''a'' ''t'' (Node_new ())) 7 3 (Fails (RuntimeError ''x'') Recovers)) ExecutionStats_new
    = Inr \<lparr>es_total_elapsed = 0, es_nodes =
        [\<lparr>ns_id = ''a'', ns_type = ''t'', ns_status = kFallback, ns_elapsed = 7, ns_started_at = 3\<rparr>]\<rparr>"
  using StatsCollector_records_outcome [of 7 3 "SetIdentity ''a'' ''t'' (Node_new ())" "Fails (RuntimeError ''x'') Recovers"
      ExecutionStats_new]
  by (simp add: int64_def ExecutionStats_new_def SetIdentity_def)

end
