(* ===== verification/Contexts.thy ===== *)
theory Contexts
  imports Prelude
begin

text \<open>
  The data bags that nodes and pipeline steps share: \<^verbatim>\<open>lark::DefaultContext\<close> with its typed layer of \<^verbatim>\<open>context.h\<close>, and
  \<^verbatim>\<open>coro::Context\<close>.  \<open>'t\<close> is the type index stored with a value, \<open>'v\<close> the value behind the pointer.  Neither locks:
  the documented convention is that concurrent code writes distinct keys, and the theorem shows
  that under it every interleaving leaves the same contents.
\<close>

section \<open>Model: DefaultContext\<close>

datatype PoolSlot = SlotCompute | SlotIo | SlotBackground

record ('t, 'v, 'p) DefaultContext =
  dc_data :: "(string \<times> 't \<times> 'v) list"
  dc_domains :: "('t \<times> 'v) list"
  dc_pools :: "PoolSlot \<Rightarrow> 'p option"

definition DefaultContext_new :: "('t, 'v, 'p) DefaultContext" where
  "DefaultContext_new = \<lparr>dc_data = [], dc_domains = [], dc_pools = (\<lambda>_. None)\<rparr>"

definition SetVoid :: "string \<Rightarrow> 'v \<Rightarrow> 't \<Rightarrow> ('t, 'v, 'p) DefaultContext \<Rightarrow> ('t, 'v, 'p) DefaultContext" where
  "SetVoid key v t c = c\<lparr>dc_data := AList.update key (t, v) (dc_data c)\<rparr>"

definition GetVoid :: "('t, 'v, 'p) DefaultContext \<Rightarrow> string \<Rightarrow> 't \<Rightarrow> 'v option" where
  "GetVoid c key t = (case map_of (dc_data c) key of
     None \<Rightarrow> None
   | Some (t', v) \<Rightarrow> if t' \<noteq> t then None else Some v)"

definition DefaultContext_Has :: "('t, 'v, 'p) DefaultContext \<Rightarrow> string \<Rightarrow> 't \<Rightarrow> bool" where
  "DefaultContext_Has c key t = (case map_of (dc_data c) key of None \<Rightarrow> False | Some (t', _) \<Rightarrow> t' = t)"

definition DefaultContext_Erase :: "string \<Rightarrow> ('t, 'v, 'p) DefaultContext \<Rightarrow> ('t, 'v, 'p) DefaultContext" where
  "DefaultContext_Erase key c = c\<lparr>dc_data := AList.delete key (dc_data c)\<rparr>"

definition SetDomainVoid :: "'t \<Rightarrow> 'v \<Rightarrow> ('t, 'v, 'p) DefaultContext \<Rightarrow> ('t, 'v, 'p) DefaultContext" where
  "SetDomainVoid t v c = c\<lparr>dc_domains := AList.update t v (dc_domains c)\<rparr>"

definition GetDomainVoid :: "('t, 'v, 'p) DefaultContext \<Rightarrow> 't \<Rightarrow> 'v option" where
  "GetDomainVoid c t = map_of (dc_domains c) t"

definition InstallPool :: "PoolSlot \<Rightarrow> 'p option \<Rightarrow> ('t, 'v, 'p) DefaultContext \<Rightarrow> ('t, 'v, 'p) DefaultContext" where
  "InstallPool k p c = c\<lparr>dc_pools := (dc_pools c)(k := p)\<rparr>"

definition GetPool :: "('t, 'v, 'p) DefaultContext \<Rightarrow> PoolSlot \<Rightarrow> 'p res" where
  "GetPool c k = (case dc_pools c k of
     None \<Rightarrow> Throw (RuntimeError ''DefaultContext::GetPool: pool not installed for requested kind'')
   | Some p \<Rightarrow> Ok p)"

text \<open>The typed layer: reading a missing key, or one of another type, throws.\<close>

definition typed_Set :: "string \<Rightarrow> 't \<Rightarrow> 'v \<Rightarrow> ('t, 'v, 'p) DefaultContext \<Rightarrow> ('t, 'v, 'p) DefaultContext" where
  "typed_Set key t v c = SetVoid key v t c"

definition typed_Get :: "('t, 'v, 'p) DefaultContext \<Rightarrow> string \<Rightarrow> 't \<Rightarrow> 'v res" where
  "typed_Get c key t = (case GetVoid c key t of
     Some v \<Rightarrow> Ok v
   | None \<Rightarrow> Throw (OutOfRange (''IContext::Get: missing key '' @ [CHR 0x27] @ key @ [CHR 0x27])))"

definition typed_Has :: "('t, 'v, 'p) DefaultContext \<Rightarrow> string \<Rightarrow> 't \<Rightarrow> bool" where
  "typed_Has c key t = DefaultContext_Has c key t"

definition Require :: "('t, 'v, 'p) DefaultContext \<Rightarrow> string \<Rightarrow> 't \<Rightarrow> 'v res" where
  "Require c key t = typed_Get c key t"

definition ProvideDomain :: "'t \<Rightarrow> 'v \<Rightarrow> ('t, 'v, 'p) DefaultContext \<Rightarrow> 'v \<times> ('t, 'v, 'p) DefaultContext" where
  "ProvideDomain t v c = (v, SetDomainVoid t v c)"

definition Domain_of :: "('t \<Rightarrow> string) \<Rightarrow> ('t, 'v, 'p) DefaultContext \<Rightarrow> 't \<Rightarrow> 'v res" where
  "Domain_of tname c t = (case GetDomainVoid c t of
     Some v \<Rightarrow> Ok v
   | None \<Rightarrow> Throw (OutOfRange (''IContext::Domain: missing '' @ [CHR 0x27] @ tname t @ [CHR 0x27])))"

definition RequireDomain :: "('t \<Rightarrow> string) \<Rightarrow> ('t, 'v, 'p) DefaultContext \<Rightarrow> 't \<Rightarrow> 'v res" where
  "RequireDomain tname c t = Domain_of tname c t"

section \<open>Model: coro::Context\<close>

text \<open>\<^verbatim>\<open>Get\<close> does not compare the stored type with the requested one; the model returns both.\<close>

type_synonym ('t, 'v) coro_context = "(string \<times> 'v \<times> 't) list"

definition Context_Set :: "string \<Rightarrow> 't \<Rightarrow> 'v \<Rightarrow> ('t, 'v) coro_context \<Rightarrow> ('t, 'v) coro_context" where
  "Context_Set key t v c = AList.update key (v, t) c"

definition Context_Get :: "('t, 'v) coro_context \<Rightarrow> string \<Rightarrow> ('v \<times> 't) res" where
  "Context_Get c key = (case map_of c key of
     None \<Rightarrow> Throw (OutOfRange (''Context: missing field '' @ [CHR 0x27] @ key @ [CHR 0x27]))
   | Some f \<Rightarrow> Ok f)"

definition Context_Has :: "('t, 'v) coro_context \<Rightarrow> string \<Rightarrow> 't \<Rightarrow> bool" where
  "Context_Has c key t = (case map_of c key of None \<Rightarrow> False | Some (_, t') \<Rightarrow> t' = t)"

definition Context_Erase :: "string \<Rightarrow> ('t, 'v) coro_context \<Rightarrow> ('t, 'v) coro_context" where
  "Context_Erase key c = AList.delete key c"

definition Context_Clear :: "('t, 'v) coro_context \<Rightarrow> ('t, 'v) coro_context" where
  "Context_Clear c = []"

definition Context_size :: "('t, 'v) coro_context \<Rightarrow> nat" where
  "Context_size c = length c"

text \<open>A reader that asks \<^verbatim>\<open>Has\<close> before \<^verbatim>\<open>Get\<close>.\<close>

definition checked_Get :: "('t, 'v) coro_context \<Rightarrow> string \<Rightarrow> 't \<Rightarrow> 'v option" where
  "checked_Get c key t = (if Context_Has c key t then (case Context_Get c key of Inr (v, _) \<Rightarrow> Some v | Inl _ \<Rightarrow> None) else None)"

section \<open>The contract of a data bag\<close>

datatype ('t, 'v) bag_write = Write string 't 'v | Erase string

fun write_key :: "('t, 'v) bag_write \<Rightarrow> string" where
  "write_key (Write k t v) = k"
| "write_key (Erase k) = k"

locale data_bag =
  fixes put :: "string \<Rightarrow> 't \<Rightarrow> 'v \<Rightarrow> 'c \<Rightarrow> 'c" and remove :: "string \<Rightarrow> 'c \<Rightarrow> 'c"
    and read :: "'c \<Rightarrow> string \<Rightarrow> 't \<Rightarrow> 'v option" and has :: "'c \<Rightarrow> string \<Rightarrow> 't \<Rightarrow> bool"
  assumes read_put: "read (put k t v c) k' t' = (if k = k' then if t = t' then Some v else None else read c k' t')"
    and read_remove: "read (remove k c) k' t' = (if k = k' then None else read c k' t')"
    and has_read: "has c k t \<longleftrightarrow> read c k t \<noteq> None"
begin

fun apply_write :: "('t, 'v) bag_write \<Rightarrow> 'c \<Rightarrow> 'c" where
  "apply_write (Write k t v) c = put k t v c"
| "apply_write (Erase k) c = remove k c"

lemma read_other: "write_key w \<noteq> k \<Longrightarrow> read (apply_write w c) k t = read c k t"
  by (cases w) (simp_all add: read_put read_remove)

lemma read_same_key: "read (apply_write w c) (write_key w) t = read (apply_write w c') (write_key w) t"
  by (cases w) (simp_all add: read_put read_remove)

lemma read_writes:
  "read (fold apply_write ws c) k t =
    (case filter (\<lambda>w. write_key w = k) (rev ws) of [] \<Rightarrow> read c k t | w # _ \<Rightarrow> read (apply_write w c) k t)"
proof (induction ws rule: rev_induct)
  case (snoc w ws)
  show ?case
  proof (cases "write_key w = k")
    case True
    then show ?thesis using read_same_key [of w "fold apply_write ws c" t c] by simp
  qed (use snoc in \<open>simp add: read_other\<close>)
qed simp

text \<open>Two activities that write disjoint keys: the interleaving cannot be observed.\<close>

lemma shuffle_read:
  assumes "ws \<in> shuffles xs ys" "write_key ` set xs \<inter> write_key ` set ys = {}"
  shows "read (fold apply_write ws c) k t = read (fold apply_write (xs @ ys) c) k t"
proof -
  have f: "filter P ws \<in> shuffles (filter P xs) (filter P ys)" for P
    using assms(1) filter_shuffles [of P xs ys] by blast
  have "filter (\<lambda>w. write_key w = k) ws = filter (\<lambda>w. write_key w = k) (xs @ ys)"
  proof (cases "k \<in> write_key ` set xs")
    case True
    then have e: "filter (\<lambda>w. write_key w = k) ys = []" using assms(2) by (auto simp: filter_empty_conv)
    then show ?thesis using f [of "\<lambda>w. write_key w = k"] by simp
  next
    case False
    then have e: "filter (\<lambda>w. write_key w = k) xs = []" by (auto simp: filter_empty_conv)
    then show ?thesis using f [of "\<lambda>w. write_key w = k"] by simp
  qed
  then show ?thesis by (simp only: read_writes rev_filter [symmetric])
qed

end

interpretation default_context: data_bag typed_Set DefaultContext_Erase
    "GetVoid :: ('t, 'v, 'p) DefaultContext \<Rightarrow> string \<Rightarrow> 't \<Rightarrow> 'v option" typed_Has
  by unfold_locales
    (auto simp: typed_Set_def SetVoid_def DefaultContext_Erase_def GetVoid_def typed_Has_def DefaultContext_Has_def split: option.splits)

interpretation coro_context: data_bag Context_Set Context_Erase
    "checked_Get :: ('t, 'v) coro_context \<Rightarrow> string \<Rightarrow> 't \<Rightarrow> 'v option" Context_Has
  by unfold_locales
    (auto simp: Context_Set_def Context_Erase_def checked_Get_def Context_Get_def Context_Has_def split: option.splits)

section \<open>Properties\<close>

text \<open>The writes of a log applied to each context.\<close>

fun context_write :: "('t, 'v) bag_write \<Rightarrow> ('t, 'v, 'p) DefaultContext \<Rightarrow> ('t, 'v, 'p) DefaultContext" where
  "context_write (Write k t v) c = typed_Set k t v c"
| "context_write (Erase k) c = DefaultContext_Erase k c"

fun coro_write :: "('t, 'v) bag_write \<Rightarrow> ('t, 'v) coro_context \<Rightarrow> ('t, 'v) coro_context" where
  "coro_write (Write k t v) c = Context_Set k t v c"
| "coro_write (Erase k) c = Context_Erase k c"

lemma context_write_apply: "context_write = default_context.apply_write"
proof (intro ext)
  fix w and c :: "('a, 'b, 'c) DefaultContext"
  show "context_write w c = default_context.apply_write w c" by (cases w) simp_all
qed

lemma coro_write_apply: "coro_write = coro_context.apply_write"
proof (intro ext)
  fix w and c :: "('a, 'b) coro_context"
  show "coro_write w c = coro_context.apply_write w c" by (cases w) simp_all
qed



end
