(* ===== verification/AsyncEvent.thy ===== *)
theory AsyncEvent
  imports Prelude
begin

text \<open>
  \<^verbatim>\<open>coro::AsyncEvent\<close>: the lock-free one-shot event.  The atomic word is a null pointer, the event's own address (set) or the
  head of the intrusive list of awaiters.  Every rule is one atomic access of one thread; any number of coroutines
  await and any number of threads call \<^verbatim>\<open>Set\<close>.  The weak compare-and-exchange may fail
  spuriously.
\<close>

section \<open>Model\<close>

datatype ptr = PNull | PEvent | PAwaiter nat

text \<open>Where a coroutine stands in \<^verbatim>\<open>co_await\<close>: before \<^verbatim>\<open>await_ready\<close>, after it answered false, in the loop of
  \<^verbatim>\<open>await_suspend\<close> with the word it has loaded, suspended on the list, resumed.\<close>

datatype awaiter = AIdle | AChecked | ATrying ptr | AWaiting | AResumed

text \<open>Where a thread stands in \<^verbatim>\<open>Set\<close>: before the exchange, walking the list it took, returned.\<close>

datatype setter = SIdle | SWalking ptr | SDone

record event_sys =
  sy_state :: ptr
  sy_next :: "nat \<Rightarrow> ptr"
  sy_awaiter :: "nat \<Rightarrow> awaiter"
  sy_setter :: "nat \<Rightarrow> setter"
  sy_resumed :: "nat \<Rightarrow> nat"

definition AsyncEvent_new :: event_sys where
  "AsyncEvent_new = \<lparr>sy_state = PNull, sy_next = (\<lambda>_. PNull), sy_awaiter = (\<lambda>_. AIdle), sy_setter = (\<lambda>_. SIdle), sy_resumed = (\<lambda>_. 0)\<rparr>"

definition IsSet :: "event_sys \<Rightarrow> bool" where
  "IsSet s = (sy_state s = PEvent)"

definition resume :: "nat \<Rightarrow> event_sys \<Rightarrow> event_sys" where
  "resume a s = s\<lparr>sy_awaiter := (sy_awaiter s)(a := AResumed), sy_resumed := (sy_resumed s)(a := sy_resumed s a + 1)\<rparr>"

text \<open>\<^verbatim>\<open>Reset\<close>: back to unset if set, otherwise nothing.\<close>

definition AsyncEvent_Reset :: "event_sys \<Rightarrow> event_sys" where
  "AsyncEvent_Reset s = (if sy_state s = PEvent then s\<lparr>sy_state := PNull\<rparr> else s)"

inductive await_step :: "nat \<Rightarrow> event_sys \<Rightarrow> event_sys \<Rightarrow> bool" for a where
  ready: "sy_awaiter s a = AIdle \<Longrightarrow> IsSet s \<Longrightarrow> await_step a s (resume a s)"
| not_ready: "sy_awaiter s a = AIdle \<Longrightarrow> \<not> IsSet s \<Longrightarrow> await_step a s (s\<lparr>sy_awaiter := (sy_awaiter s)(a := AChecked)\<rparr>)"
| load: "sy_awaiter s a = AChecked \<Longrightarrow> await_step a s (s\<lparr>sy_awaiter := (sy_awaiter s)(a := ATrying (sy_state s))\<rparr>)"
| became_set: "sy_awaiter s a = ATrying PEvent \<Longrightarrow> await_step a s (resume a s)"
| push: "sy_awaiter s a = ATrying old \<Longrightarrow> old \<noteq> PEvent \<Longrightarrow> sy_state s = old \<Longrightarrow>
    await_step a s (s\<lparr>sy_next := (sy_next s)(a := old), sy_state := PAwaiter a, sy_awaiter := (sy_awaiter s)(a := AWaiting)\<rparr>)"
| retry: "sy_awaiter s a = ATrying old \<Longrightarrow> old \<noteq> PEvent \<Longrightarrow>
    await_step a s (s\<lparr>sy_next := (sy_next s)(a := old), sy_awaiter := (sy_awaiter s)(a := ATrying (sy_state s))\<rparr>)"

inductive set_step :: "nat \<Rightarrow> event_sys \<Rightarrow> event_sys \<Rightarrow> bool" for t where
  exchange: "sy_setter s t = SIdle \<Longrightarrow> set_step t s (s\<lparr>sy_state := PEvent,
    sy_setter := (sy_setter s)(t := (if sy_state s = PEvent then SDone else SWalking (sy_state s)))\<rparr>)"
| resume_one: "sy_setter s t = SWalking (PAwaiter a) \<Longrightarrow>
    set_step t s (resume a (s\<lparr>sy_setter := (sy_setter s)(t := SWalking (sy_next s a))\<rparr>))"
| finished: "sy_setter s t = SWalking PNull \<Longrightarrow> set_step t s (s\<lparr>sy_setter := (sy_setter s)(t := SDone)\<rparr>)"

inductive event_reach :: "event_sys \<Rightarrow> bool" where
  new: "event_reach AsyncEvent_new"
| await: "event_reach s \<Longrightarrow> await_step a s s' \<Longrightarrow> event_reach s'"
| setting: "event_reach s \<Longrightarrow> set_step t s s' \<Longrightarrow> event_reach s'"

section \<open>Invariant\<close>

text \<open>The list a pointer heads.\<close>

fun chain :: "(nat \<Rightarrow> ptr) \<Rightarrow> ptr \<Rightarrow> nat list \<Rightarrow> bool" where
  "chain nx p [] = (p = PNull)"
| "chain nx p (a # ws) = (p = PAwaiter a \<and> chain nx (nx a) ws)"

text \<open>\<open>ws\<close>: awaiters still reachable from the word; \<open>vs\<close>: those the one walking thread has yet to resume.\<close>

definition event_lists :: "event_sys \<Rightarrow> nat list \<Rightarrow> nat list \<Rightarrow> bool" where
  "event_lists s ws vs =
    ((if sy_state s = PEvent then ws = [] else chain (sy_next s) (sy_state s) ws)
     \<and> (if \<exists>t p. sy_setter s t = SWalking p
        then \<exists>t p. sy_setter s t = SWalking p \<and> chain (sy_next s) p vs \<and> (\<forall>t' p'. sy_setter s t' = SWalking p' \<longrightarrow> t' = t)
        else vs = [])
     \<and> distinct (ws @ vs) \<and> (\<forall>a. sy_awaiter s a = AWaiting \<longleftrightarrow> a \<in> set (ws @ vs)))"

definition event_inv :: "event_sys \<Rightarrow> bool" where
  "event_inv s =
    ((\<exists>ws vs. event_lists s ws vs)
     \<and> (\<forall>a. sy_resumed s a = (if sy_awaiter s a = AResumed then 1 else 0))
     \<and> (\<forall>a. sy_state s \<noteq> PEvent \<longrightarrow> sy_awaiter s a \<noteq> AResumed \<and> sy_awaiter s a \<noteq> ATrying PEvent)
     \<and> (\<forall>t. sy_state s \<noteq> PEvent \<longrightarrow> sy_setter s t = SIdle))"

lemma chain_other: "a \<notin> set ws \<Longrightarrow> chain (nx(a := p)) q ws = chain nx q ws"
  by (induction ws arbitrary: q) auto

lemma resume_fields [simp]:
  "sy_state (resume a s) = sy_state s" "sy_next (resume a s) = sy_next s" "sy_setter (resume a s) = sy_setter s"
  "sy_awaiter (resume a s) = (sy_awaiter s)(a := AResumed)" "sy_resumed (resume a s) = (sy_resumed s)(a := sy_resumed s a + 1)"
  by (simp_all add: resume_def)

lemma event_lists_waiting: "event_lists s ws vs \<Longrightarrow> sy_awaiter s a = AWaiting \<longleftrightarrow> a \<in> set ws \<or> a \<in> set vs"
  by (simp add: event_lists_def)

lemma event_lists_walker:
  assumes "event_lists s ws vs" "sy_setter s t = SWalking p"
  shows "chain (sy_next s) p vs" "sy_setter s u = SWalking q \<longleftrightarrow> u = t \<and> q = p"
proof -
  have "\<exists>t p. sy_setter s t = SWalking p" using assms(2) by blast
  then obtain t' p' where w: "sy_setter s t' = SWalking p'" "chain (sy_next s) p' vs"
      "\<forall>u q. sy_setter s u = SWalking q \<longrightarrow> u = t'"
    using assms(1) unfolding event_lists_def by auto
  then have e: "t' = t" using assms(2) by blast
  then have "p' = p" using w(1) assms(2) by simp
  then show "chain (sy_next s) p vs" "sy_setter s u = SWalking q \<longleftrightarrow> u = t \<and> q = p" using w e by auto
qed

text \<open>A step of a coroutine that is not on a list and does not enter one.\<close>

lemma event_lists_keep:
  assumes "event_lists s ws vs" "sy_state s' = sy_state s" "sy_setter s' = sy_setter s"
    "sy_awaiter s' = (sy_awaiter s)(a := x)" "x \<noteq> AWaiting" "sy_awaiter s a \<noteq> AWaiting"
    "sy_next s' = sy_next s \<or> sy_next s' = (sy_next s)(a := p)"
  shows "event_lists s' ws vs"
proof -
  have "a \<notin> set ws" "a \<notin> set vs" using assms(1,6) by (auto simp: event_lists_def)
  then have c: "chain (sy_next s') q ws = chain (sy_next s) q ws" "chain (sy_next s') q vs = chain (sy_next s) q vs" for q
    using assms(7) by (auto simp: chain_other)
  show ?thesis
    using assms(1,5,6) unfolding event_lists_def assms(2,3,4) c by (auto split: if_splits)
qed


lemma event_inv_keep:
  assumes inv: "event_inv s" and f: "sy_state s' = sy_state s" "sy_setter s' = sy_setter s"
    "sy_awaiter s' = (sy_awaiter s)(a := x)" "sy_awaiter s a \<noteq> AWaiting" "sy_awaiter s a \<noteq> AResumed"
    "sy_next s' = sy_next s \<or> sy_next s' = (sy_next s)(a := p)"
    and x: "x = AResumed \<and> sy_resumed s' = (sy_resumed s)(a := sy_resumed s a + 1) \<and> sy_state s = PEvent
      \<or> (x = AChecked \<or> (\<exists>q. x = ATrying q \<and> (q = PEvent \<longrightarrow> sy_state s = PEvent))) \<and> sy_resumed s' = sy_resumed s"
  shows "event_inv s'"
proof -
  obtain ws vs where l: "event_lists s ws vs" using inv by (auto simp: event_inv_def)
  have "event_lists s' ws vs" by (rule event_lists_keep [OF l f(1-3) _ f(4,6)]) (use x in auto)
  moreover have "sy_resumed s' b = (if sy_awaiter s' b = AResumed then 1 else 0)" for b
    using inv f(3,5) x by (cases "b = a") (auto simp: event_inv_def)
  moreover have "sy_awaiter s' b \<noteq> AResumed \<and> sy_awaiter s' b \<noteq> ATrying PEvent" if "sy_state s' \<noteq> PEvent" for b
    using inv f(1,3) x that by (cases "b = a") (auto simp: event_inv_def)
  moreover have "sy_setter s' t = SIdle" if "sy_state s' \<noteq> PEvent" for t
    using inv f(1,2) that by (simp add: event_inv_def)
  ultimately show ?thesis unfolding event_inv_def by blast
qed

lemma await_step_inv:
  assumes "await_step a s s'" and inv: "event_inv s"
  shows "event_inv s'"
  using assms(1)
proof cases
  case (push old)
  obtain ws vs where l: "event_lists s ws vs" using inv by (auto simp: event_inv_def)
  have idle: "sy_setter s t = SIdle" for t using inv push by (auto simp: event_inv_def)
  have c: "chain (sy_next s) old ws" "vs = []" using l push idle by (auto simp: event_lists_def)
  have a: "a \<notin> set ws" using event_lists_waiting [OF l, of a] push by auto
  have "event_lists s' (a # ws) []"
    using l push idle c a chain_other [OF a, of "sy_next s" old old] by (auto simp: event_lists_def)
  then show ?thesis using inv push idle by (auto simp: event_inv_def)
next
  case ready
  then show ?thesis using event_inv_keep [OF inv, of s' a AResumed] by (auto simp: IsSet_def)
next
  case not_ready
  then show ?thesis using event_inv_keep [OF inv, of s' a AChecked] by auto
next
  case load
  then show ?thesis using event_inv_keep [OF inv, of s' a "ATrying (sy_state s)"] by auto
next
  case became_set
  moreover have "sy_state s = PEvent" using inv became_set by (auto simp: event_inv_def)
  ultimately show ?thesis using event_inv_keep [OF inv, of s' a AResumed] by auto
next
  case (retry old)
  then show ?thesis using event_inv_keep [OF inv, of s' a "ATrying (sy_state s)" old] by auto
qed

lemma set_step_inv:
  assumes "set_step t s s'" and inv: "event_inv s"
  shows "event_inv s'"
  using assms(1)
proof cases
  case exchange
  obtain ws vs where l: "event_lists s ws vs" using inv by (auto simp: event_inv_def)
  show ?thesis
  proof (cases "sy_state s = PEvent")
    case True
    have w: "sy_setter s' u = SWalking p \<longleftrightarrow> sy_setter s u = SWalking p" for u p
      using exchange True by auto
    have e: "sy_state s' = sy_state s" "sy_next s' = sy_next s" "sy_awaiter s' = sy_awaiter s" using exchange True by auto
    have "event_lists s' ws vs" using l unfolding event_lists_def w e .
    then show ?thesis using inv exchange True by (auto simp: event_inv_def)
  next
    case False
    have idle: "sy_setter s u = SIdle" for u using inv False by (auto simp: event_inv_def)
    have c: "chain (sy_next s) (sy_state s) ws" "vs = []" using l False idle by (auto simp: event_lists_def)
    have w: "sy_setter s' u = SWalking p \<longleftrightarrow> u = t \<and> p = sy_state s" for u p using exchange False idle by auto
    have "event_lists s' [] ws" using l c False exchange(1) unfolding event_lists_def w by auto
    then show ?thesis using inv exchange False by (auto simp: event_inv_def)
  qed
next
  case (resume_one a)
  obtain ws vs where l: "event_lists s ws vs" using inv by (auto simp: event_inv_def)
  have st: "sy_state s = PEvent" using inv resume_one(2) by (auto simp: event_inv_def)
  have u: "sy_setter s u = SWalking p \<longleftrightarrow> u = t \<and> p = PAwaiter a" for u p
    using event_lists_walker(2) [OF l resume_one(2)] .
  have "chain (sy_next s) (PAwaiter a) vs" using event_lists_walker(1) [OF l resume_one(2)] .
  then obtain vs' where v: "vs = a # vs'" "chain (sy_next s) (sy_next s a) vs'" by (cases vs) auto
  have w: "sy_setter s' u = SWalking p \<longleftrightarrow> u = t \<and> p = sy_next s a" for u p
    using resume_one(1) u by auto
  have "event_lists s' ws vs'" using l st v resume_one(1) unfolding event_lists_def w by auto
  moreover have "sy_awaiter s a = AWaiting" using l v by (auto simp: event_lists_def)
  ultimately show ?thesis using inv st resume_one(1) by (auto simp: event_inv_def)
next
  case finished
  obtain ws vs where l: "event_lists s ws vs" using inv by (auto simp: event_inv_def)
  have st: "sy_state s = PEvent" using inv finished(2) by (auto simp: event_inv_def)
  have u: "sy_setter s u = SWalking p \<longleftrightarrow> u = t \<and> p = PNull" for u p
    using event_lists_walker(2) [OF l finished(2)] .
  have "vs = []" using event_lists_walker(1) [OF l finished(2)] by (cases vs) auto
  moreover have w: "sy_setter s' u \<noteq> SWalking p" for u p using finished(1) u by auto
  ultimately have "event_lists s' ws []" using l st finished(1) unfolding event_lists_def by auto
  then show ?thesis using inv st finished(1) by (auto simp: event_inv_def)
qed

lemma event_reach_inv: "event_reach s \<Longrightarrow> event_inv s"
proof (induction rule: event_reach.induct)
  case new
  have "event_lists AsyncEvent_new [] []" by (simp add: event_lists_def AsyncEvent_new_def)
  then show ?case by (auto simp: event_inv_def AsyncEvent_new_def)
qed (auto intro: await_step_inv set_step_inv)


section \<open>Progress\<close>

fun await_weight :: "awaiter \<Rightarrow> nat" where
  "await_weight AIdle = 4"
| "await_weight AChecked = 3"
| "await_weight (ATrying p) = (if p = PEvent then 1 else 2)"
| "await_weight AWaiting = 0"
| "await_weight AResumed = 0"

lemma await_weight_decreases: "await_step a s s' \<Longrightarrow> IsSet s \<Longrightarrow> await_weight (sy_awaiter s' a) < await_weight (sy_awaiter s a)"
  by (cases rule: await_step.cases, assumption) (auto simp: IsSet_def)

lemma await_can_step:
  assumes "sy_awaiter s a \<noteq> AWaiting" "sy_awaiter s a \<noteq> AResumed"
  shows "\<exists>s'. await_step a s s'"
proof (cases "sy_awaiter s a")
  case AIdle
  then show ?thesis using await_step.ready [of s a] await_step.not_ready [of s a] by blast
next
  case AChecked
  then show ?thesis using await_step.load by blast
next
  case (ATrying p)
  then show ?thesis using await_step.became_set [of s a] await_step.retry [of s a p] by (cases "p = PEvent") blast+
qed (use assms in auto)

lemma walker_can_step:
  assumes "event_inv s" "sy_setter s t = SWalking p"
  shows "\<exists>s'. set_step t s s'"
proof -
  obtain ws vs where l: "event_lists s ws vs" using assms(1) by (auto simp: event_inv_def)
  have "chain (sy_next s) p vs" using event_lists_walker(1) [OF l assms(2)] .
  then show ?thesis
    using assms(2) set_step.resume_one [of s t] set_step.finished [of s t] by (cases vs) auto
qed

section \<open>Properties\<close>

text \<open>C14. No lost and no double wake-up, for any number of awaiters and of concurrent \<^verbatim>\<open>Set\<close> calls: an awaiter is resumed at
  most once and only after the event is set; when the event is set and no thread is inside \<^verbatim>\<open>Set\<close>, nobody is left
  suspended; a thread inside \<^verbatim>\<open>Set\<close> and an awaiter that is not suspended can always move, and once the event is
  set the retry loop ends: each of the awaiter's own steps brings it closer to being resumed.\<close>

theorem AsyncEvent_no_lost_wakeup:
  assumes "event_reach s"
  shows "sy_resumed s a \<le> 1 \<and> (sy_resumed s a = 1 \<longleftrightarrow> sy_awaiter s a = AResumed) \<and> (sy_awaiter s a = AResumed \<longrightarrow> IsSet s) \<and>
    (IsSet s \<and> (\<forall>t p. sy_setter s t \<noteq> SWalking p) \<longrightarrow> sy_awaiter s a \<noteq> AWaiting) \<and>
    (\<forall>t p. sy_setter s t = SWalking p \<longrightarrow> (\<exists>s'. set_step t s s')) \<and>
    (sy_awaiter s a \<notin> {AWaiting, AResumed} \<longrightarrow> (\<exists>s'. await_step a s s')) \<and>
    (\<forall>s'. IsSet s \<and> await_step a s s' \<longrightarrow> await_weight (sy_awaiter s' a) < await_weight (sy_awaiter s a))"
proof -
  note inv = event_reach_inv [OF assms]
  have r: "sy_resumed s a = (if sy_awaiter s a = AResumed then 1 else 0)" "sy_state s \<noteq> PEvent \<longrightarrow> sy_awaiter s a \<noteq> AResumed"
    using inv by (auto simp: event_inv_def)
  obtain ws vs where l: "event_lists s ws vs" using inv by (auto simp: event_inv_def)
  have "sy_awaiter s a \<noteq> AWaiting" if "IsSet s" "\<forall>t p. sy_setter s t \<noteq> SWalking p"
    using l that by (auto simp: event_lists_def IsSet_def)
  then show ?thesis
    using r walker_can_step [OF inv] await_can_step [of s a] await_weight_decreases [of a s] by (auto simp: IsSet_def)
qed

text \<open>One awaiter suspends, then one thread sets the event.\<close>

definition demo_woken :: event_sys where
  "demo_woken = \<lparr>sy_state = PEvent, sy_next = (\<lambda>_. PNull), sy_awaiter = (\<lambda>_. AIdle)(0 := AResumed),
     sy_setter = (\<lambda>_. SIdle)(0 := SDone), sy_resumed = (\<lambda>_. 0)(0 := 1)\<rparr>"

lemma demo_woken_reach: "event_reach demo_woken"
proof -
  let ?s1 = "AsyncEvent_new\<lparr>sy_awaiter := (\<lambda>_. AIdle)(0 := AChecked)\<rparr>"
  let ?s2 = "AsyncEvent_new\<lparr>sy_awaiter := (\<lambda>_. AIdle)(0 := ATrying PNull)\<rparr>"
  let ?s3 = "AsyncEvent_new\<lparr>sy_state := PAwaiter 0, sy_awaiter := (\<lambda>_. AIdle)(0 := AWaiting)\<rparr>"
  let ?s4 = "?s3\<lparr>sy_state := PEvent, sy_setter := (\<lambda>_. SIdle)(0 := SWalking (PAwaiter 0))\<rparr>"
  let ?s5 = "demo_woken\<lparr>sy_setter := (\<lambda>_. SIdle)(0 := SWalking PNull)\<rparr>"
  have 1: "await_step 0 AsyncEvent_new ?s1"
    using await_step.not_ready [of AsyncEvent_new 0] by (simp add: AsyncEvent_new_def IsSet_def)
  have 2: "await_step 0 ?s1 ?s2" using await_step.load [of ?s1 0] by (simp add: AsyncEvent_new_def)
  have 3: "await_step 0 ?s2 ?s3" using await_step.push [of ?s2 0 PNull] by (simp add: AsyncEvent_new_def fun_upd_idem)
  have 4: "set_step 0 ?s3 ?s4" using set_step.exchange [of ?s3 0] by (simp add: AsyncEvent_new_def)
  have 5: "set_step 0 ?s4 ?s5"
    using set_step.resume_one [of ?s4 0 0] by (simp add: AsyncEvent_new_def demo_woken_def resume_def)
  have "set_step 0 ?s5 demo_woken" using set_step.finished [of ?s5 0] by (simp add: demo_woken_def)
  then show ?thesis using 1 2 3 4 5 event_reach.new event_reach.await event_reach.setting by meson
qed

theorem AsyncEvent_no_lost_wakeup_witness:
  "event_reach demo_woken \<and> IsSet demo_woken \<and> sy_awaiter demo_woken 0 \<noteq> AWaiting \<and> sy_resumed demo_woken 0 = 1"
  using AsyncEvent_no_lost_wakeup [OF demo_woken_reach, of 0] demo_woken_reach
  by (auto simp: demo_woken_def IsSet_def split: if_splits)

end
