(* ===== verification/ThreadPool.thy ===== *)
theory ThreadPool
  imports Metric "HOL-Library.Multiset"
begin

text \<open>
  \<^verbatim>\<open>coro::ThreadPool\<close>: the queue, the workers and the destructor as a step relation, with \<^verbatim>\<open>Pools\<close>, \<^verbatim>\<open>ComputeTuner\<close> and
  \<^verbatim>\<open>ComputeExecutor\<close>.  A coroutine handle is a number; resuming it is a step of the worker that took it.  Every mutex
  section is one step.  The number of hardware threads is an argument (\<open>hw\<close>).
\<close>

section \<open>Model: configuration\<close>

datatype PoolKind = kCompute | kIo | kLowLoad | kDag | kDaemon

fun PoolKindName :: "PoolKind \<Rightarrow> string" where
  "PoolKindName kCompute = ''compute''"
| "PoolKindName kIo = ''io''"
| "PoolKindName kLowLoad = ''lowload''"
| "PoolKindName kDag = ''dag''"
| "PoolKindName kDaemon = ''daemon''"

fun DefaultThreadsFor :: "nat \<Rightarrow> PoolKind \<Rightarrow> nat" where
  "DefaultThreadsFor hw kCompute = hw"
| "DefaultThreadsFor hw kIo = 2 * hw"
| "DefaultThreadsFor hw kLowLoad = 2"
| "DefaultThreadsFor hw kDag = hw"
| "DefaultThreadsFor hw kDaemon = 1"

record ThreadPoolConfig =
  cf_kind :: PoolKind
  cf_threads :: nat
  cf_affinity :: "int list"
  cf_priority :: int
  cf_max_queue :: nat

definition ThreadPoolConfig_new :: ThreadPoolConfig where
  "ThreadPoolConfig_new = \<lparr>cf_kind = kCompute, cf_threads = 0, cf_affinity = [], cf_priority = 0, cf_max_queue = 0\<rparr>"

datatype worker = WIdle | WRunning nat | WExited

record pool =
  tp_config :: ThreadPoolConfig
  tp_queue :: "nat list"
  tp_stop :: bool
  tp_workers :: "worker list"
  tp_monitor :: bool
  tp_events :: "Event list"
  tp_accepted :: "nat list"
  tp_started :: "nat list"
  tp_finished :: "nat list"

text \<open>Both constructors normalise the worker count to at least one.\<close>

definition pool_start :: "ThreadPoolConfig \<Rightarrow> bool \<Rightarrow> pool" where
  "pool_start cf monitor = \<lparr>tp_config = cf, tp_queue = [], tp_stop = False, tp_workers = replicate (cf_threads cf) WIdle,
     tp_monitor = monitor, tp_events = [], tp_accepted = [], tp_started = [], tp_finished = []\<rparr>"

definition at_least_one :: "nat \<Rightarrow> nat" where
  "at_least_one n = (if n = 0 then 1 else n)"

definition ThreadPool_new_count :: "nat \<Rightarrow> nat \<Rightarrow> bool \<Rightarrow> pool" where
  "ThreadPool_new_count hw n monitor = pool_start (ThreadPoolConfig_new\<lparr>cf_kind := kCompute,
     cf_threads := at_least_one (if n = 0 then DefaultThreadsFor hw kCompute else n)\<rparr>) monitor"

definition ThreadPool_new :: "nat \<Rightarrow> ThreadPoolConfig \<Rightarrow> bool \<Rightarrow> pool" where
  "ThreadPool_new hw cf monitor = pool_start (cf\<lparr>cf_threads :=
     at_least_one (if cf_threads cf = 0 then DefaultThreadsFor hw (cf_kind cf) else cf_threads cf)\<rparr>) monitor"

definition pool_size :: "pool \<Rightarrow> nat" where
  "pool_size s = length (tp_workers s)"

definition pending_count :: "pool \<Rightarrow> nat" where
  "pending_count s = length (tp_queue s)"

section \<open>Model: operations\<close>

definition enqueue_event :: "pool \<Rightarrow> Event" where
  "enqueue_event s = attr ''kind'' (PoolKindName (cf_kind (tp_config s)))
     (attr ''pool'' (int_to_string (int (pool_size s))) (Event_new ''coro'' ''pool.enqueue'' []))"

definition Enqueue :: "nat option \<Rightarrow> pool \<Rightarrow> pool" where
  "Enqueue handle s = (case handle of
     None \<Rightarrow> s
   | Some h \<Rightarrow>
      if cf_max_queue (tp_config s) > 0 \<and> length (tp_queue s) \<ge> cf_max_queue (tp_config s) then s
      else s\<lparr>tp_queue := tp_queue s @ [h], tp_accepted := tp_accepted s @ [h],
             tp_events := tp_events s @ (if tp_monitor s then [enqueue_event s] else [])\<rparr>)"

text \<open>One turn of \<^verbatim>\<open>WorkerLoop\<close>: take the front of the queue, return from resuming the handle, or leave.\<close>

inductive worker_step :: "pool \<Rightarrow> pool \<Rightarrow> bool" where
  take_front: "i < length (tp_workers s) \<Longrightarrow> tp_workers s ! i = WIdle \<Longrightarrow> tp_queue s = h # rest \<Longrightarrow>
    worker_step s (s\<lparr>tp_queue := rest, tp_workers := (tp_workers s)[i := WRunning h], tp_started := tp_started s @ [h]\<rparr>)"
| resumed: "i < length (tp_workers s) \<Longrightarrow> tp_workers s ! i = WRunning h \<Longrightarrow>
    worker_step s (s\<lparr>tp_workers := (tp_workers s)[i := WIdle], tp_finished := tp_finished s @ [h]\<rparr>)"
| leave: "i < length (tp_workers s) \<Longrightarrow> tp_workers s ! i = WIdle \<Longrightarrow> tp_stop s \<Longrightarrow> tp_queue s = [] \<Longrightarrow>
    worker_step s (s\<lparr>tp_workers := (tp_workers s)[i := WExited]\<rparr>)"

text \<open>The pool as a whole; nobody may call it after the destructor has returned.\<close>

inductive pool_step :: "pool \<Rightarrow> pool \<Rightarrow> bool" where
  enqueue: "\<not> list_all (\<lambda>w. w = WExited) (tp_workers s) \<Longrightarrow> pool_step s (Enqueue handle s)"
| worker: "worker_step s s' \<Longrightarrow> pool_step s s'"
| destroy: "\<not> tp_stop s \<Longrightarrow> pool_step s (s\<lparr>tp_stop := True\<rparr>)"

inductive pool_reach :: "pool \<Rightarrow> pool \<Rightarrow> bool" for s0 where
  start: "pool_reach s0 s0"
| step: "pool_reach s0 s \<Longrightarrow> pool_step s s' \<Longrightarrow> pool_reach s0 s'"

text \<open>\<^verbatim>\<open>~ThreadPool\<close> returns when every worker has been joined.\<close>

definition joined :: "pool \<Rightarrow> bool" where
  "joined s = list_all (\<lambda>w. w = WExited) (tp_workers s)"

section \<open>Model: pools and tuning\<close>

definition WithKind :: "ThreadPoolConfig \<Rightarrow> PoolKind \<Rightarrow> ThreadPoolConfig" where
  "WithKind cf k = cf\<lparr>cf_kind := k\<rparr>"

definition Pools_new :: "nat \<Rightarrow> (PoolKind \<Rightarrow> ThreadPoolConfig) \<Rightarrow> PoolKind \<Rightarrow> pool" where
  "Pools_new hw configs k = ThreadPool_new hw (WithKind (configs k) k) False"

definition Pools_Threads :: "(PoolKind \<Rightarrow> pool) \<Rightarrow> PoolKind \<Rightarrow> nat" where
  "Pools_Threads pools k = pool_size (pools k)"

datatype ExecMode = mAuto | mCoroutine | mThread | mPinnedThread

record ComputeTunerOptions =
  ct_thread_above_ns :: int
  ct_pinned_above_ns :: int
  ct_max_pool_utilization :: real

definition ComputeTunerOptions_new :: ComputeTunerOptions where
  "ComputeTunerOptions_new = \<lparr>ct_thread_above_ns = 1000000, ct_pinned_above_ns = 50000000, ct_max_pool_utilization = 8 / 10\<rparr>"

definition Decide :: "ComputeTunerOptions \<Rightarrow> int \<Rightarrow> bool \<Rightarrow> real \<Rightarrow> ExecMode \<Rightarrow> ExecMode" where
  "Decide opts estimated_ns cpu_bound utilization requested =
    (if requested \<noteq> mAuto then requested
     else if \<not> cpu_bound then mCoroutine
     else if estimated_ns \<ge> ct_pinned_above_ns opts then mPinnedThread
     else if estimated_ns \<ge> ct_thread_above_ns opts \<or> utilization > ct_max_pool_utilization opts then mThread
     else mCoroutine)"

definition Utilization :: "pool \<Rightarrow> real" where
  "Utilization s = (if pool_size s = 0 then 0 else min 1 (real (pending_count s) / real (pool_size s)))"

text \<open>The round-robin counter is a 32-bit \<^verbatim>\<open>unsigned\<close>.\<close>

definition PickCpu :: "nat \<Rightarrow> nat \<Rightarrow> int \<times> nat" where
  "PickCpu hw counter = (int (counter mod (max 1 hw)), (counter + 1) mod 2 ^ 32)"

datatype placement = OnPool | OnThread | OnPinned int

definition ComputeExecutor_Execute :: "ComputeTunerOptions \<Rightarrow> nat \<Rightarrow> nat \<Rightarrow> pool \<Rightarrow> int \<Rightarrow> bool \<Rightarrow> ExecMode \<Rightarrow> placement \<times> nat" where
  "ComputeExecutor_Execute opts hw counter s estimated_ns cpu_bound requested =
    (case Decide opts estimated_ns cpu_bound (Utilization s) requested of
       mThread \<Rightarrow> (OnThread, counter)
     | mPinnedThread \<Rightarrow> (case PickCpu hw counter of (cpu, counter') \<Rightarrow> (OnPinned cpu, counter'))
     | _ \<Rightarrow> (OnPool, counter))"

definition ComputeExecutor_RunPinned :: "nat \<Rightarrow> nat \<Rightarrow> placement \<times> nat" where
  "ComputeExecutor_RunPinned hw counter = (case PickCpu hw counter of (cpu, counter') \<Rightarrow> (OnPinned cpu, counter'))"

text \<open>The modes in the order of the enumeration, which is the order of how far a mode keeps the work from the pool's workers.\<close>

primrec mode_value :: "ExecMode \<Rightarrow> nat" where
  "mode_value mAuto = 0"
| "mode_value mCoroutine = 1"
| "mode_value mThread = 2"
| "mode_value mPinnedThread = 3"

instantiation ExecMode :: linorder
begin

definition less_eq_ExecMode :: "ExecMode \<Rightarrow> ExecMode \<Rightarrow> bool" where
  "less_eq_ExecMode a b = (mode_value a \<le> mode_value b)"

definition less_ExecMode :: "ExecMode \<Rightarrow> ExecMode \<Rightarrow> bool" where
  "less_ExecMode a b = (mode_value a < mode_value b)"

instance
proof
  fix a b c :: ExecMode
  show "a < b \<longleftrightarrow> a \<le> b \<and> \<not> b \<le> a" by (auto simp: less_eq_ExecMode_def less_ExecMode_def)
  show "a \<le> a" by (simp add: less_eq_ExecMode_def)
  show "a \<le> b \<Longrightarrow> b \<le> c \<Longrightarrow> a \<le> c" by (simp add: less_eq_ExecMode_def)
  show "a \<le> b \<Longrightarrow> b \<le> a \<Longrightarrow> a = b" by (cases a; cases b) (simp_all add: less_eq_ExecMode_def)
  show "a \<le> b \<or> b \<le> a" by (auto simp: less_eq_ExecMode_def)
qed

end

section \<open>Invariant\<close>

fun running :: "worker list \<Rightarrow> nat list" where
  "running [] = []"
| "running (WRunning h # ws) = h # running ws"
| "running (_ # ws) = running ws"

definition pool_inv :: "pool \<Rightarrow> bool" where
  "pool_inv s = (tp_accepted s = tp_started s @ tp_queue s
     \<and> mset (tp_started s) = mset (tp_finished s) + mset (running (tp_workers s))
     \<and> (cf_max_queue (tp_config s) > 0 \<longrightarrow> length (tp_queue s) \<le> cf_max_queue (tp_config s))
     \<and> (WExited \<in> set (tp_workers s) \<longrightarrow> tp_stop s)
     \<and> (joined s \<longrightarrow> tp_queue s = [])
     \<and> tp_workers s \<noteq> [])"

lemma running_update:
  "i < length ws \<Longrightarrow> mset (running (ws[i := w])) + mset (running [ws ! i]) = mset (running ws) + mset (running [w])"
proof (induction ws arbitrary: i)
  case (Cons x ws)
  show ?case
  proof (cases i)
    case 0
    then show ?thesis by (cases x; cases w) simp_all
  next
    case (Suc j)
    then have "mset (running (ws[j := w])) + mset (running [ws ! j]) = mset (running ws) + mset (running [w])"
      using Cons by simp
    then show ?thesis using Suc by (cases x) simp_all
  qed
qed simp

lemma joined_update:
  assumes "i < length (tp_workers s)" "w \<noteq> WExited"
  shows "\<not> list_all (\<lambda>w. w = WExited) ((tp_workers s)[i := w])"
  using assms by (auto simp: list_all_length)

lemma worker_step_inv:
  assumes "worker_step s s'" "pool_inv s"
  shows "pool_inv s'"
  using assms(1)
proof cases
  case (take_front i h rest)
  have "mset (running ((tp_workers s)[i := WRunning h])) = mset (running (tp_workers s)) + {#h#}"
    using running_update [OF take_front(2), of "WRunning h"] take_front(3) by simp
  then show ?thesis
    using assms(2) take_front joined_update [OF take_front(2), of "WRunning h"]
    by (fastforce simp: pool_inv_def joined_def dest: set_update_subset_insert [THEN subsetD])
next
  case (resumed i h)
  have "mset (running ((tp_workers s)[i := WIdle])) + {#h#} = mset (running (tp_workers s))"
    using running_update [OF resumed(2), of WIdle] resumed(3) by simp
  then show ?thesis
    using assms(2) resumed joined_update [OF resumed(2), of WIdle]
    by (fastforce simp: pool_inv_def joined_def dest: set_update_subset_insert [THEN subsetD])
next
  case (leave i)
  have "mset (running ((tp_workers s)[i := WExited])) = mset (running (tp_workers s))"
    using running_update [OF leave(2), of WExited] leave(3) by simp
  then show ?thesis using assms(2) leave by (simp add: pool_inv_def)
qed

lemma pool_step_inv:
  assumes "pool_step s s'" "pool_inv s"
  shows "pool_inv s'"
  using assms(1)
proof cases
  case (enqueue handle)
  then show ?thesis using assms(2)
    by (auto simp: Enqueue_def pool_inv_def joined_def split: option.splits)
next
  case worker
  then show ?thesis using worker_step_inv assms(2) by blast
next
  case destroy
  then show ?thesis using assms(2) by (simp add: pool_inv_def joined_def)
qed

lemma pool_new_inv: "pool_inv (ThreadPool_new hw cf monitor)"
proof -
  have "running (replicate n WIdle) = []" for n by (induction n) simp_all
  then show ?thesis
    by (auto simp: pool_inv_def ThreadPool_new_def pool_start_def joined_def at_least_one_def list_all_iff)
qed

lemma pool_reach_inv: "pool_reach s0 s \<Longrightarrow> pool_inv s0 \<Longrightarrow> pool_inv s"
  by (induction rule: pool_reach.induct) (auto intro: pool_step_inv)


section \<open>Progress\<close>

fun worker_weight :: "worker \<Rightarrow> nat" where
  "worker_weight WIdle = 1"
| "worker_weight (WRunning h) = 2"
| "worker_weight WExited = 0"

definition pool_weight :: "pool \<Rightarrow> nat" where
  "pool_weight s = 2 * length (tp_queue s) + sum_list (map worker_weight (tp_workers s))"

lemma weight_update:
  "i < length ws \<Longrightarrow> sum_list (map worker_weight (ws[i := w])) + worker_weight (ws ! i) = sum_list (map worker_weight ws) + worker_weight w"
  by (induction ws arbitrary: i) (auto split: nat.splits)

lemma worker_step_weight:
  assumes "worker_step s s'"
  shows "pool_weight s' < pool_weight s"
  using assms
proof cases
  case (take_front i h rest)
  then show ?thesis using weight_update [OF take_front(2), of "WRunning h"] by (simp add: pool_weight_def)
next
  case (resumed i h)
  then show ?thesis using weight_update [OF resumed(2), of WIdle] by (simp add: pool_weight_def)
next
  case (leave i)
  then show ?thesis using weight_update [OF leave(2), of WExited] by (simp add: pool_weight_def)
qed

lemma stopping_progress:
  assumes "tp_stop s" "\<not> joined s"
  shows "\<exists>s'. worker_step s s'"
proof -
  obtain i where i: "i < length (tp_workers s)" "tp_workers s ! i \<noteq> WExited"
    using assms(2) by (auto simp: joined_def list_all_length)
  show ?thesis
  proof (cases "tp_workers s ! i")
    case WIdle
    then show ?thesis
      using worker_step.leave [OF i(1) WIdle assms(1)] worker_step.take_front [OF i(1) WIdle] by (cases "tp_queue s") blast+
  next
    case (WRunning h)
    then show ?thesis using worker_step.resumed i(1) by blast
  qed (use i in simp)
qed

section \<open>The tuner\<close>

text \<open>A longer estimate or a busier pool never brings work back towards the pool, whatever the thresholds; the decision is never
  \<^verbatim>\<open>kAuto\<close>; input and output stay on the pool; and a pinned task gets a processor that exists.\<close>

theorem Decide_mono:
  assumes "ns \<le> ns'" "u \<le> u'"
  shows "Decide opts ns cpu_bound u requested \<le> Decide opts ns' cpu_bound u' requested"
  using assms by (auto simp: Decide_def less_eq_ExecMode_def)

lemma Decide_resolves: "Decide opts ns cpu_bound u requested \<noteq> mAuto"
  by (simp add: Decide_def)

lemma Execute_io_on_pool: "ComputeExecutor_Execute opts hw counter s ns False mAuto = (OnPool, counter)"
  by (simp add: ComputeExecutor_Execute_def Decide_def)

lemma Execute_pinned_cpu:
  assumes "ComputeExecutor_Execute opts hw counter s ns cpu_bound requested = (OnPinned cpu, counter')"
  shows "0 \<le> cpu" "cpu < int (max 1 hw)"
  using assms by (auto simp: ComputeExecutor_Execute_def PickCpu_def split: ExecMode.splits)

lemma Utilization_bounds: "0 \<le> Utilization s" "Utilization s \<le> 1"
  by (simp_all add: Utilization_def)

section \<open>Properties\<close>

text \<open>C15. For every pool and every interleaving: handles are taken in the order they were accepted, the queue never exceeds
  a configured bound, and every accepted handle that was taken is running or has been resumed, exactly once.  When the destructor
  returns, every accepted handle has been resumed; and the destructor cannot block: while a worker is left some
  worker can move, and worker steps alone cannot go on forever.\<close>

theorem ThreadPool_drains_in_order:
  assumes "pool_reach (ThreadPool_new hw cf monitor) s"
  shows "tp_accepted s = tp_started s @ tp_queue s \<and>
    mset (tp_started s) = mset (tp_finished s) + mset (running (tp_workers s)) \<and>
    (cf_max_queue (tp_config s) > 0 \<longrightarrow> length (tp_queue s) \<le> cf_max_queue (tp_config s)) \<and>
    (joined s \<longrightarrow> tp_stop s \<and> tp_started s = tp_accepted s \<and> mset (tp_finished s) = mset (tp_accepted s)) \<and>
    (tp_stop s \<and> \<not> joined s \<longrightarrow> (\<exists>s'. worker_step s s')) \<and>
    (\<forall>s'. worker_step s s' \<longrightarrow> pool_weight s' < pool_weight s)"
proof -
  note inv = pool_reach_inv [OF assms pool_new_inv]
  have "running ws = []" if "list_all (\<lambda>w. w = WExited) ws" for ws using that by (induction ws) auto
  then have "joined s \<Longrightarrow> tp_stop s \<and> tp_started s = tp_accepted s \<and> mset (tp_finished s) = mset (tp_accepted s)"
    using inv by (auto simp: pool_inv_def joined_def list_all_iff in_set_conv_nth neq_Nil_conv)
  then show ?thesis
    using inv stopping_progress worker_step_weight by (auto simp: pool_inv_def)
qed

text \<open>One worker, two handles of which a bound of one drops the second; then shutdown.\<close>

theorem ThreadPool_drains_in_order_witness:
  "\<exists>s. pool_reach (ThreadPool_new 1 (ThreadPoolConfig_new\<lparr>cf_threads := 1, cf_max_queue := 1\<rparr>) False) s \<and> joined s
     \<and> tp_accepted s = [7] \<and> tp_started s = [7]"
proof -
  let ?s0 = "ThreadPool_new 1 (ThreadPoolConfig_new\<lparr>cf_threads := 1, cf_max_queue := 1\<rparr>) False"
  let ?s1 = "Enqueue (Some 9) (Enqueue (Some 7) ?s0)"
  let ?s2 = "?s1\<lparr>tp_queue := [], tp_workers := [WRunning 7], tp_started := [7]\<rparr>"
  let ?s3 = "?s2\<lparr>tp_workers := [WIdle], tp_finished := [7]\<rparr>"
  let ?s4 = "?s3\<lparr>tp_stop := True\<rparr>"
  let ?s5 = "?s4\<lparr>tp_workers := [WExited]\<rparr>"
  note d = ThreadPool_new_def pool_start_def ThreadPoolConfig_new_def at_least_one_def Enqueue_def
  have "pool_step ?s0 (Enqueue (Some 7) ?s0)" by (rule pool_step.enqueue) (simp add: d)
  then have 1: "pool_reach ?s0 ?s1"
    using pool_step.enqueue [of "Enqueue (Some 7) ?s0" "Some 9"] pool_reach.start pool_reach.step by (simp add: d) meson
  have 2: "worker_step ?s1 ?s2" using worker_step.take_front [of 0 ?s1 7 "[]"] by (simp add: d)
  have 3: "worker_step ?s2 ?s3" using worker_step.resumed [of 0 ?s2 7] by (simp add: d)
  have 4: "pool_step ?s3 ?s4" by (rule pool_step.destroy) (simp add: d)
  have 5: "worker_step ?s4 ?s5" using worker_step.leave [of 0 ?s4] by (simp add: d)
  have r: "pool_reach ?s0 ?s5" using 1 2 3 4 5 pool_reach.step pool_step.worker by meson
  have j: "joined ?s5" "tp_accepted ?s5 = [7]" by (simp_all add: joined_def d)
  obtain s where s: "pool_reach ?s0 s" "joined s" "tp_accepted s = [7]" using r j by blast
  have "joined s \<longrightarrow> tp_stop s \<and> tp_started s = tp_accepted s \<and> mset (tp_finished s) = mset (tp_accepted s)"
    using ThreadPool_drains_in_order [OF s(1)] by (elim conjE)
  then show ?thesis using s by metis
qed

end
