(* ===== verification/Batch.thy ===== *)
theory Batch
  imports Future
begin

text \<open>
  \<^verbatim>\<open>coro::batch\<close>: splitting a range into batches and the parallel map, transform and reduce over them.  A \<^verbatim>\<open>size_t\<close> is a natural
  number with the wrap-around at \<open>2 ^ 64\<close> written out.  Each batch is a coroutine of its own; they touch disjoint
  parts of the vector, so a run is the fold of the batches in the order they happen to execute.
\<close>

section \<open>Model\<close>

definition size_t :: "nat \<Rightarrow> nat" where
  "size_t n = n mod 2 ^ 64"

definition DefaultBatchSize :: "nat \<Rightarrow> nat \<Rightarrow> nat" where
  "DefaultBatchSize total_n workers =
    (let w = (if workers = 0 then 1 else workers) in
     if total_n \<le> w then 1 else size_t (total_n + w - 1) div w)"

definition effective_batch :: "nat \<Rightarrow> nat \<Rightarrow> nat \<Rightarrow> nat" where
  "effective_batch n batch_size workers =
    (let b = (if batch_size = 0 then DefaultBatchSize n workers else batch_size) in if b = 0 then 1 else b)"

definition batch_count :: "nat \<Rightarrow> nat \<Rightarrow> nat" where
  "batch_count n bs = size_t (n + bs - 1) div bs"

definition batch_range :: "nat \<Rightarrow> nat \<Rightarrow> nat \<Rightarrow> nat \<times> nat" where
  "batch_range n bs b = (size_t (b * bs), min (size_t (size_t (b * bs) + bs)) n)"

text \<open>\<open>batch_fn\<close> is a function on the state the batches share; \<open>order\<close> is the order in which the batches run.  An
  empty range starts no batch.\<close>

definition RunBatches :: "nat \<Rightarrow> nat \<Rightarrow> nat \<Rightarrow> (nat \<Rightarrow> nat \<Rightarrow> nat \<Rightarrow> 's \<Rightarrow> 's) \<Rightarrow> nat list \<Rightarrow> 's \<Rightarrow> 's" where
  "RunBatches n batch_size workers batch_fn order s =
    (if n = 0 then s
     else let bs = effective_batch n batch_size workers in
       fold (\<lambda>b. case batch_range n bs b of (lo, hi) \<Rightarrow> batch_fn lo hi b) order s)"

text \<open>The batches that are started.\<close>

definition started_batches :: "nat \<Rightarrow> nat \<Rightarrow> nat \<Rightarrow> nat list" where
  "started_batches n batch_size workers = (if n = 0 then [] else [0..<batch_count n (effective_batch n batch_size workers)])"

definition BatchMap :: "('a \<Rightarrow> 'a) \<Rightarrow> 'a list \<Rightarrow> nat \<Rightarrow> nat \<Rightarrow> nat list \<Rightarrow> 'a list" where
  "BatchMap f data batch_size workers order =
    RunBatches (length data) batch_size workers
      (\<lambda>lo hi _ d. fold (\<lambda>i d. d[i := f (d ! i)]) [lo..<hi] d) order data"

definition BatchTransform :: "'b \<Rightarrow> ('a \<Rightarrow> 'b) \<Rightarrow> 'a list \<Rightarrow> nat \<Rightarrow> nat \<Rightarrow> nat list \<Rightarrow> 'b list" where
  "BatchTransform dflt f data batch_size workers order =
    RunBatches (length data) batch_size workers
      (\<lambda>lo hi _ out. fold (\<lambda>i out. out[i := f (data ! i)]) [lo..<hi] out) order (replicate (length data) dflt)"

text \<open>\<^verbatim>\<open>BatchForEach\<close> only reads the data; \<open>s\<close> is whatever the function changes.\<close>

definition BatchForEach :: "('a \<Rightarrow> 's \<Rightarrow> 's) \<Rightarrow> 'a list \<Rightarrow> nat \<Rightarrow> nat \<Rightarrow> nat list \<Rightarrow> 's \<Rightarrow> 's" where
  "BatchForEach f data batch_size workers order s =
    RunBatches (length data) batch_size workers (\<lambda>lo hi _ s. fold (\<lambda>i. f (data ! i)) [lo..<hi] s) order s"

definition BatchReduce :: "'c \<Rightarrow> ('c \<Rightarrow> 'a \<Rightarrow> 'c) \<Rightarrow> ('c \<Rightarrow> 'c \<Rightarrow> 'c) \<Rightarrow> 'c \<Rightarrow> 'a list \<Rightarrow> nat \<Rightarrow> nat \<Rightarrow> nat list \<Rightarrow> 'c" where
  "BatchReduce dflt f combine init data batch_size workers order =
    (if data = [] then init
     else let bs = effective_batch (length data) batch_size workers;
              partials = RunBatches (length data) bs workers
                (\<lambda>lo hi b ps. ps[b := foldl (\<lambda>acc i. f acc (data ! i)) init [lo..<hi]]) order
                (replicate (batch_count (length data) bs) dflt)
          in foldl combine init partials)"

section \<open>The split\<close>

text \<open>No wrap-around: the vector and the batch size fit together into a \<^verbatim>\<open>size_t\<close>.\<close>

definition fits :: "nat \<Rightarrow> nat \<Rightarrow> nat \<Rightarrow> bool" where
  "fits n batch_size workers = (n + effective_batch n batch_size workers \<le> 2 ^ 64)"

lemma effective_batch_pos: "effective_batch n bs w > 0"
  by (simp add: effective_batch_def Let_def)

lemma effective_idem: "effective_batch n (effective_batch n bs w) w = effective_batch n bs w"
  using effective_batch_pos [of n bs w] by (simp add: effective_batch_def Let_def)

lemma batch_count_eq: "n + bs \<le> 2 ^ 64 \<Longrightarrow> bs > 0 \<Longrightarrow> batch_count n bs = (n + bs - 1) div bs"
  by (simp add: batch_count_def size_t_def)

lemma batch_count_cover: "n + bs \<le> 2 ^ 64 \<Longrightarrow> bs > 0 \<Longrightarrow> i < n \<Longrightarrow> i div bs < batch_count n bs"
proof -
  assume a: "n + bs \<le> 2 ^ 64" "bs > 0" "i < n"
  have "Suc (i div bs) = (i + bs) div bs" using a(2) by (simp add: div_add_self2)
  also have "\<dots> \<le> (n + bs - 1) div bs" using a by (intro div_le_mono) simp
  finally show ?thesis using batch_count_eq [OF a(1,2)] by simp
qed

lemma batch_range_eq:
  assumes "n + bs \<le> 2 ^ 64" "bs > 0" "b < batch_count n bs"
  shows "batch_range n bs b = (b * bs, min (b * bs + bs) n)" "b * bs < n"
proof -
  have "Suc b \<le> (n + bs - 1) div bs" using assms batch_count_eq by simp
  then have "Suc b * bs \<le> n + bs - 1" using less_eq_div_iff_mult_less_eq assms(2) by blast
  then show l: "b * bs < n" using assms(2) by simp
  then have "b * bs < 2 ^ 64" using assms(1) by linarith
  then have e: "size_t (b * bs) = b * bs" by (simp add: size_t_def)
  show "batch_range n bs b = (b * bs, min (b * bs + bs) n)"
  proof (cases "b * bs + bs = 2 ^ 64")
    case True
    then show ?thesis using l assms(1) by linarith
  next
    case False
    then have "b * bs + bs < 2 ^ 64" using l assms(1) by linarith
    then show ?thesis by (simp add: batch_range_def e size_t_def)
  qed
qed

lemma in_batch: "bs > 0 \<Longrightarrow> i < n \<Longrightarrow> (b * bs \<le> i \<and> i < min (b * bs + bs) n) = (i div bs = b)" for i :: nat
  by (metis add.commute div_nat_eqI dividend_less_times_div less_eq_div_iff_mult_less_eq min_less_iff_conj
      mult.commute mult_Suc order_refl)


text \<open>A loop that writes slot \<open>i\<close> from slot \<open>i\<close> and the inputs only.\<close>

lemma range_write:
  assumes "hi \<le> length d"
  shows "fold (\<lambda>i d. d[i := g i (d ! i)]) [lo..<hi] d = map (\<lambda>i. if lo \<le> i \<and> i < hi then g i (d ! i) else d ! i) [0..<length d]"
  using assms
proof (induction hi)
  case 0
  then show ?case by (simp add: map_nth)
next
  case (Suc hi)
  show ?case
  proof (cases "lo \<le> hi")
    case True
    then show ?thesis using Suc by (auto simp: nth_list_update intro!: nth_equalityI)
  next
    case False
    then show ?thesis by (auto simp: map_nth intro!: nth_equalityI)
  qed
qed

lemma batches_write:
  assumes "bs > 0" "length d + bs \<le> 2 ^ 64" "set order \<subseteq> {0..<batch_count (length d) bs}" "distinct order"
    and that: "length d0 = length d"
  shows "fold (\<lambda>b. case batch_range (length d0) bs b of (lo, hi) \<Rightarrow> fold (\<lambda>i d. d[i := g i (d ! i)]) [lo..<hi]) order d
     = map (\<lambda>i. if i div bs \<in> set order then g i (d ! i) else d ! i) [0..<length d]"
  using assms(3,4)
proof (induction order rule: rev_induct)
  case Nil
  then show ?case by (simp add: map_nth)
next
  case (snoc b order)
  let ?m = "map (\<lambda>i. if i div bs \<in> set order then g i (d ! i) else d ! i) [0..<length d]"
  have b: "b < batch_count (length d) bs" "b \<notin> set order" using snoc.prems by auto
  note r = batch_range_eq(1) [OF assms(2,1) b(1)]
  have "fold (\<lambda>i d. d[i := g i (d ! i)]) [b * bs..<min (b * bs + bs) (length d)] ?m
      = map (\<lambda>i. if b * bs \<le> i \<and> i < min (b * bs + bs) (length d) then g i (?m ! i) else ?m ! i) [0..<length ?m]"
    by (rule range_write) simp
  also have "\<dots> = map (\<lambda>i. if i div bs \<in> set (order @ [b]) then g i (d ! i) else d ! i) [0..<length d]"
    using b(2) in_batch [OF assms(1), of _ "length d" b] by (auto intro!: nth_equalityI)
  finally show ?case using snoc that r by simp
qed

lemma all_batches:
  assumes "fits n batch_size workers" "set order = set (started_batches n batch_size workers)" "i < n"
  shows "i div effective_batch n batch_size workers \<in> set order"
  using assms batch_count_cover [OF _ effective_batch_pos, of n n batch_size workers i]
  by (auto simp: fits_def started_batches_def)

lemma BatchMap_map:
  assumes "fits (length data) batch_size workers" "distinct order"
    "set order = set (started_batches (length data) batch_size workers)"
  shows "BatchMap f data batch_size workers order = map f data"
proof (cases "data = []")
  case False
  let ?bs = "effective_batch (length data) batch_size workers"
  have "BatchMap f data batch_size workers order = map (\<lambda>i. if i div ?bs \<in> set order then f (data ! i) else data ! i) [0..<length data]"
    using batches_write [of ?bs data order data "\<lambda>i. f"] assms False effective_batch_pos
    by (simp add: BatchMap_def RunBatches_def Let_def fits_def started_batches_def)
  also have "\<dots> = map (\<lambda>i. f (data ! i)) [0..<length data]" using all_batches [OF assms(1,3)] by (intro map_cong) auto
  also have "\<dots> = map f data" by (rule nth_equalityI) simp_all
  finally show ?thesis .
qed (use assms in \<open>simp add: BatchMap_def RunBatches_def\<close>)

lemma BatchTransform_map:
  assumes "fits (length data) batch_size workers" "distinct order"
    "set order = set (started_batches (length data) batch_size workers)"
  shows "BatchTransform dflt f data batch_size workers order = map f data"
proof (cases "data = []")
  case False
  let ?bs = "effective_batch (length data) batch_size workers"
  let ?d = "replicate (length data) dflt"
  have "BatchTransform dflt f data batch_size workers order = map (\<lambda>i. if i div ?bs \<in> set order then f (data ! i) else ?d ! i) [0..<length data]"
    using batches_write [of ?bs ?d order data "\<lambda>i _. f (data ! i)"] assms False effective_batch_pos
    by (simp add: BatchTransform_def RunBatches_def Let_def fits_def started_batches_def)
  also have "\<dots> = map (\<lambda>i. f (data ! i)) [0..<length data]" using all_batches [OF assms(1,3)] by (intro map_cong) auto
  also have "\<dots> = map f data" by (rule nth_equalityI) simp_all
  finally show ?thesis .
qed (use assms in \<open>simp add: BatchTransform_def RunBatches_def\<close>)


section \<open>Reduction\<close>

lemma slices_concat:
  "concat (map (\<lambda>b. take bs (drop (b * bs) xs)) [0..<k]) = take (k * bs) xs"
  by (induction k) (simp_all add: take_add [symmetric] add.commute)

lemma foldl_combine:
  assumes "\<And>a xs. combine a (foldl f init xs) = foldl f a xs"
  shows "foldl combine acc (map (foldl f init) xss) = foldl f acc (concat xss)"
  by (induction xss arbitrary: acc) (simp_all add: assms)

lemma foldl_slice:
  assumes "hi \<le> length data"
  shows "foldl (\<lambda>acc i. f acc (data ! i)) a [lo..<hi] = foldl f a (take (hi - lo) (drop lo data))"
proof -
  have "take (hi - lo) (drop lo data) = map ((!) data) [lo..<hi]"
    using assms by (auto intro!: nth_equalityI)
  then show ?thesis by (simp add: foldl_map)
qed

lemma partials_written:
  assumes "distinct order" "set order \<subseteq> {0..<length ps}"
  shows "fold (\<lambda>b ps. ps[b := p b]) order ps = map (\<lambda>b. if b \<in> set order then p b else ps ! b) [0..<length ps]"
  using assms
proof (induction order rule: rev_induct)
  case Nil
  then show ?case by (simp add: map_nth)
next
  case (snoc b order)
  then show ?case by (auto simp: nth_list_update intro!: nth_equalityI)
qed

text \<open>Every partial starts from the initial value, and so does the combination of them.\<close>

lemma BatchReduce_partials:
  assumes "fits (length data) batch_size workers" "distinct order" "data \<noteq> []"
    "set order = set (started_batches (length data) batch_size workers)"
  defines "bs \<equiv> effective_batch (length data) batch_size workers"
  shows "BatchReduce dflt f combine init data batch_size workers order =
    foldl combine init (map (foldl f init) (map (\<lambda>b. take bs (drop (b * bs) data)) [0..<batch_count (length data) bs]))"
proof -
  let ?k = "batch_count (length data) bs"
  have bs: "bs > 0" "length data + bs \<le> 2 ^ 64" using assms effective_batch_pos by (auto simp: fits_def)
  have o: "set order = {0..<?k}" using assms(3,4) by (simp add: started_batches_def bs_def)
  have part: "(case batch_range (length data) bs b of (lo, hi) \<Rightarrow> (\<lambda>ps. ps[b := foldl (\<lambda>acc i. f acc (data ! i)) init [lo..<hi]]))
      = (\<lambda>ps. ps[b := foldl f init (take bs (drop (b * bs) data))])" if "b \<in> set order" for b
  proof -
    have "b < ?k" using that o by simp
    note r = batch_range_eq [OF bs(2,1) this]
    have "take (min (b * bs + bs) (length data) - b * bs) (drop (b * bs) data) = take bs (drop (b * bs) data)"
      by (cases "b * bs + bs \<le> length data") (auto simp: min_def)
    then show ?thesis using r(1) foldl_slice [of "min (b * bs + bs) (length data)" data f init "b * bs"] by simp
  qed
  have "fold (\<lambda>b. case batch_range (length data) bs b of (lo, hi) \<Rightarrow> (\<lambda>ps. ps[b := foldl (\<lambda>acc i. f acc (data ! i)) init [lo..<hi]])) order
      (replicate ?k dflt) = fold (\<lambda>b ps. ps[b := foldl f init (take bs (drop (b * bs) data))]) order (replicate ?k dflt)"
    by (rule fold_cong) (use part in auto)
  also have "\<dots> = map (\<lambda>b. foldl f init (take bs (drop (b * bs) data))) [0..<?k]"
    using partials_written [OF assms(2), of "replicate ?k dflt"] o by (auto intro!: nth_equalityI)
  finally show ?thesis
    using assms(3) effective_idem [of "length data" batch_size workers]
    by (simp add: BatchReduce_def RunBatches_def Let_def bs_def [symmetric] comp_def)
qed

lemma all_slices:
  assumes "n + bs \<le> 2 ^ 64" "bs > 0"
  shows "n \<le> batch_count n bs * bs"
proof (cases n)
  case (Suc m)
  then have "m div bs < batch_count n bs" using batch_count_cover [OF assms] by simp
  then have "m < batch_count n bs * bs" using assms(2) div_less_iff_less_mult by blast
  then show ?thesis using Suc by simp
qed simp


text \<open>The initial value is counted once per batch and once more.\<close>

lemma BatchReduce_counts_init:
  "BatchReduce 0 (+) (+) 10 [1, 2] 1 4 [0, 1] = (33 :: nat)" "foldl (+) 10 [1, 2] = (13 :: nat)"
  by (simp_all add: BatchReduce_def RunBatches_def Let_def effective_batch_def batch_count_def batch_range_def size_t_def)

text \<open>A batch size near the top of the range wraps the batch count to zero: nothing is processed.\<close>

lemma BatchMap_wraps: "started_batches 3 (2 ^ 64 - 1) 4 = []"
  by (simp add: started_batches_def effective_batch_def batch_count_def size_t_def)

section \<open>Properties\<close>



text \<open>\<^verbatim>\<open>BatchReduce\<close> equals the sequential fold, whatever the split and the order, exactly under the contract that
  combining with a partial is folding on: the initial value is neutral for \<^verbatim>\<open>combine\<close>.\<close>

theorem BatchReduce_is_fold:
  assumes "fits (length data) batch_size workers" "distinct order"
    "set order = set (started_batches (length data) batch_size workers)"
    "\<And>a xs. combine a (foldl f init xs) = foldl f a xs"
  shows "BatchReduce dflt f combine init data batch_size workers order = foldl f init data"
proof (cases "data = []")
  case False
  let ?bs = "effective_batch (length data) batch_size workers"
  have "length data \<le> batch_count (length data) ?bs * ?bs"
    by (rule all_slices) (use assms(1) effective_batch_pos in \<open>auto simp: fits_def\<close>)
  then show ?thesis
    using BatchReduce_partials [OF assms(1,2) False assms(3), of dflt f combine init]
    by (simp only: foldl_combine [OF assms(4)] slices_concat) simp
qed (simp add: BatchReduce_def)

theorem BatchReduce_is_fold_witness: "BatchReduce 0 (+) (+) 0 [4, 5, 6] 2 1 [1, 0] = (15 :: nat)"
proof -
  have a: "a + foldl (+) 0 xs = foldl (+) a xs" for a :: nat and xs
    by (induction xs arbitrary: a rule: rev_induct) simp_all
  have "fits (length [4, 5, 6 :: nat]) 2 1" "set [1, 0] = set (started_batches (length [4, 5, 6 :: nat]) 2 1)"
    by (auto simp: fits_def started_batches_def effective_batch_def batch_count_def size_t_def Let_def)
  then show ?thesis using BatchReduce_is_fold [of "[4, 5, 6 :: nat]" 2 1 "[1, 0]" "(+)" "(+)" 0 0] a by simp
qed

end
