(* ===== verification/Hash.thy ===== *)
theory Hash
  imports Prelude "HOL-Library.Word"
begin

text \<open>
  The non-cryptographic hashes of \<^verbatim>\<open>toolkit/include/toolkit/hash.h\<close> on 64-bit words, where \<^verbatim>\<open>+\<close> and \<^verbatim>\<open>*\<close>
  wrap.  Both multipliers are odd, hence invertible modulo \<open>2^64\<close>: every byte step is a
  bijection of the state, so two keys that differ in one byte never collide.
\<close>

unbundle bit_operations_syntax

section \<open>Model\<close>

definition byte :: "char \<Rightarrow> 64 word" where
  "byte c = of_nat (of_char c)"

definition fnv_step :: "char \<Rightarrow> 64 word \<Rightarrow> 64 word" where
  "fnv_step c h = (h XOR byte c) * 1099511628211"

definition Fnv1a :: "string \<Rightarrow> 64 word" where
  "Fnv1a s = fold fnv_step s 14695981039346656037"

definition djb_step :: "char \<Rightarrow> 64 word \<Rightarrow> 64 word" where
  "djb_step c h = h * 33 + byte c"

definition Djb2 :: "string \<Rightarrow> 64 word" where
  "Djb2 s = fold djb_step s 5381"

definition HashCombine :: "64 word \<Rightarrow> 64 word \<Rightarrow> 64 word" where
  "HashCombine seed v = seed XOR (v + 11400714819323198485 + push_bit 6 seed + drop_bit 2 seed)"

section \<open>Invertibility of the byte steps\<close>

lemma byte_inj: "byte c = byte d \<longleftrightarrow> c = d"
proof
  assume "byte c = byte d"
  then have "unat (byte c) = unat (byte d)" by simp
  moreover have b: "(of_char x :: nat) < 2 ^ 64" for x :: char
    using nat_of_char_less_256 [of x] by (rule less_trans) simp
  ultimately have "(of_char c :: nat) = of_char d"
    by (simp add: byte_def unat_of_nat take_bit_nat_eq_self [OF b])
  then show "c = d" by simp
qed simp

lemma fnv_prime_inverse: "(1099511628211 :: 64 word) * 14886173955864302971 = 1"
  by simp

lemma djb_mult_inverse: "(33 :: 64 word) * 1117984489315730401 = 1"
  by simp

lemma word_mult_cancel:
  fixes a b p q :: "64 word"
  assumes "p * q = 1"
  shows "a * p = b * p \<longleftrightarrow> a = b"
proof
  assume "a * p = b * p"
  then have "a * (p * q) = b * (p * q)" by (simp only: mult.assoc [symmetric])
  then show "a = b" using assms by simp
qed simp

lemma word_xor_cancel:
  fixes a b c :: "64 word"
  shows "a XOR c = b XOR c \<longleftrightarrow> a = b" "c XOR a = c XOR b \<longleftrightarrow> a = b"
  by (auto simp: bit_eq_iff bit_xor_iff)

lemma fnv_step_state: "fnv_step c h = fnv_step c k \<longleftrightarrow> h = k"
  by (simp only: fnv_step_def word_mult_cancel [OF fnv_prime_inverse] word_xor_cancel)

lemma fnv_step_byte: "fnv_step c h = fnv_step d h \<longleftrightarrow> c = d"
  by (simp only: fnv_step_def word_mult_cancel [OF fnv_prime_inverse] word_xor_cancel byte_inj)

lemma djb_step_state: "djb_step c h = djb_step c k \<longleftrightarrow> h = k"
  by (simp only: djb_step_def add_right_cancel word_mult_cancel [OF djb_mult_inverse])

lemma djb_step_byte: "djb_step c h = djb_step d h \<longleftrightarrow> c = d"
  by (simp only: djb_step_def add_left_cancel byte_inj)

text \<open>A hash whose byte step is injective in the state and in the byte.\<close>

locale stepwise_hash =
  fixes step :: "char \<Rightarrow> 64 word \<Rightarrow> 64 word"
  assumes state_inj: "step c h = step c k \<longleftrightarrow> h = k"
    and byte_step_inj: "step c h = step d h \<longleftrightarrow> c = d"
begin

lemma fold_state_inj: "fold step s h = fold step s k \<longleftrightarrow> h = k"
  by (induction s arbitrary: h k) (simp_all add: state_inj)

lemma one_byte: "fold step (a @ c # b) h = fold step (a @ d # b) h \<longleftrightarrow> c = d"
  by (simp add: fold_state_inj byte_step_inj)

end

interpretation fnv: stepwise_hash fnv_step
  by unfold_locales (simp_all add: fnv_step_state fnv_step_byte)

interpretation djb: stepwise_hash djb_step
  by unfold_locales (simp_all add: djb_step_state djb_step_byte)

section \<open>Properties\<close>

text \<open>Two strings that differ in exactly one byte have different FNV-1a and djb2 hashes, and
  \<^verbatim>\<open>HashCombine\<close> is injective in the combined value for each seed.\<close>

theorem hash_separates:
  "(Fnv1a (a @ c # b) = Fnv1a (a @ d # b) \<longleftrightarrow> c = d) \<and>
   (Djb2 (a @ c # b) = Djb2 (a @ d # b) \<longleftrightarrow> c = d) \<and>
   (HashCombine seed v = HashCombine seed w \<longleftrightarrow> v = w)"
  unfolding Fnv1a_def Djb2_def HashCombine_def
  by (simp only: fnv.one_byte djb.one_byte word_xor_cancel add_right_cancel)

end
