(* ===== verification/ResultScope.thy ===== *)
theory ResultScope
  imports Prelude
begin

text \<open>
  \<^verbatim>\<open>toolkit::Result<T, E>\<close> (with its \<^verbatim>\<open>void\<close> specialisation) and \<^verbatim>\<open>toolkit::ScopeGuard\<close>.  A \<^verbatim>\<open>Result\<close> keeps two optionals;
  the private default constructor makes \<^verbatim>\<open>Ok\<close> and \<^verbatim>\<open>Err\<close> the only ways to build one, so exactly one of
  them is set.  A guard is its callable and its armed flag; destruction returns the callables run.
\<close>

section \<open>Model\<close>

record ('t, 'e) Result =
  res_value :: "'t option"
  res_error :: "'e option"

definition Result_Ok :: "'t \<Rightarrow> ('t, 'e) Result" where
  "Result_Ok v = \<lparr>res_value = Some v, res_error = None\<rparr>"

definition Result_Err :: "'e \<Rightarrow> ('t, 'e) Result" where
  "Result_Err e = \<lparr>res_value = None, res_error = Some e\<rparr>"

definition Result_ok :: "('t, 'e) Result \<Rightarrow> bool" where
  "Result_ok r = (res_value r \<noteq> None)"

definition ErrorText :: "('t, string) Result \<Rightarrow> string" where
  "ErrorText r = (case res_error r of Some e \<Rightarrow> e | None \<Rightarrow> ''Result has no value'')"

definition Result_value :: "('t, string) Result \<Rightarrow> 't res" where
  "Result_value r = (case res_value r of None \<Rightarrow> Throw (RuntimeError (ErrorText r)) | Some v \<Rightarrow> Ok v)"

definition Result_value_or :: "('t, 'e) Result \<Rightarrow> 't \<Rightarrow> 't" where
  "Result_value_or r fallback = (case res_value r of None \<Rightarrow> fallback | Some v \<Rightarrow> v)"

definition Result_error :: "('t, 'e) Result \<Rightarrow> 'e res" where
  "Result_error r = (case res_error r of
     None \<Rightarrow> Throw (LogicError ''Result::error: no error present'') | Some e \<Rightarrow> Ok e)"

record 'e VoidResult =
  res_verror :: "'e option"

definition VoidResult_Ok :: "'e VoidResult" where
  "VoidResult_Ok = \<lparr>res_verror = None\<rparr>"

definition VoidResult_Err :: "'e \<Rightarrow> 'e VoidResult" where
  "VoidResult_Err e = \<lparr>res_verror = Some e\<rparr>"

definition VoidResult_ok :: "'e VoidResult \<Rightarrow> bool" where
  "VoidResult_ok r = (res_verror r = None)"

definition VoidResult_error :: "'e VoidResult \<Rightarrow> 'e res" where
  "VoidResult_error r = (case res_verror r of
     None \<Rightarrow> Throw (LogicError ''Result::error: no error present'') | Some e \<Rightarrow> Ok e)"

record 'f ScopeGuard =
  guard_fn :: "'f option"
  guard_armed :: bool

definition MakeScopeGuard :: "'f \<Rightarrow> 'f ScopeGuard" where
  "MakeScopeGuard f = \<lparr>guard_fn = Some f, guard_armed = True\<rparr>"

definition guard_destroy :: "'f ScopeGuard \<Rightarrow> 'f list" where
  "guard_destroy g = (if guard_armed g then (case guard_fn g of None \<Rightarrow> [] | Some f \<Rightarrow> [f]) else [])"

text \<open>The move constructor: the new guard and the moved-from one.\<close>

definition guard_move :: "'f ScopeGuard \<Rightarrow> 'f ScopeGuard \<times> 'f ScopeGuard" where
  "guard_move other = (\<lparr>guard_fn = guard_fn other, guard_armed = guard_armed other\<rparr>, other\<lparr>guard_fn := None, guard_armed := False\<rparr>)"

definition Release :: "'f ScopeGuard \<Rightarrow> 'f ScopeGuard" where
  "Release g = g\<lparr>guard_armed := False\<rparr>"

text \<open>A guard handed on \<open>n\<close> times; every object of the chain is destroyed, newest first.\<close>

fun guard_chain :: "nat \<Rightarrow> 'f ScopeGuard \<Rightarrow> 'f list" where
  "guard_chain 0 g = guard_destroy g"
| "guard_chain (Suc n) g = (case guard_move g of (g', old) \<Rightarrow> guard_chain n g' @ guard_destroy old)"

section \<open>Lemmas\<close>

lemma guard_chain_runs: "guard_chain n g = guard_destroy g"
  by (induction n arbitrary: g) (auto simp: guard_move_def guard_destroy_def)

section \<open>Properties\<close>

text \<open>However often a guard is moved, destroying all objects of the chain runs the cleanup exactly
  once, and never after \<^verbatim>\<open>Release\<close>.\<close>

theorem ScopeGuard_runs_once:
  "guard_chain n (MakeScopeGuard f) = [f] \<and> guard_chain n (Release (MakeScopeGuard f)) = []"
  by (simp add: guard_chain_runs MakeScopeGuard_def guard_destroy_def Release_def)

end
