(* ===== verification/Profile.thy ===== *)
theory Profile
  imports Metric "HOL-Library.Multiset"
begin

text \<open>
  The flame-graph profiler of \<^verbatim>\<open>metric/profile\<close>: samples per call path, RAII scopes over the thread's
  path stack, the call tree built from the paths and the frames derived from it.  Nanosecond
  totals are integers (they stay far below \<open>2^63\<close>); the hash maps are association lists, whose order stands
  for the unspecified iteration order.
\<close>

section \<open>Model\<close>

record FlameGraphProfiler =
  pf_enabled :: bool
  pf_total :: "(string \<times> int) list"
  pf_count :: "(string \<times> int) list"

definition Enable :: "FlameGraphProfiler \<Rightarrow> FlameGraphProfiler" where
  "Enable p = p\<lparr>pf_enabled := True\<rparr>"

definition Disable :: "FlameGraphProfiler \<Rightarrow> FlameGraphProfiler" where
  "Disable p = p\<lparr>pf_enabled := False\<rparr>"

definition PathStackPush :: "string \<Rightarrow> string list \<Rightarrow> string list" where
  "PathStackPush name stack = stack @ [name]"

definition PathStackPop :: "string list \<Rightarrow> string list" where
  "PathStackPop stack = (if stack \<noteq> [] then butlast stack else stack)"

definition PathJoin :: "string list \<Rightarrow> string" where
  "PathJoin stack = Join stack ''::''"

definition AddSample :: "string \<Rightarrow> int \<Rightarrow> FlameGraphProfiler \<Rightarrow> FlameGraphProfiler" where
  "AddSample path elapsed p =
    (if \<not> pf_enabled p then p
     else p\<lparr>pf_total := AList.update path (at_or 0 (pf_total p) path + elapsed) (pf_total p),
            pf_count := AList.update path (at_or 0 (pf_count p) path + 1) (pf_count p)\<rparr>)"

definition Profiler_Reset :: "FlameGraphProfiler \<Rightarrow> FlameGraphProfiler" where
  "Profiler_Reset p = p\<lparr>pf_total := [], pf_count := []\<rparr>"

datatype Node = Node (nd_name: string) (nd_total: int) (nd_count: int) (nd_children: "Node list")

text \<open>\<^verbatim>\<open>insert\<close>: the first child with the name is taken, otherwise one is appended; the last part of the
  path receives the values.  The path is never empty, because \<^verbatim>\<open>Split\<close> returns at least one part.\<close>

fun tree_insert :: "string list \<Rightarrow> int \<Rightarrow> int \<Rightarrow> Node list \<Rightarrow> Node list" where
  "tree_insert [] tot cnt cs = cs"
| "tree_insert (p # ps) tot cnt [] =
    [if ps = [] then Node p tot cnt [] else Node p 0 0 (tree_insert ps tot cnt [])]"
| "tree_insert (p # ps) tot cnt (Node n t c ch # rest) =
    (if n = p
     then (if ps = [] then Node n (t + tot) (c + cnt) ch else Node n t c (tree_insert ps tot cnt ch)) # rest
     else Node n t c ch # tree_insert (p # ps) tot cnt rest)"

datatype Frame = Frame (fr_name: string) (fr_self: int) (fr_total: int) (fr_count: int) (fr_children: "Frame list")

fun to_frame :: "Node \<Rightarrow> Frame" where
  "to_frame (Node n t c ch) =
    (let fs = map to_frame ch; kids = sum_list (map fr_total fs)
     in Frame n (t - kids) t c (sort_key (\<lambda>f. - fr_total f) fs))"

definition insert_entry :: "FlameGraphProfiler \<Rightarrow> string \<times> int \<Rightarrow> Node list \<Rightarrow> Node list res" where
  "insert_entry p = (\<lambda>(path, tot) cs. case map_of (pf_count p) path of
     None \<Rightarrow> Throw (OutOfRange ''unordered_map::at'')
   | Some c \<Rightarrow> Ok (tree_insert (Split path ''::'' False) tot c cs))"

definition Snapshot_tree :: "FlameGraphProfiler \<Rightarrow> Node list res" where
  "Snapshot_tree p = foldR (insert_entry p) (pf_total p) []"

definition Snapshot :: "FlameGraphProfiler \<Rightarrow> Frame res" where
  "Snapshot p = bindR (Snapshot_tree p) (\<lambda>cs. Ok (Frame ''root'' 0 0 0 (map to_frame cs)))"

definition CollapsedStacks :: "FlameGraphProfiler \<Rightarrow> string res" where
  "CollapsedStacks p = foldR (\<lambda>(path, tot) out. case map_of (pf_count p) path of
      None \<Rightarrow> Throw (OutOfRange ''unordered_map::at'')
    | Some c \<Rightarrow> Ok (out @ Join (rev (Split path ''::'' False)) '';'' @ '' '' @ int_to_string c @ [CHR 0x0A]))
    (pf_total p) []"

record Scope =
  sc_name :: string
  sc_start :: int
  sc_active :: bool

definition Scope_enter :: "FlameGraphProfiler \<Rightarrow> string \<Rightarrow> int \<Rightarrow> string list \<Rightarrow> Scope \<times> string list" where
  "Scope_enter p name now stack =
    (if \<not> pf_enabled p then (\<lparr>sc_name = name, sc_start = 0, sc_active = False\<rparr>, stack)
     else (\<lparr>sc_name = name, sc_start = now, sc_active = True\<rparr>, PathStackPush name stack))"

definition Scope_exit :: "Scope \<Rightarrow> int \<Rightarrow> string list \<Rightarrow> FlameGraphProfiler \<Rightarrow> string list \<times> FlameGraphProfiler" where
  "Scope_exit sc now stack p =
    (if \<not> sc_active sc then (stack, p)
     else (PathStackPop stack, AddSample (PathJoin stack) (now - sc_start sc) p))"

text \<open>What the sampler thread emits at each tick.\<close>

definition sample_event :: "FlameGraphProfiler \<Rightarrow> Event res" where
  "sample_event p = bindR (Snapshot p) (\<lambda>root. Ok (
     attr ''samples'' (int_to_string (sum_list (map fr_count (fr_children root))))
       (attr_ns ''total_ns'' (sum_list (map fr_total (fr_children root)))
         (Event_new ''metric'' ''profile.sample'' ''flamegraph''))))"

text \<open>A thread's instrumented calls: nested scopes, with the profiler switched on or off anywhere.  The
  clock is read once on entry and once on exit; \<open>clk\<close> gives the successive readings.\<close>

datatype act = Call string "act list" | Switch bool

fun run_acts :: "(nat \<Rightarrow> int) \<Rightarrow> act list \<Rightarrow> nat \<times> string list \<times> FlameGraphProfiler
    \<Rightarrow> nat \<times> string list \<times> FlameGraphProfiler" where
  "run_acts clk [] s = s"
| "run_acts clk (Switch b # as) (i, stack, p) =
    run_acts clk as (i, stack, if b then Enable p else Disable p)"
| "run_acts clk (Call name body # as) (i, stack, p) =
    (case Scope_enter p name (clk i) stack of (sc, stack1) \<Rightarrow>
      case run_acts clk body (Suc i, stack1, p) of (j, stack2, p2) \<Rightarrow>
        case Scope_exit sc (clk j) stack2 p2 of (stack3, p3) \<Rightarrow> run_acts clk as (Suc j, stack3, p3))"

section \<open>The call tree\<close>

fun node_val :: "string list \<Rightarrow> Node list \<Rightarrow> int \<times> int" where
  "node_val [] cs = (0, 0)"
| "node_val (p # ps) [] = (0, 0)"
| "node_val (p # ps) (Node n t c ch # rest) =
    (if n = p then (if ps = [] then (t, c) else node_val ps ch) else node_val (p # ps) rest)"

definition padd :: "int \<times> int \<Rightarrow> int \<times> int \<Rightarrow> int \<times> int" where
  "padd a b = (fst a + fst b, snd a + snd b)"

lemma padd_simps [simp]: "padd (0, 0) b = b" "padd b (0, 0) = b" "padd (a, c) (x, y) = (a + x, c + y)"
  by (simp_all add: padd_def)

lemma node_val_empty [simp]: "node_val qs [] = (0, 0)"
  by (cases qs) auto

lemma node_val_insert:
  "ps \<noteq> [] \<Longrightarrow> qs \<noteq> [] \<Longrightarrow>
    node_val qs (tree_insert ps t c cs) = padd (node_val qs cs) (if qs = ps then (t, c) else (0, 0))"
proof (induction ps t c cs arbitrary: qs rule: tree_insert.induct)
  case (2 p ps t c)
  then obtain q qs' where [simp]: "qs = q # qs'" by (cases qs) auto
  show ?case using 2 by (cases "qs' = []"; cases "ps = []") auto
next
  case (3 p ps t c n t' c' ch rest)
  then obtain q qs' where [simp]: "qs = q # qs'" by (cases qs) auto
  show ?case using 3 by (cases "qs' = []"; cases "ps = []") auto
qed simp

definition prof_inv :: "FlameGraphProfiler \<Rightarrow> bool" where
  "prof_inv p = (distinct (keys (pf_total p)) \<and> set (keys (pf_total p)) = set (keys (pf_count p)))"

lemma AddSample_inv: "prof_inv p \<Longrightarrow> prof_inv (AddSample path ns p)"
  by (simp add: prof_inv_def AddSample_def keys_update_set del: set_map)

lemma snapshot_fold:
  assumes "\<And>path t. (path, t) \<in> set es \<Longrightarrow> path \<in> set (keys (pf_count p))" "distinct (keys es)"
  shows "\<exists>cs'. foldR (insert_entry p) es cs = Inr cs' \<and>
    (\<forall>path. node_val (Split path ''::'' False) cs' =
       padd (node_val (Split path ''::'' False) cs)
         (case map_of es path of None \<Rightarrow> (0, 0) | Some t \<Rightarrow> (t, at_or 0 (pf_count p) path)))"
  using assms
proof (induction es arbitrary: cs)
  case (Cons e es)
  obtain path t where e: "e = (path, t)" by (cases e)
  have "path \<in> set (keys (pf_count p))" using Cons.prems(1) [of path t] e by simp
  then obtain c where c: "map_of (pf_count p) path = Some c"
    using map_of_None_iff [of "pf_count p" path] by fastforce
  let ?cs = "tree_insert (Split path ''::'' False) t c cs"
  have i: "insert_entry p e cs = Inr ?cs" by (simp add: insert_entry_def e c)
  obtain cs' where cs': "foldR (insert_entry p) es ?cs = Inr cs'"
    "\<And>q. node_val (Split q ''::'' False) cs' = padd (node_val (Split q ''::'' False) ?cs)
        (case map_of es q of None \<Rightarrow> (0, 0) | Some t \<Rightarrow> (t, at_or 0 (pf_count p) q))"
    using Cons.IH [of ?cs] Cons.prems by (auto simp: e)
  have new: "map_of es path = None" using Cons.prems(2) by (simp add: e map_of_None_iff)
  have "node_val (Split q ''::'' False) cs' = padd (node_val (Split q ''::'' False) cs)
      (case map_of (e # es) q of None \<Rightarrow> (0, 0) | Some t \<Rightarrow> (t, at_or 0 (pf_count p) q))" for q
    using cs'(2) [of q] new c
    by (auto simp: node_val_insert Split_ne Split_inj e at_or_def)
  then show ?case using cs'(1) i by auto
qed simp

lemma Snapshot_tree_ok:
  assumes "prof_inv p"
  obtains cs where "Snapshot_tree p = Inr cs"
    "\<And>path. node_val (Split path ''::'' False) cs = (at_or 0 (pf_total p) path, at_or 0 (pf_count p) path)"
proof -
  have mem: "path \<in> set (keys (pf_count p))" if "(path, t) \<in> set (pf_total p)" for path t
    using that assms unfolding prof_inv_def by (metis fst_conv image_eqI list.set_map)
  obtain cs where cs: "Snapshot_tree p = Inr cs"
    "\<And>path. node_val (Split path ''::'' False) cs =
       (case map_of (pf_total p) path of None \<Rightarrow> (0, 0) | Some t \<Rightarrow> (t, at_or 0 (pf_count p) path))"
    using snapshot_fold [of "pf_total p" p "[]"] mem assms by (auto simp: Snapshot_tree_def prof_inv_def)
  have "map_of (pf_total p) path = None \<longleftrightarrow> map_of (pf_count p) path = None" for path
    using assms unfolding prof_inv_def map_of_None_iff by metis
  then have "(case map_of (pf_total p) path of None \<Rightarrow> (0, 0) | Some t \<Rightarrow> (t, at_or 0 (pf_count p) path))
      = (at_or 0 (pf_total p) path, at_or 0 (pf_count p) path)" for path
    by (auto simp: at_or_def split: option.splits) (metis option.distinct(1))+
  then show ?thesis using that cs by auto
qed

text \<open>Exclusive time summed over a frame and everything below it.\<close>

fun self_sum :: "Frame \<Rightarrow> int" where
  "self_sum (Frame n s t c ch) = s + sum_list (map self_sum ch)"

lemma sum_list_sort: "sum_list (map f (sort_key k xs)) = sum_list (map (f :: 'a \<Rightarrow> int) xs)"
  by (metis mset_map mset_sort sum_mset_sum_list)

lemma fr_total_to_frame [simp]: "fr_total (to_frame n) = nd_total n"
  by (cases n) (simp add: Let_def)

lemma self_sum_to_frame: "self_sum (to_frame n) = nd_total n"
proof (induction n)
  case (Node n t c ch)
  then have "sum_list (map (self_sum \<circ> to_frame) ch) = sum_list (map nd_total ch)"
    by (simp cong: map_cong)
  then show ?case by (simp add: Let_def sum_list_sort comp_def)
qed

section \<open>Properties\<close>

text \<open>A thread's path stack is restored by any well-nested sequence of scopes, even when the
  profiler is switched on or off between their entries and exits.\<close>

theorem Scope_stack_balanced:
  "fst (snd (run_acts clk as (i, stack, p))) = stack"
proof (induction clk as "(i, stack, p)" arbitrary: i stack p rule: run_acts.induct)
  case (3 clk name body as i stack p)
  obtain sc stack1 where e: "Scope_enter p name (clk i) stack = (sc, stack1)" by fastforce
  obtain j stack2 p2 where b: "run_acts clk body (Suc i, stack1, p) = (j, stack2, p2)" by (metis prod_cases3)
  obtain stack3 p3 where x: "Scope_exit sc (clk j) stack2 p2 = (stack3, p3)" by fastforce
  have "stack2 = stack1" using 3(1) [OF e [symmetric]] b by simp
  then have "stack3 = stack"
    using e x by (auto simp: Scope_enter_def Scope_exit_def PathStackPush_def PathStackPop_def split: if_splits)
  then show ?case using 3(2) [OF e [symmetric] b [symmetric] refl x [symmetric]] e b x by simp
qed simp_all


definition demo_profiler :: FlameGraphProfiler where
  "demo_profiler = AddSample ''a::b'' 3 (AddSample ''a'' 5 \<lparr>pf_enabled = True, pf_total = [], pf_count = []\<rparr>)"


end
