(* ===== verification/Cache.thy ===== *)
theory Cache
  imports Metric
begin

text \<open>
  \<^verbatim>\<open>cache::LocalCache\<close>: a hash map of entries beside a recency list (most recent first), with time-to-live
  and eviction of the least recently used entry.  Every operation is the critical section under the
  cache's mutex, with the clock reading as an argument (nanoseconds; time to live in milliseconds).
  The events handed to the monitor are appended to \<^verbatim>\<open>lc_log\<close>.

  The two structures refine one recency-ordered list of entries (\<^verbatim>\<open>spec_get\<close>, \<^verbatim>\<open>spec_put\<close>), and the
  locale \<^verbatim>\<open>kv_cache\<close> states what every implementation of the \<^verbatim>\<open>Cache\<close> interface promises.
\<close>

section \<open>Model\<close>

record CacheOptions =
  co_capacity :: nat
  co_default_ttl :: int
  co_name :: string
  co_monitor :: bool

record Entry =
  en_value :: string
  en_has_ttl :: bool
  en_expires_at :: int

record LocalCache =
  lc_options :: CacheOptions
  lc_entries :: "(string \<times> Entry) list"
  lc_lru :: "string list"
  lc_log :: "Event list"

definition LocalCache_new :: "CacheOptions \<Rightarrow> LocalCache" where
  "LocalCache_new opts = \<lparr>lc_options = opts, lc_entries = [], lc_lru = [], lc_log = []\<rparr>"

definition LocalCache_Emit :: "string \<Rightarrow> string \<Rightarrow> bool \<Rightarrow> LocalCache \<Rightarrow> LocalCache" where
  "LocalCache_Emit action key ok c =
    (if \<not> co_monitor (lc_options c) then c
     else c\<lparr>lc_log := lc_log c @ [(Event_new ''cache'' action key)\<lparr>ev_ok := ok\<rparr>]\<rparr>)"

definition IsExpired :: "Entry \<Rightarrow> int \<Rightarrow> bool" where
  "IsExpired e now = (en_has_ttl e \<and> now \<ge> en_expires_at e)"

definition ms_to_ns :: "int \<Rightarrow> int" where
  "ms_to_ns t = t * 1000000"

definition LocalCache_Get :: "string \<Rightarrow> int \<Rightarrow> LocalCache \<Rightarrow> string option \<times> LocalCache" where
  "LocalCache_Get key now c = (case map_of (lc_entries c) key of
     None \<Rightarrow> (None, LocalCache_Emit ''cache.miss'' key True c)
   | Some e \<Rightarrow>
       if IsExpired e now then
         (None, LocalCache_Emit ''cache.miss'' key True
            (c\<lparr>lc_lru := removeAll key (lc_lru c), lc_entries := AList.delete key (lc_entries c)\<rparr>))
       else (Some (en_value e), LocalCache_Emit ''cache.hit'' key True
            (c\<lparr>lc_lru := key # removeAll key (lc_lru c)\<rparr>)))"

function evict :: "LocalCache \<Rightarrow> LocalCache" where
  "evict c =
    (if lc_lru c \<noteq> [] \<and> length (lc_entries c) \<ge> co_capacity (lc_options c) then
       (let victim = last (lc_lru c)
        in evict (LocalCache_Emit ''cache.evict'' victim True
             (c\<lparr>lc_lru := butlast (lc_lru c), lc_entries := AList.delete victim (lc_entries c)\<rparr>)))
     else c)"
  by pat_completeness auto
termination
  by (relation "measure (\<lambda>c. length (lc_lru c))") (auto simp: LocalCache_Emit_def)

declare evict.simps [simp del]

definition make_entry :: "string \<Rightarrow> int \<Rightarrow> int \<Rightarrow> Entry" where
  "make_entry value t now = \<lparr>en_value = value, en_has_ttl = (t > 0), en_expires_at = now + ms_to_ns t\<rparr>"

definition LocalCache_Put :: "string \<Rightarrow> string \<Rightarrow> int \<Rightarrow> int \<Rightarrow> LocalCache \<Rightarrow> LocalCache" where
  "LocalCache_Put key value ttl now c =
    (let t = (if ttl > 0 then ttl else co_default_ttl (lc_options c))
     in if map_of (lc_entries c) key \<noteq> None then
          LocalCache_Emit ''cache.put'' key True
            (c\<lparr>lc_entries := AList.update key (make_entry value t now) (lc_entries c),
               lc_lru := key # removeAll key (lc_lru c)\<rparr>)
        else
          (let c1 = (if co_capacity (lc_options c) > 0
                        \<and> length (lc_entries c) \<ge> co_capacity (lc_options c) then evict c else c)
           in LocalCache_Emit ''cache.put'' key True
                (c1\<lparr>lc_entries := AList.update key (make_entry value t now) (lc_entries c1),
                    lc_lru := key # lc_lru c1\<rparr>)))"

definition LocalCache_Remove :: "string \<Rightarrow> LocalCache \<Rightarrow> bool \<times> LocalCache" where
  "LocalCache_Remove key c =
    (if map_of (lc_entries c) key = None then (False, c)
     else (True, LocalCache_Emit ''cache.remove'' key True
       (c\<lparr>lc_entries := AList.delete key (lc_entries c), lc_lru := removeAll key (lc_lru c)\<rparr>)))"

definition LocalCache_Clear :: "LocalCache \<Rightarrow> LocalCache" where
  "LocalCache_Clear c = LocalCache_Emit ''cache.clear'' [] True (c\<lparr>lc_entries := [], lc_lru := []\<rparr>)"

definition LocalCache_size :: "LocalCache \<Rightarrow> nat" where
  "LocalCache_size c = length (lc_entries c)"

section \<open>Invariant and abstraction\<close>

definition cache_inv :: "LocalCache \<Rightarrow> bool" where
  "cache_inv c = (distinct (keys (lc_entries c)) \<and> distinct (lc_lru c)
     \<and> set (lc_lru c) = set (keys (lc_entries c))
     \<and> (co_capacity (lc_options c) > 0 \<longrightarrow> length (lc_entries c) \<le> co_capacity (lc_options c)))"

text \<open>The recency-ordered list of entries the two structures stand for.\<close>

definition cache_abs :: "LocalCache \<Rightarrow> (string \<times> Entry) list" where
  "cache_abs c = map (\<lambda>k. (k, the (map_of (lc_entries c) k))) (lc_lru c)"

definition spec_get :: "string \<Rightarrow> int \<Rightarrow> (string \<times> Entry) list \<Rightarrow> string option \<times> (string \<times> Entry) list" where
  "spec_get k now L = (case map_of L k of
     None \<Rightarrow> (None, L)
   | Some e \<Rightarrow> if IsExpired e now then (None, AList.delete k L)
       else (Some (en_value e), (k, e) # AList.delete k L))"

definition spec_put :: "nat \<Rightarrow> string \<Rightarrow> Entry \<Rightarrow> (string \<times> Entry) list \<Rightarrow> (string \<times> Entry) list" where
  "spec_put cap k e L =
    (k, e) # (if map_of L k \<noteq> None then AList.delete k L else if cap > 0 then take (cap - 1) L else L)"

lemma Emit_simps [simp]:
  "lc_entries (LocalCache_Emit a k b c) = lc_entries c"
  "lc_lru (LocalCache_Emit a k b c) = lc_lru c"
  "lc_options (LocalCache_Emit a k b c) = lc_options c"
  by (simp_all add: LocalCache_Emit_def)

lemma cache_inv_length: "cache_inv c \<Longrightarrow> length (lc_lru c) = length (lc_entries c)"
  unfolding cache_inv_def by (metis distinct_card length_map)

lemma cache_abs_keys [simp]: "keys (cache_abs c) = lc_lru c"
  by (simp add: cache_abs_def comp_def)

lemma map_of_pairs: "map_of (map (\<lambda>k. (k, f k)) ks) k = (if k \<in> set ks then Some (f k) else None)"
  by (induction ks) auto

lemma map_of_cache_abs: "cache_inv c \<Longrightarrow> map_of (cache_abs c) = map_of (lc_entries c)"
proof
  fix k assume inv: "cache_inv c"
  then have "k \<in> set (lc_lru c) \<longleftrightarrow> map_of (lc_entries c) k \<noteq> None"
    unfolding cache_inv_def map_of_None_iff by blast
  then show "map_of (cache_abs c) k = map_of (lc_entries c) k"
    by (auto simp: cache_abs_def map_of_pairs)
qed

lemma delete_pairs: "AList.delete k (map (\<lambda>k. (k, f k)) ks) = map (\<lambda>k. (k, f k)) (removeAll k ks)"
  by (induction ks) auto

lemma set_keys_delete: "set (keys (AList.delete k m)) = set (keys m) - {k}"
  unfolding set_keys_dom by auto

lemma set_keys_update: "set (keys (AList.update k v m)) = insert k (set (keys m))"
  unfolding set_keys_dom by simp

lemma length_update_present: "k \<in> set (keys m) \<Longrightarrow> length (AList.update k v m) = length m"
  by (induction m) auto

lemma length_update_absent: "k \<notin> set (keys m) \<Longrightarrow> length (AList.update k v m) = Suc (length m)"
  by (induction m) auto

lemma pairs_cong_delete:
  "k \<notin> set ks \<Longrightarrow> map (\<lambda>j. (j, the (map_of (AList.delete k m) j))) ks = map (\<lambda>j. (j, the (map_of m j))) ks"
  by (intro map_cong) auto

lemma pairs_cong_update:
  "k \<notin> set ks \<Longrightarrow> map (\<lambda>j. (j, the (map_of (AList.update k v m) j))) ks = map (\<lambda>j. (j, the (map_of m j))) ks"
  by (intro map_cong) auto

lemmas cache_inv_simps = cache_inv_def set_keys_delete set_keys_update set_removeAll

section \<open>Eviction\<close>

lemma evict_spec:
  assumes "distinct (keys (lc_entries c))" "distinct (lc_lru c)" "set (lc_lru c) = set (keys (lc_entries c))"
    and "co_capacity (lc_options c) > 0"
  shows "lc_options (evict c) = lc_options c
    \<and> distinct (keys (lc_entries (evict c)))
    \<and> lc_lru (evict c) = take (co_capacity (lc_options c) - 1) (lc_lru c)
    \<and> set (lc_lru (evict c)) = set (keys (lc_entries (evict c)))
    \<and> (\<forall>k \<in> set (lc_lru (evict c)). map_of (lc_entries (evict c)) k = map_of (lc_entries c) k)"
  using assms
proof (induction c rule: evict.induct)
  case (1 c)
  have len: "length (lc_lru c) = length (lc_entries c)" using 1(2,3,4) by (metis distinct_card length_map)
  show ?case
  proof (cases "lc_lru c \<noteq> [] \<and> length (lc_entries c) \<ge> co_capacity (lc_options c)")
    case False
    then have "take (co_capacity (lc_options c) - 1) (lc_lru c) = lc_lru c"
      using len 1(5) by auto
    moreover have "evict c = c" using False by (subst evict.simps) (rule if_not_P)
    ultimately show ?thesis using 1(2-4) by simp
  next
    case True
    let ?v = "last (lc_lru c)"
    define d where "d = LocalCache_Emit ''cache.evict'' ?v True
      (c\<lparr>lc_lru := butlast (lc_lru c), lc_entries := AList.delete ?v (lc_entries c)\<rparr>)"
    have d [simp]: "lc_lru d = butlast (lc_lru c)" "lc_entries d = AList.delete ?v (lc_entries c)"
      "lc_options d = lc_options c" by (simp_all add: d_def)
    have sp: "lc_lru c = butlast (lc_lru c) @ [?v]" using True by simp
    then have vn: "?v \<notin> set (butlast (lc_lru c))" using 1(3) by (metis distinct_append not_distinct_conv_prefix)
    have "set (lc_lru c) = insert ?v (set (butlast (lc_lru c)))" by (subst sp) simp
    then have st: "set (lc_lru d) = set (keys (lc_entries d))"
      using 1(4) set_keys_delete [of ?v "lc_entries c"] vn by simp
    have e: "evict c = evict d"
      unfolding d_def using True by (subst evict.simps) (simp add: Let_def)
    have p: "distinct (keys (lc_entries d))" "distinct (lc_lru d)" "co_capacity (lc_options d) > 0"
      using 1(2,3,5) by (simp_all add: distinct_butlast)
    note ih0 = 1(1) [OF True refl, folded d_def, OF p(1,2) st p(3)]
    have tk: "take (co_capacity (lc_options c) - 1) (butlast (lc_lru c)) = take (co_capacity (lc_options c) - 1) (lc_lru c)"
      using len True 1(5) by (intro take_butlast) auto
    have ih: "lc_options (evict d) = lc_options c" "distinct (keys (lc_entries (evict d)))"
      "lc_lru (evict d) = take (co_capacity (lc_options c) - 1) (lc_lru c)"
      "set (lc_lru (evict d)) = set (keys (lc_entries (evict d)))"
      "\<And>k. k \<in> set (lc_lru (evict d)) \<Longrightarrow> map_of (lc_entries (evict d)) k = map_of (lc_entries d) k"
      using ih0 unfolding d(1,3) tk by blast+
    have "map_of (lc_entries (evict d)) k = map_of (lc_entries c) k" if "k \<in> set (lc_lru (evict d))" for k
    proof -
      have "k \<in> set (butlast (lc_lru c))" using that in_set_takeD unfolding ih(3) tk [symmetric] by metis
      then show ?thesis using ih(5) [OF that] vn by auto
    qed
    then show ?thesis unfolding e using ih(1-4) by blast
  qed
qed

section \<open>Each operation refines the recency list\<close>

lemma Get_refines:
  assumes "cache_inv c"
  shows "cache_inv (snd (LocalCache_Get k now c))"
    "fst (LocalCache_Get k now c) = fst (spec_get k now (cache_abs c))"
    "cache_abs (snd (LocalCache_Get k now c)) = snd (spec_get k now (cache_abs c))"
proof -
  note m = map_of_cache_abs [OF assms]
  have len: "length (AList.delete k (lc_entries c)) \<le> length (lc_entries c)" by (rule length_delete_le)
  show "cache_inv (snd (LocalCache_Get k now c))"
  proof (cases "map_of (lc_entries c) k")
    case (Some e)
    then have "k \<in> set (keys (lc_entries c))" using map_of_None_iff [of "lc_entries c" k] by auto
    then show ?thesis
      using assms Some len by (auto simp: LocalCache_Get_def cache_inv_simps distinct_removeAll simp del: set_map)
  qed (use assms in \<open>simp add: LocalCache_Get_def cache_inv_def\<close>)
  show "fst (LocalCache_Get k now c) = fst (spec_get k now (cache_abs c))"
    by (auto simp: LocalCache_Get_def spec_get_def m split: option.splits)
  have dl: "AList.delete k (cache_abs c) = map (\<lambda>j. (j, the (map_of (lc_entries c) j))) (removeAll k (lc_lru c))"
    unfolding cache_abs_def by (rule delete_pairs)
  show "cache_abs (snd (LocalCache_Get k now c)) = snd (spec_get k now (cache_abs c))"
  proof (cases "map_of (lc_entries c) k")
    case None
    then show ?thesis unfolding LocalCache_Get_def spec_get_def m by (simp add: cache_abs_def)
  next
    case (Some e)
    then show ?thesis
      unfolding LocalCache_Get_def spec_get_def m dl
      using pairs_cong_delete [of k "removeAll k (lc_lru c)" "lc_entries c"]
      by (simp add: cache_abs_def)
  qed
qed

text \<open>Storing a key that is present overwrites its entry and moves it to the front.\<close>

lemma overwrite_refines:
  fixes c e
  assumes inv: "cache_inv c" and k: "map_of (lc_entries c) k = Some old"
  defines "c' \<equiv> c\<lparr>lc_entries := AList.update k e (lc_entries c), lc_lru := k # removeAll k (lc_lru c)\<rparr>"
  shows "cache_inv c'" "cache_abs c' = spec_put (co_capacity (lc_options c)) k e (cache_abs c)"
proof -
  note m = map_of_cache_abs [OF inv]
  have "k \<in> set (keys (lc_entries c))" using k map_of_None_iff [of "lc_entries c" k] by auto
  then show "cache_inv c'"
    using inv by (auto simp: c'_def cache_inv_simps distinct_removeAll length_update_present simp del: set_map)
  show "cache_abs c' = spec_put (co_capacity (lc_options c)) k e (cache_abs c)"
    using k pairs_cong_update [of k "removeAll k (lc_lru c)" e "lc_entries c"]
      delete_pairs [of k "\<lambda>j. the (map_of (lc_entries c) j)" "lc_lru c"]
    by (simp add: spec_put_def m) (simp add: cache_abs_def c'_def)
qed

text \<open>Making room before a new key goes in: at most \<open>cap - 1\<close> keys stay, the most recent ones, with their entries.\<close>

definition make_room :: "LocalCache \<Rightarrow> LocalCache" where
  "make_room c = (if co_capacity (lc_options c) > 0 \<and> length (lc_entries c) \<ge> co_capacity (lc_options c) then evict c else c)"

definition recent_keys :: "LocalCache \<Rightarrow> string list" where
  "recent_keys c = (if co_capacity (lc_options c) > 0 then take (co_capacity (lc_options c) - 1) (lc_lru c) else lc_lru c)"

lemma make_room_spec:
  assumes "cache_inv c"
  shows "lc_options (make_room c) = lc_options c" "distinct (keys (lc_entries (make_room c)))"
    "lc_lru (make_room c) = recent_keys c" "set (recent_keys c) = set (keys (lc_entries (make_room c)))"
    "\<And>j. j \<in> set (recent_keys c) \<Longrightarrow> map_of (lc_entries (make_room c)) j = map_of (lc_entries c) j"
    "set (recent_keys c) \<subseteq> set (lc_lru c)" "distinct (recent_keys c)"
    "co_capacity (lc_options c) > 0 \<Longrightarrow> length (lc_entries (make_room c)) < co_capacity (lc_options c)"
proof -
  let ?cap = "co_capacity (lc_options c)" and ?d = "make_room c"
  have "lc_options ?d = lc_options c \<and> distinct (keys (lc_entries ?d)) \<and> lc_lru ?d = recent_keys c
    \<and> set (lc_lru ?d) = set (keys (lc_entries ?d))
    \<and> (\<forall>j \<in> set (lc_lru ?d). map_of (lc_entries ?d) j = map_of (lc_entries c) j)"
  proof (cases "?cap > 0 \<and> length (lc_entries c) \<ge> ?cap")
    case True
    then have "?d = evict c" "recent_keys c = take (?cap - 1) (lc_lru c)" by (simp_all add: make_room_def recent_keys_def)
    then show ?thesis using evict_spec [of c] True assms unfolding cache_inv_def by metis
  next
    case False
    then have "?d = c" "recent_keys c = lc_lru c" using cache_inv_length [OF assms] by (auto simp: make_room_def recent_keys_def)
    then show ?thesis using assms unfolding cache_inv_def by simp
  qed
  then show d: "lc_options ?d = lc_options c" "distinct (keys (lc_entries ?d))" "lc_lru ?d = recent_keys c"
    "set (recent_keys c) = set (keys (lc_entries ?d))"
    "\<And>j. j \<in> set (recent_keys c) \<Longrightarrow> map_of (lc_entries ?d) j = map_of (lc_entries c) j" by metis+
  show s: "set (recent_keys c) \<subseteq> set (lc_lru c)" "distinct (recent_keys c)"
    using assms unfolding recent_keys_def cache_inv_def by (auto dest: in_set_takeD)
  show "?cap > 0 \<Longrightarrow> length (lc_entries ?d) < ?cap"
    using d(2,4) s(2) distinct_card [of "recent_keys c"] distinct_card [of "keys (lc_entries ?d)"]
    by (auto simp: recent_keys_def simp del: set_map)
qed

lemma insert_refines:
  fixes c e
  assumes inv: "cache_inv c" and none: "map_of (lc_entries c) k = None"
  defines "c' \<equiv> (make_room c)\<lparr>lc_entries := AList.update k e (lc_entries (make_room c)), lc_lru := k # lc_lru (make_room c)\<rparr>"
  shows "cache_inv c'" "cache_abs c' = spec_put (co_capacity (lc_options c)) k e (cache_abs c)"
proof -
  note m = map_of_cache_abs [OF inv] and d = make_room_spec [OF inv]
  have "k \<notin> set (lc_lru c)" using none inv by (simp add: map_of_None_iff cache_inv_def)
  then have kd: "k \<notin> set (recent_keys c)" using d(6) by auto
  then show "cache_inv c'"
    using d(1-4,7,8) by (auto simp: c'_def cache_inv_simps length_update_absent Suc_le_eq simp del: set_map)
  have "map (\<lambda>j. (j, the (map_of (lc_entries c') j))) (recent_keys c) = map (\<lambda>j. (j, the (map_of (lc_entries c) j))) (recent_keys c)"
    using d(5) kd by (intro map_cong) (auto simp: c'_def)
  then have "cache_abs c' = (k, e) # map (\<lambda>j. (j, the (map_of (lc_entries c) j))) (recent_keys c)"
    by (simp add: cache_abs_def c'_def d(3))
  then show "cache_abs c' = spec_put (co_capacity (lc_options c)) k e (cache_abs c)"
    using none by (simp add: spec_put_def m) (simp add: cache_abs_def recent_keys_def take_map)
qed

lemma Put_refines:
  fixes ttl :: int
  assumes "cache_inv c"
  defines "t \<equiv> (if ttl > 0 then ttl else co_default_ttl (lc_options c))"
  shows "cache_inv (LocalCache_Put k v ttl now c)"
    "cache_abs (LocalCache_Put k v ttl now c)
      = spec_put (co_capacity (lc_options c)) k (make_entry v t now) (cache_abs c)"
proof -
  have emit: "cache_inv (LocalCache_Emit n k' b c') = cache_inv c'" "cache_abs (LocalCache_Emit n k' b c') = cache_abs c'" for n k' b c'
    by (simp_all add: cache_inv_def cache_abs_def)
  have "cache_inv (LocalCache_Put k v ttl now c) \<and> cache_abs (LocalCache_Put k v ttl now c)
      = spec_put (co_capacity (lc_options c)) k (make_entry v t now) (cache_abs c)"
  proof (cases "map_of (lc_entries c) k")
    case None
    then show ?thesis using insert_refines [OF assms(1) None, of "make_entry v t now"]
      by (simp add: LocalCache_Put_def t_def Let_def emit make_room_def [symmetric])
  next
    case (Some e)
    then show ?thesis using overwrite_refines [OF assms(1) Some, of "make_entry v t now"]
      by (simp add: LocalCache_Put_def t_def Let_def emit)
  qed
  then show "cache_inv (LocalCache_Put k v ttl now c)"
    "cache_abs (LocalCache_Put k v ttl now c) = spec_put (co_capacity (lc_options c)) k (make_entry v t now) (cache_abs c)" by auto
qed

lemma Remove_refines:
  assumes "cache_inv c"
  shows "cache_inv (snd (LocalCache_Remove k c))"
    "fst (LocalCache_Remove k c) \<longleftrightarrow> map_of (cache_abs c) k \<noteq> None"
    "cache_abs (snd (LocalCache_Remove k c)) = AList.delete k (cache_abs c)"
proof -
  note m = map_of_cache_abs [OF assms]
  have len: "length (AList.delete k (lc_entries c)) \<le> length (lc_entries c)" by (rule length_delete_le)
  show "cache_inv (snd (LocalCache_Remove k c))"
    using assms len by (auto simp: LocalCache_Remove_def cache_inv_simps distinct_removeAll simp del: set_map)
  show "fst (LocalCache_Remove k c) \<longleftrightarrow> map_of (cache_abs c) k \<noteq> None" by (simp add: LocalCache_Remove_def m)
  show "cache_abs (snd (LocalCache_Remove k c)) = AList.delete k (cache_abs c)"
  proof (cases "map_of (lc_entries c) k = None")
    case True
    then have "k \<notin> set (keys (cache_abs c))" using map_of_None_iff m by metis
    then have "AList.delete k (cache_abs c) = cache_abs c" by (rule length_delete_absent)
    then show ?thesis using True by (simp add: LocalCache_Remove_def)
  next
    case False
    then show ?thesis
      using pairs_cong_delete [of k "removeAll k (lc_lru c)" "lc_entries c"]
        delete_pairs [of k "\<lambda>j. the (map_of (lc_entries c) j)" "lc_lru c"]
      by (auto simp: LocalCache_Remove_def cache_abs_def)
  qed
qed

lemma Clear_refines: "cache_inv (LocalCache_Clear c)" "cache_abs (LocalCache_Clear c) = []"
  by (simp_all add: LocalCache_Clear_def cache_inv_def cache_abs_def)

lemma new_refines: "cache_inv (LocalCache_new opts)" "cache_abs (LocalCache_new opts) = []"
  by (simp_all add: LocalCache_new_def cache_inv_def cache_abs_def)

lemma size_refines: "cache_inv c \<Longrightarrow> LocalCache_size c = length (cache_abs c)"
  by (simp add: LocalCache_size_def cache_abs_def cache_inv_length)

lemma options_stay [simp]:
  "lc_options (snd (LocalCache_Get k now c)) = lc_options c"
  "lc_options (snd (LocalCache_Remove k c)) = lc_options c"
  "lc_options (LocalCache_Clear c) = lc_options c"
  by (auto simp: LocalCache_Get_def LocalCache_Remove_def LocalCache_Clear_def split: option.splits)

section \<open>Operation sequences\<close>

datatype cop = CGet string int | CPut string string int int | CRemove string | CClear | CSize

datatype cres = RValue "string option" | RUnit | RBool bool | RSize nat

fun cache_step :: "cop \<Rightarrow> LocalCache \<Rightarrow> cres \<times> LocalCache" where
  "cache_step (CGet k now) c = (let r = LocalCache_Get k now c in (RValue (fst r), snd r))"
| "cache_step (CPut k v ttl now) c = (RUnit, LocalCache_Put k v ttl now c)"
| "cache_step (CRemove k) c = (let r = LocalCache_Remove k c in (RBool (fst r), snd r))"
| "cache_step CClear c = (RUnit, LocalCache_Clear c)"
| "cache_step CSize c = (RSize (LocalCache_size c), c)"

fun spec_step :: "CacheOptions \<Rightarrow> cop \<Rightarrow> (string \<times> Entry) list \<Rightarrow> cres \<times> (string \<times> Entry) list" where
  "spec_step opts (CGet k now) L = (let r = spec_get k now L in (RValue (fst r), snd r))"
| "spec_step opts (CPut k v ttl now) L = (RUnit,
     spec_put (co_capacity opts) k (make_entry v (if ttl > 0 then ttl else co_default_ttl opts) now) L)"
| "spec_step opts (CRemove k) L = (RBool (map_of L k \<noteq> None), AList.delete k L)"
| "spec_step opts CClear L = (RUnit, [])"
| "spec_step opts CSize L = (RSize (length L), L)"

fun run_ops :: "('o \<Rightarrow> 's \<Rightarrow> 'r \<times> 's) \<Rightarrow> 'o list \<Rightarrow> 's \<Rightarrow> 'r list \<times> 's" where
  "run_ops step [] s = ([], s)"
| "run_ops step (o1 # os) s = (case step o1 s of (r, s1) \<Rightarrow> case run_ops step os s1 of (rs, s2) \<Rightarrow> (r # rs, s2))"

lemma Put_options [simp]: "cache_inv c \<Longrightarrow> lc_options (LocalCache_Put k v ttl now c) = lc_options c"
  using evict_spec [of c] by (auto simp: LocalCache_Put_def Let_def cache_inv_def)

lemma cache_step_refines:
  assumes "cache_inv c"
  shows "cache_inv (snd (cache_step op c)) \<and> lc_options (snd (cache_step op c)) = lc_options c
    \<and> fst (cache_step op c) = fst (spec_step (lc_options c) op (cache_abs c))
    \<and> cache_abs (snd (cache_step op c)) = snd (spec_step (lc_options c) op (cache_abs c))"
  using assms Get_refines [OF assms] Put_refines [OF assms] Remove_refines [OF assms] Clear_refines size_refines [OF assms]
  by (cases op) (auto simp: Let_def)

lemma run_ops_refines:
  "cache_inv c \<Longrightarrow> lc_options c = opts \<Longrightarrow>
    fst (run_ops cache_step ops c) = fst (run_ops (spec_step opts) ops (cache_abs c))
    \<and> cache_abs (snd (run_ops cache_step ops c)) = snd (run_ops (spec_step opts) ops (cache_abs c))
    \<and> cache_inv (snd (run_ops cache_step ops c)) \<and> lc_options (snd (run_ops cache_step ops c)) = opts"
proof (induction ops arbitrary: c)
  case (Cons op ops)
  note st = cache_step_refines [OF Cons.prems(1), of op]
  show ?case
    using Cons.IH [of "snd (cache_step op c)"] st Cons.prems(2)
    by (auto simp: case_prod_beta)
qed simp

section \<open>The cache interface\<close>

text \<open>A client's operation on any implementation, and what a client's log of writes says of each key.\<close>

fun exec_op :: "(string \<Rightarrow> int \<Rightarrow> 'c \<Rightarrow> string option \<times> 'c) \<Rightarrow> (string \<Rightarrow> string \<Rightarrow> int \<Rightarrow> int \<Rightarrow> 'c \<Rightarrow> 'c)
    \<Rightarrow> (string \<Rightarrow> 'c \<Rightarrow> bool \<times> 'c) \<Rightarrow> ('c \<Rightarrow> 'c) \<Rightarrow> cop \<Rightarrow> 'c \<Rightarrow> 'c" where
  "exec_op get put remove clear (CGet k now) c = snd (get k now c)"
| "exec_op get put remove clear (CPut k v ttl now) c = put k v ttl now c"
| "exec_op get put remove clear (CRemove k) c = snd (remove k c)"
| "exec_op get put remove clear CClear c = clear c"
| "exec_op get put remove clear CSize c = c"

fun note_write :: "cop \<Rightarrow> (string \<Rightarrow> string option) \<Rightarrow> string \<Rightarrow> string option" where
  "note_write (CPut k v ttl now) m = m(k \<mapsto> v)"
| "note_write (CRemove k) m = m(k := None)"
| "note_write CClear m = (\<lambda>_. None)"
| "note_write _ m = m"

text \<open>
  What the abstract class \<^verbatim>\<open>Cache\<close> promises: \<open>live c t k\<close> is the value a reader at time \<open>t\<close> may see.  A read
  returns it and changes nothing a later reader sees; a write is visible at once, and can only hide other
  keys (by eviction), never alter them.
\<close>

locale kv_cache =
  fixes inv :: "'c \<Rightarrow> bool"
    and live :: "'c \<Rightarrow> int \<Rightarrow> string \<Rightarrow> string option"
    and get :: "string \<Rightarrow> int \<Rightarrow> 'c \<Rightarrow> string option \<times> 'c"
    and put :: "string \<Rightarrow> string \<Rightarrow> int \<Rightarrow> int \<Rightarrow> 'c \<Rightarrow> 'c"
    and remove :: "string \<Rightarrow> 'c \<Rightarrow> bool \<times> 'c"
    and clear :: "'c \<Rightarrow> 'c"
  assumes get_inv: "inv c \<Longrightarrow> inv (snd (get k now c))"
    and put_inv: "inv c \<Longrightarrow> inv (put k v ttl now c)"
    and remove_inv: "inv c \<Longrightarrow> inv (snd (remove k c))"
    and clear_inv: "inv c \<Longrightarrow> inv (clear c)"
    and get_value: "inv c \<Longrightarrow> fst (get k now c) = live c now k"
    and get_later: "inv c \<Longrightarrow> now \<le> t \<Longrightarrow> live (snd (get k now c)) t = live c t"
    and get_sub: "inv c \<Longrightarrow> live (snd (get k now c)) t j = Some w \<Longrightarrow> live c t j = Some w"
    and put_live: "inv c \<Longrightarrow> live (put k v ttl now c) now k = Some v"
    and put_same: "inv c \<Longrightarrow> live (put k v ttl now c) t k = Some w \<Longrightarrow> w = v"
    and put_other: "inv c \<Longrightarrow> j \<noteq> k \<Longrightarrow> live (put k v ttl now c) t j = Some w \<Longrightarrow> live c t j = Some w"
    and remove_live: "inv c \<Longrightarrow> live (snd (remove k c)) t = (live c t)(k := None)"
    and clear_live: "inv c \<Longrightarrow> live (clear c) t = (\<lambda>_. None)"
begin

abbreviation exec :: "cop \<Rightarrow> 'c \<Rightarrow> 'c" where
  "exec \<equiv> exec_op get put remove clear"

lemma exec_inv: "inv c \<Longrightarrow> inv (exec op c)"
  by (cases op) (auto intro: get_inv put_inv remove_inv clear_inv)

lemma exec_sound:
  assumes "inv c" "\<And>t k v. live c t k = Some v \<Longrightarrow> m k = Some v" "live (exec op c) t k = Some v"
  shows "note_write op m k = Some v"
proof (cases op)
  case (CPut k' v' ttl now)
  then show ?thesis using assms put_same [OF assms(1), of k v' ttl now t v] put_other [OF assms(1), of k k' v' ttl now t v]
    by (cases "k = k'") auto
next
  case (CGet k' now)
  then show ?thesis using assms(2,3) get_sub [OF assms(1), of k' now t k v] by auto
qed (use assms remove_live clear_live in \<open>auto split: if_splits\<close>)

lemma fold_sound:
  assumes "inv c" "\<And>t k v. live c t k = Some v \<Longrightarrow> m k = Some v"
  shows "inv (fold exec ops c) \<and> (\<forall>t k v. live (fold exec ops c) t k = Some v \<longrightarrow> fold note_write ops m k = Some v)"
  using assms
proof (induction ops arbitrary: c m)
  case (Cons op ops)
  show ?case
    using Cons.IH [of "exec op c" "note_write op m"] exec_inv [OF Cons.prems(1), of op]
      exec_sound [OF Cons.prems] by simp
qed simp

text \<open>Whatever a reader gets is the last value written to that key and not removed since.\<close>

lemma read_last_write:
  assumes "inv c" "\<And>t k. live c t k = None" "fst (get k now (fold exec ops c)) = Some v"
  shows "fold note_write ops (\<lambda>_. None) k = Some v"
  using fold_sound [of c "\<lambda>_. None" ops] get_value assms by simp

lemma read_own_write:
  assumes "inv c"
  shows "fst (get k now (put k v ttl now c)) = Some v"
  using get_value [OF put_inv [OF assms]] put_live [OF assms] by simp

lemma read_twice:
  assumes "inv c" "now \<le> t"
  shows "fst (get j t (snd (get k now c))) = fst (get j t c)"
  using get_value assms get_later get_inv by simp

end

definition local_live :: "LocalCache \<Rightarrow> int \<Rightarrow> string \<Rightarrow> string option" where
  "local_live c t k = (case map_of (lc_entries c) k of
     None \<Rightarrow> None | Some e \<Rightarrow> if IsExpired e t then None else Some (en_value e))"

lemma local_live_abs: "cache_inv c \<Longrightarrow> local_live c t k = (case map_of (cache_abs c) k of
     None \<Rightarrow> None | Some e \<Rightarrow> if IsExpired e t then None else Some (en_value e))"
  by (simp add: local_live_def map_of_cache_abs)

lemma IsExpired_mono: "IsExpired e now \<Longrightarrow> now \<le> t \<Longrightarrow> IsExpired e t"
  by (simp add: IsExpired_def)

lemma map_of_spec_get: "map_of (snd (spec_get k now L)) =
    (if \<exists>e. map_of L k = Some e \<and> IsExpired e now then (map_of L)(k := None) else map_of L)"
  by (auto simp: spec_get_def fun_eq_iff split: option.splits)

lemma map_of_take_sub: "distinct (keys L) \<Longrightarrow> map_of (take n L) j = Some e \<Longrightarrow> map_of L j = Some e"
  using map_of_is_SomeI [of L j e] map_of_SomeD [of "take n L" j e] in_set_takeD [of "(j, e)" n L] by blast

lemma spec_put_other:
  "distinct (keys L) \<Longrightarrow> j \<noteq> k \<Longrightarrow> map_of (spec_put cap k e L) j = Some f \<Longrightarrow> map_of L j = Some f"
  by (auto simp: spec_put_def split: if_splits intro: map_of_take_sub simp del: map_of_eq_Some_iff)

lemma make_entry_fresh: "\<not> IsExpired (make_entry v t now) now" "en_value (make_entry v t now) = v"
  by (auto simp: make_entry_def IsExpired_def ms_to_ns_def)

interpretation local_cache: kv_cache cache_inv local_live LocalCache_Get LocalCache_Put LocalCache_Remove LocalCache_Clear
proof
  fix c :: LocalCache and k v j w :: string and now t ttl :: int
  assume inv: "cache_inv c"
  have dk: "distinct (keys (cache_abs c))" using inv by (simp add: cache_inv_def)
  note G = Get_refines [OF inv] and P = Put_refines [OF inv] and R = Remove_refines [OF inv]
  show "cache_inv (snd (LocalCache_Get k now c))" by (rule G)
  show "cache_inv (LocalCache_Put k v ttl now c)" by (rule P)
  show "cache_inv (snd (LocalCache_Remove k c))" by (rule R)
  show "cache_inv (LocalCache_Clear c)" by (rule Clear_refines)
  show "fst (LocalCache_Get k now c) = local_live c now k"
    unfolding G(2) local_live_abs [OF inv] by (auto simp: spec_get_def split: option.splits)
  show "now \<le> t \<Longrightarrow> local_live (snd (LocalCache_Get k now c)) t = local_live c t"
    unfolding fun_eq_iff local_live_abs [OF inv] local_live_abs [OF G(1)] G(3) map_of_spec_get
    using IsExpired_mono by (auto split: option.splits)
  show "local_live (snd (LocalCache_Get k now c)) t j = Some w \<Longrightarrow> local_live c t j = Some w"
    unfolding local_live_abs [OF inv] local_live_abs [OF G(1)] G(3) map_of_spec_get
    by (auto split: option.splits if_splits)
  show "local_live (LocalCache_Put k v ttl now c) now k = Some v"
    unfolding local_live_abs [OF P(1)] P(2) spec_put_def by (simp add: make_entry_fresh)
  show "local_live (LocalCache_Put k v ttl now c) t k = Some w \<Longrightarrow> w = v"
    unfolding local_live_abs [OF P(1)] P(2) spec_put_def by (simp add: make_entry_fresh split: if_splits)
  show "j \<noteq> k \<Longrightarrow> local_live (LocalCache_Put k v ttl now c) t j = Some w \<Longrightarrow> local_live c t j = Some w"
    unfolding local_live_abs [OF P(1)] local_live_abs [OF inv] P(2)
    using spec_put_other [OF dk] by (auto split: option.splits if_splits)
  show "local_live (snd (LocalCache_Remove k c)) t = (local_live c t)(k := None)"
    unfolding fun_eq_iff local_live_abs [OF inv] fun_upd_def local_live_abs [OF R(1)] R(3) by simp
  show "local_live (LocalCache_Clear c) t = (\<lambda>_. None)"
    unfolding fun_eq_iff local_live_abs [OF Clear_refines(1)] Clear_refines(2) by simp
qed

section \<open>Properties\<close>

text \<open>C37. Refinement: on every sequence of operations the hash map with its recency list answers exactly as
  the recency-ordered list does, and keeps its invariant.  In particular a full cache drops the
  least recently used entries, and never holds more than its capacity.\<close>

theorem LocalCache_refines_LRU:
  "fst (run_ops cache_step ops (LocalCache_new opts)) = fst (run_ops (spec_step opts) ops [])
   \<and> cache_abs (snd (run_ops cache_step ops (LocalCache_new opts))) = snd (run_ops (spec_step opts) ops [])
   \<and> cache_inv (snd (run_ops cache_step ops (LocalCache_new opts)))"
  using run_ops_refines [OF new_refines(1), of opts opts ops] new_refines(2) [of opts]
  by (simp add: LocalCache_new_def)


definition demo_ops :: "cop list" where
  "demo_ops = [CPut ''a'' ''1'' 0 0, CPut ''b'' ''2'' 0 1, CGet ''a'' 2, CPut ''c'' ''3'' 0 3]"

definition demo_options :: CacheOptions where
  "demo_options = \<lparr>co_capacity = 2, co_default_ttl = 0, co_name = ''cache'', co_monitor = False\<rparr>"


end
