(* ===== verification/Rpc.thy ===== *)
theory Rpc
  imports Metric
begin

text \<open>
  The RPC abstraction: endpoints, status, messages, method-table services, the backend factory and the
  in-process transport with its process-wide registry.  A handler is user code: it takes the request, the
  response so far and the state \<open>'w\<close> it may change, and returns the status with both updated or throws.
  The events of an attached monitor are returned beside the result of a call.
\<close>

section \<open>Model: endpoints, status, messages\<close>

record RpcEndpoint =
  ep_scheme :: string
  ep_address :: string

definition RpcEndpoint_Parse :: "string \<Rightarrow> RpcEndpoint" where
  "RpcEndpoint_Parse uri = (case str_find uri ''://'' 0 of
     None \<Rightarrow> \<lparr>ep_scheme = ''inproc'', ep_address = uri\<rparr>
   | Some sep \<Rightarrow> \<lparr>ep_scheme = substr uri 0 sep, ep_address = drop (sep + 3) uri\<rparr>)"

definition RpcEndpoint_uri :: "RpcEndpoint \<Rightarrow> string" where
  "RpcEndpoint_uri e = ep_scheme e @ ''://'' @ ep_address e"

datatype RpcCode = kOk | kDeadline | kNotFound | kUnavailable | kInvalidArgument | kInternal

fun RpcCode_ToString :: "RpcCode \<Rightarrow> string" where
  "RpcCode_ToString kOk = ''ok''"
| "RpcCode_ToString kDeadline = ''deadline''"
| "RpcCode_ToString kNotFound = ''not_found''"
| "RpcCode_ToString kUnavailable = ''unavailable''"
| "RpcCode_ToString kInvalidArgument = ''invalid_argument''"
| "RpcCode_ToString kInternal = ''internal''"

record RpcStatus =
  rs_code :: RpcCode
  rs_message :: string

definition RpcStatus_mk :: "RpcCode \<Rightarrow> string \<Rightarrow> RpcStatus" where
  "RpcStatus_mk code msg = \<lparr>rs_code = code, rs_message = msg\<rparr>"

abbreviation RpcOk :: RpcStatus where
  "RpcOk \<equiv> RpcStatus_mk kOk []"

definition RpcStatus_ok :: "RpcStatus \<Rightarrow> bool" where
  "RpcStatus_ok s = (rs_code s = kOk)"

definition RpcStatus_ToString :: "RpcStatus \<Rightarrow> string" where
  "RpcStatus_ToString s = RpcCode_ToString (rs_code s)
     @ (if rs_message s \<noteq> [] then '': '' @ rs_message s else [])"

record RpcMessage =
  rm_payload :: string
  rm_headers :: "(string \<times> string) list"

definition RpcMessage_new :: RpcMessage where
  "RpcMessage_new = \<lparr>rm_payload = [], rm_headers = []\<rparr>"

definition set_header :: "string \<Rightarrow> string \<Rightarrow> RpcMessage \<Rightarrow> RpcMessage" where
  "set_header k v m = m\<lparr>rm_headers := AList.update k v (rm_headers m)\<rparr>"

definition RpcMessage_FromString :: "string \<Rightarrow> RpcMessage" where
  "RpcMessage_FromString p = \<lparr>rm_payload = p, rm_headers = []\<rparr>"

section \<open>Model: services and the backend factory\<close>

type_synonym 'w outcome = "(RpcStatus \<times> RpcMessage \<times> 'w) res"
type_synonym 'w handler = "RpcMessage \<Rightarrow> RpcMessage \<Rightarrow> 'w \<Rightarrow> 'w outcome"

record 'w RpcServiceImpl =
  sv_name :: string
  sv_methods :: "(string \<times> 'w handler) list"

definition AddMethod :: "string \<Rightarrow> 'w handler \<Rightarrow> 'w RpcServiceImpl \<Rightarrow> 'w RpcServiceImpl" where
  "AddMethod m h s = s\<lparr>sv_methods := AList.update m h (sv_methods s)\<rparr>"

definition service_methods :: "'w RpcServiceImpl \<Rightarrow> string list" where
  "service_methods s = keys (sv_methods s)"

definition Dispatch :: "'w RpcServiceImpl \<Rightarrow> string \<Rightarrow> 'w handler" where
  "Dispatch s method req res w = (case map_of (sv_methods s) method of
     None \<Rightarrow> Ok (RpcStatus_mk kNotFound (''service '' @ [CHR 0x27] @ sv_name s @ [CHR 0x27]
        @ '' has no method '' @ [CHR 0x27] @ method @ [CHR 0x27]), res, w)
   | Some h \<Rightarrow> h req res w)"

definition RpcFactory_Register :: "string \<Rightarrow> 'f \<Rightarrow> 'f factories \<Rightarrow> 'f factories res" where
  "RpcFactory_Register name f fs =
    (if map_of fs name \<noteq> None then Throw (InvalidArgument ''RpcFactory: duplicate backend name'')
     else Ok ((name, f) # fs))"

definition RpcFactory_Available :: "'f factories \<Rightarrow> string list" where
  "RpcFactory_Available fs = keys fs"

definition available_list :: "string list \<Rightarrow> string" where
  "available_list names = fold (\<lambda>n list. (if list \<noteq> [] then list @ '', '' else list) @ n) names []"

definition RpcFactory_Create :: "'f factories \<Rightarrow> string \<Rightarrow> 'f res" where
  "RpcFactory_Create fs name = (case map_of fs name of
     None \<Rightarrow> Throw (OutOfRange (''RpcFactory: unknown backend '' @ [CHR 0x27] @ name @ [CHR 0x27]
        @ '' (available: '' @ available_list (RpcFactory_Available fs) @ '')''))
   | Some f \<Rightarrow> Ok f)"

definition RpcFactory_Contains :: "'f factories \<Rightarrow> string \<Rightarrow> bool" where
  "RpcFactory_Contains fs name = (map_of fs name \<noteq> None)"

section \<open>Model: the in-process transport\<close>

text \<open>The registry maps names to service pointers; \<open>disp\<close> is the virtual \<^verbatim>\<open>Dispatch\<close> of the object behind
  a pointer \<open>'p\<close>.\<close>

type_synonym 'p registry = "(string \<times> 'p) list"

definition InProc_Register :: "string \<Rightarrow> 'p \<Rightarrow> 'p registry \<Rightarrow> 'p registry res" where
  "InProc_Register name svc reg =
    (if map_of reg name \<noteq> None
     then Throw (InvalidArgument (''InProcRegistry: duplicate service '' @ [CHR 0x27] @ name @ [CHR 0x27]))
     else Ok ((name, svc) # reg))"

definition InProc_Unregister :: "string \<Rightarrow> 'p registry \<Rightarrow> 'p registry" where
  "InProc_Unregister name reg = AList.delete name reg"

definition InProc_Find :: "'p registry \<Rightarrow> string \<Rightarrow> 'p option" where
  "InProc_Find reg name = map_of reg name"

definition InProc_Finish :: "RpcEndpoint \<Rightarrow> bool \<Rightarrow> string \<Rightarrow> string \<Rightarrow> int \<Rightarrow> RpcStatus \<Rightarrow> Event list" where
  "InProc_Finish ep monitor service method elapsed st =
    (if monitor then
       [(attr ''endpoint'' (RpcEndpoint_uri ep) (attr ''service'' service (Event_new ''rpc'' ''rpc.call'' method)))
          \<lparr>ev_duration := elapsed, ev_ok := RpcStatus_ok st\<rparr>]
     else [])"

definition InProc_Call :: "('p \<Rightarrow> string \<Rightarrow> 'w handler) \<Rightarrow> 'p registry \<Rightarrow> RpcEndpoint \<Rightarrow> string \<Rightarrow> string
    \<Rightarrow> 'w handler" where
  "InProc_Call disp reg ep service method req res w = (case InProc_Find reg service of
     None \<Rightarrow> Ok (RpcStatus_mk kUnavailable (''inproc: no service '' @ [CHR 0x27] @ service @ [CHR 0x27]
        @ '' registered (endpoint '' @ RpcEndpoint_uri ep @ '')''), res, w)
   | Some svc \<Rightarrow> disp svc method req res w)"

definition InProc_Call_events :: "RpcEndpoint \<Rightarrow> bool \<Rightarrow> string \<Rightarrow> string \<Rightarrow> int \<Rightarrow> 'w outcome \<Rightarrow> Event list" where
  "InProc_Call_events ep monitor service method elapsed out = (case out of
     Inl _ \<Rightarrow> [] | Inr (st, _, _) \<Rightarrow> InProc_Finish ep monitor service method elapsed st)"

record 'p InProcServer =
  is_endpoint :: RpcEndpoint
  is_services :: "(string \<times> 'p) list"
  is_started :: bool

definition InProcServer_new :: "RpcEndpoint \<Rightarrow> 'p InProcServer" where
  "InProcServer_new ep = \<lparr>is_endpoint = ep, is_services = [], is_started = False\<rparr>"

definition RegisterService :: "(string \<times> 'p) option \<Rightarrow> 'p InProcServer \<Rightarrow> 'p InProcServer res" where
  "RegisterService svc s = (case svc of
     None \<Rightarrow> Throw (InvalidArgument ''InProcServer: null service'')
   | Some x \<Rightarrow> Ok (s\<lparr>is_services := is_services s @ [x]\<rparr>))"

text \<open>\<^verbatim>\<open>Start\<close> registers service by service; when one is refused the exception leaves the earlier ones
  registered, so the registry is returned in both cases.\<close>

fun register_services :: "(string \<times> 'p) list \<Rightarrow> 'p registry \<Rightarrow> exn option \<times> 'p registry" where
  "register_services [] reg = (None, reg)"
| "register_services ((name, svc) # ss) reg = (case InProc_Register name svc reg of
     Inl e \<Rightarrow> (Some e, reg) | Inr reg' \<Rightarrow> register_services ss reg')"

definition Server_Start :: "'p InProcServer \<Rightarrow> 'p registry \<Rightarrow> exn option \<times> 'p InProcServer \<times> 'p registry" where
  "Server_Start s reg =
    (if is_started s then (None, s, reg)
     else (case register_services (is_services s) reg of
        (Some e, reg') \<Rightarrow> (Some e, s, reg')
      | (None, reg') \<Rightarrow> (None, s\<lparr>is_started := True\<rparr>, reg')))"

definition Server_Stop :: "'p InProcServer \<Rightarrow> 'p registry \<Rightarrow> 'p InProcServer \<times> 'p registry" where
  "Server_Stop s reg =
    (if \<not> is_started s then (s, reg)
     else (s\<lparr>is_started := False\<rparr>, fold (\<lambda>(name, _). InProc_Unregister name) (is_services s) reg))"

section \<open>Contracts\<close>

interpretation rpc_factory: named_registry RpcFactory_Register RpcFactory_Create RpcFactory_Contains
    "map_of :: 'f factories \<Rightarrow> string \<Rightarrow> 'f option"
  by unfold_locales
    (auto simp: RpcFactory_Register_def RpcFactory_Create_def RpcFactory_Contains_def)

definition names_fresh :: "(string \<times> 'p) list \<Rightarrow> 'p registry \<Rightarrow> bool" where
  "names_fresh ss reg = (distinct (keys ss) \<and> list_all (\<lambda>n. map_of reg n = None) (keys ss))"

lemma register_services_append:
  "names_fresh ss reg \<Longrightarrow> register_services (ss @ rest) reg = register_services rest (rev ss @ reg)"
proof (induction ss arbitrary: reg)
  case (Cons x ss)
  obtain n p where x: "x = (n, p)" by (cases x)
  have "names_fresh ss ((n, p) # reg)"
    using Cons.prems by (auto simp: names_fresh_def x list_all_iff)
  then show ?case using Cons.IH [of "(n, p) # reg"] Cons.prems by (simp add: x InProc_Register_def names_fresh_def)
qed simp

lemma map_of_rev_distinct: "distinct (keys xs) \<Longrightarrow> map_of (rev xs) = map_of xs"
proof (induction xs)
  case (Cons x xs)
  obtain a b where x: "x = (a, b)" by (cases x)
  have "map_of xs a = None" using Cons.prems by (simp add: x map_of_None_iff)
  then have "map_of (rev (x # xs)) k = map_of (x # xs) k" for k
    using Cons by (cases "k = a") (auto simp: x map_add_def split: option.splits)
  then show ?case ..
qed simp

lemma map_of_registered:
  "names_fresh ss reg \<Longrightarrow> map_of (rev ss @ reg) n = (case map_of ss n of None \<Rightarrow> map_of reg n | Some p \<Rightarrow> Some p)"
  by (simp add: names_fresh_def map_add_def map_of_rev_distinct split: option.splits)

lemma map_of_unregister:
  "map_of (fold (\<lambda>(name, _). InProc_Unregister name) ss reg) n = (if n \<in> set (keys ss) then None else map_of reg n)"
  by (induction ss arbitrary: reg) (auto simp: InProc_Unregister_def)

lemma occurs_colon: "occurs_at s ''://'' i \<Longrightarrow> i < length s \<Longrightarrow> s ! i = CHR '':''"
  by (drule occurs_at_split) (metis Cons_nth_drop_Suc append_Cons list.inject)

lemma str_find_scheme:
  assumes "CHR '':'' \<notin> set a"
  shows "str_find (a @ ''://'' @ b) ''://'' 0 = Some (length a)"
proof (rule str_find_eqI)
  show "occurs_at (a @ ''://'' @ b) ''://'' (length a)" by (simp add: occurs_at_def)
  fix j assume j: "j < length a"
  show "\<not> occurs_at (a @ ''://'' @ b) ''://'' j"
  proof
    assume "occurs_at (a @ ''://'' @ b) ''://'' j"
    from occurs_colon [OF this] j have "a ! j = CHR '':''" by (simp add: nth_append)
    then show False using assms j nth_mem by metis
  qed
qed simp_all

section \<open>Properties\<close>

text \<open>Parsing an endpoint and printing it gives back a URI with a scheme unchanged and adds the
  in-process scheme to a bare address; printing and parsing gives back any endpoint whose scheme
  has no colon.\<close>

theorem RpcEndpoint_roundtrip:
  "RpcEndpoint_uri (RpcEndpoint_Parse u) = (if Contains u ''://'' then u else ''inproc://'' @ u)
   \<and> (CHR '':'' \<notin> set sch \<longrightarrow>
       RpcEndpoint_Parse (RpcEndpoint_uri \<lparr>ep_scheme = sch, ep_address = adr\<rparr>) = \<lparr>ep_scheme = sch, ep_address = adr\<rparr>)"
proof (intro conjI impI)
  show "RpcEndpoint_uri (RpcEndpoint_Parse u) = (if Contains u ''://'' then u else ''inproc://'' @ u)"
  proof (cases "str_find u ''://'' 0")
    case None
    then show ?thesis by (simp add: RpcEndpoint_Parse_def RpcEndpoint_uri_def Contains_def)
  next
    case (Some i)
    have "u = take i u @ ''://'' @ drop (i + 3) u"
      using occurs_at_split [OF str_find_SomeD(3) [OF Some]] append_take_drop_id [of i u]
      by (simp add: eval_nat_numeral)
    then show ?thesis using Some by (simp add: RpcEndpoint_Parse_def RpcEndpoint_uri_def Contains_def substr_def)
  qed
  assume "CHR '':'' \<notin> set sch"
  from str_find_scheme [OF this, of adr]
  show "RpcEndpoint_Parse (RpcEndpoint_uri \<lparr>ep_scheme = sch, ep_address = adr\<rparr>) = \<lparr>ep_scheme = sch, ep_address = adr\<rparr>"
    by (simp add: RpcEndpoint_Parse_def RpcEndpoint_uri_def substr_def)
qed

theorem RpcEndpoint_roundtrip_witness:
  "RpcEndpoint_Parse (RpcEndpoint_uri \<lparr>ep_scheme = ''grpc'', ep_address = ''127.0.0.1:8080''\<rparr>)
    = \<lparr>ep_scheme = ''grpc'', ep_address = ''127.0.0.1:8080''\<rparr>"
  using RpcEndpoint_roundtrip [of "''x''" "''grpc''" "''127.0.0.1:8080''"] by simp

text \<open>C39. A server whose service names are new starts; while it runs, a call to one of them is exactly
  that service's dispatch; after stopping, the registry answers as before the start and such a call
  returns \<^verbatim>\<open>kUnavailable\<close> with the response untouched.\<close>

theorem InProcServer_lifecycle:
  assumes "\<not> is_started s" and "names_fresh (is_services s) reg" and "map_of (is_services s) name = Some p"
  shows "\<exists>s1 reg1 s2 reg2. Server_Start s reg = (None, s1, reg1) \<and> Server_Stop s1 reg1 = (s2, reg2)
    \<and> InProc_Call disp reg1 ep name m req res w = disp p m req res w
    \<and> map_of reg2 = map_of reg
    \<and> (\<exists>msg. InProc_Call disp reg2 ep name m req res w = Inr (RpcStatus_mk kUnavailable msg, res, w))"
proof -
  let ?ss = "is_services s"
  have st: "Server_Start s reg = (None, s\<lparr>is_started := True\<rparr>, rev ?ss @ reg)"
    using register_services_append [OF assms(2), of "[]"] assms(1) by (simp add: Server_Start_def)
  let ?reg2 = "fold (\<lambda>(name, _). InProc_Unregister name) ?ss (rev ?ss @ reg)"
  have r2: "map_of ?reg2 n = map_of reg n" for n
  proof -
    have "n \<in> set (keys ?ss) \<Longrightarrow> map_of reg n = None"
      using assms(2) unfolding names_fresh_def list_all_iff by blast
    moreover have "n \<notin> set (keys ?ss) \<Longrightarrow> map_of ?ss n = None" by (simp add: map_of_None_iff)
    ultimately show ?thesis
      using map_of_unregister [of ?ss "rev ?ss @ reg" n] map_of_registered [OF assms(2), of n] by simp
  qed
  have "name \<in> set (keys ?ss)" using assms(3) map_of_None_iff [of ?ss name] by auto
  then have un: "map_of reg name = None" using assms(2) unfolding names_fresh_def list_all_iff by blast
  have "map_of (rev ?ss @ reg) name = Some p" using map_of_registered [OF assms(2), of name] assms(3) by simp
  then show ?thesis
    using st r2 un by (auto simp: Server_Stop_def InProc_Call_def InProc_Find_def fun_eq_iff)
qed

theorem InProcServer_lifecycle_witness:
  "\<exists>s1 reg1 s2 reg2.
    Server_Start \<lparr>is_endpoint = \<lparr>ep_scheme = ''inproc'', ep_address = ''b''\<rparr>, is_services = [(''b'', 7 :: nat)], is_started = False\<rparr> []
      = (None, s1, reg1) \<and> Server_Stop s1 reg1 = (s2, reg2) \<and> map_of reg2 = map_of []"
  using InProcServer_lifecycle
    [of "\<lparr>is_endpoint = \<lparr>ep_scheme = ''inproc'', ep_address = ''b''\<rparr>, is_services = [(''b'', 7 :: nat)], is_started = False\<rparr>" "[]" "''b''" 7 "\<lambda>_ _ _ r w. Inr (RpcOk, r, w)" "\<lparr>ep_scheme = [], ep_address = []\<rparr>" "[]" RpcMessage_new RpcMessage_new "()"]
  by (auto simp: names_fresh_def)

text \<open>A start that meets a taken name throws and leaves every service before it registered while the
  server counts as not started, so that stopping it removes none of them.\<close>

theorem InProcServer_failed_start:
  assumes "\<not> is_started s" and "is_services s = before @ (name, p) # after"
    and "names_fresh before reg" and "map_of reg name = Some q"
  shows "\<exists>e. Server_Start s reg = (Some (InvalidArgument e), s, rev before @ reg)
    \<and> Server_Stop s (rev before @ reg) = (s, rev before @ reg)"
proof -
  have "map_of (rev before @ reg) name \<noteq> None"
    using map_of_registered [OF assms(3), of name] assms(4) by (simp split: option.splits)
  then show ?thesis
    using assms(1,2) register_services_append [OF assms(3), of "(name, p) # after"]
    by (simp add: Server_Start_def Server_Stop_def InProc_Register_def)
qed

theorem InProcServer_failed_start_witness:
  "\<exists>e. Server_Start \<lparr>is_endpoint = \<lparr>ep_scheme = [], ep_address = []\<rparr>, is_services = [(''a'', 1 :: nat), (''b'', 2)], is_started = False\<rparr> [(''b'', 9)]
    = (Some (InvalidArgument e), \<lparr>is_endpoint = \<lparr>ep_scheme = [], ep_address = []\<rparr>, is_services = [(''a'', 1), (''b'', 2)], is_started = False\<rparr>,
       [(''a'', 1), (''b'', 9)])"
  using InProcServer_failed_start
    [of "\<lparr>is_endpoint = \<lparr>ep_scheme = [], ep_address = []\<rparr>, is_services = [(''a'', 1 :: nat), (''b'', 2)], is_started = False\<rparr>"
      "[(''a'', 1)]" "''b''" 2 "[]" "[(''b'', 9)]" 9]
  by (auto simp: names_fresh_def)

end
