(* ===== verification/RemoteCache.thy ===== *)
theory RemoteCache
  imports Cache Rpc
begin

text \<open>
  The remote half of the cache module: \<^verbatim>\<open>CacheRpcService\<close>, which serves a \<^verbatim>\<open>LocalCache\<close> through the RPC
  protocol, \<^verbatim>\<open>RemoteCache\<close>, which forwards every operation through a channel, and the cache factory.
  The channel is an argument, so the client code is independent of the transport; over the in-process
  transport the remote cache is proved to be the served cache.
\<close>

section \<open>Model: the service\<close>

definition ToHeaderBool :: "bool \<Rightarrow> string" where
  "ToHeaderBool b = (if b then ''1'' else ''0'')"

definition CacheRpcService_methods :: "string list" where
  "CacheRpcService_methods = [''get'', ''put'', ''remove'', ''clear'', ''size'']"

definition missing_key :: "string \<Rightarrow> RpcStatus" where
  "missing_key m = RpcStatus_mk kInvalidArgument (m @ '': missing header '' @ [CHR 0x27] @ ''key'' @ [CHR 0x27])"

definition CacheRpcService_Dispatch :: "int \<Rightarrow> string \<Rightarrow> LocalCache handler" where
  "CacheRpcService_Dispatch now method req res store =
    (let key = map_of (rm_headers req) ''key'' in
     if method = ''get'' then
       (case key of None \<Rightarrow> Ok (missing_key ''get'', res, store)
        | Some k \<Rightarrow> (case LocalCache_Get k now store of (v, store') \<Rightarrow>
            let res1 = set_header ''found'' (ToHeaderBool (v \<noteq> None)) res in
            Ok (RpcOk, (case v of None \<Rightarrow> res1 | Some x \<Rightarrow> res1\<lparr>rm_payload := x\<rparr>), store')))
     else if method = ''put'' then
       (case key of None \<Rightarrow> Ok (missing_key ''put'', res, store)
        | Some k \<Rightarrow> bindR (case map_of (rm_headers req) ''ttl_ms'' of None \<Rightarrow> Ok 0 | Some t \<Rightarrow> stoll t)
            (\<lambda>ttl. Ok (RpcOk, res, LocalCache_Put k (rm_payload req) ttl now store)))
     else if method = ''remove'' then
       (case key of None \<Rightarrow> Ok (missing_key ''remove'', res, store)
        | Some k \<Rightarrow> (case LocalCache_Remove k store of (b, store') \<Rightarrow>
            Ok (RpcOk, set_header ''found'' (ToHeaderBool b) res, store')))
     else if method = ''clear'' then Ok (RpcOk, res, LocalCache_Clear store)
     else if method = ''size'' then
       Ok (RpcOk, res\<lparr>rm_payload := nat_to_string (LocalCache_size store)\<rparr>, store)
     else Ok (RpcStatus_mk kNotFound (''cache has no method '' @ [CHR 0x27] @ method @ [CHR 0x27]), res, store))"

section \<open>Model: the client\<close>

record RemoteCache =
  rc_options :: CacheOptions
  rc_service :: string

definition RemoteCache_Emit :: "RemoteCache \<Rightarrow> string \<Rightarrow> string \<Rightarrow> bool \<Rightarrow> Event list" where
  "RemoteCache_Emit rc action key ok =
    (if \<not> co_monitor (rc_options rc) then [] else [(Event_new ''cache'' action key)\<lparr>ev_ok := ok\<rparr>])"

definition ResolveTtl :: "RemoteCache \<Rightarrow> int \<Rightarrow> int" where
  "ResolveTtl rc ttl = (if ttl > 0 then ttl else co_default_ttl (rc_options rc))"

text \<open>\<open>call service method\<close> is the channel's \<^verbatim>\<open>Call\<close>, on the state \<open>'w\<close> behind the transport.\<close>

type_synonym 'w channel = "string \<Rightarrow> string \<Rightarrow> 'w handler"

definition RemoteCache_Get :: "'w channel \<Rightarrow> RemoteCache \<Rightarrow> string \<Rightarrow> 'w \<Rightarrow> (string option \<times> Event list \<times> 'w) res" where
  "RemoteCache_Get call rc key w =
    bindR (call (rc_service rc) ''get'' (set_header ''key'' key RpcMessage_new) RpcMessage_new w) (\<lambda>(st, res, w').
      if \<not> RpcStatus_ok st then Ok (None, RemoteCache_Emit rc ''cache.error'' key False, w')
      else (let found = (at_or [] (rm_headers res) ''found'' = ''1'') in
        Ok (if found then Some (rm_payload res) else None,
            RemoteCache_Emit rc (if found then ''cache.hit'' else ''cache.miss'') key True, w')))"

definition RemoteCache_Put :: "'w channel \<Rightarrow> RemoteCache \<Rightarrow> string \<Rightarrow> string \<Rightarrow> int \<Rightarrow> 'w \<Rightarrow> (Event list \<times> 'w) res" where
  "RemoteCache_Put call rc key v ttl w =
    (let req = (set_header ''ttl_ms'' (int_to_string (ResolveTtl rc ttl)) (set_header ''key'' key RpcMessage_new))
                 \<lparr>rm_payload := v\<rparr>
     in bindR (call (rc_service rc) ''put'' req RpcMessage_new w) (\<lambda>(st, res, w').
          Ok (RemoteCache_Emit rc ''cache.put'' key (RpcStatus_ok st), w')))"

definition RemoteCache_Remove :: "'w channel \<Rightarrow> RemoteCache \<Rightarrow> string \<Rightarrow> 'w \<Rightarrow> (bool \<times> Event list \<times> 'w) res" where
  "RemoteCache_Remove call rc key w =
    bindR (call (rc_service rc) ''remove'' (set_header ''key'' key RpcMessage_new) RpcMessage_new w) (\<lambda>(st, res, w').
      Ok (RpcStatus_ok st \<and> at_or [] (rm_headers res) ''found'' = ''1'',
          RemoteCache_Emit rc ''cache.remove'' key (RpcStatus_ok st), w'))"

definition RemoteCache_Clear :: "'w channel \<Rightarrow> RemoteCache \<Rightarrow> 'w \<Rightarrow> (Event list \<times> 'w) res" where
  "RemoteCache_Clear call rc w =
    bindR (call (rc_service rc) ''clear'' RpcMessage_new RpcMessage_new w) (\<lambda>(st, res, w').
      Ok (RemoteCache_Emit rc ''cache.clear'' [] (RpcStatus_ok st), w'))"

definition RemoteCache_size :: "'w channel \<Rightarrow> RemoteCache \<Rightarrow> 'w \<Rightarrow> (int \<times> 'w) res" where
  "RemoteCache_size call rc w =
    bindR (call (rc_service rc) ''size'' RpcMessage_new RpcMessage_new w) (\<lambda>(st, res, w').
      if \<not> RpcStatus_ok st then Ok (0, w')
      else Ok (case stoull (rm_payload res) of Inl _ \<Rightarrow> 0 | Inr n \<Rightarrow> n, w'))"

section \<open>Model: the factory\<close>

datatype cache_impl = LocalImpl LocalCache | RemoteImpl RemoteCache

type_synonym cache_maker = "CacheOptions \<Rightarrow> string \<Rightarrow> cache_impl"

definition CacheFactory_new :: "cache_maker factories" where
  "CacheFactory_new =
    [(''local'', \<lambda>opts service. LocalImpl (LocalCache_new opts)),
     (''remote'', \<lambda>opts service. RemoteImpl \<lparr>rc_options = opts, rc_service = service\<rparr>)]"

definition CacheFactory_Register :: "string \<Rightarrow> 'f \<Rightarrow> 'f factories \<Rightarrow> 'f factories res" where
  "CacheFactory_Register ty f fs =
    (if map_of fs ty \<noteq> None then Throw (InvalidArgument ''CacheFactory: duplicate cache type'')
     else Ok ((ty, f) # fs))"

definition CacheFactory_Create :: "'f factories \<Rightarrow> string \<Rightarrow> 'f res" where
  "CacheFactory_Create fs ty = (case map_of fs ty of
     None \<Rightarrow> Throw (OutOfRange (''CacheFactory: unknown cache type '' @ [CHR 0x27] @ ty @ [CHR 0x27]))
   | Some f \<Rightarrow> Ok f)"

definition CacheFactory_Contains :: "'f factories \<Rightarrow> string \<Rightarrow> bool" where
  "CacheFactory_Contains fs ty = (map_of fs ty \<noteq> None)"

definition CacheFactory_Types :: "'f factories \<Rightarrow> string list" where
  "CacheFactory_Types fs = keys fs"

interpretation cache_factory: named_registry CacheFactory_Register CacheFactory_Create CacheFactory_Contains
    "map_of :: 'f factories \<Rightarrow> string \<Rightarrow> 'f option"
  by unfold_locales
    (auto simp: CacheFactory_Register_def CacheFactory_Create_def CacheFactory_Contains_def)

section \<open>The protocol is lossless\<close>

definition serves :: "'w channel \<Rightarrow> string \<Rightarrow> (string \<Rightarrow> 'w handler) \<Rightarrow> bool" where
  "serves call service d = (\<forall>m req res w. call service m req res w = d m req res w)"

lemma InProc_serves: "InProc_Find reg service = Some p \<Longrightarrow> serves (InProc_Call disp reg ep) service (disp p)"
  by (simp add: serves_def InProc_Call_def)

lemmas message_simps = RpcMessage_new_def set_header_def RpcStatus_mk_def RpcStatus_ok_def at_or_def ToHeaderBool_def

lemma remote_get:
  assumes "serves call (rc_service rc) (CacheRpcService_Dispatch now)"
  shows "\<exists>evs. RemoteCache_Get call rc k c = Inr (fst (LocalCache_Get k now c), evs, snd (LocalCache_Get k now c))"
  using assms
  by (cases "LocalCache_Get k now c")
    (auto simp: serves_def RemoteCache_Get_def CacheRpcService_Dispatch_def message_simps Let_def split: option.splits)

lemma remote_put:
  assumes "serves call (rc_service rc) (CacheRpcService_Dispatch now)"
    and "- (2 ^ 63) \<le> ResolveTtl rc ttl" "ResolveTtl rc ttl < 2 ^ 63"
  shows "\<exists>evs. RemoteCache_Put call rc k v ttl c = Inr (evs, LocalCache_Put k v (ResolveTtl rc ttl) now c)"
  using assms(1) stoll_int_to_string [of "ResolveTtl rc ttl", unfolded int64_def] assms(2,3)
  by (auto simp: serves_def RemoteCache_Put_def CacheRpcService_Dispatch_def message_simps Let_def)

lemma remote_remove:
  assumes "serves call (rc_service rc) (CacheRpcService_Dispatch now)"
  shows "\<exists>evs. RemoteCache_Remove call rc k c = Inr (fst (LocalCache_Remove k c), evs, snd (LocalCache_Remove k c))"
  using assms
  by (cases "LocalCache_Remove k c")
    (auto simp: serves_def RemoteCache_Remove_def CacheRpcService_Dispatch_def message_simps Let_def)

lemma remote_clear:
  assumes "serves call (rc_service rc) (CacheRpcService_Dispatch now)"
  shows "\<exists>evs. RemoteCache_Clear call rc c = Inr (evs, LocalCache_Clear c)"
  using assms by (auto simp: serves_def RemoteCache_Clear_def CacheRpcService_Dispatch_def message_simps Let_def)

lemma remote_size:
  assumes "serves call (rc_service rc) (CacheRpcService_Dispatch now)" "LocalCache_size c < 2 ^ 64"
  shows "RemoteCache_size call rc c = Inr (int (LocalCache_size c), c)"
  using assms(1) stoull_nat_to_string [OF assms(2)]
  by (auto simp: serves_def RemoteCache_size_def CacheRpcService_Dispatch_def message_simps Let_def)

section \<open>Properties\<close>

text \<open>C40. Over the in-process transport the remote cache is the served cache: every operation sent
  through headers and payload returns what the local operation returns and leaves the store as it does (the
  time to live, resolved by the client first, and the size survive their decimal encoding).\<close>

theorem RemoteCache_is_served_cache:
  assumes "InProc_Find reg (rc_service rc) = Some p" and "disp p = CacheRpcService_Dispatch now"
    and "- (2 ^ 63) \<le> ResolveTtl rc ttl \<and> ResolveTtl rc ttl < 2 ^ 63" and "LocalCache_size c < 2 ^ 64"
  shows "(\<exists>evs. RemoteCache_Get (InProc_Call disp reg ep) rc k c
            = Inr (fst (LocalCache_Get k now c), evs, snd (LocalCache_Get k now c)))
    \<and> (\<exists>evs. RemoteCache_Put (InProc_Call disp reg ep) rc k v ttl c
            = Inr (evs, LocalCache_Put k v (ResolveTtl rc ttl) now c))
    \<and> (\<exists>evs. RemoteCache_Remove (InProc_Call disp reg ep) rc k c
            = Inr (fst (LocalCache_Remove k c), evs, snd (LocalCache_Remove k c)))
    \<and> (\<exists>evs. RemoteCache_Clear (InProc_Call disp reg ep) rc c = Inr (evs, LocalCache_Clear c))
    \<and> RemoteCache_size (InProc_Call disp reg ep) rc c = Inr (int (LocalCache_size c), c)"
proof -
  have "serves (InProc_Call disp reg ep) (rc_service rc) (CacheRpcService_Dispatch now)"
    using InProc_serves [OF assms(1), of disp ep] assms(2) by simp
  then show ?thesis using assms(3,4) by (intro conjI remote_get remote_put remote_remove remote_clear remote_size) auto
qed

definition demo_remote :: RemoteCache where
  "demo_remote = \<lparr>rc_options = demo_options, rc_service = ''cache''\<rparr>"

theorem RemoteCache_is_served_cache_witness:
  "\<exists>evs. RemoteCache_Put (InProc_Call (\<lambda>_. CacheRpcService_Dispatch 5) [(''cache'', ())] \<lparr>ep_scheme = [], ep_address = []\<rparr>)
      demo_remote ''a'' ''1'' 10 (LocalCache_new demo_options)
    = Inr (evs, LocalCache_Put ''a'' ''1'' 10 5 (LocalCache_new demo_options))"
proof -
  have r: "ResolveTtl demo_remote 10 = 10" by (simp add: ResolveTtl_def)
  have "InProc_Find [(''cache'', ())] (rc_service demo_remote) = Some ()"
    by (simp add: InProc_Find_def demo_remote_def)
  moreover have "LocalCache_size (LocalCache_new demo_options) < 2 ^ 64"
    by (simp add: LocalCache_size_def LocalCache_new_def)
  ultimately show ?thesis
    using RemoteCache_is_served_cache [of "[(''cache'', ())]" demo_remote "()" "\<lambda>_. CacheRpcService_Dispatch 5" 5 10
        "LocalCache_new demo_options" "\<lparr>ep_scheme = [], ep_address = []\<rparr>" "''a''" "''1''"]
    unfolding r by auto
qed

text \<open>When the service is not registered, the remote cache degrades instead of failing: reads miss, removes
  report nothing, the size is 0, writes are dropped; the store behind the transport is untouched, and a
  monitored read reports \<^verbatim>\<open>cache.error\<close>.\<close>

theorem RemoteCache_unavailable:
  assumes "InProc_Find reg (rc_service rc) = None"
  shows "RemoteCache_Get (InProc_Call disp reg ep) rc k c = Inr (None, RemoteCache_Emit rc ''cache.error'' k False, c)
    \<and> RemoteCache_Put (InProc_Call disp reg ep) rc k v ttl c = Inr (RemoteCache_Emit rc ''cache.put'' k False, c)
    \<and> RemoteCache_Remove (InProc_Call disp reg ep) rc k c = Inr (False, RemoteCache_Emit rc ''cache.remove'' k False, c)
    \<and> RemoteCache_size (InProc_Call disp reg ep) rc c = Inr (0, c)"
  using assms
  by (simp add: RemoteCache_Get_def RemoteCache_Put_def RemoteCache_Remove_def RemoteCache_size_def
      InProc_Call_def RpcStatus_ok_def RpcStatus_mk_def Let_def)

theorem RemoteCache_unavailable_witness:
  "RemoteCache_size (InProc_Call (\<lambda>_. CacheRpcService_Dispatch 5) ([] :: (string \<times> unit) list) \<lparr>ep_scheme = [], ep_address = []\<rparr>)
     demo_remote (LocalCache_new demo_options) = Inr (0, LocalCache_new demo_options)"
  using RemoteCache_unavailable [of "[] :: (string \<times> unit) list" demo_remote "\<lambda>_. CacheRpcService_Dispatch 5" "\<lparr>ep_scheme = [], ep_address = []\<rparr>"
      "[]" "LocalCache_new demo_options" "[]" 0] by (simp add: InProc_Find_def)

end
