(* ===== verification/Flt.thy ===== *)
theory Flt
  imports Complex_Main "HOL-Library.Word"
begin

text \<open>
  The numbers of the column engine.  \<^verbatim>\<open>float\<close> and \<^verbatim>\<open>double\<close> are both \<^verbatim>\<open>flt\<close>: a finite value is an
  exact real (arithmetic does not round and does not overflow, and the zero has no sign), the
  infinities and NaN propagate and compare as IEEE 754 prescribes.  Integers keep their width as
  words; \<^verbatim>\<open>+\<close>, \<^verbatim>\<open>-\<close> and \<^verbatim>\<open>*\<close> on them wrap, which is what the compiled code does where the language
  leaves signed overflow undefined.  A conversion from a floating value to an integer type truncates
  towards zero, and gives the most negative value of the type when the result does not fit (the
  indefinite integer of the x86-64 conversion instructions).
\<close>

section \<open>Floating values\<close>

datatype flt = Fin real | PInf | NInf | NaN

fun fneg :: "flt \<Rightarrow> flt" where
  "fneg (Fin x) = Fin (- x)"
| "fneg PInf = NInf"
| "fneg NInf = PInf"
| "fneg NaN = NaN"

fun fadd :: "flt \<Rightarrow> flt \<Rightarrow> flt" where
  "fadd (Fin x) (Fin y) = Fin (x + y)"
| "fadd NaN _ = NaN"
| "fadd _ NaN = NaN"
| "fadd PInf NInf = NaN"
| "fadd NInf PInf = NaN"
| "fadd PInf _ = PInf"
| "fadd NInf _ = NInf"
| "fadd _ PInf = PInf"
| "fadd _ NInf = NInf"

definition fsub :: "flt \<Rightarrow> flt \<Rightarrow> flt" where
  "fsub x y = fadd x (fneg y)"

text \<open>The infinity with the sign of \<^verbatim>\<open>x\<close>, and NaN for zero: what a product or a quotient with an
  infinity, or a quotient by zero, gives.\<close>

definition inf_of_sign :: "real \<Rightarrow> flt" where
  "inf_of_sign x = (if x = 0 then NaN else if x > 0 then PInf else NInf)"

fun fmul :: "flt \<Rightarrow> flt \<Rightarrow> flt" where
  "fmul (Fin x) (Fin y) = Fin (x * y)"
| "fmul NaN _ = NaN"
| "fmul _ NaN = NaN"
| "fmul (Fin x) PInf = inf_of_sign x"
| "fmul (Fin x) NInf = inf_of_sign (- x)"
| "fmul PInf (Fin x) = inf_of_sign x"
| "fmul NInf (Fin x) = inf_of_sign (- x)"
| "fmul PInf PInf = PInf"
| "fmul NInf NInf = PInf"
| "fmul PInf NInf = NInf"
| "fmul NInf PInf = NInf"

fun fdiv :: "flt \<Rightarrow> flt \<Rightarrow> flt" where
  "fdiv (Fin x) (Fin y) = (if y = 0 then inf_of_sign x else Fin (x / y))"
| "fdiv NaN _ = NaN"
| "fdiv _ NaN = NaN"
| "fdiv (Fin _) _ = Fin 0"
| "fdiv PInf (Fin y) = (if y < 0 then NInf else PInf)"
| "fdiv NInf (Fin y) = (if y < 0 then PInf else NInf)"
| "fdiv _ _ = NaN"

fun flt_lt :: "flt \<Rightarrow> flt \<Rightarrow> bool" where
  "flt_lt (Fin x) (Fin y) = (x < y)"
| "flt_lt NaN _ = False"
| "flt_lt _ NaN = False"
| "flt_lt PInf _ = False"
| "flt_lt _ NInf = False"
| "flt_lt _ _ = True"

fun flt_eq :: "flt \<Rightarrow> flt \<Rightarrow> bool" where
  "flt_eq NaN _ = False"
| "flt_eq x y = (x = y)"

definition flt_le :: "flt \<Rightarrow> flt \<Rightarrow> bool" where
  "flt_le x y = (flt_lt x y \<or> flt_eq x y)"

text \<open>\<^verbatim>\<open>std::max\<close> and \<^verbatim>\<open>std::min\<close> return their first argument unless the comparison with the second says
  otherwise, so a NaN in second place is passed over.\<close>

definition fmax :: "flt \<Rightarrow> flt \<Rightarrow> flt" where
  "fmax a b = (if flt_lt a b then b else a)"

definition fmin :: "flt \<Rightarrow> flt \<Rightarrow> flt" where
  "fmin a b = (if flt_lt b a then b else a)"

fun fabs :: "flt \<Rightarrow> flt" where
  "fabs (Fin x) = Fin \<bar>x\<bar>"
| "fabs NaN = NaN"
| "fabs _ = PInf"

fun fsqrt :: "flt \<Rightarrow> flt" where
  "fsqrt (Fin x) = (if x < 0 then NaN else Fin (sqrt x))"
| "fsqrt PInf = PInf"
| "fsqrt _ = NaN"

fun fexp :: "flt \<Rightarrow> flt" where
  "fexp (Fin x) = Fin (exp x)"
| "fexp PInf = PInf"
| "fexp NInf = Fin 0"
| "fexp NaN = NaN"

fun flog :: "flt \<Rightarrow> flt" where
  "flog (Fin x) = (if x < 0 then NaN else if x = 0 then NInf else Fin (ln x))"
| "flog PInf = PInf"
| "flog _ = NaN"

fun is_fin :: "flt \<Rightarrow> bool" where
  "is_fin (Fin _) = True"
| "is_fin _ = False"

fun fin :: "flt \<Rightarrow> real" where
  "fin (Fin x) = x"
| "fin _ = 0"

section \<open>Conversions\<close>

definition trunc :: "real \<Rightarrow> int" where
  "trunc x = (if 0 \<le> x then \<lfloor>x\<rfloor> else \<lceil>x\<rceil>)"

definition int_fits :: "nat \<Rightarrow> int \<Rightarrow> bool" where
  "int_fits w k = (- (2 ^ (w - 1)) \<le> k \<and> k < 2 ^ (w - 1))"

fun flt_to_int :: "flt \<Rightarrow> 'w::len word" where
  "flt_to_int (Fin x) =
    (if int_fits LENGTH('w) (trunc x) then word_of_int (trunc x)
     else word_of_int (- (2 ^ (LENGTH('w) - 1))))"
| "flt_to_int _ = word_of_int (- (2 ^ (LENGTH('w) - 1)))"

definition int_to_flt :: "'w::len word \<Rightarrow> flt" where
  "int_to_flt w = Fin (real_of_int (sint w))"

definition int_cast :: "'v::len word \<Rightarrow> 'w::len word" where
  "int_cast w = word_of_int (sint w)"

section \<open>Facts\<close>

lemma is_fin_iff: "is_fin x \<longleftrightarrow> (\<exists>r. x = Fin r)"
  by (cases x) auto

lemma Fin_fin [simp]: "is_fin x \<Longrightarrow> Fin (fin x) = x"
  by (cases x) auto

lemma flt_lt_irrefl [simp]: "\<not> flt_lt x x"
  by (cases x) auto

lemma flt_lt_trans: "flt_lt x y \<Longrightarrow> flt_lt y z \<Longrightarrow> flt_lt x z"
  by (cases x; cases y; cases z) auto

lemma flt_eq_refl_iff: "flt_eq x x \<longleftrightarrow> x \<noteq> NaN"
  by (cases x) auto

lemma flt_eq_iff: "flt_eq x y \<longleftrightarrow> x = y \<and> x \<noteq> NaN"
  by (cases x) auto

text \<open>IEEE order: exactly one of less, equal and greater, or one operand is NaN.\<close>

lemma flt_trichotomy:
  "x \<noteq> NaN \<Longrightarrow> y \<noteq> NaN \<Longrightarrow> flt_lt x y \<or> flt_eq x y \<or> flt_lt y x"
  by (cases x; cases y) auto

lemma flt_le_antisym: "flt_le x y \<Longrightarrow> flt_le y x \<Longrightarrow> flt_eq x y"
  by (cases x; cases y) (auto simp: flt_le_def)

lemma fadd_comm: "fadd x y = fadd y x"
  by (cases x; cases y) auto

lemma fmul_comm: "fmul x y = fmul y x"
  by (cases x; cases y) (auto simp: inf_of_sign_def)

lemma fmax_Fin [simp]: "fmax (Fin a) (Fin b) = Fin (max a b)"
  by (simp add: fmax_def)

lemma fmin_Fin [simp]: "fmin (Fin a) (Fin b) = Fin (min a b)"
  by (simp add: fmin_def)

lemma fsub_Fin [simp]: "fsub (Fin a) (Fin b) = Fin (a - b)"
  by (simp add: fsub_def)

lemma trunc_of_int [simp]: "trunc (of_int k) = k"
  by (simp add: trunc_def)

lemma trunc_zero [simp]: "trunc 0 = 0"
  by (simp add: trunc_def)

text \<open>Truncation moves a value towards zero by less than one.\<close>

lemma trunc_error: "\<bar>x - of_int (trunc x)\<bar> < 1"
  unfolding trunc_def by (auto simp: abs_if) linarith+

lemma trunc_towards_zero: "\<bar>real_of_int (trunc x)\<bar> \<le> \<bar>x\<bar>"
proof (cases "0 \<le> x")
  case True
  then show ?thesis by (simp add: trunc_def)
next
  case False
  then have "\<lceil>x\<rceil> \<le> 0" by simp
  then have "\<bar>real_of_int \<lceil>x\<rceil>\<bar> = - real_of_int \<lceil>x\<rceil>" by simp
  then have "\<bar>real_of_int \<lceil>x\<rceil>\<bar> \<le> \<bar>x\<bar>" using False le_of_int_ceiling [of x] by linarith
  with False show ?thesis by (simp add: trunc_def)
qed

lemma trunc_bound:
  assumes "\<bar>x\<bar> \<le> of_int k"
  shows "\<bar>trunc x\<bar> \<le> k"
proof -
  have "\<bar>real_of_int (trunc x)\<bar> \<le> of_int k"
    using trunc_towards_zero [of x] assms by linarith
  then show ?thesis by linarith
qed

lemma sint_word_of_int:
  assumes "int_fits LENGTH('w::len) k"
  shows "sint (word_of_int k :: 'w word) = k"
  using assms by (simp add: int_fits_def signed_of_int signed_take_bit_int_eq_self)

lemma sint_fits: "int_fits LENGTH('w::len) (sint (w :: 'w word))"
  using sint_greater_eq [of w] sint_less [of w] by (simp add: int_fits_def)

lemma flt_to_int_Fin:
  assumes "int_fits LENGTH('w::len) (trunc x)"
  shows "sint (flt_to_int (Fin x) :: 'w word) = trunc x"
  using assms by (simp add: sint_word_of_int)

text \<open>An integer survives the trip through \<^verbatim>\<open>double\<close>, and a cast to a type that holds the value keeps it.\<close>

lemma flt_to_int_to_flt [simp]: "flt_to_int (int_to_flt (w :: 'w::len word)) = w"
  unfolding int_to_flt_def flt_to_int.simps trunc_of_int using sint_fits [of w] by simp

lemma int_cast_sint:
  assumes "int_fits LENGTH('w::len) (sint w)"
  shows "sint (int_cast w :: 'w word) = sint w"
  unfolding int_cast_def by (rule sint_word_of_int [OF assms])

lemma int_cast_id [simp]: "int_cast (w :: 'w::len word) = w"
  by (simp add: int_cast_def)

end
