(* ===== verification/Tensor.thy ===== *)
theory Tensor
  imports Prelude Flt
begin

text \<open>
  \<^verbatim>\<open>column/types.h\<close> and \<^verbatim>\<open>column/tensor.{h,cpp}\<close>: the element types and the one-dimensional tensor.

  The byte buffer \<^verbatim>\<open>data_\<close> is a list of typed cells, one per scalar element and one per block of 32
  quantised elements; \<^verbatim>\<open>slots\<close> counts them, and \<^verbatim>\<open>dtype_bytes\<close> is that number times the cell's width.  A
  vector that grows is zero-filled.  \<^verbatim>\<open>data_as<T>()\<close> on a buffer that was written at another type has no
  defined value in the model (\<^verbatim>\<open>Undefined\<close>); \<^verbatim>\<open>tensor_ok\<close> is the type invariant that keeps the cells in step
  with \<^verbatim>\<open>dtype_\<close>, the buffer with \<^verbatim>\<open>capacity_\<close> and \<^verbatim>\<open>size_\<close> below it.
\<close>

section \<open>Model\<close>

text \<open>A name in an error message.\<close>

abbreviation quoted :: "string \<Rightarrow> string" where
  "quoted s \<equiv> [CHR 0x27] @ s @ [CHR 0x27]"

subsection \<open>Element types\<close>

datatype DType = kInt32 | kInt64 | kFloat32 | kFloat64 | kQ8_0

abbreviation kDouble :: DType where
  "kDouble \<equiv> kFloat64"

definition is_float :: "DType \<Rightarrow> bool" where
  "is_float t = (t = kFloat32 \<or> t = kFloat64)"

definition is_int :: "DType \<Rightarrow> bool" where
  "is_int t = (t = kInt32 \<or> t = kInt64)"

definition is_scalar_type :: "DType \<Rightarrow> bool" where
  "is_scalar_type t = (is_float t \<or> is_int t)"

definition is_quantized :: "DType \<Rightarrow> bool" where
  "is_quantized t = (t = kQ8_0)"

definition kQ8BlockSize :: nat where
  "kQ8BlockSize = 32"

record BlockQ8_0 =
  blk_d :: flt
  blk_qs :: "8 word list"

fun dtype_size :: "DType \<Rightarrow> nat" where
  "dtype_size kInt32 = 4"
| "dtype_size kInt64 = 8"
| "dtype_size kFloat32 = 4"
| "dtype_size kFloat64 = 8"
| "dtype_size kQ8_0 = 4 + kQ8BlockSize"

fun dtype_name :: "DType \<Rightarrow> string" where
  "dtype_name kInt32 = ''int32''"
| "dtype_name kInt64 = ''int64''"
| "dtype_name kFloat32 = ''float32''"
| "dtype_name kFloat64 = ''float64''"
| "dtype_name kQ8_0 = ''q8_0''"

definition dtype_bytes :: "nat \<Rightarrow> DType \<Rightarrow> nat" where
  "dtype_bytes n t =
    (if t = kQ8_0 then (n + kQ8BlockSize - 1) div kQ8BlockSize * dtype_size kQ8_0
     else n * dtype_size t)"

definition parse_dtype :: "string \<Rightarrow> DType res" where
  "parse_dtype s =
    (if s = ''int32'' then Ok kInt32
     else if s = ''int64'' then Ok kInt64
     else if s = ''float32'' \<or> s = ''float'' then Ok kFloat32
     else if s = ''float64'' \<or> s = ''double'' then Ok kFloat64
     else Throw (RuntimeError (''unknown dtype: '' @ s)))"

subsection \<open>Cells and tensors\<close>

datatype cell = CI32 "32 word" | CI64 "64 word" | CF32 flt | CF64 flt | CQ8 BlockQ8_0

fun cell_type :: "cell \<Rightarrow> DType" where
  "cell_type (CI32 _) = kInt32"
| "cell_type (CI64 _) = kInt64"
| "cell_type (CF32 _) = kFloat32"
| "cell_type (CF64 _) = kFloat64"
| "cell_type (CQ8 _) = kQ8_0"

fun zero_cell :: "DType \<Rightarrow> cell" where
  "zero_cell kInt32 = CI32 0"
| "zero_cell kInt64 = CI64 0"
| "zero_cell kFloat32 = CF32 (Fin 0)"
| "zero_cell kFloat64 = CF64 (Fin 0)"
| "zero_cell kQ8_0 = CQ8 \<lparr>blk_d = Fin 0, blk_qs = replicate kQ8BlockSize 0\<rparr>"

text \<open>\<^verbatim>\<open>static_cast<T>(v)\<close> of a \<^verbatim>\<open>double\<close>, and of an element of any scalar type to \<^verbatim>\<open>double\<close>.\<close>

fun cell_of_flt :: "DType \<Rightarrow> flt \<Rightarrow> cell" where
  "cell_of_flt kInt32 v = CI32 (flt_to_int v)"
| "cell_of_flt kInt64 v = CI64 (flt_to_int v)"
| "cell_of_flt kFloat32 v = CF32 v"
| "cell_of_flt kFloat64 v = CF64 v"
| "cell_of_flt kQ8_0 v = zero_cell kQ8_0"

fun cell_flt :: "cell \<Rightarrow> flt" where
  "cell_flt (CI32 w) = int_to_flt w"
| "cell_flt (CI64 w) = int_to_flt w"
| "cell_flt (CF32 x) = x"
| "cell_flt (CF64 x) = x"
| "cell_flt (CQ8 b) = NaN"

definition slots :: "DType \<Rightarrow> nat \<Rightarrow> nat" where
  "slots t n = (if t = kQ8_0 then (n + kQ8BlockSize - 1) div kQ8BlockSize else n)"

record Tensor =
  t_dtype :: DType
  t_data :: "cell list"
  t_size :: nat
  t_capacity :: nat

text \<open>\<^verbatim>\<open>std::vector::resize\<close>: cut, or extend with zeros.\<close>

definition resize_cells :: "DType \<Rightarrow> nat \<Rightarrow> cell list \<Rightarrow> cell list" where
  "resize_cells t n cs = take n cs @ replicate (n - length cs) (zero_cell t)"

definition ensure_capacity :: "nat \<Rightarrow> Tensor \<Rightarrow> Tensor" where
  "ensure_capacity required t =
    (if required \<le> t_capacity t then t
     else let new_cap = max required (t_capacity t * 2) in
       t\<lparr>t_data := resize_cells (t_dtype t) (slots (t_dtype t) new_cap) (t_data t),
         t_capacity := new_cap\<rparr>)"

text \<open>\<^verbatim>\<open>Tensor()\<close> and \<^verbatim>\<open>Tensor(dtype, capacity)\<close>.\<close>

definition Tensor_default :: Tensor where
  "Tensor_default = \<lparr>t_dtype = kDouble, t_data = [], t_size = 0, t_capacity = 0\<rparr>"

definition Tensor_new :: "DType \<Rightarrow> nat \<Rightarrow> Tensor" where
  "Tensor_new dtype n =
    (let t = \<lparr>t_dtype = dtype, t_data = [], t_size = 0, t_capacity = 0\<rparr> in
     if n > 0 then ensure_capacity n t else t)"

text \<open>Writes through \<^verbatim>\<open>data_as<T>()[i]\<close> for \<^verbatim>\<open>i = 0, 1, ...\<close>, and the copy of a whole buffer.\<close>

definition put_cells :: "cell list \<Rightarrow> Tensor \<Rightarrow> Tensor" where
  "put_cells cs t = t\<lparr>t_data := cs @ drop (length cs) (t_data t)\<rparr>"

definition tresize :: "nat \<Rightarrow> Tensor \<Rightarrow> Tensor" where
  "tresize n t = (ensure_capacity n t)\<lparr>t_size := n\<rparr>"

definition treserve :: "nat \<Rightarrow> Tensor \<Rightarrow> Tensor" where
  "treserve cap t = ensure_capacity cap t"

definition tclear :: "Tensor \<Rightarrow> Tensor" where
  "tclear t = t\<lparr>t_size := 0\<rparr>"

definition zeros :: "nat \<Rightarrow> DType \<Rightarrow> Tensor" where
  "zeros n dtype =
    (Tensor_new dtype n)\<lparr>t_data := replicate (slots dtype n) (zero_cell dtype),
                          t_size := n, t_capacity := n\<rparr>"

definition full :: "nat \<Rightarrow> flt \<Rightarrow> DType \<Rightarrow> Tensor res" where
  "full n value dtype =
    (if dtype = kQ8_0 then Throw (RuntimeError ''Tensor::full: unsupported dtype'')
     else Ok ((put_cells (replicate n (cell_of_flt dtype value)) (Tensor_new dtype n))
                \<lparr>t_size := n, t_capacity := n\<rparr>))"

definition ones :: "nat \<Rightarrow> DType \<Rightarrow> Tensor res" where
  "ones n dtype = full n (Fin 1) dtype"

text \<open>The four \<^verbatim>\<open>from_data\<close> overloads and the initializer-list constructors copy the elements.\<close>

definition from_cells :: "DType \<Rightarrow> cell list \<Rightarrow> Tensor" where
  "from_cells dtype cs =
    (put_cells cs (Tensor_new dtype (length cs)))\<lparr>t_size := length cs, t_capacity := length cs\<rparr>"

definition from_i32 :: "32 word list \<Rightarrow> Tensor" where
  "from_i32 xs = from_cells kInt32 (map CI32 xs)"

definition from_i64 :: "64 word list \<Rightarrow> Tensor" where
  "from_i64 xs = from_cells kInt64 (map CI64 xs)"

definition from_f32 :: "flt list \<Rightarrow> Tensor" where
  "from_f32 xs = from_cells kFloat32 (map CF32 xs)"

definition from_f64 :: "flt list \<Rightarrow> Tensor" where
  "from_f64 xs = from_cells kFloat64 (map CF64 xs)"

subsection \<open>Element access\<close>

text \<open>\<^verbatim>\<open>data_as<T>()\<close> read over the first \<^verbatim>\<open>n\<close> elements.\<close>

definition data_as :: "DType \<Rightarrow> nat \<Rightarrow> Tensor \<Rightarrow> cell list res" where
  "data_as T n t =
    (if t_dtype t = T \<and> slots T n \<le> length (t_data t) then Ok (take (slots T n) (t_data t))
     else Throw (Undefined ''buffer read at another type or past its end''))"

definition tget :: "DType \<Rightarrow> nat \<Rightarrow> Tensor \<Rightarrow> cell res" where
  "tget T idx t =
    (if idx \<ge> t_size t then Throw (OutOfRange ''Tensor index out of range'')
     else if t_dtype t = T \<and> idx < length (t_data t) then Ok (t_data t ! idx)
     else Throw (Undefined ''buffer read at another type or past its end''))"

definition tset :: "nat \<Rightarrow> cell \<Rightarrow> Tensor \<Rightarrow> Tensor res" where
  "tset idx v t =
    (if idx \<ge> t_size t then Throw (OutOfRange ''Tensor index out of range'')
     else if t_dtype t = cell_type v \<and> idx < length (t_data t)
     then Ok (t\<lparr>t_data := (t_data t)[idx := v]\<rparr>)
     else Throw (Undefined ''buffer written at another type or past its end''))"

definition append_cell :: "cell \<Rightarrow> Tensor \<Rightarrow> Tensor" where
  "append_cell v t =
    (let t' = ensure_capacity (t_size t + 1) t in
     t'\<lparr>t_data := (t_data t')[t_size t' := v], t_size := t_size t' + 1\<rparr>)"

definition append_int64 :: "64 word \<Rightarrow> Tensor \<Rightarrow> Tensor res" where
  "append_int64 v t =
    (if t_dtype t \<noteq> kInt64 then Throw (RuntimeError ''append_int64 on non-int64 tensor'')
     else Ok (append_cell (CI64 v) t))"

definition append_double :: "flt \<Rightarrow> Tensor \<Rightarrow> Tensor res" where
  "append_double v t =
    (if t_dtype t \<noteq> kFloat64 then Throw (RuntimeError ''append_double on non-double tensor'')
     else Ok (append_cell (CF64 v) t))"

definition num_blocks :: "Tensor \<Rightarrow> nat" where
  "num_blocks t = slots (t_dtype t) (t_size t)"

definition clone :: "Tensor \<Rightarrow> Tensor" where
  "clone t =
    (let r = (Tensor_new (t_dtype t) (t_capacity t))\<lparr>t_size := t_size t\<rparr> in
     if t_size t > 0 then put_cells (take (slots (t_dtype t) (t_size t)) (t_data t)) r else r)"

definition to_double :: "Tensor \<Rightarrow> Tensor res" where
  "to_double t =
    (if t_dtype t = kFloat64 then Ok (clone t)
     else if t_dtype t = kQ8_0 then Throw (RuntimeError ''Tensor::to_double: unsupported dtype'')
     else let n = t_size t in
       Ok (tresize n (put_cells (map (CF64 \<circ> cell_flt) (take n (t_data t))) (Tensor_new kFloat64 n))))"

subsection \<open>Quantisation\<close>

text \<open>
  One block of \<^verbatim>\<open>quantize_q8_0\<close>; \<^verbatim>\<open>xs\<close> are the up to 32 elements from \<^verbatim>\<open>base\<close> on.  The \<^verbatim>\<open>float\<close> and the
  \<^verbatim>\<open>double\<close> branch of the code differ only in the width of the intermediate values.
\<close>

definition q8_scale :: "flt list \<Rightarrow> flt" where
  "q8_scale xs = fdiv (fold (\<lambda>x amax. fmax amax (fabs x)) xs (Fin 0)) (Fin 127)"

definition q8_value :: "flt \<Rightarrow> flt \<Rightarrow> 8 word" where
  "q8_value d x =
    (let q = (if flt_eq d (Fin 0) then Fin 0 else fdiv x d) in
     flt_to_int (fmax (Fin (-127)) (fmin (Fin 127) q)))"

definition quantize_block :: "flt list \<Rightarrow> BlockQ8_0" where
  "quantize_block xs =
    (let d = q8_scale xs in
     \<lparr>blk_d = (if flt_eq d (Fin 0) then Fin 0 else d),
      blk_qs = map (q8_value d) xs @ replicate (kQ8BlockSize - length xs) 0\<rparr>)"

definition block_count :: "nat \<Rightarrow> nat \<Rightarrow> nat" where
  "block_count n b = min kQ8BlockSize (n - b * kQ8BlockSize)"

definition quantize_q8_0 :: "Tensor \<Rightarrow> Tensor res" where
  "quantize_q8_0 t =
    (if \<not> is_float (t_dtype t)
     then Throw (RuntimeError ''quantize_q8_0: input must be a float tensor'')
     else let n = t_size t;
              blocks = (n + kQ8BlockSize - 1) div kQ8BlockSize;
              p = map cell_flt (t_data t);
              result = (Tensor_new kQ8_0 n)\<lparr>t_size := n, t_capacity := n\<rparr>
       in Ok (put_cells
                (map (\<lambda>b. CQ8 (quantize_block (take (block_count n b) (drop (b * kQ8BlockSize) p))))
                   [0..<blocks]) result))"

fun cell_block :: "cell \<Rightarrow> BlockQ8_0" where
  "cell_block (CQ8 b) = b"
| "cell_block _ = \<lparr>blk_d = NaN, blk_qs = []\<rparr>"

definition dequantize_block :: "nat \<Rightarrow> BlockQ8_0 \<Rightarrow> cell list" where
  "dequantize_block cnt q = map (\<lambda>w. CF64 (fmul (int_to_flt w) (blk_d q))) (take cnt (blk_qs q))"

definition dequantize :: "Tensor \<Rightarrow> Tensor res" where
  "dequantize t =
    (if t_dtype t \<noteq> kQ8_0 then Throw (RuntimeError ''dequantize: input must be a kQ8_0 tensor'')
     else let n = t_size t;
              blocks = (n + kQ8BlockSize - 1) div kQ8BlockSize
       in Ok (tresize n (put_cells
                (concat (map (\<lambda>b. dequantize_block (block_count n b) (cell_block (t_data t ! b)))
                   [0..<blocks]))
                (Tensor_new kFloat64 n))))"

definition dot_block :: "nat \<Rightarrow> BlockQ8_0 \<Rightarrow> BlockQ8_0 \<Rightarrow> 32 word" where
  "dot_block cnt a b =
    fold (\<lambda>(x, y) s. s + int_cast x * int_cast y) (take cnt (zip (blk_qs a) (blk_qs b))) 0"

definition dot_q8_0 :: "Tensor \<Rightarrow> Tensor \<Rightarrow> flt res" where
  "dot_q8_0 t other =
    (if t_dtype t \<noteq> kQ8_0 \<or> t_dtype other \<noteq> kQ8_0
     then Throw (RuntimeError ''dot_q8_0: both operands must be kQ8_0'')
     else if t_size t \<noteq> t_size other then Throw (RuntimeError ''dot_q8_0: length mismatch'')
     else let n = t_size t;
              blocks = (n + kQ8BlockSize - 1) div kQ8BlockSize
       in Ok (fold (\<lambda>blk acc.
                let a = cell_block (t_data t ! blk); b = cell_block (t_data other ! blk) in
                fadd acc (fmul (fmul (blk_d a) (blk_d b)) (int_to_flt (dot_block (block_count n blk) a b))))
              [0..<blocks] (Fin 0)))"

section \<open>The type invariant\<close>

definition block_ok :: "BlockQ8_0 \<Rightarrow> bool" where
  "block_ok b = (length (blk_qs b) = kQ8BlockSize \<and> list_all (\<lambda>w. \<bar>sint w\<bar> \<le> 127) (blk_qs b))"

fun cell_ok :: "DType \<Rightarrow> cell \<Rightarrow> bool" where
  "cell_ok t (CQ8 b) = (t = kQ8_0 \<and> block_ok b)"
| "cell_ok t c = (cell_type c = t)"

definition tensor_ok :: "Tensor \<Rightarrow> bool" where
  "tensor_ok t =
    (length (t_data t) = slots (t_dtype t) (t_capacity t) \<and> t_size t \<le> t_capacity t \<and>
     list_all (cell_ok (t_dtype t)) (t_data t))"

text \<open>What a tensor holds: its cells up to \<^verbatim>\<open>size()\<close>.\<close>

definition elems :: "Tensor \<Rightarrow> cell list" where
  "elems t = take (slots (t_dtype t) (t_size t)) (t_data t)"

lemma DType_cases_scalar: "t \<noteq> kQ8_0 \<longleftrightarrow> is_scalar_type t"
  by (cases t) (auto simp: is_scalar_type_def is_float_def is_int_def)

lemma dtype_bytes_slots: "dtype_bytes n t = slots t n * dtype_size t"
  by (simp add: dtype_bytes_def slots_def)

lemma slots_mono: "m \<le> n \<Longrightarrow> slots t m \<le> slots t n"
  by (auto simp: slots_def intro: div_le_mono)

lemma slots_scalar [simp]: "t \<noteq> kQ8_0 \<Longrightarrow> slots t n = n"
  by (simp add: slots_def)

lemma slots_0 [simp]: "slots t 0 = 0"
  by (simp add: slots_def kQ8BlockSize_def)

lemma cell_ok_type: "cell_ok t c \<Longrightarrow> cell_type c = t"
  by (cases c) auto

lemma cell_ok_scalar: "t \<noteq> kQ8_0 \<Longrightarrow> cell_ok t c \<longleftrightarrow> cell_type c = t"
  by (cases c) auto

lemma zero_cell_ok [simp]: "cell_ok t (zero_cell t)"
  by (cases t) (auto simp: block_ok_def list_all_iff)

lemma cell_of_flt_ok [simp]: "t \<noteq> kQ8_0 \<Longrightarrow> cell_ok t (cell_of_flt t v)"
  by (cases t) auto

lemma tensor_ok_length: "tensor_ok t \<Longrightarrow> slots (t_dtype t) (t_size t) \<le> length (t_data t)"
  by (simp add: tensor_ok_def slots_mono)

lemma length_elems: "tensor_ok t \<Longrightarrow> length (elems t) = slots (t_dtype t) (t_size t)"
  using tensor_ok_length by (simp add: elems_def)

lemma elems_ok: "tensor_ok t \<Longrightarrow> list_all (cell_ok (t_dtype t)) (elems t)"
  by (auto simp: tensor_ok_def elems_def list_all_iff dest: in_set_takeD)

lemma data_as_ok: "tensor_ok t \<Longrightarrow> data_as (t_dtype t) (t_size t) t = Ok (elems t)"
  using tensor_ok_length by (simp add: data_as_def elems_def)

lemma tensor_ok_default [simp]: "tensor_ok Tensor_default"
  by (simp add: tensor_ok_def Tensor_default_def)

lemma resize_cells_id [simp]: "length cs = n \<Longrightarrow> resize_cells t n cs = cs"
  by (simp add: resize_cells_def)

lemma ensure_capacity_dtype [simp]:
  "t_dtype (ensure_capacity n t) = t_dtype t" "t_size (ensure_capacity n t) = t_size t"
  by (auto simp: ensure_capacity_def Let_def)

lemma ensure_capacity_capacity: "n \<le> t_capacity (ensure_capacity n t)"
  by (auto simp: ensure_capacity_def Let_def)

lemma ensure_capacity_grow: "t_capacity t \<le> t_capacity (ensure_capacity n t)"
  by (auto simp: ensure_capacity_def Let_def)

lemma ensure_capacity_ok: "tensor_ok t \<Longrightarrow> tensor_ok (ensure_capacity n t)"
  by (auto simp: ensure_capacity_def tensor_ok_def Let_def resize_cells_def list_all_iff dest!: in_set_takeD)

lemma ensure_capacity_prefix:
  assumes "tensor_ok t"
  shows "take (length (t_data t)) (t_data (ensure_capacity n t)) = t_data t"
proof -
  have "length (t_data t) \<le> slots (t_dtype t) (max n (t_capacity t * 2))"
    using assms slots_mono [of "t_capacity t" "max n (t_capacity t * 2)" "t_dtype t"]
    by (simp add: tensor_ok_def)
  then show ?thesis by (simp add: ensure_capacity_def Let_def resize_cells_def)
qed

lemma elems_ensure_capacity [simp]:
  assumes "tensor_ok t"
  shows "elems (ensure_capacity n t) = elems t"
proof -
  have "elems (ensure_capacity n t) =
      take (slots (t_dtype t) (t_size t)) (take (length (t_data t)) (t_data (ensure_capacity n t)))"
    using tensor_ok_length [OF assms] by (simp add: elems_def min_absorb1)
  then show ?thesis by (simp add: ensure_capacity_prefix [OF assms] elems_def)
qed

lemma Tensor_new_eq:
  "Tensor_new dtype n =
    \<lparr>t_dtype = dtype, t_data = replicate (slots dtype n) (zero_cell dtype), t_size = 0, t_capacity = n\<rparr>"
  by (simp add: Tensor_new_def ensure_capacity_def Let_def resize_cells_def)

lemma tensor_ok_new [simp]: "tensor_ok (Tensor_new dtype n)"
  by (simp add: Tensor_new_eq tensor_ok_def list_all_iff)

text \<open>
  The shape every kernel has: allocate \<^verbatim>\<open>n\<close> elements, write all of them, \<^verbatim>\<open>resize(n)\<close>.  The result is
  exactly what was written.
\<close>

lemma put_new:
  assumes "length cs = slots dtype n"
  shows "put_cells cs (Tensor_new dtype n) = \<lparr>t_dtype = dtype, t_data = cs, t_size = 0, t_capacity = n\<rparr>"
  using assms by (simp add: put_cells_def Tensor_new_eq)

lemma fill_new:
  assumes "length cs = slots dtype n"
  shows "tresize n (put_cells cs (Tensor_new dtype n)) =
    \<lparr>t_dtype = dtype, t_data = cs, t_size = n, t_capacity = n\<rparr>"
  using assms by (simp add: put_new tresize_def ensure_capacity_def)

lemma tensor_ok_exact [simp]:
  "tensor_ok \<lparr>t_dtype = dtype, t_data = cs, t_size = n, t_capacity = n\<rparr> \<longleftrightarrow>
    length cs = slots dtype n \<and> list_all (cell_ok dtype) cs"
  by (auto simp: tensor_ok_def)

lemma elems_exact [simp]:
  "length cs = slots dtype n \<Longrightarrow> elems \<lparr>t_dtype = dtype, t_data = cs, t_size = n, t_capacity = n\<rparr> = cs"
  by (simp add: elems_def)

subsection \<open>Constructors and element access\<close>

lemma from_cells_eq:
  assumes "dtype \<noteq> kQ8_0"
  shows "from_cells dtype cs = \<lparr>t_dtype = dtype, t_data = cs, t_size = length cs, t_capacity = length cs\<rparr>"
  using assms by (simp add: from_cells_def put_new)

lemma full_eq:
  assumes "dtype \<noteq> kQ8_0"
  shows "full n v dtype =
    Ok \<lparr>t_dtype = dtype, t_data = replicate n (cell_of_flt dtype v), t_size = n, t_capacity = n\<rparr>"
  using assms by (simp add: full_def put_new)

lemma zeros_ok: "tensor_ok (zeros n dtype)"
  by (simp add: zeros_def Tensor_new_eq list_all_iff)

lemma tget_elems:
  assumes "tensor_ok t" "t_dtype t \<noteq> kQ8_0" "i < t_size t"
  shows "tget (t_dtype t) i t = Ok (elems t ! i)"
  using assms tensor_ok_length [OF assms(1)] by (simp add: tget_def elems_def)

lemma tset_ok:
  assumes "tensor_ok t" "t_dtype t \<noteq> kQ8_0" "i < t_size t" "cell_type v = t_dtype t"
  obtains t' where "tset i v t = Ok t'" "tensor_ok t'" "elems t' = (elems t)[i := v]"
    "t_dtype t' = t_dtype t" "t_size t' = t_size t"
proof
  have len: "t_size t \<le> length (t_data t)" using tensor_ok_length [OF assms(1)] assms(2) by simp
  let ?t = "t\<lparr>t_data := (t_data t)[i := v]\<rparr>"
  show "tset i v t = Ok ?t" using assms len by (simp add: tset_def)
  show "tensor_ok ?t"
    using assms by (auto simp: tensor_ok_def list_all_iff cell_ok_scalar dest!: set_update_subset_insert [THEN subsetD])
  show "elems ?t = (elems t)[i := v]" using assms by (simp add: elems_def take_update_swap)
qed simp_all

lemma append_cell_ok:
  assumes "tensor_ok t" "t_dtype t \<noteq> kQ8_0" "cell_type v = t_dtype t"
  shows "tensor_ok (append_cell v t)" "elems (append_cell v t) = elems t @ [v]"
    "t_dtype (append_cell v t) = t_dtype t" "t_size (append_cell v t) = Suc (t_size t)"
proof -
  define t' where "t' = ensure_capacity (t_size t + 1) t"
  have ok: "tensor_ok t'" and cap: "t_size t + 1 \<le> t_capacity t'"
    and dt: "t_dtype t' = t_dtype t" "t_size t' = t_size t" and el: "elems t' = elems t"
    using assms(1) ensure_capacity_capacity [of "t_size t + 1" t]
    by (simp_all only: t'_def ensure_capacity_ok ensure_capacity_dtype elems_ensure_capacity)
  then have len: "t_size t < length (t_data t')"
    using assms(2) by (simp add: tensor_ok_def)
  have eq: "append_cell v t = t'\<lparr>t_data := (t_data t')[t_size t := v], t_size := t_size t + 1\<rparr>"
    using dt by (simp add: append_cell_def t'_def Let_def)
  show "t_dtype (append_cell v t) = t_dtype t" "t_size (append_cell v t) = Suc (t_size t)"
    using dt by (simp_all add: eq)
  show "tensor_ok (append_cell v t)"
    using ok cap assms dt unfolding eq
    by (auto simp: tensor_ok_def list_all_iff cell_ok_scalar dest!: set_update_subset_insert [THEN subsetD])
  show "elems (append_cell v t) = elems t @ [v]"
    using len el assms(2) dt unfolding eq by (simp add: elems_def take_Suc_conv_app_nth)
qed

lemma clone_ok:
  assumes "tensor_ok t"
  shows "tensor_ok (clone t)" "elems (clone t) = elems t"
    "t_dtype (clone t) = t_dtype t" "t_size (clone t) = t_size t"
proof -
  let ?k = "slots (t_dtype t) (t_size t)"
  have len: "?k \<le> length (t_data t)" "length (t_data t) = slots (t_dtype t) (t_capacity t)"
    using assms tensor_ok_length [OF assms] by (simp_all add: tensor_ok_def)
  have data: "t_data (clone t) = take ?k (t_data t) @
      replicate (slots (t_dtype t) (t_capacity t) - ?k) (zero_cell (t_dtype t))"
    using len by (auto simp: clone_def Let_def put_cells_def Tensor_new_eq)
  show dt: "t_dtype (clone t) = t_dtype t" and sz: "t_size (clone t) = t_size t"
    by (auto simp: clone_def Let_def put_cells_def Tensor_new_eq)
  have cap: "t_capacity (clone t) = t_capacity t"
    by (auto simp: clone_def Let_def put_cells_def Tensor_new_eq)
  show "elems (clone t) = elems t"
    using len by (simp add: elems_def data dt sz)
  show "tensor_ok (clone t)"
    using assms len unfolding tensor_ok_def data dt sz cap
    by (auto simp: list_all_iff dest: in_set_takeD)
qed

lemma to_double_ok:
  assumes "tensor_ok t" "t_dtype t \<noteq> kQ8_0"
  obtains r where "to_double t = Ok r" "tensor_ok r" "t_dtype r = kFloat64" "t_size r = t_size t"
    "elems r = map (CF64 \<circ> cell_flt) (elems t)"
proof (cases "t_dtype t = kFloat64")
  case True
  have "map (CF64 \<circ> cell_flt) (elems t) = elems t"
  proof (rule map_idI)
    fix c assume "c \<in> set (elems t)"
    then have "cell_ok kFloat64 c" using elems_ok [OF assms(1)] True by (simp add: list_all_iff)
    then show "(CF64 \<circ> cell_flt) c = c" by (cases c) auto
  qed
  then show ?thesis
    using that [of "clone t"] True clone_ok [OF assms(1)] by (simp add: to_double_def)
next
  case False
  have len: "t_size t \<le> length (t_data t)" using tensor_ok_length [OF assms(1)] assms(2) by simp
  have "to_double t = Ok \<lparr>t_dtype = kFloat64, t_data = map (CF64 \<circ> cell_flt) (elems t),
      t_size = t_size t, t_capacity = t_size t\<rparr>"
    using False assms(2) len by (simp add: to_double_def Let_def fill_new elems_def)
  moreover have "length (elems t) = t_size t" using length_elems [OF assms(1)] assms(2) by simp
  ultimately show ?thesis
    by (intro that [of "\<lparr>t_dtype = kFloat64, t_data = map (CF64 \<circ> cell_flt) (elems t),
      t_size = t_size t, t_capacity = t_size t\<rparr>"]) (simp_all add: list_all_iff)
qed

end
