(* ===== verification/TensorStore.thy ===== *)
theory TensorStore
  imports Tensor Str
begin

text \<open>
  \<^verbatim>\<open>column/tensor_table.{h,cpp}\<close> and \<^verbatim>\<open>column/tensor_store.{h,cpp}\<close>: the two containers of named tensors.
  Each keeps a hash map beside the list of names in insertion order; \<^verbatim>\<open>table_inv\<close> and \<^verbatim>\<open>store_inv\<close> say that
  the two agree and that every tensor is well formed.  A \<^verbatim>\<open>TensorTable\<close> wants equal lengths, a \<^verbatim>\<open>TensorStore\<close>
  does not.

  The locale \<^verbatim>\<open>symbol_table\<close> is what the operations and the graph executor rely on: a write is seen under
  its own name, leaves the other names alone and keeps the invariant.
\<close>

section \<open>Model\<close>

subsection \<open>TensorTable\<close>

record TensorTable =
  tt_tensors :: "(string \<times> Tensor) list"
  tt_order :: "string list"
  tt_num_rows :: nat

definition TensorTable_new :: TensorTable where
  "TensorTable_new = \<lparr>tt_tensors = [], tt_order = [], tt_num_rows = 0\<rparr>"

definition Table_add :: "string \<Rightarrow> Tensor \<Rightarrow> TensorTable \<Rightarrow> TensorTable res" where
  "Table_add name tensor table =
    (let sz = t_size tensor in
     if tt_tensors table \<noteq> [] \<and> sz \<noteq> tt_num_rows table \<and> tt_num_rows table > 0
     then Throw (RuntimeError (''Tensor size mismatch: expected '' @ nat_to_string (tt_num_rows table)
            @ '', got '' @ nat_to_string sz))
     else Ok (table
       \<lparr>tt_order := (if map_of (tt_tensors table) name = None then tt_order table @ [name] else tt_order table),
        tt_tensors := AList.update name tensor (tt_tensors table),
        tt_num_rows := sz\<rparr>))"

definition Table_get :: "string \<Rightarrow> TensorTable \<Rightarrow> Tensor res" where
  "Table_get name table =
    (case map_of (tt_tensors table) name of
       None \<Rightarrow> Throw (RuntimeError (''Tensor not found: '' @ name))
     | Some t \<Rightarrow> Ok t)"

definition Table_has :: "string \<Rightarrow> TensorTable \<Rightarrow> bool" where
  "Table_has name table = (map_of (tt_tensors table) name \<noteq> None)"

definition Table_remove :: "string \<Rightarrow> TensorTable \<Rightarrow> TensorTable" where
  "Table_remove name table =
    (if map_of (tt_tensors table) name = None then table
     else let ts = AList.delete name (tt_tensors table) in
       table\<lparr>tt_tensors := ts, tt_order := remove1 name (tt_order table),
             tt_num_rows := (if ts = [] then 0 else tt_num_rows table)\<rparr>)"

definition Table_clone :: "TensorTable \<Rightarrow> TensorTable res" where
  "Table_clone table =
    foldR (\<lambda>name result. bindR (Table_get name table) (\<lambda>t. Table_add name (clone t) result))
      (tt_order table) TensorTable_new"

fun table_rows_loop ::
  "string list \<Rightarrow> 64 word list list \<Rightarrow> flt list list \<Rightarrow> TensorTable \<Rightarrow> TensorTable res" where
  "table_rows_loop [] int_cols dbl_cols table = Ok table"
| "table_rows_loop (name # names) int_cols dbl_cols table =
    (if int_cols \<noteq> [] \<and> hd int_cols \<noteq> []
     then bindR (Table_add name (from_i64 (hd int_cols)) table)
            (table_rows_loop names (tl int_cols) dbl_cols)
     else if dbl_cols \<noteq> []
     then bindR (Table_add name (from_f64 (hd dbl_cols)) table)
            (table_rows_loop names int_cols (tl dbl_cols))
     else table_rows_loop names int_cols dbl_cols table)"

definition table_from_rows ::
  "string list \<Rightarrow> 64 word list list \<Rightarrow> flt list list \<Rightarrow> TensorTable res" where
  "table_from_rows col_names int_cols dbl_cols = table_rows_loop col_names int_cols dbl_cols TensorTable_new"

subsection \<open>TensorStore\<close>

record TensorStore =
  ts_tensors :: "(string \<times> Tensor) list"
  ts_order :: "string list"

definition TensorStore_new :: TensorStore where
  "TensorStore_new = \<lparr>ts_tensors = [], ts_order = []\<rparr>"

definition Store_set :: "string \<Rightarrow> Tensor \<Rightarrow> TensorStore \<Rightarrow> TensorStore" where
  "Store_set name tensor s =
    (if map_of (ts_tensors s) name = None
     then s\<lparr>ts_order := ts_order s @ [name], ts_tensors := AList.update name tensor (ts_tensors s)\<rparr>
     else s\<lparr>ts_tensors := AList.update name tensor (ts_tensors s)\<rparr>)"

definition EnsureNames :: "string list \<Rightarrow> TensorStore \<Rightarrow> TensorStore" where
  "EnsureNames names s =
    fold (\<lambda>name s. if map_of (ts_tensors s) name = None
                   then s\<lparr>ts_order := ts_order s @ [name],
                          ts_tensors := AList.update name Tensor_default (ts_tensors s)\<rparr>
                   else s) names s"

definition Store_find :: "string \<Rightarrow> TensorStore \<Rightarrow> Tensor option" where
  "Store_find name s = map_of (ts_tensors s) name"

definition Store_get :: "string \<Rightarrow> TensorStore \<Rightarrow> Tensor res" where
  "Store_get name s =
    (case Store_find name s of
       None \<Rightarrow> Throw (OutOfRange (''TensorStore::get: unknown tensor '' @ quoted name))
     | Some t \<Rightarrow> Ok t)"

definition Store_has :: "string \<Rightarrow> TensorStore \<Rightarrow> bool" where
  "Store_has name s = (Store_find name s \<noteq> None)"

definition Store_erase :: "string \<Rightarrow> TensorStore \<Rightarrow> TensorStore" where
  "Store_erase name s =
    (if Store_find name s = None then s
     else s\<lparr>ts_tensors := AList.delete name (ts_tensors s), ts_order := remove1 name (ts_order s)\<rparr>)"

definition Store_clear :: "TensorStore \<Rightarrow> TensorStore" where
  "Store_clear s = s\<lparr>ts_tensors := [], ts_order := []\<rparr>"

definition add_table :: "TensorTable \<Rightarrow> TensorStore \<Rightarrow> TensorStore res" where
  "add_table table s =
    foldR (\<lambda>name s. bindR (Table_get name table) (\<lambda>t. Ok (Store_set name (clone t) s))) (tt_order table) s"

text \<open>The loop of \<^verbatim>\<open>to_table\<close>; \<^verbatim>\<open>rows\<close> is \<^verbatim>\<open>None\<close> while \<^verbatim>\<open>first\<close> holds.\<close>

definition to_table_step ::
  "TensorStore \<Rightarrow> string \<Rightarrow> nat option \<times> TensorTable \<Rightarrow> (nat option \<times> TensorTable) res" where
  "to_table_step s name st =
    (case Store_find name s of
       None \<Rightarrow> Throw (OutOfRange (''TensorStore::to_table: unknown tensor '' @ quoted name))
     | Some t \<Rightarrow>
         if fst st \<noteq> None \<and> fst st \<noteq> Some (t_size t)
         then Throw (RuntimeError (''TensorStore::to_table: length mismatch for column '' @ quoted name))
         else bindR (Table_add name (clone t) (snd st)) (\<lambda>out. Ok (Some (t_size t), out)))"

definition to_table :: "string list \<Rightarrow> TensorStore \<Rightarrow> TensorTable res" where
  "to_table names s = bindR (foldR (to_table_step s) names (None, TensorTable_new)) (\<lambda>st. Ok (snd st))"

definition Store_clone :: "TensorStore \<Rightarrow> TensorStore res" where
  "Store_clone s =
    foldR (\<lambda>name result. case map_of (ts_tensors s) name of
        None \<Rightarrow> Throw (OutOfRange ''unordered_map::at'')
      | Some t \<Rightarrow> Ok (Store_set name (clone t) result)) (ts_order s) TensorStore_new"

section \<open>Invariants\<close>

definition table_inv :: "TensorTable \<Rightarrow> bool" where
  "table_inv table =
    (distinct (keys (tt_tensors table)) \<and> distinct (tt_order table) \<and>
     set (tt_order table) = set (keys (tt_tensors table)) \<and>
     list_all (\<lambda>(_, t). tensor_ok t) (tt_tensors table))"

definition store_inv :: "TensorStore \<Rightarrow> bool" where
  "store_inv s =
    (distinct (keys (ts_tensors s)) \<and> distinct (ts_order s) \<and>
     set (ts_order s) = set (keys (ts_tensors s)) \<and>
     list_all (\<lambda>(_, t). tensor_ok t) (ts_tensors s))"

text \<open>All columns of a table have \<^verbatim>\<open>num_rows()\<close> elements.\<close>

definition table_rect :: "TensorTable \<Rightarrow> bool" where
  "table_rect table = list_all (\<lambda>(_, t). t_size t = tt_num_rows table) (tt_tensors table)"

lemma list_all_update:
  "list_all (\<lambda>(_, t). P t) xs \<Longrightarrow> P v \<Longrightarrow> list_all (\<lambda>(_, t). P t) (AList.update k v xs)"
  by (induction xs) auto

lemma list_all_delete:
  "list_all (\<lambda>(_, t). P t) xs \<Longrightarrow> list_all (\<lambda>(_, t). P t) (AList.delete k xs)"
  by (induction xs) auto

lemma list_all_map_of: "list_all (\<lambda>(_, t). P t) xs \<Longrightarrow> map_of xs k = Some v \<Longrightarrow> P v"
  by (auto simp: list_all_iff dest!: map_of_SomeD)

lemma table_inv_new [simp]: "table_inv TensorTable_new" "table_rect TensorTable_new"
  by (simp_all add: table_inv_def table_rect_def TensorTable_new_def)

lemma store_inv_new [simp]: "store_inv TensorStore_new"
  by (simp add: store_inv_def TensorStore_new_def)

lemma Table_add_inv:
  assumes "table_inv table" "tensor_ok t" "Table_add name t table = Ok table'"
  shows "table_inv table'"
proof -
  have eq: "table' = table
      \<lparr>tt_order := (if map_of (tt_tensors table) name = None then tt_order table @ [name] else tt_order table),
       tt_tensors := AList.update name t (tt_tensors table), tt_num_rows := t_size t\<rparr>"
    using assms(3) by (auto simp: Table_add_def Let_def split: if_splits)
  show ?thesis
    using assms(1,2) unfolding table_inv_def eq
    by (cases "name \<in> set (keys (tt_tensors table))")
      (simp_all add: list_all_update keys_update_set map_of_eq_None_iff insert_absorb dom_update)
qed

lemma Table_get_ok: "table_inv table \<Longrightarrow> Table_get name table = Ok t \<Longrightarrow> tensor_ok t"
  by (auto simp: Table_get_def table_inv_def dest: list_all_map_of split: option.splits)

lemma Table_remove_inv: "table_inv table \<Longrightarrow> table_inv (Table_remove name table)"
  unfolding table_inv_def Table_remove_def Let_def
  by (auto simp: list_all_delete keys_delete_set simp flip: set_map)

lemma Table_remove_rect: "table_rect table \<Longrightarrow> table_rect (Table_remove name table)"
  unfolding table_rect_def Table_remove_def Let_def by (auto simp: list_all_delete)

text \<open>A table that has rows stays rectangular; adding to a table of empty columns does not.\<close>

lemma Table_add_rect:
  assumes "table_rect table" "tt_num_rows table > 0 \<or> tt_tensors table = []" "Table_add name t table = Ok table'"
  shows "table_rect table'" "tt_num_rows table' = t_size t"
  using assms unfolding table_rect_def Table_add_def Let_def
  by (auto simp: list_all_update split: if_splits)

lemma Table_add_empty_column_ragged:
  "\<exists>t1 t2 table1 table2. Table_add ''a'' t1 TensorTable_new = Ok table1 \<and>
    Table_add ''b'' t2 table1 = Ok table2 \<and> \<not> table_rect table2"
  by (rule exI [of _ "zeros 0 kInt64"], rule exI [of _ "zeros 3 kInt64"])
    (simp add: Table_add_def TensorTable_new_def zeros_def Tensor_new_eq table_rect_def)

lemma Store_set_inv: "store_inv s \<Longrightarrow> tensor_ok t \<Longrightarrow> store_inv (Store_set name t s)"
  unfolding store_inv_def Store_set_def
  by (auto simp: list_all_update keys_update_set map_of_None_iff simp flip: set_map)

lemma Store_find_set: "Store_find n (Store_set name t s) = (if n = name then Some t else Store_find n s)"
  by (auto simp: Store_find_def Store_set_def)

lemma Store_find_ok: "store_inv s \<Longrightarrow> Store_find name s = Some t \<Longrightarrow> tensor_ok t"
  by (auto simp: Store_find_def store_inv_def dest: list_all_map_of)

lemma Store_erase_inv: "store_inv s \<Longrightarrow> store_inv (Store_erase name s)"
  unfolding store_inv_def Store_erase_def
  by (auto simp: list_all_delete keys_delete_set simp flip: set_map)

lemma Store_find_erase: "Store_find n (Store_erase name s) = (if n = name then None else Store_find n s)"
  by (auto simp: Store_find_def Store_erase_def)

section \<open>The symbol-table interface\<close>

locale symbol_table =
  fixes put :: "'n \<Rightarrow> 't \<Rightarrow> 's \<Rightarrow> 's"
    and look :: "'n \<Rightarrow> 's \<Rightarrow> 't option"
    and inv :: "'s \<Rightarrow> bool"
    and ok :: "'t \<Rightarrow> bool"
  assumes look_put: "look n (put m t s) = (if n = m then Some t else look n s)"
    and put_inv: "inv s \<Longrightarrow> ok t \<Longrightarrow> inv (put m t s)"
    and look_ok: "inv s \<Longrightarrow> look n s = Some t \<Longrightarrow> ok t"
begin

text \<open>Writes to different names commute, as far as any reader can tell.\<close>

lemma put_commute: "n \<noteq> m \<Longrightarrow> look k (put n t (put m u s)) = look k (put m u (put n t s))"
  by (simp add: look_put)

lemma look_puts:
  "look n (fold (\<lambda>(k, t). put k t) kts s) =
    (case map_of (rev kts) n of None \<Rightarrow> look n s | Some t \<Rightarrow> Some t)"
proof (induction kts arbitrary: s)
  case (Cons p kts)
  obtain k t where p: "p = (k, t)" by force
  show ?case
    using Cons.IH [of "put k t s"] p by (auto simp: look_put map_add_def split: option.splits)
qed simp

lemma puts_inv: "inv s \<Longrightarrow> list_all (\<lambda>(_, t). ok t) kts \<Longrightarrow> inv (fold (\<lambda>(k, t). put k t) kts s)"
  by (induction kts arbitrary: s) (auto simp: put_inv)

end

interpretation tstore: symbol_table Store_set Store_find store_inv tensor_ok
proof unfold_locales
  fix n m t s
  show "Store_find n (Store_set m t s) = (if n = m then Some t else Store_find n s)"
    by (rule Store_find_set)
  show "store_inv s \<Longrightarrow> tensor_ok t \<Longrightarrow> store_inv (Store_set m t s)"
    by (rule Store_set_inv)
  show "store_inv s \<Longrightarrow> Store_find n s = Some t \<Longrightarrow> tensor_ok t"
    by (rule Store_find_ok)
qed

section \<open>Bulk operations\<close>

text \<open>Registering a name is writing an empty tensor unless the name is there.\<close>

lemma EnsureNames_step:
  "EnsureNames (name # names) s =
    EnsureNames names (if Store_find name s = None then Store_set name Tensor_default s else s)"
  by (simp add: EnsureNames_def Store_set_def Store_find_def)

lemma EnsureNames_inv: "store_inv s \<Longrightarrow> store_inv (EnsureNames names s)"
proof (induction names arbitrary: s)
  case (Cons name names)
  then show ?case by (simp add: EnsureNames_step Store_set_inv)
qed (simp add: EnsureNames_def)

lemma Store_find_EnsureNames:
  "Store_find n (EnsureNames names s) =
    (if n \<in> set names \<and> Store_find n s = None then Some Tensor_default else Store_find n s)"
proof (induction names arbitrary: s)
  case (Cons name names)
  show ?case by (auto simp: EnsureNames_step Cons.IH Store_find_set)
qed (simp add: EnsureNames_def)

lemma Store_find_iff_order: "store_inv s \<Longrightarrow> Store_find n s \<noteq> None \<longleftrightarrow> n \<in> set (ts_order s)"
  by (auto simp: store_inv_def Store_find_def map_of_eq_None_iff)

lemma Table_find_iff_order: "table_inv tab \<Longrightarrow> map_of (tt_tensors tab) n \<noteq> None \<longleftrightarrow> n \<in> set (tt_order tab)"
  by (auto simp: table_inv_def map_of_eq_None_iff)

lemma Store_set_order:
  "ts_order (Store_set name t s) = (if Store_find name s = None then ts_order s @ [name] else ts_order s)"
  by (simp add: Store_set_def Store_find_def)

text \<open>Copying a list of named tensors into a store, one \<^verbatim>\<open>set\<close> each.\<close>

lemma copy_loop:
  assumes "\<And>n. n \<in> set names \<Longrightarrow> src n = Some (f n)" "\<And>n. n \<in> set names \<Longrightarrow> tensor_ok (f n)"
    and "store_inv s"
  shows "\<exists>s'. foldR (\<lambda>name s. case src name of None \<Rightarrow> Throw e | Some t \<Rightarrow> Ok (Store_set name (clone t) s))
      names s = Ok s' \<and> store_inv s' \<and>
    (\<forall>n. Store_find n s' = (if n \<in> set names then Some (clone (f n)) else Store_find n s))"
  using assms
proof (induction names arbitrary: s)
  case (Cons name names)
  have "store_inv (Store_set name (clone (f name)) s)"
    using Cons.prems by (simp add: Store_set_inv clone_ok)
  from Cons.IH [OF _ _ this] Cons.prems show ?case
    by (auto simp: Store_find_set)
qed simp

lemma Store_clone_ok:
  assumes "store_inv s"
  shows "\<exists>s'. Store_clone s = Ok s' \<and> store_inv s' \<and>
    (\<forall>n. Store_find n s' = map_option clone (Store_find n s))"
proof -
  define f where "f n = the (Store_find n s)" for n
  have f: "Store_find n s = Some (f n)" "tensor_ok (f n)" if "n \<in> set (ts_order s)" for n
    using that Store_find_iff_order [OF assms, of n] Store_find_ok [OF assms] by (auto simp: f_def)
  have "\<exists>s'. foldR (\<lambda>name r. case Store_find name s of None \<Rightarrow> Throw (OutOfRange ''unordered_map::at'')
      | Some t \<Rightarrow> Ok (Store_set name (clone t) r)) (ts_order s) TensorStore_new = Ok s' \<and> store_inv s' \<and>
    (\<forall>n. Store_find n s' = (if n \<in> set (ts_order s) then Some (clone (f n)) else Store_find n TensorStore_new))"
    by (rule copy_loop) (auto simp: f)
  then obtain s' where s': "Store_clone s = Ok s'" "store_inv s'"
    "\<And>n. Store_find n s' = (if n \<in> set (ts_order s) then Some (clone (f n)) else Store_find n TensorStore_new)"
    unfolding Store_clone_def Store_find_def by blast
  have "Store_find n s' = map_option clone (Store_find n s)" for n
    using f [of n] s'(3) [of n] Store_find_iff_order [OF assms, of n]
    by (auto simp: Store_find_def TensorStore_new_def)
  with s' show ?thesis by blast
qed

lemma add_table_ok:
  assumes "table_inv tab" "store_inv s"
  shows "\<exists>s'. add_table tab s = Ok s' \<and> store_inv s' \<and>
    (\<forall>n. Store_find n s' =
      (case map_of (tt_tensors tab) n of None \<Rightarrow> Store_find n s | Some t \<Rightarrow> Some (clone t)))"
proof -
  define f where "f n = the (map_of (tt_tensors tab) n)" for n
  have f: "map_of (tt_tensors tab) n = Some (f n)" "tensor_ok (f n)" if "n \<in> set (tt_order tab)" for n
    using that Table_find_iff_order [OF assms(1), of n] Table_get_ok [OF assms(1), of n]
    by (auto simp: f_def Table_get_def)
  have step: "(\<lambda>name s. bindR (Table_get name tab) (\<lambda>t. Ok (Store_set name (clone t) s))) =
    (\<lambda>name s. case map_of (tt_tensors tab) name of None \<Rightarrow> Throw (RuntimeError (''Tensor not found: '' @ name))
       | Some t \<Rightarrow> Ok (Store_set name (clone t) s))"
    by (intro ext) (simp add: Table_get_def split: option.split)
  have eq: "add_table tab s = foldR (\<lambda>name s. case map_of (tt_tensors tab) name of
      None \<Rightarrow> Throw (RuntimeError ''Tensor not found: '')
    | Some t \<Rightarrow> Ok (Store_set name (clone t) s)) (tt_order tab) s"
    unfolding add_table_def step by (intro foldR_cong) (auto simp: f)
  obtain s' where s': "add_table tab s = Ok s'" "store_inv s'"
    "\<And>n. Store_find n s' = (if n \<in> set (tt_order tab) then Some (clone (f n)) else Store_find n s)"
    using copy_loop [of "tt_order tab" "map_of (tt_tensors tab)" f s] f assms(2) eq by force
  have "Store_find n s' = (case map_of (tt_tensors tab) n of None \<Rightarrow> Store_find n s | Some t \<Rightarrow> Some (clone t))" for n
    using f [of n] s'(3) [of n] Table_find_iff_order [OF assms(1), of n] by (auto split: option.split)
  with s' show ?thesis by blast
qed

text \<open>\<^verbatim>\<open>to_table\<close> on distinct names of equal length gives the table of their copies, in that order.\<close>

lemma to_table_ok:
  assumes "store_inv s" "distinct names" "\<And>n. n \<in> set names \<Longrightarrow> \<exists>t. Store_find n s = Some t \<and> t_size t = k"
  shows "\<exists>tab. to_table names s = Ok tab \<and> table_inv tab \<and> tt_order tab = names \<and>
    (\<forall>n \<in> set names. map_of (tt_tensors tab) n = map_option clone (Store_find n s))"
proof -
  have "\<exists>tab. foldR (to_table_step s) names (None, TensorTable_new) =
      Ok (if names = [] then None else Some k, tab) \<and> table_inv tab \<and> tt_order tab = names \<and>
      (tt_tensors tab = [] \<or> tt_num_rows tab = k) \<and>
      (\<forall>n \<in> set names. map_of (tt_tensors tab) n = map_option clone (Store_find n s))"
    using assms(2,3)
  proof (induction names rule: rev_induct)
    case Nil
    show ?case by (simp add: TensorTable_new_def table_inv_def)
  next
    case (snoc name names)
    obtain tab where tab: "foldR (to_table_step s) names (None, TensorTable_new) =
        Ok (if names = [] then None else Some k, tab)" "table_inv tab" "tt_order tab = names"
      "tt_tensors tab = [] \<or> tt_num_rows tab = k"
      "\<And>n. n \<in> set names \<Longrightarrow> map_of (tt_tensors tab) n = map_option clone (Store_find n s)"
      using snoc by auto
    obtain t where t: "Store_find name s = Some t" "t_size t = k" using snoc.prems by auto
    have ok: "tensor_ok t" using Store_find_ok [OF assms(1) t(1)] .
    obtain tab' where tab': "Table_add name (clone t) tab = Ok tab'"
      using tab(4) clone_ok(4) [OF ok] t(2) by (auto simp: Table_add_def Let_def)
    have "map_of (tt_tensors tab) name = None"
      using Table_find_iff_order [OF tab(2), of name] tab(3) snoc.prems by auto
    then have "tt_order tab' = names @ [name]" "tt_num_rows tab' = k"
      "map_of (tt_tensors tab') = (map_of (tt_tensors tab))(name \<mapsto> clone t)"
      using tab' tab(3) clone_ok(4) [OF ok] t(2) by (auto simp: Table_add_def Let_def split: if_splits)
    moreover have "table_inv tab'" using Table_add_inv [OF tab(2) clone_ok(1) [OF ok] tab'] .
    moreover have "to_table_step s name (if names = [] then None else Some k, tab) = Ok (Some k, tab')"
      using t tab' by (simp add: to_table_step_def)
    then have "foldR (to_table_step s) (names @ [name]) (None, TensorTable_new) = Ok (Some k, tab')"
      by (simp add: foldR_append tab(1))
    moreover have "map_of (tt_tensors tab') n = map_option clone (Store_find n s)"
      if "n \<in> set (names @ [name])" for n
      using that calculation(3) tab(5) t(1) by auto
    ultimately show ?case by (intro exI [of _ tab']) simp
  qed
  then show ?thesis by (auto simp: to_table_def)
qed

end
