(* ===== verification/FeedFetch.thy ===== *)
theory FeedFetch
  imports TensorStore
begin

text \<open>
  \<^verbatim>\<open>column/feed_fetch.{h,cpp}\<close>: rows of the business code to columns of the engine and back.  Feeding then
  fetching gives the rows back up to the documented widening: a missing cell becomes zero and the
  integers of a column that holds a double become doubles.
\<close>

section \<open>Model\<close>

datatype Cell = Monostate | CellInt "64 word" | CellDouble flt

type_synonym Row = "Cell list"

fun holds_double :: "Cell \<Rightarrow> bool" where
  "holds_double (CellDouble _) = True"
| "holds_double _ = False"

fun feed_cell :: "DType \<Rightarrow> Cell \<Rightarrow> cell" where
  "feed_cell dtype Monostate = (if dtype = kInt64 then CI64 0 else CF64 (Fin 0))"
| "feed_cell dtype (CellInt v) = (if dtype = kInt64 then CI64 v else CF64 (int_to_flt v))"
| "feed_cell dtype (CellDouble v) = (if dtype = kInt64 then CI64 (flt_to_int v) else CF64 v)"

definition feed_column :: "nat \<Rightarrow> Row list \<Rightarrow> Tensor res" where
  "feed_column c rows =
    (if list_ex (\<lambda>row. c \<ge> length row) rows
     then Throw (RuntimeError ''feed_table: row has fewer cells than columns'')
     else let any_double = list_ex (\<lambda>row. holds_double (row ! c)) rows;
              dtype = (if any_double then kFloat64 else kInt64)
       in foldR (\<lambda>r col. tset r (feed_cell dtype (rows ! r ! c)) col) [0..<length rows]
            (tresize (length rows) (Tensor_new dtype (length rows))))"

definition feed_table :: "string list \<Rightarrow> Row list \<Rightarrow> TensorTable res" where
  "feed_table names rows =
    foldR (\<lambda>c table. bindR (feed_column c rows) (\<lambda>col. Table_add (names ! c) col table))
      [0..<length names] TensorTable_new"

definition table_from_columns :: "(string \<times> Tensor) list \<Rightarrow> TensorTable res" where
  "table_from_columns columns = foldR (\<lambda>(name, tensor) table. Table_add name tensor table) columns TensorTable_new"

fun fetched_cell :: "cell \<Rightarrow> Cell" where
  "fetched_cell (CI32 w) = CellInt (int_cast w)"
| "fetched_cell (CI64 w) = CellInt w"
| "fetched_cell (CF32 x) = CellDouble x"
| "fetched_cell (CF64 x) = CellDouble x"
| "fetched_cell (CQ8 _) = Monostate"

definition fetch_cell :: "Tensor \<Rightarrow> nat \<Rightarrow> Cell res" where
  "fetch_cell col r =
    (let T = (if is_int (t_dtype col) then (if t_dtype col = kInt32 then kInt32 else kInt64)
              else if t_dtype col = kFloat32 then kFloat32 else kFloat64)
     in bindR (tget T r col) (\<lambda>v. Ok (fetched_cell v)))"

definition fetch_check :: "TensorTable \<Rightarrow> nat \<Rightarrow> string \<Rightarrow> unit res" where
  "fetch_check table rows name =
    (if \<not> Table_has name table then Throw (RuntimeError (''fetch_rows: unknown column '' @ quoted name))
     else bindR (Table_get name table) (\<lambda>t.
       if t_size t \<noteq> rows
       then Throw (RuntimeError (''fetch_rows: column '' @ quoted name @ '' length mismatch''))
       else Ok ()))"

definition fetch_rows :: "TensorTable \<Rightarrow> string list \<Rightarrow> Row list res" where
  "fetch_rows table names =
    (if names = [] then Ok []
     else bindR (Table_get (names ! 0) table) (\<lambda>t0. let rows = t_size t0 in
       bindR (foldR (\<lambda>name _. fetch_check table rows name) names ()) (\<lambda>_.
       foldR (\<lambda>c result. bindR (Table_get (names ! c) table) (\<lambda>col.
           foldR (\<lambda>r result. bindR (fetch_cell col r) (\<lambda>v. Ok (result[r := (result ! r)[c := v]])))
             [0..<rows] result))
         [0..<length names] (replicate rows (replicate (length names) Monostate)))))"

definition fetch_all_rows :: "TensorTable \<Rightarrow> Row list res" where
  "fetch_all_rows table = fetch_rows table (tt_order table)"

text \<open>A quantised tensor is dequantised first; the result is a float64 tensor of the same size.\<close>

definition fetch_plain_scalar :: "Tensor \<Rightarrow> flt res" where
  "fetch_plain_scalar t =
    (if t_size t = 0 then Ok (Fin 0) else bindR (tget (t_dtype t) 0 t) (\<lambda>v. Ok (cell_flt v)))"

definition fetch_scalar :: "Tensor \<Rightarrow> flt res" where
  "fetch_scalar t =
    (if t_size t = 0 then Ok (Fin 0)
     else if t_dtype t = kQ8_0 then bindR (dequantize t) fetch_plain_scalar
     else fetch_plain_scalar t)"

section \<open>Feeding a column\<close>

lemma set_loop:
  assumes "k \<le> length vs" "dtype \<noteq> kQ8_0" "\<And>v. v \<in> set vs \<Longrightarrow> cell_type v = dtype" "length zs = length vs"
  shows "foldR (\<lambda>r col. tset r (vs ! r) col) [0..<k]
      \<lparr>t_dtype = dtype, t_data = zs, t_size = length vs, t_capacity = length vs\<rparr> =
    Ok \<lparr>t_dtype = dtype, t_data = take k vs @ drop k zs, t_size = length vs, t_capacity = length vs\<rparr>"
  using assms(1)
proof (induction k)
  case (Suc k)
  have "(take k vs @ drop k zs)[k := vs ! k] = take (Suc k) vs @ drop (Suc k) zs"
    using Suc.prems assms(4)
    by (simp add: list_update_append take_Suc_conv_app_nth Cons_nth_drop_Suc [symmetric])
  with Suc assms(2-4) show ?case by (simp add: foldR_append tset_def)
qed simp

definition fed_dtype :: "nat \<Rightarrow> Row list \<Rightarrow> DType" where
  "fed_dtype c rows = (if list_ex (\<lambda>row. holds_double (row ! c)) rows then kFloat64 else kInt64)"

definition fed_column :: "nat \<Rightarrow> Row list \<Rightarrow> Tensor" where
  "fed_column c rows =
    \<lparr>t_dtype = fed_dtype c rows, t_data = map (\<lambda>row. feed_cell (fed_dtype c rows) (row ! c)) rows,
     t_size = length rows, t_capacity = length rows\<rparr>"

lemma feed_cell_type: "dtype \<in> {kInt64, kFloat64} \<Longrightarrow> cell_type (feed_cell dtype x) = dtype"
  by (cases x) auto

lemma fed_dtype_not_q8 [simp]: "fed_dtype c rows \<noteq> kQ8_0"
  by (simp add: fed_dtype_def)

lemma fed_cell_type [simp]: "cell_type (feed_cell (fed_dtype c rows) x) = fed_dtype c rows"
  by (simp add: fed_dtype_def feed_cell_type)

lemma feed_column_ok:
  assumes "\<And>row. row \<in> set rows \<Longrightarrow> c < length row"
  shows "feed_column c rows = Ok (fed_column c rows)"
proof -
  let ?d = "fed_dtype c rows" and ?vs = "map (\<lambda>row. feed_cell (fed_dtype c rows) (row ! c)) rows"
  have new: "tresize (length rows) (Tensor_new ?d (length rows)) = \<lparr>t_dtype = ?d,
      t_data = replicate (length rows) (zero_cell ?d), t_size = length ?vs, t_capacity = length ?vs\<rparr>"
    by (simp add: Tensor_new_eq tresize_def ensure_capacity_def)
  have "feed_column c rows = foldR (\<lambda>r col. tset r (feed_cell ?d (rows ! r ! c)) col) [0..<length rows]
      (tresize (length rows) (Tensor_new ?d (length rows)))"
  proof -
    have "\<not> list_ex (\<lambda>row. c \<ge> length row) rows" using assms by (auto simp: list_ex_iff not_le)
    then show ?thesis by (simp only: feed_column_def if_False Let_def fed_dtype_def)
  qed
  also have "\<dots> = foldR (\<lambda>r col. tset r (?vs ! r) col) [0..<length ?vs]
      (tresize (length rows) (Tensor_new ?d (length rows)))"
    unfolding length_map by (rule foldR_cong) simp
  also have "\<dots> = Ok (fed_column c rows)"
    unfolding new by (subst set_loop) (auto simp: fed_column_def)
  finally show ?thesis .
qed

lemma fed_column_tensor_ok [simp]: "tensor_ok (fed_column c rows)"
  by (auto simp: fed_column_def list_all_iff cell_ok_scalar)

lemma feed_column_short:
  assumes "row \<in> set rows" "length row \<le> c"
  shows "feed_column c rows = Throw (RuntimeError ''feed_table: row has fewer cells than columns'')"
  using assms by (auto simp: feed_column_def list_ex_iff)

lemma feed_table_prefix:
  assumes "distinct names" "k \<le> length names" "\<And>row. row \<in> set rows \<Longrightarrow> k \<le> length row"
  shows "\<exists>tab. foldR (\<lambda>c table. bindR (feed_column c rows) (\<lambda>col. Table_add (names ! c) col table))
      [0..<k] TensorTable_new = Ok tab \<and> table_inv tab \<and> tt_order tab = take k names \<and>
    (tt_tensors tab = [] \<or> tt_num_rows tab = length rows) \<and>
    (\<forall>c < k. map_of (tt_tensors tab) (names ! c) = Some (fed_column c rows))"
  using assms(2,3)
proof (induction k)
  case 0
  show ?case by (simp add: TensorTable_new_def table_inv_def)
next
  case (Suc k)
  have "\<And>row. row \<in> set rows \<Longrightarrow> k \<le> length row" using Suc.prems(2) by (simp add: Suc_leD)
  with Suc obtain tab where tab: "foldR (\<lambda>c table. bindR (feed_column c rows) (\<lambda>col. Table_add (names ! c) col table))
      [0..<k] TensorTable_new = Ok tab" "table_inv tab" "tt_order tab = take k names"
    "tt_tensors tab = [] \<or> tt_num_rows tab = length rows"
    "\<And>c. c < k \<Longrightarrow> map_of (tt_tensors tab) (names ! c) = Some (fed_column c rows)"
    by auto
  have col: "feed_column k rows = Ok (fed_column k rows)"
    using Suc.prems(2) by (intro feed_column_ok) (simp add: Suc_le_lessD)
  have size: "t_size (fed_column k rows) = length rows" by (simp add: fed_column_def)
  then obtain tab' where tab': "Table_add (names ! k) (fed_column k rows) tab = Ok tab'"
    using tab(4) by (auto simp: Table_add_def Let_def)
  have "names ! k \<notin> set (take k names)"
    using assms(1) Suc.prems by (auto simp: in_set_conv_nth nth_eq_iff_index_eq)
  then have "map_of (tt_tensors tab) (names ! k) = None"
    using Table_find_iff_order [OF tab(2), of "names ! k"] tab(3) by auto
  then have "tt_order tab' = take k names @ [names ! k]" "tt_num_rows tab' = length rows"
    and map: "map_of (tt_tensors tab') = (map_of (tt_tensors tab))(names ! k \<mapsto> fed_column k rows)"
    using tab' tab(3) size by (auto simp: Table_add_def Let_def split: if_splits)
  moreover have "table_inv tab'" using Table_add_inv [OF tab(2) _ tab'] by simp
  moreover have "map_of (tt_tensors tab') (names ! c) = Some (fed_column c rows)" if "c < Suc k" for c
    using that map tab(5) [of c] assms(1) Suc.prems by (auto simp: less_Suc_eq nth_eq_iff_index_eq)
  ultimately show ?case
    using tab(1) col tab' Suc.prems by (intro exI [of _ tab']) (simp add: foldR_append take_Suc_conv_app_nth)
qed

lemma feed_table_ok:
  assumes "distinct names" "\<And>row. row \<in> set rows \<Longrightarrow> length names \<le> length row"
  shows "\<exists>tab. feed_table names rows = Ok tab \<and> table_inv tab \<and> tt_order tab = names \<and>
    (\<forall>c < length names. map_of (tt_tensors tab) (names ! c) = Some (fed_column c rows))"
  using feed_table_prefix [OF assms(1) order.refl assms(2)] unfolding feed_table_def by auto

text \<open>A row that is too short is reported, and no table is built.\<close>

lemma feed_table_short:
  assumes "distinct names" "row \<in> set rows" "length row < length names"
  shows "feed_table names rows = Throw (RuntimeError ''feed_table: row has fewer cells than columns'')"
proof -
  define k where "k = Min (length ` set rows)"
  have le: "k \<le> length r" if "r \<in> set rows" for r
    using that by (simp add: k_def)
  then have k: "\<And>r. r \<in> set rows \<Longrightarrow> k \<le> length r" "k < length names"
    using assms(2,3) by fastforce+
  have "length ` set rows \<noteq> {}" using assms(2) by auto
  then have "k \<in> length ` set rows" unfolding k_def by (intro Min_in) auto
  then obtain r where "r \<in> set rows" "length r \<le> k" by auto
  note short = feed_column_short [OF this]
  have "[0..<length names] = [0..<k] @ k # [Suc k..<length names]"
    using k(2) by (metis less_imp_add_positive upt_add_eq_append upt_conv_Cons zero_le_numeral zero_le)
  moreover obtain tab where "foldR (\<lambda>c table. bindR (feed_column c rows) (\<lambda>col. Table_add (names ! c) col table))
      [0..<k] TensorTable_new = Ok tab"
    using feed_table_prefix [OF assms(1) less_imp_le [OF k(2)] k(1)] by blast
  ultimately show ?thesis using short by (simp add: feed_table_def foldR_append)
qed

section \<open>Fetching\<close>

lemma fetch_fed_cell:
  assumes "r < length rows"
  shows "fetch_cell (fed_column c rows) r = Ok (fetched_cell (feed_cell (fed_dtype c rows) (rows ! r ! c)))"
  using assms by (auto simp: fetch_cell_def fed_column_def tget_def is_int_def fed_dtype_def)

text \<open>Filling column \<^verbatim>\<open>c\<close> of a rectangle of cells, then all columns.\<close>

lemma fill_column:
  assumes "\<And>r. r < length result \<Longrightarrow> fetch_cell col r = Ok (f r)" "k \<le> length result"
  shows "foldR (\<lambda>r result. bindR (fetch_cell col r) (\<lambda>v. Ok (result[r := (result ! r)[c := v]]))) [0..<k] result =
    Ok (map (\<lambda>r. if r < k then (result ! r)[c := f r] else result ! r) [0..<length result])"
  using assms(2)
proof (induction k)
  case 0
  show ?case by (simp add: map_nth)
next
  case (Suc k)
  let ?m = "map (\<lambda>r. if r < k then (result ! r)[c := f r] else result ! r) [0..<length result]"
  have "?m[k := (?m ! k)[c := f k]] =
      map (\<lambda>r. if r < Suc k then (result ! r)[c := f r] else result ! r) [0..<length result]"
    using Suc.prems by (intro nth_equalityI) (auto simp: nth_list_update less_Suc_eq)
  with Suc assms(1) [of k] show ?case by (simp add: foldR_append)
qed

lemma fill_columns:
  assumes cols: "\<And>c. c < length names \<Longrightarrow> Table_get (names ! c) tab = Ok (col c)"
    and cells: "\<And>c r. c < length names \<Longrightarrow> r < n \<Longrightarrow> fetch_cell (col c) r = Ok (f c r)"
    and "k \<le> length names"
  shows "foldR (\<lambda>c result. bindR (Table_get (names ! c) tab) (\<lambda>col.
      foldR (\<lambda>r result. bindR (fetch_cell col r) (\<lambda>v. Ok (result[r := (result ! r)[c := v]]))) [0..<n] result))
      [0..<k] (replicate n (replicate (length names) Monostate)) =
    Ok (map (\<lambda>r. map (\<lambda>c. if c < k then f c r else Monostate) [0..<length names]) [0..<n])"
  using assms(3)
proof (induction k)
  case 0
  show ?case by (simp add: map_replicate_const)
next
  case (Suc k)
  let ?R = "\<lambda>k. map (\<lambda>r. map (\<lambda>c. if c < k then f c r else Monostate) [0..<length names]) [0..<n]"
  have "foldR (\<lambda>r result. bindR (fetch_cell (col k) r) (\<lambda>v. Ok (result[r := (result ! r)[k := v]]))) [0..<n] (?R k) =
      Ok (map (\<lambda>r. if r < n then (?R k ! r)[k := f k r] else ?R k ! r) [0..<length (?R k)])"
    using Suc.prems cells by (intro fill_column) auto
  also have "map (\<lambda>r. if r < n then (?R k ! r)[k := f k r] else ?R k ! r) [0..<length (?R k)] = ?R (Suc k)"
    using Suc.prems by (auto intro!: nth_equalityI simp: nth_list_update less_Suc_eq)
  finally show ?case using Suc cols [of k] by (simp add: foldR_append)
qed

lemma fetch_rows_ok:
  assumes "names \<noteq> []" "\<And>c. c < length names \<Longrightarrow> Table_get (names ! c) tab = Ok (col c)"
    and "\<And>c. c < length names \<Longrightarrow> t_size (col c) = n"
    and "\<And>c r. c < length names \<Longrightarrow> r < n \<Longrightarrow> fetch_cell (col c) r = Ok (f c r)"
  shows "fetch_rows tab names = Ok (map (\<lambda>r. map (\<lambda>c. f c r) [0..<length names]) [0..<n])"
proof -
  have check: "fetch_check tab n name = Ok ()" if mem: "name \<in> set names" for name
  proof -
    obtain c where c: "c < length names" "name = names ! c" using mem by (auto simp: in_set_conv_nth)
    then show ?thesis
      using assms(2,3) [of c]
      by (auto simp: fetch_check_def Table_has_def Table_get_def split: option.splits)
  qed
  have "foldR (\<lambda>name _. fetch_check tab n name) names () = Ok ()"
    using check by (induction names) auto
  then show ?thesis
    using assms fill_columns [of names tab col n f "length names"]
    by (simp add: fetch_rows_def Let_def cong: map_cong)
qed

section \<open>Round trip\<close>

definition widened :: "Row list \<Rightarrow> nat \<Rightarrow> Cell \<Rightarrow> Cell" where
  "widened rows c x =
    (let dbl = list_ex (\<lambda>row. holds_double (row ! c)) rows in
     case x of
       Monostate \<Rightarrow> (if dbl then CellDouble (Fin 0) else CellInt 0)
     | CellInt v \<Rightarrow> (if dbl then CellDouble (int_to_flt v) else CellInt v)
     | CellDouble v \<Rightarrow> CellDouble v)"

lemma widened_fetched:
  assumes "row \<in> set rows"
  shows "fetched_cell (feed_cell (fed_dtype c rows) (row ! c)) = widened rows c (row ! c)"
proof (cases "row ! c")
  case (CellDouble v)
  then have "list_ex (\<lambda>row. holds_double (row ! c)) rows" using assms by (force simp: list_ex_iff)
  with CellDouble show ?thesis by (simp add: widened_def fed_dtype_def)
qed (simp_all add: widened_def fed_dtype_def)

text \<open>C21. Feeding rows under distinct column names and fetching the same columns returns every row,
  cut to the named columns, with missing cells as zero and the integers of a column that holds any
  double as doubles; a row with fewer cells than columns makes the feed throw.\<close>

theorem feed_fetch_roundtrip:
  assumes "distinct names" "names \<noteq> []"
  shows "if list_all (\<lambda>row. length names \<le> length row) rows
    then \<exists>tab. feed_table names rows = Ok tab \<and> tt_order tab = names \<and>
      fetch_rows tab names =
        Ok (map (\<lambda>row. map (\<lambda>c. widened rows c (row ! c)) [0..<length names]) rows)
    else feed_table names rows = Throw (RuntimeError ''feed_table: row has fewer cells than columns'')"
proof (cases "list_all (\<lambda>row. length names \<le> length row) rows")
  case True
  then have "\<And>row. row \<in> set rows \<Longrightarrow> length names \<le> length row" by (simp add: list_all_iff)
  then obtain tab where tab: "feed_table names rows = Ok tab" "table_inv tab" "tt_order tab = names"
    "\<And>c. c < length names \<Longrightarrow> map_of (tt_tensors tab) (names ! c) = Some (fed_column c rows)"
    using feed_table_ok [OF assms(1)] by blast
  have "fetch_rows tab names = Ok (map (\<lambda>r. map (\<lambda>c. widened rows c (rows ! r ! c)) [0..<length names]) [0..<length rows])"
  proof (rule fetch_rows_ok [OF assms(2)])
    show "Table_get (names ! c) tab = Ok (fed_column c rows)" if "c < length names" for c
      using tab(4) [OF that] by (simp add: Table_get_def)
    show "t_size (fed_column c rows) = length rows" for c by (simp add: fed_column_def)
    show "fetch_cell (fed_column c rows) r = Ok (widened rows c (rows ! r ! c))" if "r < length rows" for c r
      using fetch_fed_cell [OF that] widened_fetched [OF nth_mem [OF that]] by simp
  qed
  also have "map (\<lambda>r. map (\<lambda>c. widened rows c (rows ! r ! c)) [0..<length names]) [0..<length rows] =
      map (\<lambda>row. map (\<lambda>c. widened rows c (row ! c)) [0..<length names]) rows"
    by (rule nth_equalityI) simp_all
  finally show ?thesis using True tab by simp
next
  case False
  then show ?thesis using feed_table_short [OF assms(1)] by (auto simp: list_all_iff not_le)
qed

theorem feed_fetch_roundtrip_witness:
  "\<exists>tab. feed_table [''a'', ''b''] [[CellInt 1, CellInt 2], [CellInt 3, CellDouble (Fin 4)]] = Ok tab \<and>
    fetch_rows tab [''a'', ''b''] =
      Ok [[CellInt 1, CellDouble (Fin 2)], [CellInt 3, CellDouble (Fin 4)]]"
  using feed_fetch_roundtrip [of "[''a'', ''b'']" "[[CellInt 1, CellInt 2], [CellInt 3, CellDouble (Fin 4)]]"]
  by (simp add: widened_def int_to_flt_def) blast

text \<open>A quantised column cannot be fetched: its blocks are read as doubles.\<close>

lemma fetch_rows_quantized:
  assumes "Table_get name tab = Ok t" "t_dtype t = kQ8_0" "0 < t_size t"
  shows "\<exists>m. fetch_rows tab [name] = Throw (Undefined m)"
proof -
  have "Table_has name tab" using assms(1) by (auto simp: Table_get_def Table_has_def split: option.splits)
  moreover have "[0..<t_size t] = 0 # [1..<t_size t]" using assms(3) by (simp add: upt_conv_Cons)
  ultimately show ?thesis
    using assms by (simp add: fetch_rows_def fetch_check_def fetch_cell_def tget_def is_int_def Let_def)
qed

end
