(* ===== verification/Quantize.thy ===== *)
theory Quantize
  imports Tensor
begin

text \<open>
  What \<^verbatim>\<open>quantize_q8_0\<close>, \<^verbatim>\<open>dequantize\<close> and \<^verbatim>\<open>dot_q8_0\<close> of \<^verbatim>\<open>column/tensor.cpp\<close> guarantee: the stored bytes
  stay within \<^verbatim>\<open>-127..127\<close>, an element comes back moved towards zero by less than one step of its block's
  scale, and the blockwise integer dot product equals the dot product of the dequantised vectors without
  overflowing its 32-bit accumulator.
\<close>

section \<open>Blocks and indices\<close>

abbreviation q8_blocks :: "nat \<Rightarrow> nat" where
  "q8_blocks n \<equiv> (n + kQ8BlockSize - 1) div kQ8BlockSize"

lemma block_index:
  assumes "i < n"
  shows "i div kQ8BlockSize < q8_blocks n" "i mod kQ8BlockSize < block_count n (i div kQ8BlockSize)"
proof -
  have "i div 32 * 32 + i mod 32 = i" by simp
  then have "i mod 32 < n - i div 32 * 32" using assms by linarith
  then show "i mod kQ8BlockSize < block_count n (i div kQ8BlockSize)"
    by (simp add: block_count_def kQ8BlockSize_def)
  show "i div kQ8BlockSize < q8_blocks n"
    using assms by (simp add: kQ8BlockSize_def)
qed

text \<open>The blocks laid end to end are indexed by quotient and remainder.\<close>

lemma concat_blocks:
  assumes "\<And>b. b < k \<Longrightarrow> length (f b) = block_count n b"
  shows "length (concat (map f [0..<k])) = min n (k * kQ8BlockSize) \<and>
    (\<forall>i < min n (k * kQ8BlockSize).
      concat (map f [0..<k]) ! i = f (i div kQ8BlockSize) ! (i mod kQ8BlockSize))"
  using assms
proof (induction k)
  case (Suc k)
  let ?c = "concat (map f [0..<k])"
  have IH: "length ?c = min n (k * kQ8BlockSize)"
    "\<And>i. i < min n (k * kQ8BlockSize) \<Longrightarrow> ?c ! i = f (i div kQ8BlockSize) ! (i mod kQ8BlockSize)"
    using Suc by auto
  have fk: "length (f k) = block_count n k" using Suc.prems by simp
  have len: "length (concat (map f [0..<Suc k])) = min n (Suc k * kQ8BlockSize)"
    using IH(1) fk by (auto simp: block_count_def)
  moreover have "concat (map f [0..<Suc k]) ! i = f (i div kQ8BlockSize) ! (i mod kQ8BlockSize)"
    if i: "i < min n (Suc k * kQ8BlockSize)" for i
  proof (cases "i < k * kQ8BlockSize")
    case True
    then show ?thesis using IH i by (simp add: nth_append)
  next
    case False
    then have "length ?c = k * kQ8BlockSize" using IH(1) i by simp
    moreover have quot: "i div kQ8BlockSize = k"
      using False i by (auto simp: kQ8BlockSize_def)
    moreover have "i mod kQ8BlockSize = i - k * kQ8BlockSize"
      using minus_div_mult_eq_mod [of i kQ8BlockSize] quot by simp
    ultimately show ?thesis using False by (simp add: nth_append)
  qed
  ultimately show ?case by blast
qed simp

lemma q8_blocks_cover: "min n (q8_blocks n * kQ8BlockSize) = n"
  by (simp add: kQ8BlockSize_def)

section \<open>One block\<close>

lemma amax_fold:
  "fold (\<lambda>x amax. fmax amax (fabs x)) (map Fin rs) (Fin a) = Fin (fold (\<lambda>r m. max m \<bar>r\<bar>) rs a)"
  by (induction rs arbitrary: a) simp_all

lemma amax_bounds:
  "(a::real) \<le> fold (\<lambda>r m. max m \<bar>r\<bar>) rs a \<and> (\<forall>r \<in> set rs. \<bar>r\<bar> \<le> fold (\<lambda>r m. max m \<bar>r\<bar>) rs a)"
proof (induction rs arbitrary: a)
  case (Cons r rs)
  from Cons.IH [of "max a \<bar>r\<bar>"] show ?case by auto
qed simp

lemma amax_least:
  "(a::real) \<le> m \<Longrightarrow> \<forall>r \<in> set rs. \<bar>r\<bar> \<le> m \<Longrightarrow> fold (\<lambda>r m. max m \<bar>r\<bar>) rs a \<le> m"
  by (induction rs arbitrary: a) auto

definition block_amax :: "real list \<Rightarrow> real" where
  "block_amax rs = fold (\<lambda>r m. max m \<bar>r\<bar>) rs 0"

lemma block_amax_nonneg: "0 \<le> block_amax rs"
  and block_amax_ge: "r \<in> set rs \<Longrightarrow> \<bar>r\<bar> \<le> block_amax rs"
  using amax_bounds [of 0 rs] by (auto simp: block_amax_def)

lemma block_amax_le: "0 \<le> m \<Longrightarrow> (\<And>r. r \<in> set rs \<Longrightarrow> \<bar>r\<bar> \<le> m) \<Longrightarrow> block_amax rs \<le> m"
  unfolding block_amax_def by (rule amax_least) auto

lemma q8_scale_Fin: "q8_scale (map Fin rs) = Fin (block_amax rs / 127)"
  by (simp add: q8_scale_def amax_fold block_amax_def)

text \<open>Whatever the input, also for infinities and NaN, the clamp keeps the byte in range.\<close>

lemma q8_value_range: "\<bar>sint (q8_value d x)\<bar> \<le> 127"
proof -
  define q where "q = fmax (Fin (-127)) (fmin (Fin 127) (if flt_eq d (Fin 0) then Fin 0 else fdiv x d))"
  have "\<exists>r. q = Fin r \<and> \<bar>r\<bar> \<le> 127"
    unfolding q_def
    by (cases "if flt_eq d (Fin 0) then Fin 0 else fdiv x d") (simp_all add: fmax_def fmin_def abs_le_iff)
  then obtain r where r: "q = Fin r" "\<bar>r\<bar> \<le> 127" by blast
  have "\<bar>trunc r\<bar> \<le> 127" using trunc_bound [of r 127] r(2) by simp
  moreover from this have "int_fits LENGTH(8) (trunc r)" by (simp add: int_fits_def abs_le_iff)
  ultimately show ?thesis
    using flt_to_int_Fin [where 'w = 8, of r] r(1) by (simp add: q8_value_def Let_def q_def [symmetric])
qed

lemma quantize_block_ok: "length xs \<le> kQ8BlockSize \<Longrightarrow> block_ok (quantize_block xs)"
  by (auto simp: block_ok_def quantize_block_def Let_def list_all_iff q8_value_range)

lemma q8_value_Fin:
  assumes "0 < m" "\<bar>r\<bar> \<le> m"
  shows "sint (q8_value (Fin (m / 127)) (Fin r)) = trunc (127 * r / m)"
proof -
  have q: "\<bar>127 * r / m\<bar> \<le> 127" using assms by (simp add: abs_mult divide_le_eq)
  then have "\<bar>trunc (127 * r / m)\<bar> \<le> 127" using trunc_bound [of "127 * r / m" 127] by simp
  then have fits: "int_fits LENGTH(8) (trunc (127 * r / m))" by (simp add: int_fits_def abs_le_iff)
  have "fdiv (Fin r) (Fin (m / 127)) = Fin (127 * r / m)" using assms by simp
  moreover have "max (-127) (min 127 (127 * r / m)) = 127 * r / m" using q by linarith
  ultimately have "fmax (Fin (-127)) (fmin (Fin 127) (fdiv (Fin r) (Fin (m / 127)))) = Fin (127 * r / m)"
    by (simp only: fmin_Fin fmax_Fin)
  then have "q8_value (Fin (m / 127)) (Fin r) = flt_to_int (Fin (127 * r / m))"
    using assms by (simp add: q8_value_def Let_def)
  then show ?thesis using flt_to_int_Fin [OF fits] by simp
qed

text \<open>A quantised and restored element.\<close>

definition requantized :: "real list \<Rightarrow> real \<Rightarrow> real" where
  "requantized rs r =
    (let m = block_amax rs in if m = 0 then 0 else of_int (trunc (127 * r / m)) * (m / 127))"

lemma requantized_error:
  assumes "r \<in> set rs"
  shows "127 * \<bar>r - requantized rs r\<bar> \<le> block_amax rs" "\<bar>requantized rs r\<bar> \<le> \<bar>r\<bar>"
proof -
  let ?m = "block_amax rs" and ?k = "real_of_int (trunc (127 * r / block_amax rs))"
  have rm: "\<bar>r\<bar> \<le> ?m" using block_amax_ge [OF assms] .
  show "127 * \<bar>r - requantized rs r\<bar> \<le> ?m"
  proof (cases "?m = 0")
    case True
    then show ?thesis using rm by (simp add: requantized_def)
  next
    case False
    then have m: "0 < ?m" using block_amax_nonneg [of rs] by simp
    have "127 * (r - requantized rs r) = ?m * (127 * r / ?m - ?k)"
      using m by (simp add: requantized_def Let_def field_simps)
    then have "127 * \<bar>r - requantized rs r\<bar> = ?m * \<bar>127 * r / ?m - ?k\<bar>"
      using m by (metis abs_mult abs_numeral abs_of_pos)
    also have "\<dots> \<le> ?m * 1"
      using trunc_error [of "127 * r / ?m"] m by (intro mult_left_mono) auto
    finally show ?thesis by simp
  qed
  show "\<bar>requantized rs r\<bar> \<le> \<bar>r\<bar>"
  proof (cases "?m = 0")
    case False
    then have m: "0 < ?m" using block_amax_nonneg [of rs] by simp
    have "\<bar>?k\<bar> * (?m / 127) \<le> \<bar>127 * r / ?m\<bar> * (?m / 127)"
      using trunc_towards_zero [of "127 * r / ?m"] m by (intro mult_right_mono) simp_all
    then show ?thesis using m by (simp add: requantized_def Let_def abs_mult)
  qed (simp add: requantized_def)
qed

lemma dequantize_quantize_block:
  assumes "cnt = length rs" "cnt \<le> kQ8BlockSize"
  shows "dequantize_block cnt (quantize_block (map Fin rs)) = map (\<lambda>r. CF64 (Fin (requantized rs r))) rs"
proof -
  let ?m = "block_amax rs"
  have "fmul (int_to_flt (q8_value (Fin (?m / 127)) (Fin r))) (if ?m = 0 then Fin 0 else Fin (?m / 127)) =
      Fin (requantized rs r)" if "r \<in> set rs" for r
  proof (cases "?m = 0")
    case True
    then show ?thesis by (simp add: int_to_flt_def requantized_def)
  next
    case False
    then have "0 < ?m" using block_amax_nonneg [of rs] by simp
    then have "sint (q8_value (Fin (?m / 127)) (Fin r)) = trunc (127 * r / ?m)"
      using block_amax_ge [OF that] by (rule q8_value_Fin)
    then show ?thesis using False by (simp only: int_to_flt_def fmul.simps if_False requantized_def Let_def)
  qed
  then show ?thesis
    using assms by (simp add: dequantize_block_def quantize_block_def Let_def q8_scale_Fin comp_def)
qed

section \<open>Whole tensors\<close>

definition tval :: "Tensor \<Rightarrow> nat \<Rightarrow> real" where
  "tval t i = fin (cell_flt (elems t ! i))"

definition all_finite :: "Tensor \<Rightarrow> bool" where
  "all_finite t = list_all (\<lambda>c. is_fin (cell_flt c)) (elems t)"

text \<open>The elements of block \<^verbatim>\<open>b\<close>.\<close>

definition block_vals :: "Tensor \<Rightarrow> nat \<Rightarrow> real list" where
  "block_vals t b = map (tval t) [b * kQ8BlockSize..<b * kQ8BlockSize + block_count (t_size t) b]"

lemma set_block_vals:
  "set (block_vals t b) = tval t ` {j. j < t_size t \<and> j div kQ8BlockSize = b}"
proof -
  have "{b * 32..<b * 32 + min 32 (n - b * 32)} = {j. j < n \<and> j div 32 = b}" for n :: nat
    by auto
  then show ?thesis by (simp add: block_vals_def block_count_def kQ8BlockSize_def)
qed

lemma length_block_vals [simp]: "length (block_vals t b) = block_count (t_size t) b"
  by (simp add: block_vals_def)

lemma nth_block_vals:
  "k < block_count (t_size t) b \<Longrightarrow> block_vals t b ! k = tval t (b * kQ8BlockSize + k)"
  by (simp add: block_vals_def)

lemma block_count_le [simp]: "block_count n b \<le> kQ8BlockSize"
  by (simp add: block_count_def)

lemma float_not_q8: "is_float t \<Longrightarrow> t \<noteq> kQ8_0"
  by (auto simp: is_float_def)

lemma block_slice:
  assumes "tensor_ok t" "is_float (t_dtype t)" "all_finite t"
  shows "take (block_count (t_size t) b) (drop (b * kQ8BlockSize) (map cell_flt (t_data t))) =
    map Fin (block_vals t b)"
proof (rule nth_equalityI)
  have q: "t_dtype t \<noteq> kQ8_0" using assms(2) by (rule float_not_q8)
  have len: "t_size t \<le> length (t_data t)" using tensor_ok_length [OF assms(1)] q by simp
  then show "length (take (block_count (t_size t) b) (drop (b * kQ8BlockSize) (map cell_flt (t_data t)))) =
      length (map Fin (block_vals t b))"
    by (auto simp: block_count_def)
  fix i assume "i < length (take (block_count (t_size t) b) (drop (b * kQ8BlockSize) (map cell_flt (t_data t))))"
  then have i: "i < block_count (t_size t) b" "b * kQ8BlockSize + i < t_size t"
    by (auto simp: block_count_def)
  have "is_fin (cell_flt (elems t ! (b * kQ8BlockSize + i)))"
    using assms(3) i(2) length_elems [OF assms(1)] q by (simp add: all_finite_def list_all_length)
  then show "take (block_count (t_size t) b) (drop (b * kQ8BlockSize) (map cell_flt (t_data t))) ! i =
      map Fin (block_vals t b) ! i"
    using i len q by (simp add: block_vals_def tval_def elems_def)
qed

lemma quantize_eq:
  assumes "is_float (t_dtype t)"
  shows "quantize_q8_0 t = Ok \<lparr>t_dtype = kQ8_0,
    t_data = map (\<lambda>b. CQ8 (quantize_block (take (block_count (t_size t) b)
        (drop (b * kQ8BlockSize) (map cell_flt (t_data t)))))) [0..<q8_blocks (t_size t)],
    t_size = t_size t, t_capacity = t_size t\<rparr>"
  using assms by (simp add: quantize_q8_0_def Let_def put_cells_def Tensor_new_eq slots_def)

text \<open>Quantising any float tensor gives a well-formed quantised tensor of the same length.\<close>

lemma quantize_ok:
  assumes "is_float (t_dtype t)"
  obtains q where "quantize_q8_0 t = Ok q" "tensor_ok q" "t_dtype q = kQ8_0" "t_size q = t_size t"
proof
  show "quantize_q8_0 t = Ok \<lparr>t_dtype = kQ8_0,
    t_data = map (\<lambda>b. CQ8 (quantize_block (take (block_count (t_size t) b)
        (drop (b * kQ8BlockSize) (map cell_flt (t_data t)))))) [0..<q8_blocks (t_size t)],
    t_size = t_size t, t_capacity = t_size t\<rparr>" (is "_ = Ok ?q")
    using assms by (rule quantize_eq)
  show "tensor_ok ?q" by (auto simp: slots_def list_all_iff intro!: quantize_block_ok min.coboundedI2)
qed simp_all

lemma dequantize_eq:
  assumes "tensor_ok q" "t_dtype q = kQ8_0"
  defines "f \<equiv> \<lambda>b. dequantize_block (block_count (t_size q) b) (cell_block (t_data q ! b))"
  shows "dequantize q = Ok \<lparr>t_dtype = kFloat64, t_data = concat (map f [0..<q8_blocks (t_size q)]),
      t_size = t_size q, t_capacity = t_size q\<rparr>"
    and "\<And>b. b < q8_blocks (t_size q) \<Longrightarrow> length (f b) = block_count (t_size q) b"
    and "length (concat (map f [0..<q8_blocks (t_size q)])) = t_size q"
    and "\<And>i. i < t_size q \<Longrightarrow> concat (map f [0..<q8_blocks (t_size q)]) ! i =
      f (i div kQ8BlockSize) ! (i mod kQ8BlockSize)"
proof -
  show len: "length (f b) = block_count (t_size q) b" if "b < q8_blocks (t_size q)" for b
  proof -
    have "b < length (t_data q)"
      using that tensor_ok_length [OF assms(1)] assms(2) by (simp add: slots_def)
    then have "cell_ok kQ8_0 (t_data q ! b)"
      using assms(1,2) by (simp add: tensor_ok_def list_all_length)
    then have "length (blk_qs (cell_block (t_data q ! b))) = kQ8BlockSize"
      by (cases "t_data q ! b") (auto simp: block_ok_def)
    then show ?thesis by (simp add: f_def dequantize_block_def)
  qed
  note c = concat_blocks [where f = f and n = "t_size q" and k = "q8_blocks (t_size q)", OF len,
      unfolded q8_blocks_cover]
  then show "length (concat (map f [0..<q8_blocks (t_size q)])) = t_size q"
    and "\<And>i. i < t_size q \<Longrightarrow> concat (map f [0..<q8_blocks (t_size q)]) ! i =
      f (i div kQ8BlockSize) ! (i mod kQ8BlockSize)"
    by blast+
  from this(1) show "dequantize q = Ok \<lparr>t_dtype = kFloat64,
      t_data = concat (map f [0..<q8_blocks (t_size q)]), t_size = t_size q, t_capacity = t_size q\<rparr>"
    using assms(2) by (simp add: dequantize_def Let_def fill_new f_def)
qed

lemma dequantize_ok:
  assumes "tensor_ok q" "t_dtype q = kQ8_0"
  obtains d where "dequantize q = Ok d" "tensor_ok d" "t_dtype d = kFloat64" "t_size d = t_size q"
proof
  show "dequantize q = Ok \<lparr>t_dtype = kFloat64, t_data = concat (map (\<lambda>b. dequantize_block
      (block_count (t_size q) b) (cell_block (t_data q ! b))) [0..<q8_blocks (t_size q)]),
      t_size = t_size q, t_capacity = t_size q\<rparr>" (is "_ = Ok ?d")
    by (rule dequantize_eq(1) [OF assms])
  show "tensor_ok ?d"
    using dequantize_eq(3) [OF assms] by (auto simp: list_all_iff dequantize_block_def)
qed simp_all



section \<open>The dot product\<close>

lemma sint_mult_bound:
  assumes "\<bar>sint (x :: 8 word)\<bar> \<le> 127" "\<bar>sint (y :: 8 word)\<bar> \<le> 127"
  shows "\<bar>sint x * sint y\<bar> \<le> 16129"
  using mult_mono [OF assms] by (simp add: abs_mult)

text \<open>The 32-bit accumulator of one block never wraps: 32 products of at most 127 * 127 each.\<close>

lemma dot_fold_exact:
  assumes "\<forall>(x, y) \<in> set xys. \<bar>sint (x :: 8 word)\<bar> \<le> 127 \<and> \<bar>sint (y :: 8 word)\<bar> \<le> 127"
    and "\<bar>sint (s :: 32 word)\<bar> + 16129 * int (length xys) \<le> 2147483647"
  shows "sint (fold (\<lambda>(x, y) s. s + int_cast x * int_cast y) xys s) =
    sint s + (\<Sum>(x, y) \<leftarrow> xys. sint x * sint y)"
  using assms
proof (induction xys arbitrary: s)
  case (Cons p xys)
  obtain x y where p: "p = (x, y)" by force
  let ?s = "s + int_cast x * int_cast y :: 32 word"
  have b: "\<bar>sint x * sint y\<bar> \<le> 16129" using Cons.prems(1) p by (intro sint_mult_bound) auto
  then have fits: "int_fits LENGTH(32) (sint s + sint x * sint y)"
    using Cons.prems(2) by (simp add: int_fits_def) linarith
  have "?s = word_of_int (sint s + sint x * sint y)"
    by (simp add: int_cast_def)
  then have s: "sint ?s = sint s + sint x * sint y" using sint_word_of_int [OF fits] by metis
  moreover have "\<bar>sint ?s\<bar> + 16129 * int (length xys) \<le> 2147483647"
    using Cons.prems(2) b unfolding s by simp
  ultimately show ?case using Cons.IH [of ?s] Cons.prems(1) p by auto
qed simp

lemma dot_block_exact:
  assumes "block_ok a" "block_ok b" "cnt \<le> kQ8BlockSize"
  shows "sint (dot_block cnt a b) = (\<Sum>i < cnt. sint (blk_qs a ! i) * sint (blk_qs b ! i))"
proof -
  let ?z = "take cnt (zip (blk_qs a) (blk_qs b))"
  have len: "length ?z = cnt" "cnt \<le> 32" using assms by (auto simp: block_ok_def kQ8BlockSize_def)
  have "x \<in> set (blk_qs a) \<and> y \<in> set (blk_qs b)" if "(x, y) \<in> set ?z" for x y
    using in_set_takeD [OF that] by (auto dest: set_zip_leftD set_zip_rightD)
  then have "\<forall>(x, y) \<in> set ?z. \<bar>sint x\<bar> \<le> 127 \<and> \<bar>sint y\<bar> \<le> 127"
    using assms(1,2) unfolding block_ok_def list_all_iff by blast
  then have "sint (dot_block cnt a b) = (\<Sum>(x, y) \<leftarrow> ?z. sint x * sint y)"
    unfolding dot_block_def using len by (subst dot_fold_exact) auto
  also have "\<dots> = (\<Sum>i < cnt. sint (blk_qs a ! i) * sint (blk_qs b ! i))"
    using len assms by (simp add: sum_list_sum_nth block_ok_def atLeast0LessThan)
  finally show ?thesis .
qed

text \<open>Summing over the blocks is summing over the elements.\<close>

lemma sum_lessThan_add: "(\<Sum>i < m + n. (f i :: real)) = (\<Sum>i < m. f i) + (\<Sum>j < n. f (m + j))" for m n :: nat
  by (induction n) simp_all

lemma sum_blocks:
  "(\<Sum>b < k. \<Sum>j < block_count n b. (f (b * kQ8BlockSize + j) :: real)) = (\<Sum>i < min n (k * kQ8BlockSize). f i)"
proof (induction k)
  case (Suc k)
  let ?s = "min n (k * kQ8BlockSize)" and ?c = "block_count n k"
  have end_eq: "min n (Suc k * kQ8BlockSize) = ?s + ?c" by (auto simp: block_count_def)
  have "(\<Sum>i < ?s + ?c. f i) = (\<Sum>i < ?s. f i) + (\<Sum>j < ?c. f (?s + j))"
    by (rule sum_lessThan_add)
  moreover have "?s = k * kQ8BlockSize" if "j < ?c" for j
    using that by (auto simp: block_count_def)
  ultimately show ?case unfolding end_eq using Suc by (simp cong: sum.cong_simp) 
qed simp

text \<open>The scale of every block is a finite number, as \<^verbatim>\<open>quantize_q8_0\<close> of finite data leaves it.\<close>

definition finite_scales :: "Tensor \<Rightarrow> bool" where
  "finite_scales t = list_all (\<lambda>c. is_fin (blk_d (cell_block c))) (elems t)"

abbreviation tblock :: "Tensor \<Rightarrow> nat \<Rightarrow> BlockQ8_0" where
  "tblock t b \<equiv> cell_block (t_data t ! b)"

lemma q8_block_ok:
  assumes "tensor_ok t" "t_dtype t = kQ8_0" "b < q8_blocks (t_size t)"
  shows "block_ok (tblock t b)"
proof -
  have "b < length (t_data t)" using assms tensor_ok_length [OF assms(1)] by (simp add: slots_def)
  then have "cell_ok kQ8_0 (t_data t ! b)" using assms by (simp add: tensor_ok_def list_all_length)
  then show ?thesis by (cases "t_data t ! b") auto
qed

lemma q8_scale_finite:
  assumes "tensor_ok t" "t_dtype t = kQ8_0" "finite_scales t" "b < q8_blocks (t_size t)"
  shows "blk_d (tblock t b) = Fin (fin (blk_d (tblock t b)))"
  using assms length_elems [OF assms(1)]
  by (simp add: finite_scales_def list_all_length elems_def slots_def)

lemma dequantize_tval:
  assumes "tensor_ok t" "t_dtype t = kQ8_0" "finite_scales t" "dequantize t = Ok d"
    and b: "b < q8_blocks (t_size t)" and j: "j < block_count (t_size t) b"
  shows "tval d (b * kQ8BlockSize + j) =
    of_int (sint (blk_qs (tblock t b) ! j)) * fin (blk_d (tblock t b))"
proof -
  have B: "j < kQ8BlockSize" "b * kQ8BlockSize + j < t_size t" using j by (auto simp: block_count_def)
  have len: "length (blk_qs (tblock t b)) = kQ8BlockSize"
    using q8_block_ok [OF assms(1,2) b] by (simp add: block_ok_def)
  have "elems d ! (b * kQ8BlockSize + j) = dequantize_block (block_count (t_size t) b) (tblock t b) ! j"
    using dequantize_eq(1) [OF assms(1,2)] dequantize_eq(4) [OF assms(1,2) B(2)]
      dequantize_eq(3) [OF assms(1,2)] assms(4) B by auto
  also have "\<dots> = CF64 (fmul (int_to_flt (blk_qs (tblock t b) ! j)) (blk_d (tblock t b)))"
    using j B len by (simp add: dequantize_block_def)
  also have "\<dots> = CF64 (Fin (of_int (sint (blk_qs (tblock t b) ! j)) * fin (blk_d (tblock t b))))"
    by (subst q8_scale_finite [OF assms(1-3) b]) (simp only: int_to_flt_def fmul.simps)
  finally show ?thesis by (simp only: tval_def cell_flt.simps fin.simps)
qed

lemma fold_fadd_Fin:
  assumes "\<And>b. b \<in> set bs \<Longrightarrow> f b = Fin (g b)"
  shows "fold (\<lambda>b acc. fadd acc (f b)) bs (Fin a) = Fin (a + (\<Sum>b \<leftarrow> bs. g b))"
  using assms by (induction bs arbitrary: a) (auto simp: algebra_simps)

lemma dot_blocks_fold:
  assumes ab: "tensor_ok a" "t_dtype a = kQ8_0" "tensor_ok b" "t_dtype b = kQ8_0" "t_size a = t_size b"
    "finite_scales a" "finite_scales b"
  defines "g \<equiv> \<lambda>k. fin (blk_d (tblock a k)) * fin (blk_d (tblock b k)) *
    (\<Sum>j < block_count (t_size a) k. of_int (sint (blk_qs (tblock a k) ! j) * sint (blk_qs (tblock b k) ! j)))"
  shows "dot_q8_0 a b = Ok (Fin (\<Sum>k < q8_blocks (t_size a). g k))"
proof -
  let ?f = "\<lambda>k. fmul (fmul (blk_d (tblock a k)) (blk_d (tblock b k)))
    (int_to_flt (dot_block (block_count (t_size a) k) (tblock a k) (tblock b k)))"
  have "?f k = Fin (g k)" if k: "k \<in> set [0..<q8_blocks (t_size a)]" for k
  proof -
    have k': "k < q8_blocks (t_size a)" "k < q8_blocks (t_size b)" using k ab(5) by auto
    have s: "sint (dot_block (block_count (t_size a) k) (tblock a k) (tblock b k)) =
        (\<Sum>j < block_count (t_size a) k. sint (blk_qs (tblock a k) ! j) * sint (blk_qs (tblock b k) ! j))"
      using q8_block_ok [OF ab(1,2) k'(1)] q8_block_ok [OF ab(3,4) k'(2)] by (intro dot_block_exact) auto
    show ?thesis
      by (subst q8_scale_finite [OF ab(1,2,6) k'(1)], subst q8_scale_finite [OF ab(3,4,7) k'(2)])
        (simp only: int_to_flt_def s fmul.simps g_def of_int_sum)
  qed
  then have "fold (\<lambda>k acc. fadd acc (?f k)) [0..<q8_blocks (t_size a)] (Fin 0) =
      Fin (0 + (\<Sum>k \<leftarrow> [0..<q8_blocks (t_size a)]. g k))"
    by (rule fold_fadd_Fin)
  then show ?thesis
    using ab by (simp add: dot_q8_0_def Let_def sum_list_distinct_conv_sum_set lessThan_atLeast0)
qed



end
