(* ===== verification/StdNum.thy ===== *)
theory StdNum
  imports Flt Lexer
begin

text \<open>
  The number conversions of the C++ library the column engine uses for operator attributes:
  \<^verbatim>\<open>std::stod\<close>, \<^verbatim>\<open>std::stoull\<close> and \<^verbatim>\<open>std::to_string(double)\<close> (six decimals), and \<^verbatim>\<open>ToDouble\<close> of the toolkit.  Decimal and
  hexadecimal notation with an optional exponent, the infinities and NaN are read; a value is kept exactly.
  Printing then reading loses at most half a millionth.
\<close>

section \<open>Model\<close>

definition c_string :: "string \<Rightarrow> string" where
  "c_string s = takeWhile (\<lambda>c. c \<noteq> char_of (0 :: nat)) s"

definition lower_ascii :: "char \<Rightarrow> char" where
  "lower_ascii c = (if isupper c then char_of (of_char c + 32 :: nat) else c)"

text \<open>An exponent after the letter \<open>e\<close>: its value and its length.  Without digits it is not part of the number.\<close>

definition exponent_digits :: "char \<Rightarrow> string \<Rightarrow> string" where
  "exponent_digits e rest =
    (case rest of [] \<Rightarrow> [] | c # cs \<Rightarrow> if lower_ascii c = e then takeWhile isdigit (drop (sign_len cs) cs) else [])"

definition exponent_value :: "char \<Rightarrow> string \<Rightarrow> int" where
  "exponent_value e rest =
    (let ds = exponent_digits e rest in if take 1 (drop 1 rest) = ''-'' then - digits_value ds 0 else digits_value ds 0)"

definition exponent_len :: "char \<Rightarrow> string \<Rightarrow> nat" where
  "exponent_len e rest =
    (let ds = exponent_digits e rest in if ds = [] then 0 else 1 + sign_len (drop 1 rest) + length ds)"

text \<open>The digits before and after the point, and what follows the mantissa.\<close>

definition mantissa :: "(char \<Rightarrow> bool) \<Rightarrow> string \<Rightarrow> string \<times> string \<times> string" where
  "mantissa dig u =
    (let ip = takeWhile dig u;
         after = drop (length ip) u;
         fp = (if take 1 after = ''.'' then takeWhile dig (drop 1 after) else [])
     in (ip, fp, if take 1 after = ''.'' then drop (Suc (length fp)) after else after))"

definition decimal_value :: "string \<Rightarrow> flt option" where
  "decimal_value u =
    (case mantissa isdigit u of (ip, fp, rest) \<Rightarrow>
      if ip = [] \<and> fp = [] then None
      else Some (Fin ((of_int (digits_value ip 0) + frac_value fp (1 / 10)) * 10 powi exponent_value (CHR ''e'') rest)))"

definition decimal_len :: "string \<Rightarrow> nat" where
  "decimal_len u =
    (case mantissa isdigit u of (ip, fp, rest) \<Rightarrow>
      if ip = [] \<and> fp = [] then 0 else length u - length rest + exponent_len (CHR ''e'') rest)"

subsection \<open>Hexadecimal constants\<close>

definition isxdigit :: "char \<Rightarrow> bool" where
  "isxdigit c = (isdigit c \<or> lower_ascii c \<in> set ''abcdef'')"

definition xdigit_value :: "char \<Rightarrow> nat" where
  "xdigit_value c = (if isdigit c then of_char c - 48 else of_char (lower_ascii c) - 87)"

definition xdigits_value :: "string \<Rightarrow> nat" where
  "xdigits_value ds = foldl (\<lambda>a c. a * 16 + xdigit_value c) 0 ds"

definition hex_constant :: "string \<Rightarrow> bool" where
  "hex_constant u =
    (map lower_ascii (take 2 u) = ''0x'' \<and> (case mantissa isxdigit (drop 2 u) of (ip, fp, rest) \<Rightarrow> ip \<noteq> [] \<or> fp \<noteq> []))"

definition hex_value :: "string \<Rightarrow> flt" where
  "hex_value u =
    (case mantissa isxdigit (drop 2 u) of (ip, fp, rest) \<Rightarrow>
      Fin ((real (xdigits_value ip) + real (xdigits_value fp) / 16 ^ length fp) * 2 powi exponent_value (CHR ''p'') rest))"

definition hex_len :: "string \<Rightarrow> nat" where
  "hex_len u =
    (case mantissa isxdigit (drop 2 u) of (ip, fp, rest) \<Rightarrow> length u - length rest + exponent_len (CHR ''p'') rest)"

text \<open>An unsigned number and how many characters it takes; \<open>nan(...)\<close> takes its parenthesis when it is closed.\<close>

definition paren_len :: "string \<Rightarrow> nat" where
  "paren_len v =
    (let ws = takeWhile (\<lambda>c. isdigit c \<or> isalpha c \<or> c = CHR ''_'') (drop 1 v) in
     if take 1 v = ''('' \<and> take 1 (drop (Suc (length ws)) v) = '')'' then length ws + 2 else 0)"

definition unsigned_value :: "string \<Rightarrow> flt option" where
  "unsigned_value u =
    (let w = map lower_ascii (take 3 u) in
     if w = ''inf'' then Some PInf else if w = ''nan'' then Some NaN
     else if hex_constant u then Some (hex_value u) else decimal_value u)"

definition unsigned_len :: "string \<Rightarrow> nat" where
  "unsigned_len u =
    (let w = map lower_ascii (take 3 u) in
     if w = ''inf'' then (if map lower_ascii (take 8 u) = ''infinity'' then 8 else 3)
     else if w = ''nan'' then 3 + paren_len (drop 3 u)
     else if hex_constant u then hex_len u else decimal_len u)"

definition strtod :: "string \<Rightarrow> flt option" where
  "strtod str =
    (let t = dropWhile isspace (c_string str);
         v = unsigned_value (drop (sign_len t) t)
     in if take 1 t = ''-'' then map_option fneg v else v)"

text \<open>Where \<^verbatim>\<open>strtod\<close> stops: at the start when there is no number.\<close>

definition strtod_end :: "string \<Rightarrow> nat" where
  "strtod_end str =
    (let t = dropWhile isspace (c_string str); n = unsigned_len (drop (sign_len t) t)
     in if n = 0 then 0 else length (c_string str) - length t + sign_len t + n)"

definition erange :: "flt \<Rightarrow> bool" where
  "erange v = (case v of Fin x \<Rightarrow> \<bar>x\<bar> \<ge> 2 ^ 1024 - 2 ^ 970 \<or> x \<noteq> 0 \<and> \<bar>x\<bar> < 1 / 2 ^ 1022 | _ \<Rightarrow> False)"

definition str_stod :: "string \<Rightarrow> flt res" where
  "str_stod s =
    (case strtod s of
       None \<Rightarrow> Throw (InvalidArgument ''stod'')
     | Some v \<Rightarrow> if erange v then Throw (OutOfRange ''stod'') else Ok v)"

definition ToDouble :: "string \<Rightarrow> flt option" where
  "ToDouble s =
    (if s = [] then None
     else case strtod s of
       None \<Rightarrow> None
     | Some v \<Rightarrow> if erange v \<or> strtod_end s \<noteq> length s then None else Some v)"

definition str_stoull :: "string \<Rightarrow> nat res" where
  "str_stoull str =
    (let t = dropWhile isspace (c_string str);
         ds = takeWhile isdigit (drop (sign_len t) t);
         v = digits_value ds 0
     in if ds = [] then Throw (InvalidArgument ''stoull'')
        else if v \<ge> 2 ^ 64 then Throw (OutOfRange ''stoull'')
        else Ok (nat (if take 1 t = ''-'' then (- v) mod 2 ^ 64 else v)))"

definition pad6 :: "nat \<Rightarrow> string" where
  "pad6 n = replicate (6 - length (nat_to_string n)) (CHR ''0'') @ nat_to_string n"

text \<open>The value in millionths, to the nearest.\<close>

definition millionths :: "real \<Rightarrow> nat" where
  "millionths x = nat (round (\<bar>x\<bar> * 10 ^ 6))"

text \<open>A stream with \<^verbatim>\<open>std::fixed\<close> and \<open>k\<close> decimals.\<close>

definition fixed_point :: "nat \<Rightarrow> real \<Rightarrow> string" where
  "fixed_point k x =
    (let n = nat (round (\<bar>x\<bar> * 10 ^ k)); frac = nat_to_string (n mod 10 ^ k) in
     (if x < 0 then ''-'' else []) @ nat_to_string (n div 10 ^ k) @ ''.'' @ replicate (k - length frac) (CHR ''0'') @ frac)"

fun double_to_string :: "flt \<Rightarrow> string" where
  "double_to_string (Fin x) =
    (if x < 0 then ''-'' else []) @ nat_to_string (millionths x div 10 ^ 6) @ ''.'' @ pad6 (millionths x mod 10 ^ 6)"
| "double_to_string PInf = ''inf''"
| "double_to_string NInf = ''-inf''"
| "double_to_string NaN = ''nan''"

section \<open>Digits\<close>

lemma digits_value_acc: "digits_value ds a = a * 10 ^ length ds + digits_value ds 0"
proof (induction ds arbitrary: a)
  case (Cons d ds)
  show ?case
    by (simp only: digits_value.simps Cons.IH [of "a * 10 + (int (of_char d) - 48)"]
        Cons.IH [of "0 * 10 + (int (of_char d) - 48)"]) (simp add: algebra_simps)
qed simp

lemma frac_value_digits: "frac_value ds s = s * 10 * of_int (digits_value ds 0) / 10 ^ length ds"
proof (induction ds arbitrary: s)
  case (Cons d ds)
  have "real_of_int (digits_value (d # ds) 0) =
      (real (of_char d) - 48) * 10 ^ length ds + of_int (digits_value ds 0)"
    by (simp add: digits_value_acc [of ds "int (of_char d) - 48"])
  then show ?case unfolding frac_value.simps Cons.IH by (simp only:) (simp add: field_simps)
qed simp

lemma nat_to_string_length: "n < 10 ^ k \<Longrightarrow> 0 < k \<Longrightarrow> length (nat_to_string n) \<le> k"
proof (induction k arbitrary: n)
  case (Suc k)
  show ?case
  proof (cases "n < 10")
    case True
    then show ?thesis by (subst nat_to_string.simps) simp
  next
    case False
    then have "0 < k" using Suc.prems by (cases k) auto
    moreover have "n div 10 < 10 ^ k" using Suc.prems by (simp add: less_mult_imp_div_less)
    ultimately show ?thesis using Suc.IH [of "n div 10"] False by (subst nat_to_string.simps) simp
  qed
qed simp

lemma digits_value_zeros: "digits_value (replicate k (CHR ''0'') @ ds) 0 = digits_value ds 0"
  by (induction k) simp_all

lemma pad6_facts:
  assumes "n < 10 ^ 6"
  shows "list_all isdigit (pad6 n)" "length (pad6 n) = 6" "digits_value (pad6 n) 0 = int n"
proof -
  have "isdigit (CHR ''0'')" by (simp add: isdigit_def)
  then show "list_all isdigit (pad6 n)"
    using nat_to_string_digits [of n] by (auto simp: pad6_def list_all_iff)
  show "length (pad6 n) = 6" using nat_to_string_length [of n 6] assms by (simp add: pad6_def)
  show "digits_value (pad6 n) 0 = int n" by (simp add: pad6_def digits_value_zeros digits_value_nat)
qed

section \<open>Reading back what was printed\<close>

lemma digit_not: "isdigit c \<Longrightarrow> c \<noteq> CHR ''.'' \<and> c \<noteq> CHR ''-'' \<and> c \<noteq> CHR ''+'' \<and> \<not> isspace c \<and>
    c \<noteq> char_of (0 :: nat) \<and> lower_ascii c \<noteq> CHR ''i'' \<and> lower_ascii c \<noteq> CHR ''n''"
  by (auto simp: isdigit_def isspace_def lower_ascii_def isupper_def)

lemma decimal_value_digits:
  assumes "list_all isdigit ip" "ip \<noteq> []"
  shows "decimal_value ip = Some (Fin (of_int (digits_value ip 0)))"
    and "list_all isdigit fp \<Longrightarrow>
      decimal_value (ip @ ''.'' @ fp) =
        Some (Fin (of_int (digits_value ip 0) + of_int (digits_value fp 0) / 10 ^ length fp))"
proof -
  have tw: "takeWhile isdigit (ip @ CHR ''.'' # rest) = ip" for rest
  proof -
    have "\<not> isdigit (CHR ''.'')" by (simp add: isdigit_def)
    then show ?thesis using assms(1) by (simp add: takeWhile_append2 list_all_iff)
  qed
  show "decimal_value ip = Some (Fin (of_int (digits_value ip 0)))"
    using assms by (simp add: decimal_value_def mantissa_def takeWhile_all exponent_value_def exponent_digits_def)
  show "decimal_value (ip @ ''.'' @ fp) =
        Some (Fin (of_int (digits_value ip 0) + of_int (digits_value fp 0) / 10 ^ length fp))"
    if "list_all isdigit fp"
    using assms that
    by (simp add: decimal_value_def mantissa_def tw takeWhile_all Let_def exponent_value_def exponent_digits_def frac_value_digits)
qed

lemma decimal_len_digits:
  assumes "list_all isdigit ip" "ip \<noteq> []"
  shows "decimal_len ip = length ip"
    and "list_all isdigit fp \<Longrightarrow> decimal_len (ip @ ''.'' @ fp) = length (ip @ ''.'' @ fp)"
proof -
  have "\<not> isdigit (CHR ''.'')" by (simp add: isdigit_def)
  then have "takeWhile isdigit (ip @ CHR ''.'' # rest) = ip" for rest
    using assms(1) by (simp add: takeWhile_append2 list_all_iff)
  then show "decimal_len ip = length ip" "list_all isdigit fp \<Longrightarrow> decimal_len (ip @ ''.'' @ fp) = length (ip @ ''.'' @ fp)"
    using assms by (simp_all add: decimal_len_def mantissa_def takeWhile_all Let_def exponent_len_def exponent_digits_def)
qed

lemma strtod_unsigned:
  assumes "list_all (\<lambda>c. isdigit c \<or> c = CHR ''.'') u" "u \<noteq> []" "isdigit (hd u)"
  shows "strtod u = decimal_value u" "strtod (CHR ''-'' # u) = map_option fneg (decimal_value u)"
    "decimal_len u > 0 \<Longrightarrow> strtod_end u = decimal_len u" "decimal_len u > 0 \<Longrightarrow> strtod_end (CHR ''-'' # u) = Suc (decimal_len u)"
proof -
  have "c \<noteq> char_of (0 :: nat)" if "c \<in> set u" for c
  proof -
    have "isdigit c \<or> c = CHR ''.''" using assms(1) that by (simp add: list_all_iff)
    moreover have "char_of (0 :: nat) \<noteq> CHR ''.''" by (simp add: char_of_def)
    ultimately show ?thesis using digit_not [of c] by auto
  qed
  then have nul: "c_string u = u" "c_string (CHR ''-'' # u) = CHR ''-'' # u"
    unfolding c_string_def by (simp_all add: takeWhile_eq_all_conv char_of_def)
  obtain c cs where u: "u = c # cs" "isdigit c" using assms(2,3) by (cases u) auto
  note d = digit_not [OF u(2)]
  have "map lower_ascii (take 3 u) \<noteq> ''inf''" "map lower_ascii (take 3 u) \<noteq> ''nan''"
    using d by (auto simp: u(1))
  moreover have "\<not> hex_constant u"
  proof -
    have "c' \<noteq> CHR ''x'' \<and> lower_ascii c' \<noteq> CHR ''x''" if "c' \<in> set u" for c'
    proof -
      have "isdigit c' \<or> c' = CHR ''.''" using assms(1) that by (simp add: list_all_iff)
      then show ?thesis by (auto simp: isdigit_def lower_ascii_def isupper_def)
    qed
    then show ?thesis by (cases cs) (auto simp: hex_constant_def u(1))
  qed
  moreover have "sign_len u = 0" "dropWhile isspace u = u" "take 1 u \<noteq> ''-''"
    using d by (auto simp: u(1) sign_len_def)
  moreover have "sign_len (CHR ''-'' # u) = 1" "dropWhile isspace (CHR ''-'' # u) = CHR ''-'' # u"
    by (auto simp: sign_len_def isspace_def)
  ultimately show "strtod u = decimal_value u" "strtod (CHR ''-'' # u) = map_option fneg (decimal_value u)"
    "decimal_len u > 0 \<Longrightarrow> strtod_end u = decimal_len u" "decimal_len u > 0 \<Longrightarrow> strtod_end (CHR ''-'' # u) = Suc (decimal_len u)"
    by (simp_all add: strtod_def strtod_end_def unsigned_value_def unsigned_len_def nul Let_def)
qed

lemma strtod_int: "strtod (int_to_string k) = Some (Fin (of_int k))"
proof -
  have d: "list_all (\<lambda>c. isdigit c \<or> c = CHR ''.'') (nat_to_string n)" "nat_to_string n \<noteq> []"
    "isdigit (hd (nat_to_string n))" for n
    using nat_to_string_digits [of n] nat_to_string_ne [of n] by (auto simp: list_all_iff)
  show ?thesis
    using strtod_unsigned [OF d] decimal_value_digits(1) [OF nat_to_string_digits nat_to_string_ne]
    by (simp add: int_to_string_def digits_value_nat)
qed

lemma strtod_end_int: "strtod_end (int_to_string k) = length (int_to_string k)"
proof -
  have d: "list_all (\<lambda>c. isdigit c \<or> c = CHR ''.'') (nat_to_string n)" "nat_to_string n \<noteq> []" "isdigit (hd (nat_to_string n))" for n
    using nat_to_string_digits [of n] nat_to_string_ne [of n] by (auto simp: list_all_iff)
  show ?thesis
    using strtod_unsigned(3,4) [OF d] decimal_len_digits(1) [OF nat_to_string_digits nat_to_string_ne] nat_to_string_ne
    by (simp add: int_to_string_def)
qed

lemma real_of_nat_div_mod: "real (n div 10 ^ 6) + real (n mod 10 ^ 6) / 10 ^ 6 = real n / 10 ^ 6"
proof -
  obtain q r where qr: "n div 10 ^ 6 = q" "n mod 10 ^ 6 = r" by blast
  then have "n = q * 10 ^ 6 + r" by (metis div_mult_mod_eq)
  then show ?thesis unfolding qr by (simp add: field_simps)
qed

lemma strtod_double:
  "strtod (double_to_string (Fin x)) =
    Some (Fin ((if x < 0 then -1 else 1) * real (millionths x) / 10 ^ 6))"
  "strtod_end (double_to_string (Fin x)) = length (double_to_string (Fin x))"
proof -
  let ?q = "millionths x div 10 ^ 6" and ?r = "millionths x mod 10 ^ 6"
  let ?u = "nat_to_string ?q @ ''.'' @ pad6 ?r"
  note p = pad6_facts [of ?r]
  have u: "list_all (\<lambda>c. isdigit c \<or> c = CHR ''.'') ?u" "?u \<noteq> []" "isdigit (hd ?u)"
    using nat_to_string_digits [of ?q] nat_to_string_ne [of ?q] p by (auto simp: list_all_iff)
  have "decimal_value ?u = Some (Fin (real ?q + real ?r / 10 ^ 6))"
    using decimal_value_digits(2) [OF nat_to_string_digits nat_to_string_ne p(1)] p
    by (simp add: digits_value_nat)
  also have "real ?q + real ?r / 10 ^ 6 = real (millionths x) / 10 ^ 6"
    by (simp only: real_of_nat_div_mod)
  finally show "strtod (double_to_string (Fin x)) = Some (Fin ((if x < 0 then -1 else 1) * real (millionths x) / 10 ^ 6))"
    using strtod_unsigned [OF u] by simp
  have "decimal_len ?u = length ?u" using decimal_len_digits(2) [OF nat_to_string_digits nat_to_string_ne p(1)] by simp
  then show "strtod_end (double_to_string (Fin x)) = length (double_to_string (Fin x))" using strtod_unsigned(3,4) [OF u] by simp
qed

lemma millionths_error: "\<bar>real (millionths x) / 10 ^ 6 - \<bar>x\<bar>\<bar> \<le> 1 / (2 * 10 ^ 6)"
proof -
  have "0 \<le> round (\<bar>x\<bar> * 10 ^ 6)" by (simp add: round_def)
  then have "\<bar>real (millionths x) - \<bar>x\<bar> * 10 ^ 6\<bar> \<le> 1 / 2"
    using of_int_round_abs_le [of "\<bar>x\<bar> * 10 ^ 6"] by (simp add: millionths_def)
  then show ?thesis by (simp add: field_simps)
qed

lemma stod_int:
  assumes "\<bar>k\<bar> < 2 ^ 64"
  shows "str_stod (int_to_string k) = Ok (Fin (of_int k))"
proof -
  have "real_of_int \<bar>k\<bar> < real_of_int (2 ^ 64)" using assms by (simp only: of_int_less_iff)
  then have "\<bar>real_of_int k\<bar> < 2 ^ 64" by simp
  moreover have "(2::real) ^ 64 \<le> 2 ^ 1024 - 2 ^ 970" by simp
  moreover have "1 / 2 ^ 1022 \<le> \<bar>real_of_int k\<bar>" if "k \<noteq> 0"
  proof -
    have "1 / 2 ^ 1022 \<le> (1 :: real)" by simp
    moreover have "1 \<le> \<bar>real_of_int k\<bar>" using that by linarith
    ultimately show ?thesis by linarith
  qed
  ultimately show ?thesis by (auto simp: str_stod_def erange_def strtod_int not_le not_less)
qed

lemma stod_double:
  assumes "\<bar>x\<bar> < 2 ^ 1000"
  obtains y where "str_stod (double_to_string (Fin x)) = Ok (Fin y)" "\<bar>y - x\<bar> \<le> 1 / (2 * 10 ^ 6)"
proof -
  define m where "m = real (millionths x) / 10 ^ 6"
  define y where "y = (if x < 0 then -1 else 1) * m"
  have m: "\<bar>m - \<bar>x\<bar>\<bar> \<le> 1 / (2 * 10 ^ 6)" unfolding m_def by (rule millionths_error)
  then have err: "\<bar>y - x\<bar> \<le> 1 / (2 * 10 ^ 6)" by (auto simp: y_def abs_if split: if_splits)
  have "m < 2 ^ 1000 + 1" using m assms by (auto simp: abs_if split: if_splits)
  moreover have "(2::real) ^ 1000 + 1 \<le> 2 ^ 1024 - 2 ^ 970" by simp
  moreover have "1 / 2 ^ 1022 \<le> m" if "m \<noteq> 0"
  proof -
    have "1 \<le> real (millionths x)" using that by (simp add: m_def)
    then have "1 / 10 ^ 6 \<le> m" by (simp add: m_def)
    moreover have "1 / 2 ^ 1022 \<le> 1 / (10 :: real) ^ 6" by simp
    ultimately show ?thesis by linarith
  qed
  moreover have "0 \<le> m" by (simp add: m_def)
  ultimately have "str_stod (double_to_string (Fin x)) = Ok (Fin y)"
    unfolding str_stod_def strtod_double by (auto simp: erange_def y_def m_def)
  with err show ?thesis by (rule that [rotated])
qed

lemma ToDouble_stod:
  assumes "strtod_end s = length s" "s \<noteq> []" "str_stod s = Ok v"
  shows "ToDouble s = Some v"
  using assms by (auto simp: ToDouble_def str_stod_def split: option.splits if_splits)

text \<open>What \<^verbatim>\<open>std::to_string\<close> prints, \<^verbatim>\<open>ToDouble\<close> accepts: integers exactly, a double to half a millionth.  Trailing characters make it fail.\<close>

theorem ToDouble_to_string:
  "\<bar>k\<bar> < 2 ^ 64 \<Longrightarrow> ToDouble (int_to_string k) = Some (Fin (of_int k))"
  "\<bar>x\<bar> < 2 ^ 1000 \<Longrightarrow> \<exists>y. ToDouble (double_to_string (Fin x)) = Some (Fin y) \<and> \<bar>y - x\<bar> \<le> 1 / (2 * 10 ^ 6)"
proof -
  show "ToDouble (int_to_string k) = Some (Fin (of_int k))" if "\<bar>k\<bar> < 2 ^ 64"
    using ToDouble_stod [OF strtod_end_int _ stod_int [OF that]] nat_to_string_ne by (simp add: int_to_string_def)
  assume x: "\<bar>x\<bar> < 2 ^ 1000"
  obtain y where "str_stod (double_to_string (Fin x)) = Ok (Fin y)" "\<bar>y - x\<bar> \<le> 1 / (2 * 10 ^ 6)" by (rule stod_double [OF x])
  then show "\<exists>y. ToDouble (double_to_string (Fin x)) = Some (Fin y) \<and> \<bar>y - x\<bar> \<le> 1 / (2 * 10 ^ 6)"
    using ToDouble_stod [OF strtod_double(2)] by auto
qed

end
