(* ===== verification/Kernels.thy ===== *)
theory Kernels
  imports TensorStore Quantize StdNum
begin

text \<open>
  \<^verbatim>\<open>column/exec/tensor_op.{h,cpp}\<close> and \<^verbatim>\<open>column/exec/ops_kernels.h\<close>: the op description, the store view an op
  computes on, type promotion, casts and the generic elementwise kernels.

  A kernel's generic lambda is a function on cells that acts on each scalar type (\<^verbatim>\<open>lift1\<close>, \<^verbatim>\<open>lift2\<close>).
  \<^verbatim>\<open>cast_tensor\<close> always gives float64 for a quantised source, whatever type was asked for, so a kernel that
  promoted a quantised operand to another type reads the cast buffer at the wrong type; the model ends
  there with \<^verbatim>\<open>Undefined\<close>, and the typing lemmas show that no other path does.
\<close>

section \<open>Model\<close>

record OpSpec =
  os_type :: string
  os_inputs :: "string list"
  os_outputs :: "string list"
  os_attrs :: "(string \<times> string) list"

abbreviation op_spec :: "string \<Rightarrow> string list \<Rightarrow> string list \<Rightarrow> (string \<times> string) list \<Rightarrow> OpSpec" where
  "op_spec t ins outs attrs \<equiv> \<lparr>os_type = t, os_inputs = ins, os_outputs = outs, os_attrs = attrs\<rparr>"

definition has_attr :: "OpSpec \<Rightarrow> string \<Rightarrow> bool" where
  "has_attr spec key = (map_of (os_attrs spec) key \<noteq> None)"

definition OpSpec_attr :: "OpSpec \<Rightarrow> string \<Rightarrow> string \<Rightarrow> string" where
  "OpSpec_attr spec key fallback = (case map_of (os_attrs spec) key of None \<Rightarrow> fallback | Some v \<Rightarrow> v)"

definition attrs_at :: "(string \<times> string) list \<Rightarrow> string \<Rightarrow> string res" where
  "attrs_at attrs key = (case map_of attrs key of None \<Rightarrow> Throw (OutOfRange ''unordered_map::at'') | Some v \<Rightarrow> Ok v)"

definition OpContext_input :: "string \<Rightarrow> TensorStore \<Rightarrow> Tensor res" where
  "OpContext_input name store =
    (case Store_find name store of
       None \<Rightarrow> Throw (OutOfRange (''OpContext::input: unknown tensor '' @ quoted name))
     | Some t \<Rightarrow> Ok t)"

text \<open>\<^verbatim>\<open>names[i]\<close> of a \<^verbatim>\<open>std::vector\<close>: past the end there is no value.\<close>

definition name_at :: "string list \<Rightarrow> nat \<Rightarrow> string res" where
  "name_at names i = (if i < length names then Ok (names ! i) else Throw (Undefined ''vector index out of range''))"

definition op_input :: "string list \<Rightarrow> nat \<Rightarrow> TensorStore \<Rightarrow> Tensor res" where
  "op_input inputs i store = bindR (name_at inputs i) (\<lambda>name. OpContext_input name store)"

definition op_set :: "string list \<Rightarrow> Tensor \<Rightarrow> TensorStore \<Rightarrow> TensorStore res" where
  "op_set outputs t store = bindR (name_at outputs 0) (\<lambda>name. Ok (Store_set name t store))"

definition for_each_scalar_type :: "DType \<Rightarrow> 'a res \<Rightarrow> 'a res" where
  "for_each_scalar_type dtype fn = (if dtype = kQ8_0 then Throw (RuntimeError ''op: unsupported dtype'') else fn)"

definition promote :: "DType \<Rightarrow> DType \<Rightarrow> DType" where
  "promote a b =
    (if a = b then a
     else let af = is_float a; bf = is_float b in
       if af \<and> bf then kFloat64
       else if af \<or> bf then
         (let f = (if af then a else b); i = (if af then b else a) in
          if i = kInt64 then kFloat64 else f)
       else kInt64)"

definition promote_scalar :: "DType \<Rightarrow> DType" where
  "promote_scalar a = (if a = kInt64 then kInt64 else if a = kInt32 then kInt32 else a)"

text \<open>\<^verbatim>\<open>static_cast<To>(p[i])\<close> between scalar types.\<close>

fun cast_cell :: "DType \<Rightarrow> cell \<Rightarrow> cell" where
  "cast_cell kInt32 (CI64 w) = CI32 (int_cast w)"
| "cast_cell kInt64 (CI32 w) = CI64 (int_cast w)"
| "cast_cell kInt32 (CI32 w) = CI32 w"
| "cast_cell kInt64 (CI64 w) = CI64 w"
| "cast_cell to c = cell_of_flt to (cell_flt c)"

definition cast_tensor :: "Tensor \<Rightarrow> DType \<Rightarrow> Tensor res" where
  "cast_tensor a to =
    (if t_dtype a = to then Ok (clone a)
     else if t_dtype a = kQ8_0 then dequantize a
     else if to = kQ8_0 then quantize_q8_0 a
     else let n = t_size a in
       bindR (data_as (t_dtype a) n a) (\<lambda>p.
         Ok (tresize n (put_cells (map (cast_cell to) p) (Tensor_new to n)))))"

definition as_dtype :: "Tensor \<Rightarrow> DType \<Rightarrow> Tensor res" where
  "as_dtype a out_dtype = (if t_dtype a = out_dtype then Ok a else cast_tensor a out_dtype)"

definition elementwise_binary :: "Tensor \<Rightarrow> Tensor \<Rightarrow> DType \<Rightarrow> (cell \<Rightarrow> cell \<Rightarrow> cell) \<Rightarrow> Tensor res" where
  "elementwise_binary a b out_dtype fn =
    (let n = t_size a in
     if t_size b \<noteq> n
     then Throw (RuntimeError (''binary op: length mismatch ('' @ nat_to_string n @ '' vs ''
            @ nat_to_string (t_size b) @ '')''))
     else bindR (as_dtype a out_dtype) (\<lambda>ra.
       bindR (as_dtype b out_dtype) (\<lambda>rb.
       for_each_scalar_type out_dtype
         (bindR (data_as out_dtype n ra) (\<lambda>pa.
          bindR (data_as out_dtype n rb) (\<lambda>pb.
          Ok (tresize n (put_cells (map2 fn pa pb) (Tensor_new out_dtype n)))))))))"

definition elementwise_scalar :: "Tensor \<Rightarrow> flt \<Rightarrow> DType \<Rightarrow> (cell \<Rightarrow> cell \<Rightarrow> cell) \<Rightarrow> Tensor res" where
  "elementwise_scalar a v out_dtype fn =
    (let n = t_size a in
     bindR (as_dtype a out_dtype) (\<lambda>ra.
       for_each_scalar_type out_dtype
         (bindR (data_as out_dtype n ra) (\<lambda>pa.
          let s = cell_of_flt out_dtype v in
          Ok (tresize n (put_cells (map (\<lambda>x. fn x s) pa) (Tensor_new out_dtype n)))))))"

definition elementwise_unary :: "Tensor \<Rightarrow> DType \<Rightarrow> (cell \<Rightarrow> cell) \<Rightarrow> Tensor res" where
  "elementwise_unary a out_dtype fn =
    (let n = t_size a in
     bindR (as_dtype a out_dtype) (\<lambda>ra.
       for_each_scalar_type out_dtype
         (bindR (data_as out_dtype n ra) (\<lambda>pa.
          Ok (tresize n (put_cells (map fn pa) (Tensor_new out_dtype n)))))))"

text \<open>A generic lambda instantiated at each scalar type.\<close>

fun lift1 :: "(32 word \<Rightarrow> 32 word) \<Rightarrow> (64 word \<Rightarrow> 64 word) \<Rightarrow> (flt \<Rightarrow> flt) \<Rightarrow> cell \<Rightarrow> cell" where
  "lift1 f g h (CI32 x) = CI32 (f x)"
| "lift1 f g h (CI64 x) = CI64 (g x)"
| "lift1 f g h (CF32 x) = CF32 (h x)"
| "lift1 f g h (CF64 x) = CF64 (h x)"
| "lift1 f g h c = c"

fun lift2 :: "(32 word \<Rightarrow> 32 word \<Rightarrow> 32 word) \<Rightarrow> (64 word \<Rightarrow> 64 word \<Rightarrow> 64 word) \<Rightarrow>
    (flt \<Rightarrow> flt \<Rightarrow> flt) \<Rightarrow> cell \<Rightarrow> cell \<Rightarrow> cell" where
  "lift2 f g h (CI32 x) (CI32 y) = CI32 (f x y)"
| "lift2 f g h (CI64 x) (CI64 y) = CI64 (g x y)"
| "lift2 f g h (CF32 x) (CF32 y) = CF32 (h x y)"
| "lift2 f g h (CF64 x) (CF64 y) = CF64 (h x y)"
| "lift2 f g h c d = c"

definition ParseScalar :: "string \<Rightarrow> flt res" where
  "ParseScalar s = str_stod s"

section \<open>Types of the kernels\<close>

text \<open>What a cell function must do for a kernel at scalar type \<^verbatim>\<open>t\<close>: stay at that type.\<close>

definition typed1 :: "(cell \<Rightarrow> cell) \<Rightarrow> DType \<Rightarrow> bool" where
  "typed1 fn t = (\<forall>x. cell_type x = t \<longrightarrow> cell_type (fn x) = t)"

definition typed2 :: "(cell \<Rightarrow> cell \<Rightarrow> cell) \<Rightarrow> DType \<Rightarrow> bool" where
  "typed2 fn t = (\<forall>x y. cell_type x = t \<longrightarrow> cell_type y = t \<longrightarrow> cell_type (fn x y) = t)"

lemma typed1_lift1 [simp]: "typed1 (lift1 f g h) t"
  unfolding typed1_def by (intro allI, case_tac x) auto

lemma typed2_lift2 [simp]: "typed2 (lift2 f g h) t"
  unfolding typed2_def by (intro allI, case_tac x; case_tac y) auto

lemma typed1_partial: "typed2 fn t \<Longrightarrow> cell_type s = t \<Longrightarrow> typed1 (\<lambda>x. fn x s) t"
  by (simp add: typed1_def typed2_def)

lemma cast_cell_type: "to \<noteq> kQ8_0 \<Longrightarrow> cell_type (cast_cell to c) = to"
  by (cases c; cases to) auto

lemma cell_of_flt_type [simp]: "cell_type (cell_of_flt t v) = t"
  by (cases t) auto

lemma cast_cell_same: "cell_type c = to \<Longrightarrow> to \<noteq> kQ8_0 \<Longrightarrow> cast_cell to c = c"
  by (cases c) auto

lemma is_float_promote:
  "promote a b = promote b a"
  "promote a a = a"
  "is_scalar_type a \<Longrightarrow> is_scalar_type b \<Longrightarrow> is_scalar_type (promote a b)"
  by (cases a; cases b; simp add: promote_def is_float_def is_int_def is_scalar_type_def)+

text \<open>
  The tensor a kernel reads: \<^verbatim>\<open>as_dtype\<close> gives the elements converted one by one.  The operand may be
  quantised only when the kernel computes in float64.
\<close>

definition castable :: "DType \<Rightarrow> DType \<Rightarrow> bool" where
  "castable d out = (d \<noteq> kQ8_0 \<or> out = kFloat64)"

lemma as_dtype_ok:
  assumes "tensor_ok a" "out \<noteq> kQ8_0" "castable (t_dtype a) out"
  obtains ra where "as_dtype a out = Ok ra" "tensor_ok ra" "t_dtype ra = out" "t_size ra = t_size a"
    "t_dtype a \<noteq> kQ8_0 \<Longrightarrow> elems ra = map (cast_cell out) (elems a)"
proof (cases "t_dtype a = kQ8_0")
  case True
  then have out: "out = kFloat64" using assms(3) by (simp add: castable_def)
  from dequantize_ok [OF assms(1) True] obtain d where
    "dequantize a = Ok d" "tensor_ok d" "t_dtype d = kFloat64" "t_size d = t_size a" .
  then show ?thesis using True out by (intro that [of d]) (simp_all add: as_dtype_def cast_tensor_def)
next
  case False
  have len: "length (elems a) = t_size a" using length_elems [OF assms(1)] False by simp
  show ?thesis
  proof (cases "t_dtype a = out")
    case True
    have "map (cast_cell out) (elems a) = elems a"
      using elems_ok [OF assms(1)] True assms(2)
      by (intro map_idI cast_cell_same) (auto simp: list_all_iff dest: cell_ok_type)
    then show ?thesis using True assms(1) by (intro that [of a]) (simp_all add: as_dtype_def)
  next
    case neq: False
    let ?r = "\<lparr>t_dtype = out, t_data = map (cast_cell out) (elems a), t_size = t_size a, t_capacity = t_size a\<rparr>"
    have "as_dtype a out = Ok ?r"
      using neq False assms(2) len data_as_ok [OF assms(1)]
      by (simp add: as_dtype_def cast_tensor_def Let_def fill_new)
    moreover have "tensor_ok ?r"
      using len assms(2) by (auto simp: list_all_iff cell_ok_scalar cast_cell_type)
    ultimately show ?thesis using len assms(2) by (intro that [of ?r]) simp_all
  qed
qed

lemma data_as_fill:
  assumes "tensor_ok ra" "t_dtype ra = out" "t_size ra = n"
  shows "data_as out n ra = Ok (elems ra)"
  using data_as_ok [OF assms(1)] assms(2,3) by simp

lemma filled_ok:
  assumes "length cs = n" "out \<noteq> kQ8_0" "\<And>c. c \<in> set cs \<Longrightarrow> cell_type c = out"
  obtains r where "tresize n (put_cells cs (Tensor_new out n)) = r" "tensor_ok r" "t_dtype r = out"
    "t_size r = n" "elems r = cs"
  using assms fill_new [of cs out n] by (force simp: list_all_iff cell_ok_scalar)

lemma elems_type: "tensor_ok t \<Longrightarrow> c \<in> set (elems t) \<Longrightarrow> cell_type c = t_dtype t"
  using elems_ok by (auto simp: list_all_iff dest: cell_ok_type)

text \<open>The three kernels succeed on well-formed operands, with the promised type and length, and hold
  the function's values on the converted elements.\<close>

lemma elementwise_unary_ok:
  assumes "tensor_ok a" "out \<noteq> kQ8_0" "castable (t_dtype a) out" "typed1 fn out"
  obtains r where "elementwise_unary a out fn = Ok r" "tensor_ok r" "t_dtype r = out" "t_size r = t_size a"
    "t_dtype a \<noteq> kQ8_0 \<Longrightarrow> elems r = map (fn \<circ> cast_cell out) (elems a)"
proof -
  obtain ra where ra: "as_dtype a out = Ok ra" "tensor_ok ra" "t_dtype ra = out" "t_size ra = t_size a"
    "t_dtype a \<noteq> kQ8_0 \<Longrightarrow> elems ra = map (cast_cell out) (elems a)"
    using as_dtype_ok [OF assms(1-3)] by metis
  have len: "length (map fn (elems ra)) = t_size a"
    using length_elems [OF ra(2)] ra(3,4) assms(2) by simp
  have "\<And>c. c \<in> set (map fn (elems ra)) \<Longrightarrow> cell_type c = out"
    using elems_type [OF ra(2)] ra(3) assms(4) by (auto simp: typed1_def)
  then obtain r where r: "tresize (t_size a) (put_cells (map fn (elems ra)) (Tensor_new out (t_size a))) = r"
    "tensor_ok r" "t_dtype r = out" "t_size r = t_size a" "elems r = map fn (elems ra)"
    using filled_ok [OF len assms(2)] by metis
  have "elementwise_unary a out fn = Ok r"
    using ra(1) r(1) data_as_fill [OF ra(2-4)] assms(2)
    by (simp add: elementwise_unary_def Let_def for_each_scalar_type_def)
  then show ?thesis using that r ra(5) by simp
qed

lemma elementwise_scalar_unary:
  "elementwise_scalar a v out fn = elementwise_unary a out (\<lambda>x. fn x (cell_of_flt out v))"
  by (simp add: elementwise_scalar_def elementwise_unary_def Let_def)

lemma elementwise_binary_ok:
  assumes "tensor_ok a" "tensor_ok b" "t_size a = t_size b" "out \<noteq> kQ8_0"
    "castable (t_dtype a) out" "castable (t_dtype b) out" "typed2 fn out"
  obtains r where "elementwise_binary a b out fn = Ok r" "tensor_ok r" "t_dtype r = out" "t_size r = t_size a"
    "t_dtype a \<noteq> kQ8_0 \<Longrightarrow> t_dtype b \<noteq> kQ8_0 \<Longrightarrow>
      elems r = map2 (\<lambda>x y. fn (cast_cell out x) (cast_cell out y)) (elems a) (elems b)"
proof -
  obtain ra where ra: "as_dtype a out = Ok ra" "tensor_ok ra" "t_dtype ra = out" "t_size ra = t_size a"
    "t_dtype a \<noteq> kQ8_0 \<Longrightarrow> elems ra = map (cast_cell out) (elems a)"
    using as_dtype_ok [OF assms(1,4,5)] by metis
  obtain rb where rb: "as_dtype b out = Ok rb" "tensor_ok rb" "t_dtype rb = out" "t_size rb = t_size b"
    "t_dtype b \<noteq> kQ8_0 \<Longrightarrow> elems rb = map (cast_cell out) (elems b)"
    using as_dtype_ok [OF assms(2,4,6)] by metis
  have len: "length (map2 fn (elems ra) (elems rb)) = t_size a"
    using length_elems [OF ra(2)] length_elems [OF rb(2)] ra(3,4) rb(3,4) assms(3,4) by simp
  have "cell_type c = out" if mem: "c \<in> set (map2 fn (elems ra) (elems rb))" for c
  proof -
    obtain x y where xy: "(x, y) \<in> set (zip (elems ra) (elems rb))" "c = fn x y" using mem by auto
    then have "cell_type x = out" "cell_type y = out"
      using elems_type [OF ra(2)] elems_type [OF rb(2)] ra(3) rb(3) by (metis set_zip_leftD set_zip_rightD)+
    then show ?thesis using assms(7) xy(2) by (simp add: typed2_def)
  qed
  then obtain r where r: "tresize (t_size a) (put_cells (map2 fn (elems ra) (elems rb)) (Tensor_new out (t_size a))) = r"
    "tensor_ok r" "t_dtype r = out" "t_size r = t_size a" "elems r = map2 fn (elems ra) (elems rb)"
    using filled_ok [OF len assms(4)] by metis
  have "elementwise_binary a b out fn = Ok r"
    using ra(1) rb(1) r(1) data_as_fill [OF ra(2-4)] data_as_fill [OF rb(2,3)] rb(4) assms(3,4)
    by (simp add: elementwise_binary_def Let_def for_each_scalar_type_def)
  then show ?thesis using that r ra(5) rb(5) by (simp add: zip_map_map comp_def case_prod_unfold)
qed

lemma elementwise_binary_mismatch:
  "t_size a \<noteq> t_size b \<Longrightarrow> \<exists>m. elementwise_binary a b out fn = Throw (RuntimeError m)"
  by (auto simp: elementwise_binary_def Let_def)

text \<open>The results written out: for scalar operands a kernel's result is exactly this tensor.\<close>

abbreviation filled :: "DType \<Rightarrow> cell list \<Rightarrow> Tensor" where
  "filled d cs \<equiv> \<lparr>t_dtype = d, t_data = cs, t_size = length cs, t_capacity = length cs\<rparr>"

lemma elementwise_unary_eq:
  assumes "tensor_ok a" "out \<noteq> kQ8_0" "t_dtype a \<noteq> kQ8_0"
  shows "elementwise_unary a out fn = Ok (filled out (map (\<lambda>x. fn (cast_cell out x)) (elems a)))"
proof -
  have "castable (t_dtype a) out" using assms(3) by (simp add: castable_def)
  then obtain ra where ra: "as_dtype a out = Ok ra" "tensor_ok ra" "t_dtype ra = out" "t_size ra = t_size a"
    "elems ra = map (cast_cell out) (elems a)"
    using as_dtype_ok [OF assms(1,2)] assms(3) by metis
  have "length (elems a) = t_size a" using length_elems [OF assms(1)] assms(3) by simp
  then show ?thesis
    using ra data_as_fill [OF ra(2-4)] assms(2)
    by (simp add: elementwise_unary_def Let_def for_each_scalar_type_def fill_new comp_def)
qed

lemma elementwise_binary_eq:
  assumes "tensor_ok a" "tensor_ok b" "t_size b = t_size a" "out \<noteq> kQ8_0" "t_dtype a \<noteq> kQ8_0" "t_dtype b \<noteq> kQ8_0"
  shows "elementwise_binary a b out fn =
    Ok (filled out (map2 (\<lambda>x y. fn (cast_cell out x) (cast_cell out y)) (elems a) (elems b)))"
proof -
  have "castable (t_dtype a) out" "castable (t_dtype b) out" using assms(5,6) by (simp_all add: castable_def)
  then obtain ra rb where ra: "as_dtype a out = Ok ra" "tensor_ok ra" "t_dtype ra = out" "t_size ra = t_size a"
    "elems ra = map (cast_cell out) (elems a)"
    and rb: "as_dtype b out = Ok rb" "tensor_ok rb" "t_dtype rb = out" "t_size rb = t_size b"
    "elems rb = map (cast_cell out) (elems b)"
    using as_dtype_ok [OF assms(1,4)] as_dtype_ok [OF assms(2,4)] assms(5,6) by metis
  have len: "length (elems a) = t_size a" "length (elems b) = t_size a"
    using length_elems [OF assms(1)] length_elems [OF assms(2)] assms(3,5,6) by simp_all
  have "data_as out (t_size a) rb = Ok (elems rb)" using data_as_fill [OF rb(2,3)] rb(4) assms(3) by simp
  then show ?thesis
    using ra rb(1,5) data_as_fill [OF ra(2-4)] assms(3,4) len
    by (simp add: elementwise_binary_def Let_def for_each_scalar_type_def fill_new zip_map_map comp_def case_prod_unfold)
qed

lemma map_cast_self:
  assumes "tensor_ok a" "t_dtype a = d" "d \<noteq> kQ8_0" "c \<in> set (elems a)"
  shows "cast_cell d c = c"
  using assms elems_type [OF assms(1,4)] by (intro cast_cell_same) auto

end
