(* ===== verification/Ops.thy ===== *)
theory Ops
  imports Kernels
begin

text \<open>
  \<^verbatim>\<open>column/exec/ops_{binary,unary,compare,reduce,special}.cpp\<close> and \<^verbatim>\<open>ops.cpp\<close>: the built-in ops and their
  factory.  An op object is a constructor of \<^verbatim>\<open>TensorOp\<close> with the fields the class keeps; \<^verbatim>\<open>op_kernel\<close> is
  the body of its \<^verbatim>\<open>compute\<close> between reading the inputs and writing the output, and \<^verbatim>\<open>TensorOp_compute\<close> the
  whole of it.  Every op reads all its inputs first and writes once, at the end.

  \<^verbatim>\<open>op_dtype\<close> is the static type of the result; the typing theorem says that a computation with inputs it
  accepts ends in a well-formed tensor of that type or in an exception.
\<close>

section \<open>Model\<close>

record OpBase =
  ob_type :: string
  ob_inputs :: "string list"
  ob_outputs :: "string list"

datatype TensorOp =
    BinaryArithOp OpBase char
  | ScalarArithOp OpBase char flt
  | UnaryOp OpBase string
  | CompareOp OpBase string
  | CompareScalarOp OpBase string flt
  | ReduceOp OpBase string
  | SelectOp OpBase
  | FilterOp OpBase
  | CastOp OpBase DType
  | QuantizeOp OpBase
  | DequantizeOp OpBase
  | DotQ8Op OpBase
  | ConstOp OpBase "(string \<times> string) list"
  | IdentityOp OpBase

primrec op_base :: "TensorOp \<Rightarrow> OpBase" where
  "op_base (BinaryArithOp b x) = b"
| "op_base (ScalarArithOp b x y) = b"
| "op_base (UnaryOp b x) = b"
| "op_base (CompareOp b x) = b"
| "op_base (CompareScalarOp b x y) = b"
| "op_base (ReduceOp b x) = b"
| "op_base (SelectOp b) = b"
| "op_base (FilterOp b) = b"
| "op_base (CastOp b x) = b"
| "op_base (QuantizeOp b) = b"
| "op_base (DequantizeOp b) = b"
| "op_base (DotQ8Op b) = b"
| "op_base (ConstOp b x) = b"
| "op_base (IdentityOp b) = b"

subsection \<open>Arithmetic\<close>

definition cell_add :: "cell \<Rightarrow> cell \<Rightarrow> cell" where
  "cell_add = lift2 (+) (+) fadd"

definition cell_sub :: "cell \<Rightarrow> cell \<Rightarrow> cell" where
  "cell_sub = lift2 (-) (-) fsub"

definition cell_mul :: "cell \<Rightarrow> cell \<Rightarrow> cell" where
  "cell_mul = lift2 (*) (*) fmul"

definition cell_div :: "cell \<Rightarrow> cell \<Rightarrow> cell" where
  "cell_div x y = CF64 (fdiv (cell_flt x) (cell_flt y))"

definition BinaryArith_kernel :: "char \<Rightarrow> Tensor \<Rightarrow> Tensor \<Rightarrow> Tensor res" where
  "BinaryArith_kernel op a b =
    (if op = CHR ''/'' then elementwise_binary a b kFloat64 cell_div
     else let out = promote (t_dtype a) (t_dtype b) in
       if op = CHR ''+'' then elementwise_binary a b out cell_add
       else if op = CHR ''-'' then elementwise_binary a b out cell_sub
       else elementwise_binary a b out cell_mul)"

definition ScalarArith_kernel :: "char \<Rightarrow> flt \<Rightarrow> Tensor \<Rightarrow> Tensor res" where
  "ScalarArith_kernel op scalar a =
    (let out = (if op = CHR ''/'' then kFloat64 else promote_scalar (t_dtype a)) in
     if op = CHR ''+'' then elementwise_scalar a scalar out cell_add
     else if op = CHR ''-'' then elementwise_scalar a scalar out cell_sub
     else if op = CHR ''*'' then elementwise_scalar a scalar out cell_mul
     else elementwise_scalar a scalar kFloat64 cell_div)"

definition create_binary_op :: "OpSpec \<Rightarrow> TensorOp option res" where
  "create_binary_op spec =
    (let t = os_type spec; base = \<lparr>ob_type = t, ob_inputs = os_inputs spec, ob_outputs = os_outputs spec\<rparr> in
     if t = ''add'' \<or> t = ''sub'' \<or> t = ''mul'' \<or> t = ''div''
     then Ok (Some (BinaryArithOp base
       (if t = ''add'' then CHR ''+'' else if t = ''sub'' then CHR ''-''
        else if t = ''mul'' then CHR ''*'' else CHR ''/'')))
     else if t = ''add_scalar'' \<or> t = ''sub_scalar'' \<or> t = ''mul_scalar'' \<or> t = ''div_scalar''
     then (if \<not> has_attr spec ''scalar''
       then Throw (InvalidArgument (''scalar op '' @ quoted t @ '' requires attr '' @ quoted ''scalar''))
       else bindR (attrs_at (os_attrs spec) ''scalar'') (\<lambda>s. bindR (ParseScalar s) (\<lambda>v.
         Ok (Some (ScalarArithOp base
           (if t = ''add_scalar'' then CHR ''+'' else if t = ''sub_scalar'' then CHR ''-''
            else if t = ''mul_scalar'' then CHR ''*'' else CHR ''/'') v)))))
     else Ok None)"

subsection \<open>Unary functions\<close>

definition cell_neg :: "cell \<Rightarrow> cell" where
  "cell_neg = lift1 uminus uminus fneg"

definition cell_abs :: "cell \<Rightarrow> cell" where
  "cell_abs = lift1 (\<lambda>x. if sint x < 0 then - x else x) (\<lambda>x. if sint x < 0 then - x else x)
    (\<lambda>x. if flt_lt x (Fin 0) then fneg x else x)"

definition cell_square :: "cell \<Rightarrow> cell" where
  "cell_square = lift1 (\<lambda>x. x * x) (\<lambda>x. x * x) (\<lambda>x. fmul x x)"

definition Unary_kernel :: "string \<Rightarrow> Tensor \<Rightarrow> Tensor res" where
  "Unary_kernel knd a =
    (if knd = ''neg'' then elementwise_unary a (t_dtype a) cell_neg
     else if knd = ''abs'' then elementwise_unary a (t_dtype a) cell_abs
     else if knd = ''square'' then elementwise_unary a (t_dtype a) cell_square
     else if knd = ''sqrt'' then elementwise_unary a kFloat64 (\<lambda>x. CF64 (fsqrt (cell_flt x)))
     else if knd = ''exp'' then elementwise_unary a kFloat64 (\<lambda>x. CF64 (fexp (cell_flt x)))
     else if knd = ''log'' then elementwise_unary a kFloat64 (\<lambda>x. CF64 (flog (cell_flt x)))
     else Throw (RuntimeError (''unary op: unknown kind '' @ quoted knd)))"

definition create_unary_op :: "OpSpec \<Rightarrow> TensorOp option res" where
  "create_unary_op spec =
    (let t = os_type spec in
     if t \<in> set [''neg'', ''abs'', ''square'', ''sqrt'', ''exp'', ''log'']
     then Ok (Some (UnaryOp \<lparr>ob_type = t, ob_inputs = os_inputs spec, ob_outputs = os_outputs spec\<rparr> t))
     else Ok None)"

subsection \<open>Comparisons\<close>

fun cell_lt :: "cell \<Rightarrow> cell \<Rightarrow> bool" where
  "cell_lt (CI32 x) (CI32 y) = (sint x < sint y)"
| "cell_lt (CI64 x) (CI64 y) = (sint x < sint y)"
| "cell_lt (CF32 x) (CF32 y) = flt_lt x y"
| "cell_lt (CF64 x) (CF64 y) = flt_lt x y"
| "cell_lt _ _ = False"

fun cell_eq :: "cell \<Rightarrow> cell \<Rightarrow> bool" where
  "cell_eq (CI32 x) (CI32 y) = (x = y)"
| "cell_eq (CI64 x) (CI64 y) = (x = y)"
| "cell_eq (CF32 x) (CF32 y) = flt_eq x y"
| "cell_eq (CF64 x) (CF64 y) = flt_eq x y"
| "cell_eq _ _ = False"

definition cmp :: "string \<Rightarrow> cell \<Rightarrow> cell \<Rightarrow> cell" where
  "cmp knd x y = CI64 (of_bool
    (if knd = ''gt'' then cell_lt y x
     else if knd = ''ge'' then cell_lt y x \<or> cell_eq x y
     else if knd = ''lt'' then cell_lt x y
     else if knd = ''le'' then cell_lt x y \<or> cell_eq x y
     else if knd = ''eq'' then cell_eq x y
     else \<not> cell_eq x y))"

definition Compare_kernel :: "string \<Rightarrow> Tensor \<Rightarrow> Tensor \<Rightarrow> Tensor res" where
  "Compare_kernel knd a b =
    (if t_size a \<noteq> t_size b
     then Throw (RuntimeError (''compare: length mismatch ('' @ nat_to_string (t_size a) @ '' vs ''
            @ nat_to_string (t_size b) @ '')''))
     else let n = t_size a; d = promote (t_dtype a) (t_dtype b) in
       for_each_scalar_type d
         (bindR (as_dtype a d) (\<lambda>ra. bindR (as_dtype b d) (\<lambda>rb.
          bindR (data_as d n ra) (\<lambda>pa. bindR (data_as d n rb) (\<lambda>pb.
          Ok (tresize n (put_cells (map2 (cmp knd) pa pb) (Tensor_new kInt64 n)))))))))"

text \<open>The kind of a scalar comparison is the op type, with its suffix.\<close>

definition cmp_scalar :: "string \<Rightarrow> cell \<Rightarrow> cell \<Rightarrow> cell" where
  "cmp_scalar knd x s = CI64 (of_bool
    (if knd = ''gt_scalar'' then cell_lt s x
     else if knd = ''ge_scalar'' then cell_lt s x \<or> cell_eq x s
     else if knd = ''lt_scalar'' then cell_lt x s
     else if knd = ''le_scalar'' then cell_lt x s \<or> cell_eq x s
     else if knd = ''eq_scalar'' then cell_eq x s
     else \<not> cell_eq x s))"

definition CompareScalar_kernel :: "string \<Rightarrow> flt \<Rightarrow> Tensor \<Rightarrow> Tensor res" where
  "CompareScalar_kernel knd scalar a =
    (let n = t_size a in
     for_each_scalar_type (t_dtype a)
       (bindR (data_as (t_dtype a) n a) (\<lambda>pa.
        let s = cell_of_flt (t_dtype a) scalar in
        Ok (tresize n (put_cells (map (\<lambda>x. cmp_scalar knd x s) pa) (Tensor_new kInt64 n))))))"

definition create_compare_op :: "OpSpec \<Rightarrow> TensorOp option res" where
  "create_compare_op spec =
    (let t = os_type spec; base = \<lparr>ob_type = t, ob_inputs = os_inputs spec, ob_outputs = os_outputs spec\<rparr> in
     if t \<in> set [''gt'', ''ge'', ''lt'', ''le'', ''eq'', ''neq''] then Ok (Some (CompareOp base t))
     else if t \<in> set [''gt_scalar'', ''ge_scalar'', ''lt_scalar'', ''le_scalar'', ''eq_scalar'', ''neq_scalar'']
     then (if \<not> has_attr spec ''scalar''
       then Throw (InvalidArgument (''scalar compare '' @ quoted t @ '' requires attr '' @ quoted ''scalar''))
       else bindR (attrs_at (os_attrs spec) ''scalar'') (\<lambda>s. bindR (ParseScalar s) (\<lambda>v.
         Ok (Some (CompareScalarOp base t v)))))
     else Ok None)"

subsection \<open>Reductions\<close>

fun cell_i64 :: "cell \<Rightarrow> 64 word" where
  "cell_i64 (CI32 w) = int_cast w"
| "cell_i64 (CI64 w) = w"
| "cell_i64 _ = 0"

definition tensor_sum :: "Tensor \<Rightarrow> flt res" where
  "tensor_sum a =
    (if t_dtype a = kQ8_0 then Throw (RuntimeError ''reduce: unsupported dtype'')
     else bindR (data_as (t_dtype a) (t_size a) a) (\<lambda>p.
       Ok (if is_int (t_dtype a) then int_to_flt (fold (\<lambda>c s. s + cell_i64 c) p 0)
           else fold (\<lambda>c s. fadd s (cell_flt c)) p (Fin 0))))"

definition reduce_to_scalar :: "DType \<Rightarrow> flt \<Rightarrow> Tensor res" where
  "reduce_to_scalar out_dtype value =
    for_each_scalar_type out_dtype
      (Ok (tresize 1 (put_cells [cell_of_flt out_dtype value] (Tensor_new out_dtype 1))))"

definition reduce_minmax :: "Tensor \<Rightarrow> bool \<Rightarrow> Tensor res" where
  "reduce_minmax a want_max =
    (let n = t_size a in
     for_each_scalar_type (t_dtype a)
       (if n = 0
        then Ok (tresize 1 (put_cells [cell_of_flt (t_dtype a) (Fin 0)] (Tensor_new (t_dtype a) 1)))
        else bindR (data_as (t_dtype a) n a) (\<lambda>p.
          let acc = fold (\<lambda>x acc. if (if want_max then cell_lt acc x else cell_lt x acc) then x else acc)
                      (tl p) (hd p)
          in Ok (tresize 1 (put_cells [acc] (Tensor_new (t_dtype a) 1))))))"

definition tensor_mean :: "Tensor \<Rightarrow> flt res" where
  "tensor_mean a =
    (if t_size a = 0 then Ok (Fin 0)
     else bindR (tensor_sum a) (\<lambda>s. Ok (fdiv s (Fin (real (t_size a))))))"

definition Reduce_kernel :: "string \<Rightarrow> Tensor \<Rightarrow> Tensor res" where
  "Reduce_kernel knd a =
    (if knd = ''sum'' then bindR (tensor_sum a) (reduce_to_scalar kFloat64)
     else if knd = ''mean'' then bindR (tensor_mean a) (reduce_to_scalar kFloat64)
     else if knd = ''count'' then reduce_to_scalar kInt64 (Fin (real (t_size a)))
     else if knd = ''max'' then reduce_minmax a True
     else if knd = ''min'' then reduce_minmax a False
     else if knd = ''stddev'' then
       bindR (tensor_mean a) (\<lambda>mean.
       bindR (data_as (t_dtype a) (t_size a) a) (\<lambda>p.
         let sq = fold (\<lambda>c sq. let d = fsub (cell_flt c) mean in fadd sq (fmul d d)) p (Fin 0) in
         reduce_to_scalar kFloat64
           (if t_size a = 0 then Fin 0 else fsqrt (fdiv sq (Fin (real (t_size a)))))))
     else Throw (RuntimeError (''reduce op: unknown kind '' @ quoted knd)))"

definition create_reduce_op :: "OpSpec \<Rightarrow> TensorOp option res" where
  "create_reduce_op spec =
    (let t = os_type spec in
     if t \<in> set [''sum'', ''mean'', ''count'', ''max'', ''min'', ''stddev'']
     then Ok (Some (ReduceOp \<lparr>ob_type = t, ob_inputs = os_inputs spec, ob_outputs = os_outputs spec\<rparr> t))
     else Ok None)"

subsection \<open>Special ops\<close>

fun mask_on :: "cell \<Rightarrow> bool" where
  "mask_on (CI64 w) = (w \<noteq> 0)"
| "mask_on _ = False"

definition Select_kernel :: "Tensor \<Rightarrow> Tensor \<Rightarrow> Tensor \<Rightarrow> Tensor res" where
  "Select_kernel msk a b =
    (if t_dtype msk \<noteq> kInt64 then Throw (RuntimeError ''select: mask must be int64'')
     else let n = t_size a in
       if t_size msk \<noteq> n \<or> t_size b \<noteq> n then Throw (RuntimeError ''select: length mismatch'')
       else let out = promote (t_dtype a) (t_dtype b) in
         bindR (data_as kInt64 n msk) (\<lambda>m.
         for_each_scalar_type out
           (bindR (as_dtype a out) (\<lambda>ra. bindR (as_dtype b out) (\<lambda>rb.
            bindR (data_as out n ra) (\<lambda>pa. bindR (data_as out n rb) (\<lambda>pb.
            Ok (tresize n (put_cells (map2 (\<lambda>c (x, y). if mask_on c then x else y) m (zip pa pb))
                  (Tensor_new out n)))))))))) "

definition Filter_kernel :: "Tensor \<Rightarrow> Tensor \<Rightarrow> Tensor res" where
  "Filter_kernel data msk =
    (if t_dtype msk \<noteq> kInt64 then Throw (RuntimeError ''filter: mask must be int64'')
     else if t_size msk \<noteq> t_size data then Throw (RuntimeError ''filter: mask length mismatch'')
     else if is_quantized (t_dtype data) then Throw (RuntimeError ''filter: cannot filter a quantized tensor'')
     else let n = t_size data in
       bindR (data_as kInt64 n msk) (\<lambda>m.
       bindR (data_as (t_dtype data) n data) (\<lambda>src.
         let keep = length (filter mask_on m);
             kept = map snd (filter (\<lambda>(c, x). mask_on c) (zip m src))
         in Ok (tresize keep (put_cells kept (Tensor_new (t_dtype data) keep))))))"

definition Quantize_kernel :: "Tensor \<Rightarrow> Tensor res" where
  "Quantize_kernel a =
    (if \<not> is_float (t_dtype a) then Throw (RuntimeError ''quantize: input must be a float tensor'')
     else quantize_q8_0 a)"

definition Dequantize_kernel :: "Tensor \<Rightarrow> Tensor res" where
  "Dequantize_kernel a =
    (if \<not> is_quantized (t_dtype a) then Throw (RuntimeError ''dequantize: input must be a q8_0 tensor'')
     else dequantize a)"

definition DotQ8_kernel :: "Tensor \<Rightarrow> Tensor \<Rightarrow> Tensor res" where
  "DotQ8_kernel a b =
    (if \<not> is_quantized (t_dtype a) \<or> \<not> is_quantized (t_dtype b)
     then Throw (RuntimeError ''dot: both inputs must be q8_0 tensors'')
     else bindR (dot_q8_0 a b) (\<lambda>v. Ok (tresize 1 (put_cells [CF64 v] (Tensor_new kFloat64 1)))))"

fun const_values :: "string \<Rightarrow> string \<Rightarrow> flt list res" where
  "const_values [] cur = bindR (str_stod cur) (\<lambda>v. Ok [v])"
| "const_values (c # cs) cur =
    (if c = CHR '','' then bindR (str_stod cur) (\<lambda>v. bindR (const_values cs []) (\<lambda>vs. Ok (v # vs)))
     else const_values cs (cur @ [c]))"

definition BuildConst :: "string \<Rightarrow> DType \<Rightarrow> nat \<Rightarrow> Tensor res" where
  "BuildConst value_str dtype n =
    (if CHR '','' \<notin> set value_str then bindR (str_stod value_str) (\<lambda>v. full n v dtype)
     else bindR (const_values value_str []) (\<lambda>vs.
       for_each_scalar_type dtype
         (Ok (tresize (length vs) (put_cells (map (cell_of_flt dtype) vs) (Tensor_new dtype (length vs)))))))"

definition Const_kernel :: "(string \<times> string) list \<Rightarrow> Tensor res" where
  "Const_kernel attrs =
    bindR (attrs_at attrs ''value'') (\<lambda>value_str.
    bindR (parse_dtype (case map_of attrs ''dtype'' of None \<Rightarrow> ''float64'' | Some d \<Rightarrow> d)) (\<lambda>dtype.
    bindR (str_stoull (case map_of attrs ''size'' of None \<Rightarrow> ''1'' | Some s \<Rightarrow> s)) (\<lambda>n.
    BuildConst value_str dtype n)))"

definition create_special_op :: "OpSpec \<Rightarrow> TensorOp option res" where
  "create_special_op spec =
    (let t = os_type spec; base = \<lparr>ob_type = t, ob_inputs = os_inputs spec, ob_outputs = os_outputs spec\<rparr> in
     if t = ''select'' then
       (if length (os_inputs spec) \<noteq> 3 then Throw (InvalidArgument ''select requires 3 inputs (mask,a,b)'')
        else Ok (Some (SelectOp base)))
     else if t = ''filter'' then
       (if length (os_inputs spec) \<noteq> 2 then Throw (InvalidArgument ''filter requires 2 inputs (data,mask)'')
        else Ok (Some (FilterOp base)))
     else if t = ''cast'' then
       (if \<not> has_attr spec ''dtype''
        then Throw (InvalidArgument (''cast requires attr '' @ quoted ''dtype''))
        else bindR (attrs_at (os_attrs spec) ''dtype'') (\<lambda>s. bindR (parse_dtype s) (\<lambda>d.
          Ok (Some (CastOp base d)))))
     else if t = ''quantize'' then Ok (Some (QuantizeOp base))
     else if t = ''dequantize'' then Ok (Some (DequantizeOp base))
     else if t = ''dot'' then Ok (Some (DotQ8Op base))
     else if t = ''const'' then
       (if \<not> has_attr spec ''value''
        then Throw (InvalidArgument (''const requires attr '' @ quoted ''value''))
        else Ok (Some (ConstOp base (os_attrs spec))))
     else if t = ''identity'' then Ok (Some (IdentityOp base))
     else Ok None)"

subsection \<open>The factory and \<^verbatim>\<open>compute\<close>\<close>

definition try_create :: "TensorOp option res \<Rightarrow> TensorOp res \<Rightarrow> TensorOp res" where
  "try_create r rest = bindR r (\<lambda>x. case x of None \<Rightarrow> rest | Some op \<Rightarrow> Ok op)"

definition create_op :: "OpSpec \<Rightarrow> TensorOp res" where
  "create_op spec =
    try_create (create_binary_op spec)
    (try_create (create_unary_op spec)
    (try_create (create_reduce_op spec)
    (try_create (create_compare_op spec)
    (try_create (create_special_op spec)
    (Throw (InvalidArgument (''create_op: unknown op type '' @ quoted (os_type spec))))))))"

fun op_arity :: "TensorOp \<Rightarrow> nat" where
  "op_arity (BinaryArithOp _ _) = 2"
| "op_arity (CompareOp _ _) = 2"
| "op_arity (SelectOp _) = 3"
| "op_arity (FilterOp _) = 2"
| "op_arity (DotQ8Op _) = 2"
| "op_arity (ConstOp _ _) = 0"
| "op_arity _ = 1"

text \<open>The inputs an op reads, as the arguments of its kernel.\<close>

definition arg1 :: "(Tensor \<Rightarrow> Tensor res) \<Rightarrow> Tensor list \<Rightarrow> Tensor res" where
  "arg1 f ts = (if length ts = 1 then f (ts ! 0) else Throw (Undefined ''vector index out of range''))"

definition arg2 :: "(Tensor \<Rightarrow> Tensor \<Rightarrow> Tensor res) \<Rightarrow> Tensor list \<Rightarrow> Tensor res" where
  "arg2 f ts = (if length ts = 2 then f (ts ! 0) (ts ! 1) else Throw (Undefined ''vector index out of range''))"

definition arg3 :: "(Tensor \<Rightarrow> Tensor \<Rightarrow> Tensor \<Rightarrow> Tensor res) \<Rightarrow> Tensor list \<Rightarrow> Tensor res" where
  "arg3 f ts =
    (if length ts = 3 then f (ts ! 0) (ts ! 1) (ts ! 2) else Throw (Undefined ''vector index out of range''))"

primrec op_kernel :: "TensorOp \<Rightarrow> Tensor list \<Rightarrow> Tensor res" where
  "op_kernel (BinaryArithOp b op) ts = arg2 (BinaryArith_kernel op) ts"
| "op_kernel (ScalarArithOp b op s) ts = arg1 (ScalarArith_kernel op s) ts"
| "op_kernel (UnaryOp b knd) ts = arg1 (Unary_kernel knd) ts"
| "op_kernel (CompareOp b knd) ts = arg2 (Compare_kernel knd) ts"
| "op_kernel (CompareScalarOp b knd s) ts = arg1 (CompareScalar_kernel knd s) ts"
| "op_kernel (ReduceOp b knd) ts = arg1 (Reduce_kernel knd) ts"
| "op_kernel (SelectOp b) ts = arg3 Select_kernel ts"
| "op_kernel (FilterOp b) ts = arg2 Filter_kernel ts"
| "op_kernel (CastOp b d) ts = arg1 (\<lambda>a. cast_tensor a d) ts"
| "op_kernel (QuantizeOp b) ts = arg1 Quantize_kernel ts"
| "op_kernel (DequantizeOp b) ts = arg1 Dequantize_kernel ts"
| "op_kernel (DotQ8Op b) ts = arg2 DotQ8_kernel ts"
| "op_kernel (ConstOp b attrs) ts = Const_kernel attrs"
| "op_kernel (IdentityOp b) ts = arg1 (\<lambda>a. Ok (clone a)) ts"

fun op_inputs_from :: "string list \<Rightarrow> nat list \<Rightarrow> TensorStore \<Rightarrow> Tensor list res" where
  "op_inputs_from inputs [] store = Ok []"
| "op_inputs_from inputs (i # is) store =
    bindR (op_input inputs i store) (\<lambda>t. bindR (op_inputs_from inputs is store) (\<lambda>ts. Ok (t # ts)))"

definition TensorOp_compute :: "TensorOp \<Rightarrow> TensorStore \<Rightarrow> TensorStore res" where
  "TensorOp_compute op store =
    (let inputs = ob_inputs (op_base op); outputs = ob_outputs (op_base op);
         run = bindR (op_inputs_from inputs [0..<op_arity op] store) (\<lambda>ts.
                 bindR (op_kernel op ts) (\<lambda>r. op_set outputs r store))
     in case op of
          IdentityOp _ \<Rightarrow>
            bindR (name_at inputs 0) (\<lambda>i. bindR (name_at outputs 0) (\<lambda>out.
              if i = out then Ok store else run))
        | _ \<Rightarrow> run)"

end
