(* ===== verification/OpTypes.thy ===== *)
theory OpTypes
  imports Ops
begin

text \<open>
  The types of the built-in ops: \<^verbatim>\<open>op_dtype\<close> and \<^verbatim>\<open>op_len\<close> predict the element type and the length of an op's
  result from those of its inputs, \<^verbatim>\<open>accepts\<close> says for which input types the computation is defined, and the
  typing theorem of \<^verbatim>\<open>TensorOp_compute\<close> rests on one lemma per kernel.
\<close>

section \<open>Static types\<close>

definition mixed_ok :: "DType \<Rightarrow> DType \<Rightarrow> bool" where
  "mixed_ok d e = (d \<noteq> kQ8_0 \<and> e \<noteq> kQ8_0 \<or> promote d e \<in> {kFloat64, kQ8_0})"

fun accepts :: "TensorOp \<Rightarrow> DType list \<Rightarrow> bool" where
  "accepts (BinaryArithOp _ op) ds = (op = CHR ''/'' \<or> mixed_ok (ds ! 0) (ds ! 1))"
| "accepts (CompareOp _ _) ds = mixed_ok (ds ! 0) (ds ! 1)"
| "accepts (SelectOp _) ds = mixed_ok (ds ! 1) (ds ! 2)"
| "accepts _ ds = True"

definition const_dtype :: "(string \<times> string) list \<Rightarrow> DType" where
  "const_dtype attrs =
    (case parse_dtype (case map_of attrs ''dtype'' of None \<Rightarrow> ''float64'' | Some d \<Rightarrow> d) of
       Inl _ \<Rightarrow> kFloat64 | Inr d \<Rightarrow> d)"

fun op_dtype :: "TensorOp \<Rightarrow> DType list \<Rightarrow> DType" where
  "op_dtype (BinaryArithOp _ op) ds = (if op = CHR ''/'' then kFloat64 else promote (ds ! 0) (ds ! 1))"
| "op_dtype (ScalarArithOp _ op _) ds = (if op \<in> set ''+-*'' then ds ! 0 else kFloat64)"
| "op_dtype (UnaryOp _ k) ds = (if k \<in> set [''neg'', ''abs'', ''square''] then ds ! 0 else kFloat64)"
| "op_dtype (CompareOp _ _) ds = kInt64"
| "op_dtype (CompareScalarOp _ _ _) ds = kInt64"
| "op_dtype (ReduceOp _ k) ds =
    (if k = ''count'' then kInt64 else if k \<in> set [''max'', ''min''] then ds ! 0 else kFloat64)"
| "op_dtype (SelectOp _) ds = promote (ds ! 1) (ds ! 2)"
| "op_dtype (FilterOp _) ds = ds ! 0"
| "op_dtype (CastOp _ d) ds = (if ds ! 0 = kQ8_0 \<and> d \<noteq> kQ8_0 then kFloat64 else d)"
| "op_dtype (QuantizeOp _) ds = kQ8_0"
| "op_dtype (DequantizeOp _) ds = kFloat64"
| "op_dtype (DotQ8Op _) ds = kFloat64"
| "op_dtype (ConstOp _ attrs) ds = const_dtype attrs"
| "op_dtype (IdentityOp _) ds = ds ! 0"

fun op_len :: "TensorOp \<Rightarrow> nat list \<Rightarrow> nat option" where
  "op_len (ReduceOp _ _) ns = Some 1"
| "op_len (DotQ8Op _) ns = Some 1"
| "op_len (SelectOp _) ns = Some (ns ! 1)"
| "op_len (FilterOp _) ns = None"
| "op_len (ConstOp _ _) ns = None"
| "op_len _ ns = Some (ns ! 0)"

definition typed_result :: "DType \<Rightarrow> nat option \<Rightarrow> Tensor res \<Rightarrow> bool" where
  "typed_result d len r =
    (case r of
       Inl e \<Rightarrow> \<forall>m. e \<noteq> Undefined m
     | Inr t \<Rightarrow> tensor_ok t \<and> t_dtype t = d \<and> (\<forall>n. len = Some n \<longrightarrow> t_size t = n))"

lemma typed_result_Ok [simp]:
  "typed_result d len (Inr t) \<longleftrightarrow> tensor_ok t \<and> t_dtype t = d \<and> (\<forall>n. len = Some n \<longrightarrow> t_size t = n)"
  by (simp add: typed_result_def)

lemma typed_result_Throw [simp]:
  "typed_result d len (Throw (RuntimeError m))"
  "typed_result d len (Throw (InvalidArgument m))"
  "typed_result d len (Throw (OutOfRange m))"
  by (simp_all add: typed_result_def)

section \<open>One lemma per kernel\<close>

lemma unary_typed:
  assumes "tensor_ok a" "out = kQ8_0 \<Longrightarrow> t_dtype a = kQ8_0" "castable (t_dtype a) out \<or> out = kQ8_0" "typed1 fn out"
  shows "typed_result out (Some (t_size a)) (elementwise_unary a out fn)"
proof (cases "out = kQ8_0")
  case True
  then show ?thesis
    using assms(2) by (simp add: elementwise_unary_def Let_def as_dtype_def for_each_scalar_type_def)
next
  case False
  then obtain r where "elementwise_unary a out fn = Ok r" "tensor_ok r" "t_dtype r = out" "t_size r = t_size a"
    using elementwise_unary_ok [OF assms(1) False _ assms(4)] assms(3) by metis
  then show ?thesis by simp
qed

lemma binary_typed:
  assumes "tensor_ok a" "tensor_ok b" "typed2 fn out"
    and "castable (t_dtype a) out \<and> castable (t_dtype b) out \<and> out \<noteq> kQ8_0 \<or>
      out = kQ8_0 \<and> t_dtype a = kQ8_0 \<and> t_dtype b = kQ8_0"
  shows "typed_result out (Some (t_size a)) (elementwise_binary a b out fn)"
proof (cases "t_size a = t_size b")
  case False
  then show ?thesis using elementwise_binary_mismatch [of a b out fn] by auto
next
  case len: True
  show ?thesis
  proof (cases "out = kQ8_0")
    case True
    then show ?thesis
      using assms(4) len by (simp add: elementwise_binary_def Let_def as_dtype_def for_each_scalar_type_def)
  next
    case False
    then obtain r where "elementwise_binary a b out fn = Ok r" "tensor_ok r" "t_dtype r = out" "t_size r = t_size a"
      using elementwise_binary_ok [OF assms(1,2) len False _ _ assms(3)] assms(4) by metis
    then show ?thesis by simp
  qed
qed

lemma mixed_ok_castable:
  assumes "mixed_ok d e"
  shows "castable d (promote d e) \<and> castable e (promote d e) \<and> promote d e \<noteq> kQ8_0 \<or>
    promote d e = kQ8_0 \<and> d = kQ8_0 \<and> e = kQ8_0"
  using assms by (cases d; cases e) (simp_all add: mixed_ok_def castable_def promote_def is_float_def)

lemma castable_float64 [simp]: "castable d kFloat64"
  by (simp add: castable_def)

lemma castable_self: "castable d d \<or> d = kQ8_0"
  by (auto simp: castable_def)

lemma typed_arith [simp]:
  "typed2 cell_add t" "typed2 cell_sub t" "typed2 cell_mul t" "typed2 cell_div kFloat64"
  "typed1 cell_neg t" "typed1 cell_abs t" "typed1 cell_square t"
  by (simp_all add: cell_add_def cell_sub_def cell_mul_def cell_neg_def cell_abs_def cell_square_def
      cell_div_def typed2_def [of _ kFloat64])

lemma typed_float64 [simp]: "typed1 (\<lambda>x. CF64 (f x)) kFloat64"
  by (simp add: typed1_def)

lemma cmp_type [simp]: "cell_type (cmp k x y) = kInt64" "cell_type (cmp_scalar k x y) = kInt64"
  by (simp_all add: cmp_def cmp_scalar_def)

lemma BinaryArith_typed:
  assumes "tensor_ok a" "tensor_ok b" "op = CHR ''/'' \<or> mixed_ok (t_dtype a) (t_dtype b)"
  shows "typed_result (if op = CHR ''/'' then kFloat64 else promote (t_dtype a) (t_dtype b)) (Some (t_size a))
    (BinaryArith_kernel op a b)"
  using assms(3) mixed_ok_castable [of "t_dtype a" "t_dtype b"]
  by (auto simp: BinaryArith_kernel_def Let_def intro!: binary_typed [OF assms(1,2)])

lemma promote_scalar_id [simp]: "promote_scalar d = d"
  by (simp add: promote_scalar_def)

lemma ScalarArith_typed:
  assumes "tensor_ok a"
  shows "typed_result (if op \<in> set ''+-*'' then t_dtype a else kFloat64) (Some (t_size a))
    (ScalarArith_kernel op s a)"
  using castable_self [of "t_dtype a"]
  by (auto simp: ScalarArith_kernel_def Let_def elementwise_scalar_unary
      intro!: unary_typed [OF assms] typed1_partial)

lemma Unary_typed:
  assumes "tensor_ok a"
  shows "typed_result (if k \<in> set [''neg'', ''abs'', ''square''] then t_dtype a else kFloat64) (Some (t_size a))
    (Unary_kernel k a)"
proof -
  have same: "typed_result (t_dtype a) (Some (t_size a)) (elementwise_unary a (t_dtype a) fn)"
    if "typed1 fn (t_dtype a)" for fn
    using that castable_self by (intro unary_typed [OF assms]) auto
  have double: "typed_result kFloat64 (Some (t_size a)) (elementwise_unary a kFloat64 fn)"
    if "typed1 fn kFloat64" for fn
    using that by (intro unary_typed [OF assms]) auto
  show ?thesis by (simp add: Unary_kernel_def same double)
qed

lemma fill_typed:
  assumes "length cs = n" "out \<noteq> kQ8_0" "\<And>c. c \<in> set cs \<Longrightarrow> cell_type c = out" "\<And>m. len = Some m \<Longrightarrow> m = n"
  shows "typed_result out len (Ok (tresize n (put_cells cs (Tensor_new out n))))"
  using assms fill_new [of cs out n] by (auto simp: list_all_iff cell_ok_scalar)

lemma fill_one:
  "d \<noteq> kQ8_0 \<Longrightarrow> cell_type c = d \<Longrightarrow> typed_result d (Some 1) (Ok (tresize 1 (put_cells [c] (Tensor_new d 1))))"
  by (rule fill_typed) auto

lemma bind_typed:
  assumes "\<And>x. m = Inr x \<Longrightarrow> typed_result d len (f x)" "\<And>e. m = Inl e \<Longrightarrow> typed_result d len (Inl e)"
  shows "typed_result d len (bindR m f)"
  using assms by (cases m) auto

text \<open>Both operands converted to the common type and read: the part the comparison and selection share.\<close>

lemma common_operands:
  assumes "tensor_ok a" "tensor_ok b" "t_size a = t_size b" "mixed_ok (t_dtype a) (t_dtype b)"
    and d: "d = promote (t_dtype a) (t_dtype b)" "d \<noteq> kQ8_0"
  obtains ra rb pa pb where "as_dtype a d = Ok ra" "as_dtype b d = Ok rb"
    "data_as d (t_size a) ra = Ok pa" "data_as d (t_size a) rb = Ok pb"
    "length pa = t_size a" "length pb = t_size a"
    "list_all (\<lambda>c. cell_type c = d) pa" "list_all (\<lambda>c. cell_type c = d) pb"
    "t_dtype a \<noteq> kQ8_0 \<Longrightarrow> pa = map (cast_cell d) (elems a)"
    "t_dtype b \<noteq> kQ8_0 \<Longrightarrow> pb = map (cast_cell d) (elems b)"
proof -
  have c: "castable (t_dtype a) d" "castable (t_dtype b) d"
    using mixed_ok_castable [OF assms(4)] d by auto
  obtain ra where ra: "as_dtype a d = Ok ra" "tensor_ok ra" "t_dtype ra = d" "t_size ra = t_size a"
    "t_dtype a \<noteq> kQ8_0 \<Longrightarrow> elems ra = map (cast_cell d) (elems a)"
    using as_dtype_ok [OF assms(1) d(2) c(1)] by metis
  obtain rb where rb: "as_dtype b d = Ok rb" "tensor_ok rb" "t_dtype rb = d" "t_size rb = t_size b"
    "t_dtype b \<noteq> kQ8_0 \<Longrightarrow> elems rb = map (cast_cell d) (elems b)"
    using as_dtype_ok [OF assms(2) d(2) c(2)] by metis
  have ty: "list_all (\<lambda>c. cell_type c = d) (elems ra)" "list_all (\<lambda>c. cell_type c = d) (elems rb)"
    using elems_type [OF ra(2)] elems_type [OF rb(2)] ra(3) rb(3) by (auto simp: list_all_iff)
  show ?thesis
    using ra rb ty length_elems [OF ra(2)] length_elems [OF rb(2)] assms(3) d(2)
      data_as_fill [OF ra(2-4)] data_as_fill [OF rb(2,3)]
    by (intro that [of ra rb "elems ra" "elems rb"]) simp_all
qed

lemma Compare_typed:
  assumes "tensor_ok a" "tensor_ok b" "mixed_ok (t_dtype a) (t_dtype b)"
  shows "typed_result kInt64 (Some (t_size a)) (Compare_kernel k a b)"
proof -
  let ?d = "promote (t_dtype a) (t_dtype b)"
  show ?thesis
  proof (cases "t_size a = t_size b \<and> ?d \<noteq> kQ8_0")
    case True
    then obtain ra rb pa pb where "as_dtype a ?d = Ok ra" "as_dtype b ?d = Ok rb"
      "data_as ?d (t_size a) ra = Ok pa" "data_as ?d (t_size a) rb = Ok pb"
      "length pa = t_size a" "length pb = t_size a"
      using common_operands [OF assms(1,2) _ assms(3) refl] by metis
    then have "Compare_kernel k a b =
        Ok (tresize (t_size a) (put_cells (map2 (cmp k) pa pb) (Tensor_new kInt64 (t_size a))))"
      "length (map2 (cmp k) pa pb) = t_size a"
      using True by (simp_all add: Compare_kernel_def Let_def for_each_scalar_type_def)
    then show ?thesis by (simp only:) (rule fill_typed, auto)
  qed (auto simp: Compare_kernel_def for_each_scalar_type_def Let_def)
qed

lemma CompareScalar_typed:
  assumes "tensor_ok a"
  shows "typed_result kInt64 (Some (t_size a)) (CompareScalar_kernel k s a)"
proof (cases "t_dtype a = kQ8_0")
  case False
  then have "CompareScalar_kernel k s a = Ok (tresize (t_size a)
      (put_cells (map (\<lambda>x. cmp_scalar k x (cell_of_flt (t_dtype a) s)) (elems a)) (Tensor_new kInt64 (t_size a))))"
    by (simp add: CompareScalar_kernel_def Let_def for_each_scalar_type_def data_as_ok [OF assms])
  then show ?thesis
    using length_elems [OF assms] False by (simp only:) (rule fill_typed, auto)
qed (simp add: CompareScalar_kernel_def for_each_scalar_type_def Let_def)

lemma reduce_to_scalar_typed: "d \<noteq> kQ8_0 \<Longrightarrow> typed_result d (Some 1) (reduce_to_scalar d v)"
  using fill_one [of d "cell_of_flt d v"] by (simp add: reduce_to_scalar_def for_each_scalar_type_def)

lemma tensor_sum_defined: "tensor_ok a \<Longrightarrow> tensor_sum a = Inl e \<Longrightarrow> typed_result d len (Inl e)"
  by (auto simp: tensor_sum_def data_as_ok split: if_splits)

lemma tensor_mean_defined: "tensor_ok a \<Longrightarrow> tensor_mean a = Inl e \<Longrightarrow> typed_result d len (Inl e)"
  by (auto simp: tensor_mean_def bindR_Inl_iff dest: tensor_sum_defined split: if_splits)

lemma minmax_member:
  "fold (\<lambda>x acc. if p acc x then x else acc) xs a \<in> insert a (set xs)"
  by (induction xs arbitrary: a) (auto split: if_splits)

lemma reduce_minmax_typed:
  assumes "tensor_ok a"
  shows "typed_result (t_dtype a) (Some 1) (reduce_minmax a w)"
proof (cases "t_dtype a = kQ8_0 \<or> t_size a = 0")
  case False
  then have e: "elems a \<noteq> []" using length_elems [OF assms] by auto
  let ?p = "\<lambda>acc x. if w then cell_lt acc x else cell_lt x acc"
  let ?acc = "fold (\<lambda>x acc. if ?p acc x then x else acc) (tl (elems a)) (hd (elems a))"
  have "?acc \<in> set (elems a)"
    using minmax_member [of ?p "tl (elems a)" "hd (elems a)"] e by (cases "elems a") auto
  then have "cell_type ?acc = t_dtype a" using elems_type [OF assms] by blast
  then show ?thesis
    using False fill_one [of "t_dtype a" ?acc]
    by (simp add: reduce_minmax_def Let_def for_each_scalar_type_def data_as_ok [OF assms])
next
  case True
  then show ?thesis
    using fill_one [of "t_dtype a" "cell_of_flt (t_dtype a) (Fin 0)"]
    by (auto simp: reduce_minmax_def Let_def for_each_scalar_type_def)
qed

lemma Reduce_typed:
  assumes "tensor_ok a"
  shows "typed_result (if k = ''count'' then kInt64 else if k \<in> set [''max'', ''min''] then t_dtype a else kFloat64)
    (Some 1) (Reduce_kernel k a)"
proof -
  have sum: "typed_result kFloat64 (Some 1) (bindR (tensor_sum a) (\<lambda>s. reduce_to_scalar kFloat64 (f s)))" for f
    by (rule bind_typed, rule reduce_to_scalar_typed, simp, erule tensor_sum_defined [OF assms])
  have mean: "typed_result kFloat64 (Some 1) (bindR (tensor_mean a) (\<lambda>s. reduce_to_scalar kFloat64 (f s)))" for f
    by (rule bind_typed, rule reduce_to_scalar_typed, simp, erule tensor_mean_defined [OF assms])
  show ?thesis
    using sum [of "\<lambda>s. s"] mean [of "\<lambda>s. s"] mean
    by (simp add: Reduce_kernel_def data_as_ok [OF assms] Let_def
        reduce_to_scalar_typed [unfolded One_nat_def] reduce_minmax_typed [OF assms, unfolded One_nat_def])
qed

lemma Select_typed:
  assumes "tensor_ok m" "tensor_ok a" "tensor_ok b" "mixed_ok (t_dtype a) (t_dtype b)"
  shows "typed_result (promote (t_dtype a) (t_dtype b)) (Some (t_size a)) (Select_kernel m a b)"
proof -
  let ?d = "promote (t_dtype a) (t_dtype b)"
  show ?thesis
  proof (cases "t_dtype m = kInt64 \<and> t_size m = t_size a \<and> t_size b = t_size a")
    case ok: True
    have m: "data_as kInt64 (t_size a) m = Ok (elems m)" "length (elems m) = t_size a"
      using data_as_ok [OF assms(1)] length_elems [OF assms(1)] ok by auto
    show ?thesis
    proof (cases "?d = kQ8_0")
      case False
      then obtain ra rb pa pb where p: "as_dtype a ?d = Ok ra" "as_dtype b ?d = Ok rb"
        "data_as ?d (t_size a) ra = Ok pa" "data_as ?d (t_size a) rb = Ok pb"
        "length pa = t_size a" "length pb = t_size a"
        "list_all (\<lambda>c. cell_type c = ?d) pa" "list_all (\<lambda>c. cell_type c = ?d) pb"
        using common_operands [OF assms(2,3) _ assms(4) refl] ok by metis
      let ?cs = "map2 (\<lambda>c (x, y). if mask_on c then x else y) (elems m) (zip pa pb)"
      have "Select_kernel m a b = Ok (tresize (t_size a) (put_cells ?cs (Tensor_new ?d (t_size a))))"
        using ok m p False by (simp add: Select_kernel_def Let_def for_each_scalar_type_def)
      moreover have "length ?cs = t_size a" using m p by simp
      moreover have "cell_type c = ?d" if mem: "c \<in> set ?cs" for c
      proof -
        obtain k z where kz: "(k, z) \<in> set (zip (elems m) (zip pa pb))" "c = (case z of (x, y) \<Rightarrow> if mask_on k then x else y)"
          using mem by auto
        obtain x y where "z = (x, y)" by force
        with kz have "(x, y) \<in> set (zip pa pb)" "c = (if mask_on k then x else y)"
          using set_zip_rightD [OF kz(1)] by auto
        then show ?thesis
          using p(7,8) set_zip_leftD [of x y pa pb] set_zip_rightD [of x y pa pb] by (auto simp: list_all_iff)
      qed
      ultimately show ?thesis using False by (simp only:) (rule fill_typed, auto)
    qed (use ok m in \<open>simp add: Select_kernel_def Let_def for_each_scalar_type_def\<close>)
  qed (auto simp: Select_kernel_def Let_def)
qed

lemma filter_zip_length:
  "length m = length src \<Longrightarrow> length (filter (\<lambda>(c, x). p c) (zip m src)) = length (filter p m)"
  by (induction m src rule: list_induct2) auto

lemma Filter_eq:
  assumes "tensor_ok data" "tensor_ok m" "t_dtype m = kInt64" "t_size m = t_size data" "t_dtype data \<noteq> kQ8_0"
  defines "kept \<equiv> map snd (filter (\<lambda>(c, x). mask_on c) (zip (elems m) (elems data)))"
  shows "Filter_kernel data m = Ok \<lparr>t_dtype = t_dtype data, t_data = kept,
      t_size = length kept, t_capacity = length kept\<rparr>"
proof -
  have len: "length (elems m) = t_size data" "length (elems data) = t_size data"
    using length_elems [OF assms(1)] length_elems [OF assms(2)] assms(3-5) by auto
  then have "length kept = length (filter mask_on (elems m))"
    by (simp add: kept_def filter_zip_length)
  then show ?thesis
    using assms(3-5) data_as_ok [OF assms(1)] data_as_ok [OF assms(2)]
    by (simp add: Filter_kernel_def is_quantized_def Let_def fill_new kept_def)
qed

lemma Filter_typed:
  assumes "tensor_ok data" "tensor_ok m"
  shows "typed_result (t_dtype data) None (Filter_kernel data m)"
proof (cases "t_dtype m = kInt64 \<and> t_size m = t_size data \<and> t_dtype data \<noteq> kQ8_0")
  case True
  let ?kept = "map snd (filter (\<lambda>(c, x). mask_on c) (zip (elems m) (elems data)))"
  have "cell_type c = t_dtype data" if "c \<in> set ?kept" for c
    using that elems_type [OF assms(1)] by (auto dest: set_zip_rightD)
  then show ?thesis
    using True Filter_eq [OF assms] by (auto simp: list_all_iff cell_ok_scalar)
qed (auto simp: Filter_kernel_def is_quantized_def)

lemma cast_typed:
  assumes "tensor_ok a"
  shows "typed_result (if t_dtype a = kQ8_0 \<and> d \<noteq> kQ8_0 then kFloat64 else d) (Some (t_size a)) (cast_tensor a d)"
proof (cases "t_dtype a = d")
  case True
  then show ?thesis using clone_ok [OF assms] by (simp add: cast_tensor_def)
next
  case neq: False
  show ?thesis
  proof (cases "t_dtype a = kQ8_0")
    case True
    obtain r where "dequantize a = Ok r" "tensor_ok r" "t_dtype r = kFloat64" "t_size r = t_size a"
      using dequantize_ok [OF assms True] .
    then show ?thesis using True neq by (simp add: cast_tensor_def)
  next
    case False
    show ?thesis
    proof (cases "d = kQ8_0")
      case True
      show ?thesis
      proof (cases "is_float (t_dtype a)")
        case isf: True
        obtain q where "quantize_q8_0 a = Ok q" "tensor_ok q" "t_dtype q = kQ8_0" "t_size q = t_size a"
          using quantize_ok [OF isf] .
        then show ?thesis using True False by (simp add: cast_tensor_def)
      qed (use True False in \<open>simp add: cast_tensor_def quantize_q8_0_def\<close>)
    next
      case notq: False
      obtain ra where "as_dtype a d = Ok ra" "tensor_ok ra" "t_dtype ra = d" "t_size ra = t_size a"
        using as_dtype_ok [OF assms notq] False by (metis castable_def)
      then show ?thesis using neq False notq by (simp add: as_dtype_def)
    qed
  qed
qed

lemma const_values_defined: "const_values s cur = Inl e \<Longrightarrow> typed_result d len (Inl e)"
proof (induction s arbitrary: cur)
  case Nil
  then show ?case by (auto simp: bindR_Inl_iff str_stod_def split: option.splits flt.splits if_splits)
next
  case (Cons c s)
  then show ?case
    by (auto simp: bindR_Inl_iff str_stod_def split: option.splits flt.splits if_splits)
qed

lemma parse_dtype_scalar: "parse_dtype s = Ok d \<Longrightarrow> d \<noteq> kQ8_0"
  by (auto simp: parse_dtype_def split: if_splits)

lemma Const_typed: "typed_result (const_dtype attrs) None (Const_kernel attrs)"
proof -
  let ?d = "parse_dtype (case map_of attrs ''dtype'' of None \<Rightarrow> ''float64'' | Some d \<Rightarrow> d)"
  have build: "typed_result d None (BuildConst v d n)" if "d \<noteq> kQ8_0" for v d n
    unfolding BuildConst_def for_each_scalar_type_def
    using that by (auto intro!: bind_typed fill_typed simp: full_eq list_all_iff
        str_stod_def const_values_defined split: option.splits flt.splits if_splits)
  show ?thesis
    unfolding Const_kernel_def
  proof (intro bind_typed)
    fix e assume "attrs_at attrs ''value'' = Inl e"
    then show "typed_result (const_dtype attrs) None (Inl e)"
      by (auto simp: attrs_at_def split: option.splits)
  next
    fix e assume "?d = Inl e"
    then show "typed_result (const_dtype attrs) None (Inl e)"
      by (auto simp: parse_dtype_def split: if_splits)
  next
    fix e assume "str_stoull (case map_of attrs ''size'' of None \<Rightarrow> ''1'' | Some s \<Rightarrow> s) = Inl e"
    then show "typed_result (const_dtype attrs) None (Inl e)"
      by (auto simp: str_stoull_def Let_def split: if_splits)
  next
    fix v d n
    assume "?d = Inr d"
    then have "const_dtype attrs = d" "d \<noteq> kQ8_0"
      using parse_dtype_scalar by (auto simp: const_dtype_def)
    then show "typed_result (const_dtype attrs) None (BuildConst v d n)" using build by simp
  qed
qed

lemma Quantize_typed: "typed_result kQ8_0 (Some (t_size a)) (Quantize_kernel a)"
proof (cases "is_float (t_dtype a)")
  case True
  then obtain q where "quantize_q8_0 a = Ok q" "tensor_ok q" "t_dtype q = kQ8_0" "t_size q = t_size a"
    by (rule quantize_ok)
  then show ?thesis using True by (simp add: Quantize_kernel_def)
qed (simp add: Quantize_kernel_def)

lemma Dequantize_typed:
  assumes "tensor_ok a"
  shows "typed_result kFloat64 (Some (t_size a)) (Dequantize_kernel a)"
proof (cases "t_dtype a = kQ8_0")
  case True
  obtain d where "dequantize a = Ok d" "tensor_ok d" "t_dtype d = kFloat64" "t_size d = t_size a"
    using dequantize_ok [OF assms True] .
  then show ?thesis using True by (simp add: Dequantize_kernel_def is_quantized_def)
qed (simp add: Dequantize_kernel_def is_quantized_def)

lemma Dot_typed: "typed_result kFloat64 (Some 1) (DotQ8_kernel a b)"
proof (cases "is_quantized (t_dtype a) \<and> is_quantized (t_dtype b)")
  case True
  then have eq: "DotQ8_kernel a b = bindR (dot_q8_0 a b) (\<lambda>v. Ok (tresize 1 (put_cells [CF64 v] (Tensor_new kFloat64 1))))"
    by (simp add: DotQ8_kernel_def)
  show ?thesis
    unfolding eq
  proof (rule bind_typed)
    show "typed_result kFloat64 (Some 1) (Ok (tresize 1 (put_cells [CF64 v] (Tensor_new kFloat64 1))))" for v
      by (rule fill_one) simp_all
    show "typed_result kFloat64 (Some 1) (Inl e)" if "dot_q8_0 a b = Inl e" for e
      using that True by (auto simp: dot_q8_0_def is_quantized_def Let_def split: if_splits)
  qed
qed (auto simp: DotQ8_kernel_def)

section \<open>The typing theorem\<close>

lemma op_kernel_typed:
  assumes "length ts = op_arity op" "list_all tensor_ok ts" "accepts op (map t_dtype ts)"
  shows "typed_result (op_dtype op (map t_dtype ts)) (op_len op (map t_size ts)) (op_kernel op ts)"
proof -
  have ok: "i < length ts \<Longrightarrow> tensor_ok (ts ! i)" for i using assms(2) by (simp add: list_all_length)
  show ?thesis
    using assms(1,3)
  proof (cases op)
    case (IdentityOp b)
    then show ?thesis using assms ok [of 0] clone_ok [of "ts ! 0"] by (simp add: arg1_def)
  next
    case (SelectOp b)
    then show ?thesis using assms ok Select_typed [of "ts ! 0" "ts ! 1" "ts ! 2"] by (simp add: arg3_def)
  next
    case (ConstOp b attrs)
    then show ?thesis using Const_typed by simp
  next
    case (ReduceOp b k)
    then show ?thesis using assms Reduce_typed [OF ok [of 0], of k]
      by (simp add: arg1_def split del: if_split cong: if_cong)
  next
    case (UnaryOp b k)
    then show ?thesis using assms Unary_typed [OF ok [of 0], of k] by (simp add: arg1_def split del: if_split cong: if_cong)
  next
    case (ScalarArithOp b c v)
    then show ?thesis
      using assms ScalarArith_typed [OF ok [of 0], of c v] by (simp add: arg1_def split del: if_split cong: if_cong)
  next
    case (CastOp b d)
    then show ?thesis using assms cast_typed [OF ok [of 0], of d] by (simp add: arg1_def split del: if_split cong: if_cong)
  next
    case (BinaryArithOp b c)
    then show ?thesis
      using assms BinaryArith_typed [OF ok [of 0] ok [of 1], of c] by (simp add: arg2_def split del: if_split cong: if_cong)
  qed (use ok Compare_typed CompareScalar_typed Filter_typed Quantize_typed Dequantize_typed Dot_typed
      in \<open>simp_all add: arg1_def arg2_def\<close>)
qed

lemma op_inputs_from_ok:
  assumes "store_inv s" "\<And>i. i \<in> set is \<Longrightarrow> i < length inputs" "op_inputs_from inputs is s = Ok ts"
  shows "length ts = length is \<and> list_all tensor_ok ts"
  using assms(2,3)
proof (induction "is" arbitrary: ts)
  case (Cons i "is")
  then show ?case
    using Store_find_ok [OF assms(1)]
    by (auto simp: ok_iff op_input_def OpContext_input_def name_at_def split: option.splits if_splits)
qed simp

lemma op_inputs_from_defined:
  assumes "\<And>i. i \<in> set is \<Longrightarrow> i < length inputs" "op_inputs_from inputs is s = Inl e"
  shows "\<exists>m. e = OutOfRange m"
  using assms
proof (induction "is")
  case (Cons i "is")
  then show ?case
    by (auto simp: bindR_Inl_iff op_input_def OpContext_input_def name_at_def split: option.splits if_splits)
qed simp

lemma run_typed:
  assumes "store_inv s" "op_arity op \<le> length inputs" "outputs \<noteq> []"
    and "\<And>ts. op_inputs_from inputs [0..<op_arity op] s = Ok ts \<Longrightarrow> accepts op (map t_dtype ts)"
  shows "case bindR (op_inputs_from inputs [0..<op_arity op] s) (\<lambda>ts.
        bindR (op_kernel op ts) (\<lambda>r. op_set outputs r s)) of
      Inl e \<Rightarrow> \<forall>m. e \<noteq> Undefined m
    | Inr s' \<Rightarrow> \<exists>ts r. op_inputs_from inputs [0..<op_arity op] s = Ok ts \<and> op_kernel op ts = Ok r \<and>
        s' = Store_set (hd outputs) r s \<and> store_inv s' \<and> t_dtype r = op_dtype op (map t_dtype ts) \<and>
        (\<forall>n. op_len op (map t_size ts) = Some n \<longrightarrow> t_size r = n)"
proof (cases "op_inputs_from inputs [0..<op_arity op] s")
  case (Inl e)
  then show ?thesis using op_inputs_from_defined [OF _ Inl] assms(2) by auto
next
  case (Inr ts)
  have "length ts = op_arity op \<and> list_all tensor_ok ts"
    using op_inputs_from_ok [OF assms(1) _ Inr] assms(2) by auto
  then have "typed_result (op_dtype op (map t_dtype ts)) (op_len op (map t_size ts)) (op_kernel op ts)"
    using op_kernel_typed assms(4) [OF Inr] by blast
  then show ?thesis
    using assms(1,3) Inr
    by (cases "op_kernel op ts") (auto simp: typed_result_def op_set_def name_at_def hd_conv_nth Store_set_inv)
qed

text \<open>C22. An op with enough input names and an output name, on a well-formed store and inputs of types
  it accepts, never reads a buffer at the wrong type or past its end: its \<^verbatim>\<open>compute\<close> throws, leaves the store
  alone (an identity onto its own name), or writes one tensor under its first output name, and that
  tensor is well formed and has the statically predicted element type and length.\<close>

theorem op_compute_typed:
  assumes "store_inv s" "op_arity op \<le> length (ob_inputs (op_base op))" "ob_outputs (op_base op) \<noteq> []"
    and "\<And>ts. op_inputs_from (ob_inputs (op_base op)) [0..<op_arity op] s = Ok ts \<Longrightarrow> accepts op (map t_dtype ts)"
  shows "case TensorOp_compute op s of
      Inl e \<Rightarrow> \<forall>m. e \<noteq> Undefined m
    | Inr s' \<Rightarrow> store_inv s' \<and> (s' = s \<or>
        (\<exists>ts r. op_inputs_from (ob_inputs (op_base op)) [0..<op_arity op] s = Ok ts \<and> op_kernel op ts = Ok r \<and>
          s' = Store_set (hd (ob_outputs (op_base op))) r s \<and> t_dtype r = op_dtype op (map t_dtype ts) \<and>
          (\<forall>n. op_len op (map t_size ts) = Some n \<longrightarrow> t_size r = n)))"
proof -
  note run = run_typed [OF assms(1-3) assms(4)]
  have "TensorOp_compute op s = Ok s \<or> TensorOp_compute op s =
      bindR (op_inputs_from (ob_inputs (op_base op)) [0..<op_arity op] s) (\<lambda>ts.
        bindR (op_kernel op ts) (\<lambda>r. op_set (ob_outputs (op_base op)) r s))"
    using assms(2,3) unfolding TensorOp_compute_def Let_def
    by (cases op) (auto simp: name_at_def)
  then show ?thesis
    using run assms(1) by (auto split: sum.splits)
qed

theorem op_compute_typed_witness:
  "\<exists>r. TensorOp_compute (BinaryArithOp \<lparr>ob_type = ''add'', ob_inputs = [''x'', ''y''], ob_outputs = [''z'']\<rparr> CHR ''+'')
      \<lparr>ts_tensors = [(''x'', from_i32 [1]), (''y'', from_i64 [2])], ts_order = [''x'', ''y'']\<rparr> =
    Ok (Store_set ''z'' r \<lparr>ts_tensors = [(''x'', from_i32 [1]), (''y'', from_i64 [2])], ts_order = [''x'', ''y'']\<rparr>) \<and>
    t_dtype r = kInt64 \<and> t_size r = 1"
proof -
  let ?op = "BinaryArithOp \<lparr>ob_type = ''add'', ob_inputs = [''x'', ''y''], ob_outputs = [''z'']\<rparr> CHR ''+''"
  let ?s = "\<lparr>ts_tensors = [(''x'', from_i32 [1]), (''y'', from_i64 [2])], ts_order = [''x'', ''y'']\<rparr>"
  have t: "from_i32 [1] = \<lparr>t_dtype = kInt32, t_data = [CI32 1], t_size = 1, t_capacity = 1\<rparr>"
    "from_i64 [2] = \<lparr>t_dtype = kInt64, t_data = [CI64 2], t_size = 1, t_capacity = 1\<rparr>"
    by (simp_all add: from_i32_def from_i64_def from_cells_eq)
  have inp: "op_inputs_from (ob_inputs (op_base ?op)) [0..<op_arity ?op] ?s = Ok [from_i32 [1], from_i64 [2]]"
    by (simp add: upt_rec op_input_def name_at_def OpContext_input_def Store_find_def)
  obtain r where r: "op_kernel ?op [from_i32 [1], from_i64 [2]] = Ok r"
    by (simp add: arg2_def BinaryArith_kernel_def elementwise_binary_def as_dtype_def cast_tensor_def t
        promote_def is_float_def data_as_def for_each_scalar_type_def Let_def tresize_def put_cells_def
        Tensor_new_eq ensure_capacity_def)
  have comp: "TensorOp_compute ?op ?s = Ok (Store_set ''z'' r ?s)"
    unfolding TensorOp_compute_def Let_def TensorOp.case inp bindR.simps r
    by (simp add: op_set_def name_at_def)
  have "store_inv ?s" by (simp add: store_inv_def t)
  moreover have "accepts ?op (map t_dtype ts)"
    if "op_inputs_from (ob_inputs (op_base ?op)) [0..<op_arity ?op] ?s = Ok ts" for ts
    using that unfolding inp by (auto simp: mixed_ok_def t)
  ultimately have "case TensorOp_compute ?op ?s of
      Inl e \<Rightarrow> \<forall>m. e \<noteq> Undefined m
    | Inr s' \<Rightarrow> store_inv s' \<and> (s' = ?s \<or>
        (\<exists>ts r. op_inputs_from (ob_inputs (op_base ?op)) [0..<op_arity ?op] ?s = Ok ts \<and> op_kernel ?op ts = Ok r \<and>
          s' = Store_set (hd (ob_outputs (op_base ?op))) r ?s \<and> t_dtype r = op_dtype ?op (map t_dtype ts) \<and>
          (\<forall>n. op_len ?op (map t_size ts) = Some n \<longrightarrow> t_size r = n)))"
    by (intro op_compute_typed) simp_all
  then have "Store_set ''z'' r ?s = ?s \<or> (t_dtype r = op_dtype ?op (map t_dtype [from_i32 [1], from_i64 [2]]) \<and>
      (\<forall>n. op_len ?op (map t_size [from_i32 [1], from_i64 [2]]) = Some n \<longrightarrow> t_size r = n))"
    unfolding comp inp using r by auto
  moreover have "Store_set ''z'' r ?s \<noteq> ?s" by (simp add: Store_set_def)
  ultimately show ?thesis
    using comp by (auto simp: promote_def is_float_def t)
qed

end
