(* ===== verification/Simd.thy ===== *)
theory Simd
  imports OpTypes
begin

unbundle bit_operations_syntax

text \<open>
  \<^verbatim>\<open>column/compute/*.cpp\<close> and \<^verbatim>\<open>simd.h\<close>: the hand-vectorised kernels on int64 and float64 tensors.  The
  instruction set is a parameter (\<^verbatim>\<open>SimdBackend\<close>); a vector loop takes \<^verbatim>\<open>lanes\<close> elements at a time and a
  scalar loop finishes the rest (\<^verbatim>\<open>vec_map1\<close>, \<^verbatim>\<open>vec_map2\<close>, \<^verbatim>\<open>vec_sum\<close>).  Any type other than int64 is read as
  double, and the second operand is read up to the first one's length without a check.

  On the inputs they are written for, every backend computes what the op kernels compute.
\<close>

section \<open>Model\<close>

subsection \<open>Vector loops\<close>

datatype SimdBackend = NEON | AVX512 | AVX2 | SSE2 | SCALAR

fun lanes :: "SimdBackend \<Rightarrow> nat" where
  "lanes NEON = 2"
| "lanes AVX512 = 8"
| "lanes AVX2 = 4"
| "lanes SSE2 = 2"
| "lanes SCALAR = 0"

function vec_map1 :: "nat \<Rightarrow> ('a list \<Rightarrow> 'b list) \<Rightarrow> ('a \<Rightarrow> 'b) \<Rightarrow> 'a list \<Rightarrow> 'b list" where
  "vec_map1 w vf f xs =
    (if 0 < w \<and> w \<le> length xs then vf (take w xs) @ vec_map1 w vf f (drop w xs) else map f xs)"
  by pat_completeness auto
termination by (relation "measure (\<lambda>(w, vf, f, xs). length xs)") auto

function vec_map2 ::
  "nat \<Rightarrow> ('a list \<Rightarrow> 'a list \<Rightarrow> 'b list) \<Rightarrow> ('a \<Rightarrow> 'a \<Rightarrow> 'b) \<Rightarrow> 'a list \<Rightarrow> 'a list \<Rightarrow> 'b list" where
  "vec_map2 w vf f xs ys =
    (if 0 < w \<and> w \<le> length xs
     then vf (take w xs) (take w ys) @ vec_map2 w vf f (drop w xs) (drop w ys)
     else map2 f xs ys)"
  by pat_completeness auto
termination by (relation "measure (\<lambda>(w, vf, f, xs, ys). length xs)") auto

declare vec_map1.simps [simp del] vec_map2.simps [simp del]

text \<open>\<^verbatim>\<open>hsum_f64\<close>: the sum of the lanes of a register, in the order each instruction set adds them.\<close>

fun hsum_f64 :: "SimdBackend \<Rightarrow> flt list \<Rightarrow> flt" where
  "hsum_f64 AVX2 v = fadd (fadd (v ! 0) (v ! 2)) (fadd (v ! 1) (v ! 3))"
| "hsum_f64 AVX512 v =
    fadd (fadd (fadd (v ! 0) (v ! 4)) (fadd (v ! 2) (v ! 6))) (fadd (fadd (v ! 1) (v ! 5)) (fadd (v ! 3) (v ! 7)))"
| "hsum_f64 SCALAR v = Fin 0"
| "hsum_f64 be v = fadd (v ! 0) (v ! 1)"

function vec_sum :: "SimdBackend \<Rightarrow> flt list \<Rightarrow> flt list \<Rightarrow> flt" where
  "vec_sum be acc xs =
    (if 0 < lanes be \<and> lanes be \<le> length xs
     then vec_sum be (map2 fadd acc (take (lanes be) xs)) (drop (lanes be) xs)
     else fold (\<lambda>x s. fadd s x) xs (hsum_f64 be acc))"
  by pat_completeness auto
termination by (relation "measure (\<lambda>(be, acc, xs). length xs)") auto

declare vec_sum.simps [simp del]

subsection \<open>Loops over tensors\<close>

fun cell_f64 :: "cell \<Rightarrow> flt" where
  "cell_f64 (CF64 x) = x"
| "cell_f64 _ = NaN"

definition i64_loop1 :: "(64 word \<Rightarrow> 64 word) \<Rightarrow> Tensor \<Rightarrow> Tensor res" where
  "i64_loop1 f a =
    (let n = t_size a in bindR (data_as kInt64 n a) (\<lambda>pa.
       Ok (tresize n (put_cells (map (CI64 \<circ> f \<circ> cell_i64) pa) (Tensor_new kInt64 n)))))"

definition i64_loop2 :: "(64 word \<Rightarrow> 64 word \<Rightarrow> 64 word) \<Rightarrow> Tensor \<Rightarrow> Tensor \<Rightarrow> Tensor res" where
  "i64_loop2 f a b =
    (let n = t_size a in bindR (data_as kInt64 n a) (\<lambda>pa. bindR (data_as kInt64 n b) (\<lambda>pb.
       Ok (tresize n (put_cells (map CI64 (map2 f (map cell_i64 pa) (map cell_i64 pb))) (Tensor_new kInt64 n))))))"

definition f64_loop1 ::
  "SimdBackend \<Rightarrow> (flt list \<Rightarrow> flt list) \<Rightarrow> (flt \<Rightarrow> flt) \<Rightarrow> Tensor \<Rightarrow> Tensor res" where
  "f64_loop1 be vf f a =
    (let n = t_size a in bindR (data_as kFloat64 n a) (\<lambda>pa.
       Ok (tresize n (put_cells (map CF64 (vec_map1 (lanes be) vf f (map cell_f64 pa))) (Tensor_new kFloat64 n)))))"

definition f64_loop2 ::
  "SimdBackend \<Rightarrow> (flt \<Rightarrow> flt \<Rightarrow> flt) \<Rightarrow> Tensor \<Rightarrow> Tensor \<Rightarrow> Tensor res" where
  "f64_loop2 be f a b =
    (let n = t_size a in bindR (data_as kFloat64 n a) (\<lambda>pa. bindR (data_as kFloat64 n b) (\<lambda>pb.
       Ok (tresize n (put_cells
             (map CF64 (vec_map2 (lanes be) (map2 f) f (map cell_f64 pa) (map cell_f64 pb)))
             (Tensor_new kFloat64 n))))))"

subsection \<open>Binary arithmetic\<close>

definition compute_add :: "SimdBackend \<Rightarrow> Tensor \<Rightarrow> Tensor \<Rightarrow> Tensor res" where
  "compute_add be a b =
    (if t_dtype a \<noteq> t_dtype b then Throw (RuntimeError ''Type mismatch in add'')
     else if t_dtype a = kInt64 then i64_loop2 (+) a b else f64_loop2 be fadd a b)"

definition compute_sub :: "SimdBackend \<Rightarrow> Tensor \<Rightarrow> Tensor \<Rightarrow> Tensor res" where
  "compute_sub be a b =
    (if t_dtype a \<noteq> t_dtype b then Throw (RuntimeError ''Type mismatch in sub'')
     else if t_dtype a = kInt64 then i64_loop2 (-) a b else f64_loop2 be fsub a b)"

definition compute_mul :: "SimdBackend \<Rightarrow> Tensor \<Rightarrow> Tensor \<Rightarrow> Tensor res" where
  "compute_mul be a b =
    (if t_dtype a \<noteq> t_dtype b then Throw (RuntimeError ''Type mismatch in mul'')
     else if t_dtype a = kInt64 then i64_loop2 (*) a b else f64_loop2 be fmul a b)"

definition compute_div :: "SimdBackend \<Rightarrow> Tensor \<Rightarrow> Tensor \<Rightarrow> Tensor res" where
  "compute_div be a b =
    (if t_dtype a \<noteq> t_dtype b then Throw (RuntimeError ''Type mismatch in div'')
     else if t_dtype a = kInt64
     then (let n = t_size a in bindR (data_as kInt64 n a) (\<lambda>pa. bindR (data_as kInt64 n b) (\<lambda>pb.
       Ok (tresize n (put_cells (map2 (\<lambda>x y. CF64 (fdiv (cell_flt x) (cell_flt y))) pa pb) (Tensor_new kDouble n))))))
     else f64_loop2 be fdiv a b)"

subsection \<open>Scalar arithmetic\<close>

definition scalar_int64 :: "(64 word \<Rightarrow> 64 word \<Rightarrow> 64 word) \<Rightarrow> flt \<Rightarrow> Tensor \<Rightarrow> Tensor res" where
  "scalar_int64 op sv a = (let s = flt_to_int sv in i64_loop1 (\<lambda>x. op x s) a)"

definition f64_scalar :: "SimdBackend \<Rightarrow> (flt \<Rightarrow> flt \<Rightarrow> flt) \<Rightarrow> flt \<Rightarrow> Tensor \<Rightarrow> Tensor res" where
  "f64_scalar be f v a = f64_loop1 be (\<lambda>va. map2 f va (replicate (lanes be) v)) (\<lambda>x. f x v) a"

definition compute_add_scalar :: "SimdBackend \<Rightarrow> Tensor \<Rightarrow> flt \<Rightarrow> Tensor res" where
  "compute_add_scalar be a v =
    (if t_dtype a = kInt64 then scalar_int64 (+) v a else f64_scalar be fadd v a)"

definition compute_sub_scalar :: "SimdBackend \<Rightarrow> Tensor \<Rightarrow> flt \<Rightarrow> Tensor res" where
  "compute_sub_scalar be a v =
    (if t_dtype a = kInt64 then scalar_int64 (-) v a else f64_scalar be fsub v a)"

definition compute_mul_scalar :: "SimdBackend \<Rightarrow> Tensor \<Rightarrow> flt \<Rightarrow> Tensor res" where
  "compute_mul_scalar be a v =
    (if t_dtype a = kInt64 then scalar_int64 (*) v a else f64_scalar be fmul v a)"

definition compute_div_scalar :: "SimdBackend \<Rightarrow> Tensor \<Rightarrow> flt \<Rightarrow> Tensor res" where
  "compute_div_scalar be a v =
    (if t_dtype a = kInt64
     then (let n = t_size a in bindR (data_as kInt64 n a) (\<lambda>pa.
       Ok (tresize n (put_cells (map (\<lambda>x. CF64 (fdiv (cell_flt x) v)) pa) (Tensor_new kDouble n)))))
     else f64_scalar be fdiv v a)"

subsection \<open>Unary functions\<close>

text \<open>The x86 backends negate by subtracting from zero.\<close>

definition vec_neg :: "SimdBackend \<Rightarrow> flt list \<Rightarrow> flt list" where
  "vec_neg be va = (if be = NEON then map fneg va else map2 fsub (replicate (lanes be) (Fin 0)) va)"

definition compute_neg :: "SimdBackend \<Rightarrow> Tensor \<Rightarrow> Tensor res" where
  "compute_neg be a = (if t_dtype a = kInt64 then i64_loop1 uminus a else f64_loop1 be (vec_neg be) fneg a)"

definition compute_abs :: "SimdBackend \<Rightarrow> Tensor \<Rightarrow> Tensor res" where
  "compute_abs be a =
    (if t_dtype a = kInt64 then i64_loop1 (\<lambda>x. if sint x < 0 then - x else x) a
     else f64_loop1 be (map fabs) fabs a)"

definition compute_sqrt :: "SimdBackend \<Rightarrow> Tensor \<Rightarrow> Tensor res" where
  "compute_sqrt be a =
    (if t_dtype a = kInt64
     then (let n = t_size a in bindR (data_as kInt64 n a) (\<lambda>pa.
       Ok (tresize n (put_cells (map (\<lambda>x. CF64 (fsqrt (cell_flt x))) pa) (Tensor_new kDouble n)))))
     else f64_loop1 be (map fsqrt) fsqrt a)"

definition compute_square :: "SimdBackend \<Rightarrow> Tensor \<Rightarrow> Tensor res" where
  "compute_square be a =
    (if t_dtype a = kInt64 then i64_loop1 (\<lambda>x. x * x) a
     else f64_loop1 be (\<lambda>va. map2 fmul va va) (\<lambda>x. fmul x x) a)"

subsection \<open>Comparisons\<close>

definition cmp_int64_tt :: "(64 word \<Rightarrow> 64 word \<Rightarrow> bool) \<Rightarrow> Tensor \<Rightarrow> Tensor \<Rightarrow> Tensor res" where
  "cmp_int64_tt op a b = i64_loop2 (\<lambda>x y. if op x y then 1 else 0) a b"

definition cmp_int64_ts :: "(64 word \<Rightarrow> 64 word \<Rightarrow> bool) \<Rightarrow> Tensor \<Rightarrow> flt \<Rightarrow> Tensor res" where
  "cmp_int64_ts op a sv = (let s = flt_to_int sv in i64_loop1 (\<lambda>x. if op x s then 1 else 0) a)"

text \<open>NEON compares give a register of all ones or zeros, reduced to 0 or 1 by an AND; the other backends
  compare in the scalar loop.\<close>

definition vec_mask :: "(flt \<Rightarrow> flt \<Rightarrow> bool) \<Rightarrow> flt list \<Rightarrow> flt list \<Rightarrow> 64 word list" where
  "vec_mask op va vb = map2 (\<lambda>x y. (if op x y then - 1 else 0) AND 1) va vb"

definition cmp_lanes :: "SimdBackend \<Rightarrow> nat" where
  "cmp_lanes be = (if be = NEON then 2 else 0)"

definition cmp_f64_tt :: "SimdBackend \<Rightarrow> (flt \<Rightarrow> flt \<Rightarrow> bool) \<Rightarrow> Tensor \<Rightarrow> Tensor \<Rightarrow> Tensor res" where
  "cmp_f64_tt be op a b =
    (let n = t_size a in bindR (data_as kFloat64 n a) (\<lambda>pa. bindR (data_as kFloat64 n b) (\<lambda>pb.
       Ok (tresize n (put_cells
             (map CI64 (vec_map2 (cmp_lanes be) (vec_mask op) (\<lambda>x y. if op x y then 1 else 0)
                (map cell_f64 pa) (map cell_f64 pb)))
             (Tensor_new kInt64 n))))))"

definition cmp_f64_ts :: "SimdBackend \<Rightarrow> (flt \<Rightarrow> flt \<Rightarrow> bool) \<Rightarrow> Tensor \<Rightarrow> flt \<Rightarrow> Tensor res" where
  "cmp_f64_ts be op a v =
    (let n = t_size a in bindR (data_as kFloat64 n a) (\<lambda>pa.
       Ok (tresize n (put_cells
             (map CI64 (vec_map1 (cmp_lanes be) (\<lambda>va. vec_mask op va (replicate (cmp_lanes be) v))
                (\<lambda>x. if op x v then 1 else 0) (map cell_f64 pa)))
             (Tensor_new kInt64 n)))))"

definition compute_gt :: "SimdBackend \<Rightarrow> Tensor \<Rightarrow> Tensor \<Rightarrow> Tensor res" where
  "compute_gt be a b =
    (if t_dtype a = kInt64 then cmp_int64_tt (\<lambda>x y. sint x > sint y) a b
     else cmp_f64_tt be (\<lambda>x y. flt_lt y x) a b)"

definition compute_lt :: "SimdBackend \<Rightarrow> Tensor \<Rightarrow> Tensor \<Rightarrow> Tensor res" where
  "compute_lt be a b =
    (if t_dtype a = kInt64 then cmp_int64_tt (\<lambda>x y. sint x < sint y) a b
     else cmp_f64_tt be flt_lt a b)"

definition compute_ge :: "SimdBackend \<Rightarrow> Tensor \<Rightarrow> Tensor \<Rightarrow> Tensor res" where
  "compute_ge be a b =
    (if t_dtype a = kInt64 then cmp_int64_tt (\<lambda>x y. sint x \<ge> sint y) a b
     else cmp_f64_tt be (\<lambda>x y. flt_le y x) a b)"

definition compute_le :: "SimdBackend \<Rightarrow> Tensor \<Rightarrow> Tensor \<Rightarrow> Tensor res" where
  "compute_le be a b =
    (if t_dtype a = kInt64 then cmp_int64_tt (\<lambda>x y. sint x \<le> sint y) a b
     else cmp_f64_tt be flt_le a b)"

definition compute_eq :: "SimdBackend \<Rightarrow> Tensor \<Rightarrow> Tensor \<Rightarrow> Tensor res" where
  "compute_eq be a b =
    (if t_dtype a = kInt64 then cmp_int64_tt (=) a b else cmp_f64_tt be flt_eq a b)"

definition compute_gt_scalar :: "SimdBackend \<Rightarrow> Tensor \<Rightarrow> flt \<Rightarrow> Tensor res" where
  "compute_gt_scalar be a v =
    (if t_dtype a = kInt64 then cmp_int64_ts (\<lambda>x s. sint x > sint s) a v
     else cmp_f64_ts be (\<lambda>x s. flt_lt s x) a v)"

definition compute_lt_scalar :: "SimdBackend \<Rightarrow> Tensor \<Rightarrow> flt \<Rightarrow> Tensor res" where
  "compute_lt_scalar be a v =
    (if t_dtype a = kInt64 then cmp_int64_ts (\<lambda>x s. sint x < sint s) a v
     else cmp_f64_ts be flt_lt a v)"

definition compute_ge_scalar :: "SimdBackend \<Rightarrow> Tensor \<Rightarrow> flt \<Rightarrow> Tensor res" where
  "compute_ge_scalar be a v =
    (if t_dtype a = kInt64 then cmp_int64_ts (\<lambda>x s. sint x \<ge> sint s) a v
     else cmp_f64_ts be (\<lambda>x s. flt_le s x) a v)"

definition compute_le_scalar :: "SimdBackend \<Rightarrow> Tensor \<Rightarrow> flt \<Rightarrow> Tensor res" where
  "compute_le_scalar be a v =
    (if t_dtype a = kInt64 then cmp_int64_ts (\<lambda>x s. sint x \<le> sint s) a v
     else cmp_f64_ts be flt_le a v)"

definition compute_eq_scalar :: "SimdBackend \<Rightarrow> Tensor \<Rightarrow> flt \<Rightarrow> Tensor res" where
  "compute_eq_scalar be a v =
    (if t_dtype a = kInt64 then cmp_int64_ts (=) a v else cmp_f64_ts be flt_eq a v)"

subsection \<open>Reductions\<close>

definition compute_sum :: "SimdBackend \<Rightarrow> Tensor \<Rightarrow> flt res" where
  "compute_sum be a =
    (if t_dtype a = kInt64
     then bindR (data_as kInt64 (t_size a) a) (\<lambda>p. Ok (int_to_flt (fold (\<lambda>c s. s + cell_i64 c) p 0)))
     else bindR (data_as kFloat64 (t_size a) a) (\<lambda>p.
       Ok (vec_sum be (replicate (lanes be) (Fin 0)) (map cell_f64 p))))"

definition compute_mean :: "SimdBackend \<Rightarrow> Tensor \<Rightarrow> flt res" where
  "compute_mean be a =
    (if t_size a = 0 then Ok (Fin 0)
     else bindR (compute_sum be a) (\<lambda>s. Ok (fdiv s (Fin (real (t_size a))))))"

definition compute_count :: "Tensor \<Rightarrow> 64 word" where
  "compute_count a = of_nat (t_size a)"

section \<open>Vector loops compute the scalar function\<close>

lemma vec_map1_eq:
  assumes "\<And>va. length va = w \<Longrightarrow> vf va = map f va"
  shows "vec_map1 w vf f xs = map f xs"
proof (induction xs rule: length_induct)
  case (1 xs)
  show ?case
  proof (cases "0 < w \<and> w \<le> length xs")
    case True
    then have "length (drop w xs) < length xs" by auto
    then have "vec_map1 w vf f (drop w xs) = map f (drop w xs)" using 1 by blast
    then show ?thesis using True assms [of "take w xs"]
      by (subst vec_map1.simps) (simp add: map_append [symmetric] del: map_append)
  next
    case False
    then show ?thesis by (subst vec_map1.simps) auto
  qed
qed

lemma vec_map2_eq:
  assumes "\<And>va vb. length va = w \<Longrightarrow> length vb = w \<Longrightarrow> vf va vb = map2 f va vb" "length xs = length ys"
  shows "vec_map2 w vf f xs ys = map2 f xs ys"
  using assms(2)
proof (induction xs arbitrary: ys rule: length_induct)
  case (1 xs)
  show ?case
  proof (cases "0 < w \<and> w \<le> length xs")
    case True
    then have "length (drop w xs) < length xs" by auto
    then have "vec_map2 w vf f (drop w xs) (drop w ys) = map2 f (drop w xs) (drop w ys)"
      using 1(1) [rule_format, of "drop w xs" "drop w ys"] 1(2) by simp
    moreover have "map2 f (take w xs) (take w ys) @ map2 f (drop w xs) (drop w ys) = map2 f xs ys"
      using 1(2) by (metis append_take_drop_id map_append take_zip drop_zip)
    ultimately show ?thesis
      using True 1(2) assms(1) [of "take w xs" "take w ys"] by (subst vec_map2.simps) simp
  next
    case False
    then show ?thesis by (subst vec_map2.simps) auto
  qed
qed

lemma hsum_Fin: "length rs = lanes be \<Longrightarrow> hsum_f64 be (map Fin rs) = Fin (sum_list rs)"
proof (cases be)
  case AVX512
  moreover assume "length rs = lanes be"
  ultimately obtain a b c d e f g h where "rs = [a, b, c, d, e, f, g, h]"
    by (auto simp: length_Suc_conv numeral_eq_Suc)
  then show ?thesis by (simp add: AVX512 numeral_eq_Suc)
qed (auto simp: length_Suc_conv numeral_eq_Suc)

lemma fold_fadd_map_Fin: "fold (\<lambda>x s. fadd s x) (map Fin rs) (Fin a) = Fin (a + sum_list rs)"
  by (induction rs arbitrary: a) (simp_all add: algebra_simps)

lemma sum_list_map2_add:
  "length xs = length ys \<Longrightarrow> sum_list (map2 (+) xs ys) = sum_list xs + sum_list ys" for xs ys :: "real list"
  by (induction xs ys rule: list_induct2) simp_all

text \<open>The lanes together hold the sum so far: the vectorised sum is the sum, in exact arithmetic.\<close>

lemma vec_sum_Fin:
  assumes "length acc = lanes be"
  shows "vec_sum be (map Fin acc) (map Fin rs) = Fin (sum_list acc + sum_list rs)"
  using assms
proof (induction rs arbitrary: acc rule: length_induct)
  case (1 rs)
  let ?w = "lanes be"
  show ?case
  proof (cases "0 < ?w \<and> ?w \<le> length rs")
    case True
    let ?acc = "map2 (+) acc (take ?w rs)"
    have acc: "map2 fadd (map Fin acc) (take ?w (map Fin rs)) = map Fin ?acc"
      by (simp add: take_map zip_map_map comp_def case_prod_unfold)
    have len: "length ?acc = ?w" using True 1(2) by simp
    have "vec_sum be (map Fin acc) (map Fin rs) = vec_sum be (map Fin ?acc) (map Fin (drop ?w rs))"
      using True by (subst vec_sum.simps) (simp add: acc drop_map)
    also have "\<dots> = Fin (sum_list ?acc + sum_list (drop ?w rs))"
    proof -
      have "length (drop ?w rs) < length rs" using True by auto
      then show ?thesis using 1(1) len by blast
    qed
    also have "sum_list ?acc + sum_list (drop ?w rs) = sum_list acc + sum_list rs"
      using True 1(2) sum_list_append [of "take ?w rs" "drop ?w rs"]
      by (simp add: sum_list_map2_add)
    finally show ?thesis .
  next
    case False
    then show ?thesis
      using 1(2) by (subst vec_sum.simps) (auto simp: hsum_Fin fold_fadd_map_Fin)
  qed
qed

section \<open>Agreement with the op kernels\<close>

text \<open>What the elements of an int64 or float64 tensor look like.\<close>

lemma int64_elems:
  assumes "tensor_ok a" "t_dtype a = kInt64"
  obtains ws where "elems a = map CI64 ws" "length ws = t_size a" "data_as kInt64 (t_size a) a = Ok (map CI64 ws)"
proof -
  let ?ws = "map cell_i64 (elems a)"
  have "CI64 (cell_i64 c) = c" if "c \<in> set (elems a)" for c
    using elems_type [OF assms(1) that] assms(2) by (cases c) auto
  then have "elems a = map CI64 ?ws" by (simp add: map_idI)
  moreover have "length ?ws = t_size a" using length_elems [OF assms(1)] assms(2) by simp
  ultimately show ?thesis using that [of ?ws] data_as_ok [OF assms(1)] assms(2) by metis
qed

lemma float64_elems:
  assumes "tensor_ok a" "t_dtype a = kFloat64"
  obtains xs where "elems a = map CF64 xs" "length xs = t_size a" "data_as kFloat64 (t_size a) a = Ok (map CF64 xs)"
proof -
  let ?xs = "map cell_f64 (elems a)"
  have "CF64 (cell_f64 c) = c" if "c \<in> set (elems a)" for c
    using elems_type [OF assms(1) that] assms(2) by (cases c) auto
  then have "elems a = map CF64 ?xs" by (simp add: map_idI)
  moreover have "length ?xs = t_size a" using length_elems [OF assms(1)] assms(2) by simp
  ultimately show ?thesis using that [of ?xs] data_as_ok [OF assms(1)] assms(2) by metis
qed

lemma i64_loop1_ok:
  assumes "tensor_ok a" "t_dtype a = kInt64" "elems a = map CI64 ws"
  shows "i64_loop1 f a = Ok (filled kInt64 (map (CI64 \<circ> f) ws))"
  using assms data_as_ok [OF assms(1)] length_elems [OF assms(1)]
  by (simp add: i64_loop1_def Let_def fill_new comp_def)

lemma i64_loop2_ok:
  assumes "tensor_ok a" "t_dtype a = kInt64" "elems a = map CI64 ws"
    and "tensor_ok b" "t_dtype b = kInt64" "elems b = map CI64 vs" "t_size b = t_size a"
  shows "i64_loop2 f a b = Ok (filled kInt64 (map CI64 (map2 f ws vs)))"
  using assms data_as_ok [OF assms(1)] length_elems [OF assms(1)] data_as_ok [OF assms(4)] length_elems [OF assms(4)]
  by (simp add: i64_loop2_def Let_def fill_new comp_def)

lemma f64_loop1_ok:
  assumes "tensor_ok a" "t_dtype a = kFloat64" "elems a = map CF64 xs"
    and "\<And>va. length va = lanes be \<Longrightarrow> vf va = map f va"
  shows "f64_loop1 be vf f a = Ok (filled kFloat64 (map (CF64 \<circ> f) xs))"
  using assms data_as_ok [OF assms(1)] length_elems [OF assms(1)] vec_map1_eq [OF assms(4)]
  by (simp add: f64_loop1_def Let_def fill_new comp_def)

lemma f64_loop2_ok:
  assumes "tensor_ok a" "t_dtype a = kFloat64" "elems a = map CF64 xs"
    and "tensor_ok b" "t_dtype b = kFloat64" "elems b = map CF64 ys" "t_size b = t_size a"
  shows "f64_loop2 be f a b = Ok (filled kFloat64 (map CF64 (map2 f xs ys)))"
  using assms data_as_ok [OF assms(1)] length_elems [OF assms(1)] data_as_ok [OF assms(4)] length_elems [OF assms(4)]
  by (simp add: f64_loop2_def Let_def fill_new comp_def vec_map2_eq)

lemma cmp_f64_tt_ok:
  assumes "tensor_ok a" "t_dtype a = kFloat64" "elems a = map CF64 xs"
    and "tensor_ok b" "t_dtype b = kFloat64" "elems b = map CF64 ys" "t_size b = t_size a"
  shows "cmp_f64_tt be p a b = Ok (filled kInt64 (map CI64 (map2 (\<lambda>x y. of_bool (p x y)) xs ys)))"
proof -
  have "vec_map2 (cmp_lanes be) (vec_mask p) (\<lambda>x y. if p x y then 1 else 0) xs ys =
      map2 (\<lambda>x y. if p x y then 1 else 0) xs ys"
    using assms length_elems [OF assms(1)] length_elems [OF assms(4)]
    by (intro vec_map2_eq) (auto simp: vec_mask_def)
  then show ?thesis
    using assms data_as_ok [OF assms(1)] length_elems [OF assms(1)] data_as_ok [OF assms(4)] length_elems [OF assms(4)]
    by (simp add: cmp_f64_tt_def Let_def fill_new comp_def of_bool_def)
qed

lemma map2_replicate: "length va = w \<Longrightarrow> map2 f va (replicate w v) = map (\<lambda>x. f x v) va"
  by (induction va arbitrary: w) auto

lemma map2_replicate_left: "length va = w \<Longrightarrow> map2 f (replicate w v) va = map (f v) va"
  by (induction va arbitrary: w) auto

lemma cmp_f64_ts_ok:
  assumes "tensor_ok a" "t_dtype a = kFloat64" "elems a = map CF64 xs"
  shows "cmp_f64_ts be p a v = Ok (filled kInt64 (map (\<lambda>x. CI64 (of_bool (p x v))) xs))"
proof -
  have "vec_map1 (cmp_lanes be) (\<lambda>va. vec_mask p va (replicate (cmp_lanes be) v)) (\<lambda>x. if p x v then 1 else 0) xs =
      map (\<lambda>x. if p x v then 1 else 0) xs"
    by (intro vec_map1_eq) (simp add: vec_mask_def map2_replicate)
  then show ?thesis
    using assms data_as_ok [OF assms(1)] length_elems [OF assms(1)]
    by (simp add: cmp_f64_ts_def Let_def fill_new comp_def of_bool_def)
qed

lemma f64_scalar_ok:
  assumes "tensor_ok a" "t_dtype a = kFloat64" "elems a = map CF64 xs"
  shows "f64_scalar be f v a = Ok (filled kFloat64 (map (\<lambda>x. CF64 (f x v)) xs))"
  unfolding f64_scalar_def using f64_loop1_ok [OF assms, of be "\<lambda>va. map2 f va (replicate (lanes be) v)" "\<lambda>x. f x v"]
  by (simp add: map2_replicate comp_def)

lemma fabs_if: "(if flt_lt x (Fin 0) then fneg x else x) = fabs x"
  by (cases x) auto

lemma fsub_zero: "fsub (Fin 0) x = fneg x"
  by (cases x) (auto simp: fsub_def)

lemma vec_neg_map: "length va = lanes be \<Longrightarrow> vec_neg be va = map fneg va"
  by (simp add: vec_neg_def map2_replicate_left fsub_zero [abs_def])

lemma int_le_iff: "(sint y < sint x \<or> x = y) \<longleftrightarrow> sint x \<ge> sint y" for x y :: "'w::len word"
  by (metis order_le_less signed_word_eqI)

lemmas kernel_cells =
  cell_add_def cell_sub_def cell_mul_def cell_div_def cell_neg_def cell_abs_def cell_square_def

text \<open>Every kernel on one int64 tensor.\<close>

lemma int64_agree1:
  assumes a: "tensor_ok a" "t_dtype a = kInt64"
  shows "compute_neg be a = Unary_kernel ''neg'' a" "compute_abs be a = Unary_kernel ''abs'' a"
    "compute_square be a = Unary_kernel ''square'' a" "compute_sqrt be a = Unary_kernel ''sqrt'' a"
    "compute_add_scalar be a v = ScalarArith_kernel CHR ''+'' v a"
    "compute_sub_scalar be a v = ScalarArith_kernel CHR ''-'' v a"
    "compute_mul_scalar be a v = ScalarArith_kernel CHR ''*'' v a"
    "compute_div_scalar be a v = ScalarArith_kernel CHR ''/'' v a"
    "compute_gt_scalar be a v = CompareScalar_kernel ''gt_scalar'' v a"
    "compute_lt_scalar be a v = CompareScalar_kernel ''lt_scalar'' v a"
    "compute_ge_scalar be a v = CompareScalar_kernel ''ge_scalar'' v a"
    "compute_le_scalar be a v = CompareScalar_kernel ''le_scalar'' v a"
    "compute_eq_scalar be a v = CompareScalar_kernel ''eq_scalar'' v a"
    "compute_sum be a = tensor_sum a"
proof -
  obtain ws where ws: "elems a = map CI64 ws" "length ws = t_size a" "data_as kInt64 (t_size a) a = Ok (map CI64 ws)"
    using int64_elems [OF a] .
  have eq: "elementwise_unary a out fn = Ok (filled out (map (\<lambda>x. fn (cast_cell out (CI64 x))) ws))"
    if "out \<noteq> kQ8_0" for out fn
    using elementwise_unary_eq [OF a(1) that] a(2) ws(1) by (simp add: comp_def)
  note loop = i64_loop1_ok [OF a ws(1)]
  note un = Unary_kernel_def eq loop kernel_cells comp_def a(2)
  show "compute_neg be a = Unary_kernel ''neg'' a" by (simp add: compute_neg_def un)
  show "compute_abs be a = Unary_kernel ''abs'' a" by (simp add: compute_abs_def un)
  show "compute_square be a = Unary_kernel ''square'' a" by (simp add: compute_square_def un)
  show "compute_sqrt be a = Unary_kernel ''sqrt'' a" by (simp add: compute_sqrt_def un ws fill_new Let_def)
  note sc = ScalarArith_kernel_def elementwise_scalar_unary scalar_int64_def Let_def un
  show "compute_add_scalar be a v = ScalarArith_kernel CHR ''+'' v a" by (simp add: compute_add_scalar_def sc)
  show "compute_sub_scalar be a v = ScalarArith_kernel CHR ''-'' v a" by (simp add: compute_sub_scalar_def sc)
  show "compute_mul_scalar be a v = ScalarArith_kernel CHR ''*'' v a" by (simp add: compute_mul_scalar_def sc)
  show "compute_div_scalar be a v = ScalarArith_kernel CHR ''/'' v a"
    by (simp add: compute_div_scalar_def sc ws fill_new)
  note cs = CompareScalar_kernel_def cmp_scalar_def cmp_int64_ts_def for_each_scalar_type_def ws fill_new
    Let_def loop comp_def a(2) of_bool_def
  show "compute_gt_scalar be a v = CompareScalar_kernel ''gt_scalar'' v a" by (simp add: compute_gt_scalar_def cs)
  show "compute_lt_scalar be a v = CompareScalar_kernel ''lt_scalar'' v a" by (simp add: compute_lt_scalar_def cs)
  show "compute_ge_scalar be a v = CompareScalar_kernel ''ge_scalar'' v a"
    by (simp add: compute_ge_scalar_def cs int_le_iff)
  show "compute_le_scalar be a v = CompareScalar_kernel ''le_scalar'' v a"
    by (simp add: compute_le_scalar_def cs int_le_iff [symmetric] eq_commute)
  show "compute_eq_scalar be a v = CompareScalar_kernel ''eq_scalar'' v a" by (simp add: compute_eq_scalar_def cs)
  show "compute_sum be a = tensor_sum a" by (simp add: compute_sum_def tensor_sum_def a(2) is_int_def)
qed

text \<open>Every kernel on one float64 tensor.\<close>

lemma float64_agree1:
  assumes a: "tensor_ok a" "t_dtype a = kFloat64"
  shows "compute_neg be a = Unary_kernel ''neg'' a" "compute_abs be a = Unary_kernel ''abs'' a"
    "compute_square be a = Unary_kernel ''square'' a" "compute_sqrt be a = Unary_kernel ''sqrt'' a"
    "compute_add_scalar be a v = ScalarArith_kernel CHR ''+'' v a"
    "compute_sub_scalar be a v = ScalarArith_kernel CHR ''-'' v a"
    "compute_mul_scalar be a v = ScalarArith_kernel CHR ''*'' v a"
    "compute_div_scalar be a v = ScalarArith_kernel CHR ''/'' v a"
    "compute_gt_scalar be a v = CompareScalar_kernel ''gt_scalar'' v a"
    "compute_lt_scalar be a v = CompareScalar_kernel ''lt_scalar'' v a"
    "compute_ge_scalar be a v = CompareScalar_kernel ''ge_scalar'' v a"
    "compute_le_scalar be a v = CompareScalar_kernel ''le_scalar'' v a"
    "compute_eq_scalar be a v = CompareScalar_kernel ''eq_scalar'' v a"
    "all_finite a \<Longrightarrow> compute_sum be a = tensor_sum a"
proof -
  obtain xs where xs: "elems a = map CF64 xs" "length xs = t_size a" "data_as kFloat64 (t_size a) a = Ok (map CF64 xs)"
    using float64_elems [OF a] .
  have eq: "elementwise_unary a kFloat64 fn = Ok (filled kFloat64 (map (\<lambda>x. fn (CF64 x)) xs))" for fn
    using elementwise_unary_eq [OF a(1), of kFloat64 fn] a(2) xs(1) by (simp add: comp_def)
  note loop = f64_loop1_ok [OF a xs(1)]
  note un = Unary_kernel_def eq loop kernel_cells comp_def a(2)
  show "compute_neg be a = Unary_kernel ''neg'' a" by (simp add: compute_neg_def un vec_neg_map)
  show "compute_abs be a = Unary_kernel ''abs'' a" by (simp add: compute_abs_def un fabs_if)
  show "compute_square be a = Unary_kernel ''square'' a"
    by (simp add: compute_square_def un zip_same_conv_map)
  show "compute_sqrt be a = Unary_kernel ''sqrt'' a" by (simp add: compute_sqrt_def un)
  note sc = ScalarArith_kernel_def elementwise_scalar_unary f64_scalar_ok [OF a xs(1)] Let_def un
  show "compute_add_scalar be a v = ScalarArith_kernel CHR ''+'' v a" by (simp add: compute_add_scalar_def sc)
  show "compute_sub_scalar be a v = ScalarArith_kernel CHR ''-'' v a" by (simp add: compute_sub_scalar_def sc)
  show "compute_mul_scalar be a v = ScalarArith_kernel CHR ''*'' v a" by (simp add: compute_mul_scalar_def sc)
  show "compute_div_scalar be a v = ScalarArith_kernel CHR ''/'' v a" by (simp add: compute_div_scalar_def sc)
  note cs = CompareScalar_kernel_def cmp_scalar_def for_each_scalar_type_def xs fill_new
    Let_def cmp_f64_ts_ok [OF a xs(1)] comp_def a(2)
  show "compute_gt_scalar be a v = CompareScalar_kernel ''gt_scalar'' v a" by (simp add: compute_gt_scalar_def cs)
  show "compute_lt_scalar be a v = CompareScalar_kernel ''lt_scalar'' v a" by (simp add: compute_lt_scalar_def cs)
  have ge: "flt_le y x \<longleftrightarrow> flt_lt y x \<or> flt_eq x y" for x y by (auto simp: flt_le_def flt_eq_iff)
  show "compute_ge_scalar be a v = CompareScalar_kernel ''ge_scalar'' v a"
    by (simp add: compute_ge_scalar_def cs ge)
  show "compute_le_scalar be a v = CompareScalar_kernel ''le_scalar'' v a"
    by (simp add: compute_le_scalar_def cs flt_le_def)
  show "compute_eq_scalar be a v = CompareScalar_kernel ''eq_scalar'' v a" by (simp add: compute_eq_scalar_def cs)
  show "compute_sum be a = tensor_sum a" if "all_finite a"
  proof -
    have "xs = map Fin (map fin xs)" using that by (auto simp: all_finite_def xs(1) list_all_iff intro!: map_idI [symmetric])
    then obtain rs where rs: "xs = map Fin rs" by blast
    have zero: "replicate (lanes be) (Fin 0) = map Fin (replicate (lanes be) 0)" by simp
    have "vec_sum be (replicate (lanes be) (Fin 0)) xs = Fin (sum_list rs)"
      unfolding zero rs by (subst vec_sum_Fin) (simp_all add: sum_list_replicate)
    then show ?thesis
      using fold_fadd_map_Fin [of rs 0]
      by (simp add: compute_sum_def tensor_sum_def a(2) is_int_def xs rs fold_map comp_def)
  qed
qed

text \<open>Two tensors of the same type and length.\<close>

lemma Compare_eq:
  assumes "tensor_ok a" "tensor_ok b" "t_dtype b = t_dtype a" "t_size b = t_size a" "t_dtype a \<noteq> kQ8_0"
  shows "Compare_kernel k a b = Ok (filled kInt64 (map2 (cmp k) (elems a) (elems b)))"
proof -
  have "promote (t_dtype a) (t_dtype a) = t_dtype a" by (simp add: promote_def)
  moreover have "data_as (t_dtype a) (t_size a) b = Ok (elems b)"
    using data_as_ok [OF assms(2)] assms(3,4) by simp
  ultimately show ?thesis
    using assms data_as_ok [OF assms(1)] length_elems [OF assms(1)] length_elems [OF assms(2)]
    by (simp add: Compare_kernel_def Let_def for_each_scalar_type_def as_dtype_def fill_new)
qed

lemma int64_agree2:
  assumes ab: "tensor_ok a" "t_dtype a = kInt64" "tensor_ok b" "t_dtype b = kInt64" "t_size b = t_size a"
  shows "compute_add be a b = BinaryArith_kernel CHR ''+'' a b" "compute_sub be a b = BinaryArith_kernel CHR ''-'' a b"
    "compute_mul be a b = BinaryArith_kernel CHR ''*'' a b" "compute_div be a b = BinaryArith_kernel CHR ''/'' a b"
    "compute_gt be a b = Compare_kernel ''gt'' a b" "compute_lt be a b = Compare_kernel ''lt'' a b"
    "compute_ge be a b = Compare_kernel ''ge'' a b" "compute_le be a b = Compare_kernel ''le'' a b"
    "compute_eq be a b = Compare_kernel ''eq'' a b"
proof -
  obtain ws where ws: "elems a = map CI64 ws" "length ws = t_size a" "data_as kInt64 (t_size a) a = Ok (map CI64 ws)"
    using int64_elems [OF ab(1,2)] .
  obtain vs where vs: "elems b = map CI64 vs" "length vs = t_size a" "data_as kInt64 (t_size a) b = Ok (map CI64 vs)"
    using int64_elems [OF ab(3,4)] ab(5) by metis
  have eq: "elementwise_binary a b out fn =
      Ok (filled out (map (\<lambda>p. fn (cast_cell out (CI64 (fst p))) (cast_cell out (CI64 (snd p)))) (zip ws vs)))"
    if "out \<noteq> kQ8_0" for out fn
    using elementwise_binary_eq [OF ab(1,3,5) that] ab(2,4) ws(1) vs(1)
    by (simp add: zip_map_map comp_def case_prod_unfold)
  note loop = i64_loop2_ok [OF ab(1,2) ws(1) ab(3,4) vs(1) ab(5)]
  note bin = BinaryArith_kernel_def eq loop kernel_cells comp_def ab(2,4) promote_def case_prod_unfold
  show "compute_add be a b = BinaryArith_kernel CHR ''+'' a b" by (simp add: compute_add_def bin)
  show "compute_sub be a b = BinaryArith_kernel CHR ''-'' a b" by (simp add: compute_sub_def bin)
  show "compute_mul be a b = BinaryArith_kernel CHR ''*'' a b" by (simp add: compute_mul_def bin)
  show "compute_div be a b = BinaryArith_kernel CHR ''/'' a b"
    by (simp add: compute_div_def bin ws vs fill_new Let_def zip_map_map)
  have "Compare_kernel k a b = Ok (filled kInt64 (map (\<lambda>p. cmp k (CI64 (fst p)) (CI64 (snd p))) (zip ws vs)))" for k
    using Compare_eq [OF ab(1,3) _ ab(5)] ab(2,4) ws(1) vs(1) by (simp add: zip_map_map comp_def case_prod_unfold)
  note cs = this cmp_def cmp_int64_tt_def loop comp_def ab(2) of_bool_def case_prod_unfold
  show "compute_gt be a b = Compare_kernel ''gt'' a b" by (simp add: compute_gt_def cs)
  show "compute_lt be a b = Compare_kernel ''lt'' a b" by (simp add: compute_lt_def cs)
  show "compute_ge be a b = Compare_kernel ''ge'' a b" by (simp add: compute_ge_def cs int_le_iff)
  show "compute_le be a b = Compare_kernel ''le'' a b"
    by (simp add: compute_le_def cs int_le_iff [symmetric] eq_commute)
  show "compute_eq be a b = Compare_kernel ''eq'' a b" by (simp add: compute_eq_def cs)
qed

lemma float64_agree2:
  assumes ab: "tensor_ok a" "t_dtype a = kFloat64" "tensor_ok b" "t_dtype b = kFloat64" "t_size b = t_size a"
  shows "compute_add be a b = BinaryArith_kernel CHR ''+'' a b" "compute_sub be a b = BinaryArith_kernel CHR ''-'' a b"
    "compute_mul be a b = BinaryArith_kernel CHR ''*'' a b" "compute_div be a b = BinaryArith_kernel CHR ''/'' a b"
    "compute_gt be a b = Compare_kernel ''gt'' a b" "compute_lt be a b = Compare_kernel ''lt'' a b"
    "compute_ge be a b = Compare_kernel ''ge'' a b" "compute_le be a b = Compare_kernel ''le'' a b"
    "compute_eq be a b = Compare_kernel ''eq'' a b"
proof -
  obtain xs where xs: "elems a = map CF64 xs" "length xs = t_size a" "data_as kFloat64 (t_size a) a = Ok (map CF64 xs)"
    using float64_elems [OF ab(1,2)] .
  obtain ys where ys: "elems b = map CF64 ys" "length ys = t_size a" "data_as kFloat64 (t_size a) b = Ok (map CF64 ys)"
    using float64_elems [OF ab(3,4)] ab(5) by metis
  have eq: "elementwise_binary a b kFloat64 fn = Ok (filled kFloat64 (map (\<lambda>p. fn (CF64 (fst p)) (CF64 (snd p))) (zip xs ys)))" for fn
    using elementwise_binary_eq [OF ab(1,3,5), of kFloat64 fn] ab(2,4) xs(1) ys(1)
    by (simp add: zip_map_map comp_def case_prod_unfold)
  note loop = f64_loop2_ok [OF ab(1,2) xs(1) ab(3,4) ys(1) ab(5)]
  note bin = BinaryArith_kernel_def eq loop kernel_cells comp_def ab(2,4) promote_def case_prod_unfold
  show "compute_add be a b = BinaryArith_kernel CHR ''+'' a b" by (simp add: compute_add_def bin)
  show "compute_sub be a b = BinaryArith_kernel CHR ''-'' a b" by (simp add: compute_sub_def bin)
  show "compute_mul be a b = BinaryArith_kernel CHR ''*'' a b" by (simp add: compute_mul_def bin)
  show "compute_div be a b = BinaryArith_kernel CHR ''/'' a b" by (simp add: compute_div_def bin)
  have "Compare_kernel k a b = Ok (filled kInt64 (map (\<lambda>p. cmp k (CF64 (fst p)) (CF64 (snd p))) (zip xs ys)))" for k
    using Compare_eq [OF ab(1,3) _ ab(5)] ab(2,4) xs(1) ys(1) by (simp add: zip_map_map comp_def case_prod_unfold)
  note cs = this cmp_def cmp_f64_tt_ok [OF ab(1,2) xs(1) ab(3,4) ys(1) ab(5)] comp_def ab(2) case_prod_unfold
  show "compute_gt be a b = Compare_kernel ''gt'' a b" by (simp add: compute_gt_def cs)
  show "compute_lt be a b = Compare_kernel ''lt'' a b" by (simp add: compute_lt_def cs)
  have ge: "flt_le y x \<longleftrightarrow> flt_lt y x \<or> flt_eq x y" for x y by (auto simp: flt_le_def flt_eq_iff)
  show "compute_ge be a b = Compare_kernel ''ge'' a b" by (simp add: compute_ge_def cs ge)
  show "compute_le be a b = Compare_kernel ''le'' a b" by (simp add: compute_le_def cs flt_le_def)
  show "compute_eq be a b = Compare_kernel ''eq'' a b" by (simp add: compute_eq_def cs)
qed



text \<open>Outside those inputs: a second operand whose buffer is shorter is read past its end, and an int32
  or float32 tensor is read as doubles.\<close>

lemma compute_add_short_operand:
  assumes "tensor_ok a" "t_dtype a = kFloat64" "t_dtype b = kFloat64" "length (t_data b) < t_size a"
  shows "\<exists>m. compute_add be a b = Throw (Undefined m)"
  using assms tensor_ok_length [OF assms(1)] by (simp add: compute_add_def f64_loop2_def data_as_def)

lemma compute_neg_int32: "t_dtype a = kInt32 \<Longrightarrow> \<exists>m. compute_neg be a = Throw (Undefined m)"
  by (simp add: compute_neg_def f64_loop1_def data_as_def)

end
