(* ===== verification/TensorExpr.thy ===== *)
theory TensorExpr
  imports Simd
begin

text \<open>
  The operators of \<^verbatim>\<open>column/column_engine.h\<close>: arithmetic on whole tensors over the vector kernels.  An expression a
  program writes with them is a tree; what it evaluates to is the same on every instruction set, element by element
  the value of the expression on the elements, and mixing int64 with float64 throws.
\<close>

section \<open>Model\<close>

definition operator_plus :: "SimdBackend \<Rightarrow> Tensor \<Rightarrow> Tensor \<Rightarrow> Tensor res" where
  "operator_plus be a b = compute_add be a b"

definition operator_minus :: "SimdBackend \<Rightarrow> Tensor \<Rightarrow> Tensor \<Rightarrow> Tensor res" where
  "operator_minus be a b = compute_sub be a b"

definition operator_times :: "SimdBackend \<Rightarrow> Tensor \<Rightarrow> Tensor \<Rightarrow> Tensor res" where
  "operator_times be a b = compute_mul be a b"

definition operator_divide :: "SimdBackend \<Rightarrow> Tensor \<Rightarrow> Tensor \<Rightarrow> Tensor res" where
  "operator_divide be a b = compute_div be a b"

definition operator_plus_scalar :: "SimdBackend \<Rightarrow> Tensor \<Rightarrow> flt \<Rightarrow> Tensor res" where
  "operator_plus_scalar be a v = compute_add_scalar be a v"

definition operator_minus_scalar :: "SimdBackend \<Rightarrow> Tensor \<Rightarrow> flt \<Rightarrow> Tensor res" where
  "operator_minus_scalar be a v = compute_sub_scalar be a v"

definition operator_times_scalar :: "SimdBackend \<Rightarrow> Tensor \<Rightarrow> flt \<Rightarrow> Tensor res" where
  "operator_times_scalar be a v = compute_mul_scalar be a v"

definition operator_divide_scalar :: "SimdBackend \<Rightarrow> Tensor \<Rightarrow> flt \<Rightarrow> Tensor res" where
  "operator_divide_scalar be a v = compute_div_scalar be a v"

definition operator_scalar_plus :: "SimdBackend \<Rightarrow> flt \<Rightarrow> Tensor \<Rightarrow> Tensor res" where
  "operator_scalar_plus be v a = compute_add_scalar be a v"

definition operator_scalar_times :: "SimdBackend \<Rightarrow> flt \<Rightarrow> Tensor \<Rightarrow> Tensor res" where
  "operator_scalar_times be v a = compute_mul_scalar be a v"

definition operator_negate :: "SimdBackend \<Rightarrow> Tensor \<Rightarrow> Tensor res" where
  "operator_negate be a = compute_neg be a"

lemmas operator_defs = operator_plus_def operator_minus_def operator_times_def operator_divide_def
  operator_plus_scalar_def operator_minus_scalar_def operator_times_scalar_def operator_divide_scalar_def
  operator_scalar_plus_def operator_scalar_times_def operator_negate_def

text \<open>Expressions of a program, and their value by the operators.\<close>

datatype texpr =
    Operand nat
  | Plus texpr texpr
  | Minus texpr texpr
  | Times texpr texpr
  | Divide texpr texpr
  | PlusScalar texpr flt
  | MinusScalar texpr flt
  | TimesScalar texpr flt
  | DivideScalar texpr flt
  | ScalarPlus flt texpr
  | ScalarTimes flt texpr
  | Negate texpr

fun eval_texpr :: "SimdBackend \<Rightarrow> (nat \<Rightarrow> Tensor) \<Rightarrow> texpr \<Rightarrow> Tensor res" where
  "eval_texpr be env (Operand x) = Ok (env x)"
| "eval_texpr be env (Plus a b) = bindR (eval_texpr be env a) (\<lambda>s. bindR (eval_texpr be env b) (operator_plus be s))"
| "eval_texpr be env (Minus a b) = bindR (eval_texpr be env a) (\<lambda>s. bindR (eval_texpr be env b) (operator_minus be s))"
| "eval_texpr be env (Times a b) = bindR (eval_texpr be env a) (\<lambda>s. bindR (eval_texpr be env b) (operator_times be s))"
| "eval_texpr be env (Divide a b) = bindR (eval_texpr be env a) (\<lambda>s. bindR (eval_texpr be env b) (operator_divide be s))"
| "eval_texpr be env (PlusScalar a v) = bindR (eval_texpr be env a) (\<lambda>s. operator_plus_scalar be s v)"
| "eval_texpr be env (MinusScalar a v) = bindR (eval_texpr be env a) (\<lambda>s. operator_minus_scalar be s v)"
| "eval_texpr be env (TimesScalar a v) = bindR (eval_texpr be env a) (\<lambda>s. operator_times_scalar be s v)"
| "eval_texpr be env (DivideScalar a v) = bindR (eval_texpr be env a) (\<lambda>s. operator_divide_scalar be s v)"
| "eval_texpr be env (ScalarPlus v a) = bindR (eval_texpr be env a) (operator_scalar_plus be v)"
| "eval_texpr be env (ScalarTimes v a) = bindR (eval_texpr be env a) (operator_scalar_times be v)"
| "eval_texpr be env (Negate a) = bindR (eval_texpr be env a) (operator_negate be)"

section \<open>What an expression means\<close>

text \<open>The element type, if the operands of every binary operator agree; division gives float64.\<close>

definition agree :: "DType option \<Rightarrow> DType option \<Rightarrow> DType option" where
  "agree s t = (if s = t then s else None)"

fun texpr_type :: "(nat \<Rightarrow> DType) \<Rightarrow> texpr \<Rightarrow> DType option" where
  "texpr_type tys (Operand x) = Some (tys x)"
| "texpr_type tys (Plus a b) = agree (texpr_type tys a) (texpr_type tys b)"
| "texpr_type tys (Minus a b) = agree (texpr_type tys a) (texpr_type tys b)"
| "texpr_type tys (Times a b) = agree (texpr_type tys a) (texpr_type tys b)"
| "texpr_type tys (Divide a b) = map_option (\<lambda>_. kFloat64) (agree (texpr_type tys a) (texpr_type tys b))"
| "texpr_type tys (PlusScalar a v) = texpr_type tys a"
| "texpr_type tys (MinusScalar a v) = texpr_type tys a"
| "texpr_type tys (TimesScalar a v) = texpr_type tys a"
| "texpr_type tys (DivideScalar a v) = map_option (\<lambda>_. kFloat64) (texpr_type tys a)"
| "texpr_type tys (ScalarPlus v a) = texpr_type tys a"
| "texpr_type tys (ScalarTimes v a) = texpr_type tys a"
| "texpr_type tys (Negate a) = texpr_type tys a"

text \<open>The scalar of an operator takes the type of the element: for int64 it is truncated.\<close>

definition as_elem :: "cell \<Rightarrow> flt \<Rightarrow> cell" where
  "as_elem c v = cell_of_flt (cell_type c) v"

fun texpr_elem :: "(nat \<Rightarrow> cell) \<Rightarrow> texpr \<Rightarrow> cell" where
  "texpr_elem val (Operand x) = val x"
| "texpr_elem val (Plus a b) = cell_add (texpr_elem val a) (texpr_elem val b)"
| "texpr_elem val (Minus a b) = cell_sub (texpr_elem val a) (texpr_elem val b)"
| "texpr_elem val (Times a b) = cell_mul (texpr_elem val a) (texpr_elem val b)"
| "texpr_elem val (Divide a b) = cell_div (texpr_elem val a) (texpr_elem val b)"
| "texpr_elem val (PlusScalar a v) = cell_add (texpr_elem val a) (as_elem (texpr_elem val a) v)"
| "texpr_elem val (MinusScalar a v) = cell_sub (texpr_elem val a) (as_elem (texpr_elem val a) v)"
| "texpr_elem val (TimesScalar a v) = cell_mul (texpr_elem val a) (as_elem (texpr_elem val a) v)"
| "texpr_elem val (DivideScalar a v) = cell_div (texpr_elem val a) (CF64 v)"
| "texpr_elem val (ScalarPlus v a) = cell_add (texpr_elem val a) (as_elem (texpr_elem val a) v)"
| "texpr_elem val (ScalarTimes v a) = cell_mul (texpr_elem val a) (as_elem (texpr_elem val a) v)"
| "texpr_elem val (Negate a) = cell_neg (texpr_elem val a)"

section \<open>One operator\<close>

definition holds :: "DType \<Rightarrow> (nat \<Rightarrow> cell) \<Rightarrow> nat \<Rightarrow> Tensor \<Rightarrow> bool" where
  "holds ty f n t = (tensor_ok t \<and> t_dtype t = ty \<and> t_size t = n \<and> elems t = map f [0..<n])"

lemma holdsD:
  assumes "holds ty f n t"
  shows "tensor_ok t" "t_dtype t = ty" "t_size t = n" "elems t = map f [0..<n]" "i < n \<Longrightarrow> cell_type (f i) = ty"
  using assms elems_type [of t "f i"] by (simp_all add: holds_def)

lemma holds_filled:
  assumes "ty \<noteq> kQ8_0" "\<And>i. i < n \<Longrightarrow> cell_type (f i) = ty"
  shows "holds ty f n (filled ty (map f [0..<n]))"
  using assms by (auto simp: holds_def tensor_ok_def elems_def slots_def list_all_iff cell_ok_scalar)

lemma cell_flt_wide: "cell_type c \<in> {kInt64, kFloat64} \<Longrightarrow> cell_flt (cast_cell kFloat64 c) = cell_flt c"
  by (cases c) auto

lemma cell_op_type:
  assumes "cell_type x = ty" "cell_type y = ty"
  shows "cell_type (cell_add x y) = ty" "cell_type (cell_sub x y) = ty" "cell_type (cell_mul x y) = ty"
    "cell_type (cell_neg x) = ty"
  using assms by (cases x; cases y; simp add: kernel_cells)+

lemma binary_holds:
  assumes a: "holds ty f n a" and b: "holds ty g n b" and ty: "ty \<in> {kInt64, kFloat64}"
  shows "\<exists>t. operator_plus be a b = Ok t \<and> holds ty (\<lambda>i. cell_add (f i) (g i)) n t"
    "\<exists>t. operator_minus be a b = Ok t \<and> holds ty (\<lambda>i. cell_sub (f i) (g i)) n t"
    "\<exists>t. operator_times be a b = Ok t \<and> holds ty (\<lambda>i. cell_mul (f i) (g i)) n t"
    "\<exists>t. operator_divide be a b = Ok t \<and> holds kFloat64 (\<lambda>i. cell_div (f i) (g i)) n t"
proof -
  note A = holdsD [OF a] and B = holdsD [OF b]
  have q: "ty \<noteq> kQ8_0" "promote ty ty = ty" using ty by (auto simp: promote_def)
  have eq: "elementwise_binary a b out fn = Ok (filled out (map (\<lambda>i. h (f i) (g i)) [0..<n]))"
    if "out \<noteq> kQ8_0" "\<And>x y. cell_type x = ty \<Longrightarrow> cell_type y = ty \<Longrightarrow> fn (cast_cell out x) (cast_cell out y) = h x y" for out fn h
    using elementwise_binary_eq [OF A(1) B(1) _ that(1)] A(2-5) B(2-5) q(1) that(2)
    by (auto simp: map2_map_map intro!: map_cong)
  have self: "cast_cell ty x = x" if "cell_type x = ty" for x using that q(1) by (simp add: cast_cell_same)
  have div: "cell_div (cast_cell kFloat64 x) (cast_cell kFloat64 y) = cell_div x y" if "cell_type x = ty" "cell_type y = ty" for x y
    using that ty by (simp add: cell_div_def cell_flt_wide)
  note agr = int64_agree2(1-4) [OF A(1) _ B(1)] float64_agree2(1-4) [OF A(1) _ B(1)]
  have k: "operator_plus be a b = elementwise_binary a b ty cell_add" "operator_minus be a b = elementwise_binary a b ty cell_sub"
    "operator_times be a b = elementwise_binary a b ty cell_mul" "operator_divide be a b = elementwise_binary a b kFloat64 cell_div"
    using ty A(2,3) B(2,3) agr q(2) by (auto simp: operator_defs BinaryArith_kernel_def)
  show "\<exists>t. operator_plus be a b = Ok t \<and> holds ty (\<lambda>i. cell_add (f i) (g i)) n t"
    "\<exists>t. operator_minus be a b = Ok t \<and> holds ty (\<lambda>i. cell_sub (f i) (g i)) n t"
    "\<exists>t. operator_times be a b = Ok t \<and> holds ty (\<lambda>i. cell_mul (f i) (g i)) n t"
    using eq [OF q(1), of cell_add cell_add] eq [OF q(1), of cell_sub cell_sub] eq [OF q(1), of cell_mul cell_mul] k self
      holds_filled [OF q(1)] cell_op_type [OF A(5) B(5)] by auto
  show "\<exists>t. operator_divide be a b = Ok t \<and> holds kFloat64 (\<lambda>i. cell_div (f i) (g i)) n t"
    using eq [of kFloat64 cell_div cell_div] k(4) div holds_filled [of kFloat64 n "\<lambda>i. cell_div (f i) (g i)"] by (auto simp: cell_div_def)
qed

lemma unary_holds:
  assumes a: "holds ty f n a" and ty: "ty \<in> {kInt64, kFloat64}"
  shows "\<exists>t. operator_plus_scalar be a v = Ok t \<and> holds ty (\<lambda>i. cell_add (f i) (as_elem (f i) v)) n t"
    "\<exists>t. operator_minus_scalar be a v = Ok t \<and> holds ty (\<lambda>i. cell_sub (f i) (as_elem (f i) v)) n t"
    "\<exists>t. operator_times_scalar be a v = Ok t \<and> holds ty (\<lambda>i. cell_mul (f i) (as_elem (f i) v)) n t"
    "\<exists>t. operator_divide_scalar be a v = Ok t \<and> holds kFloat64 (\<lambda>i. cell_div (f i) (CF64 v)) n t"
    "\<exists>t. operator_negate be a = Ok t \<and> holds ty (\<lambda>i. cell_neg (f i)) n t"
proof -
  note A = holdsD [OF a]
  have q: "ty \<noteq> kQ8_0" "promote_scalar ty = ty" using ty by (auto simp: promote_scalar_def)
  have eq: "elementwise_unary a out fn = Ok (filled out (map (\<lambda>i. h (f i)) [0..<n]))"
    if "out \<noteq> kQ8_0" "\<And>x. cell_type x = ty \<Longrightarrow> fn (cast_cell out x) = h x" for out fn h
    using elementwise_unary_eq [OF A(1) that(1)] A(2-5) q(1) that(2) by (auto intro!: map_cong)
  have self: "cast_cell ty x = x" "as_elem x v = cell_of_flt ty v" "cell_type (cell_of_flt ty v) = ty" if "cell_type x = ty" for x
  proof -
    show "cast_cell ty x = x" by (rule cast_cell_same [OF that q(1)])
  qed (use that ty in \<open>auto simp: as_elem_def\<close>)
  note agr = int64_agree1(1-8) [OF A(1)] float64_agree1(1-8) [OF A(1)]
  have k: "operator_plus_scalar be a v = elementwise_unary a ty (\<lambda>x. cell_add x (cell_of_flt ty v))"
    "operator_minus_scalar be a v = elementwise_unary a ty (\<lambda>x. cell_sub x (cell_of_flt ty v))"
    "operator_times_scalar be a v = elementwise_unary a ty (\<lambda>x. cell_mul x (cell_of_flt ty v))"
    "operator_divide_scalar be a v = elementwise_unary a kFloat64 (\<lambda>x. cell_div x (CF64 v))"
    "operator_negate be a = elementwise_unary a ty cell_neg"
    using ty A(2) agr q(2) by (auto simp: operator_defs ScalarArith_kernel_def Unary_kernel_def elementwise_scalar_unary Let_def)
  note ty_ok = cell_op_type [OF A(5) self(3) [OF A(5)]]
  show "\<exists>t. operator_plus_scalar be a v = Ok t \<and> holds ty (\<lambda>i. cell_add (f i) (as_elem (f i) v)) n t"
    using eq [OF q(1), of _ "\<lambda>x. cell_add x (as_elem x v)"] k(1) self holds_filled [OF q(1)] ty_ok(1) A(5) by auto
  show "\<exists>t. operator_minus_scalar be a v = Ok t \<and> holds ty (\<lambda>i. cell_sub (f i) (as_elem (f i) v)) n t"
    using eq [OF q(1), of _ "\<lambda>x. cell_sub x (as_elem x v)"] k(2) self holds_filled [OF q(1)] ty_ok(2) A(5) by auto
  show "\<exists>t. operator_times_scalar be a v = Ok t \<and> holds ty (\<lambda>i. cell_mul (f i) (as_elem (f i) v)) n t"
    using eq [OF q(1), of _ "\<lambda>x. cell_mul x (as_elem x v)"] k(3) self holds_filled [OF q(1)] ty_ok(3) A(5) by auto
  show "\<exists>t. operator_negate be a = Ok t \<and> holds ty (\<lambda>i. cell_neg (f i)) n t"
    using eq [OF q(1), of cell_neg cell_neg] k(5) self holds_filled [OF q(1)] ty_ok(4) by auto
  have "cell_div (cast_cell kFloat64 x) (CF64 v) = cell_div x (CF64 v)" if "cell_type x = ty" for x
    using that ty by (simp add: cell_div_def cell_flt_wide)
  then show "\<exists>t. operator_divide_scalar be a v = Ok t \<and> holds kFloat64 (\<lambda>i. cell_div (f i) (CF64 v)) n t"
    using eq [of kFloat64 _ "\<lambda>x. cell_div x (CF64 v)"] k(4) holds_filled [of kFloat64 n "\<lambda>i. cell_div (f i) (CF64 v)"]
    by (auto simp: cell_div_def)
qed

lemma scalar_left: "operator_scalar_plus be v a = operator_plus_scalar be a v" "operator_scalar_times be v a = operator_times_scalar be a v"
  by (simp_all add: operator_defs)

lemma binary_mismatch:
  assumes "t_dtype a \<noteq> t_dtype b"
  shows "\<exists>m. operator_plus be a b = Throw (RuntimeError m)" "\<exists>m. operator_minus be a b = Throw (RuntimeError m)"
    "\<exists>m. operator_times be a b = Throw (RuntimeError m)" "\<exists>m. operator_divide be a b = Throw (RuntimeError m)"
  using assms by (simp_all add: operator_defs compute_add_def compute_sub_def compute_mul_def compute_div_def)

section \<open>Expressions\<close>

text \<open>What evaluating an expression of a given type gives; \<^verbatim>\<open>None\<close> is a type mismatch somewhere inside.\<close>

definition evaluates :: "Tensor res \<Rightarrow> DType option \<Rightarrow> (nat \<Rightarrow> cell) \<Rightarrow> nat \<Rightarrow> bool" where
  "evaluates r ty f n = (case ty of
     None \<Rightarrow> \<exists>m. r = Throw (RuntimeError m)
   | Some d \<Rightarrow> d \<in> {kInt64, kFloat64} \<and> (\<exists>t. r = Ok t \<and> holds d f n t))"

lemma evaluates_binary:
  assumes "evaluates r s f n" "evaluates r' s' g n"
    and "\<And>d t u. d \<in> {kInt64, kFloat64} \<Longrightarrow> holds d f n t \<Longrightarrow> holds d g n u \<Longrightarrow> \<exists>w. op t u = Ok w \<and> holds (out d) h n w"
    and "\<And>t u. t_dtype t \<noteq> t_dtype u \<Longrightarrow> \<exists>m. op t u = Throw (RuntimeError m)"
    and "\<And>d. d \<in> {kInt64, kFloat64} \<Longrightarrow> out d \<in> {kInt64, kFloat64}"
  shows "evaluates (bindR r (\<lambda>t. bindR r' (op t))) (map_option out (agree s s')) h n"
proof (cases s; cases s')
  fix d d'
  assume s: "s = Some d" "s' = Some d'"
  obtain t where t: "r = Ok t" "holds d f n t" "d \<in> {kInt64, kFloat64}" using assms(1) s by (auto simp: evaluates_def)
  obtain u where u: "r' = Ok u" "holds d' g n u" using assms(2) s by (auto simp: evaluates_def)
  show ?thesis
  proof (cases "d = d'")
    case True
    then show ?thesis using assms(3) [OF t(3,2)] assms(5) [OF t(3)] s t u by (auto simp: evaluates_def agree_def)
  next
    case False
    then show ?thesis using assms(4) [of t u] holdsD(2) [OF t(2)] holdsD(2) [OF u(2)] s t u by (auto simp: evaluates_def agree_def)
  qed
qed (use assms(1,2) in \<open>auto simp: evaluates_def agree_def\<close>)

lemma evaluates_unary:
  assumes "evaluates r s f n"
    and "\<And>d t. d \<in> {kInt64, kFloat64} \<Longrightarrow> holds d f n t \<Longrightarrow> \<exists>w. op t = Ok w \<and> holds (out d) h n w"
    and "\<And>d. d \<in> {kInt64, kFloat64} \<Longrightarrow> out d \<in> {kInt64, kFloat64}"
  shows "evaluates (bindR r op) (map_option out s) h n"
  using assms(1) assms(2,3) by (cases s) (fastforce simp: evaluates_def)+

lemmas evaluates_same = evaluates_binary [where out = "\<lambda>d. d", unfolded option.map_ident]
  evaluates_unary [where out = "\<lambda>d. d", unfolded option.map_ident]

text \<open>On every instruction set, an expression over int64 and float64 tensors of one length gives a well-formed tensor of the
  predicted type that holds, at each position, the expression's value on the elements; where int64 meets float64 it throws.
  (Of two subexpressions that throw, which one is evaluated first is left open by the language; both throw the same type.)\<close>

theorem texpr_elementwise:
  assumes "\<And>x. tensor_ok (env x) \<and> t_dtype (env x) \<in> {kInt64, kFloat64} \<and> t_size (env x) = n"
  shows "evaluates (eval_texpr be env e) (texpr_type (t_dtype \<circ> env) e) (\<lambda>i. texpr_elem (\<lambda>x. elems (env x) ! i) e) n"
proof (induction e)
  case (Operand x)
  have "slots (t_dtype (env x)) n = n" using assms [of x] by (auto simp: slots_def)
  then have "length (elems (env x)) = n" using length_elems [of "env x"] assms [of x] by simp
  then have "elems (env x) = map (\<lambda>i. elems (env x) ! i) [0..<n]" using map_nth [of "elems (env x)"] by simp
  then show ?case using assms [of x] by (simp add: evaluates_def holds_def)
next
  case (Plus a b)
  then show ?case unfolding eval_texpr.simps texpr_type.simps texpr_elem.simps
    by (rule evaluates_same(1)) (use binary_holds(1) binary_mismatch(1) in blast)+
next
  case (Minus a b)
  then show ?case unfolding eval_texpr.simps texpr_type.simps texpr_elem.simps
    by (rule evaluates_same(1)) (use binary_holds(2) binary_mismatch(2) in blast)+
next
  case (Times a b)
  then show ?case unfolding eval_texpr.simps texpr_type.simps texpr_elem.simps
    by (rule evaluates_same(1)) (use binary_holds(3) binary_mismatch(3) in blast)+
next
  case (Divide a b)
  then show ?case unfolding eval_texpr.simps texpr_type.simps texpr_elem.simps
    by (rule evaluates_binary) (use binary_holds(4) binary_mismatch(4) in blast)+
next
  case (DivideScalar a v)
  then show ?case unfolding eval_texpr.simps texpr_type.simps texpr_elem.simps
    by (rule evaluates_unary) (use unary_holds(4) in blast)+
next
  case (Negate a)
  then show ?case unfolding eval_texpr.simps texpr_type.simps texpr_elem.simps
    by (rule evaluates_same(2)) (use unary_holds(5) in blast)+
qed (auto intro!: evaluates_same(2) unary_holds(1-3) simp: scalar_left)

corollary texpr_backend_independent:
  assumes "\<And>x. tensor_ok (env x) \<and> t_dtype (env x) \<in> {kInt64, kFloat64} \<and> t_size (env x) = n"
    and "eval_texpr be env e = Ok t" "eval_texpr be' env e = Ok u"
  shows "t_dtype t = t_dtype u \<and> t_size t = t_size u \<and> elems t = elems u"
  using texpr_elementwise [of env n be e] texpr_elementwise [of env n be' e] assms
  by (auto simp: evaluates_def holds_def split: option.splits)

end
