(* ===== verification/TableGraph.thy ===== *)
theory TableGraph
  imports TensorStore
begin

text \<open>
  \<^verbatim>\<open>column/node/*.{h,cpp}\<close> and \<^verbatim>\<open>column/graph.{h,cpp}\<close>: the linear table pipeline of filter, transform and aggregate nodes.
  The functions a node is built with are arbitrary and may throw.  A filter copies bytes with \<^verbatim>\<open>memcpy\<close>, one element width at a
  time: reading or writing past a buffer has no defined result.
\<close>

section \<open>Model\<close>

datatype TableNode =
    FilterNode "TensorTable \<Rightarrow> Tensor res"
  | TransformNode string "TensorTable \<Rightarrow> Tensor res"
  | AggregateNode "TensorTable \<Rightarrow> TensorTable res"

fun node_type :: "TableNode \<Rightarrow> string" where
  "node_type (FilterNode _) = ''FilterNode''"
| "node_type (TransformNode _ _) = ''TransformNode''"
| "node_type (AggregateNode _) = ''AggregateNode''"

fun mask_bit :: "cell \<Rightarrow> bool" where
  "mask_bit (CI64 w) = (w \<noteq> 0)"
| "mask_bit _ = False"

definition keep_count :: "bool list \<Rightarrow> nat" where
  "keep_count bs = length (filter (\<lambda>b. b) bs)"

fun copy_kept :: "bool list \<Rightarrow> nat \<Rightarrow> nat \<Rightarrow> cell list \<Rightarrow> cell list \<Rightarrow> cell list res" where
  "copy_kept [] i j src dst = Ok dst"
| "copy_kept (b # bs) i j src dst =
    (if \<not> b then copy_kept bs (i + 1) j src dst
     else if i < length src \<and> j < length dst then copy_kept bs (i + 1) (j + 1) src (dst[j := src ! i])
     else Throw (Undefined ''memcpy past the end of a buffer''))"

definition filter_column :: "bool list \<Rightarrow> Tensor \<Rightarrow> Tensor res" where
  "filter_column bs src =
    (let dst = Tensor_new (t_dtype src) (keep_count bs) in
     bindR (copy_kept bs 0 0 (t_data src) (t_data dst)) (\<lambda>cells. Ok (tresize (keep_count bs) (dst\<lparr>t_data := cells\<rparr>))))"

definition FilterNode_execute :: "(TensorTable \<Rightarrow> Tensor res) \<Rightarrow> TensorTable \<Rightarrow> TensorTable res" where
  "FilterNode_execute mask_fn input =
    bindR (mask_fn input) (\<lambda>m.
    if t_dtype m \<noteq> kInt64 then Throw (RuntimeError ''FilterNode: mask must be int64'')
    else bindR (data_as kInt64 (t_size m) m) (\<lambda>cells.
      foldR (\<lambda>name filtered. bindR (Table_get name input) (\<lambda>src.
          bindR (filter_column (map mask_bit cells) src) (\<lambda>dst. Table_add name dst filtered)))
        (tt_order input) TensorTable_new))"

definition TransformNode_execute :: "string \<Rightarrow> (TensorTable \<Rightarrow> Tensor res) \<Rightarrow> TensorTable \<Rightarrow> TensorTable res" where
  "TransformNode_execute output_name fn input = bindR (fn input) (\<lambda>result. Table_add output_name result input)"

fun node_execute :: "TableNode \<Rightarrow> TensorTable \<Rightarrow> TensorTable res" where
  "node_execute (FilterNode mask_fn) input = FilterNode_execute mask_fn input"
| "node_execute (TransformNode output_name fn) input = TransformNode_execute output_name fn input"
| "node_execute (AggregateNode fn) input = fn input"

type_synonym TableGraph = "TableNode list"

definition TableGraph_add :: "TableNode \<Rightarrow> TableGraph \<Rightarrow> TableGraph" where
  "TableGraph_add node g = g @ [node]"

definition TableGraph_execute :: "TableGraph \<Rightarrow> TensorTable \<Rightarrow> TensorTable res" where
  "TableGraph_execute g input = foldR node_execute g input"

section \<open>Filtering\<close>

definition kept :: "bool list \<Rightarrow> 'a list \<Rightarrow> 'a list" where
  "kept bs xs = map snd (filter fst (zip bs xs))"

lemma kept_simps [simp]:
  "kept [] xs = []" "kept (True # bs) (x # xs) = x # kept bs xs" "kept (False # bs) (x # xs) = kept bs xs"
  by (simp_all add: kept_def)

lemma keep_count_simps [simp]: "keep_count [] = 0" "keep_count (b # bs) = (if b then Suc (keep_count bs) else keep_count bs)"
  by (simp_all add: keep_count_def)

lemma length_kept: "length bs \<le> length xs \<Longrightarrow> length (kept bs xs) = keep_count bs"
proof (induction bs arbitrary: xs)
  case (Cons b bs)
  then show ?case by (cases xs; cases b) auto
qed simp

lemma kept_subset: "set (kept bs xs) \<subseteq> set xs"
  by (auto simp: kept_def dest: set_zip_rightD)

lemma kept_take: "kept bs (take (length bs) xs) = kept bs xs"
proof (induction bs arbitrary: xs)
  case (Cons b bs)
  then show ?case by (cases xs; cases b) (simp_all add: kept_def)
qed simp

lemma keep_count_le: "keep_count bs \<le> length bs"
  by (simp add: keep_count_def)

lemma copy_kept_spec:
  assumes "i + length bs \<le> length src" "j + keep_count bs \<le> length dst"
  shows "copy_kept bs i j src dst = Ok (take j dst @ kept bs (drop i src) @ drop (j + keep_count bs) dst)"
  using assms
proof (induction bs arbitrary: i j dst)
  case (Cons b bs)
  define x where "x = src ! i"
  have x: "drop i src = x # drop (Suc i) src" "src ! i = x"
    using Cons.prems(1) Cons_nth_drop_Suc [of i src] by (simp_all add: x_def)
  show ?case
  proof (cases b)
    case True
    then have "j < length dst" using Cons.prems(2) by simp
    then show ?thesis
      using True x Cons.IH [of "Suc i" "Suc j" "dst[j := x]"] Cons.prems
      by (simp add: take_Suc_conv_app_nth take_update_swap list_update_append)
  next
    case False
    then show ?thesis using x Cons.IH [of "Suc i" j dst] Cons.prems by simp
  qed
qed simp

lemma filter_column_spec:
  assumes "tensor_ok src" "t_dtype src \<noteq> kQ8_0" "length bs = t_size src"
  shows "\<exists>dst. filter_column bs src = Ok dst \<and> tensor_ok dst \<and> t_dtype dst = t_dtype src \<and> t_size dst = keep_count bs \<and>
    elems dst = kept bs (elems src)"
proof -
  let ?d = "Tensor_new (t_dtype src) (keep_count bs)" and ?k = "kept bs (t_data src)"
  have l: "length (t_data ?d) = keep_count bs" "t_capacity ?d = keep_count bs" "t_dtype ?d = t_dtype src"
    using assms(2) by (simp_all add: Tensor_new_eq slots_def)
  have s: "t_size src \<le> length (t_data src)" using assms(1,2) by (simp add: tensor_ok_def slots_def)
  have "copy_kept bs 0 0 (t_data src) (t_data ?d) = Ok ?k"
    using copy_kept_spec [of 0 bs "t_data src" 0 "t_data ?d"] s assms(3) l by simp
  then have f: "filter_column bs src = Ok (?d\<lparr>t_data := ?k, t_size := keep_count bs\<rparr>)"
    using l by (simp add: filter_column_def Let_def tresize_def ensure_capacity_def)
  have "list_all (cell_ok (t_dtype src)) ?k"
    using assms(1) kept_subset [of bs "t_data src"] by (auto simp: tensor_ok_def list_all_iff)
  moreover have "kept bs (t_data src) = kept bs (elems src)"
    using assms(2,3) kept_take [of bs "t_data src"] by (simp add: elems_def slots_def)
  ultimately show ?thesis
    using f l length_kept [of bs "t_data src"] s assms(2,3) by (simp add: tensor_ok_def elems_def slots_def)
qed

text \<open>The loop over the columns, from a table that holds the columns already filtered.\<close>

lemma filter_columns:
  assumes inv: "table_inv input" and sub: "set names \<subseteq> set (tt_order input)" "distinct names"
    and col: "\<forall>n t. map_of (tt_tensors input) n = Some t \<longrightarrow> t_dtype t \<noteq> kQ8_0 \<and> t_size t = length bs"
    and acc: "table_inv acc" "table_rect acc" "set (tt_order acc) \<inter> set names = {}" "tt_tensors acc \<noteq> [] \<Longrightarrow> tt_num_rows acc = keep_count bs"
  shows "\<exists>out. foldR (\<lambda>name filtered. bindR (Table_get name input) (\<lambda>src.
          bindR (filter_column bs src) (\<lambda>dst. Table_add name dst filtered))) names acc = Ok out \<and>
    table_inv out \<and> table_rect out \<and> tt_order out = tt_order acc @ names \<and> (tt_tensors out \<noteq> [] \<longrightarrow> tt_num_rows out = keep_count bs) \<and>
    (\<forall>n. n \<notin> set names \<longrightarrow> map_of (tt_tensors out) n = map_of (tt_tensors acc) n) \<and>
    (\<forall>n \<in> set names. \<exists>src dst. map_of (tt_tensors input) n = Some src \<and> map_of (tt_tensors out) n = Some dst \<and>
      t_dtype dst = t_dtype src \<and> elems dst = kept bs (elems src))"
  using sub acc
proof (induction names arbitrary: acc)
  case (Cons n names)
  have keys: "set (tt_order t) = dom (map_of (tt_tensors t))" if "table_inv t" for t
    using that by (auto simp: table_inv_def dom_map_of_conv_image_fst)
  obtain src where src: "map_of (tt_tensors input) n = Some src" using Cons.prems(1) keys [OF inv] by auto
  have "tensor_ok src" using inv src by (auto simp: table_inv_def dest: list_all_map_of)
  then obtain dst where dst: "filter_column bs src = Ok dst" "tensor_ok dst" "t_dtype dst = t_dtype src"
    "t_size dst = keep_count bs" "elems dst = kept bs (elems src)"
    using filter_column_spec [of src bs] col [rule_format, OF src] by auto
  define acc' where "acc' = acc\<lparr>tt_order := tt_order acc @ [n], tt_tensors := AList.update n dst (tt_tensors acc), tt_num_rows := keep_count bs\<rparr>"
  have "map_of (tt_tensors acc) n = None" using Cons.prems(5) keys [OF Cons.prems(3)] by auto
  then have a: "Table_add n dst acc = Ok acc'" using Cons.prems(6) dst(4)
    by (cases "tt_tensors acc = []") (simp_all add: Table_add_def Let_def acc'_def)
  have eq: "tt_order acc' = tt_order acc @ [n]" "tt_tensors acc' = AList.update n dst (tt_tensors acc)" "tt_num_rows acc' = keep_count bs"
    by (simp_all add: acc'_def)
  have rect: "table_rect acc'"
    using Cons.prems(4,6) dst(4) eq by (cases "tt_tensors acc = []") (auto simp: table_rect_def list_all_update)
  have "\<exists>out. foldR (\<lambda>name filtered. bindR (Table_get name input) (\<lambda>src.
          bindR (filter_column bs src) (\<lambda>dst. Table_add name dst filtered))) names acc' = Ok out \<and>
    table_inv out \<and> table_rect out \<and> tt_order out = tt_order acc' @ names \<and> (tt_tensors out \<noteq> [] \<longrightarrow> tt_num_rows out = keep_count bs) \<and>
    (\<forall>m. m \<notin> set names \<longrightarrow> map_of (tt_tensors out) m = map_of (tt_tensors acc') m) \<and>
    (\<forall>m \<in> set names. \<exists>src dst. map_of (tt_tensors input) m = Some src \<and> map_of (tt_tensors out) m = Some dst \<and>
      t_dtype dst = t_dtype src \<and> elems dst = kept bs (elems src))"
    using Cons.prems rect eq Table_add_inv [OF Cons.prems(3) dst(2) a] by (intro Cons.IH) auto
  then show ?case using src dst(1,3,5) a eq Cons.prems(2) by (auto simp: Table_get_def)
qed auto

text \<open>On a well-formed table of unquantised columns and a mask with one entry per row, \<^verbatim>\<open>FilterNode\<close> returns the table of the same columns,
  in the same order and of the same types, each with exactly the elements whose mask entry is not zero.\<close>

theorem FilterNode_selects_rows:
  assumes "table_inv input" "table_rect input" "list_all (\<lambda>(_, t). t_dtype t \<noteq> kQ8_0) (tt_tensors input)"
    and m: "mask_fn input = Ok m" "tensor_ok m" "t_dtype m = kInt64" "t_size m = tt_num_rows input"
  shows "\<exists>out. node_execute (FilterNode mask_fn) input = Ok out \<and> table_inv out \<and> table_rect out \<and> tt_order out = tt_order input \<and>
    list_all (\<lambda>n. \<exists>src dst. Table_get n input = Ok src \<and> Table_get n out = Ok dst \<and> t_dtype dst = t_dtype src \<and>
      elems dst = kept (map mask_bit (elems m)) (elems src)) (tt_order input)"
proof -
  let ?bs = "map mask_bit (elems m)"
  have len: "t_size m \<le> length (t_data m)" using m(2,3) by (simp add: tensor_ok_def slots_def)
  then have bs: "data_as kInt64 (t_size m) m = Ok (elems m)" "length ?bs = tt_num_rows input"
    using m(3,4) by (simp_all add: data_as_def elems_def slots_def)
  have col: "t_dtype t \<noteq> kQ8_0 \<and> t_size t = length ?bs" if "map_of (tt_tensors input) n = Some t" for n t
    using list_all_map_of [OF assms(3) that] list_all_map_of [of "\<lambda>t. t_size t = tt_num_rows input", OF _ that] assms(2) bs(2)
    by (simp add: table_rect_def)
  have "distinct (tt_order input)" using assms(1) by (simp add: table_inv_def)
  then obtain out where "FilterNode_execute mask_fn input = Ok out" "table_inv out" "table_rect out" "tt_order out = tt_order input"
    "\<forall>n \<in> set (tt_order input). \<exists>src dst. map_of (tt_tensors input) n = Some src \<and> map_of (tt_tensors out) n = Some dst \<and>
      t_dtype dst = t_dtype src \<and> elems dst = kept ?bs (elems src)"
    using filter_columns [OF assms(1) order_refl, where acc = TensorTable_new and bs = ?bs] col table_inv_new m(1,3) bs(1)
    by (auto simp: FilterNode_execute_def TensorTable_new_def)
  moreover have "map_of (tt_tensors t) n = Some x \<Longrightarrow> Table_get n t = Ok x" for n t x by (simp add: Table_get_def)
  ultimately show ?thesis unfolding list_all_iff node_execute.simps by blast
qed

section \<open>What the filter does not check\<close>

text \<open>A mask longer than the columns with a set entry past their end makes the filter read past the buffer, and filtering a quantised
  column copies whole blocks past the end of the buffer it allocates.\<close>

definition long_mask_table :: "TensorTable res" where
  "long_mask_table = bindR (Table_add ''a'' (from_i64 [7]) TensorTable_new)
    (FilterNode_execute (\<lambda>_. Ok (from_i64 [1, 1])))"

definition quantised_table :: "TensorTable res" where
  "quantised_table = bindR (Table_add ''a'' (zeros 2 kQ8_0) TensorTable_new)
    (FilterNode_execute (\<lambda>_. Ok (from_i64 [1, 1])))"

lemma filter_out_of_bounds:
  "long_mask_table = Throw (Undefined ''memcpy past the end of a buffer'')"
  "quantised_table = Throw (Undefined ''memcpy past the end of a buffer'')"
  by code_simp+

end
