(* ===== verification/ComputeGraph.thy ===== *)
theory ComputeGraph
  imports OpTypes Dependency Metric
begin

text \<open>
  \<^verbatim>\<open>column/exec/{exec_node,compute_graph}.{h,cpp}\<close> and \<^verbatim>\<open>column/context/execution_context.{h,cpp}\<close>: the graph of
  compute nodes, its wiring, the topological sort, and what a run resets, reserves and reports (the runs
  themselves are in \<^verbatim>\<open>GraphRun\<close>).

  A node lives at an address, which the allocator picks (\<^verbatim>\<open>AddNode\<close> takes it); edges and the id index hold
  addresses.  \<^verbatim>\<open>Finalize\<close> is Kahn's algorithm of \<^verbatim>\<open>Dependency\<close>.  Every wiring operation keeps the graph closed
  (edges and index point at nodes of the graph) and drops the order it makes stale.
\<close>

section \<open>Model\<close>

subsection \<open>Execution context\<close>

datatype RunPhase = kFeed | kCompute | kFetch

fun phase_name :: "RunPhase \<Rightarrow> string" where
  "phase_name kFeed = ''feed''"
| "phase_name kCompute = ''compute''"
| "phase_name kFetch = ''fetch''"

record ExecutionContext =
  ec_phase :: RunPhase
  ec_phase_elapsed :: "RunPhase \<Rightarrow> int"
  ec_phase_start :: int
  ec_phase_active :: bool
  ec_feed :: TensorTable
  ec_fetch :: TensorTable
  ec_store :: TensorStore
  ec_monitor :: bool
  ec_events :: "Event list"

definition ExecutionContext_new :: ExecutionContext where
  "ExecutionContext_new =
    \<lparr>ec_phase = kFeed, ec_phase_elapsed = (\<lambda>_. 0), ec_phase_start = 0, ec_phase_active = False,
     ec_feed = TensorTable_new, ec_fetch = TensorTable_new, ec_store = TensorStore_new,
     ec_monitor = False, ec_events = []\<rparr>"

definition end_phase :: "int \<Rightarrow> ExecutionContext \<Rightarrow> ExecutionContext" where
  "end_phase now ctx =
    (if \<not> ec_phase_active ctx then ctx
     else ctx\<lparr>ec_phase_elapsed := (ec_phase_elapsed ctx)
                (ec_phase ctx := ec_phase_elapsed ctx (ec_phase ctx) + (now - ec_phase_start ctx)),
              ec_phase_active := False\<rparr>)"

definition begin_phase :: "RunPhase \<Rightarrow> int \<Rightarrow> int \<Rightarrow> ExecutionContext \<Rightarrow> ExecutionContext" where
  "begin_phase p now now' ctx =
    (end_phase now ctx)\<lparr>ec_phase := p, ec_phase_start := now', ec_phase_active := True\<rparr>"

definition set_feed :: "TensorTable \<Rightarrow> ExecutionContext \<Rightarrow> ExecutionContext" where
  "set_feed table ctx = ctx\<lparr>ec_feed := table\<rparr>"

definition set_fetch :: "TensorTable \<Rightarrow> ExecutionContext \<Rightarrow> ExecutionContext" where
  "set_fetch table ctx = ctx\<lparr>ec_fetch := table\<rparr>"

definition clear_store :: "ExecutionContext \<Rightarrow> ExecutionContext" where
  "clear_store ctx = ctx\<lparr>ec_store := TensorStore_new\<rparr>"

definition set_monitor :: "bool \<Rightarrow> ExecutionContext \<Rightarrow> ExecutionContext" where
  "set_monitor present ctx = ctx\<lparr>ec_monitor := present\<rparr>"

definition ctx_emit :: "Event \<Rightarrow> ExecutionContext \<Rightarrow> ExecutionContext" where
  "ctx_emit e ctx = (if ec_monitor ctx then ctx\<lparr>ec_events := ec_events ctx @ [e]\<rparr> else ctx)"

subsection \<open>Nodes and wiring\<close>

datatype NodeStatus = kPending | kSuccess | kFailed

datatype NodeOp = RealOp TensorOp | PlaceholderOp string

fun op_type :: "NodeOp \<Rightarrow> string" where
  "op_type (RealOp op) = ob_type (op_base op)"
| "op_type (PlaceholderOp _) = ''placeholder''"

fun op_inputs :: "NodeOp \<Rightarrow> string list" where
  "op_inputs (RealOp op) = ob_inputs (op_base op)"
| "op_inputs (PlaceholderOp _) = []"

fun op_outputs :: "NodeOp \<Rightarrow> string list" where
  "op_outputs (RealOp op) = ob_outputs (op_base op)"
| "op_outputs (PlaceholderOp output) = [output]"

fun node_compute :: "NodeOp \<Rightarrow> TensorStore \<Rightarrow> TensorStore res" where
  "node_compute (RealOp op) store = TensorOp_compute op store"
| "node_compute (PlaceholderOp _) store =
    Throw (RuntimeError ''placeholder executed: unresolved forward reference'')"

record ComputeNode =
  cn_id :: string
  cn_module :: string
  cn_op :: NodeOp
  cn_deps :: "nat list"
  cn_status :: NodeStatus
  cn_elapsed :: int
  cn_error :: "exn option"
  cn_done :: bool

definition ComputeNode_new :: "string \<Rightarrow> string \<Rightarrow> NodeOp \<Rightarrow> ComputeNode" where
  "ComputeNode_new nid mdl op =
    \<lparr>cn_id = nid, cn_module = mdl, cn_op = op, cn_deps = [], cn_status = kPending, cn_elapsed = 0,
     cn_error = None, cn_done = False\<rparr>"

definition ReplaceDependency :: "nat \<Rightarrow> nat \<Rightarrow> ComputeNode \<Rightarrow> ComputeNode" where
  "ReplaceDependency old new node =
    node\<lparr>cn_deps := remdups_adj (sort (map (\<lambda>d. if d = old then new else d) (cn_deps node)))\<rparr>"

definition ComputeNode_ResetRunState :: "ComputeNode \<Rightarrow> ComputeNode" where
  "ComputeNode_ResetRunState node =
    node\<lparr>cn_status := kPending, cn_elapsed := 0, cn_error := None, cn_done := False\<rparr>"

record ComputeGraph =
  cg_nodes :: "(nat \<times> ComputeNode) list"
  cg_by_id :: "(string \<times> nat) list"
  cg_topo :: "nat list"
  cg_finalized :: bool

definition ComputeGraph_new :: ComputeGraph where
  "ComputeGraph_new = \<lparr>cg_nodes = [], cg_by_id = [], cg_topo = [], cg_finalized = False\<rparr>"

text \<open>\<^verbatim>\<open>emplace\<close> keeps the first node of an id.\<close>

definition AddNode :: "nat \<Rightarrow> string \<Rightarrow> string \<Rightarrow> NodeOp \<Rightarrow> ComputeGraph \<Rightarrow> ComputeGraph" where
  "AddNode addr nid mdl op g =
    g\<lparr>cg_by_id := (if map_of (cg_by_id g) nid = None then cg_by_id g @ [(nid, addr)] else cg_by_id g),
      cg_nodes := cg_nodes g @ [(addr, ComputeNode_new nid mdl op)],
      cg_finalized := False\<rparr>"

definition AddPlaceholder :: "nat \<Rightarrow> string \<Rightarrow> string \<Rightarrow> ComputeGraph \<Rightarrow> ComputeGraph" where
  "AddPlaceholder addr output nid g = AddNode addr nid ''@placeholder'' (PlaceholderOp output) g"

definition Find :: "string \<Rightarrow> ComputeGraph \<Rightarrow> nat option" where
  "Find nid g = map_of (cg_by_id g) nid"

definition ReplacePlaceholder :: "string \<Rightarrow> string \<Rightarrow> ComputeGraph \<Rightarrow> ComputeGraph res" where
  "ReplacePlaceholder placeholder_id real_id g =
    (case Find placeholder_id g of
       None \<Rightarrow> Throw (OutOfRange (''ComputeGraph::ReplacePlaceholder: unknown placeholder '' @ quoted placeholder_id))
     | Some placeholder \<Rightarrow>
         (case Find real_id g of
            None \<Rightarrow> Throw (OutOfRange (''ComputeGraph::ReplacePlaceholder: unknown node '' @ quoted real_id))
          | Some rl \<Rightarrow>
              if placeholder = rl then Ok g
              else Ok (g\<lparr>cg_nodes := filter (\<lambda>(a, _). a \<noteq> placeholder)
                            (map (\<lambda>(a, node). (a, ReplaceDependency placeholder rl node)) (cg_nodes g)),
                         cg_by_id := AList.delete placeholder_id (cg_by_id g),
                         cg_finalized := False\<rparr>)))"

definition HasPlaceholders :: "ComputeGraph \<Rightarrow> bool" where
  "HasPlaceholders g = list_ex (\<lambda>(_, node). op_type (cn_op node) = ''placeholder'') (cg_nodes g)"

definition update_node :: "nat \<Rightarrow> (ComputeNode \<Rightarrow> ComputeNode) \<Rightarrow> ComputeGraph \<Rightarrow> ComputeGraph" where
  "update_node a f g = g\<lparr>cg_nodes := map (\<lambda>(b, node). (b, if b = a then f node else node)) (cg_nodes g)\<rparr>"

definition node_at :: "ComputeGraph \<Rightarrow> nat \<Rightarrow> ComputeNode" where
  "node_at g a = (case map_of (cg_nodes g) a of Some node \<Rightarrow> node | None \<Rightarrow> ComputeNode_new [] [] (PlaceholderOp []))"

definition AddDependency :: "string \<Rightarrow> string \<Rightarrow> ComputeGraph \<Rightarrow> ComputeGraph res" where
  "AddDependency nid dep_id g =
    (case Find nid g of
       None \<Rightarrow> Throw (OutOfRange (''ComputeGraph::AddDependency: unknown node '' @ quoted nid))
     | Some a \<Rightarrow>
         (case Find dep_id g of
            None \<Rightarrow> Throw (OutOfRange (''ComputeGraph::AddDependency: unknown dep '' @ quoted dep_id))
          | Some d \<Rightarrow>
              Ok ((if d \<in> set (cn_deps (node_at g a)) then g
                   else update_node a (\<lambda>node. node\<lparr>cn_deps := cn_deps node @ [d]\<rparr>) g)
                  \<lparr>cg_finalized := False\<rparr>)))"

definition addrs :: "ComputeGraph \<Rightarrow> nat list" where
  "addrs g = keys (cg_nodes g)"

definition deps_of :: "ComputeGraph \<Rightarrow> nat \<Rightarrow> nat list" where
  "deps_of g a = cn_deps (node_at g a)"

definition Finalize :: "ComputeGraph \<Rightarrow> ComputeGraph res" where
  "Finalize g =
    (case kahn (deps_of g) (addrs g) of
       None \<Rightarrow> Throw (LogicError ''out of fuel'')
     | Some order \<Rightarrow>
         if length order \<noteq> length (cg_nodes g)
         then Throw (RuntimeError ''ComputeGraph: dependency cycle detected'')
         else Ok (g\<lparr>cg_topo := order, cg_finalized := True\<rparr>))"

definition ResetRunState :: "ComputeGraph \<Rightarrow> ComputeGraph" where
  "ResetRunState g = g\<lparr>cg_nodes := map (\<lambda>(a, node). (a, ComputeNode_ResetRunState node)) (cg_nodes g)\<rparr>"

definition ReserveOutputs :: "ComputeGraph \<Rightarrow> TensorStore \<Rightarrow> TensorStore" where
  "ReserveOutputs g store =
    fold (\<lambda>(_, node) store. fold (\<lambda>out store. if out \<noteq> [] then EnsureNames [out] store else store)
        (op_outputs (cn_op node)) store) (cg_nodes g) store"

subsection \<open>Monitoring of a run\<close>

record ModuleAcc =
  ma_start :: int
  ma_end :: int
  ma_started :: bool
  ma_count :: nat

record RunState =
  rs_remaining :: nat
  rs_done :: bool
  rs_modules :: "(string \<times> ModuleAcc) list"
  rs_busy :: int
  rs_exec_start :: int

definition ModuleAcc_new :: ModuleAcc where
  "ModuleAcc_new = \<lparr>ma_start = 0, ma_end = 0, ma_started = False, ma_count = 0\<rparr>"

definition acc_begin :: "string \<Rightarrow> int \<Rightarrow> RunState \<Rightarrow> RunState" where
  "acc_begin mdl start st =
    (let acc = at_or ModuleAcc_new (rs_modules st) mdl;
         acc = acc\<lparr>ma_count := Suc (ma_count acc)\<rparr>;
         acc = (if \<not> ma_started acc then acc\<lparr>ma_started := True, ma_start := start\<rparr> else acc)
     in st\<lparr>rs_modules := AList.update mdl acc (rs_modules st)\<rparr>)"

definition acc_end :: "string \<Rightarrow> int \<Rightarrow> int \<Rightarrow> RunState \<Rightarrow> RunState" where
  "acc_end mdl elapsed now st =
    (let acc = at_or ModuleAcc_new (rs_modules st) mdl in
     st\<lparr>rs_busy := rs_busy st + elapsed,
        rs_modules := AList.update mdl (acc\<lparr>ma_end := max (ma_end acc) now\<rparr>) (rs_modules st)\<rparr>)"

definition EmitNodeEvent :: "string \<Rightarrow> string \<Rightarrow> string \<Rightarrow> int \<Rightarrow> bool \<Rightarrow> ExecutionContext \<Rightarrow> ExecutionContext" where
  "EmitNodeEvent action node_id op_ty elapsed ok ctx =
    ctx_emit ((attr_ns ''elapsed_ns'' elapsed (attr ''op'' op_ty (Event_new ''column'' action node_id)))
      \<lparr>ev_duration := elapsed, ev_ok := ok\<rparr>) ctx"

definition utilization :: "int \<Rightarrow> int \<Rightarrow> nat \<Rightarrow> real" where
  "utilization busy wall workers =
    (if wall > 0 \<and> workers > 0 then min (of_int busy / (of_int wall * real workers)) 1 else 0)"

definition ReportRunSummary :: "RunState \<Rightarrow> int \<Rightarrow> nat \<Rightarrow> ExecutionContext \<Rightarrow> ExecutionContext" where
  "ReportRunSummary st wall workers ctx =
    (let ctx = fold (\<lambda>mdl ctx.
           let acc = at_or ModuleAcc_new (rs_modules st) mdl in
           ctx_emit (attr ''node_count'' (nat_to_string (ma_count acc))
             ((Event_new ''column'' ''module.end'' mdl)\<lparr>ev_duration := ma_end acc - ma_start acc\<rparr>)) ctx)
         (sort (keys (rs_modules st))) ctx
     in ctx_emit (attr ''workers'' (nat_to_string workers)
          (attr_ns ''wall_ns'' wall
          (attr_ns ''busy_ns'' (rs_busy st)
          (attr ''utilization'' (double_to_string (Fin (utilization (rs_busy st) wall workers)))
          (attr ''pool'' ''compute'' (Event_new ''column'' ''cpu.pressure'' ''compute'')))))) ctx)"

section \<open>The wiring invariant\<close>

definition graph_inv :: "ComputeGraph \<Rightarrow> bool" where
  "graph_inv g =
    (closed_graph (deps_of g) (addrs g)
     \<and> list_all (\<lambda>a. distinct (deps_of g a)) (addrs g)
     \<and> distinct (keys (cg_by_id g))
     \<and> list_all (\<lambda>(nid, a). a \<in> set (addrs g) \<and> cn_id (node_at g a) = nid) (cg_by_id g)
     \<and> (cg_finalized g \<longrightarrow> topo_order (deps_of g) (cg_topo g) \<and> set (cg_topo g) = set (addrs g)))"

lemma node_at_map:
  "a \<in> set (addrs g) \<Longrightarrow> cg_nodes g' = map (\<lambda>(b, node). (b, f b node)) (cg_nodes g) \<Longrightarrow>
    node_at g' a = f a (node_at g a)"
proof -
  assume a: "a \<in> set (addrs g)" and g': "cg_nodes g' = map (\<lambda>(b, node). (b, f b node)) (cg_nodes g)"
  obtain node where n: "map_of (cg_nodes g) a = Some node"
    using a by (metis addrs_def map_of_None_iff option.exhaust)
  have "map_of (map (\<lambda>(b, node). (b, f b node)) xs) a = map_option (f a) (map_of xs a)" for xs
    by (induction xs) auto
  then show ?thesis by (simp add: node_at_def g' n)
qed

lemma addrs_map: "cg_nodes g' = map (\<lambda>(b, node). (b, f b node)) (cg_nodes g) \<Longrightarrow> addrs g' = addrs g"
  by (simp add: addrs_def case_prod_unfold)

lemma addrs_update_node [simp]: "addrs (update_node a f g) = addrs g"
  by (rule addrs_map [where f = "\<lambda>b node. if b = a then f node else node"]) (simp add: update_node_def)

lemma update_node_fields [simp]:
  "cg_by_id (update_node a f g) = cg_by_id g" "cg_topo (update_node a f g) = cg_topo g"
  "cg_finalized (update_node a f g) = cg_finalized g" "length (cg_nodes (update_node a f g)) = length (cg_nodes g)"
  by (simp_all add: update_node_def)

lemma node_at_update_node:
  "b \<in> set (addrs g) \<Longrightarrow> node_at (update_node a f g) b = (if b = a then f (node_at g b) else node_at g b)"
  by (rule node_at_map [where f = "\<lambda>b node. if b = a then f node else node"]) (simp_all add: update_node_def)

lemma update_node_fields2 [simp]:
  "addrs (g\<lparr>cg_finalized := x\<rparr>) = addrs g" "node_at (g\<lparr>cg_finalized := x\<rparr>) a = node_at g a"
  "addrs (g\<lparr>cg_topo := t\<rparr>) = addrs g" "node_at (g\<lparr>cg_topo := t\<rparr>) a = node_at g a"
  by (simp_all add: addrs_def node_at_def)

lemma graph_invD:
  assumes "graph_inv g"
  shows "distinct (addrs g)" "\<And>a. a \<in> set (addrs g) \<Longrightarrow> set (deps_of g a) \<subseteq> set (addrs g)"
    "\<And>a. a \<in> set (addrs g) \<Longrightarrow> distinct (deps_of g a)" "distinct (keys (cg_by_id g))"
    "\<And>nid a. Find nid g = Some a \<Longrightarrow> a \<in> set (addrs g) \<and> cn_id (node_at g a) = nid"
    "cg_finalized g \<Longrightarrow> topo_order (deps_of g) (cg_topo g) \<and> set (cg_topo g) = set (addrs g)"
  using assms by (auto simp: graph_inv_def closed_graph_def list_all_iff Find_def dest: map_of_SomeD)

lemma graph_invI:
  assumes "distinct (addrs g)" "\<And>a. a \<in> set (addrs g) \<Longrightarrow> set (deps_of g a) \<subseteq> set (addrs g) \<and> distinct (deps_of g a)"
    "distinct (keys (cg_by_id g))"
    "\<And>nid a. Find nid g = Some a \<Longrightarrow> a \<in> set (addrs g) \<and> cn_id (node_at g a) = nid"
    "cg_finalized g \<Longrightarrow> topo_order (deps_of g) (cg_topo g) \<and> set (cg_topo g) = set (addrs g)"
  shows "graph_inv g"
  using assms by (auto simp: graph_inv_def closed_graph_def list_all_iff Find_def)

lemma graph_inv_new: "graph_inv ComputeGraph_new"
  by (rule graph_invI) (simp_all add: ComputeGraph_new_def addrs_def Find_def)

text \<open>What each wiring operation does to the nodes, the index and the edges.\<close>

lemma AddNode_effect:
  assumes "addr \<notin> set (addrs g)"
  shows "addrs (AddNode addr nid mdl op g) = addrs g @ [addr]"
    "node_at (AddNode addr nid mdl op g) b = (if b = addr then ComputeNode_new nid mdl op else node_at g b)"
    "Find k (AddNode addr nid mdl op g) = (if k = nid \<and> Find nid g = None then Some addr else Find k g)"
proof -
  have "map_of (cg_nodes g) addr = None" using assms by (simp add: addrs_def map_of_None_iff)
  then show "node_at (AddNode addr nid mdl op g) b = (if b = addr then ComputeNode_new nid mdl op else node_at g b)"
    by (auto simp: AddNode_def node_at_def map_add_def split: option.split)
qed (auto simp: AddNode_def addrs_def Find_def map_add_def split: option.split)

lemma AddDependency_Ok: "AddDependency nid dep_id g = Ok g' \<Longrightarrow> \<exists>a d. Find nid g = Some a \<and> Find dep_id g = Some d"
  by (auto simp: AddDependency_def split: option.splits)

lemma AddDependency_effect:
  assumes "AddDependency nid dep_id g = Ok g'" and f: "Find nid g = Some a" "Find dep_id g = Some d"
  shows "addrs g' = addrs g" "Find k g' = Find k g"
    "b \<in> set (addrs g) \<Longrightarrow> cn_op (node_at g' b) = cn_op (node_at g b)"
    "b \<in> set (addrs g) \<Longrightarrow> set (deps_of g' b) = set (deps_of g b) \<union> (if b = a then {d} else {})"
    "cg_by_id g' = cg_by_id g \<and> \<not> cg_finalized g'"
    "b \<in> set (addrs g) \<Longrightarrow> node_at g' b = (if b = a \<and> d \<notin> set (cn_deps (node_at g a))
      then (node_at g b)\<lparr>cn_deps := cn_deps (node_at g b) @ [d]\<rparr> else node_at g b)"
proof -
  let ?u = "\<lambda>node. if d \<in> set (cn_deps (node_at g a)) then node else node\<lparr>cn_deps := cn_deps node @ [d]\<rparr>"
  have "update_node a (\<lambda>node. node) g = g" by (simp add: update_node_def case_prod_unfold)
  then have g': "g' = (update_node a ?u g)\<lparr>cg_finalized := False\<rparr>"
    using assms by (auto simp: AddDependency_def)
  have n: "node_at g' b = (if b = a then ?u (node_at g b) else node_at g b)" if "b \<in> set (addrs g)" for b
    using node_at_update_node [OF that, of a ?u] by (simp add: g')
  show "addrs g' = addrs g" "Find k g' = Find k g" "cg_by_id g' = cg_by_id g \<and> \<not> cg_finalized g'"
    by (simp_all add: g' Find_def)
  show "b \<in> set (addrs g) \<Longrightarrow> node_at g' b = (if b = a \<and> d \<notin> set (cn_deps (node_at g a))
      then (node_at g b)\<lparr>cn_deps := cn_deps (node_at g b) @ [d]\<rparr> else node_at g b)" using n by simp
  show "b \<in> set (addrs g) \<Longrightarrow> cn_op (node_at g' b) = cn_op (node_at g b)"
    "b \<in> set (addrs g) \<Longrightarrow> set (deps_of g' b) = set (deps_of g b) \<union> (if b = a then {d} else {})"
    using n by (auto simp: deps_of_def)
qed

lemma ReplacePlaceholder_effect:
  assumes "ReplacePlaceholder ph real_id g = Ok g'" and f: "Find ph g = Some p" "Find real_id g = Some r"
  shows "p = r \<Longrightarrow> g' = g" "p \<noteq> r \<Longrightarrow> addrs g' = filter (\<lambda>a. a \<noteq> p) (addrs g)"
    "p \<noteq> r \<Longrightarrow> Find k g' = (if k = ph then None else Find k g)"
    "p \<noteq> r \<Longrightarrow> b \<in> set (addrs g) \<Longrightarrow> b \<noteq> p \<Longrightarrow> node_at g' b = ReplaceDependency p r (node_at g b)"
    "p \<noteq> r \<Longrightarrow> cg_by_id g' = AList.delete ph (cg_by_id g) \<and> \<not> cg_finalized g'"
proof -
  let ?m = "map (\<lambda>(a, node). (a, ReplaceDependency p r node)) (cg_nodes g)"
  have g': "g' = g\<lparr>cg_nodes := filter (\<lambda>(a, _). a \<noteq> p) ?m, cg_by_id := AList.delete ph (cg_by_id g),
      cg_finalized := False\<rparr>" if "p \<noteq> r"
    using assms that by (simp add: ReplacePlaceholder_def)
  have flt: "map_of (filter (\<lambda>(a, _). a \<noteq> p) xs) b = (if b = p then None else map_of xs b)"
    for xs :: "(nat \<times> ComputeNode) list" and b
    by (induction xs) auto
  show "p \<noteq> r \<Longrightarrow> b \<in> set (addrs g) \<Longrightarrow> b \<noteq> p \<Longrightarrow> node_at g' b = ReplaceDependency p r (node_at g b)"
    using node_at_map [of b g "g\<lparr>cg_nodes := ?m\<rparr>" "\<lambda>_. ReplaceDependency p r"]
    by (simp add: node_at_def g' flt)
  show "p = r \<Longrightarrow> g' = g" using assms by (simp add: ReplacePlaceholder_def)
  show "p \<noteq> r \<Longrightarrow> addrs g' = filter (\<lambda>a. a \<noteq> p) (addrs g)"
    by (simp add: g' addrs_def filter_map comp_def case_prod_unfold)
  show "p \<noteq> r \<Longrightarrow> Find k g' = (if k = ph then None else Find k g)" by (simp add: g' Find_def)
  show "p \<noteq> r \<Longrightarrow> cg_by_id g' = AList.delete ph (cg_by_id g) \<and> \<not> cg_finalized g'" by (simp add: g')
qed

lemma AddNode_inv:
  assumes "graph_inv g" "addr \<notin> set (addrs g)"
  shows "graph_inv (AddNode addr nid mdl op g)"
proof -
  note d = graph_invD [OF assms(1)] and e = AddNode_effect [OF assms(2)]
  let ?g = "AddNode addr nid mdl op g"
  show ?thesis
  proof (rule graph_invI)
    fix b assume b: "b \<in> set (addrs ?g)"
    show "set (deps_of ?g b) \<subseteq> set (addrs ?g) \<and> distinct (deps_of ?g b)"
      using e(2) [of nid mdl op b] b d(2,3) [of b] by (auto simp: e(1) deps_of_def ComputeNode_new_def)
  next
    fix k b assume k: "Find k ?g = Some b"
    then show "b \<in> set (addrs ?g) \<and> cn_id (node_at ?g b) = k"
      using d(5) [of k b] assms(2) by (auto simp: e ComputeNode_new_def split: if_splits)
  next
    show "distinct (keys (cg_by_id ?g))" using d(4) by (auto simp: AddNode_def map_of_None_iff)
  qed (use d(1) assms(2) e(1) in \<open>auto simp: AddNode_def\<close>)
qed

lemma AddDependency_inv:
  assumes "graph_inv g" "AddDependency nid dep_id g = Ok g'"
  shows "graph_inv g'"
proof -
  note d = graph_invD [OF assms(1)]
  obtain a p where f: "Find nid g = Some a" "Find dep_id g = Some p" using AddDependency_Ok [OF assms(2)] by blast
  note e = AddDependency_effect [OF assms(2) f]
  show ?thesis
  proof (rule graph_invI)
    fix b assume "b \<in> set (addrs g')"
    then have b: "b \<in> set (addrs g)" by (simp add: e(1))
    show "set (deps_of g' b) \<subseteq> set (addrs g') \<and> distinct (deps_of g' b)"
      using e(6) [OF b] d(2,3) [OF b] d(5) [OF f(2)] by (auto simp: e(1) deps_of_def split: if_splits)
  next
    fix k b assume "Find k g' = Some b"
    then show "b \<in> set (addrs g') \<and> cn_id (node_at g' b) = k" using d(5) [of k b] e(6) [of b] by (auto simp: e(1,2))
  qed (use d(1,4) e(1,5) in \<open>simp_all\<close>)
qed

lemma distinct_unique_sort: "distinct (remdups_adj (sort (xs :: 'a :: linorder list)))"
proof -
  have "sorted ys \<Longrightarrow> distinct (remdups_adj ys)" for ys :: "'a list"
    by (induction ys rule: remdups_adj.induct) auto
  then show ?thesis by simp
qed

lemma ReplacePlaceholder_inv:
  assumes "graph_inv g" "ReplacePlaceholder placeholder_id real_id g = Ok g'"
  shows "graph_inv g'"
proof -
  note d = graph_invD [OF assms(1)]
  obtain p r where f: "Find placeholder_id g = Some p" "Find real_id g = Some r"
    using assms(2) by (auto simp: ReplacePlaceholder_def split: option.splits)
  note e = ReplacePlaceholder_effect [OF assms(2) f]
  show ?thesis
  proof (cases "p = r")
    case True
    then show ?thesis using assms e(1) by simp
  next
    case False
    note a = e(2) [OF False]
    show ?thesis
    proof (rule graph_invI)
      fix b assume b: "b \<in> set (addrs g')"
      then have "set (deps_of g b) \<subseteq> set (addrs g)" using d(2) a by simp
      then show "set (deps_of g' b) \<subseteq> set (addrs g') \<and> distinct (deps_of g' b)"
        using e(4) [OF False, of b] b d(5) [OF f(2)] False a by (auto simp: deps_of_def ReplaceDependency_def distinct_unique_sort)
    next
      fix k b assume "Find k g' = Some b"
      then have k: "Find k g = Some b" "k \<noteq> placeholder_id" using e(3) [OF False, of k] by (auto split: if_splits)
      then have "b \<noteq> p" using d(5) [OF f(1)] d(5) [OF k(1)] by auto
      then show "b \<in> set (addrs g') \<and> cn_id (node_at g' b) = k"
        using e(4) [OF False, of b] d(5) [OF k(1)] a by (simp add: ReplaceDependency_def)
    next
      show "distinct (keys (cg_by_id g'))" "cg_finalized g' \<Longrightarrow> topo_order (deps_of g') (cg_topo g') \<and> set (cg_topo g') = set (addrs g')"
        using d(4) e(5) [OF False] by simp_all
    qed (use d(1) a in simp)
  qed
qed

lemma Finalize_spec:
  assumes "graph_inv g"
  shows "if acyclic (dep_rel (deps_of g) (set (addrs g)))
    then \<exists>g'. Finalize g = Ok g' \<and> graph_inv g' \<and> cg_finalized g' \<and> cg_nodes g' = cg_nodes g \<and> cg_by_id g' = cg_by_id g
    else Finalize g = Throw (RuntimeError ''ComputeGraph: dependency cycle detected'')"
proof -
  note d = graph_invD [OF assms]
  have cl: "closed_graph (deps_of g) (addrs g)" using assms by (simp add: graph_inv_def)
  obtain order where o: "kahn (deps_of g) (addrs g) = Some order" "topo_order (deps_of g) order" "set order \<subseteq> set (addrs g)"
    "length order = length (addrs g) \<longleftrightarrow> acyclic (dep_rel (deps_of g) (set (addrs g)))"
    using kahn_correct [OF cl] by blast
  have len: "length (addrs g) = length (cg_nodes g)" by (simp add: addrs_def)
  have dep: "deps_of (g\<lparr>cg_topo := order, cg_finalized := True\<rparr>) = deps_of g" by (rule ext) (simp add: deps_of_def)
  have "set order = set (addrs g)" if "length order = length (addrs g)"
    using that o(3) distinct_card [OF topo_order_distinct [OF o(2)]] distinct_card [OF d(1)]
    by (metis card_subset_eq List.finite_set)
  then have "graph_inv (g\<lparr>cg_topo := order, cg_finalized := True\<rparr>)" if "length order = length (addrs g)"
    using that assms o(2) by (auto simp: graph_inv_def dep)
  then show ?thesis using o len by (simp add: Finalize_def)
qed

text \<open>C26. Any sequence of wiring operations keeps the graph consistent: edges and the id index point at nodes of the
  graph, no edge is doubled, and the graph counts as finalized only while its stored order is a topological order
  of all its nodes.\<close>

theorem wiring_inv:
  assumes "graph_inv g"
  shows "(addr \<notin> set (addrs g) \<longrightarrow> graph_inv (AddNode addr nid mdl op g)) \<and>
    (AddDependency nid dep_id g = Ok g1 \<longrightarrow> graph_inv g1) \<and>
    (ReplacePlaceholder nid dep_id g = Ok g2 \<longrightarrow> graph_inv g2) \<and>
    (Finalize g = Ok g3 \<longrightarrow> graph_inv g3 \<and> cg_finalized g3)"
  using AddNode_inv [OF assms] AddDependency_inv [OF assms] ReplacePlaceholder_inv [OF assms] Finalize_spec [OF assms]
  by (auto split: if_splits)

definition demo_wiring :: ComputeGraph where
  "demo_wiring = AddPlaceholder 9 ''y'' ''@y'' (AddNode 3 ''b'' ''m'' (PlaceholderOp ''y'') ComputeGraph_new)"

theorem wiring_inv_witness:
  "graph_inv demo_wiring \<and> (\<exists>g. ReplacePlaceholder ''@y'' ''b'' demo_wiring = Ok g \<and> graph_inv g \<and> addrs g = [3])"
proof -
  have a: "graph_inv demo_wiring" by code_simp
  obtain g where g: "ReplacePlaceholder ''@y'' ''b'' demo_wiring = Ok g" "addrs g = [3]"
    by (rule that [of "case ReplacePlaceholder ''@y'' ''b'' demo_wiring of Inr g \<Rightarrow> g"]) code_simp+
  then show ?thesis using a wiring_inv [OF a, of 4 "''@y''" "[]" "PlaceholderOp []" "''b''"] by blast
qed

end
