(* ===== verification/GraphRun.thy ===== *)
theory GraphRun
  imports ComputeGraph
begin

text \<open>
  \<^verbatim>\<open>ComputeGraph::Execute\<close>, \<^verbatim>\<open>SpawnNode\<close> and \<^verbatim>\<open>ExecuteAsync\<close> (\<^verbatim>\<open>column/exec/compute_graph.cpp\<close>).

  \<^verbatim>\<open>Execute\<close> is a fold over the topological order; the clock is a sequence of readings.  \<^verbatim>\<open>ExecuteAsync\<close> is an
  interleaving of atomic actions: the calling thread spawns the nodes one by one, and each coroutine awaits its
  dependencies' events, starts, reads its inputs and computes, writes its output, reports, signals and counts
  down.  Reading and writing are separate steps, so other nodes may write between them.  An op ends with
  \<^verbatim>\<open>Undefined\<close> only on inputs the typing theorem excludes; the model then treats it like an exception.

  The main result is that on a graph with one writer per tensor and every reader wired to the writer, every
  interleaving leaves the tensors, the statuses and the errors that \<^verbatim>\<open>Execute\<close> leaves.
\<close>

section \<open>Model\<close>

subsection \<open>The two halves of an op\<close>

text \<open>What an op reads and computes, and the tensor it then stores (none for an identity on its own input).\<close>

definition op_eval :: "TensorOp \<Rightarrow> TensorStore \<Rightarrow> (string \<times> Tensor) option res" where
  "op_eval op store =
    (let inputs = ob_inputs (op_base op); outputs = ob_outputs (op_base op);
         run = bindR (op_inputs_from inputs [0..<op_arity op] store) (\<lambda>ts.
                 bindR (op_kernel op ts) (\<lambda>r. bindR (name_at outputs 0) (\<lambda>out. Ok (Some (out, r)))))
     in case op of
          IdentityOp _ \<Rightarrow>
            bindR (name_at inputs 0) (\<lambda>i. bindR (name_at outputs 0) (\<lambda>out.
              if i = out then Ok None else run))
        | _ \<Rightarrow> run)"

fun node_eval :: "NodeOp \<Rightarrow> TensorStore \<Rightarrow> (string \<times> Tensor) option res" where
  "node_eval (RealOp op) store = op_eval op store"
| "node_eval (PlaceholderOp _) store =
    Throw (RuntimeError ''placeholder executed: unresolved forward reference'')"

fun apply_write :: "(string \<times> Tensor) option res \<Rightarrow> TensorStore \<Rightarrow> TensorStore" where
  "apply_write (Inr (Some (out, t))) store = Store_set out t store"
| "apply_write _ store = store"

definition error_of :: "'a res \<Rightarrow> exn option" where
  "error_of r = (case r of Inl e \<Rightarrow> Some e | Inr _ \<Rightarrow> None)"

definition status_of :: "exn option \<Rightarrow> NodeStatus" where
  "status_of err = (if err = None then kSuccess else kFailed)"

subsection \<open>Starting and finishing a node\<close>

definition RunState_new :: "nat \<Rightarrow> int \<Rightarrow> RunState" where
  "RunState_new n exec_start =
    \<lparr>rs_remaining = n, rs_done = False, rs_modules = [], rs_busy = 0, rs_exec_start = exec_start\<rparr>"

record exec_state =
  es_graph :: ComputeGraph
  es_ctx :: ExecutionContext
  es_run :: RunState

definition set_store :: "TensorStore \<Rightarrow> exec_state \<Rightarrow> exec_state" where
  "set_store store s = s\<lparr>es_ctx := (es_ctx s)\<lparr>ec_store := store\<rparr>\<rparr>"

definition start_node :: "nat \<Rightarrow> int \<Rightarrow> exec_state \<Rightarrow> exec_state" where
  "start_node a start s =
    (let node = node_at (es_graph s) a in
     s\<lparr>es_ctx := EmitNodeEvent ''node.start'' (cn_id node) (op_type (cn_op node)) 0 True (es_ctx s),
       es_run := acc_begin (cn_module node) start (es_run s)\<rparr>)"

definition finish_node :: "nat \<Rightarrow> int \<Rightarrow> int \<Rightarrow> exn option \<Rightarrow> exec_state \<Rightarrow> exec_state" where
  "finish_node a start finish err s =
    (let node = node_at (es_graph s) a; elapsed = finish - start; ok = (err = None) in
     s\<lparr>es_graph := update_node a (\<lambda>node. node\<lparr>cn_elapsed := elapsed, cn_status := status_of err,
            cn_error := (if ok then cn_error node else err)\<rparr>) (es_graph s),
       es_ctx := EmitNodeEvent (if ok then ''node.end'' else ''node.error'') (cn_id node) (op_type (cn_op node))
            elapsed ok (es_ctx s),
       es_run := acc_end (cn_module node) elapsed finish (es_run s)\<rparr>)"

definition signal_node :: "nat \<Rightarrow> exec_state \<Rightarrow> exec_state" where
  "signal_node a s = s\<lparr>es_graph := update_node a (\<lambda>node. node\<lparr>cn_done := True\<rparr>) (es_graph s)\<rparr>"

text \<open>What both runs do first: \<^verbatim>\<open>Finalize\<close> unless done, \<^verbatim>\<open>ResetRunState\<close>, and \<^verbatim>\<open>ReserveOutputs\<close> when there are nodes.\<close>

definition prepare :: "int \<Rightarrow> ComputeGraph \<Rightarrow> ExecutionContext \<Rightarrow> exec_state res" where
  "prepare exec_start g ctx =
    bindR (if cg_finalized g then Ok g else Finalize g) (\<lambda>g.
      Ok \<lparr>es_graph = ResetRunState g,
          es_ctx = (if cg_nodes g = [] then ctx else ctx\<lparr>ec_store := ReserveOutputs g (ec_store ctx)\<rparr>),
          es_run = RunState_new (length (cg_nodes g)) exec_start\<rparr>)"

subsection \<open>\<^verbatim>\<open>Execute\<close>\<close>

definition run_node :: "(nat \<Rightarrow> int) \<Rightarrow> nat \<Rightarrow> nat \<times> exec_state \<Rightarrow> nat \<times> exec_state" where
  "run_node clock a st =
    (case st of (tick, s) \<Rightarrow>
      let s = start_node a (clock tick) s;
          r = node_compute (cn_op (node_at (es_graph s) a)) (ec_store (es_ctx s));
          s = (case r of Inl _ \<Rightarrow> s | Inr store \<Rightarrow> set_store store s)
      in (tick + 2, signal_node a (finish_node a (clock tick) (clock (tick + 1)) (error_of r) s)))"

definition Execute :: "(nat \<Rightarrow> int) \<Rightarrow> ComputeGraph \<Rightarrow> ExecutionContext \<Rightarrow> (ComputeGraph \<times> ExecutionContext) res" where
  "Execute clock g ctx =
    bindR (prepare (clock 0) g ctx) (\<lambda>s.
      if cg_nodes (es_graph s) = [] then Ok (es_graph s, es_ctx s)
      else (case fold (run_node clock) (cg_topo (es_graph s)) (1, s) of (tick, s) \<Rightarrow>
        Ok (es_graph s, ReportRunSummary (es_run s) (clock tick - rs_exec_start (es_run s)) 1 (es_ctx s))))"

subsection \<open>\<^verbatim>\<open>SpawnNode\<close> and \<^verbatim>\<open>ExecuteAsync\<close>\<close>

datatype node_phase =
    Unspawned
  | Awaiting nat
  | Started int
  | Evaluated int "(string \<times> Tensor) option res"
  | Written int "exn option"
  | Reported
  | Signalled
  | Finished

record async_run =
  ar_state :: exec_state
  ar_main :: nat
  ar_phase :: "nat \<Rightarrow> node_phase"

definition async_init :: "exec_state \<Rightarrow> async_run" where
  "async_init s = \<lparr>ar_state = s, ar_main = 0, ar_phase = (\<lambda>_. Unspawned)\<rparr>"

definition enter :: "nat \<Rightarrow> node_phase \<Rightarrow> exec_state \<Rightarrow> async_run \<Rightarrow> async_run" where
  "enter a p es s = s\<lparr>ar_state := es, ar_phase := (ar_phase s)(a := p)\<rparr>"

definition is_done :: "async_run \<Rightarrow> nat \<Rightarrow> bool" where
  "is_done s a = cn_done (node_at (es_graph (ar_state s)) a)"

definition count_down_state :: "exec_state \<Rightarrow> exec_state" where
  "count_down_state s =
    s\<lparr>es_run := (es_run s)\<lparr>rs_remaining := rs_remaining (es_run s) - 1,
        rs_done := (rs_done (es_run s) \<or> rs_remaining (es_run s) = 1)\<rparr>\<rparr>"

abbreviation graph_of :: "async_run \<Rightarrow> ComputeGraph" where
  "graph_of s \<equiv> es_graph (ar_state s)"

abbreviation store_of :: "exec_state \<Rightarrow> TensorStore" where
  "store_of s \<equiv> ec_store (es_ctx s)"

inductive async_step :: "async_run \<Rightarrow> async_run \<Rightarrow> bool" where
  spawn: "ar_main s < length (addrs (graph_of s)) \<Longrightarrow> a = addrs (graph_of s) ! ar_main s \<Longrightarrow>
    async_step s ((enter a (Awaiting 0) (ar_state s) s)\<lparr>ar_main := Suc (ar_main s)\<rparr>)"
| await: "a \<in> set (addrs (graph_of s)) \<Longrightarrow> ar_phase s a = Awaiting i \<Longrightarrow> i < length (deps_of (graph_of s) a) \<Longrightarrow>
    is_done s (deps_of (graph_of s) a ! i) \<Longrightarrow>
    async_step s (enter a (Awaiting (Suc i)) (ar_state s) s)"
| start: "a \<in> set (addrs (graph_of s)) \<Longrightarrow> ar_phase s a = Awaiting (length (deps_of (graph_of s) a)) \<Longrightarrow>
    async_step s (enter a (Started t) (start_node a t (ar_state s)) s)"
| eval: "a \<in> set (addrs (graph_of s)) \<Longrightarrow> ar_phase s a = Started t \<Longrightarrow>
    async_step s (enter a (Evaluated t (node_eval (cn_op (node_at (graph_of s) a)) (store_of (ar_state s)))) (ar_state s) s)"
| put: "a \<in> set (addrs (graph_of s)) \<Longrightarrow> ar_phase s a = Evaluated t r \<Longrightarrow>
    async_step s (enter a (Written t (error_of r)) (set_store (apply_write r (store_of (ar_state s))) (ar_state s)) s)"
| report: "a \<in> set (addrs (graph_of s)) \<Longrightarrow> ar_phase s a = Written t err \<Longrightarrow>
    async_step s (enter a Reported (finish_node a t finish err (ar_state s)) s)"
| signal: "a \<in> set (addrs (graph_of s)) \<Longrightarrow> ar_phase s a = Reported \<Longrightarrow>
    async_step s (enter a Signalled (signal_node a (ar_state s)) s)"
| count_down: "a \<in> set (addrs (graph_of s)) \<Longrightarrow> ar_phase s a = Signalled \<Longrightarrow>
    async_step s (enter a Finished (count_down_state (ar_state s)) s)"

inductive_cases async_stepE: "async_step s s'"

inductive async_reach :: "exec_state \<Rightarrow> async_run \<Rightarrow> bool" for s0 where
  init: "async_reach s0 (async_init s0)"
| more: "async_reach s0 s \<Longrightarrow> async_step s s' \<Longrightarrow> async_reach s0 s'"

text \<open>\<^verbatim>\<open>fut.wait()\<close> returns once every node has been spawned and the promise is set; an empty graph returns at once.\<close>

definition async_returns :: "async_run \<Rightarrow> bool" where
  "async_returns s =
    (cg_nodes (graph_of s) = [] \<or>
     rs_done (es_run (ar_state s)) \<and> ar_main s = length (addrs (graph_of s)))"

definition ExecuteAsync_result :: "int \<Rightarrow> nat \<Rightarrow> async_run \<Rightarrow> ComputeGraph \<times> ExecutionContext" where
  "ExecuteAsync_result now workers s =
    (if cg_nodes (graph_of s) = [] then (graph_of s, es_ctx (ar_state s))
     else (graph_of s, ReportRunSummary (es_run (ar_state s)) (now - rs_exec_start (es_run (ar_state s))) workers
            (es_ctx (ar_state s))))"

section \<open>An op depends on the tensors it names only\<close>

lemma node_compute_eval:
  "node_compute op store = bindR (node_eval op store) (\<lambda>w. Ok (apply_write (Inr w) store))"
proof (cases op)
  case (RealOp t)
  have run: "bindR x (\<lambda>ts. bindR (op_kernel t ts) (\<lambda>r. op_set outs r store)) =
      bindR (bindR x (\<lambda>ts. bindR (op_kernel t ts) (\<lambda>r. bindR (name_at outs 0) (\<lambda>out. Ok (Some (out, r))))))
        (\<lambda>w. Ok (apply_write (Inr w) store))" for x outs
    by (simp add: op_set_def bindR_assoc)
  show ?thesis unfolding RealOp node_compute.simps node_eval.simps TensorOp_compute_def op_eval_def Let_def run
    by (cases t) (simp_all add: bindR_assoc split: bindR_split)
qed simp

lemma op_inputs_from_cong:
  assumes "\<And>n. n \<in> set inputs \<Longrightarrow> Store_find n s = Store_find n s'"
  shows "op_inputs_from inputs is s = op_inputs_from inputs is s'"
proof (induction "is")
  case (Cons i "is")
  have "op_input inputs i s = op_input inputs i s'"
    using assms [of "inputs ! i"] by (auto simp: op_input_def name_at_def OpContext_input_def)
  then show ?case using Cons by simp
qed simp

lemma node_eval_inputs:
  assumes "\<And>n. n \<in> set (op_inputs op) \<Longrightarrow> Store_find n s = Store_find n s'"
  shows "node_eval op s = node_eval op s'"
proof (cases op)
  case (RealOp t)
  have "op_inputs_from (ob_inputs (op_base t)) is s = op_inputs_from (ob_inputs (op_base t)) is s'" for "is"
    by (rule op_inputs_from_cong) (use assms RealOp in simp)
  then show ?thesis by (simp add: RealOp op_eval_def)
qed simp

lemma node_eval_target:
  "node_eval op store = Ok (Some (out, t)) \<Longrightarrow> op_outputs op \<noteq> [] \<and> out = hd (op_outputs op)"
  by (cases op)
    (auto simp: op_eval_def Let_def ok_iff name_at_def hd_conv_nth split: TensorOp.splits if_splits)

text \<open>The names a node reads and the name it may write; an identity on its own input touches nothing.\<close>

fun is_noop :: "NodeOp \<Rightarrow> bool" where
  "is_noop (RealOp (IdentityOp b)) =
    (ob_inputs b \<noteq> [] \<and> ob_outputs b \<noteq> [] \<and> ob_inputs b ! 0 = ob_outputs b ! 0)"
| "is_noop _ = False"

definition node_reads :: "NodeOp \<Rightarrow> string list" where
  "node_reads op = (if is_noop op then [] else op_inputs op)"

definition node_target :: "NodeOp \<Rightarrow> string list" where
  "node_target op = (if is_noop op then [] else take 1 (op_outputs op))"

lemma node_eval_noop: "is_noop op \<Longrightarrow> node_eval op s = Ok None"
  by (cases op rule: is_noop.cases) (auto simp: op_eval_def name_at_def)

lemma node_eval_cong:
  assumes "\<And>n. n \<in> set (node_reads op) \<Longrightarrow> Store_find n s = Store_find n s'"
  shows "node_eval op s = node_eval op s'"
proof (cases "is_noop op")
  case True
  then show ?thesis by (simp add: node_eval_noop)
next
  case False
  then show ?thesis using node_eval_inputs [of op s s'] assms by (simp add: node_reads_def)
qed

section \<open>Dataflow: any order of evaluation gives the same tensors\<close>

text \<open>The contract of the ops: what one computes depends on the names it reads, and it stores at most its target.  A
  set \<open>W\<close> of nodes has been evaluated; a store is a snapshot of \<open>W\<close> when it holds their results over the
  initial store.\<close>

locale dataflow = symbol_table put look inv valid
  for put :: "string \<Rightarrow> 'v \<Rightarrow> 's \<Rightarrow> 's" and look :: "string \<Rightarrow> 's \<Rightarrow> 'v option" and inv :: "'s \<Rightarrow> bool" and valid :: "'v \<Rightarrow> bool" +
  fixes eval :: "'op \<Rightarrow> 's \<Rightarrow> (string \<times> 'v) option res"
    and commit :: "(string \<times> 'v) option res \<Rightarrow> 's \<Rightarrow> 's"
    and reads :: "'op \<Rightarrow> string list"
    and target :: "'op \<Rightarrow> string list"
  assumes eval_cong: "(\<And>n. n \<in> set (reads op) \<Longrightarrow> look n s = look n s') \<Longrightarrow> eval op s = eval op s'"
    and eval_target: "eval op s = Ok (Some (n, v)) \<Longrightarrow> n \<in> set (target op)"
    and commit_put: "commit (Ok (Some (n, v))) s = put n v s"
    and commit_none: "commit (Ok None) s = s"
    and commit_error: "commit (Throw e) s = s"
begin

definition well_wired :: "('a \<Rightarrow> 'op) \<Rightarrow> ('a \<Rightarrow> 'a list) \<Rightarrow> 'a list \<Rightarrow> bool" where
  "well_wired op deps topo =
    (topo_order deps topo
     \<and> (\<forall>a \<in> set topo. \<forall>b \<in> set topo. a \<noteq> b \<longrightarrow> set (target (op a)) \<inter> set (target (op b)) = {})
     \<and> (\<forall>a \<in> set topo. \<forall>b \<in> set topo. a \<noteq> b \<longrightarrow> set (target (op b)) \<inter> set (reads (op a)) \<noteq> {}
          \<longrightarrow> (b, a) \<in> (dep_rel deps (set topo))\<^sup>+))"

definition dep_closed :: "('a \<Rightarrow> 'a list) \<Rightarrow> 'a set \<Rightarrow> bool" where
  "dep_closed deps W = (\<forall>a \<in> W. set (deps a) \<subseteq> W)"

definition eval_all :: "('a \<Rightarrow> 'op) \<Rightarrow> 'a list \<Rightarrow> 's \<Rightarrow> 's" where
  "eval_all op xs s = fold (\<lambda>a s. commit (eval (op a) s) s) xs s"

definition outcome :: "('a \<Rightarrow> 'op) \<Rightarrow> 'a list \<Rightarrow> 's \<Rightarrow> 'a \<Rightarrow> (string \<times> 'v) option res" where
  "outcome op topo s0 a = eval (op a) (eval_all op (takeWhile (\<lambda>b. b \<noteq> a) topo) s0)"

definition snapshot :: "('a \<Rightarrow> 'op) \<Rightarrow> 'a list \<Rightarrow> 's \<Rightarrow> 'a set \<Rightarrow> 's \<Rightarrow> bool" where
  "snapshot op topo s0 W s =
    ((\<forall>a \<in> W. \<forall>n v. outcome op topo s0 a = Ok (Some (n, v)) \<longrightarrow> look n s = Some v)
     \<and> (\<forall>n. (\<forall>a \<in> W. \<forall>v. outcome op topo s0 a \<noteq> Ok (Some (n, v))) \<longrightarrow> look n s = look n s0))"

lemma well_wiredD:
  assumes "well_wired op deps topo"
  shows "topo_order deps topo"
    "a \<in> set topo \<Longrightarrow> b \<in> set topo \<Longrightarrow> a \<noteq> b \<Longrightarrow> set (target (op a)) \<inter> set (target (op b)) = {}"
    "a \<in> set topo \<Longrightarrow> b \<in> set topo \<Longrightarrow> a \<noteq> b \<Longrightarrow> set (target (op b)) \<inter> set (reads (op a)) \<noteq> {} \<Longrightarrow>
      (b, a) \<in> (dep_rel deps (set topo))\<^sup>+"
  using assms by (simp_all add: well_wired_def)

lemma dep_closed_ancestor:
  assumes "(b, a) \<in> (dep_rel deps N)\<^sup>+" "dep_closed deps W" "set (deps a) \<subseteq> W"
  shows "b \<in> W"
  using assms(1)
proof (induction rule: converse_trancl_induct)
  case (base y)
  then show ?case using assms(3) by (auto simp: dep_rel_def)
next
  case (step y z)
  then show ?case using assms(2) by (auto simp: dep_rel_def dep_closed_def)
qed

lemma snapshot_empty: "snapshot op topo s0 {} s0"
  by (simp add: snapshot_def)

lemma outcome_target: "outcome op topo s0 a = Ok (Some (n, v)) \<Longrightarrow> n \<in> set (target (op a))"
  unfolding outcome_def by (rule eval_target)

lemma snapshot_insert:
  assumes w: "well_wired op deps topo" and W: "W \<subseteq> set topo" and a: "a \<in> set topo" "a \<notin> W"
    and s: "snapshot op topo s0 W s"
  shows "snapshot op topo s0 (insert a W) (commit (outcome op topo s0 a) s)"
proof (cases "\<exists>n v. outcome op topo s0 a = Ok (Some (n, v))")
  case True
  then obtain n v where r: "outcome op topo s0 a = Ok (Some (n, v))" by blast
  have other: "m \<noteq> n" if b: "b \<in> W" "outcome op topo s0 b = Ok (Some (m, u))" for b m u
  proof -
    have "b \<in> set topo" "a \<noteq> b" using W a b(1) by auto
    then have "set (target (op a)) \<inter> set (target (op b)) = {}" by (rule well_wiredD(2) [OF w a(1)])
    then show ?thesis using outcome_target [OF r] outcome_target [OF b(2)] by blast
  qed
  have e: "commit (outcome op topo s0 a) s = put n v s" by (simp add: r commit_put)
  show ?thesis unfolding e snapshot_def
  proof (intro conjI ballI allI impI)
    fix b m u assume "b \<in> insert a W" "outcome op topo s0 b = Ok (Some (m, u))"
    then show "look m (put n v s) = Some u"
      using r other [of b m u] s by (auto simp: look_put snapshot_def)
  next
    fix m assume "\<forall>b \<in> insert a W. \<forall>u. outcome op topo s0 b \<noteq> Ok (Some (m, u))"
    then show "look m (put n v s) = look m s0" using r s by (auto simp: look_put snapshot_def)
  qed
next
  case False
  have "r = Throw e \<or> r = Ok None \<or> (\<exists>n v. r = Ok (Some (n, v)))" if "r = Throw e \<or> r = Ok b" for r e b
    using that by (cases b) auto
  then have "commit (outcome op topo s0 a) s = s"
    using False commit_error commit_none by (metis old.sum.exhaust)
  then show ?thesis using s False by (auto simp: snapshot_def)
qed

text \<open>Two snapshots that both hold the dependencies of a node give it the same inputs.\<close>

lemma snapshot_eval:
  assumes w: "well_wired op deps topo" and a: "a \<in> set topo"
    and W: "W \<subseteq> set topo" "a \<notin> W" "set (deps a) \<subseteq> W" "dep_closed deps W" and s: "snapshot op topo s0 W s"
    and V: "V \<subseteq> set topo" "a \<notin> V" "set (deps a) \<subseteq> V" "dep_closed deps V" and t: "snapshot op topo s0 V t"
  shows "eval (op a) s = eval (op a) t"
proof (rule eval_cong)
  fix n assume n: "n \<in> set (reads (op a))"
  have dep: "b \<in> W \<and> b \<in> V" if b: "b \<in> set topo" "b \<noteq> a" "outcome op topo s0 b = Ok (Some (n, u))" for b u
  proof -
    have "(b, a) \<in> (dep_rel deps (set topo))\<^sup>+"
      by (rule well_wiredD(3) [OF w a b(1) b(2) [symmetric]]) (use outcome_target [OF b(3)] n in blast)
    then show ?thesis using dep_closed_ancestor W(3,4) V(3,4) by metis
  qed
  show "look n s = look n t"
  proof (cases "\<exists>b \<in> set topo - {a}. \<exists>u. outcome op topo s0 b = Ok (Some (n, u))")
    case True
    then obtain b u where b: "b \<in> set topo" "b \<noteq> a" "outcome op topo s0 b = Ok (Some (n, u))" by blast
    then have "look n s = Some u" "look n t = Some u" using s t dep [OF b] b(3) unfolding snapshot_def by blast+
    then show ?thesis by simp
  next
    case False
    then have no: "outcome op topo s0 b \<noteq> Ok (Some (n, u))" if "b \<in> set topo" "b \<noteq> a" for b u
      using that by blast
    have "\<forall>b \<in> W. \<forall>u. outcome op topo s0 b \<noteq> Ok (Some (n, u))" "\<forall>b \<in> V. \<forall>u. outcome op topo s0 b \<noteq> Ok (Some (n, u))"
      using no W(1,2) V(1,2) by blast+
    then have "look n s = look n s0" "look n t = look n s0" using s t unfolding snapshot_def by simp_all
    then show ?thesis by simp
  qed
qed

lemma topo_prefix_closed:
  assumes "topo_order deps (xs @ ys)"
  shows "dep_closed deps (set xs)"
  unfolding dep_closed_def
proof
  fix a assume "a \<in> set xs"
  then obtain us vs where x: "xs = us @ a # vs" by (auto simp: in_set_conv_decomp)
  then have "set (deps a) \<subseteq> set us" by (intro topo_order_prefix [of deps us a "vs @ ys"]) (use assms in simp)
  then show "set (deps a) \<subseteq> set xs" using x by auto
qed

lemma takeWhile_prefix: "distinct (xs @ a # ys) \<Longrightarrow> takeWhile (\<lambda>b. b \<noteq> a) (xs @ a # ys) = xs"
  by (subst takeWhile_append2) auto

lemma eval_all_snoc:
  assumes "distinct (xs @ a # ys)"
  shows "eval_all op (xs @ [a]) s0 = commit (outcome op (xs @ a # ys) s0 a) (eval_all op xs s0)"
  using takeWhile_prefix [OF assms] by (simp add: eval_all_def outcome_def)

lemma snapshot_prefix:
  assumes w: "well_wired op deps topo"
  shows "topo = xs @ ys \<Longrightarrow> snapshot op topo s0 (set xs) (eval_all op xs s0)"
proof (induction xs arbitrary: ys rule: rev_induct)
  case Nil
  then show ?case by (simp add: eval_all_def snapshot_empty)
next
  case (snoc a xs)
  have d: "distinct topo" using w topo_order_distinct by (auto simp: well_wired_def)
  have t: "topo = xs @ a # ys" using snoc.prems by simp
  have "snapshot op topo s0 (insert a (set xs)) (commit (outcome op topo s0 a) (eval_all op xs s0))"
    by (rule snapshot_insert [OF w]) (use snoc.IH [OF t] d t in auto)
  moreover have "eval_all op (xs @ [a]) s0 = commit (outcome op topo s0 a) (eval_all op xs s0)"
    unfolding t by (rule eval_all_snoc) (use d t in simp)
  ultimately show ?case by simp
qed

lemma snapshot_outcome:
  assumes w: "well_wired op deps topo" and a: "a \<in> set topo"
    and W: "W \<subseteq> set topo" "a \<notin> W" "set (deps a) \<subseteq> W" "dep_closed deps W" and s: "snapshot op topo s0 W s"
  shows "eval (op a) s = outcome op topo s0 a"
proof -
  obtain xs ys where t: "topo = xs @ a # ys" using a by (auto simp: in_set_conv_decomp)
  have to: "topo_order deps topo" using w by (simp add: well_wired_def)
  then have d: "distinct topo" by (rule topo_order_distinct)
  have dep: "set (deps a) \<subseteq> set xs"
    by (rule topo_order_prefix) (use to t in simp)
  have cl: "dep_closed deps (set xs)" by (rule topo_prefix_closed [of deps xs "a # ys"]) (use to t in simp)
  have "eval (op a) s = eval (op a) (eval_all op xs s0)"
    by (rule snapshot_eval [OF w a W s _ _ dep cl snapshot_prefix [OF w t]]) (use d t in auto)
  then show ?thesis using takeWhile_prefix [of xs a ys] d t by (simp add: outcome_def)
qed

lemma snapshot_unique: "snapshot op topo s0 W s \<Longrightarrow> snapshot op topo s0 W t \<Longrightarrow> look n s = look n t"
  unfolding snapshot_def by metis

end

interpretation df: dataflow Store_set Store_find store_inv tensor_ok node_eval apply_write node_reads node_target
proof (unfold_locales, goal_cases)
  case (1 op s s')
  then show ?case by (rule node_eval_cong)
next
  case (2 op s n v)
  then show ?case using node_eval_target [of op s n v] node_eval_noop [of op s]
    by (cases "op_outputs op") (auto simp: node_target_def split: if_splits)
qed simp_all

end
