(* ===== verification/GraphAgree.thy ===== *)
theory GraphAgree
  imports GraphRun
begin

text \<open>
  What the two ways of running a compute graph leave behind: the effect of \<^verbatim>\<open>Execute\<close>, the invariant of the
  interleavings of \<^verbatim>\<open>ExecuteAsync\<close>, their agreement, and the progress of the asynchronous run.
\<close>

section \<open>What a run leaves of the graph\<close>

definition shape :: "ComputeGraph \<Rightarrow> (nat \<times> string \<times> string \<times> NodeOp \<times> nat list) list" where
  "shape g = map (\<lambda>(a, n). (a, cn_id n, cn_module n, cn_op n, cn_deps n)) (cg_nodes g)"

definition same_graph :: "ComputeGraph \<Rightarrow> ComputeGraph \<Rightarrow> bool" where
  "same_graph g h = (shape h = shape g \<and> cg_by_id h = cg_by_id g \<and> cg_topo h = cg_topo g \<and> cg_finalized h = cg_finalized g)"

lemma same_graph_refl [simp]: "same_graph g g"
  by (simp add: same_graph_def)

lemma same_graph_trans: "same_graph g h \<Longrightarrow> same_graph h k \<Longrightarrow> same_graph g k"
  by (simp add: same_graph_def)

lemma shape_node: "map_of (shape g) a = map_option (\<lambda>n. (cn_id n, cn_module n, cn_op n, cn_deps n)) (map_of (cg_nodes g) a)"
proof -
  have "map_of (map (\<lambda>(a, n). (a, cn_id n, cn_module n, cn_op n, cn_deps n)) xs) a =
      map_option (\<lambda>n. (cn_id n, cn_module n, cn_op n, cn_deps n)) (map_of xs a)" for xs
    by (induction xs) auto
  then show ?thesis by (simp add: shape_def)
qed

lemma same_graphD:
  assumes "same_graph g h"
  shows "addrs h = addrs g" "cn_op (node_at h a) = cn_op (node_at g a)" "deps_of h = deps_of g"
    "length (cg_nodes h) = length (cg_nodes g)" "cg_topo h = cg_topo g" "cg_finalized h = cg_finalized g"
proof -
  have s: "shape h = shape g" and "cg_topo h = cg_topo g" "cg_finalized h = cg_finalized g"
    using assms by (auto simp: same_graph_def)
  then show "cg_topo h = cg_topo g" "cg_finalized h = cg_finalized g" by auto
  have "addrs k = keys (shape k)" for k by (simp add: addrs_def shape_def case_prod_unfold comp_def)
  then show "addrs h = addrs g" using s by simp
  have "length (cg_nodes k) = length (shape k)" for k by (simp add: shape_def)
  then show "length (cg_nodes h) = length (cg_nodes g)" using s by simp
  have f: "map_option (\<lambda>n. (cn_id n, cn_module n, cn_op n, cn_deps n)) (map_of (cg_nodes h) b) =
      map_option (\<lambda>n. (cn_id n, cn_module n, cn_op n, cn_deps n)) (map_of (cg_nodes g) b)" for b
    using shape_node [of h b] shape_node [of g b] s by simp
  then show "cn_op (node_at h a) = cn_op (node_at g a)"
    using f [of a] by (cases "map_of (cg_nodes h) a"; cases "map_of (cg_nodes g) a") (simp_all add: node_at_def)
  have "deps_of h b = deps_of g b" for b
    using f [of b] by (cases "map_of (cg_nodes h) b"; cases "map_of (cg_nodes g) b") (simp_all add: node_at_def deps_of_def)
  then show "deps_of h = deps_of g" by blast
qed

lemma same_graph_id: "same_graph g h \<Longrightarrow> cn_id (node_at h a) = cn_id (node_at g a)"
  using shape_node [of h a] shape_node [of g a]
  by (cases "map_of (cg_nodes h) a"; cases "map_of (cg_nodes g) a") (auto simp: node_at_def same_graph_def)

lemma same_graph_update:
  assumes "\<And>n. cn_id (f n) = cn_id n \<and> cn_module (f n) = cn_module n \<and> cn_op (f n) = cn_op n \<and> cn_deps (f n) = cn_deps n"
  shows "same_graph g (update_node a f g)"
  using assms by (auto simp: same_graph_def shape_def update_node_def)

lemma ctx_emit_store [simp]: "ec_store (ctx_emit e ctx) = ec_store ctx"
  by (simp add: ctx_emit_def)

lemma EmitNodeEvent_store [simp]: "ec_store (EmitNodeEvent act nid ty el ok ctx) = ec_store ctx"
  by (simp add: EmitNodeEvent_def)

lemma ReportRunSummary_store [simp]: "ec_store (ReportRunSummary st wall workers ctx) = ec_store ctx"
proof -
  have "ec_store (fold (\<lambda>m. ctx_emit (e m)) ms c) = ec_store c" for e :: "string \<Rightarrow> Event" and ms c
    by (induction ms arbitrary: c) auto
  then show ?thesis by (simp add: ReportRunSummary_def Let_def)
qed

lemma start_node_effect [simp]:
  "es_graph (start_node a t s) = es_graph s" "store_of (start_node a t s) = store_of s"
  "rs_remaining (es_run (start_node a t s)) = rs_remaining (es_run s)" "rs_done (es_run (start_node a t s)) = rs_done (es_run s)"
  by (simp_all add: start_node_def Let_def acc_begin_def)

lemma set_store_effect [simp]:
  "es_graph (set_store st s) = es_graph s" "store_of (set_store st s) = st" "es_run (set_store st s) = es_run s"
  by (simp_all add: set_store_def)

lemma finish_node_effect [simp]:
  "store_of (finish_node a t u err s) = store_of s"
  "rs_remaining (es_run (finish_node a t u err s)) = rs_remaining (es_run s)"
  "rs_done (es_run (finish_node a t u err s)) = rs_done (es_run s)"
  by (simp_all add: finish_node_def Let_def acc_end_def)

lemma finish_node_graph:
  "same_graph (es_graph s) (es_graph (finish_node a t u err s))"
  "b \<in> set (addrs (es_graph s)) \<Longrightarrow> b \<noteq> a \<Longrightarrow> node_at (es_graph (finish_node a t u err s)) b = node_at (es_graph s) b"
  "a \<in> set (addrs (es_graph s)) \<Longrightarrow> cn_status (node_at (es_graph (finish_node a t u err s)) a) = status_of err"
  "a \<in> set (addrs (es_graph s)) \<Longrightarrow> cn_done (node_at (es_graph (finish_node a t u err s)) a) = cn_done (node_at (es_graph s) a)"
  "a \<in> set (addrs (es_graph s)) \<Longrightarrow> cn_error (node_at (es_graph s) a) = None \<Longrightarrow>
    cn_error (node_at (es_graph (finish_node a t u err s)) a) = err"
  by (simp_all add: finish_node_def Let_def same_graph_update node_at_update_node)

lemma signal_node_effect [simp]:
  "es_ctx (signal_node a s) = es_ctx s" "es_run (signal_node a s) = es_run s"
  by (simp_all add: signal_node_def)

lemma signal_node_graph:
  "same_graph (es_graph s) (es_graph (signal_node a s))"
  "b \<in> set (addrs (es_graph s)) \<Longrightarrow> node_at (es_graph (signal_node a s)) b =
    (if b = a then (node_at (es_graph s) a)\<lparr>cn_done := True\<rparr> else node_at (es_graph s) b)"
  by (simp_all add: signal_node_def same_graph_update node_at_update_node)

section \<open>\<^verbatim>\<open>Execute\<close>\<close>

definition ops_of :: "exec_state \<Rightarrow> nat \<Rightarrow> NodeOp" where
  "ops_of s a = cn_op (node_at (es_graph s) a)"

definition outcome_of :: "exec_state \<Rightarrow> nat \<Rightarrow> (string \<times> Tensor) option res" where
  "outcome_of s0 a = df.outcome (ops_of s0) (cg_topo (es_graph s0)) (store_of s0) a"

definition data_ok :: "exec_state \<Rightarrow> bool" where
  "data_ok s0 = df.well_wired (ops_of s0) (deps_of (es_graph s0)) (cg_topo (es_graph s0))"

definition reported :: "exec_state \<Rightarrow> ComputeGraph \<Rightarrow> nat \<Rightarrow> bool" where
  "reported s0 g a =
    (data_ok s0 \<longrightarrow> cn_status (node_at g a) = status_of (error_of (outcome_of s0 a)) \<and> cn_error (node_at g a) = error_of (outcome_of s0 a))"

definition pristine :: "ComputeGraph \<Rightarrow> nat \<Rightarrow> bool" where
  "pristine g a = (cn_status (node_at g a) = kPending \<and> cn_error (node_at g a) = None)"

lemma run_node_effect:
  assumes a: "a \<in> set (addrs (es_graph s))" and r: "run_node clock a (t, s) = (t', s')"
  shows "store_of s' = apply_write (node_eval (cn_op (node_at (es_graph s) a)) (store_of s)) (store_of s)"
    "same_graph (es_graph s) (es_graph s')"
    "b \<in> set (addrs (es_graph s)) \<Longrightarrow> b \<noteq> a \<Longrightarrow> node_at (es_graph s') b = node_at (es_graph s) b"
    "cn_status (node_at (es_graph s') a) = status_of (error_of (node_eval (cn_op (node_at (es_graph s) a)) (store_of s)))"
    "cn_error (node_at (es_graph s) a) = None \<Longrightarrow>
      cn_error (node_at (es_graph s') a) = error_of (node_eval (cn_op (node_at (es_graph s) a)) (store_of s))"
proof -
  let ?op = "cn_op (node_at (es_graph s) a)"
  define e where "e = node_eval ?op (store_of s)"
  define m where "m = (case node_compute ?op (store_of s) of Inl _ \<Rightarrow> start_node a (clock t) s
      | Inr store \<Rightarrow> set_store store (start_node a (clock t) s))"
  define f where "f = finish_node a (clock t) (clock (t + 1)) (error_of e) m"
  have err: "error_of (node_compute ?op (store_of s)) = error_of e"
    by (cases e) (simp_all add: node_compute_eval e_def [symmetric] error_of_def)
  have s': "s' = signal_node a f" using r err by (simp add: run_node_def Let_def m_def f_def)
  have m: "es_graph m = es_graph s" "store_of m = apply_write e (store_of s)"
    by (cases e; simp add: m_def node_compute_eval e_def [symmetric])+
  note fg = finish_node_graph [where s = m and a = a and t = "clock t" and u = "clock (t + 1)" and err = "error_of e", folded f_def, unfolded m(1)]
  have ad: "addrs (es_graph f) = addrs (es_graph s)" using same_graphD(1) [OF fg(1)] .
  show "store_of s' = apply_write e (store_of s)" by (simp add: s' f_def m(2))
  show "same_graph (es_graph s) (es_graph s')"
    unfolding s' by (rule same_graph_trans [OF fg(1) signal_node_graph(1)])
  show "b \<in> set (addrs (es_graph s)) \<Longrightarrow> b \<noteq> a \<Longrightarrow> node_at (es_graph s') b = node_at (es_graph s) b"
    using signal_node_graph(2) [of b f a] fg(2) ad by (simp add: s')
  show "cn_status (node_at (es_graph s') a) = status_of (error_of e)"
    using signal_node_graph(2) [of a f a] fg(3) ad a by (simp add: s')
  show "cn_error (node_at (es_graph s) a) = None \<Longrightarrow> cn_error (node_at (es_graph s') a) = error_of e"
    using signal_node_graph(2) [of a f a] fg(5) ad a by (simp add: s')
qed

lemma run_nodes:
  assumes topo: "cg_topo (es_graph s0) = xs @ ys" "distinct (xs @ ys)" "set (xs @ ys) \<subseteq> set (addrs (es_graph s0))"
    and p: "\<And>a. a \<in> set (addrs (es_graph s0)) \<Longrightarrow> pristine (es_graph s0) a"
    and r: "fold (run_node clock) xs (t, s0) = (t', s)"
  shows "same_graph (es_graph s0) (es_graph s) \<and> store_of s = df.eval_all (ops_of s0) xs (store_of s0)
    \<and> (\<forall>a \<in> set (addrs (es_graph s0)). if a \<in> set xs then reported s0 (es_graph s) a else pristine (es_graph s) a)"
  using topo r
proof (induction xs arbitrary: ys t' s rule: rev_induct)
  case Nil
  then show ?case using p by (simp add: df.eval_all_def)
next
  case (snoc a xs)
  obtain t1 s1 where s1: "fold (run_node clock) xs (t, s0) = (t1, s1)" by fastforce
  then have ra: "run_node clock a (t1, s1) = (t', s)" using snoc.prems(4) by simp
  have ih: "same_graph (es_graph s0) (es_graph s1)" "store_of s1 = df.eval_all (ops_of s0) xs (store_of s0)"
    "\<And>b. b \<in> set (addrs (es_graph s0)) \<Longrightarrow> if b \<in> set xs then reported s0 (es_graph s1) b else pristine (es_graph s1) b"
    using snoc.IH [of "a # ys" t1 s1] snoc.prems(1-3) s1 by auto
  have ad: "addrs (es_graph s1) = addrs (es_graph s0)" using same_graphD(1) [OF ih(1)] .
  have a: "a \<in> set (addrs (es_graph s0))" "a \<notin> set xs" using snoc.prems(2,3) by auto
  have out: "outcome_of s0 a = node_eval (cn_op (node_at (es_graph s1) a)) (store_of s1)"
    using df.takeWhile_prefix [of xs a ys] snoc.prems(1,2) same_graphD(2) [OF ih(1), of a]
    by (simp add: outcome_of_def df.outcome_def ih(2) ops_of_def)
  note eff = run_node_effect [OF _ ra, unfolded ad, OF a(1), folded out]
  have "same_graph (es_graph s0) (es_graph s)" by (rule same_graph_trans [OF ih(1) eff(2)])
  moreover have "store_of s = df.eval_all (ops_of s0) (xs @ [a]) (store_of s0)"
    using eff(1) out same_graphD(2) [OF ih(1), of a] by (simp add: df.eval_all_def ih(2) ops_of_def)
  moreover have "if b \<in> set (xs @ [a]) then reported s0 (es_graph s) b else pristine (es_graph s) b"
    if b: "b \<in> set (addrs (es_graph s0))" for b
  proof (cases "b = a")
    case True
    then show ?thesis using eff(4,5) ih(3) [OF a(1)] a(2) by (simp add: reported_def pristine_def)
  next
    case False
    then show ?thesis using eff(3) [OF b False] ih(3) [OF b] by (simp add: reported_def pristine_def split: if_splits)
  qed
  ultimately show ?case by blast
qed

section \<open>The invariant of \<^verbatim>\<open>ExecuteAsync\<close>\<close>

fun active :: "node_phase \<Rightarrow> bool" where
  "active Unspawned = False"
| "active (Awaiting _) = False"
| "active _ = True"

fun written :: "node_phase \<Rightarrow> bool" where
  "written (Written _ _) = True"
| "written Reported = True"
| "written Signalled = True"
| "written Finished = True"
| "written _ = False"

fun carries :: "(string \<times> Tensor) option res \<Rightarrow> node_phase \<Rightarrow> bool" where
  "carries out (Evaluated _ r) = (r = out)"
| "carries out (Written _ err) = (err = error_of out)"
| "carries out _ = True"

definition node_ok :: "exec_state \<Rightarrow> async_run \<Rightarrow> nat \<Rightarrow> bool" where
  "node_ok s0 s a =
    ((is_done s a \<longleftrightarrow> ar_phase s a \<in> {Signalled, Finished})
     \<and> (\<forall>i. ar_phase s a = Awaiting i \<longrightarrow> i \<le> length (deps_of (es_graph s0) a) \<and> (\<forall>j < i. is_done s (deps_of (es_graph s0) a ! j)))
     \<and> (active (ar_phase s a) \<longrightarrow> (\<forall>d \<in> set (deps_of (es_graph s0) a). is_done s d))
     \<and> (data_ok s0 \<longrightarrow> carries (outcome_of s0 a) (ar_phase s a))
     \<and> (if ar_phase s a \<in> {Reported, Signalled, Finished} then reported s0 (graph_of s) a else pristine (graph_of s) a))"

definition unfinished :: "exec_state \<Rightarrow> async_run \<Rightarrow> nat" where
  "unfinished s0 s = length (filter (\<lambda>a. ar_phase s a \<noteq> Finished) (addrs (es_graph s0)))"

definition async_inv :: "exec_state \<Rightarrow> async_run \<Rightarrow> bool" where
  "async_inv s0 s =
    (same_graph (es_graph s0) (graph_of s)
     \<and> (\<forall>a \<in> set (addrs (es_graph s0)). node_ok s0 s a)
     \<and> (data_ok s0 \<longrightarrow> df.snapshot (ops_of s0) (cg_topo (es_graph s0)) (store_of s0)
          {a \<in> set (addrs (es_graph s0)). written (ar_phase s a)} (store_of (ar_state s)))
     \<and> ar_main s \<le> length (addrs (es_graph s0))
     \<and> (\<forall>i < length (addrs (es_graph s0)). ar_phase s (addrs (es_graph s0) ! i) = Unspawned \<longleftrightarrow> ar_main s \<le> i)
     \<and> rs_remaining (es_run (ar_state s)) = unfinished s0 s
     \<and> (rs_done (es_run (ar_state s)) \<longleftrightarrow> unfinished s0 s = 0 \<and> addrs (es_graph s0) \<noteq> []))"

text \<open>The state a run starts from: a finalized graph just after \<^verbatim>\<open>ResetRunState\<close>.  What the nodes compute is only settled
  on a well-wired graph (\<open>data_ok\<close>); the order of events is the same on every graph.\<close>

definition runnable :: "exec_state \<Rightarrow> bool" where
  "runnable s0 =
    (distinct (addrs (es_graph s0))
     \<and> set (cg_topo (es_graph s0)) = set (addrs (es_graph s0))
     \<and> topo_order (deps_of (es_graph s0)) (cg_topo (es_graph s0))
     \<and> (\<forall>a \<in> set (addrs (es_graph s0)). pristine (es_graph s0) a \<and> \<not> cn_done (node_at (es_graph s0) a))
     \<and> rs_remaining (es_run s0) = length (addrs (es_graph s0)) \<and> \<not> rs_done (es_run s0))"

lemma runnableD:
  assumes "runnable s0"
  shows "distinct (addrs (es_graph s0))" "set (cg_topo (es_graph s0)) = set (addrs (es_graph s0))"
    "topo_order (deps_of (es_graph s0)) (cg_topo (es_graph s0))"
    "\<And>a. a \<in> set (addrs (es_graph s0)) \<Longrightarrow> pristine (es_graph s0) a"
    "\<And>a. a \<in> set (addrs (es_graph s0)) \<Longrightarrow> set (deps_of (es_graph s0) a) \<subseteq> set (addrs (es_graph s0))"
proof -
  show d: "distinct (addrs (es_graph s0))" and t: "set (cg_topo (es_graph s0)) = set (addrs (es_graph s0))"
    and w: "topo_order (deps_of (es_graph s0)) (cg_topo (es_graph s0))"
    and "\<And>a. a \<in> set (addrs (es_graph s0)) \<Longrightarrow> pristine (es_graph s0) a"
    using assms by (simp_all add: runnable_def)
  fix a assume "a \<in> set (addrs (es_graph s0))"
  then obtain xs ys where x: "cg_topo (es_graph s0) = xs @ a # ys" using t by (metis in_set_conv_decomp)
  then have "set (deps_of (es_graph s0) a) \<subseteq> set xs"
    using topo_order_prefix w by metis
  then show "set (deps_of (es_graph s0) a) \<subseteq> set (addrs (es_graph s0))" using t x by auto
qed

lemma async_init_inv: "runnable s0 \<Longrightarrow> async_inv s0 (async_init s0)"
  by (auto simp: async_inv_def async_init_def runnable_def node_ok_def is_done_def unfinished_def df.snapshot_empty)

lemma async_invD:
  assumes "async_inv s0 s"
  shows "same_graph (es_graph s0) (graph_of s)" "\<And>a. a \<in> set (addrs (es_graph s0)) \<Longrightarrow> node_ok s0 s a"
    "data_ok s0 \<Longrightarrow> df.snapshot (ops_of s0) (cg_topo (es_graph s0)) (store_of s0)
          {a \<in> set (addrs (es_graph s0)). written (ar_phase s a)} (store_of (ar_state s))"
    "ar_main s \<le> length (addrs (es_graph s0))"
    "\<And>i. i < length (addrs (es_graph s0)) \<Longrightarrow> ar_phase s (addrs (es_graph s0) ! i) = Unspawned \<longleftrightarrow> ar_main s \<le> i"
    "rs_remaining (es_run (ar_state s)) = unfinished s0 s"
    "rs_done (es_run (ar_state s)) \<longleftrightarrow> unfinished s0 s = 0 \<and> addrs (es_graph s0) \<noteq> []"
  using assms by (simp_all add: async_inv_def)

lemma node_ok_other:
  assumes "node_ok s0 s b" "ar_phase s' b = ar_phase s b" "node_at (graph_of s') b = node_at (graph_of s) b"
    and mono: "\<And>d. d \<in> set (deps_of (es_graph s0) b) \<Longrightarrow> is_done s d \<Longrightarrow> is_done s' d"
  shows "node_ok s0 s' b"
proof -
  have "is_done s' b = is_done s b" "reported s0 (graph_of s') b = reported s0 (graph_of s) b"
    "pristine (graph_of s') b = pristine (graph_of s) b"
    using assms(3) by (simp_all add: is_done_def reported_def pristine_def)
  then show ?thesis using assms(1) mono unfolding node_ok_def assms(2) by (auto simp: all_set_conv_all_nth)
qed

text \<open>A step at node \<open>a\<close> keeps the invariant when it keeps it at \<open>a\<close>, in the store and in the counter.\<close>

lemma async_invI:
  assumes run: "runnable s0" and inv: "async_inv s0 s" and a: "a \<in> set (addrs (es_graph s0))"
    and ph: "ar_phase s a \<noteq> Unspawned" "p \<noteq> Unspawned"
    and graph: "same_graph (graph_of s) (es_graph es)"
    and other: "\<And>b. b \<in> set (addrs (es_graph s0)) \<Longrightarrow> b \<noteq> a \<Longrightarrow> node_at (es_graph es) b = node_at (graph_of s) b"
    and grows: "is_done s a \<Longrightarrow> cn_done (node_at (es_graph es) a)"
    and here: "node_ok s0 s a \<Longrightarrow> node_ok s0 (enter a p es s) a"
    and store: "data_ok s0 \<Longrightarrow> df.snapshot (ops_of s0) (cg_topo (es_graph s0)) (store_of s0)
          {b \<in> set (addrs (es_graph s0)). written (ar_phase (enter a p es s) b)} (store_of es)"
    and count: "rs_remaining (es_run es) = unfinished s0 (enter a p es s)"
      "rs_done (es_run es) \<longleftrightarrow> unfinished s0 (enter a p es s) = 0 \<and> addrs (es_graph s0) \<noteq> []"
  shows "async_inv s0 (enter a p es s)"
proof -
  note d = async_invD [OF inv]
  let ?s = "enter a p es s"
  have mono: "is_done ?s b" if "is_done s b" "b \<in> set (addrs (es_graph s0))" for b
    using that other [OF that(2)] grows by (cases "b = a") (auto simp: is_done_def enter_def)
  have "node_ok s0 ?s b" if b: "b \<in> set (addrs (es_graph s0))" for b
  proof (cases "b = a")
    case True
    then show ?thesis using here d(2) [OF a] by simp
  next
    case False
    show ?thesis
      by (rule node_ok_other [OF d(2) [OF b]])
        (use other [OF b False] False mono runnableD(5) [OF run b] in \<open>auto simp: enter_def\<close>)
  qed
  moreover have "ar_phase ?s (addrs (es_graph s0) ! i) = Unspawned \<longleftrightarrow> ar_main ?s \<le> i"
    if "i < length (addrs (es_graph s0))" for i
    using d(5) [OF that] ph by (auto simp: enter_def)
  ultimately show ?thesis
    unfolding async_inv_def using same_graph_trans [OF d(1) graph] store count d(4) by (auto simp: enter_def)
qed

lemma unfinished_enter:
  "ar_phase s a \<noteq> Finished \<Longrightarrow> p \<noteq> Finished \<Longrightarrow> unfinished s0 (enter a p es s) = unfinished s0 s"
  unfolding unfinished_def by (intro arg_cong [where f = length] filter_cong) (auto simp: enter_def)

lemma written_enter:
  "written p = written (ar_phase s a) \<Longrightarrow>
    {b \<in> N. written (ar_phase (enter a p es s) b)} = {b \<in> N. written (ar_phase s b)}"
  by (auto simp: enter_def)

lemma filter_length_drop:
  "distinct xs \<Longrightarrow> a \<in> set xs \<Longrightarrow> P a \<Longrightarrow>
    length (filter P xs) = Suc (length (filter (\<lambda>x. x \<noteq> a \<and> P x) xs))"
proof (induction xs)
  case (Cons x xs)
  show ?case
  proof (cases "x = a")
    case True
    then have "filter (\<lambda>x. x \<noteq> a \<and> P x) xs = filter P xs" using Cons.prems by (intro filter_cong) auto
    then show ?thesis using True Cons.prems by simp
  qed (use Cons in auto)
qed simp

lemma unfinished_finish:
  assumes "distinct (addrs (es_graph s0))" "a \<in> set (addrs (es_graph s0))" "ar_phase s a \<noteq> Finished"
  shows "unfinished s0 s = Suc (unfinished s0 (enter a Finished es s))"
proof -
  have "(\<lambda>b. ar_phase (enter a Finished es s) b \<noteq> Finished) = (\<lambda>b. b \<noteq> a \<and> ar_phase s b \<noteq> Finished)"
    by (rule ext) (simp add: enter_def)
  then show ?thesis using filter_length_drop [OF assms(1,2), of "\<lambda>b. ar_phase s b \<noteq> Finished"] assms(3)
    by (simp add: unfinished_def)
qed

lemma done_enter: "is_done (enter a p es s) b = cn_done (node_at (es_graph es) b)"
  by (simp add: is_done_def enter_def)

lemma phase_enter: "ar_phase (enter a p es s) b = (if b = a then p else ar_phase s b)"
  by (simp add: enter_def)

lemma graph_enter: "graph_of (enter a p es s) = es_graph es"
  by (simp add: enter_def)

lemmas enter_simps = done_enter phase_enter graph_enter

text \<open>Steps that leave the tensors and the count of finished nodes alone.\<close>

lemma async_inv_quiet:
  assumes run: "runnable s0" and inv: "async_inv s0 s" and a: "a \<in> set (addrs (es_graph s0))"
    and ph: "ar_phase s a \<noteq> Unspawned" "p \<noteq> Unspawned" "ar_phase s a \<noteq> Finished" "p \<noteq> Finished"
      "written p = written (ar_phase s a)"
    and graph: "same_graph (graph_of s) (es_graph es)"
    and other: "\<And>b. b \<in> set (addrs (es_graph s0)) \<Longrightarrow> b \<noteq> a \<Longrightarrow> node_at (es_graph es) b = node_at (graph_of s) b"
    and grows: "is_done s a \<Longrightarrow> cn_done (node_at (es_graph es) a)"
    and here: "node_ok s0 s a \<Longrightarrow> node_ok s0 (enter a p es s) a"
    and same: "store_of es = store_of (ar_state s)" "rs_remaining (es_run es) = rs_remaining (es_run (ar_state s))"
      "rs_done (es_run es) = rs_done (es_run (ar_state s))"
  shows "async_inv s0 (enter a p es s)"
  by (rule async_invI [OF run inv a ph(1,2) graph other grows here])
    (use async_invD(3,6,7) [OF inv] ph in
      \<open>simp_all add: same written_enter [OF ph(5)] unfinished_enter [OF ph(3,4)]\<close>)

lemma async_spawn_inv:
  assumes run: "runnable s0" and inv: "async_inv s0 s" and m: "ar_main s < length (addrs (es_graph s0))"
    and a: "a = addrs (es_graph s0) ! ar_main s"
  shows "async_inv s0 ((enter a (Awaiting 0) (ar_state s) s)\<lparr>ar_main := Suc (ar_main s)\<rparr>)"
proof -
  note d = async_invD [OF inv]
  let ?s = "(enter a (Awaiting 0) (ar_state s) s)\<lparr>ar_main := Suc (ar_main s)\<rparr>"
  have u: "ar_phase s a = Unspawned" using d(5) [OF m] a by simp
  have st: "ar_state ?s = ar_state s" "ar_phase ?s = (ar_phase s)(a := Awaiting 0)" by (simp_all add: enter_def)
  have don: "is_done ?s b = is_done s b" for b by (simp add: is_done_def enter_def)
  have "node_ok s0 ?s b" if b: "b \<in> set (addrs (es_graph s0))" for b
    using d(2) [OF b] u unfolding node_ok_def don st by (cases "b = a") simp_all
  moreover have "{b \<in> N. written (ar_phase ?s b)} = {b \<in> N. written (ar_phase s b)}" for N
    using u by (auto simp: st)
  moreover have "unfinished s0 ?s = unfinished s0 s"
    using unfinished_enter [of s a "Awaiting 0"] u by (simp add: unfinished_def enter_def)
  moreover have "ar_phase ?s (addrs (es_graph s0) ! i) = Unspawned \<longleftrightarrow> ar_main ?s \<le> i"
    if i: "i < length (addrs (es_graph s0))" for i
  proof (cases "i = ar_main s")
    case True
    then show ?thesis using a by (simp add: enter_def)
  next
    case False
    then have "addrs (es_graph s0) ! i \<noteq> a" using runnableD(1) [OF run] i m a by (simp add: nth_eq_iff_index_eq)
    then show ?thesis using d(5) [OF i] False by (auto simp: enter_def)
  qed
  ultimately show ?thesis unfolding async_inv_def using d(1,3,4,6,7) m by (simp add: st)
qed

lemma eval_outcome:
  assumes run: "runnable s0" and w: "data_ok s0" and inv: "async_inv s0 s" and a: "a \<in> set (addrs (es_graph s0))" and p: "ar_phase s a = Started t"
  shows "node_eval (cn_op (node_at (graph_of s) a)) (store_of (ar_state s)) = outcome_of s0 a"
proof -
  note d = async_invD [OF inv] and r = runnableD [OF run]
  let ?W = "{b \<in> set (addrs (es_graph s0)). written (ar_phase s b)}"
  have "set (deps_of (es_graph s0) a) \<subseteq> ?W"
  proof
    fix b assume b: "b \<in> set (deps_of (es_graph s0) a)"
    then have "is_done s b" using d(2) [OF a] p by (simp add: node_ok_def)
    moreover have bN: "b \<in> set (addrs (es_graph s0))" using r(5) [OF a] b by blast
    ultimately show "b \<in> ?W" using d(2) [OF bN] by (auto simp: node_ok_def)
  qed
  moreover have "df.dep_closed (deps_of (es_graph s0)) ?W"
    unfolding df.dep_closed_def
  proof
    fix b assume b: "b \<in> ?W"
    then have act: "active (ar_phase s b)" by (cases "ar_phase s b") auto
    show "set (deps_of (es_graph s0) b) \<subseteq> ?W"
    proof
      fix c assume c: "c \<in> set (deps_of (es_graph s0) b)"
      then have cN: "c \<in> set (addrs (es_graph s0))" using r(5) b by blast
      have "is_done s c" using d(2) [of b] b act c by (simp add: node_ok_def)
      then show "c \<in> ?W" using d(2) [OF cN] cN by (auto simp: node_ok_def)
    qed
  qed
  ultimately have "node_eval (ops_of s0 a) (store_of (ar_state s)) = df.outcome (ops_of s0) (cg_topo (es_graph s0)) (store_of s0) a"
    by (intro df.snapshot_outcome [OF w [unfolded data_ok_def] _ _ _ _ _ d(3) [OF w]]) (use a r(2) p in auto)
  then show ?thesis using same_graphD(2) [OF d(1), of a] by (simp add: outcome_of_def ops_of_def)
qed

lemma async_put_inv:
  assumes run: "runnable s0" and inv: "async_inv s0 s" and a: "a \<in> set (addrs (es_graph s0))"
    and p: "ar_phase s a = Evaluated t x"
  shows "async_inv s0 (enter a (Written t (error_of x)) (set_store (apply_write x (store_of (ar_state s))) (ar_state s)) s)"
proof -
  note d = async_invD [OF inv]
  have x: "data_ok s0 \<Longrightarrow> x = outcome_of s0 a" using p d(2) [OF a] by (simp add: node_ok_def)
  let ?es = "set_store (apply_write x (store_of (ar_state s))) (ar_state s)"
  have W: "{b \<in> set (addrs (es_graph s0)). written (ar_phase (enter a (Written t (error_of x)) ?es s) b)} =
      insert a {b \<in> set (addrs (es_graph s0)). written (ar_phase s b)}"
    using p a by (auto simp: enter_def)
  have "df.snapshot (ops_of s0) (cg_topo (es_graph s0)) (store_of s0)
        {b \<in> set (addrs (es_graph s0)). written (ar_phase (enter a (Written t (error_of x)) ?es s) b)} (store_of ?es)"
    if w: "data_ok s0"
    unfolding W using df.snapshot_insert [OF w [unfolded data_ok_def] _ _ _ d(3) [OF w], of a] p a runnableD(2) [OF run] x [OF w]
    by (auto simp: outcome_of_def)
  then show ?thesis
    by (intro async_invI [OF run inv])
      (use p a d(2) [OF a] d(6,7) unfinished_enter [of s a "Written t (error_of x)"] x in
        \<open>auto simp: node_ok_def enter_simps is_done_def\<close>)
qed

lemma async_report_inv:
  assumes run: "runnable s0" and inv: "async_inv s0 s" and a: "a \<in> set (addrs (es_graph s0))"
    and p: "ar_phase s a = Written t err"
  shows "async_inv s0 (enter a Reported (finish_node a t finish err (ar_state s)) s)"
proof -
  note d = async_invD [OF inv]
  note ok = d(2) [OF a] and ad = same_graphD(1) [OF d(1)]
  let ?g = "es_graph (finish_node a t finish err (ar_state s))"
  have e: "data_ok s0 \<Longrightarrow> err = error_of (outcome_of s0 a)" "pristine (graph_of s) a" using p ok by (simp_all add: node_ok_def)
  note fg = finish_node_graph [where s = "ar_state s" and a = a and t = t and u = finish and err = err, unfolded ad]
  have "cn_status (node_at ?g a) = status_of err" "cn_error (node_at ?g a) = err"
    using fg(3,5) [OF a] e(2) by (simp_all add: pristine_def)
  then have rep: "reported s0 ?g a" unfolding reported_def using e(1) by auto
  have don: "cn_done (node_at ?g b) = cn_done (node_at (graph_of s) b)" if "b \<in> set (addrs (es_graph s0))" for b
    using fg(2) [OF that] fg(4) [OF a] by (cases "b = a") simp_all
  have dep: "cn_done (node_at ?g b)" if "b \<in> set (deps_of (es_graph s0) a)" for b
    using runnableD(5) [OF run a] that don [of b] ok p by (auto simp: node_ok_def is_done_def)
  show ?thesis
  proof (rule async_inv_quiet [OF run inv a _ _ _ _ _ fg(1) fg(2)])
    show "node_ok s0 (enter a Reported (finish_node a t finish err (ar_state s)) s) a"
      using rep dep don [OF a] ok p by (simp add: node_ok_def enter_simps is_done_def)
  qed (use don [OF a] p in \<open>simp_all add: is_done_def\<close>)
qed

lemma async_signal_inv:
  assumes run: "runnable s0" and inv: "async_inv s0 s" and a: "a \<in> set (addrs (es_graph s0))"
    and p: "ar_phase s a = Reported"
  shows "async_inv s0 (enter a Signalled (signal_node a (ar_state s)) s)"
proof -
  note d = async_invD [OF inv]
  note ok = d(2) [OF a] and ad = same_graphD(1) [OF d(1)]
  let ?g = "es_graph (signal_node a (ar_state s))"
  have sg: "node_at ?g b = (if b = a then (node_at (graph_of s) a)\<lparr>cn_done := True\<rparr> else node_at (graph_of s) b)"
    if "b \<in> set (addrs (es_graph s0))" for b
    using signal_node_graph(2) [of b "ar_state s" a] that ad by simp
  have dep: "cn_done (node_at ?g b)" if "b \<in> set (deps_of (es_graph s0) a)" for b
    using runnableD(5) [OF run a] that sg [of b] ok p by (auto simp: node_ok_def is_done_def)
  show ?thesis
  proof (rule async_inv_quiet [OF run inv a _ _ _ _ _ signal_node_graph(1)])
    show "node_ok s0 (enter a Signalled (signal_node a (ar_state s)) s) a"
      using dep sg [OF a] ok p by (simp add: node_ok_def enter_simps reported_def)
  qed (use sg a p in \<open>simp_all add: sg\<close>)
qed

lemma async_count_down_inv:
  assumes run: "runnable s0" and inv: "async_inv s0 s" and a: "a \<in> set (addrs (es_graph s0))"
    and p: "ar_phase s a = Signalled"
  shows "async_inv s0 (enter a Finished (count_down_state (ar_state s)) s)"
proof -
  note d = async_invD [OF inv]
  let ?es = "count_down_state (ar_state s)"
  have es: "es_graph ?es = graph_of s" "store_of ?es = store_of (ar_state s)" by (simp_all add: count_down_state_def)
  have rem: "rs_remaining (es_run ?es) = rs_remaining (es_run (ar_state s)) - 1"
    "rs_done (es_run ?es) \<longleftrightarrow> rs_done (es_run (ar_state s)) \<or> rs_remaining (es_run (ar_state s)) = 1"
    by (simp_all add: count_down_state_def)
  have u: "unfinished s0 s = Suc (unfinished s0 (enter a Finished ?es s))"
    by (rule unfinished_finish [OF runnableD(1) [OF run] a]) (simp add: p)
  show ?thesis
  proof (rule async_invI [OF run inv a])
    show "node_ok s0 (enter a Finished ?es s) a"
      using d(2) [OF a] p by (simp add: node_ok_def enter_simps is_done_def es)
    show "df.snapshot (ops_of s0) (cg_topo (es_graph s0)) (store_of s0)
        {b \<in> set (addrs (es_graph s0)). written (ar_phase (enter a Finished ?es s) b)} (store_of ?es)" if "data_ok s0"
      using d(3) [OF that] written_enter [of Finished s a] p by (simp add: es)
    show "rs_remaining (es_run ?es) = unfinished s0 (enter a Finished ?es s)"
      using d(6) u rem by linarith
    show "rs_done (es_run ?es) \<longleftrightarrow> unfinished s0 (enter a Finished ?es s) = 0 \<and> addrs (es_graph s0) \<noteq> []"
      using d(6,7) u a rem by (metis One_nat_def Zero_neq_Suc empty_iff list.set(1) old.nat.inject)
  qed (simp_all add: es p is_done_def)
qed

lemma async_step_inv:
  assumes run: "runnable s0" and inv: "async_inv s0 s" and step: "async_step s s'"
  shows "async_inv s0 s'"
proof -
  note d = async_invD [OF inv]
  have ad [simp]: "addrs (graph_of s) = addrs (es_graph s0)" and dp [simp]: "deps_of (graph_of s) = deps_of (es_graph s0)"
    using same_graphD(1,3) [OF d(1)] by auto
  from step show ?thesis
  proof cases
    case (spawn a)
    then show ?thesis using async_spawn_inv [OF run inv] by simp
  next
    case (await a i)
    show ?thesis unfolding await(1)
      by (rule async_inv_quiet [OF run inv]) (use await d(2) [of a] in \<open>auto simp: node_ok_def enter_simps is_done_def less_Suc_eq\<close>)
  next
    case (start a t)
    show ?thesis unfolding start(1)
      by (rule async_inv_quiet [OF run inv])
        (use start d(2) [of a] in \<open>auto simp: node_ok_def enter_simps is_done_def in_set_conv_nth\<close>)
  next
    case (eval a t)
    then have "data_ok s0 \<Longrightarrow> node_eval (cn_op (node_at (graph_of s) a)) (store_of (ar_state s)) = outcome_of s0 a"
      using eval_outcome [OF run _ inv] by auto
    then show ?thesis unfolding eval(1)
      by (intro async_inv_quiet [OF run inv]) (use eval d(2) [of a] in \<open>auto simp: node_ok_def enter_simps is_done_def\<close>)
  next
    case (put a t x)
    then show ?thesis using async_put_inv [OF run inv] by simp
  next
    case (report a t err finish)
    then show ?thesis using async_report_inv [OF run inv] by simp
  next
    case (signal a)
    then show ?thesis using async_signal_inv [OF run inv] by simp
  next
    case (count_down a)
    then show ?thesis using async_count_down_inv [OF run inv] by simp
  qed
qed

lemma async_reach_inv: "async_reach s0 s \<Longrightarrow> runnable s0 \<Longrightarrow> async_inv s0 s"
  by (induction rule: async_reach.induct) (auto intro: async_init_inv async_step_inv)

section \<open>Progress\<close>

lemma async_step_exists:
  assumes "same_graph (es_graph s0) (graph_of s)" "a \<in> set (addrs (es_graph s0))"
    and "active (ar_phase s a) \<and> ar_phase s a \<noteq> Finished \<or> ar_phase s a = Awaiting (length (deps_of (es_graph s0) a))"
  shows "\<exists>s'. async_step s s'"
proof -
  have a: "a \<in> set (addrs (graph_of s))" using same_graphD(1) [OF assms(1)] assms(2) by simp
  show ?thesis
    using async_step.start [OF a] async_step.eval [OF a] async_step.put [OF a] async_step.report [OF a]
      async_step.signal [OF a] async_step.count_down [OF a] same_graphD(3) [OF assms(1)] assms(3)
    by (cases "ar_phase s a") auto
qed

text \<open>A run that cannot move has finished: nodes that only await each other would lie on a cycle.\<close>

lemma async_stuck_finished:
  assumes run: "runnable s0" and inv: "async_inv s0 s" and stuck: "\<nexists>s'. async_step s s'"
  shows "ar_main s = length (addrs (es_graph s0))" "\<And>a. a \<in> set (addrs (es_graph s0)) \<Longrightarrow> ar_phase s a = Finished"
proof -
  note d = async_invD [OF inv] and r = runnableD [OF run]
  note same = same_graphD(1,3) [OF d(1)]
  let ?N = "set (addrs (es_graph s0))" and ?deps = "deps_of (es_graph s0)"
  show m: "ar_main s = length (addrs (es_graph s0))"
    using async_step.spawn [of s "addrs (graph_of s) ! ar_main s"] stuck d(4) same by fastforce
  let ?R = "{a \<in> ?N. \<exists>i. ar_phase s a = Awaiting i}"
  have cases: "ar_phase s a = Finished \<or> a \<in> ?R" if a: "a \<in> ?N" for a
  proof -
    obtain i where i: "i < length (addrs (es_graph s0))" "a = addrs (es_graph s0) ! i" using a by (metis in_set_conv_nth)
    then have "ar_phase s a \<noteq> Unspawned" using d(5) [OF i(1)] m by simp
    then show ?thesis using async_step_exists [OF d(1) a] stuck a by (cases "ar_phase s a") auto
  qed
  have "\<exists>b \<in> set (?deps a). b \<in> ?R" if R: "a \<in> ?R" for a
  proof -
    from R obtain i where i: "a \<in> ?N" "ar_phase s a = Awaiting i" by auto
    then have "i \<le> length (?deps a)" using d(2) [OF i(1)] by (simp add: node_ok_def)
    moreover have "i \<noteq> length (?deps a)" using async_step_exists [OF d(1) i(1)] stuck i(2) by auto
    ultimately have l: "i < length (?deps a)" by simp
    have b: "?deps a ! i \<in> ?N" using r(5) [OF i(1)] l by (meson nth_mem subsetD)
    have "\<not> is_done s (?deps a ! i)" using stuck async_step.await [of a s i] i l same by auto
    then have "ar_phase s (?deps a ! i) \<noteq> Finished" using d(2) [OF b] by (auto simp: node_ok_def)
    then show ?thesis using cases [OF b] l nth_mem by blast
  qed
  then have "?R = {}"
    using stuck_cycle [of ?N ?R ?deps] topo_order_acyclic [OF r(3,2)] by fastforce
  then show "ar_phase s a = Finished" if "a \<in> ?N" for a using cases [OF that] by blast
qed

definition phase_weight :: "nat \<Rightarrow> node_phase \<Rightarrow> nat" where
  "phase_weight n p = (case p of Unspawned \<Rightarrow> n + 8 | Awaiting i \<Rightarrow> n - i + 7 | Started _ \<Rightarrow> 6 | Evaluated _ _ \<Rightarrow> 5
     | Written _ _ \<Rightarrow> 4 | Reported \<Rightarrow> 3 | Signalled \<Rightarrow> 2 | Finished \<Rightarrow> 1)"

definition async_weight :: "exec_state \<Rightarrow> async_run \<Rightarrow> nat" where
  "async_weight s0 s = (\<Sum>a \<in> set (addrs (es_graph s0)). phase_weight (length (deps_of (es_graph s0) a)) (ar_phase s a))"

lemma async_weight_move:
  assumes "a \<in> set (addrs (es_graph s0))" "ar_phase s' = (ar_phase s)(a := p)"
    "phase_weight (length (deps_of (es_graph s0) a)) p < phase_weight (length (deps_of (es_graph s0) a)) (ar_phase s a)"
  shows "async_weight s0 s' < async_weight s0 s"
  unfolding async_weight_def by (rule sum_strict_mono_ex1) (use assms in auto)

lemma async_weight_enter:
  "a \<in> set (addrs (es_graph s0)) \<Longrightarrow>
    phase_weight (length (deps_of (es_graph s0) a)) p < phase_weight (length (deps_of (es_graph s0) a)) (ar_phase s a) \<Longrightarrow>
    async_weight s0 (enter a p es s) < async_weight s0 s"
  by (rule async_weight_move) (simp_all add: enter_def)

lemma async_step_weight:
  assumes "async_inv s0 s" "async_step s s'"
  shows "async_weight s0 s' < async_weight s0 s"
proof -
  note d = async_invD [OF assms(1)]
  note same [simp] = same_graphD(1,3) [OF d(1)]
  from assms(2) show ?thesis
  proof cases
    case (spawn a)
    then have "ar_phase s a = Unspawned" using d(5) [of "ar_main s"] by simp
    then show ?thesis
      by (intro async_weight_move [of a _ _ _ "Awaiting 0"]) (use spawn in \<open>auto simp: enter_def phase_weight_def\<close>)
  qed (simp_all add: async_weight_enter phase_weight_def)
qed

lemma async_finished_iff: "unfinished s0 s = 0 \<longleftrightarrow> (\<forall>a \<in> set (addrs (es_graph s0)). ar_phase s a = Finished)"
  by (auto simp: unfinished_def filter_empty_conv)

lemma addrs_empty: "addrs g = [] \<longleftrightarrow> cg_nodes g = []"
  by (simp add: addrs_def)

lemma async_returns_finished:
  assumes "async_inv s0 s" "async_returns s" "a \<in> set (addrs (es_graph s0))"
  shows "ar_phase s a = Finished"
proof -
  have "rs_done (es_run (ar_state s))"
    using assms same_graphD(1) [OF async_invD(1) [OF assms(1)]] by (auto simp: async_returns_def addrs_empty [symmetric])
  then show ?thesis using async_invD(7) [OF assms(1)] assms(3) by (simp add: async_finished_iff)
qed

lemma async_returns_stuck:
  assumes run: "runnable s0" and inv: "async_inv s0 s"
  shows "async_returns s \<longleftrightarrow> (\<nexists>s'. async_step s s')"
proof
  note same = same_graphD(1) [OF async_invD(1) [OF inv]]
  assume ret: "async_returns s"
  have f: "ar_phase s a = Finished" if "a \<in> set (addrs (es_graph s0))" for a
    using async_returns_finished [OF inv ret that] .
  have "\<not> ar_main s < length (addrs (es_graph s0))"
    using async_invD(5) [OF inv, of "ar_main s"] f [of "addrs (es_graph s0) ! ar_main s"] by auto
  then show "\<nexists>s'. async_step s s'" by (auto elim!: async_stepE simp: f same)
next
  assume stuck: "\<nexists>s'. async_step s s'"
  note same = same_graphD(1) [OF async_invD(1) [OF inv]]
  have "ar_main s = length (addrs (es_graph s0))" "unfinished s0 s = 0"
    using async_stuck_finished [OF run inv stuck] by (simp_all add: async_finished_iff)
  then show "async_returns s" using async_invD(7) [OF inv] same by (auto simp: async_returns_def addrs_empty [symmetric])
qed

lemma async_reach_wf:
  assumes "runnable s0"
  shows "wf {(s', s). async_reach s0 s \<and> async_step s s'}"
  by (rule wf_subset [of "measure (async_weight s0)"])
    (use async_step_weight async_reach_inv [OF _ assms] in auto)

lemma async_completes:
  assumes "runnable s0"
  shows "\<exists>s. async_reach s0 s \<and> async_returns s"
proof -
  have "async_init s0 \<in> {s. async_reach s0 s}" by (simp add: async_reach.init)
  then obtain s where m: "s \<in> {s. async_reach s0 s}"
    "\<And>y. (y, s) \<in> {(s', s). async_reach s0 s \<and> async_step s s'} \<Longrightarrow> y \<notin> {s. async_reach s0 s}"
    by (rule wfE_min [OF async_reach_wf [OF assms]]) blast
  have s: "async_reach s0 s" using m(1) by simp
  have "\<not> async_step s s'" for s'
    using m(2) [of s'] async_reach.more [OF s, of s'] s by auto
  then have "async_returns s" using async_returns_stuck [OF assms async_reach_inv [OF s assms]] by simp
  then show ?thesis using s by blast
qed

section \<open>Preparing a run\<close>

text \<open>One node per output name, and every node that reads a name another node writes depends on that node, directly
  or through others.\<close>

definition edges :: "ComputeGraph \<Rightarrow> (nat \<times> nat) list" where
  "edges g = concat (map (\<lambda>a. map (\<lambda>d. (d, a)) (deps_of g a)) (addrs g))"

definition single_writer :: "ComputeGraph \<Rightarrow> bool" where
  "single_writer g = distinct (concat (map (\<lambda>(_, node). node_target (cn_op node)) (cg_nodes g)))"

definition wired :: "ComputeGraph \<Rightarrow> bool" where
  "wired g = list_all (\<lambda>(a, node). list_all (\<lambda>(b, w). a = b
      \<or> list_all (\<lambda>n. n \<notin> set (node_reads (cn_op node))) (node_target (cn_op w))
      \<or> (b, a) \<in> (set (edges g))\<^sup>+) (cg_nodes g)) (cg_nodes g)"

lemma edges_rel: "set (edges g) = dep_rel (deps_of g) (set (addrs g))"
  by (auto simp: edges_def dep_rel_def)

text \<open>A run changes neither the consistency of the graph nor its wiring.\<close>

lemma same_graph_inv:
  assumes s: "same_graph g h" and g: "graph_inv g"
  shows "graph_inv h"
proof -
  note d = same_graphD [OF s] and i = same_graph_id [OF s]
  have b: "cg_by_id h = cg_by_id g" using s by (simp add: same_graph_def)
  show ?thesis using g unfolding graph_inv_def d(1,3,5,6) b by (simp add: i)
qed

lemma shape_wiring:
  assumes "shape h = shape g"
  shows "single_writer h = single_writer g" "wired h = wired g"
proof -
  define op where "op = (\<lambda>(a :: nat, i :: string, m :: string, op :: NodeOp, ds :: nat list). op)"
  have w: "map (\<lambda>(_, node). node_target (cn_op node)) (cg_nodes k) = map (\<lambda>r. node_target (op r)) (shape k)" for k
    by (simp add: shape_def op_def case_prod_unfold)
  then show "single_writer h = single_writer g" using assms by (simp add: single_writer_def)
  have s: "same_graph g (h\<lparr>cg_by_id := cg_by_id g, cg_topo := cg_topo g, cg_finalized := cg_finalized g\<rparr>)" (is "same_graph g ?h")
    using assms by (simp add: same_graph_def shape_def)
  have e: "edges h = edges ?h" "edges ?h = edges g"
    using same_graphD(1,3) [OF s] by (simp_all add: edges_def addrs_def deps_of_def node_at_def fun_eq_iff)
  have "wired k = list_all (\<lambda>r. list_all (\<lambda>q. fst r = fst q
      \<or> list_all (\<lambda>n. n \<notin> set (node_reads (op r))) (node_target (op q))
      \<or> (fst q, fst r) \<in> (set (edges k))\<^sup>+) (shape k)) (shape k)" for k
    by (simp add: wired_def shape_def op_def list.pred_map comp_def case_prod_unfold)
  then show "wired h = wired g" using e assms by simp
qed

lemma ResetRunState_same: "same_graph g (ResetRunState g)"
  by (auto simp: same_graph_def shape_def ResetRunState_def ComputeNode_ResetRunState_def)

lemma ResetRunState_node:
  "a \<in> set (addrs g) \<Longrightarrow> node_at (ResetRunState g) a = ComputeNode_ResetRunState (node_at g a)"
  by (rule node_at_map [where f = "\<lambda>_. ComputeNode_ResetRunState"]) (simp_all add: ResetRunState_def)

lemma node_at_mem: "distinct (addrs g) \<Longrightarrow> a \<in> set (addrs g) \<longleftrightarrow> (a, node_at g a) \<in> set (cg_nodes g)"
proof -
  assume d: "distinct (addrs g)"
  show ?thesis
  proof (cases "map_of (cg_nodes g) a")
    case None
    then have "a \<notin> fst ` set (cg_nodes g)" by (simp add: map_of_eq_None_iff)
    then show ?thesis unfolding addrs_def by force
  next
    case (Some node)
    then have "(a, node) \<in> set (cg_nodes g)" "node_at g a = node" by (simp_all add: map_of_SomeD node_at_def)
    then show ?thesis unfolding addrs_def by force
  qed
qed

lemma concat_map_disjoint:
  "distinct (concat (map f xs)) \<Longrightarrow> x \<in> set xs \<Longrightarrow> y \<in> set xs \<Longrightarrow> x \<noteq> y \<Longrightarrow> set (f x) \<inter> set (f y) = {}"
  by (induction xs) auto

lemma wired_well:
  assumes d: "distinct (addrs g)" and sw: "single_writer g" and w: "wired g"
    and t: "topo_order (deps_of g) topo" "set topo = set (addrs g)"
  shows "df.well_wired (\<lambda>a. cn_op (node_at g a)) (deps_of g) topo"
proof -
  have mem: "(a, node_at g a) \<in> set (cg_nodes g)" if "a \<in> set topo" for a
    using node_at_mem [OF d] that t(2) by blast
  have "set (node_target (cn_op (node_at g a))) \<inter> set (node_target (cn_op (node_at g b))) = {}"
    if "a \<in> set topo" "b \<in> set topo" "a \<noteq> b" for a b
    using concat_map_disjoint [OF sw [unfolded single_writer_def] mem [OF that(1)] mem [OF that(2)]] that(3) by simp
  moreover have "(b, a) \<in> (dep_rel (deps_of g) (set topo))\<^sup>+"
    if "a \<in> set topo" "b \<in> set topo" "a \<noteq> b"
      "set (node_target (cn_op (node_at g b))) \<inter> set (node_reads (cn_op (node_at g a))) \<noteq> {}" for a b
    using w mem [OF that(1)] mem [OF that(2)] that(3,4)
    unfolding wired_def edges_rel t(2) list_all_iff by fastforce
  ultimately show ?thesis using t(1) unfolding df.well_wired_def by blast
qed

lemma prepare_cases:
  assumes "graph_inv g" "prepare t g ctx = Ok s0"
  obtains h where "graph_inv h" "cg_finalized h" "cg_nodes h = cg_nodes g" "cg_by_id h = cg_by_id g" "es_graph s0 = ResetRunState h"
    "es_ctx s0 = (if cg_nodes g = [] then ctx else ctx\<lparr>ec_store := ReserveOutputs h (ec_store ctx)\<rparr>)"
    "es_run s0 = RunState_new (length (cg_nodes g)) t"
proof -
  obtain h where h: "(if cg_finalized g then Ok g else Finalize g) = Ok h"
    and s0: "s0 = \<lparr>es_graph = ResetRunState h,
          es_ctx = (if cg_nodes h = [] then ctx else ctx\<lparr>ec_store := ReserveOutputs h (ec_store ctx)\<rparr>),
          es_run = RunState_new (length (cg_nodes h)) t\<rparr>"
    using assms(2) by (auto simp: prepare_def ok_iff)
  have "graph_inv h \<and> cg_finalized h \<and> cg_nodes h = cg_nodes g \<and> cg_by_id h = cg_by_id g"
    using h Finalize_spec [OF assms(1)] assms(1) by (auto split: if_splits)
  then show thesis using that [of h] s0 by simp
qed

lemma nodes_eqD: "cg_nodes h = cg_nodes g \<Longrightarrow> addrs h = addrs g \<and> node_at h = node_at g \<and> deps_of h = deps_of g"
  by (simp add: addrs_def node_at_def deps_of_def fun_eq_iff)

lemma prepare_runnable:
  assumes g: "graph_inv g" and p: "prepare t g ctx = Ok s0"
  shows "runnable s0" "addrs (es_graph s0) = addrs g" "ops_of s0 a = cn_op (node_at g a)" "deps_of (es_graph s0) = deps_of g"
    "same_graph g ((es_graph s0)\<lparr>cg_topo := cg_topo g, cg_finalized := cg_finalized g\<rparr>)"
proof -
  from prepare_cases [OF g p] obtain h where h: "graph_inv h" "cg_finalized h" "cg_nodes h = cg_nodes g"
    "es_graph s0 = ResetRunState h" "es_run s0 = RunState_new (length (cg_nodes g)) t" "cg_by_id h = cg_by_id g" .
  note sm = same_graphD [OF ResetRunState_same [of h]] and eq = nodes_eqD [OF h(3)] and hd = graph_invD [OF h(1)]
  have len: "length (cg_nodes g) = length (addrs g)" by (simp add: addrs_def)
  show a: "addrs (es_graph s0) = addrs g" using sm(1) eq h(4) by simp
  show "ops_of s0 a = cn_op (node_at g a)" using sm(2) eq h(4) by (simp add: ops_of_def)
  show dp: "deps_of (es_graph s0) = deps_of g" using sm(3) eq h(4) by simp
  show "same_graph g ((es_graph s0)\<lparr>cg_topo := cg_topo g, cg_finalized := cg_finalized g\<rparr>)"
    using h(3,4,6) ResetRunState_same [of h] by (simp add: same_graph_def shape_def)
  have "pristine (es_graph s0) b \<and> \<not> cn_done (node_at (es_graph s0) b)" if "b \<in> set (addrs g)" for b
    using ResetRunState_node [of b h] that eq h(4) by (simp add: pristine_def ComputeNode_ResetRunState_def)
  then show "runnable s0"
    unfolding runnable_def using a dp sm(5) h(4,5) hd(1) hd(6) [OF h(2)] eq len
    by (simp add: RunState_new_def)
qed

lemma prepare_data_ok:
  assumes g: "graph_inv g" and p: "prepare t g ctx = Ok s0" and "single_writer g" "wired g"
  shows "data_ok s0"
proof -
  note r = prepare_runnable [OF g p]
  have "ops_of s0 = (\<lambda>a. cn_op (node_at g a))" using r(3) by blast
  then show ?thesis
    using wired_well [OF graph_invD(1) [OF g] assms(3,4)] runnableD(2,3) [OF r(1)] r(2,4) by (simp add: data_ok_def)
qed

lemma prepare_time:
  assumes "prepare t g ctx = Ok s0"
  shows "prepare u g ctx = Ok (s0\<lparr>es_run := (es_run s0)\<lparr>rs_exec_start := u\<rparr>\<rparr>)"
  using assms by (cases "if cg_finalized g then Ok g else Finalize g") (auto simp: prepare_def RunState_new_def)

text \<open>What \<^verbatim>\<open>Execute\<close> leaves.\<close>

lemma Execute_effect:
  assumes g: "graph_inv g" and p: "prepare t g ctx = Ok s0" and e: "Execute clock g ctx = Ok (g1, ctx1)"
  shows "ec_store ctx1 = df.eval_all (ops_of s0) (cg_topo (es_graph s0)) (store_of s0)"
    "\<And>a. a \<in> set (addrs g) \<Longrightarrow> reported s0 g1 a"
proof -
  let ?s = "s0\<lparr>es_run := (es_run s0)\<lparr>rs_exec_start := clock 0\<rparr>\<rparr>"
  note pc = prepare_time [OF p, of "clock 0"]
  note r = prepare_runnable [OF g pc]
  note rd = runnableD [OF r(1)]
  have ops: "ops_of ?s = ops_of s0" by (simp add: fun_eq_iff ops_of_def)
  then have out: "reported ?s = reported s0"
    by (intro ext) (simp add: reported_def outcome_of_def data_ok_def)
  obtain tk s where f: "fold (run_node clock) (cg_topo (es_graph ?s)) (1, ?s) = (tk, s)" by fastforce
  have d: "distinct (cg_topo (es_graph ?s))" using rd(3) topo_order_distinct by blast
  note rn = run_nodes [of ?s "cg_topo (es_graph ?s)" "[]" clock 1 tk s, simplified append_Nil2, OF refl d _ rd(4) f]
  have ne: "cg_nodes (es_graph ?s) = [] \<longleftrightarrow> addrs g = []" using r(2) addrs_empty by metis
  have "ec_store ctx1 = df.eval_all (ops_of s0) (cg_topo (es_graph s0)) (store_of s0) \<and> (\<forall>a \<in> set (addrs g). reported s0 g1 a)"
  proof (cases "addrs g = []")
    case True
    then have "cg_topo (es_graph s0) = []" using rd(2) r(2) by simp
    then show ?thesis using e pc ne True by (simp add: Execute_def df.eval_all_def)
  next
    case False
    then have "g1 = es_graph s" "ec_store ctx1 = store_of s" using e pc ne f by (auto simp: Execute_def)
    then show ?thesis using rn rd(2) r(2) out ops by simp
  qed
  then show "ec_store ctx1 = df.eval_all (ops_of s0) (cg_topo (es_graph s0)) (store_of s0)"
    "\<And>a. a \<in> set (addrs g) \<Longrightarrow> reported s0 g1 a" by blast+
qed

lemma Execute_total:
  assumes "prepare t g ctx = Ok s0"
  shows "\<exists>g1 ctx1. Execute clock g ctx = Ok (g1, ctx1)"
  using prepare_time [OF assms, of "clock 0"] by (simp add: Execute_def split: prod.split)

text \<open>What every interleaving leaves once it returns.\<close>

lemma ExecuteAsync_store:
  assumes g: "graph_inv g" "single_writer g" "wired g" and p: "prepare t g ctx = Ok s0" and s: "async_reach s0 s" "async_returns s"
  shows "Store_find n (store_of (ar_state s)) = Store_find n (df.eval_all (ops_of s0) (cg_topo (es_graph s0)) (store_of s0))"
proof -
  note run = prepare_runnable [OF g(1) p] and ok = prepare_data_ok [OF g(1) p g(2,3)]
  note inv = async_reach_inv [OF s(1) run(1)]
  have "{a \<in> set (addrs (es_graph s0)). written (ar_phase s a)} = set (cg_topo (es_graph s0))"
    using runnableD(2) [OF run(1)] async_returns_finished [OF inv s(2)] by auto
  then show ?thesis
    using df.snapshot_unique [OF async_invD(3) [OF inv ok]] df.snapshot_prefix [OF ok [unfolded data_ok_def], of _ "[]"] by simp
qed

section \<open>Properties\<close>

text \<open>C24. On a graph with one writer per tensor in which every reader depends on the writer, every interleaving of
  \<^verbatim>\<open>ExecuteAsync\<close> that returns leaves what \<^verbatim>\<open>Execute\<close> leaves: the same tensor under every name, and the same status
  and error on every node, failed nodes included.\<close>

theorem ExecuteAsync_agrees:
  assumes g: "graph_inv g" "single_writer g" "wired g" and p: "prepare t g ctx = Ok s0"
    and e: "Execute clock g ctx = Ok (g1, ctx1)"
    and s: "async_reach s0 s" "async_returns s" and r: "ExecuteAsync_result now workers s = (g2, ctx2)"
  shows "Store_find n (ec_store ctx2) = Store_find n (ec_store ctx1) \<and>
    list_all (\<lambda>a. cn_status (node_at g2 a) = cn_status (node_at g1 a) \<and> cn_error (node_at g2 a) = cn_error (node_at g1 a))
      (addrs g)"
proof -
  note run = prepare_runnable [OF g(1) p] and ok = prepare_data_ok [OF g(1) p g(2,3)]
  note inv = async_reach_inv [OF s(1) run(1)]
  note d = async_invD [OF inv]
  note seq = Execute_effect [OF g(1) p e]
  have fin: "ar_phase s a = Finished" if "a \<in> set (addrs (es_graph s0))" for a
    using async_returns_finished [OF inv s(2) that] .
  have "Store_find n (store_of (ar_state s)) = Store_find n (ec_store ctx1)"
    using ExecuteAsync_store [OF g p s] seq(1) by simp
  moreover have "reported s0 (graph_of s) a" if "a \<in> set (addrs g)" for a
    using d(2) [of a] fin [of a] that run(2) by (simp add: node_ok_def)
  moreover have "ec_store ctx2 = store_of (ar_state s)" "g2 = graph_of s"
    using r by (auto simp: ExecuteAsync_result_def split: if_splits)
  ultimately show ?thesis using seq(2) ok by (simp add: list_all_iff reported_def)
qed


section \<open>Witnesses\<close>

definition demo_identity :: "string \<Rightarrow> string \<Rightarrow> NodeOp" where
  "demo_identity i out = RealOp (IdentityOp \<lparr>ob_type = ''identity'', ob_inputs = [i], ob_outputs = [out]\<rparr>)"

definition demo_graph :: ComputeGraph where
  "demo_graph = (case bindR (AddDependency ''c'' ''b''
      (AddNode 7 ''a'' ''m'' (demo_identity ''nothing'' ''w'')
      (AddNode 5 ''c'' ''m'' (demo_identity ''y'' ''z'')
      (AddNode 3 ''b'' ''m'' (demo_identity ''x'' ''y'') ComputeGraph_new)))) Ok of Inr g \<Rightarrow> g)"

definition demo_ctx :: ExecutionContext where
  "demo_ctx = ExecutionContext_new\<lparr>ec_store := Store_set ''x'' Tensor_default TensorStore_new\<rparr>"

lemma demo_graph_ok: "graph_inv demo_graph" "single_writer demo_graph" "wired demo_graph" "\<not> cg_finalized demo_graph"
  by code_simp+

lemma demo_acyclic: "\<exists>h. Finalize demo_graph = Ok h"
  by (rule exI [of _ "case Finalize demo_graph of Inr h \<Rightarrow> h"]) code_simp

theorem ExecuteAsync_agrees_witness:
  "\<exists>s0 s g1 ctx1. prepare 0 demo_graph demo_ctx = Ok s0 \<and> Execute (\<lambda>_. 0) demo_graph demo_ctx = Ok (g1, ctx1) \<and>
    async_reach s0 s \<and> async_returns s \<and>
    map (\<lambda>a. cn_status (node_at (fst (ExecuteAsync_result 0 2 s)) a)) (addrs demo_graph) =
    map (\<lambda>a. cn_status (node_at g1 a)) (addrs demo_graph)"
proof -
  obtain h where "Finalize demo_graph = Ok h" using demo_acyclic ..
  then obtain s0 where s0: "prepare 0 demo_graph demo_ctx = Ok s0" using demo_graph_ok(4) by (simp add: prepare_def)
  obtain s where s: "async_reach s0 s" "async_returns s"
    using async_completes [OF prepare_runnable(1) [OF demo_graph_ok(1) s0]] by blast
  obtain g1 ctx1 where e: "Execute (\<lambda>_. 0) demo_graph demo_ctx = Ok (g1, ctx1)" using Execute_total [OF s0] by blast
  obtain g2 ctx2 where r: "ExecuteAsync_result 0 2 s = (g2, ctx2)" by fastforce
  have "map (\<lambda>a. cn_status (node_at g2 a)) (addrs demo_graph) = map (\<lambda>a. cn_status (node_at g1 a)) (addrs demo_graph)"
    using ExecuteAsync_agrees [OF demo_graph_ok(1-3) s0 e s r] by (simp add: list_all_iff)
  then show ?thesis using s0 s r e by auto
qed


text \<open>A failed node does not stop its dependents: they run on the empty tensor reserved for its output and may
  report success.\<close>

definition demo_failing :: ComputeGraph where
  "demo_failing = AddNode 5 ''c'' ''m'' (demo_identity ''w'' ''z'')
    (AddNode 3 ''a'' ''m'' (demo_identity ''nothing'' ''w'') ComputeGraph_new)"

definition demo_failing_run :: exec_state where
  "demo_failing_run = (case bindR (AddDependency ''c'' ''a'' demo_failing) (\<lambda>g. prepare 0 g demo_ctx) of Inr s \<Rightarrow> s)"

lemma failed_dependency_ignored:
  assumes "run_node clock 3 (1, demo_failing_run) = (t, s)" "run_node clock 5 (t, s) = (t', s')"
  shows "cg_topo (es_graph demo_failing_run) = [3, 5] \<and> deps_of (es_graph demo_failing_run) 5 = [3]
    \<and> cn_status (node_at (es_graph s') 3) = kFailed \<and> cn_status (node_at (es_graph s') 5) = kSuccess"
proof -
  have c: "cg_topo (es_graph demo_failing_run) = [3, 5]" "deps_of (es_graph demo_failing_run) 5 = [3]"
    "addrs (es_graph demo_failing_run) = [3, 5]"
    "Store_find ''nothing'' (store_of demo_failing_run) = None"
    "Store_find ''w'' (store_of demo_failing_run) = Some Tensor_default" by code_simp+
  have o: "cn_op (node_at (es_graph demo_failing_run) 3) = demo_identity ''nothing'' ''w''"
    "cn_op (node_at (es_graph demo_failing_run) 5) = demo_identity ''w'' ''z''" by code_simp+
  have ev: "node_eval (demo_identity i out) st = (case Store_find i st of
      None \<Rightarrow> Throw (OutOfRange (''OpContext::input: unknown tensor '' @ quoted i)) | Some t \<Rightarrow> Ok (Some (out, clone t)))"
    if "i \<noteq> out" for i out st
    using that by (simp add: demo_identity_def op_eval_def name_at_def op_input_def OpContext_input_def arg1_def
        split: option.split)
  note e1 = run_node_effect [OF _ assms(1)]
  note sm = same_graphD(1,2) [OF e1(2)]
  note e2 = run_node_effect [OF _ assms(2)]
  have st: "store_of s = store_of demo_failing_run" using e1(1) c(3,4) o(1) by (simp add: ev)
  have "cn_status (node_at (es_graph s) 3) = kFailed"
    using e1(4) c(3,4) o(1) by (simp add: ev status_of_def error_of_def)
  moreover have "node_at (es_graph s') 3 = node_at (es_graph s) 3" using e2(3) [of 3] sm(1) c(3) by simp
  moreover have "cn_status (node_at (es_graph s') 5) = kSuccess"
    using e2(4) sm c(3,5) o(2) st by (simp add: ev status_of_def error_of_def)
  ultimately show ?thesis using c by simp
qed

end
