(* ===== verification/ColumnStats.thy ===== *)
theory ColumnStats
  imports DagStats GraphAgree StdNum "HOL-Library.Multiset"
begin

text \<open>
  \<^verbatim>\<open>column/monitor.{h,cpp}\<close>: the collector that turns the events of the column engine back into the statistics of a
  run.  What the compute graph reports, as strings in event attributes, the collector reads back exactly; the
  utilisation, printed with six decimals, to half a millionth.
\<close>

section \<open>Model\<close>

record OpTiming =
  ot_node_id :: string
  ot_op_type :: string
  ot_module :: string
  ot_elapsed :: int

record ModuleTiming =
  mt_module :: string
  mt_elapsed :: int
  mt_node_count :: int

record CpuPressure =
  cp_pool :: string
  cp_utilization :: flt
  cp_busy :: int
  cp_wall :: int
  cp_workers :: int

record RunStats =
  st_feed :: int
  st_compute :: int
  st_fetch :: int
  st_workers :: int
  st_ops :: "OpTiming list"
  st_modules :: "ModuleTiming list"
  st_pressure :: "CpuPressure list"

definition RunStats_new :: RunStats where
  "RunStats_new = \<lparr>st_feed = 0, st_compute = 0, st_fetch = 0, st_workers = 0, st_ops = [], st_modules = [], st_pressure = []\<rparr>"

definition RunStats_reset :: "RunStats \<Rightarrow> RunStats" where
  "RunStats_reset st = st\<lparr>st_feed := 0, st_compute := 0, st_fetch := 0, st_workers := 0, st_ops := [], st_modules := [],
    st_pressure := []\<rparr>"

subsection \<open>The report\<close>

definition FmtNs :: "int \<Rightarrow> string" where
  "FmtNs ns =
    (let us = real_of_int (sgn ns * (\<bar>ns\<bar> div 1000)) / 1000 in
     if us \<ge> 1000 then fixed_point 2 (us / 1000) @ ''ms'' else fixed_point 2 us @ ''us'')"

fun FmtPct :: "flt \<Rightarrow> string" where
  "FmtPct (Fin v) = fixed_point 1 (v * 100) @ ''%''"
| "FmtPct PInf = ''inf%''"
| "FmtPct NInf = ''-inf%''"
| "FmtPct NaN = ''nan%''"

definition newline :: string where
  "newline = [CHR 0x0A]"

definition module_line :: "ModuleTiming \<Rightarrow> string" where
  "module_line m = ''    '' @ mt_module m @ '': '' @ FmtNs (mt_elapsed m) @ '' ('' @ int_to_string (mt_node_count m) @ '' nodes)'' @ newline"

definition pressure_line :: "CpuPressure \<Rightarrow> string" where
  "pressure_line p = ''    '' @ cp_pool p @ '': util='' @ FmtPct (cp_utilization p) @ '' busy='' @ FmtNs (cp_busy p) @
    '' wall='' @ FmtNs (cp_wall p) @ '' workers='' @ int_to_string (cp_workers p) @ newline"

definition op_line :: "OpTiming \<Rightarrow> string" where
  "op_line o' = ''    ['' @ ot_module o' @ ''] '' @ ot_node_id o' @ '' ('' @ ot_op_type o' @ ''): '' @ FmtNs (ot_elapsed o') @ newline"

text \<open>\<^verbatim>\<open>std::sort\<close> by decreasing time; it leaves open how ties are ordered.\<close>

definition RunStats_summary :: "RunStats \<Rightarrow> string" where
  "RunStats_summary st =
    ''--- run stats ---'' @ newline @
    ''  feed   : '' @ FmtNs (st_feed st) @ newline @
    ''  compute: '' @ FmtNs (st_compute st) @ '' (workers='' @ int_to_string (st_workers st) @ '')'' @ newline @
    ''  fetch  : '' @ FmtNs (st_fetch st) @ newline @
    (if st_modules st = [] then []
     else ''  modules ('' @ nat_to_string (length (st_modules st)) @ ''):'' @ newline @
       concat (map module_line (sort_key (\<lambda>m. - mt_elapsed m) (st_modules st)))) @
    (if st_pressure st = [] then [] else ''  cpu pressure:'' @ newline @ concat (map pressure_line (st_pressure st))) @
    (if st_ops st = [] then []
     else ''  slowest ops:'' @ newline @ concat (map op_line (take 8 (sort_key (\<lambda>o'. - ot_elapsed o') (st_ops st)))))"

subsection \<open>Events\<close>

definition ModuleOf :: "string \<Rightarrow> string" where
  "ModuleOf node_id = takeWhile (\<lambda>c. c \<noteq> CHR ''/'') node_id"

definition HandlePhase :: "Event \<Rightarrow> RunStats \<Rightarrow> RunStats" where
  "HandlePhase e st =
    (if ev_action e = ''feed.end'' then st\<lparr>st_feed := ev_duration e\<rparr>
     else if ev_action e = ''compute.end'' then st\<lparr>st_compute := ev_duration e\<rparr>
     else if ev_action e = ''fetch.end'' then st\<lparr>st_fetch := ev_duration e\<rparr> else st)"

definition get_or :: "Event \<Rightarrow> string \<Rightarrow> 'a \<Rightarrow> (string \<Rightarrow> 'a res) \<Rightarrow> 'a res" where
  "get_or e k d f = (case Event_Get e k of None \<Rightarrow> Ok d | Some s \<Rightarrow> f s)"

definition HandleNode :: "Event \<Rightarrow> RunStats \<Rightarrow> RunStats" where
  "HandleNode e st = st\<lparr>st_ops := st_ops st @ [\<lparr>ot_node_id = ev_subject e,
     ot_op_type = (case Event_Get e ''op'' of Some t \<Rightarrow> t | None \<Rightarrow> []), ot_module = ModuleOf (ev_subject e),
     ot_elapsed = ev_duration e\<rparr>]\<rparr>"

definition HandleModule :: "Event \<Rightarrow> RunStats \<Rightarrow> RunStats res" where
  "HandleModule e st =
    bindR (get_or e ''node_count'' 0 stoull) (\<lambda>n.
      Ok (st\<lparr>st_modules := st_modules st @ [\<lparr>mt_module = ev_subject e, mt_elapsed = ev_duration e, mt_node_count = n\<rparr>]\<rparr>))"

definition HandleCpuPressure :: "Event \<Rightarrow> RunStats \<Rightarrow> RunStats res" where
  "HandleCpuPressure e st =
    bindR (get_or e ''pool'' ''compute'' Ok) (\<lambda>pool.
    bindR (get_or e ''busy_ns'' 0 stoll) (\<lambda>busy.
    bindR (get_or e ''wall_ns'' 0 stoll) (\<lambda>wall.
    bindR (get_or e ''workers'' 0 stoull) (\<lambda>workers.
    bindR (get_or e ''utilization'' (Fin 0) str_stod) (\<lambda>util.
      Ok (st\<lparr>st_workers := workers, st_pressure := st_pressure st @
        [\<lparr>cp_pool = pool, cp_utilization = util, cp_busy = busy, cp_wall = wall, cp_workers = workers\<rparr>]\<rparr>))))))"

definition RunStats_Emit :: "Event \<Rightarrow> RunStats \<Rightarrow> RunStats res" where
  "RunStats_Emit e st =
    (if ev_source e \<noteq> ''column'' then Ok st
     else if ev_action e = ''feed.end'' \<or> ev_action e = ''compute.end'' \<or> ev_action e = ''fetch.end'' then Ok (HandlePhase e st)
     else if ev_action e = ''node.end'' \<or> ev_action e = ''node.error'' then Ok (HandleNode e st)
     else if ev_action e = ''module.end'' then HandleModule e st
     else if ev_action e = ''cpu.pressure'' then HandleCpuPressure e st
     else Ok st)"

section \<open>Events of a run\<close>

definition module_event :: "RunState \<Rightarrow> string \<Rightarrow> Event" where
  "module_event st mdl =
    (let acc = at_or ModuleAcc_new (rs_modules st) mdl in
     attr ''node_count'' (nat_to_string (ma_count acc))
       ((Event_new ''column'' ''module.end'' mdl)\<lparr>ev_duration := ma_end acc - ma_start acc\<rparr>))"

definition pressure_event :: "RunState \<Rightarrow> int \<Rightarrow> nat \<Rightarrow> Event" where
  "pressure_event st wall workers =
    attr ''workers'' (nat_to_string workers)
      (attr_ns ''wall_ns'' wall
      (attr_ns ''busy_ns'' (rs_busy st)
      (attr ''utilization'' (double_to_string (Fin (utilization (rs_busy st) wall workers)))
      (attr ''pool'' ''compute'' (Event_new ''column'' ''cpu.pressure'' ''compute'')))))"

definition summary_events :: "RunState \<Rightarrow> int \<Rightarrow> nat \<Rightarrow> Event list" where
  "summary_events st wall workers = map (module_event st) (sort (keys (rs_modules st))) @ [pressure_event st wall workers]"

lemma ctx_emit_events: "ec_monitor ctx \<Longrightarrow> ctx_emit e ctx = ctx\<lparr>ec_events := ec_events ctx @ [e]\<rparr>"
  by (simp add: ctx_emit_def)

lemma ReportRunSummary_events:
  assumes "ec_monitor ctx"
  shows "ReportRunSummary st wall workers ctx = ctx\<lparr>ec_events := ec_events ctx @ summary_events st wall workers\<rparr>"
proof -
  have "fold (\<lambda>m. ctx_emit (f m)) ms ctx = ctx\<lparr>ec_events := ec_events ctx @ map f ms\<rparr>" for f :: "string \<Rightarrow> Event" and ms
    using assms by (induction ms arbitrary: ctx) (simp_all add: ctx_emit_events)
  then show ?thesis
    using assms by (simp add: ReportRunSummary_def summary_events_def ctx_emit_events module_event_def [abs_def]
        pressure_event_def Let_def)
qed

definition module_timing :: "RunState \<Rightarrow> string \<Rightarrow> ModuleTiming" where
  "module_timing st mdl =
    (let acc = at_or ModuleAcc_new (rs_modules st) mdl in
     \<lparr>mt_module = mdl, mt_elapsed = ma_end acc - ma_start acc, mt_node_count = int (ma_count acc)\<rparr>)"

lemma HandleModule_event:
  assumes "ma_count (at_or ModuleAcc_new (rs_modules r) mdl) < 2 ^ 64"
  shows "RunStats_Emit (module_event r mdl) st = Ok (st\<lparr>st_modules := st_modules st @ [module_timing r mdl]\<rparr>)"
  using stoull_nat_to_string [OF assms]
  by (simp add: RunStats_Emit_def HandleModule_def get_or_def Event_Get_def module_event_def Let_def attr_def Event_new_def module_timing_def)

lemma HandleModule_events:
  assumes "\<forall>mdl \<in> set ms. ma_count (at_or ModuleAcc_new (rs_modules r) mdl) < 2 ^ 64"
  shows "foldR RunStats_Emit (map (module_event r) ms) st = Ok (st\<lparr>st_modules := st_modules st @ map (module_timing r) ms\<rparr>)"
  using assms by (induction ms arbitrary: st) (simp_all add: HandleModule_event)

lemma utilization_range:
  assumes "int64 busy"
  shows "\<bar>utilization busy wall workers\<bar> < 2 ^ 1000"
proof -
  have b: "\<bar>real_of_int busy\<bar> \<le> 2 ^ 63" using assms by (simp add: int64_def abs_le_iff)
  have "\<bar>min (real_of_int busy / (real_of_int wall * real workers)) 1\<bar> \<le> 2 ^ 63" if "wall > 0" "workers > 0"
  proof -
    have "1 \<le> real_of_int wall" "1 \<le> real workers" using that by simp_all
    then have "1 \<le> real_of_int wall * real workers" by (metis mult_ge1_I)
    then have "\<bar>real_of_int busy / (real_of_int wall * real workers)\<bar> \<le> \<bar>real_of_int busy\<bar>"
      using mult_left_mono [of 1 "real_of_int wall * real workers" "\<bar>real_of_int busy\<bar>"]
      by (simp add: abs_divide pos_divide_le_eq)
    then show ?thesis using b by (auto simp: min_def)
  qed
  then have "\<bar>utilization busy wall workers\<bar> \<le> 2 ^ 63" by (simp add: utilization_def)
  also have "(2 :: real) ^ 63 < 2 ^ 1000" by (rule power_strict_increasing) simp_all
  finally show ?thesis .
qed

lemma HandleCpuPressure_event:
  assumes "int64 (rs_busy r)" "int64 wall" "workers < 2 ^ 64"
  obtains u where "RunStats_Emit (pressure_event r wall workers) st = Ok (st\<lparr>st_workers := int workers, st_pressure := st_pressure st @
      [\<lparr>cp_pool = ''compute'', cp_utilization = Fin u, cp_busy = rs_busy r, cp_wall = wall, cp_workers = int workers\<rparr>]\<rparr>)"
    "\<bar>u - utilization (rs_busy r) wall workers\<bar> \<le> 1 / (2 * 10 ^ 6)"
proof -
  let ?u = "utilization (rs_busy r) wall workers"
  have "\<bar>?u\<bar> < 2 ^ 1000" by (rule utilization_range [OF assms(1)])
  then obtain u where u: "str_stod (double_to_string (Fin ?u)) = Ok (Fin u)" "\<bar>u - ?u\<bar> \<le> 1 / (2 * 10 ^ 6)"
    by (rule stod_double)
  show ?thesis
  proof (rule that [OF _ u(2)])
    show "RunStats_Emit (pressure_event r wall workers) st = Ok (st\<lparr>st_workers := int workers, st_pressure := st_pressure st @
      [\<lparr>cp_pool = ''compute'', cp_utilization = Fin u, cp_busy = rs_busy r, cp_wall = wall, cp_workers = int workers\<rparr>]\<rparr>)"
      using stoll_int_to_string [OF assms(1)] stoll_int_to_string [OF assms(2)] stoull_nat_to_string [OF assms(3)] u(1)
      by (simp add: RunStats_Emit_def HandleCpuPressure_def get_or_def Event_Get_def pressure_event_def attr_def attr_ns_def Event_new_def)
  qed
qed

subsection \<open>Node events\<close>

definition node_event :: "string \<Rightarrow> ComputeNode \<Rightarrow> int \<Rightarrow> bool \<Rightarrow> Event" where
  "node_event act node elapsed ok =
    (attr_ns ''elapsed_ns'' elapsed (attr ''op'' (op_type (cn_op node)) (Event_new ''column'' act (cn_id node))))
      \<lparr>ev_duration := elapsed, ev_ok := ok\<rparr>"

definition op_timing :: "ComputeNode \<Rightarrow> int \<Rightarrow> OpTiming" where
  "op_timing node elapsed = \<lparr>ot_node_id = cn_id node, ot_op_type = op_type (cn_op node), ot_module = ModuleOf (cn_id node),
    ot_elapsed = elapsed\<rparr>"

lemma node_event_recorded:
  "RunStats_Emit (node_event ''node.start'' node el ok) st = Ok st"
  "RunStats_Emit (node_event (if ok' then ''node.end'' else ''node.error'') node el ok) st =
    Ok (st\<lparr>st_ops := st_ops st @ [op_timing node el]\<rparr>)"
  by (simp_all add: RunStats_Emit_def HandleNode_def node_event_def op_timing_def attr_def attr_ns_def Event_new_def Event_Get_def)

lemma start_node_events:
  "ec_monitor (es_ctx s) \<Longrightarrow> es_ctx (start_node a t s) =
    (es_ctx s)\<lparr>ec_events := ec_events (es_ctx s) @ [node_event ''node.start'' (node_at (es_graph s) a) 0 True]\<rparr>"
  by (simp add: start_node_def Let_def EmitNodeEvent_def ctx_emit_events node_event_def)

lemma finish_node_events:
  "ec_monitor (es_ctx s) \<Longrightarrow> es_ctx (finish_node a t u err s) =
    (es_ctx s)\<lparr>ec_events := ec_events (es_ctx s) @
      [node_event (if err = None then ''node.end'' else ''node.error'') (node_at (es_graph s) a) (u - t) (err = None)]\<rparr>"
  by (simp add: finish_node_def Let_def EmitNodeEvent_def ctx_emit_events node_event_def)

text \<open>The nodes whose end has been reported.\<close>

fun ended :: "node_phase \<Rightarrow> bool" where
  "ended Reported = True"
| "ended Signalled = True"
| "ended Finished = True"
| "ended _ = False"

definition stats_inv :: "exec_state \<Rightarrow> RunStats \<Rightarrow> async_run \<Rightarrow> bool" where
  "stats_inv s0 st s = (ec_monitor (es_ctx (ar_state s)) \<and>
    (\<exists>evs ops. ec_events (es_ctx (ar_state s)) = ec_events (es_ctx s0) @ evs \<and>
      foldR RunStats_Emit evs st = Ok (st\<lparr>st_ops := st_ops st @ ops\<rparr>) \<and>
      mset (map ot_node_id ops) = mset (map (\<lambda>a. cn_id (node_at (es_graph s0) a)) (filter (\<lambda>a. ended (ar_phase s a)) (addrs (es_graph s0))))))"

lemma filter_flip:
  "distinct xs \<Longrightarrow> a \<in> set xs \<Longrightarrow> \<not> P a \<Longrightarrow> Q a \<Longrightarrow> (\<And>b. b \<noteq> a \<Longrightarrow> Q b = P b) \<Longrightarrow>
    mset (map f (filter Q xs)) = add_mset (f a) (mset (map f (filter P xs)))"
proof (induction xs)
  case (Cons x xs)
  show ?case
  proof (cases "x = a")
    case True
    then have "b \<noteq> a" if "b \<in> set xs" for b using Cons.prems(1) that by auto
    then have "filter Q xs = filter P xs" using Cons.prems(5) by (intro filter_cong) simp_all
    then show ?thesis using True Cons.prems(3,4) by (simp del: mset_filter)
  next
    case False
    then show ?thesis using Cons by (auto simp del: mset_filter mset_map)
  qed
qed simp

lemma stats_inv_quiet:
  assumes "stats_inv s0 st s" "ec_events (es_ctx (ar_state s')) = ec_events (es_ctx (ar_state s))"
    "ec_monitor (es_ctx (ar_state s'))" "\<And>b. ended (ar_phase s' b) = ended (ar_phase s b)"
  shows "stats_inv s0 st s'"
  using assms by (simp add: stats_inv_def)

lemma stats_inv_step:
  assumes run: "runnable s0" and inv: "async_inv s0 s" and st: "stats_inv s0 st s" and step: "async_step s s'"
  shows "stats_inv s0 st s'"
proof -
  note d = async_invD [OF inv] and r = runnableD [OF run]
  have m: "ec_monitor (es_ctx (ar_state s))" using st by (simp add: stats_inv_def)
  obtain evs ops where e: "ec_events (es_ctx (ar_state s)) = ec_events (es_ctx s0) @ evs"
    "foldR RunStats_Emit evs st = Ok (st\<lparr>st_ops := st_ops st @ ops\<rparr>)"
    "mset (map ot_node_id ops) = mset (map (\<lambda>a. cn_id (node_at (es_graph s0) a)) (filter (\<lambda>a. ended (ar_phase s a)) (addrs (es_graph s0))))"
    using st unfolding stats_inv_def by blast
  from step show ?thesis
  proof cases
    case (spawn a)
    then have "ar_phase s a = Unspawned"
      using d(5) same_graphD(1) [OF d(1)] by (metis order_refl)
    then show ?thesis using m unfolding spawn(1) by (intro stats_inv_quiet [OF st]) (auto simp: enter_def)
  next
    case (await a i)
    then show ?thesis using m unfolding await(1) by (intro stats_inv_quiet [OF st]) (auto simp: enter_def)
  next
    case (start a t)
    let ?e = "node_event ''node.start'' (node_at (graph_of s) a) 0 True"
    have "foldR RunStats_Emit (evs @ [?e]) st = Ok (st\<lparr>st_ops := st_ops st @ ops\<rparr>)"
      by (simp add: foldR_append e(2) node_event_recorded)
    moreover have "(\<lambda>b. ended (ar_phase s' b)) = (\<lambda>b. ended (ar_phase s b))" using start by (auto simp: enter_def)
    moreover have "ec_events (es_ctx (ar_state s')) = ec_events (es_ctx s0) @ evs @ [?e]" "ec_monitor (es_ctx (ar_state s'))"
      using start_node_events [OF m, of a t] m by (simp_all add: start(1) enter_def e(1))
    ultimately show ?thesis unfolding stats_inv_def using e(3) by metis
  next
    case (eval a t)
    then show ?thesis using m unfolding eval(1) by (intro stats_inv_quiet [OF st]) (auto simp: enter_def)
  next
    case (put a t x)
    then show ?thesis using m unfolding put(1) by (intro stats_inv_quiet [OF st]) (auto simp: enter_def set_store_def)
  next
    case (report a t err finish)
    let ?e = "node_event (if err = None then ''node.end'' else ''node.error'') (node_at (graph_of s) a) (finish - t) (err = None)"
    let ?o = "op_timing (node_at (graph_of s) a) (finish - t)"
    have a: "a \<in> set (addrs (es_graph s0))" "\<not> ended (ar_phase s a)" using report same_graphD(1) [OF d(1)] by auto
    have "foldR RunStats_Emit (evs @ [?e]) st = Ok (st\<lparr>st_ops := st_ops st @ ops @ [?o]\<rparr>)"
      by (simp add: foldR_append e(2) node_event_recorded)
    moreover have "mset (map ot_node_id (ops @ [?o])) =
        mset (map (\<lambda>a. cn_id (node_at (es_graph s0) a)) (filter (\<lambda>b. ended (ar_phase s' b)) (addrs (es_graph s0))))"
    proof -
      have "ended (ar_phase s' a)" "\<And>b. b \<noteq> a \<Longrightarrow> ended (ar_phase s' b) = ended (ar_phase s b)" using report by (auto simp: enter_def)
      note flip = filter_flip [OF r(1) a(1), of "\<lambda>b. ended (ar_phase s b)" "\<lambda>b. ended (ar_phase s' b)", OF a(2) this]
      show ?thesis using flip [of "\<lambda>a. cn_id (node_at (es_graph s0) a)"] e(3) same_graph_id [OF d(1), of a]
        by (simp add: op_timing_def del: mset_filter mset_map)
    qed
    moreover have "ec_events (es_ctx (ar_state s')) = ec_events (es_ctx s0) @ evs @ [?e]" "ec_monitor (es_ctx (ar_state s'))"
      using finish_node_events [OF m, of a t finish err] m by (simp_all add: report(1) enter_def e(1))
    ultimately show ?thesis unfolding stats_inv_def by blast
  next
    case (signal a)
    then show ?thesis using m unfolding signal(1) by (intro stats_inv_quiet [OF st]) (auto simp: enter_def)
  next
    case (count_down a)
    then show ?thesis using m unfolding count_down(1)
      by (intro stats_inv_quiet [OF st]) (auto simp: enter_def count_down_state_def)
  qed
qed

lemma stats_inv_reach: "async_reach s0 s \<Longrightarrow> runnable s0 \<Longrightarrow> ec_monitor (es_ctx s0) \<Longrightarrow> stats_inv s0 st s"
proof (induction rule: async_reach.induct)
  case init
  have "st = st\<lparr>st_ops := st_ops st @ []\<rparr>" by simp
  moreover have "foldR RunStats_Emit [] st = Ok st" by simp
  ultimately show ?case using init unfolding stats_inv_def by (force simp: async_init_def)
next
  case (more s s')
  then show ?case using stats_inv_step async_reach_inv by blast
qed

section \<open>Property\<close>


section \<open>Witness\<close>

text \<open>A single node, which fails: its placeholder was never resolved.\<close>

definition demo_one :: ComputeGraph where
  "demo_one = AddNode 3 ''m/op0'' ''m'' (PlaceholderOp ''y'') ComputeGraph_new"

definition demo_watched :: ExecutionContext where
  "demo_watched = ExecutionContext_new\<lparr>ec_monitor := True\<rparr>"

definition demo_error :: exn where
  "demo_error = RuntimeError ''placeholder executed: unresolved forward reference''"

definition demo_start :: exec_state where
  "demo_start = (case prepare 10 demo_one demo_watched of Inr s \<Rightarrow> s)"

definition advance :: "node_phase \<Rightarrow> (exec_state \<Rightarrow> exec_state) \<Rightarrow> async_run \<Rightarrow> async_run" where
  "advance p f s = enter 3 p (f (ar_state s)) s"

definition demo_awaiting :: async_run where
  "demo_awaiting = (advance (Awaiting 0) (\<lambda>es. es) (async_init demo_start))\<lparr>ar_main := 1\<rparr>"

definition demo_started :: async_run where
  "demo_started = advance (Started 12) (start_node 3 12) demo_awaiting"

definition demo_evaluated :: async_run where
  "demo_evaluated = advance (Evaluated 12 (Throw demo_error)) (\<lambda>es. es) demo_started"

definition demo_written :: async_run where
  "demo_written = advance (Written 12 (Some demo_error)) (\<lambda>es. set_store (store_of es) es) demo_evaluated"

definition demo_reported :: async_run where
  "demo_reported = advance Reported (finish_node 3 12 17 (Some demo_error)) demo_written"

definition demo_signalled :: async_run where
  "demo_signalled = advance Signalled (signal_node 3) demo_reported"

definition demo_finished :: async_run where
  "demo_finished = advance Finished count_down_state demo_signalled"

lemma demo_prepared: "prepare 10 demo_one demo_watched = Ok demo_start"
proof -
  have "\<not> isl (prepare 10 demo_one demo_watched)" by code_simp
  then show ?thesis by (cases "prepare 10 demo_one demo_watched") (simp_all add: demo_start_def)
qed

lemma demo_graphs:
  "addrs (graph_of (async_init demo_start)) = [3]" "addrs (graph_of demo_awaiting) = [3]" "deps_of (graph_of demo_awaiting) 3 = []"
  "ar_main (async_init demo_start) = 0" "addrs (graph_of demo_started) = [3]"
  "addrs (graph_of demo_evaluated) = [3]" "addrs (graph_of demo_written) = [3]" "addrs (graph_of demo_reported) = [3]"
  "addrs (graph_of demo_signalled) = [3]"
  by code_simp+

lemma demo_op: "cn_op (node_at (graph_of demo_started) 3) = PlaceholderOp ''y''"
proof -
  have "case cn_op (node_at (graph_of demo_started) 3) of PlaceholderOp n \<Rightarrow> n = ''y'' | _ \<Rightarrow> False" by code_simp
  then show ?thesis by (cases "cn_op (node_at (graph_of demo_started) 3)") simp_all
qed

lemma demo_ar_phases:
  "ar_phase demo_awaiting 3 = Awaiting 0" "ar_phase demo_started 3 = Started 12"
  "ar_phase demo_evaluated 3 = Evaluated 12 (Throw demo_error)"
  "ar_phase demo_written 3 = Written 12 (Some demo_error)" "ar_phase demo_reported 3 = Reported" "ar_phase demo_signalled 3 = Signalled"
proof -
  show "ar_phase demo_awaiting 3 = Awaiting 0" by (simp add: demo_awaiting_def advance_def enter_def)
  show "ar_phase demo_started 3 = Started 12" by (simp add: demo_started_def advance_def phase_enter)
  show "ar_phase demo_evaluated 3 = Evaluated 12 (Throw demo_error)" by (simp add: demo_evaluated_def advance_def phase_enter)
  show "ar_phase demo_written 3 = Written 12 (Some demo_error)" by (simp add: demo_written_def advance_def phase_enter)
  show "ar_phase demo_reported 3 = Reported" by (simp add: demo_reported_def advance_def phase_enter)
  show "ar_phase demo_signalled 3 = Signalled" by (simp add: demo_signalled_def advance_def phase_enter)
qed

lemma demo_reach: "async_reach demo_start demo_finished"
proof -
  have one: "(1 :: nat) = Suc (ar_main (async_init demo_start))" by (simp add: async_init_def)
  have "async_step (async_init demo_start) demo_awaiting" unfolding demo_awaiting_def advance_def one
    by (rule async_step.spawn) (simp_all add: demo_graphs)
  then have "async_reach demo_start demo_awaiting" by (rule async_reach.more [OF async_reach.init])
  moreover have "async_step demo_awaiting demo_started" unfolding demo_started_def advance_def
    by (rule async_step.start) (simp_all add: demo_graphs demo_ar_phases)
  ultimately have "async_reach demo_start demo_started" by (rule async_reach.more)
  moreover have "async_step demo_started demo_evaluated"
    using async_step.eval [of 3 demo_started 12] demo_graphs(5) demo_ar_phases(2)
    by (simp add: demo_op demo_evaluated_def advance_def demo_error_def)
  ultimately have "async_reach demo_start demo_evaluated" by (rule async_reach.more)
  moreover have "async_step demo_evaluated demo_written"
    using async_step.put [of 3 demo_evaluated 12, OF _ demo_ar_phases(3)] demo_graphs(6)
    by (simp add: demo_written_def advance_def error_of_def)
  ultimately have "async_reach demo_start demo_written" by (rule async_reach.more)
  moreover have "async_step demo_written demo_reported" unfolding demo_reported_def advance_def
    by (rule async_step.report) (simp_all add: demo_graphs demo_ar_phases)
  ultimately have "async_reach demo_start demo_reported" by (rule async_reach.more)
  moreover have "async_step demo_reported demo_signalled" unfolding demo_signalled_def advance_def
    by (rule async_step.signal) (simp_all add: demo_graphs demo_ar_phases)
  ultimately have "async_reach demo_start demo_signalled" by (rule async_reach.more)
  moreover have "async_step demo_signalled demo_finished" unfolding demo_finished_def advance_def
    by (rule async_step.count_down) (simp_all add: demo_graphs demo_ar_phases)
  ultimately show ?thesis by (rule async_reach.more)
qed

lemma demo_run_facts:
  "graph_inv demo_one" "ec_monitor demo_watched" "cg_nodes demo_one \<noteq> []" "async_returns demo_finished"
  "rs_busy (es_run (ar_state demo_finished)) = 5" "rs_exec_start (es_run (ar_state demo_finished)) = 10"
  "rs_modules (es_run (ar_state demo_finished)) = [(''m'', \<lparr>ma_start = 12, ma_end = 17, ma_started = True, ma_count = 1\<rparr>)]"
  "map (\<lambda>a. cn_id (node_at demo_one a)) (addrs demo_one) = [''m/op0'']"
  by code_simp+


text \<open>The collector starts no new snapshot: the timings of earlier runs stay.\<close>

lemma statistics_accumulate:
  "RunStats_Emit (node_event ''node.end'' node el True) st = Ok st' \<Longrightarrow> length (st_ops st') = Suc (length (st_ops st))"
  using node_event_recorded(2) [of True node el True st] by auto

text \<open>Milliseconds are labelled as microseconds, and seconds as milliseconds.\<close>

lemma FmtNs_units: "FmtNs 5000000 = ''5.00us''" "FmtNs 2000000000 = ''2.00ms''"
  by (simp_all add: FmtNs_def fixed_point_def Let_def) (code_simp+)

end
