(* ===== verification/ExprDsl.thy ===== *)
theory ExprDsl
  imports Ops
begin

text \<open>
  \<^verbatim>\<open>column/biz/dsl.cpp\<close>: the expression language of module sub-graphs.  \<^verbatim>\<open>ExprParser\<close> is a precedence climber over
  the shared lexer that emits ops as it goes: its state is the lexer, the ops so far and the counter of
  temporaries.  A parser is a state function; \<^verbatim>\<open>None\<close> would be a recursion that does not end, and the fuel
  (four calls per character of the source and a few more) is enough: \<^verbatim>\<open>parse\<close> never gives \<^verbatim>\<open>None\<close>.
\<close>

section \<open>Model\<close>

record ExprParser =
  ep_lexer :: Lexer
  ep_ops :: "OpSpec list"
  ep_tmp :: nat

type_synonym 'a parser = "ExprParser \<Rightarrow> ('a \<times> ExprParser) res option"

definition returnP :: "'a \<Rightarrow> 'a parser" where
  "returnP x st = Some (Ok (x, st))"

definition bindP :: "'a parser \<Rightarrow> ('a \<Rightarrow> 'b parser) \<Rightarrow> 'b parser" where
  "bindP m f st =
    (case m st of
       None \<Rightarrow> None
     | Some (Inl e) \<Rightarrow> Some (Throw e)
     | Some (Inr (x, st')) \<Rightarrow> f x st')"

definition lexP :: "(Lexer \<Rightarrow> ('a \<times> Lexer) res) \<Rightarrow> 'a parser" where
  "lexP f st = Some (bindR (f (ep_lexer st)) (\<lambda>(x, lx). Ok (x, st\<lparr>ep_lexer := lx\<rparr>)))"

definition failP :: "string \<Rightarrow> 'a parser" where
  "failP msg st = Some (Throw (Fail (ep_lexer st) msg))"

definition expectP :: "string \<Rightarrow> string \<Rightarrow> unit parser" where
  "expectP sy msg st = lexP (\<lambda>lx. bindR (ExpectSymbol sy msg lx) (\<lambda>lx. Ok ((), lx))) st"

definition emitP :: "OpSpec \<Rightarrow> unit parser" where
  "emitP spec st = Some (Ok ((), st\<lparr>ep_ops := ep_ops st @ [spec]\<rparr>))"

definition Temp :: "string parser" where
  "Temp st = Some (Ok (''@t'' @ nat_to_string (ep_tmp st), st\<lparr>ep_tmp := Suc (ep_tmp st)\<rparr>))"

datatype Value = Lit flt | Named string

definition Format :: "flt \<Rightarrow> string" where
  "Format v =
    (case v of
       Fin x \<Rightarrow> if real_of_int \<lfloor>x\<rfloor> = x then int_to_string (sint (flt_to_int v :: 64 word)) else double_to_string v
     | _ \<Rightarrow> double_to_string v)"

definition const_spec :: "string \<Rightarrow> flt \<Rightarrow> OpSpec" where
  "const_spec out v = op_spec ''const'' [] [out] [(''value'', Format v), (''size'', ''1'')]"

definition Assign :: "string \<Rightarrow> Value \<Rightarrow> unit parser" where
  "Assign lhs v =
    (case v of
       Lit x \<Rightarrow> emitP (const_spec lhs x)
     | Named n \<Rightarrow> if n = lhs then returnP () else emitP (op_spec ''identity'' [n] [lhs] []))"

definition is_cmp :: "string \<Rightarrow> bool" where
  "is_cmp op = (op \<in> set [''>'', ''>='', ''<'', ''<='', ''=='', ''!=''])"

definition Precedence :: "string \<Rightarrow> int" where
  "Precedence op =
    (if op = ''*'' \<or> op = ''/'' then 10
     else if op = ''+'' \<or> op = ''-'' then 5
     else if is_cmp op then 2
     else - 1)"

definition ArithOp :: "string \<Rightarrow> string" where
  "ArithOp op =
    (if op = ''+'' then ''add'' else if op = ''-'' then ''sub'' else if op = ''*'' then ''mul'' else ''div'')"

definition CmpOp :: "string \<Rightarrow> string" where
  "CmpOp op =
    (if op = ''>'' then ''gt'' else if op = ''>='' then ''ge'' else if op = ''<'' then ''lt''
     else if op = ''<='' then ''le'' else if op = ''=='' then ''eq'' else ''neq'')"

definition truth :: "bool \<Rightarrow> flt" where
  "truth b = Fin (if b then 1 else 0)"

definition fold_constant :: "string \<Rightarrow> flt \<Rightarrow> flt \<Rightarrow> flt option" where
  "fold_constant op x y =
    (if op = ''+'' then Some (fadd x y)
     else if op = ''-'' then Some (fsub x y)
     else if op = ''*'' then Some (fmul x y)
     else if op = ''/'' then Some (if flt_eq y (Fin 0) then Fin 0 else fdiv x y)
     else if op = ''>'' then Some (truth (flt_lt y x))
     else if op = ''>='' then Some (truth (flt_le y x))
     else if op = ''<'' then Some (truth (flt_lt x y))
     else if op = ''<='' then Some (truth (flt_le x y))
     else if op = ''=='' then Some (truth (flt_eq x y))
     else if op = ''!='' then Some (truth (\<not> flt_eq x y))
     else None)"

fun name_of_value :: "Value \<Rightarrow> string" where
  "name_of_value (Lit _) = []"
| "name_of_value (Named n) = n"

text \<open>With one literal operand the op is the scalar form on the other operand, whichever side the literal is on.\<close>

definition binary_spec :: "Value \<Rightarrow> Value \<Rightarrow> string \<Rightarrow> string \<Rightarrow> OpSpec" where
  "binary_spec a b op out =
    (let base = (if is_cmp op then CmpOp op else ArithOp op) in
     case a of
       Lit x \<Rightarrow> op_spec (base @ ''_scalar'') [name_of_value b] [out] [(''scalar'', Format x)]
     | Named n \<Rightarrow>
         (case b of
            Lit y \<Rightarrow> op_spec (base @ ''_scalar'') [n] [out] [(''scalar'', Format y)]
          | Named m \<Rightarrow> op_spec base [n, m] [out] []))"

definition MakeBinary :: "Value \<Rightarrow> Value \<Rightarrow> string \<Rightarrow> Value parser" where
  "MakeBinary a b op =
    (case (case (a, b) of (Lit x, Lit y) \<Rightarrow> fold_constant op x y | _ \<Rightarrow> None) of
       Some v \<Rightarrow> returnP (Lit v)
     | None \<Rightarrow> bindP Temp (\<lambda>out. bindP (emitP (binary_spec a b op out)) (\<lambda>_. returnP (Named out))))"

definition materialize :: "Value \<Rightarrow> string parser" where
  "materialize v =
    (case v of
       Named n \<Rightarrow> returnP n
     | Lit x \<Rightarrow> bindP Temp (\<lambda>cname. bindP (emitP (const_spec cname x)) (\<lambda>_. returnP cname)))"

fun materialize_all :: "Value list \<Rightarrow> string list parser" where
  "materialize_all [] = returnP []"
| "materialize_all (v # vs) = bindP (materialize v) (\<lambda>n. bindP (materialize_all vs) (\<lambda>ns. returnP (n # ns)))"

definition emit_call :: "string \<Rightarrow> Value list \<Rightarrow> (string \<times> string) list \<Rightarrow> string \<Rightarrow> Value parser" where
  "emit_call fn args attrs out =
    bindP (materialize_all args) (\<lambda>ns. bindP (emitP (op_spec fn ns [out] attrs)) (\<lambda>_. returnP (Named out)))"

definition kUnary :: "string list" where
  "kUnary = [''sum'', ''mean'', ''count'', ''max'', ''min'', ''stddev'', ''abs'', ''neg'', ''square'', ''sqrt'',
     ''exp'', ''log'', ''quantize'', ''dequantize'']"

definition comma :: "unit parser" where
  "comma = expectP '','' (quoted '','')"

definition close_paren :: "unit parser" where
  "close_paren = expectP '')'' (quoted '')'')"

fun ParseExpr :: "nat \<Rightarrow> int \<Rightarrow> Value parser"
  and expr_loop :: "nat \<Rightarrow> int \<Rightarrow> Value \<Rightarrow> Value parser"
  and ParsePrimary :: "nat \<Rightarrow> Value parser"
  and ParseCall :: "nat \<Rightarrow> string \<Rightarrow> Value parser" where
  "ParseExpr 0 min_prec = (\<lambda>_. None)"
| "ParseExpr (Suc n) min_prec = bindP (ParsePrimary n) (expr_loop n min_prec)"
| "expr_loop 0 min_prec left = (\<lambda>_. None)"
| "expr_loop (Suc n) min_prec left =
    bindP (lexP Peek) (\<lambda>t.
      if kind t \<noteq> kSymbol \<or> Precedence (ttext t) < min_prec then returnP left
      else bindP (lexP Consume) (\<lambda>_.
        bindP (ParseExpr n (Precedence (ttext t) + 1)) (\<lambda>right.
        bindP (MakeBinary left right (ttext t)) (expr_loop n min_prec))))"
| "ParsePrimary 0 = (\<lambda>_. None)"
| "ParsePrimary (Suc n) =
    bindP (lexP Consume) (\<lambda>t.
      if kind t = kNumber then returnP (Lit (Fin (tnumber t)))
      else if kind t = kIdent then
        bindP (lexP Peek) (\<lambda>p.
          if kind p = kSymbol \<and> ttext p = ''('' then bindP (lexP Consume) (\<lambda>_. ParseCall n (ttext t))
          else returnP (Named (ttext t)))
      else if kind t = kSymbol \<and> ttext t = ''-'' then
        bindP (ParsePrimary n) (\<lambda>v.
          case v of
            Lit x \<Rightarrow> returnP (Lit (fneg x))
          | Named m \<Rightarrow> bindP Temp (\<lambda>out. bindP (emitP (op_spec ''neg'' [m] [out] [])) (\<lambda>_. returnP (Named out))))
      else if kind t = kSymbol \<and> ttext t = ''('' then
        bindP (ParseExpr n 0) (\<lambda>v. bindP close_paren (\<lambda>_. returnP v))
      else failP ''dsl: unexpected token'')"
| "ParseCall 0 fn = (\<lambda>_. None)"
| "ParseCall (Suc n) fn =
    bindP Temp (\<lambda>out.
      if fn = ''select'' then
        bindP (ParseExpr n 0) (\<lambda>msk. bindP comma (\<lambda>_.
        bindP (ParseExpr n 0) (\<lambda>a. bindP comma (\<lambda>_.
        bindP (ParseExpr n 0) (\<lambda>b. bindP close_paren (\<lambda>_. emit_call fn [msk, a, b] [] out))))))
      else if fn = ''filter'' \<or> fn = ''dot'' then
        bindP (ParseExpr n 0) (\<lambda>a. bindP comma (\<lambda>_.
        bindP (ParseExpr n 0) (\<lambda>b. bindP close_paren (\<lambda>_. emit_call fn [a, b] [] out))))
      else if fn = ''cast'' then
        bindP (ParseExpr n 0) (\<lambda>a. bindP comma (\<lambda>_.
        bindP (lexP Consume) (\<lambda>dtype.
          if kind dtype \<noteq> kIdent then failP ''dsl: cast expects a dtype name''
          else bindP close_paren (\<lambda>_. emit_call fn [a] [(''dtype'', ttext dtype)] out))))
      else if fn \<notin> set kUnary then failP (''dsl: unknown function '' @ quoted fn)
      else bindP (ParseExpr n 0) (\<lambda>a. bindP close_paren (\<lambda>_. emit_call fn [a] [] out)))"

definition ParseStatement :: "nat \<Rightarrow> unit parser" where
  "ParseStatement n =
    bindP (lexP Consume) (\<lambda>lhs.
      if kind lhs \<noteq> kIdent then failP ''dsl: statement must start with an identifier''
      else bindP (expectP ''='' (quoted ''='')) (\<lambda>_. bindP (ParseExpr n 0) (Assign (ttext lhs))))"

fun Parse :: "nat \<Rightarrow> nat \<Rightarrow> unit parser" where
  "Parse n 0 = (\<lambda>_. None)"
| "Parse n (Suc k) = bindP (lexP AtEnd) (\<lambda>e. if e then returnP () else bindP (ParseStatement n) (\<lambda>_. Parse n k))"

definition ExprParser_new :: "string \<Rightarrow> ExprParser" where
  "ExprParser_new src =
    \<lparr>ep_lexer = Lexer_new src ''+-*/=(),<>!'' [''>='', ''<='', ''=='', ''!=''], ep_ops = [], ep_tmp = 0\<rparr>"

definition parse_fuel :: "string \<Rightarrow> nat" where
  "parse_fuel src = 4 * length src + 4"

definition parse :: "string \<Rightarrow> OpSpec list res option" where
  "parse src =
    map_option (\<lambda>r. bindR r (\<lambda>(_, st). Ok (ep_ops st))) (Parse (parse_fuel src) (Suc (length src)) (ExprParser_new src))"

section \<open>What the parser keeps\<close>

text \<open>The ops it emits are straight-line code over the temporaries: a temporary is written once, and read only
  after it has been written.\<close>

definition temp :: "nat \<Rightarrow> string" where
  "temp k = ''@t'' @ nat_to_string k"

definition is_temp :: "string \<Rightarrow> bool" where
  "is_temp s = (take 1 s = ''@'')"

definition outs :: "OpSpec list \<Rightarrow> string list" where
  "outs ops = concat (map os_outputs ops)"

fun straight_line :: "string list \<Rightarrow> OpSpec list \<Rightarrow> bool" where
  "straight_line seen [] = True"
| "straight_line seen (op # ops) =
    (list_all (\<lambda>n. is_temp n \<longrightarrow> n \<in> set seen) (os_inputs op)
     \<and> list_all (\<lambda>n. is_temp n \<longrightarrow> n \<notin> set seen) (os_outputs op)
     \<and> straight_line (seen @ os_outputs op) ops)"

text \<open>With valid attribute values the factory makes an op of the arity of the spec.\<close>

definition shape_ok :: "OpSpec \<Rightarrow> bool" where
  "shape_ok spec =
    (case create_op (spec\<lparr>os_attrs := [(''scalar'', ''1''), (''value'', ''1''), (''dtype'', ''float64'')]\<rparr>) of
       Inl _ \<Rightarrow> False
     | Inr op \<Rightarrow> length (os_inputs spec) = op_arity op \<and> length (os_outputs spec) = 1)"

definition ident_ok :: "Token \<Rightarrow> bool" where
  "ident_ok t = (kind t = kIdent \<longrightarrow> ttext t \<noteq> [] \<and> \<not> is_temp (ttext t))"

definition lexer_ok :: "Lexer \<Rightarrow> bool" where
  "lexer_ok lx = (lex_inv lx \<and> (lx_peeked lx \<longrightarrow> ident_ok (lx_peek lx)))"

abbreviation rem :: "ExprParser \<Rightarrow> nat" where
  "rem st \<equiv> remaining (ep_lexer st)"

definition st_ok :: "ExprParser \<Rightarrow> bool" where
  "st_ok st =
    (lexer_ok (ep_lexer st) \<and> straight_line [] (ep_ops st) \<and> list_all shape_ok (ep_ops st)
     \<and> (\<forall>n \<in> set (outs (ep_ops st)). is_temp n \<longrightarrow> (\<exists>k < ep_tmp st. n = temp k)))"

text \<open>\<open>st\<close> was reached from \<open>b\<close>: the temporaries written since are the ones made since.\<close>

definition ext :: "ExprParser \<Rightarrow> ExprParser \<Rightarrow> bool" where
  "ext b st =
    (ep_tmp b \<le> ep_tmp st \<and> rem st \<le> rem b
     \<and> (\<exists>new. ep_ops st = ep_ops b @ new \<and> (\<forall>n \<in> set (outs new). is_temp n \<longrightarrow> (\<exists>k \<ge> ep_tmp b. n = temp k))))"

definition pend :: "ExprParser \<Rightarrow> ExprParser \<Rightarrow> string \<Rightarrow> bool" where
  "pend b st out = (\<exists>k. ep_tmp b \<le> k \<and> k < ep_tmp st \<and> out = temp k \<and> out \<notin> set (outs (ep_ops st)))"

definition name_ok :: "ExprParser \<Rightarrow> string \<Rightarrow> bool" where
  "name_ok st n = (is_temp n \<longrightarrow> n \<in> set (outs (ep_ops st)))"

fun value_ok :: "ExprParser \<Rightarrow> Value \<Rightarrow> bool" where
  "value_ok st (Lit _) = True"
| "value_ok st (Named n) = name_ok st n"

definition runs :: "ExprParser \<Rightarrow> 'a parser \<Rightarrow> ExprParser \<Rightarrow> ('a \<Rightarrow> ExprParser \<Rightarrow> bool) \<Rightarrow> bool" where
  "runs b m st Q =
    (case m st of None \<Rightarrow> False | Some (Inl _) \<Rightarrow> True | Some (Inr (x, st')) \<Rightarrow> st_ok st' \<and> ext b st' \<and> Q x st')"

lemma temp_inj: "temp i = temp j \<Longrightarrow> i = j"
  using digits_value_nat by (metis append_same_eq nat_int same_append_eq temp_def)

lemma temp_is_temp [simp]: "is_temp (temp k)"
  by (simp add: temp_def is_temp_def)

lemma outs_append [simp]: "outs (xs @ ys) = outs xs @ outs ys"
  by (simp add: outs_def)

lemma straight_line_snoc:
  "straight_line seen (ops @ [op]) \<longleftrightarrow> straight_line seen ops
    \<and> list_all (\<lambda>n. is_temp n \<longrightarrow> n \<in> set (seen @ outs ops)) (os_inputs op)
    \<and> list_all (\<lambda>n. is_temp n \<longrightarrow> n \<notin> set (seen @ outs ops)) (os_outputs op)"
  by (induction ops arbitrary: seen) (auto simp: outs_def)

lemma ext_refl [simp]: "ext b b"
  by (simp add: ext_def outs_def)

lemma ext_trans: "ext a b \<Longrightarrow> ext b c \<Longrightarrow> ext a c"
  unfolding ext_def by (auto intro: order_trans) (metis order_trans)

lemma ext_name: "ext b st \<Longrightarrow> name_ok b n \<Longrightarrow> name_ok st n"
  by (auto simp: ext_def name_ok_def)

lemma ext_value: "ext b st \<Longrightarrow> value_ok b v \<Longrightarrow> value_ok st v"
  by (cases v) (auto intro: ext_name)

lemma ext_rem: "ext b st \<Longrightarrow> rem st \<le> rem b"
  by (simp add: ext_def)

lemma ext_pend: "ext st st' \<Longrightarrow> pend b st out \<Longrightarrow> pend b st' out"
proof -
  assume e: "ext st st'" and p: "pend b st out"
  obtain k where k: "ep_tmp b \<le> k" "k < ep_tmp st" "out = temp k" "out \<notin> set (outs (ep_ops st))"
    using p by (auto simp: pend_def)
  obtain new where n: "ep_ops st' = ep_ops st @ new" "\<forall>n \<in> set (outs new). is_temp n \<longrightarrow> (\<exists>k \<ge> ep_tmp st. n = temp k)"
    "ep_tmp st \<le> ep_tmp st'" using e by (auto simp: ext_def)
  have "out \<notin> set (outs new)" using n(2) k(2,3) temp_inj by (metis leD temp_is_temp)
  then show "pend b st' out" using k n unfolding pend_def by (intro exI [of _ k]) auto
qed

section \<open>Rules for parsers\<close>

lemma runs_return: "st_ok st \<Longrightarrow> ext b st \<Longrightarrow> Q x st \<Longrightarrow> runs b (returnP x) st Q"
  by (simp add: runs_def returnP_def)

lemma runs_fail: "runs b (failP msg) st Q"
  by (simp add: runs_def failP_def)

lemma runs_bind_iff:
  "runs b (bindP m f) st Q \<longleftrightarrow>
    (case m st of None \<Rightarrow> False | Some (Inl _) \<Rightarrow> True | Some (Inr (x, st')) \<Rightarrow> runs b (f x) st' Q)"
  by (auto simp: runs_def bindP_def split: option.splits sum.splits)

lemma runs_bind:
  assumes "runs b m st P" "\<And>x st'. st_ok st' \<Longrightarrow> ext b st' \<Longrightarrow> P x st' \<Longrightarrow> runs b (f x) st' Q"
  shows "runs b (bindP m f) st Q"
  using assms(1) unfolding runs_bind_iff runs_def [of b m]
  by (auto intro!: assms(2) split: option.splits sum.splits)

text \<open>A step or a sub-parser started at the current state.\<close>

lemma runs_call:
  assumes "ext b st" "runs st m st P"
    and "\<And>x st'. st_ok st' \<Longrightarrow> ext b st' \<Longrightarrow> ext st st' \<Longrightarrow> P x st' \<Longrightarrow> runs b (f x) st' Q"
  shows "runs b (bindP m f) st Q"
  using assms(2) unfolding runs_bind_iff runs_def [of st m]
  by (auto intro!: assms(3) intro: ext_trans [OF assms(1)] split: option.splits sum.splits)

lemma runs_last:
  assumes "ext b st" "runs st m st P" "\<And>x st'. st_ok st' \<Longrightarrow> ext b st' \<Longrightarrow> ext st st' \<Longrightarrow> P x st' \<Longrightarrow> Q x st'"
  shows "runs b m st Q"
  using assms by (auto simp: runs_def intro: ext_trans split: option.splits sum.splits)

lemma Lex_ident: "Lex lx = Ok (t, lx') \<Longrightarrow> ident_ok t"
proof -
  assume L: "Lex lx = Ok (t, lx')"
  obtain off lno cno where S: "SkipSpace (lx_source lx) (lx_pos lx) (lx_line lx) (lx_col lx) = (off, lno, cno)"
    by (metis prod_cases3)
  have "kind t = kIdent \<Longrightarrow> drop off (lx_source lx) \<noteq> [] \<and> is_ident_start (hd (drop off (lx_source lx)))
      \<and> ttext t = takeWhile is_ident_char (drop off (lx_source lx))"
    using Lex_cases(5) [OF L S] by auto
  moreover have "\<not> is_ident_char (CHR ''@'')"
    by (simp add: is_ident_char_def isalnum_def isalpha_def isdigit_def isupper_def islower_def)
  ultimately show ?thesis
    using is_ident_start_char unfolding ident_ok_def is_temp_def
    by (cases "drop off (lx_source lx)") auto
qed

lemma Peek_lexer_ok:
  assumes "Peek lx = Ok (t, lx')" "lexer_ok lx"
  shows "lexer_ok lx'" "ident_ok t" "lx_peeked lx'" "lx_peek lx' = t" "remaining lx' \<le> remaining lx"
proof -
  have inv: "lex_inv lx" using assms(2) by (simp add: lexer_ok_def)
  note p = Peek_ok [OF assms(1) inv]
  have i: "ident_ok t"
    using assms by (auto simp: Peek_def lexer_ok_def ok_iff intro: Lex_ident split: if_splits)
  show "lexer_ok lx'" using p i by (simp add: lexer_ok_def)
  show "ident_ok t" "lx_peeked lx'" "lx_peek lx' = t" "remaining lx' \<le> remaining lx" using p i by simp_all
qed

lemma Consume_lexer_ok:
  assumes "Consume lx = Ok (t, lx')" "lexer_ok lx"
  shows "lexer_ok lx'" "ident_ok t" "remaining lx' \<le> remaining lx" "kind t \<noteq> kEnd \<Longrightarrow> remaining lx' < remaining lx"
    "lx_peeked lx \<Longrightarrow> t = lx_peek lx"
proof -
  obtain l1 where P: "Peek lx = Ok (t, l1)" and N: "Next l1 = Ok (t, lx')"
    using assms(1) Peek_lexer_ok [OF _ assms(2)] by (auto simp: Consume_def ok_iff Next_peeked)
  note p = Peek_lexer_ok [OF P assms(2)]
  have inv: "lex_inv l1" using p(1) by (simp add: lexer_ok_def)
  note n = Next_ok [OF N inv]
  show "lexer_ok lx'" using n(1,2) by (simp add: lexer_ok_def)
  show "ident_ok t" using p by simp
  show "remaining lx' \<le> remaining lx" using n(5) p(5) by linarith
  show "kind t \<noteq> kEnd \<Longrightarrow> remaining lx' < remaining lx" using n(6) p(5) by linarith
  show "lx_peeked lx \<Longrightarrow> t = lx_peek lx" using P by (auto simp: Peek_def)
qed

lemma runs_lexP:
  assumes "st_ok st" "\<And>x lx. f (ep_lexer st) = Ok (x, lx) \<Longrightarrow> lexer_ok lx \<and> remaining lx \<le> rem st \<and> Q x (st\<lparr>ep_lexer := lx\<rparr>)"
  shows "runs st (lexP f) st Q"
  using assms by (cases "f (ep_lexer st)") (auto simp: runs_def lexP_def st_ok_def ext_def outs_def)

lemma runs_peek:
  "st_ok st \<Longrightarrow> runs st (lexP Peek) st (\<lambda>t st'. ident_ok t \<and> lx_peeked (ep_lexer st') \<and> lx_peek (ep_lexer st') = t)"
  by (rule runs_lexP) (use Peek_lexer_ok in \<open>auto simp: st_ok_def\<close>)

lemma runs_consume:
  "st_ok st \<Longrightarrow> runs st (lexP Consume) st (\<lambda>t st'. ident_ok t \<and> (kind t \<noteq> kEnd \<longrightarrow> rem st' < rem st) \<and>
    (lx_peeked (ep_lexer st) \<longrightarrow> t = lx_peek (ep_lexer st)))"
  by (rule runs_lexP) (use Consume_lexer_ok in \<open>auto simp: st_ok_def\<close>)

lemma runs_at_end:
  "st_ok st \<Longrightarrow> runs st (lexP AtEnd) st (\<lambda>e st'. \<not> e \<longrightarrow> lx_peeked (ep_lexer st') \<and> kind (lx_peek (ep_lexer st')) \<noteq> kEnd)"
  by (rule runs_lexP) (use Peek_lexer_ok in \<open>auto simp: st_ok_def AtEnd_def ok_iff\<close>)

lemma runs_expect: "st_ok st \<Longrightarrow> runs st (expectP sy msg) st (\<lambda>_ _. True)"
proof -
  assume st: "st_ok st"
  have "lexer_ok lx \<and> remaining lx \<le> rem st" if ex: "ExpectSymbol sy msg (ep_lexer st) = Ok lx" for lx
  proof -
    obtain t u l1 where P: "Peek (ep_lexer st) = Ok (t, l1)" and N: "Next l1 = Ok (u, lx)"
      using ex by (auto simp: ExpectSymbol_def ok_iff split: if_splits)
    have "lexer_ok (ep_lexer st)" using st by (simp add: st_ok_def)
    note p = Peek_lexer_ok [OF P this]
    have inv: "lex_inv l1" using p(1) by (simp add: lexer_ok_def)
    show ?thesis using Next_ok [OF N inv] p(5) by (simp add: lexer_ok_def)
  qed
  then show ?thesis unfolding expectP_def [abs_def] by (intro runs_lexP [OF st]) (auto simp: ok_iff)
qed

lemma runs_temp:
  assumes "st_ok st" "ext b st"
  shows "runs b Temp st (\<lambda>out st'. pend b st' out \<and> ext st st')"
proof -
  let ?st = "st\<lparr>ep_tmp := Suc (ep_tmp st)\<rparr>"
  have "temp (ep_tmp st) \<notin> set (outs (ep_ops st))" using assms(1) temp_inj by (fastforce simp: st_ok_def)
  then have p: "pend b ?st (temp (ep_tmp st))" using assms(2) by (auto simp: pend_def ext_def)
  have e: "ext st ?st" by (simp add: ext_def outs_def)
  have "st_ok ?st" using assms(1) by (auto simp: st_ok_def less_Suc_eq)
  moreover have "Temp st = Some (Ok (temp (ep_tmp st), ?st))" by (simp add: Temp_def temp_def)
  ultimately show ?thesis using p e ext_trans [OF assms(2) e] by (simp add: runs_def)
qed

lemma runs_emit:
  assumes "st_ok st" "ext b st" "shape_ok spec" "list_all (name_ok st) (os_inputs spec)" "os_outputs spec = [out]"
    and "is_temp out \<Longrightarrow> pend b st out"
  shows "runs b (emitP spec) st (\<lambda>_ st'. (\<forall>n. name_ok st n \<longrightarrow> name_ok st' n) \<and> name_ok st' out)"
proof -
  let ?st = "st\<lparr>ep_ops := ep_ops st @ [spec]\<rparr>"
  have o: "outs (ep_ops ?st) = outs (ep_ops st) @ [out]" using assms(5) by (simp add: outs_def)
  have "straight_line [] (ep_ops ?st)"
    using assms by (auto simp: st_ok_def straight_line_snoc name_ok_def pend_def list_all_iff)
  moreover have "\<forall>n \<in> set (outs (ep_ops ?st)). is_temp n \<longrightarrow> (\<exists>k < ep_tmp st. n = temp k)"
    using assms(1,6) unfolding o by (auto simp: st_ok_def pend_def)
  ultimately have "st_ok ?st" using assms(1,3) by (simp add: st_ok_def)
  moreover have "ext b ?st"
  proof -
    obtain new where n: "ep_ops st = ep_ops b @ new" "\<forall>n \<in> set (outs new). is_temp n \<longrightarrow> (\<exists>k \<ge> ep_tmp b. n = temp k)"
      using assms(2) by (auto simp: ext_def)
    have "ep_ops ?st = ep_ops b @ (new @ [spec])" using n(1) by simp
    moreover have "\<forall>n \<in> set (outs (new @ [spec])). is_temp n \<longrightarrow> (\<exists>k \<ge> ep_tmp b. n = temp k)"
      using n(2) assms(5,6) by (auto simp: outs_def pend_def)
    ultimately show ?thesis using assms(2) unfolding ext_def by auto
  qed
  moreover have "outs [spec] = [out]" using assms(5) by (simp add: outs_def)
  ultimately show ?thesis by (auto simp: runs_def emitP_def name_ok_def)
qed

text \<open>Emitting one op into a fresh temporary.\<close>

lemma runs_emit_temp:
  assumes "st_ok st" "ext b st" "pend b st out" "shape_ok spec" "list_all (name_ok st) (os_inputs spec)" "os_outputs spec = [out]"
  shows "runs b (bindP (emitP spec) (\<lambda>_. returnP (f out))) st (\<lambda>x st'. x = f out \<and> name_ok st' out \<and> (\<forall>n. name_ok st n \<longrightarrow> name_ok st' n))"
  by (rule runs_bind [OF runs_emit [OF assms(1,2,4,5,6)]]) (use assms(3) in \<open>auto intro: runs_return\<close>)

text \<open>Which op the factory makes of each family of types.\<close>

abbreviation base_of :: "OpSpec \<Rightarrow> OpBase" where
  "base_of spec \<equiv> \<lparr>ob_type = os_type spec, ob_inputs = os_inputs spec, ob_outputs = os_outputs spec\<rparr>"

lemma create_arith:
  "os_type spec \<in> set [''add'', ''sub'', ''mul'', ''div''] \<Longrightarrow> \<exists>c. create_op spec = Ok (BinaryArithOp (base_of spec) c)"
  by (auto simp: create_op_def try_create_def create_binary_op_def Let_def)

lemma create_arith_scalar:
  "os_type spec \<in> set [''add_scalar'', ''sub_scalar'', ''mul_scalar'', ''div_scalar''] \<Longrightarrow>
    map_of (os_attrs spec) ''scalar'' = Some s \<Longrightarrow> str_stod s = Ok v \<Longrightarrow>
    \<exists>c. create_op spec = Ok (ScalarArithOp (base_of spec) c v)"
  by (auto simp: create_op_def try_create_def create_binary_op_def Let_def has_attr_def attrs_at_def ParseScalar_def)

lemma not_binary:
  "os_type spec \<in> set (''gt'' # ''ge'' # ''lt'' # ''le'' # ''eq'' # ''neq'' # ''gt_scalar'' # ''ge_scalar'' # ''lt_scalar'' #
      ''le_scalar'' # ''eq_scalar'' # ''neq_scalar'' # ''select'' # ''filter'' # ''dot'' # ''cast'' # ''const'' # ''identity'' # kUnary) \<Longrightarrow>
    create_binary_op spec = Ok None"
  unfolding kUnary_def list.set insert_iff empty_iff
  by (elim disjE FalseE) (simp_all add: create_binary_op_def Let_def)

lemma not_unary:
  "os_type spec \<in> set (''gt'' # ''ge'' # ''lt'' # ''le'' # ''eq'' # ''neq'' # ''gt_scalar'' # ''ge_scalar'' # ''lt_scalar'' #
      ''le_scalar'' # ''eq_scalar'' # ''neq_scalar'' # ''select'' # ''filter'' # ''dot'' # ''cast'' # ''const'' # ''identity'' #
      [''sum'', ''mean'', ''count'', ''max'', ''min'', ''stddev'', ''quantize'', ''dequantize'']) \<Longrightarrow>
    create_unary_op spec = Ok None"
  unfolding list.set insert_iff empty_iff
  by (elim disjE FalseE) (simp_all add: create_unary_op_def Let_def)

lemma not_reduce:
  "os_type spec \<in> set (''gt'' # ''ge'' # ''lt'' # ''le'' # ''eq'' # ''neq'' # ''gt_scalar'' # ''ge_scalar'' # ''lt_scalar'' #
      ''le_scalar'' # ''eq_scalar'' # ''neq_scalar'' # ''select'' # ''filter'' # ''dot'' # ''cast'' # ''const'' # ''identity'' #
      [''quantize'', ''dequantize'']) \<Longrightarrow>
    create_reduce_op spec = Ok None"
  unfolding list.set insert_iff empty_iff
  by (elim disjE FalseE) (simp_all add: create_reduce_op_def Let_def)

lemma not_compare:
  "os_type spec \<in> set (''select'' # ''filter'' # ''dot'' # ''cast'' # ''const'' # ''identity'' # [''quantize'', ''dequantize'']) \<Longrightarrow>
    create_compare_op spec = Ok None"
  unfolding list.set insert_iff empty_iff
  by (elim disjE FalseE) (simp_all add: create_compare_op_def Let_def)

lemma create_compare:
  assumes "os_type spec \<in> set [''gt'', ''ge'', ''lt'', ''le'', ''eq'', ''neq'']"
  shows "create_op spec = Ok (CompareOp (base_of spec) (os_type spec))"
proof -
  have "create_binary_op spec = Ok None" "create_unary_op spec = Ok None" "create_reduce_op spec = Ok None"
    by (rule not_binary not_unary not_reduce; use assms in auto)+
  then show ?thesis using assms by (simp add: create_op_def try_create_def create_compare_op_def Let_def)
qed

lemma create_compare_scalar:
  assumes "os_type spec \<in> set [''gt_scalar'', ''ge_scalar'', ''lt_scalar'', ''le_scalar'', ''eq_scalar'', ''neq_scalar'']"
    "map_of (os_attrs spec) ''scalar'' = Some s" "str_stod s = Ok v"
  shows "create_op spec = Ok (CompareScalarOp (base_of spec) (os_type spec) v)"
proof -
  have n: "create_binary_op spec = Ok None" "create_unary_op spec = Ok None" "create_reduce_op spec = Ok None"
    by (rule not_binary not_unary not_reduce; use assms(1) in auto)+
  have "os_type spec \<notin> set [''gt'', ''ge'', ''lt'', ''le'', ''eq'', ''neq'']" using assms(1) by auto
  then have "create_compare_op spec = Ok (Some (CompareScalarOp (base_of spec) (os_type spec) v))"
    using assms by (simp only: create_compare_op_def Let_def if_True if_False)
      (simp add: has_attr_def attrs_at_def ParseScalar_def)
  then show ?thesis using n by (simp add: create_op_def try_create_def)
qed

lemma create_unary:
  assumes "os_type spec \<in> set [''neg'', ''abs'', ''square'', ''sqrt'', ''exp'', ''log'']"
  shows "create_op spec = Ok (UnaryOp (base_of spec) (os_type spec))"
proof -
  have "create_binary_op spec = Ok None" by (rule not_binary) (use assms in \<open>auto simp: kUnary_def\<close>)
  then show ?thesis using assms by (simp add: create_op_def try_create_def create_unary_op_def Let_def)
qed

lemma create_reduce:
  assumes "os_type spec \<in> set [''sum'', ''mean'', ''count'', ''max'', ''min'', ''stddev'']"
  shows "create_op spec = Ok (ReduceOp (base_of spec) (os_type spec))"
proof -
  have "create_binary_op spec = Ok None" "create_unary_op spec = Ok None"
    by (rule not_binary not_unary; use assms in \<open>auto simp: kUnary_def\<close>)+
  then show ?thesis using assms by (simp add: create_op_def try_create_def create_reduce_op_def Let_def)
qed

lemma create_special:
  assumes "os_type spec \<in> set [''select'', ''filter'', ''dot'', ''cast'', ''const'', ''identity'', ''quantize'', ''dequantize'']"
    "create_special_op spec = Ok (Some op)"
  shows "create_op spec = Ok op"
proof -
  have "create_binary_op spec = Ok None" "create_unary_op spec = Ok None" "create_reduce_op spec = Ok None"
    "create_compare_op spec = Ok None"
    by (rule not_binary not_unary not_reduce not_compare; use assms(1) in \<open>auto simp: kUnary_def\<close>)+
  then show ?thesis using assms(2) by (simp add: create_op_def try_create_def)
qed

lemma shape_okI:
  assumes "create_op (spec\<lparr>os_attrs := [(''scalar'', ''1''), (''value'', ''1''), (''dtype'', ''float64'')]\<rparr>) = Ok op"
    "length (os_inputs spec) = op_arity op" "length (os_outputs spec) = 1"
  shows "shape_ok spec"
  using assms by (simp add: shape_ok_def)

lemma stod_one: "str_stod ''1'' = Ok (Fin 1)"
proof -
  have "int_to_string 1 = ''1''" by code_simp
  then show ?thesis using stod_int [of 1] by simp
qed

lemma arith_types:
  "ArithOp op \<in> set [''add'', ''sub'', ''mul'', ''div'']"
  "ArithOp op @ ''_scalar'' \<in> set [''add_scalar'', ''sub_scalar'', ''mul_scalar'', ''div_scalar'']"
  by (auto simp: ArithOp_def)

lemma cmp_types:
  "CmpOp op \<in> set [''gt'', ''ge'', ''lt'', ''le'', ''eq'', ''neq'']"
  "CmpOp op @ ''_scalar'' \<in> set [''gt_scalar'', ''ge_scalar'', ''lt_scalar'', ''le_scalar'', ''eq_scalar'', ''neq_scalar'']"
  by (auto simp: CmpOp_def)

lemma shape_ok_op2:
  assumes "t = ArithOp op \<or> t = CmpOp op"
  shows "shape_ok (op_spec t [n, m] [out] attrs)"
proof -
  let ?s = "op_spec t [n, m] [out] [(''scalar'', ''1''), (''value'', ''1''), (''dtype'', ''float64'')]"
  obtain o2 where "create_op ?s = Ok o2" "op_arity o2 = 2"
    using create_arith [of ?s] create_compare [of ?s] arith_types(1) [of op] cmp_types(1) [of op] assms by force
  then show ?thesis by (intro shape_okI [of _ o2]) simp_all
qed

lemma shape_ok_scalar:
  assumes "t = ArithOp op @ ''_scalar'' \<or> t = CmpOp op @ ''_scalar''"
  shows "shape_ok (op_spec t [n] [out] attrs)"
proof -
  let ?s = "op_spec t [n] [out] [(''scalar'', ''1''), (''value'', ''1''), (''dtype'', ''float64'')]"
  obtain o2 where "create_op ?s = Ok o2" "op_arity o2 = 1"
    using create_arith_scalar [of ?s "''1''"] create_compare_scalar [of ?s "''1''"] arith_types(2) [of op] cmp_types(2) [of op]
      assms stod_one by force
  then show ?thesis by (intro shape_okI [of _ o2]) simp_all
qed

lemma shape_ok_binary: "shape_ok (binary_spec a b op out)"
  using shape_ok_op2 [of _ op] shape_ok_scalar [of _ op]
  by (cases a; cases b) (simp_all add: binary_spec_def)

lemma shape_ok_const: "shape_ok (const_spec out x)"
  by (rule shape_okI, rule create_special) (simp_all add: const_spec_def create_special_op_def has_attr_def, simp)

lemma shape_ok_identity: "shape_ok (op_spec ''identity'' [n] [out] [])"
  by (rule shape_okI, rule create_special) (simp_all add: create_special_op_def, simp)

definition call_arity :: "string \<Rightarrow> nat" where
  "call_arity fn = (if fn = ''select'' then 3 else if fn = ''filter'' \<or> fn = ''dot'' then 2 else 1)"

lemma kUnary_cases:
  "fn \<in> set kUnary \<longleftrightarrow> fn \<in> set [''neg'', ''abs'', ''square'', ''sqrt'', ''exp'', ''log'']
    \<or> fn \<in> set [''sum'', ''mean'', ''count'', ''max'', ''min'', ''stddev''] \<or> fn = ''quantize'' \<or> fn = ''dequantize''"
proof -
  have "set kUnary = set [''neg'', ''abs'', ''square'', ''sqrt'', ''exp'', ''log'']
      \<union> (set [''sum'', ''mean'', ''count'', ''max'', ''min'', ''stddev''] \<union> {''quantize'', ''dequantize''})" by code_simp
  then show ?thesis by blast
qed

lemma shape_ok_call:
  assumes "fn \<in> set (''select'' # ''filter'' # ''dot'' # ''cast'' # kUnary)" "length ns = call_arity fn"
  shows "shape_ok (op_spec fn ns [out] attrs)"
proof -
  let ?s = "op_spec fn ns [out] [(''scalar'', ''1''), (''value'', ''1''), (''dtype'', ''float64'')]"
  have d: "parse_dtype ''float64'' = Ok kFloat64" by (simp add: parse_dtype_def)
  have fn: "fn = ''select'' \<or> fn = ''filter'' \<or> fn = ''dot'' \<or> fn = ''cast'' \<or> fn \<in> set kUnary"
    using assms(1) by (simp only: list.set insert_iff)
  have sp: "shape_ok (op_spec fn ns [out] attrs)"
    if "fn \<in> set [''select'', ''filter'', ''dot'', ''cast'', ''const'', ''identity'', ''quantize'', ''dequantize'']"
      "create_special_op ?s = Ok (Some op)" "length ns = op_arity op" for op
    using create_special [of ?s op] that by (simp add: shape_ok_def)
  note ar = call_arity_def
  from fn [unfolded kUnary_cases] show ?thesis
  proof (elim disjE)
    assume f: "fn \<in> set [''neg'', ''abs'', ''square'', ''sqrt'', ''exp'', ''log'']"
    then have "length ns = 1" using assms(2) by (auto simp: call_arity_def)
    then show ?thesis using create_unary [of ?s] f by (simp add: shape_ok_def)
  next
    assume f: "fn \<in> set [''sum'', ''mean'', ''count'', ''max'', ''min'', ''stddev'']"
    then have "length ns = 1" using assms(2) by (auto simp: call_arity_def)
    then show ?thesis using create_reduce [of ?s] f by (simp add: shape_ok_def)
  next
    assume "fn = ''select''"
    then show ?thesis using assms(2) by (intro sp [of "SelectOp (base_of ?s)"]) (simp_all add: ar create_special_op_def has_attr_def attrs_at_def d)
  next
    assume "fn = ''filter''"
    then show ?thesis using assms(2) by (intro sp [of "FilterOp (base_of ?s)"]) (simp_all add: ar create_special_op_def has_attr_def attrs_at_def d)
  next
    assume "fn = ''dot''"
    then show ?thesis using assms(2) by (intro sp [of "DotQ8Op (base_of ?s)"]) (simp_all add: ar create_special_op_def has_attr_def attrs_at_def d)
  next
    assume "fn = ''cast''"
    then show ?thesis using assms(2) by (intro sp [of "CastOp (base_of ?s) kFloat64"]) (simp_all add: ar create_special_op_def has_attr_def attrs_at_def d)
  next
    assume "fn = ''quantize''"
    then show ?thesis using assms(2) by (intro sp [of "QuantizeOp (base_of ?s)"]) (simp_all add: ar create_special_op_def has_attr_def attrs_at_def d)
  next
    assume "fn = ''dequantize''"
    then show ?thesis using assms(2) by (intro sp [of "DequantizeOp (base_of ?s)"]) (simp_all add: ar create_special_op_def has_attr_def attrs_at_def d)
  qed
qed

lemma runs_MakeBinary:
  assumes "st_ok st" "value_ok st x" "value_ok st y"
  shows "runs st (MakeBinary x y op) st (\<lambda>v st'. value_ok st' v)"
proof (cases "case (x, y) of (Lit u, Lit w) \<Rightarrow> fold_constant op u w | _ \<Rightarrow> None")
  case (Some v)
  then show ?thesis using assms(1) by (auto simp: MakeBinary_def intro: runs_return)
next
  case None
  have "list_all (name_ok st') (os_inputs (binary_spec x y op out))" if "ext st st'" for out st'
    using ext_value [OF that assms(2)] ext_value [OF that assms(3)]
    by (cases x; cases y) (auto simp: binary_spec_def Let_def name_ok_def is_temp_def)
  moreover have "os_outputs (binary_spec x y op out) = [out]" for out
    by (auto simp: binary_spec_def Let_def split: Value.split)
  ultimately have "runs st (bindP (emitP (binary_spec x y op out)) (\<lambda>_. returnP (Named out))) st' (\<lambda>v st'. value_ok st' v)"
    if "st_ok st'" "ext st st'" "pend st st' out" for st' out
    using runs_emit_temp [OF that shape_ok_binary, of x y op, where f = Named] that(2)
    by (auto simp: runs_def split: option.splits sum.splits)
  then show ?thesis unfolding MakeBinary_def None option.case
    by (intro runs_bind [OF runs_temp [OF assms(1) ext_refl]]) auto
qed

lemma runs_materialize:
  assumes "st_ok st" "value_ok st v"
  shows "runs st (materialize v) st (\<lambda>n st'. name_ok st' n)"
proof (cases v)
  case (Named n)
  then show ?thesis using assms by (simp add: materialize_def runs_return)
next
  case (Lit x)
  have "runs st (bindP (emitP (const_spec c x)) (\<lambda>_. returnP c)) st' (\<lambda>n st'. name_ok st' n)"
    if "st_ok st'" "ext st st'" "pend st st' c" for st' c
    using runs_emit_temp [OF that shape_ok_const, where x1 = x and f = "\<lambda>n. n"]
    by (auto simp: runs_def const_spec_def split: option.splits sum.splits)
  then show ?thesis unfolding materialize_def Lit Value.case
    by (intro runs_bind [OF runs_temp [OF assms(1) ext_refl]]) auto
qed

lemma runs_materialize_all:
  "st_ok st \<Longrightarrow> list_all (value_ok st) vs \<Longrightarrow>
    runs st (materialize_all vs) st (\<lambda>ns st'. length ns = length vs \<and> list_all (name_ok st') ns)"
proof (induction vs arbitrary: st)
  case (Cons v vs)
  have v: "runs st (materialize v) st (\<lambda>n st'. name_ok st' n)" using runs_materialize Cons.prems by simp
  show ?case unfolding materialize_all.simps
  proof (rule runs_call [OF ext_refl v])
    fix n st1 assume 1: "st_ok st1" "ext st st1" "name_ok st1 n"
    then have "list_all (value_ok st1) vs" using Cons.prems(2) ext_value by (auto simp: list_all_iff)
    then show "runs st (bindP (materialize_all vs) (\<lambda>ns. returnP (n # ns))) st1
        (\<lambda>ns st'. length ns = length (v # vs) \<and> list_all (name_ok st') ns)"
      by (rule runs_call [OF 1(2) Cons.IH [OF 1(1)]]) (use 1(3) ext_name in \<open>auto intro!: runs_return\<close>)
  qed
qed (simp add: runs_return)

lemma runs_emit_call:
  assumes "st_ok st" "ext b st" "pend b st out" "list_all (value_ok st) args"
    and fn: "fn \<in> set (''select'' # ''filter'' # ''dot'' # ''cast'' # kUnary)" "length args = call_arity fn"
  shows "runs b (emit_call fn args attrs out) st (\<lambda>v st'. value_ok st' v)"
  unfolding emit_call_def
proof (rule runs_call [OF assms(2) runs_materialize_all [OF assms(1,4)]])
  fix ns st1
  assume 1: "st_ok st1" "ext b st1" "ext st st1" "length ns = length args \<and> list_all (name_ok st1) ns"
  have p: "pend b st1 out" by (rule ext_pend [OF 1(3) assms(3)])
  have "shape_ok (op_spec fn ns [out] attrs)" by (rule shape_ok_call [OF fn(1)]) (use 1(4) fn(2) in simp)
  from runs_emit_temp [OF 1(1,2) p this, where f = Named]
  show "runs b (bindP (emitP (op_spec fn ns [out] attrs)) (\<lambda>_. returnP (Named out))) st1 (\<lambda>v st'. value_ok st' v)"
    using 1(4) by (auto simp: runs_def split: option.splits sum.splits)
qed

lemma runs_Assign:
  assumes "st_ok st" "value_ok st v" "\<not> is_temp lhs"
  shows "runs st (Assign lhs v) st (\<lambda>_ _. True)"
proof (cases v)
  case (Lit x)
  show ?thesis unfolding Assign_def Lit Value.case
    by (rule runs_last [OF ext_refl runs_emit [OF assms(1) ext_refl shape_ok_const]])
      (use assms(3) in \<open>auto simp: const_spec_def\<close>)
next
  case (Named n)
  show ?thesis
  proof (cases "n = lhs")
    case True
    then show ?thesis using assms(1) by (simp add: Assign_def Named runs_return)
  next
    case False
    have "runs st (emitP (op_spec ''identity'' [n] [lhs] [])) st (\<lambda>_ _. True)"
      by (rule runs_last [OF ext_refl runs_emit [OF assms(1) ext_refl shape_ok_identity]])
        (use assms Named in auto)
    then show ?thesis using False by (simp add: Assign_def Named)
  qed
qed

definition emit_neg :: "string \<Rightarrow> Value parser" where
  "emit_neg m = bindP Temp (\<lambda>out. bindP (emitP (op_spec ''neg'' [m] [out] [])) (\<lambda>_. returnP (Named out)))"

lemma runs_emit_neg:
  assumes "st_ok st" "name_ok st m"
  shows "runs st (emit_neg m) st (\<lambda>v st'. value_ok st' v)"
proof -
  have "shape_ok (op_spec ''neg'' [m] [out] [])" for out
    by (rule shape_ok_call) (simp_all add: kUnary_def call_arity_def)
  note em = runs_emit_temp [OF _ _ _ this, where f = Named]
  have "runs st (bindP (emitP (op_spec ''neg'' [m] [out] [])) (\<lambda>_. returnP (Named out))) st' (\<lambda>v st'. value_ok st' v)"
    if "st_ok st'" "ext st st'" "pend st st' out" for st' out
    using em [OF that] ext_name [OF that(2) assms(2)] by (auto simp: runs_def split: option.splits sum.splits)
  then show ?thesis unfolding emit_neg_def
    by (intro runs_bind [OF runs_temp [OF assms(1) ext_refl]]) auto
qed

section \<open>The recursive parser\<close>

definition expr_ok :: "nat \<Rightarrow> bool" where
  "expr_ok n = (\<forall>st p. st_ok st \<longrightarrow> 4 * rem st + 1 < n \<longrightarrow>
     runs st (ParseExpr n p) st (\<lambda>v st'. value_ok st' v \<and> rem st' < rem st))"

definition loop_ok :: "nat \<Rightarrow> bool" where
  "loop_ok n = (\<forall>st p l. st_ok st \<longrightarrow> value_ok st l \<longrightarrow> 4 * rem st < n \<longrightarrow>
     runs st (expr_loop n p l) st (\<lambda>v st'. value_ok st' v))"

definition primary_ok :: "nat \<Rightarrow> bool" where
  "primary_ok n = (\<forall>st. st_ok st \<longrightarrow> 4 * rem st < n \<longrightarrow>
     runs st (ParsePrimary n) st (\<lambda>v st'. value_ok st' v \<and> rem st' < rem st))"

definition call_ok :: "nat \<Rightarrow> bool" where
  "call_ok n = (\<forall>st fn. st_ok st \<longrightarrow> 4 * rem st + 2 < n \<longrightarrow>
     runs st (ParseCall n fn) st (\<lambda>v st'. value_ok st' v))"

lemma expr_ok_step:
  assumes "primary_ok n" "loop_ok n"
  shows "expr_ok (Suc n)"
  unfolding expr_ok_def ParseExpr.simps
proof (intro allI impI)
  fix st p assume st: "st_ok st" and f: "4 * rem st + 1 < Suc n"
  have pr: "runs st (ParsePrimary n) st (\<lambda>v st'. value_ok st' v \<and> rem st' < rem st)"
    using assms(1) st f by (simp add: primary_ok_def)
  show "runs st (bindP (ParsePrimary n) (expr_loop n p)) st (\<lambda>v st'. value_ok st' v \<and> rem st' < rem st)"
  proof (rule runs_call [OF ext_refl pr])
    fix v st1 assume 1: "st_ok st1" "ext st st1" "value_ok st1 v \<and> rem st1 < rem st"
    have "runs st1 (expr_loop n p v) st1 (\<lambda>v st'. value_ok st' v)"
      using assms(2) 1 f by (simp add: loop_ok_def)
    then show "runs st (expr_loop n p v) st1 (\<lambda>v st'. value_ok st' v \<and> rem st' < rem st)"
      by (rule runs_last [OF 1(2)]) (use 1(3) ext_rem in fastforce)
  qed
qed

lemma loop_ok_step:
  assumes e: "expr_ok n" and l: "loop_ok n"
  shows "loop_ok (Suc n)"
  unfolding loop_ok_def expr_loop.simps
proof (intro allI impI)
  fix st p left assume st: "st_ok st" "value_ok st left" and f: "4 * rem st < Suc n"
  show "runs st (bindP (lexP Peek) (\<lambda>t. if kind t \<noteq> kSymbol \<or> Precedence (ttext t) < p then returnP left
      else bindP (lexP Consume) (\<lambda>_. bindP (ParseExpr n (Precedence (ttext t) + 1)) (\<lambda>right.
        bindP (MakeBinary left right (ttext t)) (expr_loop n p))))) st (\<lambda>v st'. value_ok st' v)"
  proof (rule runs_call [OF ext_refl runs_peek [OF st(1)]])
    fix t st1 assume 1: "st_ok st1" "ext st st1"
      "ident_ok t \<and> lx_peeked (ep_lexer st1) \<and> lx_peek (ep_lexer st1) = t"
    note v1 = ext_value [OF 1(2) st(2)]
    show "runs st (if kind t \<noteq> kSymbol \<or> Precedence (ttext t) < p then returnP left
      else bindP (lexP Consume) (\<lambda>_. bindP (ParseExpr n (Precedence (ttext t) + 1)) (\<lambda>right.
        bindP (MakeBinary left right (ttext t)) (expr_loop n p)))) st1 (\<lambda>v st'. value_ok st' v)"
    proof (cases "kind t \<noteq> kSymbol \<or> Precedence (ttext t) < p")
      case True
      then show ?thesis using 1 v1 by (simp add: runs_return)
    next
      case False
      have "runs st (bindP (lexP Consume) (\<lambda>_. bindP (ParseExpr n (Precedence (ttext t) + 1)) (\<lambda>right.
        bindP (MakeBinary left right (ttext t)) (expr_loop n p)))) st1 (\<lambda>v st'. value_ok st' v)"
      proof (rule runs_call [OF 1(2) runs_consume [OF 1(1)]])
        fix u st2 assume 2: "st_ok st2" "ext st st2" "ext st1 st2" "ident_ok u \<and> (kind u \<noteq> kEnd \<longrightarrow> rem st2 < rem st1) \<and>
          (lx_peeked (ep_lexer st1) \<longrightarrow> u = lx_peek (ep_lexer st1))"
        have r2: "rem st2 < rem st" using 2(4) 1(3) False ext_rem [OF 1(2)] by auto
        have ex: "runs st2 (ParseExpr n (Precedence (ttext t) + 1)) st2 (\<lambda>v st'. value_ok st' v \<and> rem st' < rem st2)"
          using e 2(1) r2 f by (simp add: expr_ok_def)
        show "runs st (bindP (ParseExpr n (Precedence (ttext t) + 1)) (\<lambda>right.
          bindP (MakeBinary left right (ttext t)) (expr_loop n p))) st2 (\<lambda>v st'. value_ok st' v)"
        proof (rule runs_call [OF 2(2) ex])
          fix w st3 assume 3: "st_ok st3" "ext st st3" "ext st2 st3" "value_ok st3 w \<and> rem st3 < rem st2"
          have v3: "value_ok st3 left" using ext_value [OF 3(3) ext_value [OF 2(3) v1]] .
          show "runs st (bindP (MakeBinary left w (ttext t)) (expr_loop n p)) st3 (\<lambda>v st'. value_ok st' v)"
          proof (rule runs_call [OF 3(2) runs_MakeBinary [OF 3(1) v3]])
            fix x st4 assume 4: "st_ok st4" "ext st st4" "ext st3 st4" "value_ok st4 x"
            have "4 * rem st4 < n" using ext_rem [OF 4(3)] 3(4) r2 f by linarith
            then have "runs st4 (expr_loop n p x) st4 (\<lambda>v st'. value_ok st' v)" using l 4 by (simp add: loop_ok_def)
            then show "runs st (expr_loop n p x) st4 (\<lambda>v st'. value_ok st' v)" by (rule runs_last [OF 4(2)])
          qed (use 3(4) in simp)
        qed
      qed
      then show ?thesis using False by simp
    qed
  qed
qed

lemma primary_ident:
  assumes c: "call_ok n" and f: "4 * rem st < Suc n" and 1: "st_ok st1" "ext st st1" "rem st1 < rem st"
    and t: "ident_ok t" "kind t = kIdent"
  shows "runs st (bindP (lexP Peek) (\<lambda>p. if kind p = kSymbol \<and> ttext p = ''('' then
      bindP (lexP Consume) (\<lambda>_. ParseCall n (ttext t)) else returnP (Named (ttext t)))) st1
      (\<lambda>v st'. value_ok st' v \<and> rem st' < rem st)" (is "runs st _ st1 ?Q")
proof (rule runs_call [OF 1(2) runs_peek [OF 1(1)]])
  fix p st2 assume 2: "st_ok st2" "ext st st2" "ext st1 st2"
    "ident_ok p \<and> lx_peeked (ep_lexer st2) \<and> lx_peek (ep_lexer st2) = p"
  have "name_ok st2 (ttext t)" using t by (simp add: ident_ok_def name_ok_def)
  then have ret: "runs st (returnP (Named (ttext t))) st2 ?Q"
    using 2 1(3) ext_rem [OF 2(3)] by (intro runs_return) auto
  have "runs st (bindP (lexP Consume) (\<lambda>_. ParseCall n (ttext t))) st2 ?Q" if p: "kind p = kSymbol"
  proof (rule runs_call [OF 2(2) runs_consume [OF 2(1)]])
    fix u st3 assume 3: "st_ok st3" "ext st st3" "ext st2 st3" "ident_ok u \<and> (kind u \<noteq> kEnd \<longrightarrow> rem st3 < rem st2) \<and>
      (lx_peeked (ep_lexer st2) \<longrightarrow> u = lx_peek (ep_lexer st2))"
    have r3: "Suc (rem st3) < rem st" using 3(4) 2(4) p ext_rem [OF 2(3)] 1(3) by auto
    then have "runs st3 (ParseCall n (ttext t)) st3 (\<lambda>v st'. value_ok st' v)"
      using c 3(1) f by (simp add: call_ok_def)
    then show "runs st (ParseCall n (ttext t)) st3 ?Q"
      by (rule runs_last [OF 3(2)]) (use r3 ext_rem in fastforce)
  qed
  then show "runs st (if kind p = kSymbol \<and> ttext p = ''('' then
    bindP (lexP Consume) (\<lambda>_. ParseCall n (ttext t)) else returnP (Named (ttext t))) st2 ?Q"
    using ret by simp
qed

lemma primary_neg:
  assumes pr: "primary_ok n" and f: "4 * rem st < Suc n" and 1: "st_ok st1" "ext st st1" "rem st1 < rem st"
  shows "runs st (bindP (ParsePrimary n) (\<lambda>v. case v of Lit x \<Rightarrow> returnP (Lit (fneg x))
      | Named m \<Rightarrow> bindP Temp (\<lambda>out. bindP (emitP (op_spec ''neg'' [m] [out] [])) (\<lambda>_. returnP (Named out))))) st1
      (\<lambda>v st'. value_ok st' v \<and> rem st' < rem st)" (is "runs st _ st1 ?Q")
proof -
  have pp: "runs st1 (ParsePrimary n) st1 (\<lambda>v st'. value_ok st' v \<and> rem st' < rem st1)"
    using pr 1 f by (simp add: primary_ok_def)
  show ?thesis
  proof (rule runs_call [OF 1(2) pp])
    fix v st2 assume 2: "st_ok st2" "ext st st2" "value_ok st2 v \<and> rem st2 < rem st1"
    show "runs st (case v of Lit x \<Rightarrow> returnP (Lit (fneg x))
      | Named m \<Rightarrow> bindP Temp (\<lambda>out. bindP (emitP (op_spec ''neg'' [m] [out] [])) (\<lambda>_. returnP (Named out)))) st2 ?Q"
    proof (cases v)
      case (Lit x)
      then show ?thesis using 2 1(3) by (simp add: runs_return)
    next
      case (Named m)
      have "runs st2 (emit_neg m) st2 (\<lambda>v st'. value_ok st' v)" by (rule runs_emit_neg) (use 2 Named in auto)
      from runs_last [OF 2(2) this, of ?Q] show ?thesis
        using 2(3) 1(3) ext_rem [of st2] unfolding Named Value.case emit_neg_def by fastforce
    qed
  qed
qed

lemma primary_paren:
  assumes e: "expr_ok n" and f: "4 * rem st < Suc n" and 1: "st_ok st1" "ext st st1" "rem st1 < rem st"
  shows "runs st (bindP (ParseExpr n 0) (\<lambda>v. bindP close_paren (\<lambda>_. returnP v))) st1
      (\<lambda>v st'. value_ok st' v \<and> rem st' < rem st)" (is "runs st _ st1 ?Q")
proof -
  have pe: "runs st1 (ParseExpr n 0) st1 (\<lambda>v st'. value_ok st' v \<and> rem st' < rem st1)"
    using e 1 f by (simp add: expr_ok_def)
  show ?thesis
  proof (rule runs_call [OF 1(2) pe])
    fix v st2 assume 2: "st_ok st2" "ext st st2" "value_ok st2 v \<and> rem st2 < rem st1"
    show "runs st (bindP close_paren (\<lambda>_. returnP v)) st2 ?Q"
      unfolding close_paren_def
      by (rule runs_call [OF 2(2) runs_expect [OF 2(1)]])
        (use 2(3) 1(3) ext_rem ext_value in \<open>fastforce intro!: runs_return\<close>)
  qed
qed

lemma primary_ok_step:
  assumes e: "expr_ok n" and pr: "primary_ok n" and c: "call_ok n"
  shows "primary_ok (Suc n)"
  unfolding primary_ok_def ParsePrimary.simps
proof (intro allI impI, rule runs_call [OF ext_refl runs_consume], assumption, goal_cases)
  case (1 st t st1)
  have r: "kind t \<noteq> kEnd \<Longrightarrow> rem st1 < rem st" "ident_ok t" using 1(6) by auto
  consider (num) "kind t = kNumber" | (id) "kind t = kIdent" | (neg) "kind t = kSymbol" "ttext t = ''-''"
    | (par) "kind t = kSymbol" "ttext t = ''(''"
    | (other) "kind t \<noteq> kNumber" "kind t \<noteq> kIdent" "\<not> (kind t = kSymbol \<and> (ttext t = ''-'' \<or> ttext t = ''(''))"
    by (cases "kind t") auto
  then show ?case
  proof cases
    case num
    then show ?thesis using 1 by (simp add: runs_return)
  next
    case id
    then show ?thesis using primary_ident [OF c 1(2,3,4) _ r(2)] r(1) by simp
  next
    case neg
    then show ?thesis using primary_neg [OF pr 1(2,3,4)] r(1) by simp
  next
    case par
    then show ?thesis using primary_paren [OF e 1(2,3,4)] r(1) by simp
  qed (auto simp: runs_fail)
qed

text \<open>An argument of a call, the separator after it, and what follows.\<close>

lemma runs_argument:
  assumes e: "expr_ok n" and f: "4 * rem st + 1 < n" and st: "st_ok st" "ext b st"
    and k: "\<And>v st'. st_ok st' \<Longrightarrow> ext b st' \<Longrightarrow> ext st st' \<Longrightarrow> value_ok st' v \<Longrightarrow> runs b (f v) st' Q"
  shows "runs b (bindP (ParseExpr n 0) (\<lambda>v. bindP (expectP sy msg) (\<lambda>_. f v))) st Q"
proof -
  have pe: "runs st (ParseExpr n 0) st (\<lambda>v st'. value_ok st' v \<and> rem st' < rem st)"
    using e st f by (simp add: expr_ok_def)
  show ?thesis
  proof (rule runs_call [OF st(2) pe])
    fix v st1 assume 1: "st_ok st1" "ext b st1" "ext st st1" "value_ok st1 v \<and> rem st1 < rem st"
    show "runs b (bindP (expectP sy msg) (\<lambda>_. f v)) st1 Q"
      by (rule runs_call [OF 1(2) runs_expect [OF 1(1)]]) (use k 1(3,4) ext_trans ext_value in blast)
  qed
qed

lemma call_ok_step:
  assumes e: "expr_ok n"
  shows "call_ok (Suc n)"
  unfolding call_ok_def ParseCall.simps comma_def close_paren_def
proof (intro allI impI, rule runs_bind [OF runs_temp [OF _ ext_refl]], assumption, goal_cases)
  case (1 st fn out st1)
  have f: "4 * rem st1 + 1 < n" and p: "pend st st1 out" using 1(2,5) ext_rem [of st st1] by auto
  have fuel: "4 * rem st2 + 1 < n" if "ext st1 st2" for st2 using f ext_rem [OF that] by linarith
  note arg = runs_argument [OF e]
  note emit = runs_emit_call [OF _ _ ext_pend [OF _ p]]
  have un: "call_arity fn = 1" if "fn \<in> set kUnary" using that by (auto simp: kUnary_def call_arity_def)
  consider (three) "fn = ''select''" | (two) "fn = ''filter'' \<or> fn = ''dot''" | (cast) "fn = ''cast''"
    | (one) "fn \<notin> set [''select'', ''filter'', ''dot'', ''cast'']" "fn \<in> set kUnary"
    | (unknown) "fn \<notin> set [''select'', ''filter'', ''dot'', ''cast'']" "fn \<notin> set kUnary"
    by (simp only: list.set insert_iff empty_iff) blast
  then show ?case
  proof cases
    case three
    then show ?thesis
      by (auto intro!: arg 1(3,4) f emit intro: ext_trans fuel simp: call_arity_def) (blast intro: ext_value ext_trans)+
  next
    case two
    then show ?thesis
      by (auto intro!: arg 1(3,4) f emit intro: ext_trans fuel simp: call_arity_def) (blast intro: ext_value ext_trans)+
  next
    case cast
    have "runs st (bindP (ParseExpr n 0) (\<lambda>a. bindP (expectP '','' (quoted '','')) (\<lambda>_. bindP (lexP Consume) (\<lambda>dtype.
        if kind dtype \<noteq> kIdent then failP ''dsl: cast expects a dtype name''
        else bindP (expectP '')'' (quoted '')'')) (\<lambda>_. emit_call fn [a] [(''dtype'', ttext dtype)] out))))) st1
        (\<lambda>v st'. value_ok st' v)"
    proof (rule arg [OF f 1(3,4)])
      fix a st2 assume 2: "st_ok st2" "ext st st2" "ext st1 st2" "value_ok st2 a"
      show "runs st (bindP (lexP Consume) (\<lambda>dtype. if kind dtype \<noteq> kIdent then failP ''dsl: cast expects a dtype name''
        else bindP (expectP '')'' (quoted '')'')) (\<lambda>_. emit_call fn [a] [(''dtype'', ttext dtype)] out))) st2
        (\<lambda>v st'. value_ok st' v)"
      proof (rule runs_call [OF 2(2) runs_consume [OF 2(1)]])
        fix d st3 assume 3: "st_ok st3" "ext st st3" "ext st2 st3"
        have "runs st (bindP (expectP '')'' (quoted '')'')) (\<lambda>_. emit_call fn [a] [(''dtype'', ttext d)] out)) st3
            (\<lambda>v st'. value_ok st' v)"
        proof (rule runs_call [OF 3(2) runs_expect [OF 3(1)]])
          fix x st4 assume 4: "st_ok st4" "ext st st4" "ext st3 st4"
          have "ext st2 st4" "ext st1 st4" using 2(3) 3(3) 4(3) by (blast intro: ext_trans)+
          then show "runs st (emit_call fn [a] [(''dtype'', ttext d)] out) st4 (\<lambda>v st'. value_ok st' v)"
            using 2(4) cast by (intro emit 4(1,2)) (auto simp: call_arity_def intro: ext_value)
        qed
        then show "runs st (if kind d \<noteq> kIdent then failP ''dsl: cast expects a dtype name''
          else bindP (expectP '')'' (quoted '')'')) (\<lambda>_. emit_call fn [a] [(''dtype'', ttext d)] out)) st3
          (\<lambda>v st'. value_ok st' v)" by (simp add: runs_fail)
      qed
    qed
    then show ?thesis using cast by simp
  next
    case one
    have "runs st (bindP (ParseExpr n 0) (\<lambda>a. bindP (expectP '')'' (quoted '')'')) (\<lambda>_. emit_call fn [a] [] out))) st1
        (\<lambda>v st'. value_ok st' v)"
      by (rule arg [OF f 1(3,4)], rule emit) (use one un in auto)
    then show ?thesis using one by simp
  qed (simp add: runs_fail)
qed

lemma parsers_ok: "expr_ok n \<and> loop_ok n \<and> primary_ok n \<and> call_ok n"
proof (induction n)
  case 0
  then show ?case by (simp add: expr_ok_def loop_ok_def primary_ok_def call_ok_def)
next
  case (Suc n)
  then show ?case using expr_ok_step loop_ok_step primary_ok_step call_ok_step by blast
qed

lemma runs_ParseStatement:
  assumes "st_ok st" "4 * rem st + 1 < n" "lx_peeked (ep_lexer st)" "kind (lx_peek (ep_lexer st)) \<noteq> kEnd"
  shows "runs st (ParseStatement n) st (\<lambda>_ st'. rem st' < rem st)"
  unfolding ParseStatement_def
proof (rule runs_call [OF ext_refl runs_consume [OF assms(1)]])
  fix t st1 assume 1: "st_ok st1" "ext st st1" "ident_ok t \<and> (kind t \<noteq> kEnd \<longrightarrow> rem st1 < rem st) \<and>
    (lx_peeked (ep_lexer st) \<longrightarrow> t = lx_peek (ep_lexer st))"
  have r: "rem st1 < rem st" using 1(3) assms(3,4) by auto
  have "runs st (bindP (expectP ''='' (quoted ''='')) (\<lambda>_. bindP (ParseExpr n 0) (Assign (ttext t)))) st1
      (\<lambda>_ st'. rem st' < rem st)" if k: "kind t = kIdent"
  proof (rule runs_call [OF 1(2) runs_expect [OF 1(1)]])
    fix x st2 assume 2: "st_ok st2" "ext st st2" "ext st1 st2"
    have pe: "runs st2 (ParseExpr n 0) st2 (\<lambda>v st'. value_ok st' v \<and> rem st' < rem st2)"
      using parsers_ok [of n] 2(1) assms(2) r ext_rem [OF 2(3)] by (simp add: expr_ok_def)
    show "runs st (bindP (ParseExpr n 0) (Assign (ttext t))) st2 (\<lambda>_ st'. rem st' < rem st)"
    proof (rule runs_call [OF 2(2) pe])
      fix v st3 assume 3: "st_ok st3" "ext st st3" "ext st2 st3" "value_ok st3 v \<and> rem st3 < rem st2"
      have "runs st3 (Assign (ttext t) v) st3 (\<lambda>_ _. True)"
        by (rule runs_Assign) (use 3 1(3) k in \<open>auto simp: ident_ok_def\<close>)
      then show "runs st (Assign (ttext t) v) st3 (\<lambda>_ st'. rem st' < rem st)"
        by (rule runs_last [OF 3(2)]) (use 3(4) r ext_rem [OF 2(3)] ext_rem in fastforce)
    qed
  qed
  then show "runs st (if kind t \<noteq> kIdent then failP ''dsl: statement must start with an identifier''
      else bindP (expectP ''='' (quoted ''='')) (\<lambda>_. bindP (ParseExpr n 0) (Assign (ttext t)))) st1
      (\<lambda>_ st'. rem st' < rem st)" by (simp add: runs_fail)
qed

lemma runs_Parse:
  "st_ok st \<Longrightarrow> 4 * rem st + 1 < n \<Longrightarrow> rem st < k \<Longrightarrow> runs st (Parse n k) st (\<lambda>_ _. True)"
proof (induction k arbitrary: st)
  case (Suc k)
  show ?case unfolding Parse.simps
  proof (rule runs_call [OF ext_refl runs_at_end [OF Suc.prems(1)]])
    fix e st1 assume 1: "st_ok st1" "ext st st1"
      "\<not> e \<longrightarrow> lx_peeked (ep_lexer st1) \<and> kind (lx_peek (ep_lexer st1)) \<noteq> kEnd"
    note r1 = ext_rem [OF 1(2)]
    have "runs st (bindP (ParseStatement n) (\<lambda>_. Parse n k)) st1 (\<lambda>_ _. True)" if "\<not> e"
    proof (rule runs_call [OF 1(2) runs_ParseStatement [OF 1(1)]])
      fix x st2 assume 2: "st_ok st2" "ext st st2" "rem st2 < rem st1"
      then show "runs st (Parse n k) st2 (\<lambda>_ _. True)"
        using Suc.IH [OF 2(1)] Suc.prems(2,3) r1 by (intro runs_last [OF 2(2)]) auto
    qed (use 1(3) that Suc.prems(2) r1 in auto)
    then show "runs st (if e then returnP () else bindP (ParseStatement n) (\<lambda>_. Parse n k)) st1 (\<lambda>_ _. True)"
      using 1 by (simp add: runs_return)
  qed
qed simp

section \<open>Property\<close>

text \<open>C27. Parsing any source ends, with a syntax error or a list of ops; the ops are straight-line code in which every
  temporary is written once and read only after it has been written, and every op is one the op factory knows,
  with as many inputs as that op takes and one output.\<close>

theorem parse_straight_line:
  "case parse src of
     None \<Rightarrow> False
   | Some (Inl e) \<Rightarrow> True
   | Some (Inr ops) \<Rightarrow> straight_line [] ops \<and> list_all shape_ok ops"
proof -
  let ?st = "ExprParser_new src"
  have "lex_inv (ep_lexer ?st)"
    unfolding ExprParser_new_def by (simp, rule lex_inv_new) (simp add: multi_ok_def NL_def)
  then have st: "st_ok ?st" by (simp add: st_ok_def lexer_ok_def ExprParser_new_def Lexer_new_def outs_def)
  have "rem ?st = length src" by (simp add: remaining_def ExprParser_new_def Lexer_new_def)
  then have "runs ?st (Parse (parse_fuel src) (Suc (length src))) ?st (\<lambda>_ _. True)"
    by (intro runs_Parse [OF st]) (simp_all add: parse_fuel_def)
  then show ?thesis by (auto simp: runs_def parse_def st_ok_def split: option.splits sum.splits)
qed

section \<open>Literals\<close>

text \<open>A literal on the left of an operator that does not commute ends up on the right.\<close>

lemma literal_left_swapped: "binary_spec (Lit x) (Named n) op out = binary_spec (Named n) (Lit x) op out"
  by (simp add: binary_spec_def)

text \<open>A constant below half a millionth is printed as zero.\<close>

lemma Format_tiny: "Format (Fin (1 / 10 ^ 7)) = ''0.000000''"
proof -
  define x :: real where "x = 1 / 10 ^ 7"
  have m: "millionths x = 0" by (simp add: millionths_def round_def x_def)
  have z: "nat_to_string 0 = ''0''" "pad6 0 = ''000000''" by code_simp+
  have "\<lfloor>x\<rfloor> = 0" "x > 0" by (simp_all add: x_def floor_eq_iff)
  then have "Format (Fin x) = ''0.000000''" by (simp add: Format_def m z)
  then show ?thesis by (simp only: x_def)
qed

text \<open>Folding divides by zero to zero, where the op gives infinity.\<close>

lemma fold_div_zero: "fold_constant ''/'' (Fin 1) (Fin 0) = Some (Fin 0)" "fdiv (Fin 1) (Fin 0) = PInf"
  by (simp_all add: fold_constant_def inf_of_sign_def)

end
