(* ===== verification/OpBuilders.thy ===== *)
theory OpBuilders
  imports ExprDsl
begin

text \<open>
  \<^verbatim>\<open>column/biz/sub_graph.h\<close> and \<^verbatim>\<open>column/biz/module.{h,cpp}\<close>: the business side of a pipeline.  A sub-graph is an
  ordered list of op specs, written with the \<^verbatim>\<open>ops::\<close> builders or parsed from the expression language; a module
  is a named sub-graph with its ports and explicit dependencies.
\<close>

section \<open>Model\<close>

subsection \<open>The \<^verbatim>\<open>ops::\<close> builders\<close>

definition ops_add :: "string \<Rightarrow> string \<Rightarrow> string \<Rightarrow> OpSpec" where
  "ops_add out a b = op_spec ''add'' [a, b] [out] []"

definition ops_sub :: "string \<Rightarrow> string \<Rightarrow> string \<Rightarrow> OpSpec" where
  "ops_sub out a b = op_spec ''sub'' [a, b] [out] []"

definition ops_mul :: "string \<Rightarrow> string \<Rightarrow> string \<Rightarrow> OpSpec" where
  "ops_mul out a b = op_spec ''mul'' [a, b] [out] []"

definition ops_div :: "string \<Rightarrow> string \<Rightarrow> string \<Rightarrow> OpSpec" where
  "ops_div out a b = op_spec ''div'' [a, b] [out] []"

definition ops_gt :: "string \<Rightarrow> string \<Rightarrow> string \<Rightarrow> OpSpec" where
  "ops_gt out a b = op_spec ''gt'' [a, b] [out] []"

definition ops_ge :: "string \<Rightarrow> string \<Rightarrow> string \<Rightarrow> OpSpec" where
  "ops_ge out a b = op_spec ''ge'' [a, b] [out] []"

definition ops_lt :: "string \<Rightarrow> string \<Rightarrow> string \<Rightarrow> OpSpec" where
  "ops_lt out a b = op_spec ''lt'' [a, b] [out] []"

definition ops_le :: "string \<Rightarrow> string \<Rightarrow> string \<Rightarrow> OpSpec" where
  "ops_le out a b = op_spec ''le'' [a, b] [out] []"

definition ops_eq :: "string \<Rightarrow> string \<Rightarrow> string \<Rightarrow> OpSpec" where
  "ops_eq out a b = op_spec ''eq'' [a, b] [out] []"

definition ops_neq :: "string \<Rightarrow> string \<Rightarrow> string \<Rightarrow> OpSpec" where
  "ops_neq out a b = op_spec ''neq'' [a, b] [out] []"

definition ops_add_scalar :: "string \<Rightarrow> string \<Rightarrow> flt \<Rightarrow> OpSpec" where
  "ops_add_scalar out a v = op_spec ''add_scalar'' [a] [out] [(''scalar'', double_to_string v)]"

definition ops_sub_scalar :: "string \<Rightarrow> string \<Rightarrow> flt \<Rightarrow> OpSpec" where
  "ops_sub_scalar out a v = op_spec ''sub_scalar'' [a] [out] [(''scalar'', double_to_string v)]"

definition ops_mul_scalar :: "string \<Rightarrow> string \<Rightarrow> flt \<Rightarrow> OpSpec" where
  "ops_mul_scalar out a v = op_spec ''mul_scalar'' [a] [out] [(''scalar'', double_to_string v)]"

definition ops_div_scalar :: "string \<Rightarrow> string \<Rightarrow> flt \<Rightarrow> OpSpec" where
  "ops_div_scalar out a v = op_spec ''div_scalar'' [a] [out] [(''scalar'', double_to_string v)]"

definition ops_gt_scalar :: "string \<Rightarrow> string \<Rightarrow> flt \<Rightarrow> OpSpec" where
  "ops_gt_scalar out a v = op_spec ''gt_scalar'' [a] [out] [(''scalar'', double_to_string v)]"

definition ops_ge_scalar :: "string \<Rightarrow> string \<Rightarrow> flt \<Rightarrow> OpSpec" where
  "ops_ge_scalar out a v = op_spec ''ge_scalar'' [a] [out] [(''scalar'', double_to_string v)]"

definition ops_lt_scalar :: "string \<Rightarrow> string \<Rightarrow> flt \<Rightarrow> OpSpec" where
  "ops_lt_scalar out a v = op_spec ''lt_scalar'' [a] [out] [(''scalar'', double_to_string v)]"

definition ops_le_scalar :: "string \<Rightarrow> string \<Rightarrow> flt \<Rightarrow> OpSpec" where
  "ops_le_scalar out a v = op_spec ''le_scalar'' [a] [out] [(''scalar'', double_to_string v)]"

definition ops_eq_scalar :: "string \<Rightarrow> string \<Rightarrow> flt \<Rightarrow> OpSpec" where
  "ops_eq_scalar out a v = op_spec ''eq_scalar'' [a] [out] [(''scalar'', double_to_string v)]"

definition ops_neq_scalar :: "string \<Rightarrow> string \<Rightarrow> flt \<Rightarrow> OpSpec" where
  "ops_neq_scalar out a v = op_spec ''neq_scalar'' [a] [out] [(''scalar'', double_to_string v)]"

definition ops_neg :: "string \<Rightarrow> string \<Rightarrow> OpSpec" where
  "ops_neg out a = op_spec ''neg'' [a] [out] []"

definition ops_abs :: "string \<Rightarrow> string \<Rightarrow> OpSpec" where
  "ops_abs out a = op_spec ''abs'' [a] [out] []"

definition ops_square :: "string \<Rightarrow> string \<Rightarrow> OpSpec" where
  "ops_square out a = op_spec ''square'' [a] [out] []"

definition ops_sqrt :: "string \<Rightarrow> string \<Rightarrow> OpSpec" where
  "ops_sqrt out a = op_spec ''sqrt'' [a] [out] []"

definition ops_exp :: "string \<Rightarrow> string \<Rightarrow> OpSpec" where
  "ops_exp out a = op_spec ''exp'' [a] [out] []"

definition ops_log :: "string \<Rightarrow> string \<Rightarrow> OpSpec" where
  "ops_log out a = op_spec ''log'' [a] [out] []"

definition ops_sum :: "string \<Rightarrow> string \<Rightarrow> OpSpec" where
  "ops_sum out a = op_spec ''sum'' [a] [out] []"

definition ops_mean :: "string \<Rightarrow> string \<Rightarrow> OpSpec" where
  "ops_mean out a = op_spec ''mean'' [a] [out] []"

definition ops_count :: "string \<Rightarrow> string \<Rightarrow> OpSpec" where
  "ops_count out a = op_spec ''count'' [a] [out] []"

definition ops_max :: "string \<Rightarrow> string \<Rightarrow> OpSpec" where
  "ops_max out a = op_spec ''max'' [a] [out] []"

definition ops_min :: "string \<Rightarrow> string \<Rightarrow> OpSpec" where
  "ops_min out a = op_spec ''min'' [a] [out] []"

definition ops_stddev :: "string \<Rightarrow> string \<Rightarrow> OpSpec" where
  "ops_stddev out a = op_spec ''stddev'' [a] [out] []"

definition ops_quantize :: "string \<Rightarrow> string \<Rightarrow> OpSpec" where
  "ops_quantize out a = op_spec ''quantize'' [a] [out] []"

definition ops_dequantize :: "string \<Rightarrow> string \<Rightarrow> OpSpec" where
  "ops_dequantize out a = op_spec ''dequantize'' [a] [out] []"

definition ops_select :: "string \<Rightarrow> string \<Rightarrow> string \<Rightarrow> string \<Rightarrow> OpSpec" where
  "ops_select out msk a b = op_spec ''select'' [msk, a, b] [out] []"

definition ops_filter :: "string \<Rightarrow> string \<Rightarrow> string \<Rightarrow> OpSpec" where
  "ops_filter out data msk = op_spec ''filter'' [data, msk] [out] []"

definition ops_cast :: "string \<Rightarrow> string \<Rightarrow> string \<Rightarrow> OpSpec" where
  "ops_cast out a dtype = op_spec ''cast'' [a] [out] [(''dtype'', dtype)]"

definition ops_dot :: "string \<Rightarrow> string \<Rightarrow> string \<Rightarrow> OpSpec" where
  "ops_dot out a b = op_spec ''dot'' [a, b] [out] []"

definition ops_constant :: "string \<Rightarrow> flt \<Rightarrow> OpSpec" where
  "ops_constant out v = op_spec ''const'' [] [out] [(''value'', double_to_string v), (''size'', ''1'')]"

subsection \<open>Modules\<close>

type_synonym SubGraph = "OpSpec list"

definition SubGraph_op :: "OpSpec \<Rightarrow> SubGraph \<Rightarrow> SubGraph" where
  "SubGraph_op spec g = g @ [spec]"

record Module =
  md_name :: string
  md_inputs :: "string list"
  md_outputs :: "string list"
  md_deps :: "string list"
  md_subgraph :: SubGraph
  md_dsl :: "string option"

definition Module_new :: "string \<Rightarrow> Module" where
  "Module_new name = \<lparr>md_name = name, md_inputs = [], md_outputs = [], md_deps = [], md_subgraph = [], md_dsl = None\<rparr>"

definition Module_input :: "string \<Rightarrow> Module \<Rightarrow> Module" where
  "Module_input port m = m\<lparr>md_inputs := md_inputs m @ [port]\<rparr>"

definition Module_output :: "string \<Rightarrow> Module \<Rightarrow> Module" where
  "Module_output port m = m\<lparr>md_outputs := md_outputs m @ [port]\<rparr>"

definition Module_depends_on :: "string \<Rightarrow> Module \<Rightarrow> Module" where
  "Module_depends_on name m = m\<lparr>md_deps := md_deps m @ [name]\<rparr>"

definition Module_op :: "OpSpec \<Rightarrow> Module \<Rightarrow> Module" where
  "Module_op spec m = m\<lparr>md_subgraph := SubGraph_op spec (md_subgraph m)\<rparr>"

text \<open>The source is kept before it is parsed; a source that does not parse leaves the ops alone.\<close>

definition Module_from_dsl :: "string \<Rightarrow> Module \<Rightarrow> unit res \<times> Module" where
  "Module_from_dsl source m =
    (let m = m\<lparr>md_dsl := Some source\<rparr> in
     case parse source of
       Some (Inr ops) \<Rightarrow> (Ok (), fold Module_op ops m)
     | Some (Inl e) \<Rightarrow> (Throw e, m)
     | None \<Rightarrow> (Throw (LogicError ''out of fuel''), m))"

section \<open>Facts\<close>

lemma ops_arith_shape:
  "shape_ok (ops_add out a b)" "shape_ok (ops_sub out a b)" "shape_ok (ops_mul out a b)" "shape_ok (ops_div out a b)"
  using shape_ok_op2 [of "ArithOp ''+''" "''+''"] shape_ok_op2 [of "ArithOp ''-''" "''-''"]
    shape_ok_op2 [of "ArithOp ''*''" "''*''"] shape_ok_op2 [of "ArithOp ''/''" "''/''"]
  by (simp_all add: ops_add_def ops_sub_def ops_mul_def ops_div_def ArithOp_def)

lemma from_dsl_ops:
  "parse source = Some (Ok ops) \<Longrightarrow>
    Module_from_dsl source m = (Ok (), m\<lparr>md_dsl := Some source, md_subgraph := md_subgraph m @ ops\<rparr>)"
proof -
  have "fold Module_op ops k = k\<lparr>md_subgraph := md_subgraph k @ ops\<rparr>" for k :: Module
    by (induction ops arbitrary: k) (simp_all add: Module_op_def SubGraph_op_def)
  then show "parse source = Some (Ok ops) \<Longrightarrow> ?thesis" by (simp add: Module_from_dsl_def)
qed

text \<open>The builders print a scalar with six decimals: a smaller one becomes zero.\<close>

lemma ops_scalar_tiny: "os_attrs (ops_mul_scalar out a (Fin (1 / 10 ^ 7))) = [(''scalar'', ''0.000000'')]"
proof -
  define x :: real where "x = 1 / 10 ^ 7"
  have "\<lfloor>x\<rfloor> = 0" "x > 0" by (simp_all add: x_def floor_eq_iff)
  then have "Format (Fin x) = double_to_string (Fin x)" by (simp add: Format_def)
  then show ?thesis using Format_tiny unfolding x_def [symmetric] by (simp only: ops_mul_scalar_def) simp
qed

end
