(* ===== verification/PipelineCompiler.thy ===== *)
theory PipelineCompiler
  imports OpBuilders GraphAgree
begin

text \<open>
  \<^verbatim>\<open>column/backend/backend.{h,cpp}\<close> and \<^verbatim>\<open>column/biz/pipeline_compiler.{h,cpp}\<close>: business modules are compiled into one
  compute graph, with boundary nodes at the ports, an edge from the producer of every column to its readers,
  and placeholders for columns and modules that are compiled later.

  The maps of the compiler are association lists.  Where a node is allocated is a parameter (\<open>alloc\<close>, which must give
  an address that is not in use), and so is the backend that makes an op of a spec.  \<^verbatim>\<open>CollectColumnProducers\<close> goes over
  a hash set: its order only decides which of several conflicts is reported.  The compiler works on the graph of its
  caller, so a failure carries the graph as it is at that moment.
\<close>

section \<open>Model\<close>

subsection \<open>Backends\<close>

type_synonym Backend = "OpSpec \<Rightarrow> TensorOp res"

definition CpuBackend :: Backend where
  "CpuBackend spec = create_op spec"

definition SupportsDType :: "DType \<Rightarrow> bool" where
  "SupportsDType dtype = (is_scalar_type dtype \<or> is_quantized dtype)"

type_synonym BackendFactory = "(string \<times> Backend) list"

definition BackendFactory_new :: BackendFactory where
  "BackendFactory_new = [(''cpu'', CpuBackend)]"

definition BackendFactory_Register :: "string \<Rightarrow> Backend \<Rightarrow> BackendFactory \<Rightarrow> BackendFactory res" where
  "BackendFactory_Register name factory fs =
    (if map_of fs name \<noteq> None then Throw (InvalidArgument ''BackendFactory: duplicate backend name'')
     else Ok (fs @ [(name, factory)]))"

definition BackendFactory_Create :: "string \<Rightarrow> BackendFactory \<Rightarrow> Backend res" where
  "BackendFactory_Create name fs =
    (case map_of fs name of
       None \<Rightarrow> Throw (OutOfRange (''BackendFactory: unknown backend '' @ quoted name))
     | Some factory \<Rightarrow> Ok factory)"

definition BackendFactory_Contains :: "string \<Rightarrow> BackendFactory \<Rightarrow> bool" where
  "BackendFactory_Contains name fs = (map_of fs name \<noteq> None)"

definition BackendFactory_Available :: "BackendFactory \<Rightarrow> string list" where
  "BackendFactory_Available fs = keys fs"

subsection \<open>The compiler\<close>

record CompiledModule =
  cm_name :: string
  cm_output_names :: "string list"
  cm_tail :: string
  cm_output_nodes :: "string list"

record PipelineCompiler =
  pc_graph :: ComputeGraph
  pc_producer :: "(string \<times> string) list"
  pc_module :: "(string \<times> string) list"
  pc_info :: "(string \<times> CompiledModule) list"
  pc_placeholder :: "(string \<times> string) list"
  pc_tail :: "(string \<times> string) list"

definition PipelineCompiler_new :: "ComputeGraph \<Rightarrow> PipelineCompiler" where
  "PipelineCompiler_new g =
    \<lparr>pc_graph = g, pc_producer = [], pc_module = [], pc_info = [], pc_placeholder = [], pc_tail = []\<rparr>"

type_synonym 'a compiled = "(exn \<times> ComputeGraph) + 'a"

definition give_up :: "PipelineCompiler \<Rightarrow> exn \<Rightarrow> 'a compiled" where
  "give_up pc e = Inl (e, pc_graph pc)"

definition or_give_up :: "PipelineCompiler \<Rightarrow> 'a res \<Rightarrow> 'a compiled" where
  "or_give_up pc r = (case r of Inl e \<Rightarrow> give_up pc e | Inr x \<Rightarrow> Inr x)"

definition set_graph :: "ComputeGraph \<Rightarrow> PipelineCompiler \<Rightarrow> PipelineCompiler" where
  "set_graph g pc = pc\<lparr>pc_graph := g\<rparr>"

definition on_graph :: "(ComputeGraph \<Rightarrow> ComputeGraph res) \<Rightarrow> PipelineCompiler \<Rightarrow> PipelineCompiler compiled" where
  "on_graph f pc = bindR (or_give_up pc (f (pc_graph pc))) (\<lambda>g. Inr (set_graph g pc))"

subsubsection \<open>Pass 1\<close>

definition written_columns :: "Module \<Rightarrow> string list" where
  "written_columns m = remdups (md_outputs m @ concat (map os_outputs (md_subgraph m)))"

definition collect_column :: "string \<Rightarrow> string \<Rightarrow> PipelineCompiler \<Rightarrow> PipelineCompiler compiled" where
  "collect_column mname col pc =
    (if col = [] \<or> hd col = CHR ''@'' then Inr pc
     else (case map_of (pc_module pc) col of
         None \<Rightarrow> Inr (pc\<lparr>pc_module := (col, mname) # pc_module pc\<rparr>)
       | Some other \<Rightarrow>
           if other = mname then Inr pc
           else give_up pc (InvalidArgument (''PipelineCompiler: column '' @ quoted col @ '' produced by both '' @
             quoted other @ '' and '' @ quoted mname))))"

definition CollectColumnProducers :: "Module list \<Rightarrow> PipelineCompiler \<Rightarrow> PipelineCompiler compiled" where
  "CollectColumnProducers modules =
    foldR (\<lambda>m. foldR (collect_column (md_name m)) (written_columns m)) modules"

subsubsection \<open>Forward references\<close>

definition placeholder_id :: "string \<Rightarrow> string" where
  "placeholder_id col = ''@placeholder:'' @ col"

definition EnsureColumnPlaceholder :: "(ComputeGraph \<Rightarrow> nat) \<Rightarrow> string \<Rightarrow> PipelineCompiler \<Rightarrow> string \<times> PipelineCompiler" where
  "EnsureColumnPlaceholder alloc col pc =
    (case map_of (pc_placeholder pc) col of
       Some nid \<Rightarrow> (nid, pc)
     | None \<Rightarrow>
         (let nid = placeholder_id col in
          (nid, pc\<lparr>pc_graph := AddPlaceholder (alloc (pc_graph pc)) col nid (pc_graph pc),
                   pc_placeholder := AList.update col nid (pc_placeholder pc)\<rparr>)))"

definition RegisterProducer :: "string \<Rightarrow> string \<Rightarrow> string \<Rightarrow> PipelineCompiler \<Rightarrow> PipelineCompiler compiled" where
  "RegisterProducer col node_id mname pc =
    (let pc = pc\<lparr>pc_producer := AList.update col node_id (pc_producer pc),
                 pc_module := AList.update col mname (pc_module pc)\<rparr> in
     case map_of (pc_placeholder pc) col of
       None \<Rightarrow> Inr pc
     | Some ph \<Rightarrow>
         bindR (on_graph (ReplacePlaceholder ph node_id) pc) (\<lambda>pc.
           Inr (pc\<lparr>pc_placeholder := AList.delete col (pc_placeholder pc)\<rparr>)))"

text \<open>The empty id stands for a feed column, which needs no edge.\<close>

definition ResolveInputDep :: "(ComputeGraph \<Rightarrow> nat) \<Rightarrow> string \<Rightarrow> (string \<times> string) list \<Rightarrow> string \<Rightarrow>
    PipelineCompiler \<Rightarrow> string \<times> PipelineCompiler" where
  "ResolveInputDep alloc col local mname pc =
    (case map_of local col of
       Some nid \<Rightarrow> (nid, pc)
     | None \<Rightarrow>
         (case map_of (pc_producer pc) col of
            Some nid \<Rightarrow> (nid, pc)
          | None \<Rightarrow>
              (case map_of (pc_module pc) col of
                 Some m \<Rightarrow> if m \<noteq> mname then EnsureColumnPlaceholder alloc col pc else ([], pc)
               | None \<Rightarrow> ([], pc))))"

definition RemapTemp :: "string \<Rightarrow> string \<Rightarrow> (string \<times> string) list \<Rightarrow> string \<times> (string \<times> string) list" where
  "RemapTemp col mname rename =
    (case map_of rename col of
       Some mapped \<Rightarrow> (mapped, rename)
     | None \<Rightarrow>
         (let mapped = ''@'' @ mname @ ''/'' @ tl col in (mapped, AList.update col mapped rename)))"

definition remap :: "string \<Rightarrow> string \<Rightarrow> (string \<times> string) list \<Rightarrow> string \<times> (string \<times> string) list" where
  "remap mname col rename =
    (if col \<noteq> [] \<and> hd col = CHR ''@'' then RemapTemp col mname rename else (col, rename))"

fun remap_all :: "string \<Rightarrow> string list \<Rightarrow> (string \<times> string) list \<Rightarrow> string list \<times> (string \<times> string) list" where
  "remap_all mname [] rename = ([], rename)"
| "remap_all mname (col # cols) rename =
    (case remap mname col rename of (c, rename) \<Rightarrow>
     case remap_all mname cols rename of (cs, rename) \<Rightarrow> (c # cs, rename))"

subsubsection \<open>Pass 2\<close>

record module_state =
  ms_pc :: PipelineCompiler
  ms_local :: "(string \<times> string) list"
  ms_rename :: "(string \<times> string) list"
  ms_first :: string
  ms_cm :: CompiledModule

definition on_pc :: "(PipelineCompiler \<Rightarrow> PipelineCompiler compiled) \<Rightarrow> module_state \<Rightarrow> module_state compiled" where
  "on_pc f s = bindR (f (ms_pc s)) (\<lambda>pc. Inr (s\<lparr>ms_pc := pc\<rparr>))"

definition identity_spec :: "string \<Rightarrow> OpSpec" where
  "identity_spec port = op_spec ''identity'' [port] [port] []"

definition new_node :: "(ComputeGraph \<Rightarrow> nat) \<Rightarrow> Backend \<Rightarrow> string \<Rightarrow> string \<Rightarrow> OpSpec \<Rightarrow> module_state \<Rightarrow> module_state compiled" where
  "new_node alloc backend mname node_id spec s =
    bindR (or_give_up (ms_pc s) (backend spec)) (\<lambda>op.
      let g = pc_graph (ms_pc s) in
      Inr (s\<lparr>ms_pc := set_graph (AddNode (alloc g) node_id mname (RealOp op) g) (ms_pc s)\<rparr>))"

definition add_node :: "(ComputeGraph \<Rightarrow> nat) \<Rightarrow> Backend \<Rightarrow> string \<Rightarrow> string \<Rightarrow> OpSpec \<Rightarrow> module_state \<Rightarrow> module_state compiled" where
  "add_node alloc backend mname node_id spec s =
    bindR (new_node alloc backend mname node_id spec s) (\<lambda>s.
      Inr (s\<lparr>ms_first := (if ms_first s = [] then node_id else ms_first s)\<rparr>))"

definition wire_input :: "(ComputeGraph \<Rightarrow> nat) \<Rightarrow> string \<Rightarrow> string \<Rightarrow> string \<Rightarrow> module_state \<Rightarrow> module_state compiled" where
  "wire_input alloc mname node_id col s =
    (case ResolveInputDep alloc col (ms_local s) mname (ms_pc s) of (dep, pc) \<Rightarrow>
       let s = s\<lparr>ms_pc := pc\<rparr> in
       if dep \<noteq> [] then on_pc (on_graph (AddDependency node_id dep)) s else Inr s)"

definition set_local :: "string \<Rightarrow> string \<Rightarrow> module_state \<Rightarrow> module_state" where
  "set_local col node_id s = s\<lparr>ms_local := AList.update col node_id (ms_local s)\<rparr>"

definition compile_input :: "(ComputeGraph \<Rightarrow> nat) \<Rightarrow> Backend \<Rightarrow> string \<Rightarrow> string \<Rightarrow> module_state \<Rightarrow> module_state compiled" where
  "compile_input alloc backend mname port s =
    (let node_id = mname @ ''/@in:'' @ port in
     bindR (add_node alloc backend mname node_id (identity_spec port) s) (\<lambda>s.
     bindR (wire_input alloc mname node_id port s) (\<lambda>s.
     Inr (set_local port node_id s))))"

definition compile_out :: "string \<Rightarrow> string \<Rightarrow> string \<Rightarrow> module_state \<Rightarrow> module_state compiled" where
  "compile_out mname node_id out s =
    (if out = [] then Inr s
     else if map_of (ms_local s) out \<noteq> None
     then give_up (ms_pc s) (InvalidArgument (''PipelineCompiler: column '' @ quoted out @ '' written twice in module '' @ quoted mname))
     else on_pc (RegisterProducer out node_id mname) (set_local out node_id s))"

definition op_node_id :: "string \<Rightarrow> nat \<Rightarrow> string" where
  "op_node_id mname idx = mname @ ''/op'' @ nat_to_string idx"

definition compile_op :: "(ComputeGraph \<Rightarrow> nat) \<Rightarrow> Backend \<Rightarrow> string \<Rightarrow> nat \<times> OpSpec \<Rightarrow> module_state \<Rightarrow> module_state compiled" where
  "compile_op alloc backend mname op s =
    (case op of (idx, spec) \<Rightarrow>
     case remap_all mname (os_inputs spec) (ms_rename s) of (ins, rename) \<Rightarrow>
     case remap_all mname (os_outputs spec) rename of (outns, rename) \<Rightarrow>
     let s = s\<lparr>ms_rename := rename\<rparr>; ns = spec\<lparr>os_inputs := ins, os_outputs := outns\<rparr>; node_id = op_node_id mname idx in
     bindR (new_node alloc backend mname node_id ns s) (\<lambda>s.
     bindR (foldR (wire_input alloc mname node_id) ins s) (\<lambda>s.
     bindR (foldR (compile_out mname node_id) outns s) (\<lambda>s.
     Inr (s\<lparr>ms_cm := (ms_cm s)\<lparr>cm_tail := node_id\<rparr>\<rparr>)))))"

definition compile_output :: "(ComputeGraph \<Rightarrow> nat) \<Rightarrow> Backend \<Rightarrow> string \<Rightarrow> string \<Rightarrow> module_state \<Rightarrow> module_state compiled" where
  "compile_output alloc backend mname port s =
    bindR
      (case map_of (ms_local s) port of
         Some nid \<Rightarrow> Inr (s\<lparr>ms_cm := (ms_cm s)\<lparr>cm_output_nodes := cm_output_nodes (ms_cm s) @ [nid]\<rparr>\<rparr>)
       | None \<Rightarrow>
           (let node_id = mname @ ''/@out:'' @ port in
            bindR (add_node alloc backend mname node_id (identity_spec port) s) (\<lambda>s.
            bindR (wire_input alloc mname node_id port s) (\<lambda>s.
            bindR (on_pc (RegisterProducer port node_id mname) (set_local port node_id s)) (\<lambda>s.
            Inr (s\<lparr>ms_cm := (ms_cm s)\<lparr>cm_output_nodes := cm_output_nodes (ms_cm s) @ [node_id], cm_tail := node_id\<rparr>\<rparr>))))))
      (\<lambda>s. Inr (s\<lparr>ms_cm := (ms_cm s)\<lparr>cm_output_names := cm_output_names (ms_cm s) @ [port]\<rparr>\<rparr>))"

definition compile_noop :: "(ComputeGraph \<Rightarrow> nat) \<Rightarrow> Backend \<Rightarrow> string \<Rightarrow> module_state \<Rightarrow> module_state compiled" where
  "compile_noop alloc backend mname s =
    (if cm_tail (ms_cm s) \<noteq> [] then Inr s
     else (let node_id = mname @ ''/@noop'' in
       bindR (add_node alloc backend mname node_id (identity_spec (''@noop:'' @ mname)) s) (\<lambda>s.
       Inr (s\<lparr>ms_cm := (ms_cm s)\<lparr>cm_tail := node_id\<rparr>\<rparr>))))"

definition tail_id :: "string \<Rightarrow> string" where
  "tail_id mname = ''@tail:'' @ mname"

text \<open>The nodes an ordering node waits for: the declared outputs of a compiled module, its tail if it has none, or a
  placeholder tail.\<close>

definition order_after :: "(ComputeGraph \<Rightarrow> nat) \<Rightarrow> string \<Rightarrow> string \<Rightarrow> PipelineCompiler \<Rightarrow> PipelineCompiler compiled" where
  "order_after alloc node_id dep_name pc =
    (case map_of (pc_info pc) dep_name of
       Some info \<Rightarrow>
         if cm_output_nodes info \<noteq> []
         then foldR (\<lambda>out_node. on_graph (AddDependency node_id out_node)) (cm_output_nodes info) pc
         else if cm_tail info \<noteq> [] then on_graph (AddDependency node_id (cm_tail info)) pc
         else Inr pc
     | None \<Rightarrow>
         (let ph = (case map_of (pc_tail pc) dep_name of None \<Rightarrow> [] | Some t \<Rightarrow> t);
              tail = tail_id dep_name;
              pc = (if ph = []
                    then pc\<lparr>pc_tail := AList.update dep_name tail (pc_tail pc),
                            pc_graph := AddPlaceholder (alloc (pc_graph pc)) tail tail (pc_graph pc)\<rparr>
                    else pc);
              ph = (if ph = [] then tail else ph)
          in on_graph (AddDependency node_id ph) pc))"

definition compile_dependency :: "(ComputeGraph \<Rightarrow> nat) \<Rightarrow> Backend \<Rightarrow> string \<Rightarrow> string \<Rightarrow> module_state \<Rightarrow> module_state compiled" where
  "compile_dependency alloc backend mname dep_name s =
    (let node_id = mname @ ''/@dep:'' @ dep_name in
     bindR (add_node alloc backend mname node_id (identity_spec mname) s) (\<lambda>s.
     bindR (on_pc (order_after alloc node_id dep_name) s) (\<lambda>s.
     bindR (if ms_first s \<noteq> [] \<and> ms_first s \<noteq> node_id
            then on_pc (on_graph (AddDependency (ms_first s) node_id)) s else Inr s) (\<lambda>s.
     Inr (if cm_tail (ms_cm s) = [] then s\<lparr>ms_cm := (ms_cm s)\<lparr>cm_tail := node_id\<rparr>\<rparr> else s)))))"

definition replace_tail :: "string \<Rightarrow> string \<Rightarrow> PipelineCompiler \<Rightarrow> PipelineCompiler compiled" where
  "replace_tail mname tail pc =
    (case map_of (pc_tail pc) mname of
       None \<Rightarrow> Inr pc
     | Some ph \<Rightarrow>
         if tail = [] then Inr pc
         else bindR (on_graph (ReplacePlaceholder ph tail) pc) (\<lambda>pc. Inr (pc\<lparr>pc_tail := AList.delete mname (pc_tail pc)\<rparr>)))"

definition module_state_new :: "Module \<Rightarrow> PipelineCompiler \<Rightarrow> module_state" where
  "module_state_new m pc =
    \<lparr>ms_pc = pc, ms_local = [], ms_rename = [], ms_first = [],
     ms_cm = \<lparr>cm_name = md_name m, cm_output_names = [], cm_tail = [], cm_output_nodes = []\<rparr>\<rparr>"

definition CompileModule :: "(ComputeGraph \<Rightarrow> nat) \<Rightarrow> Backend \<Rightarrow> Module \<Rightarrow> PipelineCompiler \<Rightarrow> PipelineCompiler compiled" where
  "CompileModule alloc backend m pc =
    (let mname = md_name m in
     bindR (foldR (compile_input alloc backend mname) (md_inputs m) (module_state_new m pc)) (\<lambda>s.
     bindR (foldR (compile_op alloc backend mname) (enumerate 0 (md_subgraph m)) s) (\<lambda>s.
     bindR (foldR (compile_output alloc backend mname) (md_outputs m) s) (\<lambda>s.
     bindR (compile_noop alloc backend mname s) (\<lambda>s.
     bindR (foldR (compile_dependency alloc backend mname) (md_deps m) s) (\<lambda>s.
     bindR (replace_tail mname (cm_tail (ms_cm s)) (ms_pc s)) (\<lambda>pc.
     Inr (pc\<lparr>pc_info := AList.update mname (ms_cm s) (pc_info pc)\<rparr>))))))))"

definition check_dependencies :: "string list \<Rightarrow> Module \<Rightarrow> unit res" where
  "check_dependencies module_names m =
    (case find (\<lambda>dep. dep \<notin> set module_names) (md_deps m) of
       None \<Rightarrow> Ok ()
     | Some dep \<Rightarrow> Throw (InvalidArgument (''PipelineCompiler: module '' @ quoted (md_name m) @
         '' depends_on unknown module '' @ quoted dep)))"

definition Compile :: "(ComputeGraph \<Rightarrow> nat) \<Rightarrow> Backend \<Rightarrow> Module list \<Rightarrow> string list \<Rightarrow> ComputeGraph \<Rightarrow> PipelineCompiler compiled" where
  "Compile alloc backend modules module_names g =
    bindR (CollectColumnProducers modules (PipelineCompiler_new g)) (\<lambda>pc.
    bindR (or_give_up pc (foldR (\<lambda>m _. check_dependencies module_names m) modules ())) (\<lambda>_.
    bindR (foldR (CompileModule alloc backend) modules pc) (\<lambda>pc.
    if HasPlaceholders (pc_graph pc)
    then give_up pc (RuntimeError (''PipelineCompiler: unresolved forward references (a referenced '' @
      ''column/tail was never produced)''))
    else Inr pc)))"

end
