(* ===== verification/GraphGrowth.thy ===== *)
theory GraphGrowth
  imports GraphAgree
begin

text \<open>
  How the wiring operations of the compiler move a graph on: real nodes stay, and what feeds them keeps feeding them, also when
  a placeholder gives way to the real node.
\<close>

section \<open>Feeding a reader\<close>

definition is_real :: "ComputeGraph \<Rightarrow> nat \<Rightarrow> bool" where
  "is_real g a = (a \<in> set (addrs g) \<and> (\<forall>n. cn_op (node_at g a) \<noteq> PlaceholderOp n))"

definition writes :: "ComputeGraph \<Rightarrow> nat \<Rightarrow> string \<Rightarrow> bool" where
  "writes g a n = (is_real g a \<and> n \<in> set (node_target (cn_op (node_at g a))))"

definition stands_for :: "ComputeGraph \<Rightarrow> nat \<Rightarrow> string \<Rightarrow> bool" where
  "stands_for g a n = (a \<in> set (addrs g) \<and> cn_op (node_at g a) = PlaceholderOp n)"

definition fed :: "ComputeGraph \<Rightarrow> nat \<Rightarrow> string \<Rightarrow> bool" where
  "fed g a n = (\<exists>y \<in> set (deps_of g a). writes g y n \<or> stands_for g y n)"

definition covers :: "ComputeGraph \<Rightarrow> nat \<Rightarrow> string \<Rightarrow> bool" where
  "covers g a n = (writes g a n \<or> fed g a n \<or> (\<exists>x \<in> set (deps_of g a). is_real g x \<and> fed g x n))"

text \<open>From one graph to a later one, with respect to the columns of interest: real nodes stay where they are, stay fed,
  and keep their ids and their edges to real nodes.\<close>

definition grows :: "string set \<Rightarrow> ComputeGraph \<Rightarrow> ComputeGraph \<Rightarrow> bool" where
  "grows S g g' = (\<forall>a. is_real g a \<longrightarrow>
    is_real g' a \<and> cn_op (node_at g' a) = cn_op (node_at g a)
    \<and> (\<forall>n \<in> S. fed g a n \<longrightarrow> fed g' a n)
    \<and> (\<forall>x \<in> set (deps_of g a). is_real g x \<longrightarrow> x \<in> set (deps_of g' a))
    \<and> (\<forall>k. Find k g = Some a \<longrightarrow> Find k g' = Some a))"

lemma is_real_mem: "is_real g a \<Longrightarrow> a \<in> set (addrs g)"
  by (simp add: is_real_def)

lemma real_not_placeholder: "is_real g a \<Longrightarrow> \<not> stands_for g a n"
  by (simp add: is_real_def stands_for_def)

lemma grows_refl [simp]: "grows S g g"
  by (simp add: grows_def)

lemma grows_trans: "grows S g h \<Longrightarrow> grows S h k \<Longrightarrow> grows S g k"
  by (simp add: grows_def)

lemma growsD:
  assumes "grows S g g'"
  shows "is_real g a \<Longrightarrow> is_real g' a" "is_real g a \<Longrightarrow> cn_op (node_at g' a) = cn_op (node_at g a)"
    "is_real g a \<Longrightarrow> n \<in> S \<Longrightarrow> fed g a n \<Longrightarrow> fed g' a n"
    "is_real g a \<Longrightarrow> Find k g = Some a \<Longrightarrow> Find k g' = Some a"
    "writes g a n \<Longrightarrow> writes g' a n"
    "is_real g a \<Longrightarrow> n \<in> S \<Longrightarrow> covers g a n \<Longrightarrow> covers g' a n"
proof -
  show w: "writes g a n \<Longrightarrow> writes g' a n" for a using assms by (simp add: grows_def writes_def)
  show "is_real g a \<Longrightarrow> n \<in> S \<Longrightarrow> covers g a n \<Longrightarrow> covers g' a n"
    using assms w unfolding grows_def covers_def by blast
qed (use assms in \<open>simp_all add: grows_def\<close>)

lemma grows_AddNode:
  assumes "graph_inv g" "addr \<notin> set (addrs g)"
  shows "grows S g (AddNode addr nid mdl op g)"
    "a \<in> set (addrs g) \<Longrightarrow> writes (AddNode addr nid mdl op g) a n = writes g a n"
    "a \<in> set (addrs g) \<Longrightarrow> stands_for (AddNode addr nid mdl op g) a n = stands_for g a n"
    "a \<in> set (addrs g) \<Longrightarrow> is_real (AddNode addr nid mdl op g) a = is_real g a"
proof -
  note e = AddNode_effect [OF assms(2)]
  let ?g = "AddNode addr nid mdl op g"
  have ne: "a \<noteq> addr" if "a \<in> set (addrs g)" for a using assms(2) that by auto
  show r: "is_real ?g a = is_real g a" if "a \<in> set (addrs g)" for a
    using ne [OF that] that by (simp add: is_real_def e)
  show w: "writes ?g a n = writes g a n" if "a \<in> set (addrs g)" for a n
    using ne [OF that] r [OF that] by (simp add: writes_def e)
  show t: "stands_for ?g a n = stands_for g a n" if "a \<in> set (addrs g)" for a n
    using ne [OF that] that by (simp add: stands_for_def e)
  have d: "deps_of ?g a = deps_of g a" if "a \<in> set (addrs g)" for a
    using ne [OF that] by (simp add: deps_of_def e)
  have "fed ?g a n = fed g a n" if "a \<in> set (addrs g)" for a n
    unfolding fed_def d [OF that] using graph_invD(2) [OF assms(1) that] w t by (intro bex_cong) (simp_all add: subset_iff)
  then show "grows S g ?g"
    unfolding grows_def using d r ne e(2,3) by (simp add: is_real_mem)
qed

lemma grows_AddDependency:
  assumes "graph_inv g" "AddDependency nid dep_id g = Ok g'"
  shows "grows S g g'" "is_real g' a = is_real g a" "writes g' a n = writes g a n" "stands_for g' a n = stands_for g a n"
    "addrs g' = addrs g" "Find k g' = Find k g"
    "\<exists>a d. Find nid g = Some a \<and> Find dep_id g = Some d \<and> d \<in> set (deps_of g' a)"
    "b \<in> set (addrs g) \<Longrightarrow> cn_op (node_at g' b) = cn_op (node_at g b)"
proof -
  obtain a d where f: "Find nid g = Some a" "Find dep_id g = Some d" using AddDependency_Ok [OF assms(2)] by blast
  note e = AddDependency_effect [OF assms(2) f]
  show r: "is_real g' a = is_real g a" for a by (auto simp: is_real_def e(1,3))
  show w: "writes g' a n = writes g a n" for a n using r by (auto simp: writes_def e(3) dest: is_real_mem)
  show t: "stands_for g' a n = stands_for g a n" for a n by (auto simp: stands_for_def e(1,3))
  have sub: "set (deps_of g b) \<subseteq> set (deps_of g' b)" if "is_real g b" for b
    using e(4) [OF is_real_mem [OF that]] by simp
  then have "fed g' b n" if "is_real g b" "fed g b n" for b n using that w t unfolding fed_def by blast
  then show "grows S g g'" unfolding grows_def using sub r e(2,3) by (auto dest: is_real_mem)
  show "\<exists>a d. Find nid g = Some a \<and> Find dep_id g = Some d \<and> d \<in> set (deps_of g' a)"
    using f e(4) graph_invD(5) [OF assms(1) f(1)] by auto
  show "addrs g' = addrs g" "Find k g' = Find k g"
    "b \<in> set (addrs g) \<Longrightarrow> cn_op (node_at g' b) = cn_op (node_at g b)" using e(1-3) by simp_all
qed

lemma grows_ReplacePlaceholder:
  assumes g: "graph_inv g" "ReplacePlaceholder ph real_id g = Ok g'"
    and p: "Find ph g = Some p" "stands_for g p c" and r: "Find real_id g = Some r" "c \<in> S \<Longrightarrow> writes g r c"
  shows "grows S g g'" "is_real g' a \<Longrightarrow> is_real g a" "writes g' a n \<Longrightarrow> writes g a n"
    "stands_for g a n \<Longrightarrow> a \<noteq> p \<Longrightarrow> stands_for g' a n" "k \<noteq> ph \<Longrightarrow> Find k g' = Find k g"
    "is_real g' a \<Longrightarrow> cn_op (node_at g' a) = cn_op (node_at g a)" "Find k g = None \<Longrightarrow> Find k g' = None"
proof -
  have nr: "\<not> is_real g p" using p(2) real_not_placeholder by blast
  note i = graph_invD [OF g(1)]
  note e0 = ReplacePlaceholder_effect [OF g(2) p(1) r(1)]
  have all: "grows S g g' \<and> (\<forall>a. is_real g' a \<longrightarrow> is_real g a \<and> cn_op (node_at g' a) = cn_op (node_at g a)) \<and>
    (\<forall>a n. stands_for g a n \<longrightarrow> a \<noteq> p \<longrightarrow> stands_for g' a n) \<and> (\<forall>k. k \<noteq> ph \<longrightarrow> Find k g' = Find k g) \<and>
    (\<forall>k. Find k g = None \<longrightarrow> Find k g' = None)"
  proof (cases "p = r")
    case True
    then have "g' = g" using e0(1) by simp
    then show ?thesis by simp
  next
    case False
    note e1 = e0(2-4) [OF False]
    have e: "addrs g' = filter (\<lambda>a. a \<noteq> p) (addrs g)" "Find k g' = (if k = ph then None else Find k g)"
      "b \<in> set (addrs g) \<Longrightarrow> b \<noteq> p \<Longrightarrow> cn_op (node_at g' b) = cn_op (node_at g b)"
      "b \<in> set (addrs g) \<Longrightarrow> b \<noteq> p \<Longrightarrow> set (deps_of g' b) = (\<lambda>d. if d = p then r else d) ` set (deps_of g b)" for k b
      using e1 by (simp_all add: ReplaceDependency_def deps_of_def)
    have rl: "is_real g' a \<longleftrightarrow> is_real g a" for a using e(1) e(3) [of a] nr unfolding is_real_def
      by (cases "a = p"; cases "a \<in> set (addrs g)") simp_all
    have op: "cn_op (node_at g' a) = cn_op (node_at g a)" if "is_real g a" for a
      using e(3) [of a] that nr is_real_mem by metis
    have w: "writes g' a n = writes g a n" for a n using rl op by (auto simp: writes_def)
    have t: "stands_for g' a n" if "stands_for g a n" "a \<noteq> p" for a n
      using that e(1,3) by (auto simp: stands_for_def)
    have f: "fed g' a n" if a: "is_real g a" "n \<in> S" "fed g a n" for a n
    proof -
      obtain y where y: "y \<in> set (deps_of g a)" "writes g y n \<or> stands_for g y n" using a(3) by (auto simp: fed_def)
      have ap: "a \<noteq> p" using nr a(1) by auto
      have "(if y = p then r else y) \<in> set (deps_of g' a)"
        unfolding e(4) [OF is_real_mem [OF a(1)] ap] using y(1) by (rule imageI)
      moreover have "writes g' (if y = p then r else y) n \<or> stands_for g' (if y = p then r else y) n"
      proof (cases "y = p")
        case True
        then have "n = c" using y(2) p(2) nr by (auto simp: writes_def stands_for_def)
        then show ?thesis using True r(2) a(2) w by simp
      next
        case False
        then show ?thesis using y(2) w t by auto
      qed
      ultimately show ?thesis by (auto simp: fed_def)
    qed
    have x: "x \<in> set (deps_of g' a)" if "is_real g a" "x \<in> set (deps_of g a)" "is_real g x" for a x
      using e(4) [of a] that nr is_real_mem [OF that(1)] by (auto simp: image_iff)
    have k: "Find k g' = Some a" if "is_real g a" "Find k g = Some a" for a k
      using that e(2) p(1) nr by auto
    have "grows S g g'" unfolding grows_def using rl op f x k by blast
    then show ?thesis using rl op t e(2) by auto
  qed
  then show "grows S g g'" "is_real g' a \<Longrightarrow> is_real g a" "stands_for g a n \<Longrightarrow> a \<noteq> p \<Longrightarrow> stands_for g' a n"
    "k \<noteq> ph \<Longrightarrow> Find k g' = Find k g" "is_real g' a \<Longrightarrow> cn_op (node_at g' a) = cn_op (node_at g a)"
    "Find k g = None \<Longrightarrow> Find k g' = None" by blast+
  then show "writes g' a n \<Longrightarrow> writes g a n" using all by (auto simp: writes_def)
qed

end
