(* ===== verification/CompilerTables.thy ===== *)
theory CompilerTables
  imports PipelineCompiler GraphGrowth
begin

text \<open>
  The invariant of the pipeline compiler: what well-formed modules are, what the first pass finds out, and what the tables of the
  compiler say about the graph; every table operation keeps it.
\<close>

section \<open>Well-formed modules\<close>

definition plain :: "string \<Rightarrow> bool" where
  "plain c = (c \<noteq> [] \<and> hd c \<noteq> CHR ''@'')"

definition remap_name :: "string \<Rightarrow> string \<Rightarrow> string" where
  "remap_name mname col = (if col \<noteq> [] \<and> hd col = CHR ''@'' then ''@'' @ mname @ ''/'' @ tl col else col)"

text \<open>What an op gives: one named output, and not a copy of a column onto itself.\<close>

definition spec_ok :: "OpSpec \<Rightarrow> bool" where
  "spec_ok spec = (length (os_outputs spec) = 1 \<and> hd (os_outputs spec) \<noteq> []
    \<and> (os_type spec = ''identity'' \<longrightarrow> take 1 (os_inputs spec) \<noteq> os_outputs spec))"

text \<open>No op reads a column that a later op of its module writes.\<close>

fun def_before_use :: "OpSpec list \<Rightarrow> bool" where
  "def_before_use [] = True"
| "def_before_use (spec # specs) =
    (list_all (\<lambda>later. list_all (\<lambda>out. out \<notin> set (os_inputs spec)) (os_outputs later)) specs \<and> def_before_use specs)"

definition module_ok :: "Module \<Rightarrow> bool" where
  "module_ok m = (plain (md_name m) \<and> CHR ''/'' \<notin> set (md_name m) \<and> list_all plain (md_inputs m @ md_outputs m)
    \<and> list_all spec_ok (md_subgraph m) \<and> def_before_use (md_subgraph m))"

definition modules_ok :: "Module list \<Rightarrow> bool" where
  "modules_ok ms = (distinct (map md_name ms) \<and> list_all module_ok ms)"

definition module_writes :: "Module \<Rightarrow> string list" where
  "module_writes m = map (remap_name (md_name m)) (concat (map os_outputs (md_subgraph m)))"

definition supplied :: "Module list \<Rightarrow> string set" where
  "supplied ms = (\<Union>m \<in> set ms. set (module_writes m))"

subsection \<open>Names\<close>

lemma split_at_char:
  assumes "c \<notin> set a" "c \<notin> set b" "a @ c # x = b @ c # y"
  shows "a = b \<and> x = y"
  using assms
proof (induction a arbitrary: b)
  case Nil
  then show ?case by (cases b) auto
next
  case (Cons u a)
  then show ?case by (cases b) auto
qed

lemma remap_name_plain [simp]: "plain c \<Longrightarrow> remap_name mname c = c"
  by (simp add: remap_name_def plain_def)

lemma remap_name_cases: "remap_name mname c = c \<and> (c = [] \<or> plain c) \<or>
    (\<exists>t. c = CHR ''@'' # t \<and> remap_name mname c = CHR ''@'' # mname @ CHR ''/'' # t)"
  by (cases c) (auto simp: remap_name_def plain_def)

lemma remap_name_inj: "remap_name mname c = remap_name mname d \<Longrightarrow> c = d"
  using remap_name_cases [of mname c] remap_name_cases [of mname d] by (auto simp: plain_def)

lemma remap_name_other:
  assumes "remap_name m c = remap_name m' d" "CHR ''/'' \<notin> set m" "CHR ''/'' \<notin> set m'" "m \<noteq> m'"
  shows "remap_name m c = c \<and> remap_name m' d = d"
proof -
  have "\<not> (c \<noteq> [] \<and> hd c = CHR ''@'' \<and> d \<noteq> [] \<and> hd d = CHR ''@'')"
    using split_at_char [OF assms(2,3), of "tl c" "tl d"] assms(1,4) by (auto simp: remap_name_def)
  then show ?thesis using assms(1) unfolding remap_name_def by (metis append_Cons append_Nil list.sel(1) list.discI)
qed

lemma remap_name_Nil [simp]: "remap_name m c = [] \<longleftrightarrow> c = []" "[] = remap_name m c \<longleftrightarrow> c = []"
  by (auto simp: remap_name_def)

lemma remap_all_names:
  assumes "\<forall>c x. map_of rename c = Some x \<longrightarrow> x = remap_name mname c"
  shows "\<exists>rename'. remap_all mname cols rename = (map (remap_name mname) cols, rename') \<and>
    (\<forall>c x. map_of rename' c = Some x \<longrightarrow> x = remap_name mname c)"
  using assms
proof (induction cols arbitrary: rename)
  case (Cons c cols)
  obtain rename1 where 1: "remap mname c rename = (remap_name mname c, rename1)"
    "\<forall>c x. map_of rename1 c = Some x \<longrightarrow> x = remap_name mname c"
  proof (cases "c \<noteq> [] \<and> hd c = CHR ''@''")
    case True
    then have n: "''@'' @ mname @ ''/'' @ tl c = remap_name mname c" by (simp add: remap_name_def)
    show ?thesis
      using that Cons.prems True by (cases "map_of rename c") (auto simp: remap_def RemapTemp_def n Let_def simp del: append_Cons)
  next
    case False
    then show ?thesis using that [of rename] Cons.prems by (auto simp: remap_def remap_name_def)
  qed
  then show ?case using Cons.IH [OF 1(2)] by auto
qed simp

lemma op_node_id_inj: "op_node_id m i = op_node_id m j \<Longrightarrow> i = j"
  using digits_value_nat by (metis append_same_eq same_append_eq op_node_id_def of_nat_eq_iff)

lemma op_node_id_other:
  assumes "CHR ''/'' \<notin> set m" "CHR ''/'' \<notin> set m'"
  shows "op_node_id m i = op_node_id m' j \<longleftrightarrow> m = m' \<and> i = j"
    "m @ CHR ''/'' # CHR ''@'' # x \<noteq> op_node_id m' j"
proof -
  show "op_node_id m i = op_node_id m' j \<longleftrightarrow> m = m' \<and> i = j"
    using split_at_char [OF assms, of "''op'' @ nat_to_string i" "''op'' @ nat_to_string j"] op_node_id_inj [of m i j]
    by (auto simp: op_node_id_def)
  show "m @ CHR ''/'' # CHR ''@'' # x \<noteq> op_node_id m' j"
    using split_at_char [OF assms, of "CHR ''@'' # x" "''op'' @ nat_to_string j"] by (auto simp: op_node_id_def)
qed

subsection \<open>Pass 1\<close>

definition collected :: "PipelineCompiler \<Rightarrow> PipelineCompiler \<Rightarrow> bool" where
  "collected pc pc' = (pc_graph pc' = pc_graph pc \<and> pc_producer pc' = pc_producer pc \<and> pc_info pc' = pc_info pc
    \<and> pc_placeholder pc' = pc_placeholder pc \<and> pc_tail pc' = pc_tail pc
    \<and> (\<forall>c x. map_of (pc_module pc) c = Some x \<longrightarrow> map_of (pc_module pc') c = Some x))"

lemma collected_refl: "collected pc pc"
  by (simp add: collected_def)

lemma collect_column_effect:
  "collect_column mname col pc = Inr pc' \<Longrightarrow>
    collected pc pc' \<and> (plain col \<longrightarrow> map_of (pc_module pc') col = Some mname)"
  by (auto simp: collect_column_def collected_def give_up_def plain_def split: if_splits option.splits)

lemma collected_trans: "collected pc pc1 \<Longrightarrow> collected pc1 pc2 \<Longrightarrow> collected pc pc2"
  by (simp add: collected_def)

lemma collect_columns:
  "foldR (collect_column mname) cols pc = Inr pc' \<Longrightarrow>
    collected pc pc' \<and> (\<forall>c \<in> set cols. plain c \<longrightarrow> map_of (pc_module pc') c = Some mname)"
proof (induction cols arbitrary: pc)
  case Nil
  then show ?case by (simp add: collected_refl)
next
  case (Cons c cols)
  then obtain pc1 where 1: "collect_column mname c pc = Inr pc1" "foldR (collect_column mname) cols pc1 = Inr pc'"
    by (auto simp: ok_iff)
  have c: "collected pc pc1" "plain c \<longrightarrow> map_of (pc_module pc1) c = Some mname"
    using collect_column_effect [OF 1(1)] by simp_all
  have t: "map_of (pc_module pc') k = Some x" if "map_of (pc_module pc1) k = Some x" for k x
    using Cons.IH [OF 1(2)] that by (simp add: collected_def)
  show ?case using Cons.IH [OF 1(2)] c(2) t collected_trans [OF c(1)] by auto
qed

lemma CollectColumnProducers_effect:
  "CollectColumnProducers ms pc = Inr pc' \<Longrightarrow>
    collected pc pc' \<and> (\<forall>m \<in> set ms. \<forall>c \<in> set (written_columns m). plain c \<longrightarrow> map_of (pc_module pc') c = Some (md_name m))"
proof (induction ms arbitrary: pc)
  case Nil
  then show ?case by (simp add: CollectColumnProducers_def collected_refl)
next
  case (Cons m ms)
  then obtain pc1 where 1: "foldR (collect_column (md_name m)) (written_columns m) pc = Inr pc1"
    "CollectColumnProducers ms pc1 = Inr pc'"
    by (auto simp: ok_iff CollectColumnProducers_def)
  note c = collect_columns [OF 1(1)]
  have t: "map_of (pc_module pc') k = Some x" if "map_of (pc_module pc1) k = Some x" for k x
    using Cons.IH [OF 1(2)] that by (simp add: collected_def)
  show ?case using Cons.IH [OF 1(2)] c t collected_trans [of pc pc1] by auto
qed

text \<open>Every plain column a module writes belongs to that module.\<close>

definition owned :: "Module list \<Rightarrow> (string \<times> string) list \<Rightarrow> bool" where
  "owned ms cm = (\<forall>m \<in> set ms. \<forall>c \<in> set (written_columns m). plain c \<longrightarrow> map_of cm c = Some (md_name m))"

lemma module_writes_cases:
  assumes "c \<in> set (module_writes m)"
  shows "plain c \<and> c \<in> set (written_columns m) \<or> c = [] \<or> (\<exists>t. c = CHR ''@'' # md_name m @ CHR ''/'' # t)"
proof -
  obtain d where "d \<in> set (concat (map os_outputs (md_subgraph m)))" "c = remap_name (md_name m) d"
    using assms by (auto simp: module_writes_def)
  then show ?thesis using remap_name_cases [of "md_name m" d] by (auto simp: written_columns_def)
qed

lemma producer_unique:
  assumes ok: "modules_ok ms" and o: "owned ms cm" and m: "m \<in> set ms" "m' \<in> set ms"
    and c: "c \<in> set (module_writes m)" "c \<in> set (module_writes m')" "c \<noteq> []"
  shows "m = m'"
proof -
  have s: "CHR ''/'' \<notin> set (md_name m)" "CHR ''/'' \<notin> set (md_name m')"
    using ok m by (auto simp: modules_ok_def module_ok_def list_all_iff)
  have "md_name m = md_name m'"
  proof (cases "plain c")
    case True
    then have "c \<in> set (written_columns m)" "c \<in> set (written_columns m')"
      using module_writes_cases [OF c(1)] module_writes_cases [OF c(2)] by (auto simp: plain_def)
    then have "map_of cm c = Some (md_name m)" "map_of cm c = Some (md_name m')"
      using o m True unfolding owned_def by blast+
    then show ?thesis by simp
  next
    case False
    then obtain t t' where "c = CHR ''@'' # md_name m @ CHR ''/'' # t" "c = CHR ''@'' # md_name m' @ CHR ''/'' # t'"
      using module_writes_cases [OF c(1)] module_writes_cases [OF c(2)] c(3) by blast
    then show ?thesis using split_at_char [OF s, of t t'] by simp
  qed
  then show ?thesis using ok m by (auto simp: modules_ok_def distinct_map inj_on_def)
qed

section \<open>The invariant of the compiler\<close>

lemma placeholder_ids [simp]:
  "placeholder_id c = placeholder_id d \<longleftrightarrow> c = d" "tail_id c = tail_id d \<longleftrightarrow> c = d" "placeholder_id c \<noteq> tail_id d"
  "tail_id d \<noteq> placeholder_id c" "placeholder_id c \<noteq> []" "tail_id c \<noteq> []" "\<not> plain (placeholder_id c)" "\<not> plain (tail_id c)"
  by (simp_all add: placeholder_id_def tail_id_def plain_def)

definition reads_ok :: "string set \<Rightarrow> ComputeGraph \<Rightarrow> nat \<Rightarrow> bool" where
  "reads_ok S g a = (\<forall>n \<in> set (node_reads (cn_op (node_at g a))). n \<in> S \<longrightarrow> covers g a n)"

text \<open>The columns written so far are in \<open>W\<close>, each by one node; the ids of \<open>R\<close> are still free; and every node but the
  ones being wired (\<open>P\<close>) is ordered after the producers of what it reads.\<close>

definition graph_ok :: "string set \<Rightarrow> string set \<Rightarrow> string set \<Rightarrow> nat set \<Rightarrow> ComputeGraph \<Rightarrow> bool" where
  "graph_ok S W R P g = (graph_inv g
    \<and> (\<forall>a n. writes g a n \<longrightarrow> n \<in> W)
    \<and> (\<forall>a b n. writes g a n \<longrightarrow> writes g b n \<longrightarrow> a = b)
    \<and> (\<forall>a. is_real g a \<longrightarrow> a \<notin> P \<longrightarrow> reads_ok S g a)
    \<and> (\<forall>k \<in> R. Find k g = None)
    \<and> (\<forall>k x. Find k g = Some x \<longrightarrow> plain k \<longrightarrow> is_real g x))"

definition tables_ok :: "Module list \<Rightarrow> PipelineCompiler \<Rightarrow> bool" where
  "tables_ok ms pc = (owned ms (pc_module pc)
    \<and> (\<forall>c nid. map_of (pc_producer pc) c = Some nid \<longrightarrow> c \<in> supplied ms \<longrightarrow>
        nid \<noteq> [] \<and> (\<exists>x. Find nid (pc_graph pc) = Some x \<and> writes (pc_graph pc) x c))
    \<and> (\<forall>c nid. map_of (pc_placeholder pc) c = Some nid \<longrightarrow> nid = placeholder_id c \<and>
        (\<exists>x. Find nid (pc_graph pc) = Some x \<and> stands_for (pc_graph pc) x c))
    \<and> (\<forall>c. map_of (pc_placeholder pc) c = None \<longrightarrow> Find (placeholder_id c) (pc_graph pc) = None)
    \<and> (\<forall>d nid. map_of (pc_tail pc) d = Some nid \<longrightarrow> nid = tail_id d \<and> tail_id d \<notin> supplied ms \<and>
        (\<exists>x. Find nid (pc_graph pc) = Some x \<and> stands_for (pc_graph pc) x (tail_id d)))
    \<and> (\<forall>d. map_of (pc_tail pc) d = None \<longrightarrow> Find (tail_id d) (pc_graph pc) = None))"

definition pc_inv :: "Module list \<Rightarrow> string set \<Rightarrow> string set \<Rightarrow> nat set \<Rightarrow> PipelineCompiler \<Rightarrow> bool" where
  "pc_inv ms W R P pc = (graph_ok (supplied ms) W R P (pc_graph pc) \<and> tables_ok ms pc)"

lemma graph_okD:
  assumes "graph_ok S W R P g"
  shows "graph_inv g" "writes g a n \<Longrightarrow> n \<in> W" "writes g a n \<Longrightarrow> writes g b n \<Longrightarrow> a = b"
    "is_real g a \<Longrightarrow> a \<notin> P \<Longrightarrow> reads_ok S g a" "k \<in> R \<Longrightarrow> Find k g = None"
    "Find k g = Some x \<Longrightarrow> plain k \<Longrightarrow> is_real g x"
  using assms by (simp_all add: graph_ok_def)

lemma reads_ok_grows: "grows S g g' \<Longrightarrow> is_real g a \<Longrightarrow> reads_ok S g a \<Longrightarrow> reads_ok S g' a"
  by (simp add: reads_ok_def growsD)

lemma graph_ok_AddNode:
  assumes ok: "graph_ok S W R P g" and fresh: "addr \<notin> set (addrs g)" and nid: "nid \<notin> R"
    and t: "(\<And>n. op \<noteq> PlaceholderOp n) \<Longrightarrow> set (node_target op) \<inter> W = {} \<and> set (node_target op) \<subseteq> W'" and W: "W \<subseteq> W'"
    and ph: "\<And>c. op = PlaceholderOp c \<Longrightarrow> \<not> plain nid"
  shows "graph_ok S W' R (insert addr P) (AddNode addr nid mdl op g)"
proof -
  note d = graph_okD [OF ok] and e = AddNode_effect [OF fresh] and w = grows_AddNode [OF d(1) fresh]
  let ?g = "AddNode addr nid mdl op g"
  have new: "writes ?g addr n \<Longrightarrow> n \<notin> W \<and> n \<in> W'" for n
    using t by (auto simp: writes_def is_real_def e ComputeNode_new_def)
  have old: "writes g a n" if "writes ?g a n" "a \<noteq> addr" for a n
    using that w(2) [of a] is_real_mem [of ?g a] by (auto simp: writes_def e(1))
  show ?thesis unfolding graph_ok_def
  proof (intro conjI allI impI ballI)
    show "graph_inv ?g" using AddNode_inv [OF d(1) fresh] .
  next
    fix a n assume "writes ?g a n"
    then show "n \<in> W'" using new old d(2) W by (cases "a = addr") blast+
  next
    fix a b n assume "writes ?g a n" "writes ?g b n"
    then show "a = b" using new [of n] old d(2,3) by (cases "a = addr"; cases "b = addr") blast+
  next
    fix a assume a: "is_real ?g a" "a \<notin> insert addr P"
    then have "is_real g a" using w(4) [of a] is_real_mem [OF a(1)] by (simp add: e(1))
    then show "reads_ok S ?g a" using a(2) d(4) reads_ok_grows [OF w(1)] by simp
  next
    fix k assume "k \<in> R"
    then show "Find k ?g = None" using d(5) nid by (auto simp: e(3))
  next
    fix k x assume k: "Find k ?g = Some x" "plain k"
    show "is_real ?g x"
    proof (cases "Find k g = Some x")
      case True
      then show ?thesis using d(6) k(2) growsD(1) [OF w(1)] by blast
    next
      case False
      then have "x = addr" "k = nid" using k(1) by (auto simp: e(3) split: if_splits)
      then show ?thesis using ph k(2) by (auto simp: is_real_def e ComputeNode_new_def)
    qed
  qed
qed

lemma graph_ok_AddDependency:
  assumes ok: "graph_ok S W R P g" and a: "AddDependency nid dep_id g = Ok g'"
  shows "graph_ok S W R P g'"
proof -
  note d = graph_okD [OF ok] and w = grows_AddDependency [OF graph_okD(1) [OF ok] a]
  show ?thesis unfolding graph_ok_def w(2,3,6)
    using AddDependency_inv [OF d(1) a] d(2-6) reads_ok_grows [OF w(1)] by blast
qed

lemma graph_ok_ReplacePlaceholder:
  assumes ok: "graph_ok S W R P g" and a: "ReplacePlaceholder ph real_id g = Ok g'"
    and p: "Find ph g = Some p" "stands_for g p c" and r: "Find real_id g = Some r" "c \<in> S \<Longrightarrow> writes g r c"
  shows "graph_ok S W R P g'"
proof -
  note d = graph_okD [OF ok] and w = grows_ReplacePlaceholder [OF graph_okD(1) [OF ok] a p r, where S = S]
  have wr: "writes g x n" if "writes g' x n" for x n using w(3) [OF _ that] by blast
  have fd: "Find k g' = None" if "Find k g = None" for k using w(7) [OF _ that] by blast
  have "reads_ok S g' b" if "is_real g' b" "b \<notin> P" for b
    using reads_ok_grows [OF w(1)] d(4) w(2) that by blast
  moreover have "is_real g' x" if "Find k g' = Some x" "plain k" for k x
  proof -
    have "Find k g = Some x" using that(1) ReplacePlaceholder_effect(1,3) [OF a p(1) r(1)]
      by (cases "p = r") (auto split: if_splits)
    then show ?thesis using d(6) that(2) growsD(1) [OF w(1)] by blast
  qed
  ultimately show ?thesis unfolding graph_ok_def
    using ReplacePlaceholder_inv [OF d(1) a] d(2,3,5) wr fd by (intro conjI allI impI ballI) blast+
qed

lemma graph_ok_wired: "graph_ok S W R (insert a P) g \<Longrightarrow> reads_ok S g a \<Longrightarrow> graph_ok S W R P g"
  by (auto simp: graph_ok_def)

lemma graph_ok_mono: "graph_ok S W R P g \<Longrightarrow> W \<subseteq> W' \<Longrightarrow> R' \<subseteq> R \<Longrightarrow> P \<subseteq> P' \<Longrightarrow> graph_ok S W' R' P' g"
  unfolding graph_ok_def by blast

lemma reads_ok_noop: "is_noop (cn_op (node_at g a)) \<Longrightarrow> reads_ok S g a"
  by (simp add: reads_ok_def node_reads_def)

subsection \<open>Tables\<close>

lemma tables_okD:
  assumes "tables_ok ms pc"
  shows "owned ms (pc_module pc)"
    "map_of (pc_producer pc) c = Some nid \<Longrightarrow> c \<in> supplied ms \<Longrightarrow>
      nid \<noteq> [] \<and> (\<exists>x. Find nid (pc_graph pc) = Some x \<and> writes (pc_graph pc) x c)"
    "map_of (pc_placeholder pc) c = Some nid \<Longrightarrow> nid = placeholder_id c \<and>
      (\<exists>x. Find nid (pc_graph pc) = Some x \<and> stands_for (pc_graph pc) x c)"
    "map_of (pc_placeholder pc) c = None \<Longrightarrow> Find (placeholder_id c) (pc_graph pc) = None"
    "map_of (pc_tail pc) d = Some nid \<Longrightarrow> nid = tail_id d \<and> tail_id d \<notin> supplied ms \<and>
      (\<exists>x. Find nid (pc_graph pc) = Some x \<and> stands_for (pc_graph pc) x (tail_id d))"
    "map_of (pc_tail pc) d = None \<Longrightarrow> Find (tail_id d) (pc_graph pc) = None"
  using assms unfolding tables_ok_def by blast+

lemma tables_okI:
  assumes "owned ms (pc_module pc)"
    "\<And>c nid. map_of (pc_producer pc) c = Some nid \<Longrightarrow> c \<in> supplied ms \<Longrightarrow>
      nid \<noteq> [] \<and> (\<exists>x. Find nid (pc_graph pc) = Some x \<and> writes (pc_graph pc) x c)"
    "\<And>c nid. map_of (pc_placeholder pc) c = Some nid \<Longrightarrow> nid = placeholder_id c \<and>
      (\<exists>x. Find nid (pc_graph pc) = Some x \<and> stands_for (pc_graph pc) x c)"
    "\<And>c. map_of (pc_placeholder pc) c = None \<Longrightarrow> Find (placeholder_id c) (pc_graph pc) = None"
    "\<And>d nid. map_of (pc_tail pc) d = Some nid \<Longrightarrow> nid = tail_id d \<and> tail_id d \<notin> supplied ms \<and>
      (\<exists>x. Find nid (pc_graph pc) = Some x \<and> stands_for (pc_graph pc) x (tail_id d))"
    "\<And>d. map_of (pc_tail pc) d = None \<Longrightarrow> Find (tail_id d) (pc_graph pc) = None"
  shows "tables_ok ms pc"
  using assms unfolding tables_ok_def by blast

text \<open>The tables stay right on a graph that keeps its placeholders.\<close>

lemma set_graph_sel [simp]:
  "pc_graph (set_graph g pc) = g" "pc_producer (set_graph g pc) = pc_producer pc" "pc_module (set_graph g pc) = pc_module pc"
  "pc_info (set_graph g pc) = pc_info pc" "pc_placeholder (set_graph g pc) = pc_placeholder pc"
  "pc_tail (set_graph g pc) = pc_tail pc"
  by (simp_all add: set_graph_def)

lemma grows_writes: "grows S g g' \<Longrightarrow> Find nid g = Some x \<Longrightarrow> writes g x c \<Longrightarrow> Find nid g' = Some x \<and> writes g' x c"
  using growsD(4) [of S g g' x nid] growsD(5) [of S g g' x c] by (simp add: writes_def)

lemma tables_ok_graph:
  assumes t: "tables_ok ms pc" and g: "grows (supplied ms) (pc_graph pc) g'"
    and p: "\<And>k x n. Find k (pc_graph pc) = Some x \<Longrightarrow> stands_for (pc_graph pc) x n \<Longrightarrow> Find k g' = Some x \<and> stands_for g' x n"
    and n: "\<And>k. \<not> plain k \<Longrightarrow> Find k (pc_graph pc) = None \<Longrightarrow> Find k g' = None"
  shows "tables_ok ms (set_graph g' pc)"
proof -
  note d = tables_okD [OF t]
  show ?thesis
  proof (rule tables_okI; unfold set_graph_sel)
    show "owned ms (pc_module pc)" by (rule d(1))
    show "nid \<noteq> [] \<and> (\<exists>x. Find nid g' = Some x \<and> writes g' x c)"
      if "map_of (pc_producer pc) c = Some nid" "c \<in> supplied ms" for c nid
      using d(2) [OF that] grows_writes [OF g] by blast
    show "nid = placeholder_id c \<and> (\<exists>x. Find nid g' = Some x \<and> stands_for g' x c)"
      if "map_of (pc_placeholder pc) c = Some nid" for c nid
      using d(3) [OF that] p by blast
    show "Find (placeholder_id c) g' = None" if "map_of (pc_placeholder pc) c = None" for c
      using d(4) [OF that] n by simp
    show "nid = tail_id k \<and> tail_id k \<notin> supplied ms \<and> (\<exists>x. Find nid g' = Some x \<and> stands_for g' x (tail_id k))"
      if "map_of (pc_tail pc) k = Some nid" for k nid
      using d(5) [OF that] p by blast
    show "Find (tail_id k) g' = None" if "map_of (pc_tail pc) k = None" for k
      using d(6) [OF that] n by simp
  qed
qed

lemma pc_invD:
  assumes "pc_inv ms W R P pc"
  shows "graph_ok (supplied ms) W R P (pc_graph pc)" "tables_ok ms pc" "graph_inv (pc_graph pc)"
  using assms by (simp_all add: pc_inv_def graph_ok_def)

lemma pc_inv_mono: "pc_inv ms W R P pc \<Longrightarrow> W \<subseteq> W' \<Longrightarrow> R' \<subseteq> R \<Longrightarrow> P \<subseteq> P' \<Longrightarrow> pc_inv ms W' R' P' pc"
  by (auto simp: pc_inv_def intro: graph_ok_mono)

lemma on_graph_dependency:
  assumes i: "pc_inv ms W R P pc" and e: "on_graph (AddDependency nid dep_id) pc = Inr pc'"
  obtains g' where "pc' = set_graph g' pc" "AddDependency nid dep_id (pc_graph pc) = Ok g'" "pc_inv ms W R P pc'"
    "grows (supplied ms) (pc_graph pc) (pc_graph pc')"
proof -
  obtain g' where g: "AddDependency nid dep_id (pc_graph pc) = Ok g'" "pc' = set_graph g' pc"
    using e by (auto simp: on_graph_def or_give_up_def give_up_def ok_iff split: sum.splits)
  note d = pc_invD [OF i] and w = grows_AddDependency [OF pc_invD(3) [OF i] g(1)]
  have "tables_ok ms pc'" unfolding g(2) using tables_ok_graph [OF d(2) w(1)] w(4,6) by simp
  then have "pc_inv ms W R P pc'" using graph_ok_AddDependency [OF d(1) g(1)] by (simp add: pc_inv_def g(2))
  then show ?thesis using that [OF g(2,1)] w(1) g(2) by simp
qed

lemma on_graph_replace:
  assumes i: "pc_inv ms W R P pc" and e: "on_graph (ReplacePlaceholder ph real_id) pc = Inr pc'"
    and p: "Find ph (pc_graph pc) = Some p" "stands_for (pc_graph pc) p c"
    and r: "c \<in> supplied ms \<Longrightarrow> \<exists>r. Find real_id (pc_graph pc) = Some r \<and> writes (pc_graph pc) r c"
  obtains g' where "pc' = set_graph g' pc" "graph_ok (supplied ms) W R P g'"
    "grows (supplied ms) (pc_graph pc) g'"
    "\<And>k x n. k \<noteq> ph \<Longrightarrow> Find k (pc_graph pc) = Some x \<Longrightarrow> stands_for (pc_graph pc) x n \<Longrightarrow>
      Find k g' = Some x \<and> stands_for g' x n"
    "\<And>k. Find k (pc_graph pc) = None \<Longrightarrow> Find k g' = None"
    "is_real (pc_graph pc) x \<Longrightarrow> Find real_id (pc_graph pc) = Some x \<Longrightarrow> Find ph g' = None"
proof -
  note d = pc_invD [OF i]
  obtain g' where g: "ReplacePlaceholder ph real_id (pc_graph pc) = Ok g'" "pc' = set_graph g' pc"
    using e by (auto simp: on_graph_def or_give_up_def give_up_def ok_iff split: sum.splits)
  obtain r where f: "Find real_id (pc_graph pc) = Some r" "c \<in> supplied ms \<Longrightarrow> writes (pc_graph pc) r c"
    using g(1) p(1) r by (force simp: ReplacePlaceholder_def split: option.splits)
  note w = grows_ReplacePlaceholder [OF d(3) g(1) p f]
  have "x \<noteq> p" if "k \<noteq> ph" "Find k (pc_graph pc) = Some x" for k x
    using that p(1) graph_invD(5) [OF d(3)] by metis
  then have s: "Find k g' = Some x \<and> stands_for g' x n"
    if "k \<noteq> ph" "Find k (pc_graph pc) = Some x" "stands_for (pc_graph pc) x n" for k x n
    using that w(4,5) by simp
  have l: "Find ph g' = None" if "is_real (pc_graph pc) x" "Find real_id (pc_graph pc) = Some x"
    using ReplacePlaceholder_effect(3) [OF g(1) p(1) f(1), of ph] real_not_placeholder [OF that(1), of c] that(2) f(1) p(2)
    by auto
  show ?thesis
    by (rule that [OF g(2) graph_ok_ReplacePlaceholder [OF d(1) g(1) p f] w(1) s w(7) l])
qed

lemma graph_ok_placeholder: "graph_ok S W R (insert a P) g \<Longrightarrow> \<not> is_real g a \<Longrightarrow> graph_ok S W R P g"
  unfolding graph_ok_def by blast

lemma add_placeholder_ok:
  assumes i: "pc_inv ms W R P pc" and addr: "addr \<notin> set (addrs (pc_graph pc))"
    and k: "Find nid (pc_graph pc) = None" "nid \<notin> R" "\<not> plain nid"
    and g': "g' = AddPlaceholder addr out nid (pc_graph pc)"
  shows "graph_ok (supplied ms) W R P g'" "grows (supplied ms) (pc_graph pc) g'"
    "Find nid g' = Some addr" "stands_for g' addr out"
    "\<And>k x n. Find k (pc_graph pc) = Some x \<Longrightarrow> stands_for (pc_graph pc) x n \<Longrightarrow> Find k g' = Some x \<and> stands_for g' x n"
    "\<And>k. k \<noteq> nid \<Longrightarrow> Find k g' = Find k (pc_graph pc)"
proof -
  note d = pc_invD [OF i] and e = AddNode_effect [OF addr] and w = grows_AddNode [OF pc_invD(3) [OF i] addr]
  show "Find nid g' = Some addr" by (simp add: g' AddPlaceholder_def e(3) k)
  show p: "stands_for g' addr out" by (simp add: g' AddPlaceholder_def stands_for_def e ComputeNode_new_def)
  have "graph_ok (supplied ms) W R (insert addr P) g'" unfolding g' AddPlaceholder_def
    by (rule graph_ok_AddNode [OF d(1) addr k(2)]) (use k(3) in auto)
  then show "graph_ok (supplied ms) W R P g'" using graph_ok_placeholder real_not_placeholder p by blast
  show "grows (supplied ms) (pc_graph pc) g'" using w(1) by (simp add: g' AddPlaceholder_def)
  show "\<And>k. k \<noteq> nid \<Longrightarrow> Find k g' = Find k (pc_graph pc)" by (simp add: g' AddPlaceholder_def e(3))
  show "Find k g' = Some x \<and> stands_for g' x n"
    if "Find k (pc_graph pc) = Some x" "stands_for (pc_graph pc) x n" for k x n
    using that w(3) graph_invD(5) [OF d(3) that(1)] k(1) by (auto simp: g' AddPlaceholder_def e(3))
qed

lemma EnsureColumnPlaceholder_ok:
  assumes i: "pc_inv ms W R P pc" and fresh: "\<And>g. alloc g \<notin> set (addrs g)" and R: "\<forall>k \<in> R. plain k"
    and e: "EnsureColumnPlaceholder alloc col pc = (nid, pc')"
  shows "pc_inv ms W R P pc'" "grows (supplied ms) (pc_graph pc) (pc_graph pc')" "nid \<noteq> []"
    "\<exists>x. Find nid (pc_graph pc') = Some x \<and> stands_for (pc_graph pc') x col"
    "pc_producer pc' = pc_producer pc" "pc_module pc' = pc_module pc" "pc_info pc' = pc_info pc"
proof -
  note d = pc_invD [OF i] and t = tables_okD [OF pc_invD(2) [OF i]]
  have all: "pc_inv ms W R P pc' \<and> grows (supplied ms) (pc_graph pc) (pc_graph pc') \<and> nid \<noteq> [] \<and>
    (\<exists>x. Find nid (pc_graph pc') = Some x \<and> stands_for (pc_graph pc') x col) \<and>
    pc_producer pc' = pc_producer pc \<and> pc_module pc' = pc_module pc \<and> pc_info pc' = pc_info pc"
  proof (cases "map_of (pc_placeholder pc) col")
    case (Some k)
    then have "nid = k" "pc' = pc" using e by (simp_all add: EnsureColumnPlaceholder_def)
    then show ?thesis using i t(3) [OF Some] by auto
  next
    case None
    let ?g = "AddPlaceholder (alloc (pc_graph pc)) col nid (pc_graph pc)"
    have n: "nid = placeholder_id col" and
      pc': "pc' = pc\<lparr>pc_graph := ?g, pc_placeholder := AList.update col nid (pc_placeholder pc)\<rparr>"
      using e None by (auto simp: EnsureColumnPlaceholder_def Let_def)
    have R': "nid \<notin> R" and np: "\<not> plain nid" using R n by auto
    note a = add_placeholder_ok [OF i fresh t(4) [OF None, folded n] R' np refl [of ?g]]
    have "tables_ok ms pc'"
    proof (rule tables_okI)
      show "nida \<noteq> [] \<and> (\<exists>x. Find nida (pc_graph pc') = Some x \<and> writes (pc_graph pc') x c)"
        if "map_of (pc_producer pc') c = Some nida" "c \<in> supplied ms" for c nida
        using t(2) [of c nida] that grows_writes [OF a(2)] unfolding pc' by auto
      show "k = placeholder_id c \<and> (\<exists>x. Find k (pc_graph pc') = Some x \<and> stands_for (pc_graph pc') x c)"
        if "map_of (pc_placeholder pc') c = Some k" for c k
        using t(3) [of c k] that a(3-5) n unfolding pc' by (cases "c = col") auto
      show "k = tail_id d \<and> tail_id d \<notin> supplied ms \<and>
          (\<exists>x. Find k (pc_graph pc') = Some x \<and> stands_for (pc_graph pc') x (tail_id d))"
        if "map_of (pc_tail pc') d = Some k" for d k
      proof -
        have "map_of (pc_tail pc) d = Some k" "pc_graph pc' = ?g" using that by (simp_all add: pc')
        then show ?thesis using t(5) a(5) by metis
      qed
    qed (use t(1,4,6) a(6) n in \<open>auto simp: pc' split: if_splits\<close>)
    then show ?thesis using a(1-4) n by (auto simp: pc_inv_def pc')
  qed
  then show "pc_inv ms W R P pc'" "grows (supplied ms) (pc_graph pc) (pc_graph pc')" "nid \<noteq> []"
    "\<exists>x. Find nid (pc_graph pc') = Some x \<and> stands_for (pc_graph pc') x col"
    "pc_producer pc' = pc_producer pc" "pc_module pc' = pc_module pc" "pc_info pc' = pc_info pc" by simp_all
qed

lemma owned_update:
  assumes "owned ms cm" "m \<in> set ms" "plain col \<Longrightarrow> col \<in> set (written_columns m)"
  shows "owned ms (AList.update col (md_name m) cm)"
  using assms unfolding owned_def by auto (metis option.inject)

lemma tables_ok_register:
  assumes t: "tables_ok ms pc" and m: "m \<in> set ms" "plain col \<Longrightarrow> col \<in> set (written_columns m)"
    and w: "nid \<noteq> []" "col \<in> supplied ms \<Longrightarrow> \<exists>x. Find nid (pc_graph pc) = Some x \<and> writes (pc_graph pc) x col"
  shows "tables_ok ms (pc\<lparr>pc_producer := AList.update col nid (pc_producer pc),
    pc_module := AList.update col (md_name m) (pc_module pc)\<rparr>)"
  (is "tables_ok ms ?pc")
proof -
  note d = tables_okD [OF t]
  have "k \<noteq> [] \<and> (\<exists>x. Find k (pc_graph pc) = Some x \<and> writes (pc_graph pc) x c)"
    if "map_of (pc_producer ?pc) c = Some k" "c \<in> supplied ms" for c k
    using that d(2) [of c k] w by (cases "c = col") auto
  moreover have "pc_graph ?pc = pc_graph pc" "pc_placeholder ?pc = pc_placeholder pc" "pc_tail ?pc = pc_tail pc"
    "owned ms (pc_module ?pc)" using owned_update [OF d(1) m] by simp_all
  ultimately show ?thesis using d(3-6) by (intro tables_okI) metis+
qed

lemma RegisterProducer_ok:
  assumes i: "pc_inv ms W R P pc" and e: "RegisterProducer col nid (md_name m) pc = Inr pc'"
    and m: "m \<in> set ms" "plain col \<Longrightarrow> col \<in> set (written_columns m)"
    and w: "nid \<noteq> []" "Find nid (pc_graph pc) = Some x" "is_real (pc_graph pc) x"
      "col \<in> supplied ms \<Longrightarrow> writes (pc_graph pc) x col"
  shows "pc_inv ms W R P pc' \<and> grows (supplied ms) (pc_graph pc) (pc_graph pc')"
proof -
  let ?pc = "pc\<lparr>pc_producer := AList.update col nid (pc_producer pc),
    pc_module := AList.update col (md_name m) (pc_module pc)\<rparr>"
  have t: "tables_ok ms ?pc" using tables_ok_register [OF pc_invD(2) [OF i] m w(1)] w(2,4) by simp
  then have i': "pc_inv ms W R P ?pc" using i by (simp add: pc_inv_def)
  show ?thesis
  proof (cases "map_of (pc_placeholder pc) col")
    case None
    then have "pc' = ?pc" using e by (simp add: RegisterProducer_def Let_def)
    then show ?thesis using i' by simp
  next
    case (Some ph)
    obtain pc1 where r: "on_graph (ReplacePlaceholder ph nid) ?pc = Inr pc1"
      "pc' = pc1\<lparr>pc_placeholder := AList.delete col (pc_placeholder pc1)\<rparr>"
      using e Some by (auto simp: RegisterProducer_def Let_def ok_iff)
    obtain p where p: "ph = placeholder_id col" "Find ph (pc_graph ?pc) = Some p" "stands_for (pc_graph ?pc) p col"
      using tables_okD(3) [OF pc_invD(2) [OF i] Some] by auto
    obtain g' where g: "pc1 = set_graph g' ?pc" "graph_ok (supplied ms) W R P g'" "grows (supplied ms) (pc_graph ?pc) g'"
      "\<And>k x n. k \<noteq> ph \<Longrightarrow> Find k (pc_graph ?pc) = Some x \<Longrightarrow> stands_for (pc_graph ?pc) x n \<Longrightarrow>
        Find k g' = Some x \<and> stands_for g' x n"
      "\<And>k. Find k (pc_graph ?pc) = None \<Longrightarrow> Find k g' = None"
      "is_real (pc_graph ?pc) x \<Longrightarrow> Find nid (pc_graph ?pc) = Some x \<Longrightarrow> Find ph g' = None"
      by (rule on_graph_replace [OF i' r(1) p(2,3), of x]) (use w(2,4) in simp_all)
    note d = tables_okD [OF t]
    have s: "pc_graph pc' = g'" "pc_producer pc' = pc_producer ?pc" "pc_tail pc' = pc_tail pc"
      "pc_placeholder pc' = AList.delete col (pc_placeholder pc)" "pc_module pc' = pc_module ?pc"
      by (simp_all add: r(2) g(1) set_graph_def)
    have "tables_ok ms pc'"
    proof (rule tables_okI; unfold s)
      show "owned ms (pc_module ?pc)" using d(1) .
      show "k \<noteq> [] \<and> (\<exists>x. Find k g' = Some x \<and> writes g' x c)"
        if "map_of (pc_producer ?pc) c = Some k" "c \<in> supplied ms" for c k
        using d(2) [OF that] grows_writes [OF g(3)] by blast
      show "k = placeholder_id c \<and> (\<exists>x. Find k g' = Some x \<and> stands_for g' x c)"
        if k: "map_of (AList.delete col (pc_placeholder pc)) c = Some k" for c k
      proof -
        have "map_of (pc_placeholder ?pc) c = Some k" "c \<noteq> col" using k by (auto split: if_splits)
        then show ?thesis using d(3) [of c k] g(4) [of k] p(1) by auto
      qed
      show "Find (placeholder_id c) g' = None" if "map_of (AList.delete col (pc_placeholder pc)) c = None" for c
        using that d(4) [of c] g(5) g(6) w(2,3) p(1) by (cases "c = col") auto
      show "k = tail_id u \<and> tail_id u \<notin> supplied ms \<and> (\<exists>x. Find k g' = Some x \<and> stands_for g' x (tail_id u))"
        if "map_of (pc_tail pc) u = Some k" for u k
        using d(5) [of u k] that g(4) [of k] p(1) by auto
      show "Find (tail_id u) g' = None" if "map_of (pc_tail pc) u = None" for u
        using d(6) [of u] that g(5) by simp
    qed
    then show ?thesis using g(2,3) s(1) by (simp add: pc_inv_def)
  qed
qed

lemma add_tail_ok:
  assumes i: "pc_inv ms W R P pc" and fresh: "\<And>g. alloc g \<notin> set (addrs g)" and R: "\<forall>k \<in> R. plain k"
    and n: "map_of (pc_tail pc) d = None" and s: "tail_id d \<notin> supplied ms"
    and pc': "pc' = pc\<lparr>pc_tail := AList.update d (tail_id d) (pc_tail pc),
      pc_graph := AddPlaceholder (alloc (pc_graph pc)) (tail_id d) (tail_id d) (pc_graph pc)\<rparr>"
  shows "pc_inv ms W R P pc' \<and> grows (supplied ms) (pc_graph pc) (pc_graph pc')"
proof -
  note t = tables_okD [OF pc_invD(2) [OF i]]
  let ?g = "AddPlaceholder (alloc (pc_graph pc)) (tail_id d) (tail_id d) (pc_graph pc)"
  have R': "tail_id d \<notin> R" using R by auto
  note a = add_placeholder_ok [OF i fresh t(6) [OF n] R' placeholder_ids(8) refl [of ?g]]
  have "tables_ok ms pc'"
  proof (rule tables_okI)
    show "nid \<noteq> [] \<and> (\<exists>x. Find nid (pc_graph pc') = Some x \<and> writes (pc_graph pc') x c)"
      if "map_of (pc_producer pc') c = Some nid" "c \<in> supplied ms" for c nid
      using t(2) [of c nid] that grows_writes [OF a(2)] unfolding pc' by auto
    show "k = tail_id u \<and> tail_id u \<notin> supplied ms \<and> (\<exists>x. Find k (pc_graph pc') = Some x \<and> stands_for (pc_graph pc') x (tail_id u))"
      if "map_of (pc_tail pc') u = Some k" for u k
      using t(5) [of u k] that a(3-5) s unfolding pc' by (cases "u = d") auto
    show "k = placeholder_id c \<and> (\<exists>x. Find k (pc_graph pc') = Some x \<and> stands_for (pc_graph pc') x c)"
      if "map_of (pc_placeholder pc') c = Some k" for c k
      using t(3) [of c k] that a(5) unfolding pc' by auto
  qed (use t(1,4,6) a(6) in \<open>auto simp: pc' split: if_splits\<close>)
  then show ?thesis using a(1,2) by (simp add: pc_inv_def pc')
qed

lemma dependencies_ok:
  assumes "foldR (\<lambda>n. on_graph (AddDependency nid n)) ns pc = Inr pc'" and i: "pc_inv ms W R P pc"
  shows "pc_inv ms W R P pc' \<and> grows (supplied ms) (pc_graph pc) (pc_graph pc')"
  using assms(1)
proof (rule foldR_invariant [where P = "\<lambda>p. pc_inv ms W R P p \<and> grows (supplied ms) (pc_graph pc) (pc_graph p)"])
  show "pc_inv ms W R P b \<and> grows (supplied ms) (pc_graph pc) (pc_graph b)"
    if "pc_inv ms W R P a \<and> grows (supplied ms) (pc_graph pc) (pc_graph a)" "on_graph (AddDependency nid x) a = Inr b" for x a b
    using on_graph_dependency [OF _ that(2)] that(1) grows_trans by metis
qed (use i in simp)

lemma order_after_ok:
  assumes i: "pc_inv ms W R P pc" and fresh: "\<And>g. alloc g \<notin> set (addrs g)" and R: "\<forall>k \<in> R. plain k"
    and s: "tail_id d \<notin> supplied ms" and e: "order_after alloc nid d pc = Inr pc'"
  shows "pc_inv ms W R P pc' \<and> grows (supplied ms) (pc_graph pc) (pc_graph pc')"
proof (cases "map_of (pc_info pc) d")
  case (Some info)
  obtain ns where "foldR (\<lambda>n. on_graph (AddDependency nid n)) ns pc = Inr pc'"
  proof (cases "cm_output_nodes info = []")
    case False
    then show ?thesis using that [of "cm_output_nodes info"] e Some by (simp add: order_after_def)
  next
    case True
    then show ?thesis using that [of "if cm_tail info = [] then [] else [cm_tail info]"] e Some
      by (auto simp: order_after_def split: if_splits)
  qed
  then show ?thesis using dependencies_ok [OF _ i] by blast
next
  case None
  show ?thesis
  proof (cases "map_of (pc_tail pc) d")
    case (Some ph)
    then have "on_graph (AddDependency nid ph) pc = Inr pc'"
      using e None tables_okD(5) [OF pc_invD(2) [OF i] Some] by (simp add: order_after_def Let_def split: if_splits)
    then show ?thesis using on_graph_dependency [OF i] by metis
  next
    case n: None
    let ?pc = "pc\<lparr>pc_tail := AList.update d (tail_id d) (pc_tail pc),
      pc_graph := AddPlaceholder (alloc (pc_graph pc)) (tail_id d) (tail_id d) (pc_graph pc)\<rparr>"
    have "on_graph (AddDependency nid (tail_id d)) ?pc = Inr pc'"
      using e None n by (simp add: order_after_def Let_def)
    moreover note a = add_tail_ok [OF i fresh R n s refl]
    ultimately obtain "pc_inv ms W R P pc'" "grows (supplied ms) (pc_graph ?pc) (pc_graph pc')"
      using on_graph_dependency [OF conjunct1 [OF a]] by blast
    then show ?thesis using grows_trans [OF conjunct2 [OF a]] by blast
  qed
qed

lemma replace_tail_ok:
  assumes i: "pc_inv ms W R P pc" and e: "replace_tail mname tail pc = Inr pc'"
    and t: "Find tail (pc_graph pc) = Some x" "is_real (pc_graph pc) x"
  shows "pc_inv ms W R P pc' \<and> grows (supplied ms) (pc_graph pc) (pc_graph pc')"
proof (cases "map_of (pc_tail pc) mname = None \<or> tail = []")
  case True
  then show ?thesis using e i by (auto simp: replace_tail_def split: option.splits if_splits)
next
  case False
  then obtain ph where ph: "map_of (pc_tail pc) mname = Some ph" by auto
  note d = tables_okD [OF pc_invD(2) [OF i]]
  obtain pc1 where r: "on_graph (ReplacePlaceholder ph tail) pc = Inr pc1"
    "pc' = pc1\<lparr>pc_tail := AList.delete mname (pc_tail pc1)\<rparr>"
    using e ph False by (auto simp: replace_tail_def ok_iff)
  obtain p where p: "ph = tail_id mname" "tail_id mname \<notin> supplied ms" "Find ph (pc_graph pc) = Some p"
    "stands_for (pc_graph pc) p (tail_id mname)"
    using d(5) [OF ph] by auto
  obtain g' where g: "pc1 = set_graph g' pc" "graph_ok (supplied ms) W R P g'" "grows (supplied ms) (pc_graph pc) g'"
    "\<And>k x n. k \<noteq> ph \<Longrightarrow> Find k (pc_graph pc) = Some x \<Longrightarrow> stands_for (pc_graph pc) x n \<Longrightarrow>
      Find k g' = Some x \<and> stands_for g' x n"
    "\<And>k. Find k (pc_graph pc) = None \<Longrightarrow> Find k g' = None"
    "is_real (pc_graph pc) x \<Longrightarrow> Find tail (pc_graph pc) = Some x \<Longrightarrow> Find ph g' = None"
    by (rule on_graph_replace [OF i r(1) p(3,4), of x]) (use p(2) in simp_all)
  have s: "pc_graph pc' = g'" "pc_producer pc' = pc_producer pc" "pc_tail pc' = AList.delete mname (pc_tail pc)"
    "pc_placeholder pc' = pc_placeholder pc" "pc_module pc' = pc_module pc"
    by (simp_all add: r(2) g(1) set_graph_def)
  have "tables_ok ms pc'"
  proof (rule tables_okI; unfold s)
    show "owned ms (pc_module pc)" using d(1) .
    show "k \<noteq> [] \<and> (\<exists>x. Find k g' = Some x \<and> writes g' x c)"
      if "map_of (pc_producer pc) c = Some k" "c \<in> supplied ms" for c k
      using d(2) [OF that] grows_writes [OF g(3)] by blast
    show "k = placeholder_id c \<and> (\<exists>x. Find k g' = Some x \<and> stands_for g' x c)"
      if "map_of (pc_placeholder pc) c = Some k" for c k
      using d(3) [of c k] that g(4) [of k] p(1) by auto
    show "Find (placeholder_id c) g' = None" if "map_of (pc_placeholder pc) c = None" for c
      using that d(4) [of c] g(5) by simp
    show "k = tail_id u \<and> tail_id u \<notin> supplied ms \<and> (\<exists>x. Find k g' = Some x \<and> stands_for g' x (tail_id u))"
      if k: "map_of (AList.delete mname (pc_tail pc)) u = Some k" for u k
    proof -
      have "map_of (pc_tail pc) u = Some k" "u \<noteq> mname" using k by (auto split: if_splits)
      then show ?thesis using d(5) [of u k] g(4) [of k] p(1) by auto
    qed
    show "Find (tail_id u) g' = None" if "map_of (AList.delete mname (pc_tail pc)) u = None" for u
      using that d(6) [of u] g(5,6) t p(1) by (cases "u = mname") auto
  qed
  then show ?thesis using g(2,3) s(1) by (simp add: pc_inv_def)
qed

end
