(* ===== verification/ModuleWiring.thy ===== *)
theory ModuleWiring
  imports CompilerTables
begin

text \<open>
  Compiling a module, and a list of modules, keeps the invariant of \<^verbatim>\<open>CompilerTables\<close>.  The locale \<open>compile_env\<close> says what the
  compiler needs of the allocator and the backend; \<^verbatim>\<open>PipelineWiring\<close> shows that the CPU backend provides it.
\<close>


section \<open>Compiling a module\<close>

text \<open>What the compiler relies on: the allocator gives unused addresses, and the backend makes an op of the ports of
  its spec that does nothing exactly if it is an identity of a column on itself.\<close>

locale compile_env =
  fixes alloc :: "ComputeGraph \<Rightarrow> nat" and backend :: Backend
  assumes fresh: "alloc g \<notin> set (addrs g)"
    and ports: "backend spec = Ok op \<Longrightarrow> op_inputs (RealOp op) = os_inputs spec \<and> op_outputs (RealOp op) = os_outputs spec"
    and noop: "backend spec = Ok op \<Longrightarrow> is_noop (RealOp op) \<longleftrightarrow>
      os_type spec = ''identity'' \<and> os_inputs spec \<noteq> [] \<and> os_outputs spec \<noteq> [] \<and> hd (os_inputs spec) = hd (os_outputs spec)"

text \<open>The node a column of the module resolves to: it writes the column or is fed by what does, unless the column is
  one the module itself writes further on.\<close>

definition local_ok :: "string set \<Rightarrow> string set \<Rightarrow> string set \<Rightarrow> ComputeGraph \<Rightarrow> (string \<times> string) list \<Rightarrow> bool" where
  "local_ok S own dn g loc = (\<forall>c nid. map_of loc c = Some nid \<longrightarrow> nid \<noteq> [] \<and> (\<exists>x. Find nid g = Some x \<and> is_real g x \<and>
    (c \<in> S \<longrightarrow> writes g x c \<or> fed g x c \<or> c \<in> own \<and> c \<notin> dn)))"

lemma local_okD:
  assumes "local_ok S own dn g loc" "map_of loc c = Some nid"
  obtains x where "nid \<noteq> []" "Find nid g = Some x" "is_real g x" "c \<in> S \<Longrightarrow> writes g x c \<or> fed g x c \<or> c \<in> own \<and> c \<notin> dn"
  using assms by (auto simp: local_ok_def)

lemma local_ok_grows: "local_ok S own dn g loc \<Longrightarrow> grows S g g' \<Longrightarrow> local_ok S own dn g' loc"
proof -
  assume l: "local_ok S own dn g loc" and g: "grows S g g'"
  have "nid \<noteq> [] \<and> (\<exists>x. Find nid g' = Some x \<and> is_real g' x \<and> (c \<in> S \<longrightarrow> writes g' x c \<or> fed g' x c \<or> c \<in> own \<and> c \<notin> dn))"
    if "map_of loc c = Some nid" for c nid
    using local_okD [OF l that] growsD(1,3,4,5) [OF g] by metis
  then show ?thesis by (simp add: local_ok_def)
qed

lemma local_ok_update:
  assumes "local_ok S own dn g loc" "nid \<noteq> []" "Find nid g = Some x" "is_real g x"
    "c \<in> S \<Longrightarrow> writes g x c \<or> fed g x c \<or> c \<in> own \<and> c \<notin> dn'" "dn' \<subseteq> insert c dn"
  shows "local_ok S own dn' g (AList.update c nid loc)"
proof -
  have "k \<noteq> [] \<and> (\<exists>x. Find k g = Some x \<and> is_real g x \<and> (d \<in> S \<longrightarrow> writes g x d \<or> fed g x d \<or> d \<in> own \<and> d \<notin> dn'))"
    if "map_of (AList.update c nid loc) d = Some k" for d k
  proof (cases "d = c")
    case True
    then show ?thesis using that assms(2-5) by auto
  next
    case False
    then have "map_of loc d = Some k" using that by simp
    then show ?thesis using local_okD [OF assms(1)] assms(6) False by (metis insert_iff subsetD)
  qed
  then show ?thesis by (simp add: local_ok_def)
qed

context compile_env
begin

lemma new_node_ok:
  assumes i: "pc_inv ms W R P (ms_pc s)" and e: "new_node alloc backend mname nid spec s = Inr s'"
    and nid: "plain nid" "nid \<notin> R" and W: "W \<subseteq> W'"
    and t: "\<And>op. backend spec = Ok op \<Longrightarrow> set (node_target (RealOp op)) \<inter> W = {} \<and> set (node_target (RealOp op)) \<subseteq> W'"
  obtains op a where "backend spec = Ok op" "pc_inv ms W' R (insert a P) (ms_pc s')"
    "grows (supplied ms) (pc_graph (ms_pc s)) (pc_graph (ms_pc s'))" "s' = s\<lparr>ms_pc := ms_pc s'\<rparr>"
    "a \<notin> set (addrs (pc_graph (ms_pc s)))" "is_real (pc_graph (ms_pc s')) a"
    "cn_op (node_at (pc_graph (ms_pc s')) a) = RealOp op"
    "Find nid (pc_graph (ms_pc s)) = None \<Longrightarrow> Find nid (pc_graph (ms_pc s')) = Some a"
    "\<exists>x. Find nid (pc_graph (ms_pc s')) = Some x \<and> is_real (pc_graph (ms_pc s')) x"
    "ms_pc s' = set_graph (pc_graph (ms_pc s')) (ms_pc s)"
proof -
  let ?g = "pc_graph (ms_pc s)"
  let ?a = "alloc ?g"
  obtain op where op: "backend spec = Ok op" and s': "s' = s\<lparr>ms_pc := set_graph (AddNode ?a nid mname (RealOp op) ?g) (ms_pc s)\<rparr>"
    using e by (auto simp: new_node_def ok_iff or_give_up_def give_up_def Let_def split: sum.splits)
  note d = pc_invD [OF i] and f = fresh [of ?g]
  let ?h = "AddNode ?a nid mname (RealOp op) ?g"
  note w = grows_AddNode [OF d(3) f] and eff = AddNode_effect [OF f]
  have ok: "graph_ok (supplied ms) W' R (insert ?a P) ?h"
    by (rule graph_ok_AddNode [OF d(1) f nid(2)]) (use t [OF op] W in auto)
  have "tables_ok ms (set_graph ?h (ms_pc s))"
  proof (rule tables_ok_graph [OF d(2) w(1)])
    show "Find k ?h = Some x \<and> stands_for ?h x n" if "Find k ?g = Some x" "stands_for ?g x n" for k x n
      using that w(3) [of x] by (auto simp: eff(3) stands_for_def)
    show "Find k ?h = None" if "\<not> plain k" "Find k ?g = None" for k using that nid(1) by (auto simp: eff(3))
  qed
  then have inv: "pc_inv ms W' R (insert ?a P) (ms_pc s')" using ok by (simp add: pc_inv_def s')
  have "\<exists>x. Find nid ?h = Some x" by (auto simp: eff(3))
  then have ex: "\<exists>x. Find nid ?h = Some x \<and> is_real ?h x" using graph_okD(6) [OF ok _ nid(1)] by blast
  show ?thesis
    by (rule that [OF op inv]) (use w(1) f ex in \<open>simp_all add: s' is_real_def eff ComputeNode_new_def\<close>)
qed

lemma boundary_ok:
  assumes i: "pc_inv ms W R P (ms_pc s)" and e: "add_node alloc backend mname nid (identity_spec port) s = Inr s'"
    and nid: "plain nid" "nid \<notin> R"
  shows "pc_inv ms W R P (ms_pc s')" "grows (supplied ms) (pc_graph (ms_pc s)) (pc_graph (ms_pc s'))"
    "s' = s\<lparr>ms_pc := ms_pc s', ms_first := ms_first s'\<rparr>"
    "\<exists>x. Find nid (pc_graph (ms_pc s')) = Some x \<and> is_real (pc_graph (ms_pc s')) x"
    "ms_pc s' = set_graph (pc_graph (ms_pc s')) (ms_pc s)"
proof -
  obtain s1 where s1: "new_node alloc backend mname nid (identity_spec port) s = Inr s1"
    and s': "s' = s1\<lparr>ms_first := (if ms_first s1 = [] then nid else ms_first s1)\<rparr>"
    using e by (auto simp: add_node_def ok_iff)
  have n: "is_noop (RealOp op)" if "backend (identity_spec port) = Ok op" for op
    using noop [OF that] by (simp add: identity_spec_def)
  then have t: "set (node_target (RealOp op)) \<inter> W = {} \<and> set (node_target (RealOp op)) \<subseteq> W"
    if "backend (identity_spec port) = Ok op" for op
    using that by (simp add: node_target_def)
  obtain op a where o: "backend (identity_spec port) = Ok op" "pc_inv ms W R (insert a P) (ms_pc s1)"
    "grows (supplied ms) (pc_graph (ms_pc s)) (pc_graph (ms_pc s1))" "s1 = s\<lparr>ms_pc := ms_pc s1\<rparr>"
    "cn_op (node_at (pc_graph (ms_pc s1)) a) = RealOp op"
    "\<exists>x. Find nid (pc_graph (ms_pc s1)) = Some x \<and> is_real (pc_graph (ms_pc s1)) x"
    "ms_pc s1 = set_graph (pc_graph (ms_pc s1)) (ms_pc s)"
    by (rule new_node_ok [OF i s1 nid subset_refl t]) simp_all
  have "reads_ok (supplied ms) (pc_graph (ms_pc s1)) a" using reads_ok_noop n [OF o(1)] o(5) by metis
  then have "pc_inv ms W R P (ms_pc s1)" using o(2) graph_ok_wired by (auto simp: pc_inv_def)
  then show "pc_inv ms W R P (ms_pc s')" "grows (supplied ms) (pc_graph (ms_pc s)) (pc_graph (ms_pc s'))"
    "\<exists>x. Find nid (pc_graph (ms_pc s')) = Some x \<and> is_real (pc_graph (ms_pc s')) x"
    "ms_pc s' = set_graph (pc_graph (ms_pc s')) (ms_pc s)"
    using o(3,6,7) by (simp_all add: s')
  show "s' = s\<lparr>ms_pc := ms_pc s', ms_first := ms_first s'\<rparr>" using o(4) unfolding s'
    by (metis module_state.select_convs(1) module_state.surjective module_state.update_convs(1,4) module_state.select_convs(4))
qed

text \<open>The node a column resolves to feeds what is made to wait for it.\<close>

lemma ResolveInputDep_ok:
  assumes ok: "modules_ok ms" "m \<in> set ms" and i: "pc_inv ms W R P pc" and R: "\<forall>k \<in> R. plain k"
    and col: "col = remap_name (md_name m) c" "[] \<notin> supplied ms"
    and none: "map_of loc col = None" and e: "ResolveInputDep alloc col loc (md_name m) pc = (dep, pc')"
  shows "pc_inv ms W R P pc' \<and> grows (supplied ms) (pc_graph pc) (pc_graph pc') \<and>
    (col \<in> supplied ms \<longrightarrow> (if dep = [] then col \<in> set (module_writes m)
      else \<exists>x. Find dep (pc_graph pc') = Some x \<and> (writes (pc_graph pc') x col \<or> stands_for (pc_graph pc') x col)))"
proof (cases "map_of (pc_producer pc) col")
  case (Some nid)
  then have "dep = nid" "pc' = pc" using e none by (auto simp: ResolveInputDep_def)
  then show ?thesis using i tables_okD(2) [OF pc_invD(2) [OF i] Some] by auto
next
  case None
  note o = tables_okD(1) [OF pc_invD(2) [OF i]]
  show ?thesis
  proof (cases "\<exists>m'. map_of (pc_module pc) col = Some m' \<and> m' \<noteq> md_name m")
    case True
    then have "EnsureColumnPlaceholder alloc col pc = (dep, pc')" using e none None by (auto simp: ResolveInputDep_def)
    from EnsureColumnPlaceholder_ok [OF i fresh R this] show ?thesis by auto
  next
    case False
    then have d: "dep = []" "pc' = pc" using e none None by (auto simp: ResolveInputDep_def split: option.splits)
    have "col \<in> set (module_writes m)" if s: "col \<in> supplied ms"
    proof -
      obtain m' where m': "m' \<in> set ms" "col \<in> set (module_writes m')" using s by (auto simp: supplied_def)
      have "md_name m' = md_name m"
      proof (cases "plain col")
        case True
        then have "col \<in> set (written_columns m')" using module_writes_cases [OF m'(2)] by (auto simp: plain_def)
        then have "map_of (pc_module pc) col = Some (md_name m')" using o m'(1) True unfolding owned_def by blast
        then show ?thesis using False by blast
      next
        case False
        have sl: "CHR ''/'' \<notin> set (md_name m)" "CHR ''/'' \<notin> set (md_name m')"
          using ok m'(1) by (auto simp: modules_ok_def module_ok_def list_all_iff)
        obtain t t' where "col = CHR ''@'' # md_name m @ CHR ''/'' # t" "col = CHR ''@'' # md_name m' @ CHR ''/'' # t'"
          using False s col remap_name_cases [of "md_name m" c] module_writes_cases [OF m'(2)] by metis
        then show ?thesis using split_at_char [OF sl, of t t'] by simp
      qed
      then have "m' = m" using ok m'(1) by (auto simp: modules_ok_def distinct_map inj_on_def)
      then show ?thesis using m'(2) by simp
    qed
    then show ?thesis using i d by simp
  qed
qed

lemma wire_input_ok:
  assumes ok: "modules_ok ms" "m \<in> set ms" and i: "pc_inv ms W R P (ms_pc s)" and R: "\<forall>k \<in> R. plain k"
    and col: "col = remap_name (md_name m) c" "[] \<notin> supplied ms"
    and l: "local_ok (supplied ms) (set (module_writes m)) dn (pc_graph (ms_pc s)) (ms_local s)" "dn \<subseteq> dom (map_of (ms_local s))"
    and a: "Find nid (pc_graph (ms_pc s)) = Some a" "is_real (pc_graph (ms_pc s)) a"
    and e: "wire_input alloc (md_name m) nid col s = Inr s'"
  shows "pc_inv ms W R P (ms_pc s')" "grows (supplied ms) (pc_graph (ms_pc s)) (pc_graph (ms_pc s'))"
    "s' = s\<lparr>ms_pc := ms_pc s'\<rparr>"
    "col \<in> supplied ms \<Longrightarrow> covers (pc_graph (ms_pc s')) a col \<or> col \<in> set (module_writes m) \<and> col \<notin> dn"
    "map_of (ms_local s) col = None \<Longrightarrow> col \<in> supplied ms \<Longrightarrow>
      fed (pc_graph (ms_pc s')) a col \<or> col \<in> set (module_writes m) \<and> col \<notin> dn"
proof -
  let ?S = "supplied ms" and ?own = "set (module_writes m)"
  obtain dep pc where r: "ResolveInputDep alloc col (ms_local s) (md_name m) (ms_pc s) = (dep, pc)" by fastforce
  have s': "if dep = [] then s' = s\<lparr>ms_pc := pc\<rparr> else (\<exists>pc'. on_graph (AddDependency nid dep) pc = Inr pc' \<and> s' = s\<lparr>ms_pc := pc'\<rparr>)"
    using e r by (auto simp: wire_input_def Let_def on_pc_def ok_iff split: if_splits)
  have p: "pc_inv ms W R P pc \<and> grows ?S (pc_graph (ms_pc s)) (pc_graph pc)"
    using ResolveInputDep_ok [OF ok i R col _ r] i r by (cases "map_of (ms_local s) col") (auto simp: ResolveInputDep_def)
  show "s' = s\<lparr>ms_pc := ms_pc s'\<rparr>" using s' by (auto split: if_splits)
  have step: "pc_inv ms W R P (ms_pc s') \<and> grows ?S (pc_graph pc) (pc_graph (ms_pc s')) \<and>
    (dep \<noteq> [] \<longrightarrow> (\<forall>d. Find dep (pc_graph pc) = Some d \<longrightarrow> d \<in> set (deps_of (pc_graph (ms_pc s')) a) \<and>
      (\<forall>n. stands_for (pc_graph pc) d n \<longrightarrow> stands_for (pc_graph (ms_pc s')) d n)))"
  proof (cases "dep = []")
    case True
    then show ?thesis using s' p by simp
  next
    case False
    then obtain pc' where d: "on_graph (AddDependency nid dep) pc = Inr pc'" "s' = s\<lparr>ms_pc := pc'\<rparr>" using s' by auto
    obtain g' where g: "pc' = set_graph g' pc" "AddDependency nid dep (pc_graph pc) = Ok g'" "pc_inv ms W R P pc'"
      "grows ?S (pc_graph pc) (pc_graph pc')"
      by (rule on_graph_dependency [OF conjunct1 [OF p] d(1)])
    note w = grows_AddDependency [OF pc_invD(3) [OF conjunct1 [OF p]] g(2)]
    have "Find nid (pc_graph pc) = Some a" using growsD(4) [OF conjunct2 [OF p] a(2,1)] .
    then show ?thesis using g w(4,7) by (auto simp: d(2))
  qed
  then show "pc_inv ms W R P (ms_pc s')" "grows ?S (pc_graph (ms_pc s)) (pc_graph (ms_pc s'))"
    using p grows_trans by blast+
  let ?h = "pc_graph (ms_pc s')"
  show no_local: "fed ?h a col \<or> col \<in> ?own \<and> col \<notin> dn" if n: "map_of (ms_local s) col = None" "col \<in> ?S"
  proof (cases "dep = []")
    case True
    have "col \<notin> dn" using l(2) n(1) by auto
    then show ?thesis using ResolveInputDep_ok [OF ok i R col n(1) r] True n(2) by simp
  next
    case False
    then obtain x where "Find dep (pc_graph pc) = Some x" "writes (pc_graph pc) x col \<or> stands_for (pc_graph pc) x col"
      using ResolveInputDep_ok [OF ok i R col n(1) r] n(2) by auto
    then show ?thesis using step False growsD(5) [OF conjunct1 [OF conjunct2 [OF step]]] unfolding fed_def by metis
  qed
  show "covers ?h a col \<or> col \<in> ?own \<and> col \<notin> dn" if n: "col \<in> ?S"
  proof (cases "map_of (ms_local s) col")
    case None
    then show ?thesis using no_local n by (auto simp: covers_def)
  next
    case (Some k)
    then have k: "dep = k" "pc = ms_pc s" using r by (simp_all add: ResolveInputDep_def)
    obtain x where x: "k \<noteq> []" "Find k (pc_graph pc) = Some x" "is_real (pc_graph pc) x"
      "writes (pc_graph pc) x col \<or> fed (pc_graph pc) x col \<or> col \<in> ?own \<and> col \<notin> dn"
      using local_okD [OF l(1) Some] n k(2) by metis
    have "x \<in> set (deps_of ?h a)" using step x(1,2) k(1) by blast
    then show ?thesis using x(3,4) growsD(1,3,5) [OF conjunct1 [OF conjunct2 [OF step]]] n
      unfolding covers_def fed_def by blast
  qed
qed

end

definition module_env :: "Module list \<Rightarrow> Module \<Rightarrow> string set \<Rightarrow> bool" where
  "module_env ms m R = (modules_ok ms \<and> m \<in> set ms \<and> (\<forall>k \<in> R. \<exists>m' \<in> set ms. \<exists>j. k = op_node_id (md_name m') j))"

lemma no_slash: "modules_ok ms \<Longrightarrow> m \<in> set ms \<Longrightarrow> CHR ''/'' \<notin> set (md_name m) \<and> plain (md_name m)"
  by (auto simp: modules_ok_def module_ok_def list_all_iff)

lemma plain_append: "plain a \<Longrightarrow> plain (a @ b)"
  by (simp add: plain_def)

lemma module_envD:
  assumes "module_env ms m R"
  shows "modules_ok ms" "m \<in> set ms" "\<forall>k \<in> R. plain k" "[] \<notin> supplied ms"
    "plain (md_name m @ CHR ''/'' # CHR ''@'' # x)" "md_name m @ CHR ''/'' # CHR ''@'' # x \<notin> R" "plain (md_name m @ y)"
proof -
  show e: "modules_ok ms" "m \<in> set ms" using assms by (simp_all add: module_env_def)
  show "\<forall>k \<in> R. plain k"
    using assms no_slash [OF e(1)] by (fastforce simp: module_env_def op_node_id_def intro: plain_append)
  show "plain (md_name m @ CHR ''/'' # CHR ''@'' # x)" "plain (md_name m @ y)" using no_slash [OF e] plain_append by simp_all
  show "md_name m @ CHR ''/'' # CHR ''@'' # x \<notin> R"
    using assms op_node_id_other(2) no_slash [OF e] no_slash [OF e(1)] unfolding module_env_def by metis
  have "spec_ok spec" if "m' \<in> set ms" "spec \<in> set (md_subgraph m')" for m' spec
    using that e(1) by (auto simp: modules_ok_def module_ok_def list_all_iff)
  then have "d \<noteq> []" if "m' \<in> set ms" "spec \<in> set (md_subgraph m')" "d \<in> set (os_outputs spec)" for m' spec d
    using that by (fastforce simp: spec_ok_def length_Suc_conv)
  then show "[] \<notin> supplied ms" by (auto simp: supplied_def module_writes_def)
qed

text \<open>While module \<open>m\<close> is compiled: \<open>W\<close> are the columns of the modules before it, \<open>dn\<close> those its own ops wrote so far.\<close>

definition mod_ok :: "Module list \<Rightarrow> Module \<Rightarrow> string set \<Rightarrow> string set \<Rightarrow> string set \<Rightarrow> module_state \<Rightarrow> bool" where
  "mod_ok ms m W R dn s = (pc_inv ms (W \<union> dn) R {} (ms_pc s)
    \<and> local_ok (supplied ms) (set (module_writes m)) dn (pc_graph (ms_pc s)) (ms_local s)
    \<and> dn \<subseteq> dom (map_of (ms_local s))
    \<and> (\<forall>c x. map_of (ms_rename s) c = Some x \<longrightarrow> x = remap_name (md_name m) c)
    \<and> (cm_tail (ms_cm s) = [] \<or> (\<exists>x. Find (cm_tail (ms_cm s)) (pc_graph (ms_pc s)) = Some x \<and> is_real (pc_graph (ms_pc s)) x)))"

lemma mod_okD:
  assumes "mod_ok ms m W R dn s"
  shows "pc_inv ms (W \<union> dn) R {} (ms_pc s)"
    "local_ok (supplied ms) (set (module_writes m)) dn (pc_graph (ms_pc s)) (ms_local s)" "dn \<subseteq> dom (map_of (ms_local s))"
    "\<forall>c x. map_of (ms_rename s) c = Some x \<longrightarrow> x = remap_name (md_name m) c"
    "cm_tail (ms_cm s) = [] \<or> (\<exists>x. Find (cm_tail (ms_cm s)) (pc_graph (ms_pc s)) = Some x \<and> is_real (pc_graph (ms_pc s)) x)"
  using assms by (simp_all add: mod_ok_def)

text \<open>The graph moved on; the module's own tables did not.\<close>

lemma mod_ok_step:
  assumes "mod_ok ms m W R dn s" "pc_inv ms (W \<union> dn) R {} (ms_pc s')"
    "grows (supplied ms) (pc_graph (ms_pc s)) (pc_graph (ms_pc s'))"
    "ms_local s' = ms_local s" "ms_rename s' = ms_rename s" "cm_tail (ms_cm s') = cm_tail (ms_cm s)"
  shows "mod_ok ms m W R dn s'"
proof -
  note d = mod_okD [OF assms(1)]
  have "\<exists>x. Find t (pc_graph (ms_pc s')) = Some x \<and> is_real (pc_graph (ms_pc s')) x"
    if "\<exists>x. Find t (pc_graph (ms_pc s)) = Some x \<and> is_real (pc_graph (ms_pc s)) x" for t
    using that growsD(1,4) [OF assms(3)] by blast
  then show ?thesis using d assms(2,4-6) local_ok_grows [OF d(2) assms(3)] unfolding mod_ok_def by auto
qed

context compile_env
begin

lemma wire_inputs_ok:
  assumes env: "module_env ms m R" and e: "foldR (wire_input alloc (md_name m) nid) (map (remap_name (md_name m)) cs) s = Inr s'"
    and i: "pc_inv ms W R P (ms_pc s)"
    and l: "local_ok (supplied ms) (set (module_writes m)) dn (pc_graph (ms_pc s)) (ms_local s)" "dn \<subseteq> dom (map_of (ms_local s))"
    and a: "Find nid (pc_graph (ms_pc s)) = Some a" "is_real (pc_graph (ms_pc s)) a"
  shows "pc_inv ms W R P (ms_pc s') \<and> grows (supplied ms) (pc_graph (ms_pc s)) (pc_graph (ms_pc s')) \<and>
    s' = s\<lparr>ms_pc := ms_pc s'\<rparr> \<and> (\<forall>c \<in> remap_name (md_name m) ` set cs. c \<in> supplied ms \<longrightarrow>
      covers (pc_graph (ms_pc s')) a c \<or> c \<in> set (module_writes m) \<and> c \<notin> dn)"
  using e i l a
proof (induction cs arbitrary: s)
  case (Cons c cs)
  note ev = module_envD [OF env]
  obtain s1 where s1: "wire_input alloc (md_name m) nid (remap_name (md_name m) c) s = Inr s1"
    "foldR (wire_input alloc (md_name m) nid) (map (remap_name (md_name m)) cs) s1 = Inr s'"
    using Cons.prems(1) by (auto simp: ok_iff)
  note w = wire_input_ok [OF ev(1,2) Cons.prems(2) ev(3) refl ev(4) Cons.prems(3-6) s1(1)]
  have loc: "ms_local s1 = ms_local s" using w(3) by (metis module_state.ext_inject module_state.surjective module_state.update_convs(1))
  have r: "is_real (pc_graph (ms_pc s1)) a" "Find nid (pc_graph (ms_pc s1)) = Some a"
    using growsD(1,4) [OF w(2)] Cons.prems(5,6) by simp_all
  note ih = Cons.IH [OF s1(2) w(1) _ _ r(2,1), unfolded loc, OF local_ok_grows [OF Cons.prems(3) w(2)] Cons.prems(4)]
  have "s' = s\<lparr>ms_pc := ms_pc s'\<rparr>" using ih w(3)
    by (metis module_state.cases_scheme module_state.select_convs(1) module_state.update_convs(1))
  moreover have "grows (supplied ms) (pc_graph (ms_pc s)) (pc_graph (ms_pc s'))" using grows_trans [OF w(2)] ih by blast
  moreover have "covers (pc_graph (ms_pc s')) a (remap_name (md_name m) c) \<or>
      remap_name (md_name m) c \<in> set (module_writes m) \<and> remap_name (md_name m) c \<notin> dn"
    if "remap_name (md_name m) c \<in> supplied ms"
    using w(4) [OF that] growsD(6) [OF _ r(1) that] ih by blast
  ultimately show ?case using ih by simp
qed simp

text \<open>A boundary node at a port, wired to what the port resolves to.\<close>

lemma port_node_ok:
  assumes env: "module_env ms m R" and i: "mod_ok ms m W R dn s" and p: "plain port"
    and nid: "nid = md_name m @ CHR ''/'' # CHR ''@'' # x"
    and e: "add_node alloc backend (md_name m) nid (identity_spec port) s = Inr s1"
      "wire_input alloc (md_name m) nid port s1 = Inr s2"
  obtains x where "mod_ok ms m W R dn s2" "ms_local s2 = ms_local s"
    "Find nid (pc_graph (ms_pc s2)) = Some x" "is_real (pc_graph (ms_pc s2)) x" "plain nid"
    "map_of (ms_local s) port = None \<longrightarrow> port \<in> supplied ms \<longrightarrow>
      fed (pc_graph (ms_pc s2)) x port \<or> port \<in> set (module_writes m) \<and> port \<notin> dn"
proof -
  note ev = module_envD [OF env] and d = mod_okD [OF i]
  have n: "plain nid" "nid \<notin> R" using ev(5,6) by (simp_all add: nid)
  note b = boundary_ok [OF d(1) e(1) n]
  have f1: "ms_local s1 = ms_local s" "ms_rename s1 = ms_rename s" "ms_cm s1 = ms_cm s"
    by (subst b(3), simp)+
  obtain x where x: "Find nid (pc_graph (ms_pc s1)) = Some x" "is_real (pc_graph (ms_pc s1)) x" using b(4) by blast
  have m1: "mod_ok ms m W R dn s1" by (rule mod_ok_step [OF i b(1,2)]) (simp_all add: f1)
  note d1 = mod_okD [OF m1]
  have pr: "port = remap_name (md_name m) port" using p by simp
  note w = wire_input_ok [OF ev(1,2) d1(1) ev(3) pr ev(4) d1(2,3) x e(2)]
  have f2: "ms_local s2 = ms_local s1" "ms_rename s2 = ms_rename s1" "ms_cm s2 = ms_cm s1"
    by (subst w(3), simp)+
  have "mod_ok ms m W R dn s2" by (rule mod_ok_step [OF m1 w(1,2)]) (simp_all add: f2)
  then show ?thesis
    by (rule that) (use growsD(1,4) [OF w(2)] x w(5) [unfolded f1] f1 f2 n in \<open>blast | simp\<close>)+
qed

lemma compile_input_ok:
  assumes env: "module_env ms m R" and i: "mod_ok ms m W R {} s" and p: "plain port"
    and l: "\<forall>c k. map_of (ms_local s) c = Some k \<longrightarrow> k = md_name m @ ''/@in:'' @ c"
    and e: "compile_input alloc backend (md_name m) port s = Inr s'"
  shows "mod_ok ms m W R {} s' \<and> (\<forall>c k. map_of (ms_local s') c = Some k \<longrightarrow> k = md_name m @ ''/@in:'' @ c)"
proof -
  let ?nid = "md_name m @ ''/@in:'' @ port"
  obtain s1 s2 where s: "add_node alloc backend (md_name m) ?nid (identity_spec port) s = Inr s1"
    "wire_input alloc (md_name m) ?nid port s1 = Inr s2" and s': "s' = set_local port ?nid s2"
    using e by (auto simp: compile_input_def ok_iff Let_def)
  have nid: "?nid = md_name m @ CHR ''/'' # CHR ''@'' # ''in:'' @ port" by simp
  obtain x where m2: "mod_ok ms m W R {} s2" and f: "ms_local s2 = ms_local s"
    and x: "Find ?nid (pc_graph (ms_pc s2)) = Some x" "is_real (pc_graph (ms_pc s2)) x" "plain ?nid"
      "map_of (ms_local s) port = None \<longrightarrow> port \<in> supplied ms \<longrightarrow>
        fed (pc_graph (ms_pc s2)) x port \<or> port \<in> set (module_writes m) \<and> port \<notin> {}"
    using port_node_ok [OF env i p nid s] by blast
  note d2 = mod_okD [OF m2]
  have "local_ok (supplied ms) (set (module_writes m)) {} (pc_graph (ms_pc s2)) (AList.update port ?nid (ms_local s2))"
  proof (rule local_ok_update [OF d2(2) _ x(1,2)])
    show "writes (pc_graph (ms_pc s2)) x port \<or> fed (pc_graph (ms_pc s2)) x port \<or> port \<in> set (module_writes m) \<and> port \<notin> {}"
      if sp: "port \<in> supplied ms"
    proof (cases "map_of (ms_local s) port")
      case None
      then show ?thesis using x(4) sp by blast
    next
      case (Some k)
      then have "map_of (ms_local s2) port = Some ?nid" using l by (simp add: f)
      then show ?thesis by (rule local_okD [OF d2(2)]) (use x(1) sp in simp)
    qed
  qed simp_all
  then have "mod_ok ms m W R {} s'" using d2 by (simp add: mod_ok_def s' set_local_def)
  then show ?thesis using l by (simp add: s' set_local_def f)
qed

end

definition remap_spec :: "string \<Rightarrow> OpSpec \<Rightarrow> OpSpec" where
  "remap_spec mname spec =
    spec\<lparr>os_inputs := map (remap_name mname) (os_inputs spec), os_outputs := map (remap_name mname) (os_outputs spec)\<rparr>"

lemma spec_ok_output: "spec_ok spec \<Longrightarrow> \<exists>o'. os_outputs spec = [o'] \<and> o' \<noteq> []"
  by (auto simp: spec_ok_def length_Suc_conv)

lemma compile_op_cases:
  assumes e: "compile_op alloc backend mname (idx, spec) s = Inr s'" and sp: "os_outputs spec = [o']" "o' \<noteq> []"
    and rn: "\<forall>c x. map_of (ms_rename s) c = Some x \<longrightarrow> x = remap_name mname c"
  obtains rn s1 s2 pc where "\<forall>c x. map_of rn c = Some x \<longrightarrow> x = remap_name mname c"
    "new_node alloc backend mname (op_node_id mname idx) (remap_spec mname spec) (s\<lparr>ms_rename := rn\<rparr>) = Inr s1"
    "foldR (wire_input alloc mname (op_node_id mname idx)) (map (remap_name mname) (os_inputs spec)) s1 = Inr s2"
    "ms_local s2 = ms_local s" "map_of (ms_local s) (remap_name mname o') = None"
    "RegisterProducer (remap_name mname o') (op_node_id mname idx) mname (ms_pc s2) = Inr pc"
    "ms_pc s' = pc" "ms_local s' = AList.update (remap_name mname o') (op_node_id mname idx) (ms_local s)"
    "ms_rename s' = rn" "cm_tail (ms_cm s') = op_node_id mname idx"
proof -
  let ?out = "remap_name mname o'" and ?nid = "op_node_id mname idx"
  obtain rn1 where rn1: "remap_all mname (os_inputs spec) (ms_rename s) = (map (remap_name mname) (os_inputs spec), rn1)"
    "\<forall>c x. map_of rn1 c = Some x \<longrightarrow> x = remap_name mname c"
    using remap_all_names [OF rn] by blast
  obtain rn2 where rn2: "remap_all mname (os_outputs spec) rn1 = ([?out], rn2)"
    "\<forall>c x. map_of rn2 c = Some x \<longrightarrow> x = remap_name mname c"
    using remap_all_names [OF rn1(2), of "os_outputs spec"] sp(1) by auto
  obtain s1 s2 s3 where s: "new_node alloc backend mname ?nid (remap_spec mname spec) (s\<lparr>ms_rename := rn2\<rparr>) = Inr s1"
    "foldR (wire_input alloc mname ?nid) (map (remap_name mname) (os_inputs spec)) s1 = Inr s2"
    "compile_out mname ?nid ?out s2 = Inr s3" "s' = s3\<lparr>ms_cm := (ms_cm s3)\<lparr>cm_tail := ?nid\<rparr>\<rparr>"
    using e rn1(1) rn2(1) sp(1) by (auto simp: compile_op_def ok_iff Let_def remap_spec_def)
  have l1: "ms_local s1 = ms_local s" "ms_rename s1 = rn2" using s(1) by (auto simp: new_node_def ok_iff Let_def)
  have l2: "ms_local s2 = ms_local s \<and> ms_rename s2 = rn2"
    by (rule foldR_invariant [OF s(2), of "\<lambda>t. ms_local t = ms_local s \<and> ms_rename t = rn2"])
      (auto simp: l1 wire_input_def on_pc_def ok_iff Let_def split: if_splits prod.splits)
  obtain pc where pc: "map_of (ms_local s) ?out = None" "RegisterProducer ?out ?nid mname (ms_pc s2) = Inr pc"
    "s3 = (set_local ?out ?nid s2)\<lparr>ms_pc := pc\<rparr>"
    using s(3) sp(2) l2 by (auto simp: compile_out_def on_pc_def ok_iff give_up_def set_local_def split: if_splits)
  show ?thesis
    by (rule that [OF rn2(2) s(1,2) conjunct1 [OF l2] pc(1,2)]) (use l2 in \<open>simp_all add: s(4) pc(3) set_local_def\<close>)
qed

context compile_env
begin

lemma remapped_op:
  assumes sp: "spec_ok spec" "os_outputs spec = [o']" and b: "backend (remap_spec mname spec) = Ok op"
  shows "node_target (RealOp op) = [remap_name mname o']" "node_reads (RealOp op) = map (remap_name mname) (os_inputs spec)"
proof -
  have "\<not> is_noop (RealOp op)"
  proof
    assume "is_noop (RealOp op)"
    then have z: "os_type spec = ''identity''" "os_inputs spec \<noteq> []" "hd (map (remap_name mname) (os_inputs spec)) = remap_name mname o'"
      using noop [OF b] sp(2) by (simp_all add: remap_spec_def)
    then have "hd (os_inputs spec) = o'" using remap_name_inj by (metis hd_map)
    then have "take 1 (os_inputs spec) = os_outputs spec" using z(2) sp(2) by (simp add: take_Suc)
    then show False using sp(1) z(1) by (simp add: spec_ok_def)
  qed
  then show "node_target (RealOp op) = [remap_name mname o']" "node_reads (RealOp op) = map (remap_name mname) (os_inputs spec)"
    using ports [OF b] sp(2) by (simp_all add: node_target_def node_reads_def remap_spec_def)
qed

text \<open>The op node and its edges: the node writes its output, and everything it reads is produced before it.\<close>

lemma op_node_ok:
  assumes env: "module_env ms m R" and i: "pc_inv ms (W \<union> dn) (insert nid R) {} (ms_pc s)"
    and l: "local_ok (supplied ms) (set (module_writes m)) dn (pc_graph (ms_pc s)) (ms_local s)" "dn \<subseteq> dom (map_of (ms_local s))"
    and nid: "plain nid" "nid \<notin> R" and sp: "spec_ok spec" "os_outputs spec = [o']" and out: "out = remap_name (md_name m) o'" "out \<notin> W \<union> dn"
    and rd: "\<forall>c \<in> remap_name (md_name m) ` set (os_inputs spec). c \<in> set (module_writes m) \<longrightarrow> c \<in> insert out dn"
    and e: "new_node alloc backend (md_name m) nid (remap_spec (md_name m) spec) s = Inr s1"
      "foldR (wire_input alloc (md_name m) nid) (map (remap_name (md_name m)) (os_inputs spec)) s1 = Inr s2"
  shows "\<exists>a. pc_inv ms (W \<union> insert out dn) R {} (ms_pc s2) \<and> grows (supplied ms) (pc_graph (ms_pc s)) (pc_graph (ms_pc s2)) \<and>
    is_real (pc_graph (ms_pc s2)) a \<and> Find nid (pc_graph (ms_pc s2)) = Some a \<and> writes (pc_graph (ms_pc s2)) a out"
proof -
  let ?S = "supplied ms" and ?g = "pc_graph (ms_pc s2)"
  have free: "Find nid (pc_graph (ms_pc s)) = None" using graph_okD(5) [OF pc_invD(1) [OF i]] by simp
  have i0: "pc_inv ms (W \<union> dn) R {} (ms_pc s)" using pc_inv_mono [OF i, of "W \<union> dn" R "{}"] by auto
  have t: "set (node_target (RealOp op)) \<inter> (W \<union> dn) = {} \<and> set (node_target (RealOp op)) \<subseteq> W \<union> insert out dn"
    if "backend (remap_spec (md_name m) spec) = Ok op" for op
    using remapped_op(1) [OF sp that] out by simp
  have WW: "W \<union> dn \<subseteq> W \<union> insert out dn" by auto
  obtain op a where o: "backend (remap_spec (md_name m) spec) = Ok op" "pc_inv ms (W \<union> insert out dn) R {a} (ms_pc s1)"
    "grows ?S (pc_graph (ms_pc s)) (pc_graph (ms_pc s1))" "s1 = s\<lparr>ms_pc := ms_pc s1\<rparr>"
    "is_real (pc_graph (ms_pc s1)) a" "cn_op (node_at (pc_graph (ms_pc s1)) a) = RealOp op"
    "Find nid (pc_graph (ms_pc s1)) = Some a"
    by (rule new_node_ok [OF i0 e(1) nid WW t]) (use free in simp_all)
  have f1: "ms_local s1 = ms_local s" by (subst o(4), simp)
  note w = wire_inputs_ok [OF env e(2) o(2) _ _ o(7,5), unfolded f1, OF local_ok_grows [OF l(1) o(3)] l(2)]
  have gr: "grows ?S (pc_graph (ms_pc s1)) ?g" and i2: "pc_inv ms (W \<union> insert out dn) R {a} (ms_pc s2)" using w by blast+
  have a2: "is_real ?g a" "Find nid ?g = Some a" "cn_op (node_at ?g a) = RealOp op"
    using growsD(1,2,4) [OF gr] o(5,6,7) by simp_all
  have wr: "writes ?g a out" using a2 remapped_op(1) [OF sp o(1)] out(1) by (simp add: writes_def)
  have "reads_ok ?S ?g a"
    unfolding reads_ok_def a2(3) remapped_op(2) [OF sp o(1)] set_map
  proof (intro ballI impI)
    fix c assume c: "c \<in> remap_name (md_name m) ` set (os_inputs spec)" "c \<in> ?S"
    then have "covers ?g a c \<or> c \<in> set (module_writes m) \<and> c \<notin> dn" using w by blast
    then show "covers ?g a c" using rd c(1) wr by (auto simp: covers_def)
  qed
  then have "pc_inv ms (W \<union> insert out dn) R {} (ms_pc s2)" using i2 graph_ok_wired by (auto simp: pc_inv_def)
  then show ?thesis using a2(1,2) wr grows_trans [OF o(3) gr] by blast
qed

lemma compile_op_ok:
  assumes env: "module_env ms m R" and i: "mod_ok ms m W (insert (op_node_id (md_name m) idx) R) dn s"
    and idx: "op_node_id (md_name m) idx \<notin> R" and sp: "spec_ok spec"
    and out: "out = remap_name (md_name m) (hd (os_outputs spec))" "out \<in> set (module_writes m)" "out \<notin> W"
    and rd: "\<forall>c \<in> remap_name (md_name m) ` set (os_inputs spec). c \<in> set (module_writes m) \<longrightarrow> c \<in> insert out dn"
    and e: "compile_op alloc backend (md_name m) (idx, spec) s = Inr s'"
  shows "mod_ok ms m W R (insert out dn) s'"
proof -
  let ?nid = "op_node_id (md_name m) idx" and ?S = "supplied ms" and ?own = "set (module_writes m)"
  note ev = module_envD [OF env] and d = mod_okD [OF i]
  obtain o' where o': "os_outputs spec = [o']" "o' \<noteq> []" using spec_ok_output [OF sp] by blast
  have out': "out = remap_name (md_name m) o'" using out(1) o'(1) by simp
  obtain rn s1 s2 pc where rn: "\<forall>c x. map_of rn c = Some x \<longrightarrow> x = remap_name (md_name m) c"
    and s: "new_node alloc backend (md_name m) ?nid (remap_spec (md_name m) spec) (s\<lparr>ms_rename := rn\<rparr>) = Inr s1"
      "foldR (wire_input alloc (md_name m) ?nid) (map (remap_name (md_name m)) (os_inputs spec)) s1 = Inr s2"
    and l: "ms_local s2 = ms_local s" "map_of (ms_local s) out = None"
    and pc: "RegisterProducer out ?nid (md_name m) (ms_pc s2) = Inr pc"
    and s': "ms_pc s' = pc" "ms_local s' = AList.update out ?nid (ms_local s)" "ms_rename s' = rn" "cm_tail (ms_cm s') = ?nid"
    unfolding out' by (rule compile_op_cases [OF e o' d(4)])
  have nid: "plain ?nid" unfolding op_node_id_def by (rule ev(7))
  have "out \<notin> W \<union> dn" using out(3) d(3) l(2) by auto
  then obtain a where a: "pc_inv ms (W \<union> insert out dn) R {} (ms_pc s2)" "grows ?S (pc_graph (ms_pc s)) (pc_graph (ms_pc s2))"
    "is_real (pc_graph (ms_pc s2)) a" "Find ?nid (pc_graph (ms_pc s2)) = Some a" "writes (pc_graph (ms_pc s2)) a out"
    using op_node_ok [OF env _ _ _ nid idx sp o'(1) out' _ rd s, of W] d(1-3) by auto
  have "out \<in> set (written_columns m)" if "plain out" using module_writes_cases [OF out(2)] that by (auto simp: plain_def)
  then have reg: "pc_inv ms (W \<union> insert out dn) R {} pc" "grows ?S (pc_graph (ms_pc s2)) (pc_graph pc)"
    using RegisterProducer_ok [OF a(1) pc ev(2) _ _ a(4,3)] a(5) nid by (auto simp: plain_def)
  have a3: "is_real (pc_graph pc) a" "Find ?nid (pc_graph pc) = Some a" "writes (pc_graph pc) a out"
    using growsD(1,4,5) [OF reg(2)] a(3-5) by simp_all
  have "local_ok ?S ?own (insert out dn) (pc_graph pc) (AList.update out ?nid (ms_local s))"
    by (rule local_ok_update [OF local_ok_grows [OF d(2) grows_trans [OF a(2) reg(2)]] _ a3(2,1)])
      (use a3(3) nid in \<open>auto simp: plain_def\<close>)
  then show ?thesis unfolding mod_ok_def s' using reg(1) d(3) rn a3 by auto
qed

end

lemma def_before_use_later:
  "def_before_use (pre @ spec # rest) \<Longrightarrow> later \<in> set rest \<Longrightarrow> out \<in> set (os_outputs later) \<Longrightarrow> out \<notin> set (os_inputs spec)"
  by (induction pre) (auto simp: list_all_iff)

definition written_by :: "string \<Rightarrow> OpSpec list \<Rightarrow> string set" where
  "written_by mname specs = remap_name mname ` (\<Union>spec \<in> set specs. set (os_outputs spec))"

lemma module_writes_set: "set (module_writes m) = written_by (md_name m) (md_subgraph m)"
  by (auto simp: module_writes_def written_by_def)

lemma written_by_append: "written_by mname (xs @ ys) = written_by mname xs \<union> written_by mname ys"
  by (auto simp: written_by_def)

definition op_ids_from :: "string \<Rightarrow> nat \<Rightarrow> string set" where
  "op_ids_from mname k = {op_node_id mname j | j. k \<le> j}"

lemma op_ids_from_Suc: "op_ids_from mname k = insert (op_node_id mname k) (op_ids_from mname (Suc k))"
  by (auto simp: op_ids_from_def Suc_le_eq le_eq_less_or_eq)

context compile_env
begin

lemma compile_ops_ok:
  assumes "foldR (compile_op alloc backend (md_name m)) (enumerate (length pre) specs) s = Inr s'"
    and "md_subgraph m = pre @ specs" and env: "module_env ms m R" and R: "R \<inter> op_ids_from (md_name m) 0 = {}"
    and W: "W \<inter> set (module_writes m) = {}"
    and "mod_ok ms m W (op_ids_from (md_name m) (length pre) \<union> R) (written_by (md_name m) pre) s"
  shows "mod_ok ms m W R (set (module_writes m)) s'"
  using assms(1,2,6)
proof (induction specs arbitrary: pre s)
  case Nil
  have "pc_inv ms (W \<union> written_by (md_name m) pre) R {} (ms_pc s)"
    using pc_inv_mono [OF mod_okD(1) [OF Nil.prems(3)], of "W \<union> written_by (md_name m) pre" R "{}"] by auto
  then show ?case using Nil by (auto simp: mod_ok_def module_writes_set)
next
  case (Cons spec specs)
  let ?k = "length pre" and ?dn = "written_by (md_name m) pre"
  let ?out = "remap_name (md_name m) (hd (os_outputs spec))" and ?R = "op_ids_from (md_name m) (Suc (length pre)) \<union> R"
  note ev = module_envD [OF env]
  obtain s1 where s1: "compile_op alloc backend (md_name m) (?k, spec) s = Inr s1"
    "foldR (compile_op alloc backend (md_name m)) (enumerate (length (pre @ [spec])) specs) s1 = Inr s'"
    using Cons.prems(1) by (auto simp: ok_iff)
  have m: "module_ok m" using ev(1,2) by (auto simp: modules_ok_def list_all_iff)
  then have sp: "spec_ok spec" using Cons.prems(2) by (simp add: module_ok_def)
  then have outs: "set (os_outputs spec) = {hd (os_outputs spec)}" by (auto simp: spec_ok_def length_Suc_conv)
  have env': "module_env ms m ?R" using env ev(2) by (auto simp: module_env_def op_ids_from_def)
  have i: "mod_ok ms m W (insert (op_node_id (md_name m) ?k) ?R) ?dn s"
    using Cons.prems(3) by (simp add: op_ids_from_Suc [of "md_name m" ?k])
  have idx: "op_node_id (md_name m) ?k \<notin> ?R"
    using R op_node_id_inj [of "md_name m"] by (fastforce simp: op_ids_from_def)
  have own: "?out \<in> set (module_writes m)" using Cons.prems(2) outs by (auto simp: module_writes_set written_by_def)
  have "c \<in> insert ?out ?dn"
    if c: "c \<in> remap_name (md_name m) ` set (os_inputs spec)" "c \<in> set (module_writes m)" for c
  proof -
    obtain c0 where c0: "c = remap_name (md_name m) c0" "c0 \<in> set (os_inputs spec)" using c(1) by blast
    obtain w d where "w \<in> set (md_subgraph m)" "d \<in> set (os_outputs w)" "c = remap_name (md_name m) d"
      using c(2) by (auto simp: module_writes_set written_by_def)
    then have w: "w \<in> set (md_subgraph m)" "c0 \<in> set (os_outputs w)" using c0(1) remap_name_inj by blast+
    have "w \<notin> set specs"
      using m Cons.prems(2) def_before_use_later [of pre spec specs w c0] w(2) c0(2) by (auto simp: module_ok_def)
    then show ?thesis using w Cons.prems(2) outs c0(1) by (auto simp: written_by_def)
  qed
  moreover have "?out \<notin> W" using W own by blast
  ultimately have "mod_ok ms m W ?R (insert ?out ?dn) s1"
    using compile_op_ok [OF env' i idx sp refl own _ _ s1(1)] by blast
  moreover have "insert ?out ?dn = written_by (md_name m) (pre @ [spec])"
    by (simp add: written_by_def outs)
  ultimately show ?case using Cons.IH [OF s1(2)] Cons.prems(2) by simp
qed

lemma compile_output_ok:
  assumes env: "module_env ms m R" and i: "mod_ok ms m W R (set (module_writes m)) s" and p: "plain port" "port \<in> set (md_outputs m)"
    and e: "compile_output alloc backend (md_name m) port s = Inr s'"
  shows "mod_ok ms m W R (set (module_writes m)) s'"
proof (cases "map_of (ms_local s) port")
  case (Some k)
  then have "ms_pc s' = ms_pc s" "ms_local s' = ms_local s" "ms_rename s' = ms_rename s" "cm_tail (ms_cm s') = cm_tail (ms_cm s)"
    using e by (auto simp: compile_output_def)
  then show ?thesis using i by (simp add: mod_ok_def)
next
  case None
  let ?nid = "md_name m @ ''/@out:'' @ port" and ?own = "set (module_writes m)" and ?S = "supplied ms"
  note ev = module_envD [OF env] and d = mod_okD [OF i]
  obtain s1 s2 pc where s: "add_node alloc backend (md_name m) ?nid (identity_spec port) s = Inr s1"
    "wire_input alloc (md_name m) ?nid port s1 = Inr s2"
    "RegisterProducer port ?nid (md_name m) (ms_pc s2) = Inr pc"
    and s': "ms_pc s' = pc" "ms_local s' = AList.update port ?nid (ms_local s2)" "ms_rename s' = ms_rename s2" "cm_tail (ms_cm s') = ?nid"
    using e None by (auto simp: compile_output_def ok_iff Let_def on_pc_def set_local_def)
  have nid: "?nid = md_name m @ CHR ''/'' # CHR ''@'' # ''out:'' @ port" by simp
  obtain x where m2: "mod_ok ms m W R ?own s2"
    and x: "Find ?nid (pc_graph (ms_pc s2)) = Some x" "is_real (pc_graph (ms_pc s2)) x" "plain ?nid"
    using port_node_ok [OF env i p(1) nid s(1,2)] by blast
  note d2 = mod_okD [OF m2]
  have wr: "port \<in> set (written_columns m)" using p(2) by (simp add: written_columns_def)
  have ns: "port \<notin> ?S"
  proof
    assume "port \<in> ?S"
    then obtain m' where m': "m' \<in> set ms" "port \<in> set (module_writes m')" by (auto simp: supplied_def)
    then have "port \<in> set (written_columns m')" using module_writes_cases [OF m'(2)] p(1) by (auto simp: plain_def)
    then have "md_name m' = md_name m"
      using tables_okD(1) [OF pc_invD(2) [OF d(1)]] m'(1) ev(2) wr p(1) unfolding owned_def by (metis option.inject)
    then have "m' = m" using ev(1,2) m'(1) by (auto simp: modules_ok_def distinct_map inj_on_def)
    then show False using m'(2) d(3) None by auto
  qed
  have reg: "pc_inv ms (W \<union> ?own) R {} pc \<and> grows ?S (pc_graph (ms_pc s2)) (pc_graph pc)"
    using RegisterProducer_ok [OF d2(1) s(3) ev(2) wr _ x(1,2)] ns x(3) by (auto simp: plain_def)
  have x3: "Find ?nid (pc_graph pc) = Some x" "is_real (pc_graph pc) x" using growsD(1,4) [OF conjunct2 [OF reg]] x by simp_all
  have "local_ok ?S ?own ?own (pc_graph pc) (AList.update port ?nid (ms_local s2))"
    by (rule local_ok_update [OF local_ok_grows [OF d2(2) conjunct2 [OF reg]] _ x3]) (use ns x(3) in \<open>auto simp: plain_def\<close>)
  then show ?thesis unfolding mod_ok_def s' using reg d2(3,4) x3 by auto
qed

lemma compile_noop_ok:
  assumes env: "module_env ms m R" and i: "mod_ok ms m W R dn s" and e: "compile_noop alloc backend (md_name m) s = Inr s'"
  shows "mod_ok ms m W R dn s' \<and> cm_tail (ms_cm s') \<noteq> []"
proof (cases "cm_tail (ms_cm s) = []")
  case False
  then show ?thesis using e i by (simp add: compile_noop_def)
next
  case True
  let ?nid = "md_name m @ ''/@noop''"
  note ev = module_envD [OF env] and d = mod_okD [OF i]
  obtain s1 where s1: "add_node alloc backend (md_name m) ?nid (identity_spec (''@noop:'' @ md_name m)) s = Inr s1"
    "s' = s1\<lparr>ms_cm := (ms_cm s1)\<lparr>cm_tail := ?nid\<rparr>\<rparr>"
    using e True by (auto simp: compile_noop_def ok_iff Let_def)
  have nid: "plain ?nid" "?nid \<notin> R" using ev(5,6) [of "''noop''"] by simp_all
  note b = boundary_ok [OF d(1) s1(1) nid]
  have f1: "ms_local s1 = ms_local s" "ms_rename s1 = ms_rename s" "ms_cm s1 = ms_cm s"
    by (subst b(3), simp)+
  have "mod_ok ms m W R dn s1" by (rule mod_ok_step [OF i b(1,2)]) (simp_all add: f1)
  then show ?thesis using b(4) nid(1) by (auto simp: mod_ok_def s1(2) plain_def)
qed

lemma compile_dependency_ok:
  assumes env: "module_env ms m R" and i: "mod_ok ms m W R dn s" and t: "tail_id dep \<notin> supplied ms" "cm_tail (ms_cm s) \<noteq> []"
    and e: "compile_dependency alloc backend (md_name m) dep s = Inr s'"
  shows "mod_ok ms m W R dn s' \<and> cm_tail (ms_cm s') \<noteq> []"
proof -
  let ?nid = "md_name m @ ''/@dep:'' @ dep"
  note ev = module_envD [OF env] and d = mod_okD [OF i]
  obtain s1 s2 s3 where s1: "add_node alloc backend (md_name m) ?nid (identity_spec (md_name m)) s = Inr s1"
    and s2: "on_pc (order_after alloc ?nid dep) s1 = Inr s2"
    and s3: "(if ms_first s2 \<noteq> [] \<and> ms_first s2 \<noteq> ?nid
       then on_pc (on_graph (AddDependency (ms_first s2) ?nid)) s2 else Inr s2) = Inr s3"
    and s': "s' = (if cm_tail (ms_cm s3) = [] then s3\<lparr>ms_cm := (ms_cm s3)\<lparr>cm_tail := ?nid\<rparr>\<rparr> else s3)"
    using e unfolding compile_dependency_def ok_iff Let_def sum.inject by blast
  have nid: "plain ?nid" "?nid \<notin> R" using ev(5,6) [of "''dep:'' @ dep"] by simp_all
  note b = boundary_ok [OF d(1) s1 nid]
  have f1: "ms_local s1 = ms_local s" "ms_rename s1 = ms_rename s" "ms_cm s1 = ms_cm s"
    by (subst b(3), simp)+
  obtain pc where pc: "order_after alloc ?nid dep (ms_pc s1) = Inr pc" "s2 = s1\<lparr>ms_pc := pc\<rparr>"
    using s2 by (auto simp: on_pc_def ok_iff)
  note o = order_after_ok [OF b(1) fresh ev(3) t(1) pc(1)]
  have st: "pc_inv ms (W \<union> dn) R {} (ms_pc s3) \<and> grows (supplied ms) (pc_graph pc) (pc_graph (ms_pc s3)) \<and>
    ms_local s3 = ms_local s1 \<and> ms_rename s3 = ms_rename s1 \<and> ms_cm s3 = ms_cm s1"
  proof (cases "ms_first s2 \<noteq> [] \<and> ms_first s2 \<noteq> ?nid")
    case True
    then obtain q where q: "on_graph (AddDependency (ms_first s2) ?nid) pc = Inr q" "s3 = s2\<lparr>ms_pc := q\<rparr>"
      using s3 pc(2) by (auto simp: on_pc_def ok_iff)
    from on_graph_dependency [OF conjunct1 [OF o] q(1)]
    have "pc_inv ms (W \<union> dn) R {} q \<and> grows (supplied ms) (pc_graph pc) (pc_graph q)" by blast
    then show ?thesis by (simp add: q(2) pc(2))
  next
    case False
    then have "s3 = s2" using s3 by auto
    then show ?thesis using o by (simp add: pc(2))
  qed
  then have "grows (supplied ms) (pc_graph (ms_pc s)) (pc_graph (ms_pc s3))"
    using grows_trans [OF b(2)] grows_trans [OF conjunct2 [OF o]] by blast
  then have "mod_ok ms m W R dn s3" using mod_ok_step [OF i] st f1 by simp
  moreover have "s' = s3" using s' st f1(3) t(2) by simp
  ultimately show ?thesis using st f1(3) t(2) by simp
qed

end

definition op_ids :: "Module list \<Rightarrow> string set" where
  "op_ids ms = (\<Union>m \<in> set ms. op_ids_from (md_name m) 0)"

lemma tail_id_not_supplied: "CHR ''/'' \<notin> set d \<Longrightarrow> tail_id d \<notin> supplied ms"
proof
  assume d: "CHR ''/'' \<notin> set d" and "tail_id d \<in> supplied ms"
  then obtain m where "tail_id d \<in> set (module_writes m)" unfolding supplied_def by blast
  then obtain t where "tail_id d = CHR ''@'' # md_name m @ CHR ''/'' # t"
    using module_writes_cases placeholder_ids(6,8) by blast
  then have "CHR ''/'' \<in> set (tail_id d)" by simp
  then show False using d by (simp add: tail_id_def)
qed

lemma tables_ok_info: "tables_ok ms (pc\<lparr>pc_info := x\<rparr>) = tables_ok ms pc"
  by (simp add: tables_ok_def)

context compile_env
begin

lemma CompileModule_ok:
  assumes ok: "modules_ok ms" "ms = dns @ m # rest" and dep: "\<forall>d \<in> set (md_deps m). CHR ''/'' \<notin> set d"
    and i: "pc_inv ms (supplied dns) (op_ids (m # rest)) {} pc" and e: "CompileModule alloc backend m pc = Inr pc'"
  shows "pc_inv ms (supplied (dns @ [m])) (op_ids rest) {} pc'"
proof -
  let ?n = "md_name m" and ?R = "op_ids rest" and ?own = "set (module_writes m)"
  obtain s1 s2 s3 s4 s5 pc5 where s1: "foldR (compile_input alloc backend ?n) (md_inputs m) (module_state_new m pc) = Inr s1"
    and s2: "foldR (compile_op alloc backend ?n) (enumerate 0 (md_subgraph m)) s1 = Inr s2"
    and s3: "foldR (compile_output alloc backend ?n) (md_outputs m) s2 = Inr s3"
    and s4: "compile_noop alloc backend ?n s3 = Inr s4"
    and s5: "foldR (compile_dependency alloc backend ?n) (md_deps m) s4 = Inr s5"
    and s6: "replace_tail ?n (cm_tail (ms_cm s5)) (ms_pc s5) = Inr pc5" "pc' = pc5\<lparr>pc_info := AList.update ?n (ms_cm s5) (pc_info pc5)\<rparr>"
    using e by (auto simp: CompileModule_def ok_iff Let_def)
  have m: "m \<in> set ms" "module_ok m" using ok by (auto simp: modules_ok_def)
  have pl: "plain c" if "c \<in> set (md_inputs m) \<or> c \<in> set (md_outputs m)" for c
    using m(2) that by (auto simp: module_ok_def list_all_iff)
  have env: "module_env ms m (op_ids (m # rest))" "module_env ms m ?R"
    using ok by (auto simp: module_env_def op_ids_def op_ids_from_def)
  have "op_node_id ?n j \<noteq> op_node_id (md_name m') k" if "m' \<in> set rest" for m' j k
    using op_node_id_other(1) no_slash [OF ok(1)] ok that by (auto simp: modules_ok_def)
  then have R: "?R \<inter> op_ids_from ?n 0 = {}" by (fastforce simp: op_ids_def op_ids_from_def)
  have W: "supplied dns \<inter> ?own = {}"
  proof -
    have "m' \<noteq> m" if "m' \<in> set dns" for m' using ok that by (auto simp: modules_ok_def)
    moreover have "[] \<notin> supplied ms" using module_envD(4) [OF env(2)] .
    ultimately show ?thesis
      using producer_unique [OF ok(1) tables_okD(1) [OF pc_invD(2) [OF i]] m(1)] ok(2) unfolding supplied_def by fastforce
  qed
  have "mod_ok ms m (supplied dns) (op_ids (m # rest)) {} s1 \<and>
      (\<forall>c k. map_of (ms_local s1) c = Some k \<longrightarrow> k = ?n @ ''/@in:'' @ c)"
  proof (rule foldR_invariant [OF s1])
    show "mod_ok ms m (supplied dns) (op_ids (m # rest)) {} (module_state_new m pc) \<and>
        (\<forall>c k. map_of (ms_local (module_state_new m pc)) c = Some k \<longrightarrow> k = ?n @ ''/@in:'' @ c)"
      using i by (simp add: mod_ok_def module_state_new_def local_ok_def)
  qed (use compile_input_ok [OF env(1)] pl in blast)
  then have "mod_ok ms m (supplied dns) ?R ?own s2"
    using compile_ops_ok [of m "[]" "md_subgraph m" s1 s2 ms ?R "supplied dns"] s2 env(2) R W
    by (simp add: op_ids_def written_by_def)
  then have "mod_ok ms m (supplied dns) ?R ?own s3"
    by (rule foldR_invariant [OF s3]) (use compile_output_ok [OF env(2)] pl in blast)
  from compile_noop_ok [OF env(2) this s4]
  have i5: "mod_ok ms m (supplied dns) ?R ?own s5 \<and> cm_tail (ms_cm s5) \<noteq> []"
    by (rule foldR_invariant [OF s5]) (use compile_dependency_ok [OF env(2)] dep tail_id_not_supplied in blast)
  note d = mod_okD [OF conjunct1 [OF i5]]
  obtain x where "Find (cm_tail (ms_cm s5)) (pc_graph (ms_pc s5)) = Some x" "is_real (pc_graph (ms_pc s5)) x"
    using d(5) i5 by blast
  from replace_tail_ok [OF d(1) s6(1) this]
  have i6: "pc_inv ms (supplied dns \<union> ?own) ?R {} pc5" by blast
  have "pc_graph pc' = pc_graph pc5" "tables_ok ms pc'"
    using pc_invD(2) [OF i6] by (simp_all add: s6(2) tables_ok_info)
  moreover have "supplied (dns @ [m]) = supplied dns \<union> ?own" by (auto simp: supplied_def)
  ultimately show ?thesis using pc_invD(1) [OF i6] by (simp add: pc_inv_def)
qed

lemma CompileModules_ok:
  assumes "modules_ok ms" "\<forall>m \<in> set ms. \<forall>d \<in> set (md_deps m). CHR ''/'' \<notin> set d"
  shows "ms = dns @ rest \<Longrightarrow> pc_inv ms (supplied dns) (op_ids rest) {} pc \<Longrightarrow>
    foldR (CompileModule alloc backend) rest pc = Inr pc' \<Longrightarrow> pc_inv ms (supplied ms) {} {} pc'"
proof (induction rest arbitrary: dns pc)
  case Nil
  then show ?case by (simp add: op_ids_def)
next
  case (Cons m rest)
  obtain pc1 where 1: "CompileModule alloc backend m pc = Inr pc1" "foldR (CompileModule alloc backend) rest pc1 = Inr pc'"
    using Cons.prems(3) by (auto simp: ok_iff)
  have "\<forall>d \<in> set (md_deps m). CHR ''/'' \<notin> set d" using assms(2) Cons.prems(1) by simp
  from CompileModule_ok [OF assms(1) Cons.prems(1) this Cons.prems(2) 1(1)]
  show ?case using Cons.IH [of "dns @ [m]"] Cons.prems(1) 1(2) by simp
qed

lemma Compile_ok:
  assumes ok: "modules_ok ms" "set names \<subseteq> md_name ` set ms"
    and e: "Compile alloc backend ms names ComputeGraph_new = Inr pc"
  shows "pc_inv ms (supplied ms) {} {} pc" "\<not> HasPlaceholders (pc_graph pc)"
proof -
  obtain pc1 where c: "CollectColumnProducers ms (PipelineCompiler_new ComputeGraph_new) = Inr pc1"
    and v: "\<forall>e. foldR (\<lambda>m _. check_dependencies names m) ms () \<noteq> Throw e"
    and f: "foldR (CompileModule alloc backend) ms pc1 = Inr pc" and h: "\<not> HasPlaceholders (pc_graph pc)"
    using e by (cases "foldR (\<lambda>m _. check_dependencies names m) ms ()")
      (auto simp: Compile_def ok_iff or_give_up_def give_up_def split: if_splits)
  show "\<not> HasPlaceholders (pc_graph pc)" by (rule h)
  note cc = CollectColumnProducers_effect [OF c]
  have g: "pc_graph pc1 = ComputeGraph_new" "pc_producer pc1 = []" "pc_placeholder pc1 = []" "pc_tail pc1 = []"
    using cc by (auto simp: collected_def PipelineCompiler_new_def)
  have a: "\<not> is_real ComputeGraph_new x" "Find k ComputeGraph_new = None" for x k
    by (simp_all add: ComputeGraph_new_def is_real_def addrs_def Find_def)
  have "pc_inv ms (supplied []) (op_ids ms) {} pc1"
    using cc graph_inv_new a by (simp add: pc_inv_def graph_ok_def tables_ok_def g owned_def writes_def)
  moreover have "CHR ''/'' \<notin> set d" if d: "m \<in> set ms" "d \<in> set (md_deps m)" for m d
  proof -
    have "foldR (\<lambda>m _. check_dependencies names m) ns () = Ok () \<Longrightarrow> m \<in> set ns \<Longrightarrow> d \<in> set names" for ns
      using d(2) by (induction ns) (auto simp: ok_iff check_dependencies_def find_None_iff split: option.splits)
    moreover have "foldR (\<lambda>m _. check_dependencies names m) ms () = Ok ()"
      using v by (cases "foldR (\<lambda>m _. check_dependencies names m) ms ()") auto
    ultimately have "d \<in> md_name ` set ms" using d(1) ok(2) by blast
    then show ?thesis using no_slash [OF ok(1)] by auto
  qed
  ultimately show "pc_inv ms (supplied ms) {} {} pc" using CompileModules_ok [OF ok(1), of "[]" ms] f by simp
qed

end

lemma distinct_concat_map:
  "distinct xs \<Longrightarrow> (\<And>x. x \<in> set xs \<Longrightarrow> distinct (f x)) \<Longrightarrow>
    (\<And>x y. x \<in> set xs \<Longrightarrow> y \<in> set xs \<Longrightarrow> x \<noteq> y \<Longrightarrow> set (f x) \<inter> set (f y) = {}) \<Longrightarrow> distinct (concat (map f xs))"
  by (induction xs) fastforce+

lemma pc_inv_wired:
  assumes i: "pc_inv ms (supplied ms) {} {} pc" and h: "\<not> HasPlaceholders (pc_graph pc)"
  shows "graph_inv (pc_graph pc)" "single_writer (pc_graph pc)" "wired (pc_graph pc)"
proof -
  let ?g = "pc_graph pc"
  note d = graph_okD [OF pc_invD(1) [OF i]]
  show gi: "graph_inv ?g" by (rule d(1))
  note dist = graph_invD(1) [OF gi]
  have at: "node = node_at ?g a \<and> is_real ?g a" if "(a, node) \<in> set (cg_nodes ?g)" for a node
  proof -
    have "map_of (cg_nodes ?g) a = Some node" using that dist by (simp add: addrs_def)
    moreover have "cn_op node \<noteq> PlaceholderOp n" for n using h that by (auto simp: HasPlaceholders_def list_ex_iff)
    moreover have "a \<in> set (addrs ?g)" using that by (force simp: addrs_def)
    ultimately show ?thesis by (auto simp: is_real_def node_at_def)
  qed
  have real: "is_real ?g a" if "a \<in> set (addrs ?g)" for a
    using that at node_at_mem [OF dist] by blast
  have np: "\<not> stands_for ?g a n" for a n using real real_not_placeholder by (auto simp: stands_for_def)
  have "distinct (cg_nodes ?g)" using dist by (simp add: addrs_def distinct_map)
  moreover have "set (node_target (cn_op (snd x))) \<inter> set (node_target (cn_op (snd y))) = {}"
    if "x \<in> set (cg_nodes ?g)" "y \<in> set (cg_nodes ?g)" "x \<noteq> y" for x y
  proof -
    have x: "writes ?g (fst x) n" if "n \<in> set (node_target (cn_op (snd x)))" "x \<in> set (cg_nodes ?g)" for n x
      using at [of "fst x" "snd x"] that by (auto simp: writes_def)
    have "fst x \<noteq> fst y" using that dist by (auto simp: addrs_def distinct_map inj_on_def)
    then show ?thesis using x d(3) that(1,2) by blast
  qed
  moreover have "distinct (node_target op)" for op by (cases "op_outputs op") (simp_all add: node_target_def)
  ultimately show "single_writer ?g"
    unfolding single_writer_def case_prod_unfold by (intro distinct_concat_map) auto
  have edge: "(y, a) \<in> set (edges ?g)" if "y \<in> set (deps_of ?g a)" "is_real ?g a" for y a
    using that by (force simp: edges_def is_real_def)
  have "(b, a) \<in> (set (edges ?g))\<^sup>+"
    if ab: "(a, node) \<in> set (cg_nodes ?g)" "(b, w) \<in> set (cg_nodes ?g)" "a \<noteq> b"
      and n: "n \<in> set (node_target (cn_op w))" "n \<in> set (node_reads (cn_op node))" for a b node w n
  proof -
    note A = at [OF ab(1)] and B = at [OF ab(2)]
    have w: "writes ?g b n" using B n(1) by (simp add: writes_def)
    then have "covers ?g a n" using d(2,4) A n(2) unfolding reads_ok_def by blast
    then consider "b \<in> set (deps_of ?g a)" | x where "x \<in> set (deps_of ?g a)" "is_real ?g x" "b \<in> set (deps_of ?g x)"
      using d(3) [OF w] ab(3) np unfolding covers_def fed_def by blast
    then show ?thesis using edge A by cases (blast intro: trancl_into_trancl)+
  qed
  then show "wired ?g" unfolding wired_def list_all_iff by blast
qed

end
