(* ===== verification/PipelineWiring.thy ===== *)
theory PipelineWiring
  imports ModuleWiring
begin

text \<open>
  The compiler as a whole, on the CPU backend: the graph of a compiled pipeline has one writer per column and orders every
  reader after the writer, so it can be run in any order its edges allow (\<^verbatim>\<open>GraphAgree\<close>); what the compiler rejects; and
  where its wiring falls short of its documentation.
\<close>

section \<open>The CPU backend\<close>

lemma created_by:
  assumes "create_op spec = Ok op"
  shows "create_binary_op spec = Ok (Some op) \<or> create_unary_op spec = Ok (Some op) \<or> create_reduce_op spec = Ok (Some op) \<or>
    create_compare_op spec = Ok (Some op) \<or> create_special_op spec = Ok (Some op)"
  using assms by (auto simp: create_op_def try_create_def ok_iff split: option.splits)

definition made_of :: "OpSpec \<Rightarrow> TensorOp \<Rightarrow> bool" where
  "made_of spec op = (op_base op = base_of spec \<and> (\<forall>b. op = IdentityOp b \<longrightarrow> os_type spec = ''identity''))"

lemma create_binary_made: "create_binary_op spec = Ok (Some op) \<Longrightarrow> made_of spec op"
  by (auto simp: create_binary_op_def Let_def made_of_def ok_iff split: if_splits)

lemma create_unary_made: "create_unary_op spec = Ok (Some op) \<Longrightarrow> made_of spec op"
  by (auto simp: create_unary_op_def Let_def made_of_def ok_iff split: if_splits)

lemma create_reduce_made: "create_reduce_op spec = Ok (Some op) \<Longrightarrow> made_of spec op"
  by (auto simp: create_reduce_op_def Let_def made_of_def ok_iff split: if_splits)

lemma create_compare_made: "create_compare_op spec = Ok (Some op) \<Longrightarrow> made_of spec op"
  by (auto simp: create_compare_op_def Let_def made_of_def ok_iff split: if_splits)

lemma create_special_made: "create_special_op spec = Ok (Some op) \<Longrightarrow> made_of spec op"
  by (simp add: create_special_op_def Let_def split: if_splits) (auto simp: made_of_def ok_iff)

lemma create_identity: "os_type spec = ''identity'' \<Longrightarrow> create_op spec = Ok (IdentityOp (base_of spec))"
  by (simp add: create_op_def try_create_def create_binary_op_def create_unary_op_def create_reduce_op_def
      create_compare_op_def create_special_op_def Let_def)

lemma is_noop_iff: "is_noop (RealOp op) \<longleftrightarrow> (\<exists>b. op = IdentityOp b \<and> ob_inputs b \<noteq> [] \<and> ob_outputs b \<noteq> [] \<and>
    hd (ob_inputs b) = hd (ob_outputs b))"
  by (cases op) (auto simp: hd_conv_nth)

lemma cpu_backend_env: "(\<And>g. alloc g \<notin> set (addrs g)) \<Longrightarrow> compile_env alloc CpuBackend"
proof unfold_locales
  fix spec op assume c: "CpuBackend spec = Ok op"
  then have m: "made_of spec op" unfolding CpuBackend_def
    using created_by create_binary_made create_unary_made create_reduce_made create_compare_made create_special_made by blast
  then show "op_inputs (RealOp op) = os_inputs spec \<and> op_outputs (RealOp op) = os_outputs spec" by (simp add: made_of_def)
  show "is_noop (RealOp op) \<longleftrightarrow> os_type spec = ''identity'' \<and> os_inputs spec \<noteq> [] \<and> os_outputs spec \<noteq> [] \<and>
      hd (os_inputs spec) = hd (os_outputs spec)"
    using m create_identity [of spec] c by (auto simp: is_noop_iff made_of_def CpuBackend_def)
qed

definition next_addr :: "ComputeGraph \<Rightarrow> nat" where
  "next_addr g = Suc (fold max (addrs g) 0)"

lemma next_addr_fresh: "next_addr g \<notin> set (addrs g)"
proof -
  have "\<forall>x \<in> set xs. x \<le> fold max xs a" "a \<le> fold max xs a" for xs and a :: nat
    by (induction xs arbitrary: a) (auto, (meson max.boundedE)+)
  then show ?thesis unfolding next_addr_def by (metis Suc_n_not_le_n)
qed

interpretation cpu: compile_env next_addr CpuBackend
  by (rule cpu_backend_env) (rule next_addr_fresh)

lemma cpu_compiled:
  assumes "\<And>g. alloc g \<notin> set (addrs g)" "modules_ok ms" "set names \<subseteq> set (map md_name ms)"
    and "Compile alloc CpuBackend ms names ComputeGraph_new = Inr pc"
  shows "pc_inv ms (supplied ms) {} {} pc" "\<not> HasPlaceholders (pc_graph pc)"
  using compile_env.Compile_ok [OF cpu_backend_env [OF assms(1)] assms(2) _ assms(4)] assms(3) by simp_all

section \<open>Properties\<close>

text \<open>C28. Compiling well-formed modules (one named output per op, no column read before its own module writes it, module names
  without a slash), in any order of registration and with forward references between them, gives a consistent graph
  without placeholders in which every column has one writer and every reader of a column is ordered after its writer.\<close>

theorem Compile_wired:
  assumes "\<And>g. alloc g \<notin> set (addrs g)" "modules_ok ms" "set names \<subseteq> set (map md_name ms)"
    and "Compile alloc CpuBackend ms names ComputeGraph_new = Inr pc"
  shows "graph_inv (pc_graph pc) \<and> single_writer (pc_graph pc) \<and> wired (pc_graph pc) \<and> \<not> HasPlaceholders (pc_graph pc)"
  using cpu_compiled [OF assms] pc_inv_wired [OF cpu_compiled [OF assms]] by blast

section \<open>Rejections\<close>

definition conflict :: "Module list \<Rightarrow> bool" where
  "conflict ms = list_ex (\<lambda>m. list_ex (\<lambda>m'. md_name m \<noteq> md_name m' \<and>
    list_ex (\<lambda>c. plain c \<and> c \<in> set (written_columns m')) (written_columns m)) ms) ms"

definition unknown_dependency :: "string list \<Rightarrow> Module list \<Rightarrow> bool" where
  "unknown_dependency names ms = list_ex (\<lambda>m. list_ex (\<lambda>d. d \<notin> set names) (md_deps m)) ms"

text \<open>The columns in the table come from the modules seen so far.\<close>

definition from_modules :: "Module list \<Rightarrow> PipelineCompiler \<Rightarrow> bool" where
  "from_modules ms pc = (\<forall>c x. map_of (pc_module pc) c = Some x \<longrightarrow>
    plain c \<and> (\<exists>m \<in> set ms. md_name m = x \<and> c \<in> set (written_columns m)))"

lemma collect_column_cases:
  "collect_column mname c pc = Inr pc' \<Longrightarrow> map_of (pc_module pc') = (if plain c then (map_of (pc_module pc))(c \<mapsto> mname) else map_of (pc_module pc))
    \<and> pc_graph pc' = pc_graph pc"
  "collect_column mname c pc = Inl e \<Longrightarrow> plain c \<and> (\<exists>x msg. map_of (pc_module pc) c = Some x \<and> x \<noteq> mname \<and>
    e = (InvalidArgument msg, pc_graph pc))"
  by (auto simp: collect_column_def plain_def give_up_def fun_upd_idem split: if_splits option.splits)

lemma collect_columns_from:
  assumes m: "m \<in> set ms" and "set cols \<subseteq> set (written_columns m)" and "from_modules ms pc" "pc_graph pc = g"
  shows "case foldR (collect_column (md_name m)) cols pc of
    Inr pc' \<Rightarrow> from_modules ms pc' \<and> pc_graph pc' = g
  | Inl e \<Rightarrow> conflict ms \<and> (\<exists>msg. e = (InvalidArgument msg, g))"
  using assms(2-4)
proof (induction cols arbitrary: pc)
  case (Cons c cols)
  show ?case
  proof (cases "collect_column (md_name m) c pc")
    case (Inl e)
    then obtain x msg where x: "plain c" "map_of (pc_module pc) c = Some x" "x \<noteq> md_name m" "e = (InvalidArgument msg, g)"
      using collect_column_cases(2) Cons.prems(3) by blast
    then obtain m' where "m' \<in> set ms" "md_name m' = x" "c \<in> set (written_columns m')"
      using Cons.prems(2) unfolding from_modules_def by blast
    then have "conflict ms" using m x(1,3) Cons.prems(1) unfolding conflict_def list_ex_iff by (metis list.set_intros(1) subsetD)
    then show ?thesis using Inl x(4) by simp
  next
    case (Inr pc1)
    note u = collect_column_cases(1) [OF Inr]
    have "from_modules ms pc1"
      using Cons.prems m u unfolding from_modules_def by (auto split: if_splits)
    moreover have "pc_graph pc1 = g" using u Cons.prems(3) by simp
    ultimately show ?thesis using Cons.IH [of pc1] Cons.prems(1) Inr by simp
  qed
qed simp

lemma CollectColumnProducers_from:
  "set ns \<subseteq> set ms \<Longrightarrow> from_modules ms pc \<Longrightarrow> pc_graph pc = g \<Longrightarrow> case CollectColumnProducers ns pc of
    Inr pc' \<Rightarrow> pc_graph pc' = g | Inl e \<Rightarrow> conflict ms \<and> (\<exists>msg. e = (InvalidArgument msg, g))"
proof (induction ns arbitrary: pc)
  case (Cons m ns)
  have c: "case foldR (collect_column (md_name m)) (written_columns m) pc of
      Inr pc' \<Rightarrow> from_modules ms pc' \<and> pc_graph pc' = g
    | Inl e \<Rightarrow> conflict ms \<and> (\<exists>msg. e = (InvalidArgument msg, g))"
    using collect_columns_from [of m ms "written_columns m" pc] Cons.prems by simp
  show ?case
  proof (cases "foldR (collect_column (md_name m)) (written_columns m) pc")
    case (Inl e)
    then show ?thesis using c by (simp add: CollectColumnProducers_def)
  next
    case (Inr pc1)
    then have "from_modules ms pc1" "pc_graph pc1 = g" using c by simp_all
    then show ?thesis using Cons.IH [of pc1] Cons.prems(1) Inr by (simp add: CollectColumnProducers_def)
  qed
qed (simp add: CollectColumnProducers_def)

lemma owned_no_conflict: "owned ms cm \<Longrightarrow> \<not> conflict ms"
  unfolding owned_def conflict_def list_ex_iff by (metis option.inject)

lemma check_dependencies_cases:
  "case foldR (\<lambda>m _. check_dependencies names m) ms () of
    Inr _ \<Rightarrow> \<not> unknown_dependency names ms | Inl e \<Rightarrow> unknown_dependency names ms \<and> (\<exists>msg. e = InvalidArgument msg)"
proof (induction ms)
  case (Cons m ms)
  have "check_dependencies names m = Ok () \<and> \<not> list_ex (\<lambda>d. d \<notin> set names) (md_deps m) \<or>
    (\<exists>msg. check_dependencies names m = Throw (InvalidArgument msg)) \<and> list_ex (\<lambda>d. d \<notin> set names) (md_deps m)"
    by (auto simp: check_dependencies_def list_ex_iff find_None_iff find_Some_iff split: option.split)
  then show ?case using Cons by (auto simp: unknown_dependency_def split: sum.splits)
qed (simp add: unknown_dependency_def)


section \<open>Witness\<close>

definition demo_modules :: "Module list" where
  "demo_modules =
    [Module_depends_on ''feat'' (Module_op (ops_add ''score'' ''z'' ''x'') (Module_input ''z'' (Module_output ''score'' (Module_new ''rank'')))),
     Module_output ''z'' (Module_op (ops_mul ''z'' ''@t1'' ''x'') (Module_op (ops_add ''@t1'' ''x'' ''x'') (Module_new ''feat'')))]"

definition demo_compiled :: PipelineCompiler where
  "demo_compiled = (case Compile next_addr CpuBackend demo_modules [''rank'', ''feat''] ComputeGraph_new of Inr pc \<Rightarrow> pc)"

lemma demo_compiles: "Compile next_addr CpuBackend demo_modules [''rank'', ''feat''] ComputeGraph_new = Inr demo_compiled"
  by code_simp

theorem Compile_wired_witness: "wired (pc_graph demo_compiled) \<and> map cn_id (map snd (cg_nodes (pc_graph demo_compiled))) =
    [''rank/@in:z'', ''rank/op0'', ''rank/@dep:feat'', ''feat/op0'', ''feat/op1'']"
proof
  show "map cn_id (map snd (cg_nodes (pc_graph demo_compiled))) =
    [''rank/@in:z'', ''rank/op0'', ''rank/@dep:feat'', ''feat/op0'', ''feat/op1'']" by code_simp
  have "modules_ok demo_modules" "set [''rank'', ''feat''] \<subseteq> set (map md_name demo_modules)" by code_simp+
  then show "wired (pc_graph demo_compiled)"
    using Compile_wired [OF next_addr_fresh _ _ demo_compiles] by blast
qed

section \<open>Where the wiring falls short\<close>

definition compile_demo :: "Module list \<Rightarrow> PipelineCompiler compiled" where
  "compile_demo ms = Compile next_addr CpuBackend ms (map md_name ms) ComputeGraph_new"

definition graph_of_demo :: "Module list \<Rightarrow> ComputeGraph" where
  "graph_of_demo ms = (case compile_demo ms of Inl (_, g) \<Rightarrow> g | Inr pc \<Rightarrow> pc_graph pc)"

text \<open>An output port that is also an input port is not registered as a producer, so its readers are never resolved.\<close>

lemma pass_through_unresolved:
  "\<exists>msg g. compile_demo [Module_output ''x'' (Module_input ''x'' (Module_new ''a'')), Module_input ''x'' (Module_new ''b'')] =
    Inl (RuntimeError msg, g)"
  by (rule exI, rule exI, code_simp)

text \<open>A column read before its own module writes it gets no edge.\<close>

lemma use_before_def_unordered:
  "\<not> wired (graph_of_demo [Module_op (ops_add ''x'' ''a'' ''b'') (Module_op (ops_add ''y'' ''x'' ''x'') (Module_new ''m''))])"
  by code_simp

text \<open>\<^verbatim>\<open>depends_on\<close> does not order the ops of a module without input ports.\<close>

lemma depends_on_without_effect:
  "map (\<lambda>(_, n). (cn_id n, cn_deps n)) (cg_nodes (graph_of_demo
    [Module_op (ops_add ''x'' ''a'' ''b'') (Module_new ''a''),
     Module_depends_on ''a'' (Module_op (ops_add ''y'' ''c'' ''d'') (Module_new ''b''))])) =
   [(''a/op0'', []), (''b/op0'', []), (''b/@dep:a'', [1])]"
  by code_simp

text \<open>A slash in a module name lets the temporaries of two modules collide.\<close>

lemma slash_names_collide:
  "\<not> single_writer (graph_of_demo
    [Module_op (ops_add ''@b/t'' ''x'' ''x'') (Module_new ''a''), Module_op (ops_add ''@t'' ''y'' ''y'') (Module_new ''a/b'')])"
  by code_simp

text \<open>A port declared twice makes its node wait for itself.\<close>

lemma doubled_port_cycle:
  "\<exists>e. Finalize (graph_of_demo [Module_input ''x'' (Module_input ''x'' (Module_new ''a''))]) = Throw e"
  by (rule exI, code_simp)

end
