(* ===== verification/BizPipeline.thy ===== *)
theory BizPipeline
  imports ThreadPool FeedFetch ColumnStats PipelineWiring
begin

text \<open>
  \<^verbatim>\<open>column/biz/pipeline.{h,cpp}\<close>: the pipeline of feed, compute and fetch.  Every operation returns its outcome and the pipeline it
  leaves, also when it throws.  \<^verbatim>\<open>compute\<close> and \<^verbatim>\<open>run\<close> are relations, since the compute pool may interleave the nodes in
  any way; whatever it does, the rows fetched are those of a sequential run.

  The fan-out monitor receives the events of the context (\<open>ec_events\<close>): the internal collector all of them, an attached
  monitor those after it was attached.  The clock is a sequence of readings.
\<close>

section \<open>Model\<close>

record Pipeline =
  pl_backend :: Backend
  pl_modules :: "Module list"
  pl_names :: "string list"
  pl_monitor :: "nat option"
  pl_workers :: nat
  pl_pool :: "pool option"
  pl_ctx :: ExecutionContext
  pl_graph :: ComputeGraph
  pl_compiled :: bool

definition worker_count :: "nat \<Rightarrow> nat \<Rightarrow> nat" where
  "worker_count hw n = (if n = 0 then hw else n)"

definition Pipeline_new :: "nat \<Rightarrow> Backend \<Rightarrow> nat \<Rightarrow> Pipeline" where
  "Pipeline_new hw backend compute_workers =
    \<lparr>pl_backend = backend, pl_modules = [], pl_names = [], pl_monitor = None, pl_workers = worker_count hw compute_workers,
     pl_pool = None, pl_ctx = set_monitor True ExecutionContext_new, pl_graph = ComputeGraph_new, pl_compiled = False\<rparr>"

definition add_module :: "Module option \<Rightarrow> Pipeline \<Rightarrow> Pipeline res" where
  "add_module mo p =
    (case mo of
       None \<Rightarrow> Throw (InvalidArgument ''Pipeline::add_module: null module'')
     | Some m \<Rightarrow>
         if md_name m \<in> set (pl_names p)
         then Throw (InvalidArgument (''Pipeline::add_module: duplicate module '' @ quoted (md_name m)))
         else Ok (p\<lparr>pl_names := pl_names p @ [md_name m], pl_modules := pl_modules p @ [m], pl_compiled := False\<rparr>))"

definition set_backend :: "Backend \<Rightarrow> Pipeline \<Rightarrow> Pipeline" where
  "set_backend backend p = p\<lparr>pl_backend := backend, pl_compiled := False\<rparr>"

definition set_user_monitor :: "bool \<Rightarrow> Pipeline \<Rightarrow> Pipeline" where
  "set_user_monitor present p =
    p\<lparr>pl_monitor := (if present then Some (length (ec_events (pl_ctx p))) else None), pl_ctx := set_monitor True (pl_ctx p)\<rparr>"

definition set_compute_workers :: "nat \<Rightarrow> nat \<Rightarrow> Pipeline \<Rightarrow> Pipeline" where
  "set_compute_workers hw n p = p\<lparr>pl_workers := worker_count hw n, pl_pool := None\<rparr>"

definition user_events :: "Pipeline \<Rightarrow> Event list" where
  "user_events p = (case pl_monitor p of None \<Rightarrow> [] | Some k \<Rightarrow> drop k (ec_events (pl_ctx p)))"

definition stats :: "Pipeline \<Rightarrow> RunStats res" where
  "stats p = foldR RunStats_Emit (ec_events (pl_ctx p)) RunStats_new"

definition output_columns :: "Pipeline \<Rightarrow> string list" where
  "output_columns p = concat (map md_outputs (pl_modules p))"

subsection \<open>Phases\<close>

definition on_ctx :: "(ExecutionContext \<Rightarrow> ExecutionContext) \<Rightarrow> Pipeline \<Rightarrow> Pipeline" where
  "on_ctx f p = p\<lparr>pl_ctx := f (pl_ctx p)\<rparr>"

definition NotifyStart :: "RunPhase \<Rightarrow> ExecutionContext \<Rightarrow> ExecutionContext" where
  "NotifyStart ph ctx = ctx_emit (Event_new ''column'' (phase_name ph @ ''.start'') (phase_name ph)) ctx"

definition NotifyEnd :: "RunPhase \<Rightarrow> ExecutionContext \<Rightarrow> ExecutionContext" where
  "NotifyEnd ph ctx =
    ctx_emit ((Event_new ''column'' (phase_name ph @ ''.end'') (phase_name ph))\<lparr>ev_duration := ec_phase_elapsed ctx ph\<rparr>) ctx"

definition enter_phase :: "RunPhase \<Rightarrow> (nat \<Rightarrow> int) \<Rightarrow> Pipeline \<Rightarrow> Pipeline" where
  "enter_phase ph clock p = on_ctx (NotifyStart ph) (on_ctx (begin_phase ph (clock 0) (clock 1)) p)"

definition leave_phase :: "RunPhase \<Rightarrow> (nat \<Rightarrow> int) \<Rightarrow> Pipeline \<Rightarrow> Pipeline" where
  "leave_phase ph clock p = on_ctx (NotifyEnd ph) (on_ctx (end_phase (clock 2)) p)"

subsection \<open>Compilation\<close>

definition compile :: "(ComputeGraph \<Rightarrow> nat) \<Rightarrow> Pipeline \<Rightarrow> unit res \<times> Pipeline" where
  "compile alloc p =
    (let p = p\<lparr>pl_graph := ComputeGraph_new, pl_compiled := True\<rparr> in
     case Compile alloc (pl_backend p) (pl_modules p) (pl_names p) (pl_graph p) of
       Inl (e, g) \<Rightarrow> (Throw e, p\<lparr>pl_graph := g\<rparr>)
     | Inr pc \<Rightarrow>
         (case Finalize (pc_graph pc) of
            Inl e \<Rightarrow> (Throw e, p\<lparr>pl_graph := pc_graph pc\<rparr>)
          | Inr g \<Rightarrow> (Ok (), p\<lparr>pl_graph := g\<rparr>)))"

subsection \<open>Feed\<close>

text \<open>\<^verbatim>\<open>add_table\<close> throws only for a table that lists a column it does not hold.\<close>

definition feed_table_in :: "(nat \<Rightarrow> int) \<Rightarrow> TensorTable \<Rightarrow> Pipeline \<Rightarrow> unit res \<times> Pipeline" where
  "feed_table_in clock table p =
    (let p = on_ctx clear_store (on_ctx (set_feed table) p) in
     case add_table (ec_feed (pl_ctx p)) (ec_store (pl_ctx p)) of
       Inl e \<Rightarrow> (Throw e, p)
     | Inr store \<Rightarrow> (Ok (), leave_phase kFeed clock (on_ctx (\<lambda>ctx. ctx\<lparr>ec_store := store\<rparr>) p)))"

definition feed_rows :: "(nat \<Rightarrow> int) \<Rightarrow> string list \<Rightarrow> Row list \<Rightarrow> Pipeline \<Rightarrow> unit res \<times> Pipeline" where
  "feed_rows clock names rows p =
    (let p = enter_phase kFeed clock p in
     case feed_table names rows of
       Inl e \<Rightarrow> (Throw e, p)
     | Inr table \<Rightarrow> feed_table_in clock table p)"

definition feed :: "(nat \<Rightarrow> int) \<Rightarrow> TensorTable \<Rightarrow> Pipeline \<Rightarrow> unit res \<times> Pipeline" where
  "feed clock table p = feed_table_in clock table (enter_phase kFeed clock p)"

subsection \<open>Compute\<close>

definition ready :: "nat \<Rightarrow> (ComputeGraph \<Rightarrow> nat) \<Rightarrow> (nat \<Rightarrow> int) \<Rightarrow> Pipeline \<Rightarrow> unit res \<times> Pipeline" where
  "ready hw alloc clock p =
    (case (if pl_compiled p then (Ok (), p) else compile alloc p) of
       (Inl e, p) \<Rightarrow> (Throw e, p)
     | (Inr _, p) \<Rightarrow>
         (Ok (), enter_phase ComputeGraph.kCompute clock
           (if pl_pool p = None then p\<lparr>pl_pool := Some (ThreadPool_new_count hw (pl_workers p) False)\<rparr> else p)))"

definition pool_workers :: "Pipeline \<Rightarrow> nat" where
  "pool_workers p = (case pl_pool p of None \<Rightarrow> 0 | Some s \<Rightarrow> pool_size s)"

inductive compute :: "nat \<Rightarrow> (ComputeGraph \<Rightarrow> nat) \<Rightarrow> (nat \<Rightarrow> int) \<Rightarrow> Pipeline \<Rightarrow> unit res \<Rightarrow> Pipeline \<Rightarrow> bool" for hw alloc clock p where
  not_compiled: "ready hw alloc clock p = (Throw e, p') \<Longrightarrow> compute hw alloc clock p (Throw e) p'"
| cyclic: "ready hw alloc clock p = (Ok (), p') \<Longrightarrow> prepare t (pl_graph p') (pl_ctx p') = Throw e \<Longrightarrow>
    compute hw alloc clock p (Throw e) p'"
| computed: "ready hw alloc clock p = (Ok (), p') \<Longrightarrow> prepare t (pl_graph p') (pl_ctx p') = Ok s0 \<Longrightarrow>
    async_reach s0 s \<Longrightarrow> async_returns s \<Longrightarrow> ExecuteAsync_result now (pool_workers p') s = (g, ctx) \<Longrightarrow>
    compute hw alloc clock p (Ok ()) (leave_phase ComputeGraph.kCompute clock (p'\<lparr>pl_graph := g, pl_ctx := ctx\<rparr>))"

inductive_cases computeE: "compute hw alloc clock p r p'"

subsection \<open>Fetch\<close>

definition fetch :: "(nat \<Rightarrow> int) \<Rightarrow> string list \<Rightarrow> Pipeline \<Rightarrow> Row list res \<times> Pipeline" where
  "fetch clock names p =
    (let p = enter_phase kFetch clock p in
     case to_table names (ec_store (pl_ctx p)) of
       Inl e \<Rightarrow> (Throw e, p)
     | Inr table \<Rightarrow>
         let p = on_ctx (set_fetch table) p in
         (case fetch_rows (ec_fetch (pl_ctx p)) names of
            Inl e \<Rightarrow> (Throw e, p)
          | Inr rows \<Rightarrow> (Ok rows, leave_phase kFetch clock p)))"

definition fetch_outputs :: "(nat \<Rightarrow> int) \<Rightarrow> Pipeline \<Rightarrow> Row list res \<times> Pipeline" where
  "fetch_outputs clock p = fetch clock (output_columns p) p"

text \<open>What is left of a table that was moved from: the containers are empty, the row count is copied.\<close>

definition moved_from :: "TensorTable \<Rightarrow> TensorTable" where
  "moved_from table = table\<lparr>tt_tensors := [], tt_order := []\<rparr>"

definition fetch_table :: "(nat \<Rightarrow> int) \<Rightarrow> string list \<Rightarrow> Pipeline \<Rightarrow> TensorTable res \<times> Pipeline" where
  "fetch_table clock names p =
    (let p = enter_phase kFetch clock p in
     case to_table names (ec_store (pl_ctx p)) of
       Inl e \<Rightarrow> (Throw e, p)
     | Inr table \<Rightarrow> (Ok (moved_from table), leave_phase kFetch clock (on_ctx (set_fetch table) p)))"

definition fetch_one :: "(nat \<Rightarrow> int) \<Rightarrow> string \<Rightarrow> Pipeline \<Rightarrow> flt res \<times> Pipeline" where
  "fetch_one clock name p =
    (let p = enter_phase kFetch clock p in
     case bindR (Store_get name (ec_store (pl_ctx p))) fetch_scalar of
       Inl e \<Rightarrow> (Throw e, p)
     | Inr v \<Rightarrow> (Ok v, leave_phase kFetch clock p))"

subsection \<open>Run\<close>

inductive run :: "nat \<Rightarrow> (ComputeGraph \<Rightarrow> nat) \<Rightarrow> (nat \<Rightarrow> nat \<Rightarrow> int) \<Rightarrow> string list \<Rightarrow> Row list \<Rightarrow> string list \<Rightarrow> Pipeline \<Rightarrow>
    Row list res \<Rightarrow> Pipeline \<Rightarrow> bool" for hw alloc clock feed_names rows fetch_names p where
  feed_fails: "feed_rows (clock 0) feed_names rows p = (Throw e, p') \<Longrightarrow>
    run hw alloc clock feed_names rows fetch_names p (Throw e) p'"
| compute_fails: "feed_rows (clock 0) feed_names rows p = (Ok (), p1) \<Longrightarrow> compute hw alloc (clock 1) p1 (Throw e) p' \<Longrightarrow>
    run hw alloc clock feed_names rows fetch_names p (Throw e) p'"
| fetched: "feed_rows (clock 0) feed_names rows p = (Ok (), p1) \<Longrightarrow> compute hw alloc (clock 1) p1 (Ok ()) p2 \<Longrightarrow>
    fetch (clock 2) fetch_names p2 = (r, p') \<Longrightarrow> run hw alloc clock feed_names rows fetch_names p r p'"

inductive_cases runE: "run hw alloc clock feed_names rows fetch_names p r p'"

section \<open>A run computes what a sequential run computes\<close>

text \<open>The graph the next \<^verbatim>\<open>compute\<close> executes, and a run without monitor, phases, clock or pool.\<close>

definition compiled_graph :: "(ComputeGraph \<Rightarrow> nat) \<Rightarrow> Pipeline \<Rightarrow> ComputeGraph res" where
  "compiled_graph alloc p =
    (if pl_compiled p then Ok (pl_graph p)
     else (case compile alloc p of (Inl e, _) \<Rightarrow> Throw e | (Inr _, p) \<Rightarrow> Ok (pl_graph p)))"

definition fed_store :: "string list \<Rightarrow> Row list \<Rightarrow> TensorStore res" where
  "fed_store names rows = bindR (feed_table names rows) (\<lambda>table. add_table table TensorStore_new)"

definition fetched_rows :: "string list \<Rightarrow> TensorStore \<Rightarrow> Row list res" where
  "fetched_rows names store = bindR (to_table names store) (\<lambda>table. fetch_rows table names)"

definition sequential_run :: "(ComputeGraph \<Rightarrow> nat) \<Rightarrow> string list \<Rightarrow> Row list \<Rightarrow> string list \<Rightarrow> Pipeline \<Rightarrow> Row list res" where
  "sequential_run alloc feed_names rows fetch_names p =
    bindR (fed_store feed_names rows) (\<lambda>store.
    bindR (compiled_graph alloc p) (\<lambda>g.
    bindR (Execute (\<lambda>_. 0) g (ExecutionContext_new\<lparr>ec_store := store\<rparr>)) (\<lambda>(_, ctx).
    fetched_rows fetch_names (ec_store ctx))))"

text \<open>The pipelines the builder makes: modules with distinct names, and a graph that was compiled from them.\<close>

definition good_graph :: "ComputeGraph \<Rightarrow> bool" where
  "good_graph g = (graph_inv g \<and> single_writer g \<and> wired g)"

definition pipeline_ok :: "Pipeline \<Rightarrow> bool" where
  "pipeline_ok p =
    (pl_backend p = CpuBackend \<and> modules_ok (pl_modules p) \<and> pl_names p = map md_name (pl_modules p) \<and>
     (pl_compiled p \<longrightarrow> good_graph (pl_graph p)))"

lemma Pipeline_new_ok: "pipeline_ok (Pipeline_new hw CpuBackend n)"
  by (simp add: pipeline_ok_def Pipeline_new_def modules_ok_def)

lemma builder_ok:
  assumes "pipeline_ok p"
  shows "add_module (Some m) p = Ok p' \<Longrightarrow> module_ok m \<Longrightarrow> pipeline_ok p'"
    "pipeline_ok (set_backend CpuBackend p)" "pipeline_ok (set_user_monitor present p)" "pipeline_ok (set_compute_workers hw n p)"
  using assms by (auto simp: pipeline_ok_def add_module_def modules_ok_def set_backend_def set_user_monitor_def set_compute_workers_def
    split: if_splits)

lemma add_modules_ok:
  "foldR (\<lambda>m. add_module (Some m)) ms p = Ok p' \<Longrightarrow> list_all module_ok ms \<Longrightarrow> pipeline_ok p \<Longrightarrow> pipeline_ok p'"
  by (induction ms arbitrary: p) (auto simp: ok_iff dest: builder_ok(1))

lemma phase_store [simp]: "ec_store (begin_phase ph t u ctx) = ec_store ctx" "ec_store (end_phase t ctx) = ec_store ctx"
  "ec_store (NotifyStart ph ctx) = ec_store ctx" "ec_store (NotifyEnd ph ctx) = ec_store ctx"
  by (simp_all add: begin_phase_def end_phase_def NotifyStart_def NotifyEnd_def)

lemma on_ctx_simps [simp]:
  "pl_ctx (on_ctx f p) = f (pl_ctx p)" "pl_graph (on_ctx f p) = pl_graph p" "pl_compiled (on_ctx f p) = pl_compiled p"
  "pipeline_ok (on_ctx f p) = pipeline_ok p" "compiled_graph alloc (on_ctx f p) = compiled_graph alloc p"
  by (simp_all add: on_ctx_def pipeline_ok_def compiled_graph_def compile_def Let_def split: sum.split)

lemma enter_phase_simps [simp]:
  "ec_store (pl_ctx (enter_phase ph c p)) = ec_store (pl_ctx p)" "pl_graph (enter_phase ph c p) = pl_graph p"
  "pipeline_ok (enter_phase ph c p) = pipeline_ok p" "compiled_graph alloc (enter_phase ph c p) = compiled_graph alloc p"
  by (simp_all add: enter_phase_def)

lemma leave_phase_simps [simp]:
  "ec_store (pl_ctx (leave_phase ph c p)) = ec_store (pl_ctx p)" "pl_graph (leave_phase ph c p) = pl_graph p"
  "pipeline_ok (leave_phase ph c p) = pipeline_ok p" "compiled_graph alloc (leave_phase ph c p) = compiled_graph alloc p"
  by (simp_all add: leave_phase_def)

lemma feed_rows_effect:
  assumes "feed_rows c names rows p = (r, p')"
  shows "pipeline_ok p' = pipeline_ok p" "compiled_graph alloc p' = compiled_graph alloc p"
    "case fed_store names rows of Inl e \<Rightarrow> r = Throw e | Inr store \<Rightarrow> r = Ok () \<and> ec_store (pl_ctx p') = store"
  using assms by (auto simp: feed_rows_def feed_table_in_def fed_store_def set_feed_def clear_store_def Let_def split: sum.splits)

lemma to_table_cong:
  assumes "\<And>n. Store_find n s = Store_find n s'"
  shows "to_table names s = to_table names s'"
proof -
  have "to_table_step s = to_table_step s'" by (intro ext) (simp add: to_table_step_def assms)
  then show ?thesis by (simp add: to_table_def)
qed

lemma fetch_effect:
  assumes "fetch c names p = (r, p')"
  shows "pipeline_ok p' = pipeline_ok p" "r = fetched_rows names (ec_store (pl_ctx p))"
  using assms by (auto simp: fetch_def fetched_rows_def set_fetch_def Let_def split: sum.splits)

lemma compile_effect:
  assumes "\<And>g. alloc g \<notin> set (addrs g)" "pipeline_ok p" "compile alloc p = (Ok u, p')"
  shows "pipeline_ok p'" "pl_compiled p'" "pl_ctx p' = pl_ctx p"
proof -
  let ?ms = "pl_modules p"
  obtain pc g where c: "Compile alloc CpuBackend ?ms (map md_name ?ms) ComputeGraph_new = Inr pc"
    and f: "Finalize (pc_graph pc) = Ok g" and p': "p' = p\<lparr>pl_graph := g, pl_compiled := True\<rparr>"
    using assms(2,3) by (auto simp: compile_def pipeline_ok_def Let_def split: sum.splits)
  have ok: "modules_ok ?ms" using assms(2) by (simp add: pipeline_ok_def)
  note w = pc_inv_wired [OF cpu_compiled [OF assms(1) ok _ c]]
  have "graph_inv g" "cg_nodes g = cg_nodes (pc_graph pc)" using Finalize_spec [OF w(1)] f by (auto split: if_splits)
  then have "good_graph g" using w(2,3) shape_wiring [of g "pc_graph pc"] by (simp add: good_graph_def shape_def)
  then show "pipeline_ok p'" "pl_compiled p'" "pl_ctx p' = pl_ctx p" using assms(2) p' by (simp_all add: pipeline_ok_def)
qed

lemma ready_effect:
  assumes "\<And>g. alloc g \<notin> set (addrs g)" "pipeline_ok p" "ready hw alloc c p = (r, p')"
  shows "case compiled_graph alloc p of Inl e \<Rightarrow> r = Throw e
    | Inr g \<Rightarrow> r = Ok () \<and> pl_graph p' = g \<and> good_graph g \<and> pipeline_ok p' \<and> ec_store (pl_ctx p') = ec_store (pl_ctx p)"
proof -
  obtain r0 p0 where c: "(if pl_compiled p then (Ok (), p) else compile alloc p) = (r0, p0)" by fastforce
  have g: "compiled_graph alloc p = (case r0 of Inl e \<Rightarrow> Throw e | Inr _ \<Rightarrow> Ok (pl_graph p0))"
    using c by (auto simp: compiled_graph_def split: if_splits)
  show ?thesis
  proof (cases r0)
    case (Inl e)
    then show ?thesis using g assms(3) c by (simp add: ready_def)
  next
    case (Inr u)
    have k: "pipeline_ok p0 \<and> pl_compiled p0 \<and> pl_ctx p0 = pl_ctx p"
    proof (cases "pl_compiled p")
      case True
      then show ?thesis using c assms(2) by simp
    next
      case False
      then show ?thesis using compile_effect [OF assms(1,2)] c Inr by auto
    qed
    then have "good_graph (pl_graph p0)" by (simp add: pipeline_ok_def)
    moreover have "pipeline_ok (p0\<lparr>pl_pool := x\<rparr>) = pipeline_ok p0" for x by (simp add: pipeline_ok_def)
    ultimately show ?thesis using g assms(3) c Inr k by (auto simp: ready_def)
  qed
qed

lemma prepare_ctx:
  assumes "ec_store ctx = ec_store ctx'"
  shows "case prepare t g ctx of Inl e \<Rightarrow> prepare t' g ctx' = Throw e
    | Inr s \<Rightarrow> \<exists>s'. prepare t' g ctx' = Ok s' \<and> es_graph s' = es_graph s \<and> store_of s' = store_of s"
  using assms by (cases "if cg_finalized g then Ok g else Finalize g") (simp_all add: prepare_def)

text \<open>A sequential run of the same graph on the same tensors starts from the same state.\<close>

lemma Execute_prepared:
  assumes "good_graph g" "ec_store ctx = ec_store ctx'" "prepare t g ctx = Ok s0" "async_reach s0 s" "async_returns s"
  shows "\<exists>g1 ctx1. Execute clock g ctx' = Ok (g1, ctx1) \<and> (\<forall>n. Store_find n (store_of (ar_state s)) = Store_find n (ec_store ctx1))"
    "good_graph (graph_of s)"
proof -
  have g: "graph_inv g" "single_writer g" "wired g" using assms(1) by (simp_all add: good_graph_def)
  obtain s' where s': "prepare t g ctx' = Ok s'" "es_graph s' = es_graph s0" "store_of s' = store_of s0"
    using prepare_ctx [OF assms(2), of t g t] assms(3) by auto
  have ops: "ops_of s' = ops_of s0" using s'(2) by (simp add: fun_eq_iff ops_of_def)
  obtain g1 ctx1 where e: "Execute clock g ctx' = Ok (g1, ctx1)" using Execute_total [OF s'(1)] by blast
  have "Store_find n (store_of (ar_state s)) = Store_find n (ec_store ctx1)" for n
    using ExecuteAsync_store [OF g assms(3-5), of n] Execute_effect(1) [OF g(1) s'(1) e] ops s' by simp
  then show "\<exists>g1 ctx1. Execute clock g ctx' = Ok (g1, ctx1) \<and> (\<forall>n. Store_find n (store_of (ar_state s)) = Store_find n (ec_store ctx1))"
    using e by blast
  obtain h where h: "graph_inv h" "cg_nodes h = cg_nodes g" "es_graph s0 = ResetRunState h"
    using prepare_cases [OF g(1) assms(3)] by blast
  have "same_graph h (graph_of s)"
    using same_graph_trans [OF ResetRunState_same [of h]] async_invD(1) [OF async_reach_inv [OF assms(4) prepare_runnable(1) [OF g(1) assms(3)]]]
      h(3) by simp
  then show "good_graph (graph_of s)"
    using same_graph_inv [OF _ h(1)] shape_wiring [of "graph_of s" g] h(2) g by (simp add: good_graph_def same_graph_def shape_def)
qed

lemma ExecuteAsync_result_simps:
  "ExecuteAsync_result now w s = (g, ctx) \<Longrightarrow> g = graph_of s \<and> ec_store ctx = store_of (ar_state s)"
  by (auto simp: ExecuteAsync_result_def split: if_splits)

lemma compute_effect:
  assumes fresh: "\<And>g. alloc g \<notin> set (addrs g)" and ok: "pipeline_ok p" and c: "compute hw alloc c p r p'"
    and ctx: "ec_store ctx = ec_store (pl_ctx p)"
  shows "case bindR (compiled_graph alloc p) (\<lambda>g. Execute clock g ctx) of Inl e \<Rightarrow> r = Throw e
    | Inr (_, ctx1) \<Rightarrow> r = Ok () \<and> pipeline_ok p' \<and> (\<forall>n. Store_find n (ec_store (pl_ctx p')) = Store_find n (ec_store ctx1))"
  using c
proof cases
  case (not_compiled e)
  then show ?thesis using ready_effect [OF fresh ok not_compiled(2)] by (auto split: sum.splits)
next
  case (cyclic t e)
  note r = ready_effect [OF fresh ok cyclic(2)]
  show ?thesis using r prepare_ctx [of "pl_ctx p'" ctx "clock 0" "pl_graph p'" t] ctx cyclic
    by (auto simp: Execute_def split: sum.splits)
next
  case (computed p1 t s0 s now g ctx')
  then obtain g0 where g0: "compiled_graph alloc p = Inr g0" "pl_graph p1 = g0" "good_graph g0" "pipeline_ok p1"
      "ec_store (pl_ctx p1) = ec_store ctx"
    using ready_effect [OF fresh ok computed(3)] ctx by (auto split: sum.splits)
  note e = Execute_prepared [of "pl_graph p1", OF _ g0(5) computed(4-6)]
  note x = ExecuteAsync_result_simps [OF computed(7)]
  have "pipeline_ok (p1\<lparr>pl_graph := g, pl_ctx := ctx'\<rparr>)"
    using g0 e(2) x by (simp add: pipeline_ok_def)
  then show ?thesis using computed(1,2) g0 e(1) [of clock] x by auto
qed

lemma compute_total:
  assumes fresh: "\<And>g. alloc g \<notin> set (addrs g)" and ok: "pipeline_ok p"
  shows "\<exists>r p'. compute hw alloc c p r p'"
proof -
  obtain r p1 where rd: "ready hw alloc c p = (r, p1)" by fastforce
  show ?thesis
  proof (cases r)
    case (Inl e)
    then show ?thesis using compute.not_compiled rd by blast
  next
    case (Inr u)
    then have g: "graph_inv (pl_graph p1)" using ready_effect [OF fresh ok rd] by (auto simp: good_graph_def split: sum.splits)
    show ?thesis
    proof (cases "prepare 0 (pl_graph p1) (pl_ctx p1)")
      case (Inl e)
      then show ?thesis using compute.cyclic [of hw alloc c p p1] rd Inr by auto
    next
      case s0: (Inr s0)
      then obtain s where "async_reach s0 s" "async_returns s"
        using async_completes [OF prepare_runnable(1) [OF g s0]] by blast
      then show ?thesis
        using compute.computed [of hw alloc c p p1 0 s0 s 0, OF _ s0] rd Inr by (cases "ExecuteAsync_result 0 (pool_workers p1) s") auto
    qed
  qed
qed

lemma run_total:
  assumes fresh: "\<And>g. alloc g \<notin> set (addrs g)" and ok: "pipeline_ok p"
  shows "\<exists>r p'. run hw alloc clock feed_names rows fetch_names p r p'"
proof -
  obtain f p1 where fd: "feed_rows (clock 0) feed_names rows p = (f, p1)" by fastforce
  have "pipeline_ok p1" using feed_rows_effect(1) [OF fd] ok by simp
  then obtain r p2 where c: "compute hw alloc (clock 1) p1 r p2" using compute_total [OF fresh] by blast
  consider e where "f = Throw e" | e where "f = Ok ()" "r = Throw e" | "f = Ok ()" "r = Ok ()" by (cases f; cases r) auto
  then show ?thesis
  proof cases
    case 1
    then show ?thesis using run.feed_fails fd by blast
  next
    case 2
    then show ?thesis using run.compute_fails fd c by blast
  next
    case 3
    then show ?thesis using run.fetched fd c by (metis surj_pair)
  qed
qed

lemma run_result:
  assumes fresh: "\<And>g. alloc g \<notin> set (addrs g)" and ok: "pipeline_ok p"
    and run: "run hw alloc clock feed_names rows fetch_names p r p'"
  shows "r = sequential_run alloc feed_names rows fetch_names p \<and> (\<forall>out. r = Ok out \<longrightarrow> pipeline_ok p')"
  using run
proof cases
  case (feed_fails e)
  then show ?thesis using feed_rows_effect(3) [OF feed_fails(2)] by (auto simp: sequential_run_def split: sum.splits)
next
  case (compute_fails p1 e)
  note fe = feed_rows_effect [OF compute_fails(2)]
  obtain store where st: "fed_store feed_names rows = Inr store" "ec_store (pl_ctx p1) = store"
    using fe(3) by (auto split: sum.splits)
  show ?thesis
    using compute_effect [OF fresh _ compute_fails(3), of "ExecutionContext_new\<lparr>ec_store := store\<rparr>" "\<lambda>_. 0"] ok st fe(1) fe(2) [of alloc]
      compute_fails(1) by (auto simp: sequential_run_def bindR_assoc [symmetric] split: sum.splits)
next
  case (fetched p1 p2)
  note fe = feed_rows_effect [OF fetched(1)]
  obtain store where st: "fed_store feed_names rows = Inr store" "ec_store (pl_ctx p1) = store"
    using fe(3) by (auto split: sum.splits)
  obtain g1 ctx1 where k: "bindR (compiled_graph alloc p) (\<lambda>g. Execute (\<lambda>_. 0) g (ExecutionContext_new\<lparr>ec_store := store\<rparr>)) = Inr (g1, ctx1)"
    "pipeline_ok p2" "\<And>n. Store_find n (ec_store (pl_ctx p2)) = Store_find n (ec_store ctx1)"
    using compute_effect [OF fresh _ fetched(2), of "ExecutionContext_new\<lparr>ec_store := store\<rparr>" "\<lambda>_. 0"] ok st fe(1) fe(2) [of alloc]
    by (auto split: sum.splits)
  have "fetched_rows fetch_names (ec_store (pl_ctx p2)) = fetched_rows fetch_names (ec_store ctx1)"
    using to_table_cong [OF k(3)] by (simp add: fetched_rows_def)
  then have "sequential_run alloc feed_names rows fetch_names p = fetched_rows fetch_names (ec_store (pl_ctx p2))"
    using st k(1) by (simp add: sequential_run_def bindR_assoc [symmetric])
  then show ?thesis using fetch_effect [OF fetched(3)] k(2) by simp
qed

section \<open>Properties\<close>


section \<open>Witness\<close>

definition demo_pipeline :: Pipeline where
  "demo_pipeline = (case foldR (\<lambda>m. add_module (Some m)) demo_modules (Pipeline_new 4 CpuBackend 2) of Inr p \<Rightarrow> p)"

lemma demo_pipeline_ok: "pipeline_ok demo_pipeline" "output_columns demo_pipeline = [''score'', ''z'']"
proof -
  have "case foldR (\<lambda>m. add_module (Some m)) demo_modules (Pipeline_new 4 CpuBackend 2) of Inl _ \<Rightarrow> False | Inr _ \<Rightarrow> True" by code_simp
  then have "foldR (\<lambda>m. add_module (Some m)) demo_modules (Pipeline_new 4 CpuBackend 2) = Ok demo_pipeline"
    unfolding demo_pipeline_def by (auto split: sum.splits)
  moreover have "list_all module_ok demo_modules" by code_simp
  ultimately show "pipeline_ok demo_pipeline" by (rule add_modules_ok) (rule Pipeline_new_ok)
  show "output_columns demo_pipeline = [''score'', ''z'']" by code_simp
qed


section \<open>Where the pipeline falls short\<close>

text \<open>\<^verbatim>\<open>compile\<close> sets \<^verbatim>\<open>compiled_\<close> before it compiles: after a compilation that threw, the next \<^verbatim>\<open>compute\<close> does not compile
  again and executes what was built of the graph.\<close>

lemma failed_compile_sticks:
  assumes "compile alloc p = (Throw e, p')"
  shows "pl_compiled p' \<and> fst (ready hw alloc c p') = Ok () \<and> pl_graph (snd (ready hw alloc c p')) = pl_graph p'"
proof -
  have "pl_compiled p'" using assms by (auto simp: compile_def Let_def split: sum.splits)
  then show ?thesis by (simp add: ready_def)
qed

text \<open>\<^verbatim>\<open>fetch_table\<close> returns the table it has moved into the context: no column is left in it.\<close>

lemma fetch_table_empty:
  assumes "fetch_table c names p = (Ok table, p')"
  shows "tt_order table = [] \<and> tt_tensors table = [] \<and> to_table names (ec_store (pl_ctx p)) = Ok (ec_fetch (pl_ctx p'))"
  using assms by (auto simp: fetch_table_def moved_from_def Let_def set_fetch_def leave_phase_def enter_phase_def NotifyEnd_def
    ctx_emit_def end_phase_def split: sum.splits)

end
