(* ===== verification/CoroTask.thy ===== *)
theory CoroTask
  imports Prelude
begin

text \<open>
  \<^verbatim>\<open>coro/task.h\<close>: the lazily started task, its promise and the transfer of control at its end.

  A coroutine frame lives at an address of the frame heap and holds the promise; \<^verbatim>\<open>handle_\<close> is an optional address.  Reaching a frame that
  was destroyed, or the promise behind a null handle, has no defined result.  The body of the coroutine is its outcome: a value or
  an exception.  \<^verbatim>\<open>scope\<close> is the program's variables of type \<^verbatim>\<open>Task\<close>.
\<close>

section \<open>Model\<close>

record 'a TaskPromise =
  tp_continuation :: "nat option"
  tp_value :: "'a option"
  tp_exception :: "exn option"

record 'a frame =
  fr_promise :: "'a TaskPromise"
  fr_done :: bool

type_synonym 'a frames = "(nat \<times> 'a frame) list"
type_synonym Task = "nat option"

definition frame_at :: "nat \<Rightarrow> 'a frames \<Rightarrow> 'a frame res" where
  "frame_at a h = (case map_of h a of None \<Rightarrow> Throw (Undefined ''coroutine frame was destroyed'') | Some f \<Rightarrow> Ok f)"

definition on_promise :: "(nat \<Rightarrow> 'a TaskPromise \<Rightarrow> 'a TaskPromise) \<Rightarrow> nat \<Rightarrow> 'a frames \<Rightarrow> 'a frames res" where
  "on_promise f a h = bindR (frame_at a h) (\<lambda>fr. Ok (AList.update a (fr\<lparr>fr_promise := f a (fr_promise fr)\<rparr>) h))"

subsection \<open>The promise\<close>

definition TaskPromise_new :: "'a TaskPromise" where
  "TaskPromise_new = \<lparr>tp_continuation = None, tp_value = None, tp_exception = None\<rparr>"

definition set_continuation :: "nat \<Rightarrow> 'a TaskPromise \<Rightarrow> 'a TaskPromise" where
  "set_continuation c p = p\<lparr>tp_continuation := Some c\<rparr>"

definition unhandled_exception :: "exn \<Rightarrow> 'a TaskPromise \<Rightarrow> 'a TaskPromise" where
  "unhandled_exception e p = p\<lparr>tp_exception := Some e\<rparr>"

definition return_value :: "'a \<Rightarrow> 'a TaskPromise \<Rightarrow> 'a TaskPromise" where
  "return_value v p = p\<lparr>tp_value := Some v\<rparr>"

definition promise_result :: "'a TaskPromise \<Rightarrow> 'a res" where
  "promise_result p =
    (case tp_exception p of
       Some e \<Rightarrow> Throw e
     | None \<Rightarrow> (case tp_value p of None \<Rightarrow> Throw (Undefined ''empty optional'') | Some v \<Rightarrow> Ok v))"

definition void_result :: "unit TaskPromise \<Rightarrow> unit res" where
  "void_result p = (case tp_exception p of Some e \<Rightarrow> Throw e | None \<Rightarrow> Ok ())"

text \<open>The end of a coroutine: its body's outcome is stored, the frame is done, and control goes to the continuation, or nowhere.\<close>

definition store_outcome :: "'a res \<Rightarrow> 'a TaskPromise \<Rightarrow> 'a TaskPromise" where
  "store_outcome r p = (case r of Inl e \<Rightarrow> unhandled_exception e p | Inr v \<Rightarrow> return_value v p)"

definition FinalAwaiter_suspend :: "'a TaskPromise \<Rightarrow> nat option" where
  "FinalAwaiter_suspend p = tp_continuation p"

definition finish_coroutine :: "nat \<Rightarrow> 'a res \<Rightarrow> 'a frames \<Rightarrow> (nat option \<times> 'a frames) res" where
  "finish_coroutine a r h = bindR (frame_at a h) (\<lambda>fr.
    let p = store_outcome r (fr_promise fr) in
    Ok (FinalAwaiter_suspend p, AList.update a \<lparr>fr_promise = p, fr_done = True\<rparr> h))"

subsection \<open>Awaiting a task\<close>

definition await_ready :: "Task \<Rightarrow> 'a frames \<Rightarrow> bool res" where
  "await_ready t h = (case t of None \<Rightarrow> Ok True | Some a \<Rightarrow> bindR (frame_at a h) (\<lambda>fr. Ok (fr_done fr)))"

definition await_suspend :: "Task \<Rightarrow> nat \<Rightarrow> 'a frames \<Rightarrow> (nat \<times> 'a frames) res" where
  "await_suspend t awaiting h =
    (case t of
       None \<Rightarrow> Throw (Undefined ''promise of a null handle'')
     | Some a \<Rightarrow> bindR (on_promise (\<lambda>_. set_continuation awaiting) a h) (\<lambda>h. Ok (a, h)))"

definition await_resume :: "Task \<Rightarrow> 'a frames \<Rightarrow> 'a res" where
  "await_resume t h =
    (case t of
       None \<Rightarrow> Throw (Undefined ''promise of a null handle'')
     | Some a \<Rightarrow> bindR (frame_at a h) (\<lambda>fr. promise_result (fr_promise fr)))"

text \<open>\<^verbatim>\<open>co_await std::move(t)\<close> in the coroutine \<^verbatim>\<open>awaiting\<close>: the value the expression has, the coroutine control comes back to
  (itself when the task was ready) and the frames.\<close>

definition co_await :: "(nat \<Rightarrow> 'a res) \<Rightarrow> nat \<Rightarrow> Task \<Rightarrow> 'a frames \<Rightarrow> ('a res \<times> nat option \<times> 'a frames) res" where
  "co_await body awaiting t h =
    bindR (await_ready t h) (\<lambda>rd.
    if rd then Ok (await_resume t h, Some awaiting, h)
    else bindR (await_suspend t awaiting h) (\<lambda>(a, h).
      bindR (finish_coroutine a (body a) h) (\<lambda>(next, h). Ok (await_resume t h, next, h))))"

subsection \<open>Ownership\<close>

type_synonym 'x scope = "('x \<times> Task) list"

record ('a, 'x) task_state =
  tk_frames :: "'a frames"
  tk_scope :: "'x scope"
  tk_next :: nat

definition task_init :: "('a, 'x) task_state" where
  "task_init = \<lparr>tk_frames = [], tk_scope = [], tk_next = 0\<rparr>"

definition Destroy :: "Task \<Rightarrow> 'a frames \<Rightarrow> 'a frames res" where
  "Destroy t h =
    (case t of
       None \<Rightarrow> Ok h
     | Some a \<Rightarrow> bindR (frame_at a h) (\<lambda>_. Ok (AList.delete a h)))"

datatype 'x task_op =
    Default 'x
  | Call 'x
  | MoveInit 'x 'x
  | MoveAssign 'x 'x
  | EndScope 'x

text \<open>Operations name variables in scope and declare new ones; others do not compile.\<close>

fun op_compiles :: "'x task_op \<Rightarrow> ('a, 'x) task_state \<Rightarrow> bool" where
  "op_compiles (Default x) s = (x \<notin> fst ` set (tk_scope s))"
| "op_compiles (Call x) s = (x \<notin> fst ` set (tk_scope s))"
| "op_compiles (MoveInit x y) s = (x \<notin> fst ` set (tk_scope s) \<and> y \<in> fst ` set (tk_scope s))"
| "op_compiles (MoveAssign x y) s = (x \<in> fst ` set (tk_scope s) \<and> y \<in> fst ` set (tk_scope s))"
| "op_compiles (EndScope x) s = (x \<in> fst ` set (tk_scope s))"

abbreviation task_of :: "'x \<Rightarrow> ('a, 'x) task_state \<Rightarrow> Task" where
  "task_of x s \<equiv> the (map_of (tk_scope s) x)"

fun task_step :: "'x task_op \<Rightarrow> ('a, 'x) task_state \<Rightarrow> ('a, 'x) task_state res" where
  "task_step (Default x) s = Ok (s\<lparr>tk_scope := AList.update x None (tk_scope s)\<rparr>)"
| "task_step (Call x) s =
    Ok (s\<lparr>tk_frames := AList.update (tk_next s) \<lparr>fr_promise = TaskPromise_new, fr_done = False\<rparr> (tk_frames s),
          tk_scope := AList.update x (Some (tk_next s)) (tk_scope s), tk_next := tk_next s + 1\<rparr>)"
| "task_step (MoveInit x y) s =
    Ok (s\<lparr>tk_scope := AList.update x (task_of y s) (AList.update y None (tk_scope s))\<rparr>)"
| "task_step (MoveAssign x y) s =
    (if x = y then Ok s
     else bindR (Destroy (task_of x s) (tk_frames s)) (\<lambda>h.
       Ok (s\<lparr>tk_frames := h, tk_scope := AList.update x (task_of y s) (AList.update y None (tk_scope s))\<rparr>)))"
| "task_step (EndScope x) s =
    bindR (Destroy (task_of x s) (tk_frames s)) (\<lambda>h. Ok (s\<lparr>tk_frames := h, tk_scope := AList.delete x (tk_scope s)\<rparr>))"

fun task_run :: "'x task_op list \<Rightarrow> ('a, 'x) task_state \<Rightarrow> ('a, 'x) task_state res" where
  "task_run [] s = Ok s"
| "task_run (op # ops) s = (if op_compiles op s then bindR (task_step op s) (task_run ops) else Ok s)"

section \<open>Ownership of frames\<close>

definition owns :: "('a, 'x) task_state \<Rightarrow> 'x \<Rightarrow> nat \<Rightarrow> bool" where
  "owns s x a = (map_of (tk_scope s) x = Some (Some a))"

definition live :: "('a, 'x) task_state \<Rightarrow> nat set" where
  "live s = dom (map_of (tk_frames s))"

definition task_inv :: "('a, 'x) task_state \<Rightarrow> bool" where
  "task_inv s =
    ((\<forall>x y a. owns s x a \<longrightarrow> owns s y a \<longrightarrow> x = y) \<and> (\<forall>a. a \<in> live s \<longleftrightarrow> (\<exists>x. owns s x a)) \<and> (\<forall>a \<in> live s. a < tk_next s))"

lemma task_inv_init: "task_inv task_init"
  by (simp add: task_inv_def task_init_def owns_def live_def)

lemma Destroy_owned:
  assumes "task_inv s" "x \<in> fst ` set (tk_scope s)"
  shows "\<exists>h. Destroy (task_of x s) (tk_frames s) = Ok h \<and> dom (map_of h) = live s - {a. owns s x a}"
proof -
  obtain t where t: "map_of (tk_scope s) x = Some t" using assms(2) by (metis map_of_eq_None_iff not_None_eq)
  show ?thesis
  proof (cases t)
    case None
    then show ?thesis using t by (auto simp: Destroy_def owns_def live_def)
  next
    case (Some a)
    then have "owns s x a" using t by (simp add: owns_def)
    then obtain fr where "map_of (tk_frames s) a = Some fr" using assms(1) unfolding task_inv_def live_def by blast
    then show ?thesis using t Some by (auto simp: Destroy_def frame_at_def owns_def live_def delete_conv' split: if_splits)
  qed
qed

text \<open>Moving \<open>y\<close> into \<open>x\<close> after the frame of \<open>x\<close> is gone.\<close>

lemma move_inv:
  assumes inv: "task_inv s" and xy: "x \<noteq> y" and n: "map_of (tk_scope s) y \<noteq> None"
    and sc: "tk_scope s' = AList.update x (task_of y s) (AList.update y None (tk_scope s))"
    and l: "live s' = live s - {a. owns s x a}" and nx: "tk_next s' = tk_next s"
  shows "task_inv s'"
proof -
  have o: "owns s' z a \<longleftrightarrow> (if z = x then owns s y a else z \<noteq> y \<and> owns s z a)" for z a
    using n xy sc by (auto simp: owns_def update_conv')
  have u: "owns s z a \<Longrightarrow> owns s w a \<Longrightarrow> z = w" for z w a using inv by (auto simp: task_inv_def)
  have lv: "a \<in> live s \<longleftrightarrow> (\<exists>z. owns s z a)" for a using inv by (auto simp: task_inv_def)
  have "z = w" if "owns s' z a" "owns s' w a" for z w a using that u unfolding o by metis
  moreover have "a \<in> live s' \<longleftrightarrow> (\<exists>z. owns s' z a)" for a using u xy unfolding o l Diff_iff mem_Collect_eq lv by metis
  moreover have "a < tk_next s'" if "a \<in> live s'" for a using that inv l nx by (auto simp: task_inv_def)
  ultimately show ?thesis unfolding task_inv_def by blast
qed

lemma task_step_inv:
  assumes inv: "task_inv s" and c: "op_compiles op s"
  shows "\<exists>s'. task_step op s = Ok s' \<and> task_inv s'"
proof (cases op)
  case (Default x)
  then have "map_of (tk_scope s) x = None" using c by (simp add: map_of_eq_None_iff)
  then have "owns (s\<lparr>tk_scope := AList.update x None (tk_scope s)\<rparr>) = owns s" by (auto simp: owns_def fun_eq_iff update_conv')
  then show ?thesis using inv Default by (simp add: task_inv_def live_def)
next
  case (Call x)
  then have n: "map_of (tk_scope s) x = None" using c by (simp add: map_of_eq_None_iff)
  let ?s = "s\<lparr>tk_frames := AList.update (tk_next s) \<lparr>fr_promise = TaskPromise_new, fr_done = False\<rparr> (tk_frames s),
          tk_scope := AList.update x (Some (tk_next s)) (tk_scope s), tk_next := tk_next s + 1\<rparr>"
  have o: "owns ?s y a \<longleftrightarrow> (if y = x then a = tk_next s else owns s y a)" for y a
    using n by (auto simp: owns_def update_conv')
  have l: "live ?s = insert (tk_next s) (live s)" by (auto simp: live_def update_conv')
  have "task_inv ?s"
  proof -
    have i: "\<And>y. \<not> owns s y (tk_next s)" "\<And>b. \<not> owns s x b" using inv n by (auto simp: task_inv_def owns_def)
    have "\<forall>y z b. owns ?s y b \<longrightarrow> owns ?s z b \<longrightarrow> y = z" "\<forall>b. b \<in> live ?s \<longleftrightarrow> (\<exists>y. owns ?s y b)"
      using inv i unfolding task_inv_def o l insert_iff by metis+
    moreover have "\<forall>b \<in> live ?s. b < tk_next ?s" using inv unfolding task_inv_def l by (auto simp: less_Suc_eq)
    ultimately show ?thesis unfolding task_inv_def by blast
  qed
  then show ?thesis using Call by simp
next
  case (MoveInit x y)
  then have n: "map_of (tk_scope s) x = None" "y \<noteq> x" "map_of (tk_scope s) y \<noteq> None" using c by (auto simp: map_of_eq_None_iff)
  let ?s = "s\<lparr>tk_scope := AList.update x (task_of y s) (AList.update y None (tk_scope s))\<rparr>"
  have "live ?s = live s - {a. owns s x a}" using n(1) by (simp add: live_def owns_def)
  then have "task_inv ?s" using n by (intro move_inv [OF inv, of x y]) auto
  then show ?thesis using MoveInit by simp
next
  case (MoveAssign x y)
  show ?thesis
  proof (cases "x = y")
    case True
    then show ?thesis using inv MoveAssign by simp
  next
    case False
    obtain h where h: "Destroy (task_of x s) (tk_frames s) = Ok h" "dom (map_of h) = live s - {a. owns s x a}"
      using Destroy_owned [OF inv, of x] c MoveAssign by auto
    have n: "map_of (tk_scope s) y \<noteq> None" using c MoveAssign by (auto simp: map_of_eq_None_iff)
    let ?s = "s\<lparr>tk_frames := h, tk_scope := AList.update x (task_of y s) (AList.update y None (tk_scope s))\<rparr>"
    have "live ?s = live s - {a. owns s x a}" using h(2) by (simp add: live_def)
    then have "task_inv ?s" using n False by (intro move_inv [OF inv, of x y]) auto
    then show ?thesis using MoveAssign False h(1) by simp
  qed
next
  case (EndScope x)
  obtain h where h: "Destroy (task_of x s) (tk_frames s) = Ok h" "dom (map_of h) = live s - {a. owns s x a}"
    using Destroy_owned [OF inv, of x] c EndScope by auto
  let ?s = "s\<lparr>tk_frames := h, tk_scope := AList.delete x (tk_scope s)\<rparr>"
  have o: "owns ?s z a \<longleftrightarrow> z \<noteq> x \<and> owns s z a" for z a by (auto simp: owns_def delete_conv')
  have "live ?s = live s - {a. owns s x a}" using h(2) by (simp add: live_def)
  then have "task_inv ?s" using inv unfolding task_inv_def o by simp metis
  then show ?thesis using EndScope h(1) by simp
qed

lemma task_run_inv: "task_inv s \<Longrightarrow> \<exists>s'. task_run ops s = Ok s' \<and> task_inv s'"
proof (induction ops arbitrary: s)
  case (Cons op ops)
  show ?case
  proof (cases "op_compiles op s")
    case True
    then obtain s' where "task_step op s = Ok s'" "task_inv s'" using task_step_inv [OF Cons.prems] by blast
    then show ?thesis using Cons.IH True by simp
  qed (use Cons.prems in simp)
qed simp

text \<open>C17. Whatever sequence of declarations, moves, assignments (self-assignment included) and scope ends a program makes, no frame is
  destroyed twice or used after its end, no two tasks own the same frame, and exactly the owned frames are alive: when the last
  task is gone, no frame is left.\<close>

theorem Task_ownership:
  "\<exists>s :: ('a, 'x) task_state. task_run ops task_init = Ok s \<and> (\<forall>x y a. owns s x a \<longrightarrow> owns s y a \<longrightarrow> x = y) \<and>
    (\<forall>a. a \<in> live s \<longleftrightarrow> (\<exists>x. owns s x a)) \<and> (tk_scope s = [] \<longrightarrow> tk_frames s = [])"
proof -
  obtain s :: "('a, 'x) task_state" where s: "task_run ops task_init = Ok s" "task_inv s" using task_run_inv [OF task_inv_init] by blast
  have "tk_frames s = []" if "tk_scope s = []"
  proof -
    have "live s = {}" using s(2) that by (auto simp: task_inv_def owns_def)
    then have "fst ` set (tk_frames s) = {}" unfolding live_def dom_map_of_conv_image_fst .
    then show ?thesis by simp
  qed
  then show ?thesis using s unfolding task_inv_def by blast
qed

definition demo_ops :: "string task_op list" where
  "demo_ops = [Call ''a'', Call ''b'', MoveInit ''c'' ''a'', MoveAssign ''b'' ''c'', MoveAssign ''b'' ''b'', EndScope ''a'', EndScope ''c'', EndScope ''b'']"

theorem Task_ownership_witness:
  "\<exists>s :: (nat, string) task_state. task_run demo_ops task_init = Ok s \<and> tk_next s = 2 \<and> tk_frames s = []"
proof -
  obtain s :: "(nat, string) task_state" where s: "task_run demo_ops task_init = Ok s" "tk_scope s = [] \<longrightarrow> tk_frames s = []"
    using Task_ownership [where 'a = nat, of demo_ops] by blast
  have "case task_run demo_ops (task_init :: (nat, string) task_state) of Inl _ \<Rightarrow> False | Inr t \<Rightarrow> tk_scope t = [] \<and> tk_next t = 2" by code_simp
  then show ?thesis using s by simp
qed

section \<open>Awaiting\<close>

text \<open>Awaiting a task that has not started runs it, resumes the awaiting coroutine and gives it the task's value or exception; awaiting
  it again gives the stored outcome without running it.\<close>

theorem co_await_outcome:
  assumes "map_of h a = Some \<lparr>fr_promise = TaskPromise_new, fr_done = False\<rparr>"
  shows "\<exists>h'. co_await body awaiting (Some a) h = Ok (body a, Some awaiting, h') \<and>
    co_await body' awaiting' (Some a) h' = Ok (body a, Some awaiting', h')"
proof -
  let ?p = "store_outcome (body a) (set_continuation awaiting TaskPromise_new)"
  have p: "promise_result ?p = body a" "FinalAwaiter_suspend ?p = Some awaiting"
    by (cases "body a"; simp add: store_outcome_def promise_result_def unhandled_exception_def return_value_def set_continuation_def
      TaskPromise_new_def FinalAwaiter_suspend_def)+
  define h1 where "h1 = AList.update a \<lparr>fr_promise = set_continuation awaiting TaskPromise_new, fr_done = False\<rparr> h"
  define h2 where "h2 = AList.update a \<lparr>fr_promise = ?p, fr_done = True\<rparr> h1"
  have m: "map_of h1 a = Some \<lparr>fr_promise = set_continuation awaiting TaskPromise_new, fr_done = False\<rparr>"
    "map_of h2 a = Some \<lparr>fr_promise = ?p, fr_done = True\<rparr>" by (simp_all add: h1_def h2_def update_conv')
  have "await_ready (Some a) h = Ok False" "await_suspend (Some a) awaiting h = Ok (a, h1)"
    using assms by (simp_all add: await_ready_def await_suspend_def on_promise_def frame_at_def h1_def)
  moreover have "finish_coroutine a (body a) h1 = Ok (Some awaiting, h2)"
    using m(1) p(2) by (simp add: finish_coroutine_def frame_at_def h2_def Let_def)
  moreover have "await_resume (Some a) h2 = body a" "await_ready (Some a) h2 = Ok True"
    using m(2) p(1) by (simp_all add: await_resume_def await_ready_def frame_at_def)
  ultimately show ?thesis by (intro exI [of _ h2]) (simp add: co_await_def)
qed

text \<open>The awaiter treats a task without a coroutine as ready, and then reads the promise behind the null handle.\<close>

lemma co_await_empty: "co_await body awaiting None h = Ok (Throw (Undefined ''promise of a null handle''), Some awaiting, h)"
  by (simp add: co_await_def await_ready_def await_resume_def)

end
