(* ===== verification/CoroPipeline.thy ===== *)
theory CoroPipeline
  imports Future Metric
begin

text \<open>
  \<^verbatim>\<open>coro/pipeline.{h,cpp}\<close>: steps chained by \<^verbatim>\<open>ThenAsync\<close>, each a coroutine on the pool or a set of parallel branches joined by \<^verbatim>\<open>AllOf\<close>.

  The code of a step is the sequence of its accesses to the shared context; the first access that throws ends it.  One access is
  atomic, and the accesses of parallel branches interleave in any way.  A run is a sequence of actions: a pool worker starts a step, the step
  makes its next access, spawns or attaches a branch, a branch makes its next access, reports or resolves its future, the step joins,
  reports and hands over to the next one.  Clock readings are arbitrary.
\<close>

section \<open>Model\<close>

type_synonym 'c access = "'c \<Rightarrow> unit res \<times> 'c"
type_synonym 'c StepFn = "'c access list"

record 'c Step =
  sp_name :: string
  sp_fn :: "'c StepFn"
  sp_parallel :: "(string \<times> 'c StepFn) list"
  sp_is_parallel :: bool

record 'c CoroPipeline =
  cp_monitor :: bool
  cp_steps :: "'c Step list"
  cp_ctx :: 'c

definition CoroPipeline_new :: "bool \<Rightarrow> 'c \<Rightarrow> 'c CoroPipeline" where
  "CoroPipeline_new monitor ctx = \<lparr>cp_monitor = monitor, cp_steps = [], cp_ctx = ctx\<rparr>"

definition Pipeline_Add :: "string \<Rightarrow> 'c StepFn \<Rightarrow> 'c CoroPipeline \<Rightarrow> 'c CoroPipeline" where
  "Pipeline_Add name step p =
    p\<lparr>cp_steps := cp_steps p @ [\<lparr>sp_name = name, sp_fn = step, sp_parallel = [], sp_is_parallel = False\<rparr>]\<rparr>"

definition Pipeline_AddSync :: "string \<Rightarrow> 'c access \<Rightarrow> 'c CoroPipeline \<Rightarrow> 'c CoroPipeline" where
  "Pipeline_AddSync name step p = Pipeline_Add name [step] p"

definition Pipeline_AddParallel :: "(string \<times> 'c StepFn) list \<Rightarrow> 'c CoroPipeline \<Rightarrow> 'c CoroPipeline" where
  "Pipeline_AddParallel steps p =
    p\<lparr>cp_steps := cp_steps p @ [\<lparr>sp_name = ''parallel('' @ nat_to_string (length steps) @ '')'', sp_fn = [], sp_parallel = steps,
        sp_is_parallel = True\<rparr>]\<rparr>"

definition Pipeline_Emit :: "bool \<Rightarrow> string \<Rightarrow> int \<Rightarrow> bool \<Rightarrow> Event list" where
  "Pipeline_Emit monitor name elapsed ok =
    (if monitor then [(Event_new ''coro'' ''pipeline.step'' name)\<lparr>ev_duration := elapsed, ev_ok := ok\<rparr>] else [])"

subsection \<open>A coroutine\<close>

text \<open>Where the coroutine of a step or of a branch is: not spawned, in the pool's queue, before an access (with the time it started), past
  its code, past its report, or with its future resolved.  A parallel step spawns its branches and then attaches them to the join.\<close>

datatype activity =
    Idle
  | Queued
  | Running int nat
  | Spawning int nat
  | Joining int nat
  | Ended int "unit res"
  | Emitted "unit res"
  | Resolved "unit res"

inductive code_step :: "bool \<Rightarrow> string \<Rightarrow> 'c StepFn \<Rightarrow> 'c \<times> Event list \<times> activity \<Rightarrow> 'c \<times> Event list \<times> activity \<Rightarrow> bool"
  for monitor name fn where
  start: "code_step monitor name fn (c, evs, Queued) (c, evs, Running t 0)"
| access: "i < length fn \<Longrightarrow> (fn ! i) c = (Ok (), c') \<Longrightarrow> code_step monitor name fn (c, evs, Running t i) (c', evs, Running t (Suc i))"
| throws: "i < length fn \<Longrightarrow> (fn ! i) c = (Throw e, c') \<Longrightarrow> code_step monitor name fn (c, evs, Running t i) (c', evs, Ended t (Throw e))"
| returns: "i = length fn \<Longrightarrow> code_step monitor name fn (c, evs, Running t i) (c, evs, Ended t (Ok ()))"
| emit: "code_step monitor name fn (c, evs, Ended t r) (c, evs @ Pipeline_Emit monitor name (t' - t) (r = Ok ()), Emitted r)"

inductive_cases code_stepE: "code_step monitor name fn (c, evs, a) x"

subsection \<open>A run\<close>

record 'c run_state =
  ru_ctx :: 'c
  ru_events :: "Event list"
  ru_step :: nat
  ru_phase :: activity
  ru_branch :: "nat \<Rightarrow> activity"
  ru_order :: "nat list"
  ru_result :: "unit res option"

definition run_init :: "'c CoroPipeline \<Rightarrow> 'c run_state" where
  "run_init p = \<lparr>ru_ctx = cp_ctx p, ru_events = [], ru_step = 0, ru_phase = Queued, ru_branch = (\<lambda>_. Idle), ru_order = [],
    ru_result = (if cp_steps p = [] then Some (Ok ()) else None)\<rparr>"

definition cur :: "'c CoroPipeline \<Rightarrow> 'c run_state \<Rightarrow> 'c Step" where
  "cur p s = cp_steps p ! ru_step s"

definition branches :: "'c CoroPipeline \<Rightarrow> 'c run_state \<Rightarrow> nat" where
  "branches p s = length (sp_parallel (cur p s))"

text \<open>The branches whose continuation the join has registered.\<close>

fun attached :: "activity \<Rightarrow> nat \<Rightarrow> bool" where
  "attached (Joining _ j) i = (i < j)"
| "attached (Ended _ _) i = True"
| "attached (Emitted _) i = True"
| "attached (Resolved _) i = True"
| "attached _ i = False"

fun is_resolved :: "activity \<Rightarrow> bool" where
  "is_resolved (Resolved _) = True"
| "is_resolved _ = False"

fun branch_future :: "activity \<Rightarrow> VoidState" where
  "branch_future (Resolved (Inl e)) = ResolveErrorVoid e VoidState_new"
| "branch_future (Resolved (Inr _)) = ResolveVoid VoidState_new"
| "branch_future _ = VoidState_new"

definition joined :: "'c CoroPipeline \<Rightarrow> 'c run_state \<Rightarrow> unit res option" where
  "joined p s = VoidState_Get (AllOfVoid (map (\<lambda>i. branch_future (ru_branch s i)) [0..<branches p s]) (ru_order s))"

text \<open>What \<^verbatim>\<open>ThenAsync\<close> does when the future of a step resolves: an exception is passed along the rest of the chain, otherwise the
  next step is put on the pool.\<close>

definition hand_over :: "'c CoroPipeline \<Rightarrow> unit res \<Rightarrow> 'c run_state \<Rightarrow> 'c run_state" where
  "hand_over p r s =
    (case r of
       Inl e \<Rightarrow> s\<lparr>ru_phase := Resolved r, ru_result := Some r\<rparr>
     | Inr _ \<Rightarrow>
         if Suc (ru_step s) = length (cp_steps p) then s\<lparr>ru_phase := Resolved r, ru_result := Some r\<rparr>
         else s\<lparr>ru_step := Suc (ru_step s), ru_phase := Queued, ru_branch := (\<lambda>_. Idle), ru_order := []\<rparr>)"

inductive run_step :: "'c CoroPipeline \<Rightarrow> 'c run_state \<Rightarrow> 'c run_state \<Rightarrow> bool" for p where
  sequential: "ru_result s = None \<Longrightarrow> \<not> sp_is_parallel (cur p s) \<Longrightarrow>
    code_step (cp_monitor p) (sp_name (cur p s)) (sp_fn (cur p s)) (ru_ctx s, ru_events s, ru_phase s) (c, evs, a) \<Longrightarrow>
    run_step p s (s\<lparr>ru_ctx := c, ru_events := evs, ru_phase := a\<rparr>)"
| fan_out: "ru_result s = None \<Longrightarrow> sp_is_parallel (cur p s) \<Longrightarrow> ru_phase s = Queued \<Longrightarrow> run_step p s (s\<lparr>ru_phase := Spawning t 0\<rparr>)"
| spawn: "ru_phase s = Spawning t j \<Longrightarrow> j < branches p s \<Longrightarrow>
    run_step p s (s\<lparr>ru_phase := Spawning t (Suc j), ru_branch := (ru_branch s)(j := Queued)\<rparr>)"
| spawned: "ru_phase s = Spawning t j \<Longrightarrow> j = branches p s \<Longrightarrow> run_step p s (s\<lparr>ru_phase := Joining t 0\<rparr>)"
| attach: "ru_phase s = Joining t j \<Longrightarrow> j < branches p s \<Longrightarrow>
    run_step p s (s\<lparr>ru_phase := Joining t (Suc j), ru_order := (if is_resolved (ru_branch s j) then ru_order s @ [j] else ru_order s)\<rparr>)"
| branch: "i < branches p s \<Longrightarrow> ru_branch s i = b \<Longrightarrow>
    code_step (cp_monitor p) (fst (sp_parallel (cur p s) ! i)) (snd (sp_parallel (cur p s) ! i)) (ru_ctx s, ru_events s, b) (c, evs, a) \<Longrightarrow>
    run_step p s (s\<lparr>ru_ctx := c, ru_events := evs, ru_branch := (ru_branch s)(i := a)\<rparr>)"
| resolve: "i < branches p s \<Longrightarrow> ru_branch s i = Emitted r \<Longrightarrow>
    run_step p s (s\<lparr>ru_branch := (ru_branch s)(i := Resolved r), ru_order := (if attached (ru_phase s) i then ru_order s @ [i] else ru_order s)\<rparr>)"
| join: "ru_phase s = Joining t j \<Longrightarrow> j = branches p s \<Longrightarrow> joined p s = Some r \<Longrightarrow> run_step p s (s\<lparr>ru_phase := Ended t r\<rparr>)"
| report: "sp_is_parallel (cur p s) \<Longrightarrow> ru_phase s = Ended t r \<Longrightarrow>
    run_step p s (s\<lparr>ru_events := ru_events s @ Pipeline_Emit (cp_monitor p) (sp_name (cur p s)) (t' - t) (r = Ok ()), ru_phase := Emitted r\<rparr>)"
| hand_over: "ru_phase s = Emitted r \<Longrightarrow> run_step p s (hand_over p r s)"

inductive_cases run_stepE: "run_step p s s'"

inductive run_reach :: "'c CoroPipeline \<Rightarrow> 'c run_state \<Rightarrow> bool" for p where
  init: "run_reach p (run_init p)"
| more: "run_reach p s \<Longrightarrow> run_step p s s' \<Longrightarrow> run_reach p s'"

section \<open>The shape of a run\<close>

text \<open>How many branches the current step has spawned, and which positions its own coroutine and the branches can have.\<close>

fun launched :: "bool \<Rightarrow> nat \<Rightarrow> activity \<Rightarrow> nat" where
  "launched par n (Spawning _ j) = (if par then j else 0)"
| "launched par n (Joining _ j) = (if par then n else 0)"
| "launched par n (Ended _ _) = (if par then n else 0)"
| "launched par n (Emitted _) = (if par then n else 0)"
| "launched par n (Resolved _) = (if par then n else 0)"
| "launched par n _ = 0"

fun code_ok :: "nat \<Rightarrow> activity \<Rightarrow> bool" where
  "code_ok len (Running _ i) = (i \<le> len)"
| "code_ok len (Spawning _ _) = False"
| "code_ok len (Joining _ _) = False"
| "code_ok len _ = True"

fun phase_ok :: "bool \<Rightarrow> nat \<Rightarrow> nat \<Rightarrow> activity \<Rightarrow> bool" where
  "phase_ok par len n Idle = False"
| "phase_ok par len n (Running _ i) = (\<not> par \<and> i \<le> len)"
| "phase_ok par len n (Spawning _ j) = (par \<and> j \<le> n)"
| "phase_ok par len n (Joining _ j) = (par \<and> j \<le> n)"
| "phase_ok par len n _ = True"

fun settled :: "activity \<Rightarrow> unit res option" where
  "settled (Resolved r) = Some r"
| "settled _ = None"

abbreviation parallel :: "'c CoroPipeline \<Rightarrow> 'c run_state \<Rightarrow> bool" where
  "parallel p s \<equiv> sp_is_parallel (cur p s)"

abbreviation branch_code :: "'c CoroPipeline \<Rightarrow> 'c run_state \<Rightarrow> nat \<Rightarrow> 'c StepFn" where
  "branch_code p s i \<equiv> snd (sp_parallel (cur p s) ! i)"

definition run_inv :: "'c CoroPipeline \<Rightarrow> 'c run_state \<Rightarrow> bool" where
  "run_inv p s =
    (ru_step s < length (cp_steps p)
     \<and> (\<forall>i. ru_branch s i = Idle \<longleftrightarrow> launched (parallel p s) (branches p s) (ru_phase s) \<le> i)
     \<and> (\<forall>i. code_ok (length (branch_code p s i)) (ru_branch s i))
     \<and> phase_ok (parallel p s) (length (sp_fn (cur p s))) (branches p s) (ru_phase s)
     \<and> distinct (ru_order s) \<and> set (ru_order s) = {i. is_resolved (ru_branch s i) \<and> attached (ru_phase s) i}
     \<and> ru_result s = settled (ru_phase s))"

lemma run_inv_facts:
  assumes "run_inv p s"
  shows "ru_step s < length (cp_steps p)"
    "\<And>i. ru_branch s i = Idle \<longleftrightarrow> launched (parallel p s) (branches p s) (ru_phase s) \<le> i"
    "\<And>i. code_ok (length (branch_code p s i)) (ru_branch s i)"
    "phase_ok (parallel p s) (length (sp_fn (cur p s))) (branches p s) (ru_phase s)"
    "distinct (ru_order s)" "set (ru_order s) = {i. is_resolved (ru_branch s i) \<and> attached (ru_phase s) i}"
    "ru_result s = settled (ru_phase s)"
  using assms by (simp_all add: run_inv_def)

lemma code_step_shape:
  assumes "code_step m nm fn (c, evs, a) (c', evs', a')" "code_ok (length fn) a"
  shows "code_ok (length fn) a'" "a \<noteq> Idle" "a' \<noteq> Idle" "\<not> is_resolved a" "\<not> is_resolved a'" "settled a' = None"
    "phase_ok False (length fn) n a'"
  using assms by (auto elim!: code_stepE)

lemma settled_iff: "settled a = None \<longleftrightarrow> \<not> is_resolved a"
  by (cases a) auto

lemma launched_le: "phase_ok par len n a \<Longrightarrow> launched par n a \<le> n"
  by (cases a) auto

lemma run_inv_init: "cp_steps p \<noteq> [] \<Longrightarrow> run_inv p (run_init p)"
  by (simp add: run_inv_def run_init_def)

lemma cur_simps [simp]:
  "cur p (s\<lparr>ru_ctx := c\<rparr>) = cur p s" "cur p (s\<lparr>ru_events := e\<rparr>) = cur p s" "cur p (s\<lparr>ru_phase := a\<rparr>) = cur p s"
  "cur p (s\<lparr>ru_branch := b\<rparr>) = cur p s" "cur p (s\<lparr>ru_order := od\<rparr>) = cur p s" "cur p (s\<lparr>ru_result := r\<rparr>) = cur p s"
  "branches p (s\<lparr>ru_ctx := c\<rparr>) = branches p s" "branches p (s\<lparr>ru_events := e\<rparr>) = branches p s" "branches p (s\<lparr>ru_phase := a\<rparr>) = branches p s"
  "branches p (s\<lparr>ru_branch := b\<rparr>) = branches p s" "branches p (s\<lparr>ru_order := od\<rparr>) = branches p s" "branches p (s\<lparr>ru_result := r\<rparr>) = branches p s"
  by (simp_all add: cur_def branches_def)

lemma launched_parallel: "\<not> launched par n a \<le> i \<Longrightarrow> par"
  by (cases a) (auto split: if_splits)

lemma resolved_branch:
  assumes "run_inv p s" "is_resolved (ru_branch s i)"
  shows "i < branches p s"
  using assms(2) run_inv_facts(2) [OF assms(1), of i] launched_le [OF run_inv_facts(4) [OF assms(1)]] by (cases "ru_branch s i") auto

lemma run_step_inv:
  assumes "run_step p s s'" "run_inv p s"
  shows "run_inv p s'"
  using assms(1)
proof cases
  case (sequential c evs a)
  note d = run_inv_facts [OF assms(2)]
  have "code_ok (length (sp_fn (cur p s))) (ru_phase s)" using d(4) sequential(3) by (cases "ru_phase s") auto
  note k = code_step_shape [OF sequential(4) this]
  have b: "ru_branch s i = Idle" for i using d(2) sequential(3) by (cases "ru_phase s") auto
  have "launched False (branches p s) a = 0" by (cases a) auto
  moreover have "ru_order s = []" using d(6) b by simp
  ultimately show ?thesis using sequential b d(1) k(6,7) by (simp add: run_inv_def)
next
  case (fan_out t)
  then show ?thesis using run_inv_facts [OF assms(2)] by (auto simp: run_inv_def)
next
  case (spawn t j)
  then show ?thesis using run_inv_facts [OF assms(2)] by (auto simp: run_inv_def)
next
  case (spawned t j)
  then show ?thesis using run_inv_facts [OF assms(2)] by (auto simp: run_inv_def)
next
  case (attach t j)
  then show ?thesis using run_inv_facts [OF assms(2)] by (auto simp: run_inv_def less_Suc_eq)
next
  case (branch i b c evs a)
  note d = run_inv_facts [OF assms(2)]
  note k = code_step_shape [OF branch(4)]
  show ?thesis using d branch k d(3) [of i] unfolding run_inv_def by auto
next
  case (resolve i r)
  note d = run_inv_facts [OF assms(2)]
  have "\<not> launched (parallel p s) (branches p s) (ru_phase s) \<le> i" using d(2) [of i] resolve by simp
  then show ?thesis using d resolve unfolding run_inv_def by auto
next
  case (join t j r)
  then show ?thesis using run_inv_facts [OF assms(2)] resolved_branch [OF assms(2)] by (auto simp: run_inv_def)
next
  case (report t r t')
  then show ?thesis using run_inv_facts [OF assms(2)] by (auto simp: run_inv_def)
next
  case (hand_over r)
  then show ?thesis using run_inv_facts [OF assms(2)] by (auto simp: run_inv_def hand_over_def split: sum.splits)
qed

lemma run_reach_inv: "run_reach p s \<Longrightarrow> cp_steps p \<noteq> [] \<Longrightarrow> run_inv p s"
  by (induction rule: run_reach.induct) (auto intro: run_inv_init run_step_inv)

section \<open>Every run ends\<close>

fun left :: "nat \<Rightarrow> activity \<Rightarrow> nat" where
  "left len Idle = len + 5"
| "left len Queued = len + 4"
| "left len (Running _ i) = len - i + 3"
| "left len (Ended _ _) = 2"
| "left len (Emitted _) = 1"
| "left len _ = 0"

fun phase_left :: "nat \<Rightarrow> nat \<Rightarrow> activity \<Rightarrow> nat" where
  "phase_left len n (Spawning _ j) = (n - j) + n + 4"
| "phase_left len n (Joining _ j) = (n - j) + 3"
| "phase_left len n Queued = len + 2 * n + 5"
| "phase_left len n a = left len a"

definition step_weight :: "'c Step \<Rightarrow> nat" where
  "step_weight st = length (sp_fn st) + 2 * length (sp_parallel st) + 5 + (\<Sum>(_, fn) \<leftarrow> sp_parallel st. length fn + 5)"

definition branch_weight :: "'c Step \<Rightarrow> (nat \<Rightarrow> activity) \<Rightarrow> nat" where
  "branch_weight st b = (\<Sum>i < length (sp_parallel st). left (length (snd (sp_parallel st ! i))) (b i))"

definition run_weight :: "'c CoroPipeline \<Rightarrow> 'c run_state \<Rightarrow> nat" where
  "run_weight p s = phase_left (length (sp_fn (cur p s))) (branches p s) (ru_phase s) + branch_weight (cur p s) (ru_branch s) +
    (\<Sum>st \<leftarrow> drop (Suc (ru_step s)) (cp_steps p). step_weight st)"

lemma branch_weight_upd:
  assumes "i < length (sp_parallel st)" "left (length (snd (sp_parallel st ! i))) a < left (length (snd (sp_parallel st ! i))) (b i)"
  shows "branch_weight st (b(i := a)) < branch_weight st b"
  unfolding branch_weight_def by (rule sum_strict_mono_ex1) (use assms in auto)

lemma branch_weight_idle: "branch_weight st (\<lambda>_. Idle) = (\<Sum>(_, fn) \<leftarrow> sp_parallel st. length fn + 5)"
  by (simp add: branch_weight_def sum_list_sum_nth atLeast0LessThan case_prod_unfold)

lemma code_step_left: "code_step m nm fn (c, evs, a) (c', evs', a') \<Longrightarrow> left (length fn) a' < left (length fn) a"
  by (auto elim!: code_stepE)

lemma code_step_phase_left:
  assumes "code_step m nm fn (c, evs, a) (c', evs', a')"
  shows "phase_left (length fn) n a' < phase_left (length fn) n a"
  using assms by (auto elim!: code_stepE)

lemma hand_over_weight:
  assumes "ru_phase s = Emitted r" "ru_step s < length (cp_steps p)"
  shows "run_weight p (hand_over p r s) < run_weight p s"
proof (cases "r = Ok () \<and> Suc (ru_step s) < length (cp_steps p)")
  case True
  let ?k = "Suc (ru_step s)"
  have c: "drop ?k (cp_steps p) = cp_steps p ! ?k # drop (Suc ?k) (cp_steps p)" using True Cons_nth_drop_Suc by metis
  have h: "hand_over p r s = s\<lparr>ru_step := ?k, ru_phase := Queued, ru_branch := (\<lambda>_. Idle), ru_order := []\<rparr>"
    using True by (simp add: hand_over_def)
  show ?thesis unfolding run_weight_def h c using assms(1)
    by (simp add: cur_def branches_def step_weight_def branch_weight_idle)
next
  case False
  then have "hand_over p r s = s\<lparr>ru_phase := Resolved r, ru_result := Some r\<rparr>"
    using assms(2) by (cases r) (auto simp: hand_over_def)
  then show ?thesis using assms(1) by (simp add: run_weight_def)
qed

lemma run_step_weight:
  assumes "run_step p s s'" "run_inv p s"
  shows "run_weight p s' < run_weight p s"
  using assms(1)
proof cases
  case (sequential c evs a)
  then show ?thesis using code_step_phase_left [OF sequential(4), of "branches p s"] by (simp add: run_weight_def)
next
  case (spawn t j)
  then have "branch_weight (cur p s) ((ru_branch s)(j := Queued)) < branch_weight (cur p s) (ru_branch s)"
    using run_inv_facts(2) [OF assms(2), of j] run_inv_facts(4) [OF assms(2)] by (intro branch_weight_upd) (auto simp: branches_def)
  then show ?thesis using spawn by (simp add: run_weight_def)
next
  case (branch i b c evs a)
  then have "branch_weight (cur p s) ((ru_branch s)(i := a)) < branch_weight (cur p s) (ru_branch s)"
    using code_step_left [OF branch(4)] by (intro branch_weight_upd) (auto simp: branches_def)
  then show ?thesis using branch by (simp add: run_weight_def)
next
  case (resolve i r)
  then have "branch_weight (cur p s) ((ru_branch s)(i := Resolved r)) < branch_weight (cur p s) (ru_branch s)"
    by (intro branch_weight_upd) (auto simp: branches_def)
  then show ?thesis using resolve by (simp add: run_weight_def)
next
  case (hand_over r)
  then show ?thesis using hand_over_weight [OF hand_over(2) run_inv_facts(1) [OF assms(2)]] by simp
qed (simp_all add: run_weight_def)

text \<open>A join reads only the futures in its order.\<close>

lemma AllOfVoid_cong:
  assumes "\<And>i. i \<in> set order \<Longrightarrow> i < n \<and> f i = g i"
  shows "AllOfVoid (map f [0..<n]) order = AllOfVoid (map g [0..<n]) order"
proof -
  have "fold (\<lambda>i. RunAllOfVoid (map f [0..<n] ! i)) order x = fold (\<lambda>i. RunAllOfVoid (map g [0..<n] ! i)) order x" for x
    by (rule fold_cong) (use assms in auto)
  then show ?thesis by (simp add: AllOfVoid_def AllOfVoid_run_def)
qed

fun outcome_of :: "activity \<Rightarrow> unit res" where
  "outcome_of (Ended _ r) = r"
| "outcome_of (Emitted r) = r"
| "outcome_of (Resolved r) = r"
| "outcome_of _ = Ok ()"

lemma resolved_future: "is_resolved a \<Longrightarrow> branch_future a = completed_void (outcome_of a)"
proof (cases a)
  case (Resolved r)
  then show ?thesis by (cases r) (simp_all only: branch_future.simps outcome_of.simps completed_void_def sum.case)
qed simp_all

lemma joined_eq:
  assumes "run_inv p s"
  shows "joined p s = all_of_void (map (\<lambda>i. outcome_of (ru_branch s i)) [0..<branches p s]) (ru_order s)"
proof -
  note d = run_inv_facts [OF assms]
  note lt = resolved_branch [OF assms]
  note f = resolved_future
  let ?rs = "map (\<lambda>i. outcome_of (ru_branch s i)) [0..<branches p s]"
  have "AllOfVoid (map (\<lambda>i. branch_future (ru_branch s i)) [0..<branches p s]) (ru_order s) =
      AllOfVoid (map (\<lambda>i. completed_void (outcome_of (ru_branch s i))) [0..<branches p s]) (ru_order s)"
    by (rule AllOfVoid_cong) (use d(6) lt f in auto)
  also have "\<dots> = AllOfVoid (map completed_void ?rs) (ru_order s)" by (simp add: comp_def)
  also have "\<dots> = void_of (all_of_void ?rs (ru_order s))"
    by (rule AllOfVoid_Get) (use d(5,6) lt in auto)
  finally have "joined p s = VoidState_Get (void_of (all_of_void ?rs (ru_order s)))" by (simp add: joined_def)
  moreover have "VoidState_Get (void_of q) = q" for q
    by (cases q) (auto simp: void_of_def VoidState_Get_def VoidState_new_def completed_void_def ResolveErrorVoid_def ResolveVoid_def
      split: sum.splits)
  ultimately show ?thesis by simp
qed

lemma code_step_exists:
  assumes "code_ok (length fn) a" "a \<noteq> Idle" "\<And>r. a \<noteq> Emitted r" "\<not> is_resolved a"
  shows "\<exists>c' evs' a'. code_step m nm fn (c, evs, a) (c', evs', a')"
proof (cases a)
  case (Running t i)
  show ?thesis
  proof (cases "i = length fn")
    case True
    then show ?thesis using code_step.returns [of i fn m nm c evs t] Running by auto
  next
    case False
    then have i: "i < length fn" using assms(1) Running by simp
    obtain r c' where r: "(fn ! i) c = (r, c')" by fastforce
    show ?thesis
    proof (cases r)
      case (Inl e)
      then show ?thesis using code_step.throws [OF i, of c e c' m nm evs t] r Running by auto
    next
      case (Inr u)
      then have "(fn ! i) c = (Ok (), c')" using r by simp
      then show ?thesis using code_step.access [OF i, of c c' m nm evs t] Running by auto
    qed
  qed
qed (use assms in \<open>auto intro: code_step.intros\<close>)

lemma stuck_branches:
  assumes inv: "run_inv p s" and stuck: "\<And>s'. \<not> run_step p s s'" and i: "i < branches p s"
  shows "ru_branch s i = Idle \<or> is_resolved (ru_branch s i)"
proof (rule ccontr)
  assume n: "\<not> (ru_branch s i = Idle \<or> is_resolved (ru_branch s i))"
  show False
  proof (cases "\<exists>r. ru_branch s i = Emitted r")
    case True
    then show ?thesis using run_step.resolve [OF i] stuck by blast
  next
    case False
    then obtain c evs a where "code_step (cp_monitor p) (fst (sp_parallel (cur p s) ! i)) (branch_code p s i) (ru_ctx s, ru_events s, ru_branch s i) (c, evs, a)"
      using code_step_exists [OF run_inv_facts(3) [OF inv, of i]] n by blast
    then show ?thesis using run_step.branch [OF i refl] stuck by blast
  qed
qed

lemma stuck_joined:
  assumes inv: "run_inv p s" and stuck: "\<And>s'. \<not> run_step p s s'" and ph: "ru_phase s = Joining t (branches p s)"
  shows "joined p s \<noteq> None"
proof -
  note d = run_inv_facts [OF inv]
  have "is_resolved (ru_branch s i) \<longleftrightarrow> i < branches p s" for i
    using stuck_branches [OF inv stuck, of i] d(2) [of i] d(4) ph resolved_branch [OF inv, of i] by auto
  then have "set (ru_order s) = {..<branches p s}" using d(6) ph by auto
  then have "length (ru_order s) = branches p s" using distinct_card [OF d(5)] by simp
  then show ?thesis by (simp add: joined_eq [OF inv] all_of_void_def split: option.split)
qed

lemma stuck_resolved:
  assumes inv: "run_inv p s" and stuck: "\<And>s'. \<not> run_step p s s'"
  shows "is_resolved (ru_phase s) \<and> (\<forall>i < branches p s. parallel p s \<longrightarrow> is_resolved (ru_branch s i))"
proof -
  note d = run_inv_facts [OF inv]
  have seq: False if q: "\<not> parallel p s" "\<not> is_resolved (ru_phase s)" "\<nexists>r. ru_phase s = Emitted r"
  proof -
    have "code_ok (length (sp_fn (cur p s))) (ru_phase s)" "ru_phase s \<noteq> Idle" using d(4) q by (cases "ru_phase s"; simp)+
    then obtain c evs a where
      "code_step (cp_monitor p) (sp_name (cur p s)) (sp_fn (cur p s)) (ru_ctx s, ru_events s, ru_phase s) (c, evs, a)"
      using code_step_exists [of "sp_fn (cur p s)" "ru_phase s"] q(2,3) by meson
    then show False using run_step.sequential [of s p] d(7) q stuck settled_iff by metis
  qed
  have r: "is_resolved (ru_phase s)"
  proof (rule ccontr)
    assume n: "\<not> is_resolved (ru_phase s)"
    then have none: "ru_result s = None" using d(7) by (cases "ru_phase s") auto
    show False
    proof (cases "ru_phase s")
      case (Spawning t j)
      then show ?thesis using run_step.spawn [OF Spawning] run_step.spawned [OF Spawning] d(4) stuck by (metis phase_ok.simps(3) le_neq_implies_less)
    next
      case (Joining t j)
      then show ?thesis
        using run_step.attach [OF Joining] run_step.join [OF Joining] d(4) stuck stuck_joined [OF inv stuck] by (metis phase_ok.simps(4) le_neq_implies_less not_None_eq)
    next
      case (Emitted r)
      then show ?thesis using run_step.hand_over stuck by blast
    next
      case Queued
      then show ?thesis using seq run_step.fan_out [OF none] stuck by auto
    next
      case (Ended t r)
      then show ?thesis using seq run_step.report stuck by (metis activity.distinct is_resolved.simps)
    qed (use d(4) seq n in auto)
  qed
  have "is_resolved (ru_branch s i)" if "i < branches p s" "parallel p s" for i
    using r stuck_branches [OF inv stuck, of i] d(2) [of i] that by (cases "ru_phase s") auto
  then show ?thesis using r by blast
qed

section \<open>What a run computes\<close>

text \<open>The reference: all accesses one after another, branch by branch, until one throws.\<close>

fun exec :: "'c access list \<Rightarrow> 'c \<Rightarrow> unit res \<times> 'c" where
  "exec [] c = (Ok (), c)"
| "exec (f # fs) c = (case f c of (Inl e, c') \<Rightarrow> (Throw e, c') | (Inr _, c') \<Rightarrow> exec fs c')"

definition accesses :: "'c Step \<Rightarrow> 'c access list" where
  "accesses st = (if sp_is_parallel st then concat (map snd (sp_parallel st)) else sp_fn st)"

definition Pipeline_spec :: "'c CoroPipeline \<Rightarrow> unit res \<times> 'c" where
  "Pipeline_spec p = exec (concat (map accesses (cp_steps p))) (cp_ctx p)"

text \<open>What the documentation asks of parallel branches: their accesses do not throw, and those of different branches can be
  exchanged (they write different fields and do not read each other's).\<close>

definition total_access :: "'c access \<Rightarrow> bool" where
  "total_access f = (\<forall>c. fst (f c) = Ok ())"

definition commute :: "'c access \<Rightarrow> 'c access \<Rightarrow> bool" where
  "commute f g = (\<forall>c. snd (g (snd (f c))) = snd (f (snd (g c))))"

definition independent :: "'c Step \<Rightarrow> bool" where
  "independent st = (sp_is_parallel st \<longrightarrow>
    (\<forall>i < length (sp_parallel st). \<forall>f \<in> set (snd (sp_parallel st ! i)). total_access f \<and>
      (\<forall>j < length (sp_parallel st). j \<noteq> i \<longrightarrow> (\<forall>g \<in> set (snd (sp_parallel st ! j)). commute f g))))"

lemma exec_total: "total_access f \<Longrightarrow> exec (f # fs) c = exec fs (snd (f c))"
  by (cases "f c") (auto simp: total_access_def dest: spec [of _ c] split: sum.splits)

lemma exec_exchange:
  assumes "total_access f" "\<And>g. g \<in> set gs \<Longrightarrow> total_access g \<and> commute f g"
  shows "exec (gs @ f # fs) c = exec (gs @ fs) (snd (f c))"
  using assms(2)
proof (induction gs arbitrary: c)
  case Nil
  then show ?case using exec_total [OF assms(1)] by simp
next
  case (Cons g gs)
  have "total_access g" "snd (f (snd (g c))) = snd (g (snd (f c)))" using Cons.prems [of g] by (auto simp: commute_def)
  moreover have "exec (gs @ f # fs) (snd (g c)) = exec (gs @ fs) (snd (f (snd (g c))))" using Cons by simp
  ultimately show ?case using exec_total [of g "gs @ f # fs" c] exec_total [of g "gs @ fs" "snd (f c)"] by simp
qed

text \<open>What is left to do of a coroutine, of the current step and of the pipeline.\<close>

fun code_left :: "'c StepFn \<Rightarrow> activity \<Rightarrow> 'c access list" where
  "code_left fn Idle = fn"
| "code_left fn Queued = fn"
| "code_left fn (Running _ i) = drop i fn"
| "code_left fn _ = []"

definition branches_left :: "'c Step \<Rightarrow> (nat \<Rightarrow> activity) \<Rightarrow> 'c access list" where
  "branches_left st b = concat (map (\<lambda>i. code_left (snd (sp_parallel st ! i)) (b i)) [0..<length (sp_parallel st)])"

definition step_left :: "'c CoroPipeline \<Rightarrow> 'c run_state \<Rightarrow> 'c access list" where
  "step_left p s = (if parallel p s then branches_left (cur p s) (ru_branch s) else code_left (sp_fn (cur p s)) (ru_phase s))"

definition later :: "'c CoroPipeline \<Rightarrow> 'c run_state \<Rightarrow> 'c access list" where
  "later p s = concat (map accesses (drop (Suc (ru_step s)) (cp_steps p)))"

fun past_join :: "activity \<Rightarrow> bool" where
  "past_join (Ended _ _) = True"
| "past_join (Emitted _) = True"
| "past_join (Resolved _) = True"
| "past_join _ = False"

fun settle :: "unit res \<Rightarrow> 'c \<Rightarrow> unit res \<times> 'c \<Rightarrow> unit res \<times> 'c" where
  "settle (Inl e) c x = (Throw e, c)"
| "settle (Inr _) c x = x"

definition det_inv :: "'c CoroPipeline \<Rightarrow> 'c run_state \<Rightarrow> bool" where
  "det_inv p s =
    ((\<forall>i. outcome_of (ru_branch s i) = Ok ())
     \<and> (parallel p s \<longrightarrow> past_join (ru_phase s) \<longrightarrow> (\<forall>i < branches p s. is_resolved (ru_branch s i)))
     \<and> (ru_phase s = Resolved (Ok ()) \<longrightarrow> later p s = [])
     \<and> Pipeline_spec p = settle (outcome_of (ru_phase s)) (ru_ctx s) (exec (step_left p s @ later p s) (ru_ctx s)))"

lemma branches_left_split:
  assumes "i < length (sp_parallel st)"
  shows "\<exists>xs ys. set xs \<subseteq> (\<Union>j \<in> {..<i}. set (snd (sp_parallel st ! j))) \<and>
    (\<forall>a. branches_left st (b(i := a)) = xs @ code_left (snd (sp_parallel st ! i)) a @ ys)"
proof -
  let ?n = "length (sp_parallel st)" and ?l = "\<lambda>b j. code_left (snd (sp_parallel st ! j)) (b j)"
  have u: "[0..<?n] = [0..<i] @ i # [Suc i..<?n]"
    using assms by (metis less_imp_le_nat upt_add_eq_append upt_conv_Cons le_add_diff_inverse zero_le)
  have sub: "set (code_left fn a) \<subseteq> set fn" for fn :: "'a StepFn" and a by (cases a) (auto dest: in_set_dropD)
  have "branches_left st (b(i := a)) = concat (map (?l b) [0..<i]) @ code_left (snd (sp_parallel st ! i)) a @ concat (map (?l b) [Suc i..<?n])" for a
  proof -
    have m: "map (?l (b(i := a))) [0..<i] = map (?l b) [0..<i]" "map (?l (b(i := a))) [Suc i..<?n] = map (?l b) [Suc i..<?n]" by auto
    show ?thesis unfolding branches_left_def u map_append list.map m concat_append concat.simps fun_upd_same ..
  qed
  moreover have "set (concat (map (?l b) [0..<i])) \<subseteq> (\<Union>j \<in> {..<i}. set (snd (sp_parallel st ! j)))"
    by (auto dest!: subsetD [OF sub])
  ultimately show ?thesis by blast
qed

lemma branches_left_access:
  assumes ind: "independent st" "sp_is_parallel st" and i: "i < length (sp_parallel st)" "b i = Running t k" "k < length (snd (sp_parallel st ! i))"
  shows "exec (branches_left st b @ zs) c = exec (branches_left st (b(i := Running t (Suc k))) @ zs) (snd ((snd (sp_parallel st ! i) ! k) c))"
proof -
  let ?f = "snd (sp_parallel st ! i) ! k"
  obtain xs ys where xs: "set xs \<subseteq> (\<Union>j \<in> {..<i}. set (snd (sp_parallel st ! j)))"
    and e: "\<And>a. branches_left st (b(i := a)) = xs @ code_left (snd (sp_parallel st ! i)) a @ ys"
    using branches_left_split [OF i(1)] by blast
  have "total_access ?f" using ind i by (simp add: independent_def)
  moreover have "total_access g \<and> commute ?f g" if g: "g \<in> set xs" for g
  proof -
    obtain j where "g \<in> set (snd (sp_parallel st ! j))" "j < i" using xs g by auto
    moreover have "?f \<in> set (snd (sp_parallel st ! i))" "j \<noteq> i" "j < length (sp_parallel st)" using i \<open>j < i\<close> by auto
    ultimately show ?thesis using ind i(1) unfolding independent_def by blast
  qed
  moreover have "b(i := Running t k) = b" using i(2) by auto
  ultimately show ?thesis
    using e [of "Running t k"] e [of "Running t (Suc k)"] i(3)
      exec_exchange [of ?f xs "drop (Suc k) (snd (sp_parallel st ! i)) @ ys @ zs" c] by (simp add: Cons_nth_drop_Suc [symmetric])
qed

lemma branches_left_same: "code_left (snd (sp_parallel st ! i)) a = code_left (snd (sp_parallel st ! i)) (b i) \<Longrightarrow>
    branches_left st (b(i := a)) = branches_left st b"
  unfolding branches_left_def by (rule arg_cong [of _ _ concat]) auto

lemma branches_left_done: "(\<And>i. i < length (sp_parallel st) \<Longrightarrow> is_resolved (b i)) \<Longrightarrow> branches_left st b = []"
proof -
  assume r: "\<And>i. i < length (sp_parallel st) \<Longrightarrow> is_resolved (b i)"
  have "is_resolved a \<Longrightarrow> code_left fn a = []" for fn :: "'a StepFn" and a by (cases a) auto
  then show ?thesis using r by (auto simp: branches_left_def)
qed

lemma cur_steps [simp]: "step_left p (s\<lparr>ru_events := e\<rparr>) = step_left p s" "step_left p (s\<lparr>ru_ctx := c\<rparr>) = step_left p s"
    "step_left p (s\<lparr>ru_order := od\<rparr>) = step_left p s" "step_left p (s\<lparr>ru_result := r\<rparr>) = step_left p s"
    "later p (s\<lparr>ru_events := e\<rparr>) = later p s" "later p (s\<lparr>ru_ctx := c\<rparr>) = later p s" "later p (s\<lparr>ru_order := od\<rparr>) = later p s"
    "later p (s\<lparr>ru_result := r\<rparr>) = later p s" "later p (s\<lparr>ru_phase := a\<rparr>) = later p s" "later p (s\<lparr>ru_branch := b\<rparr>) = later p s"
  by (simp_all add: step_left_def later_def)

lemma det_invD:
  assumes "det_inv p s"
  shows "\<And>i. outcome_of (ru_branch s i) = Ok ()"
    "\<And>i. parallel p s \<Longrightarrow> past_join (ru_phase s) \<Longrightarrow> i < branches p s \<Longrightarrow> is_resolved (ru_branch s i)"
    "outcome_of (ru_phase s) = Ok () \<Longrightarrow> exec (step_left p s @ later p s) (ru_ctx s) = Pipeline_spec p"
    "outcome_of (ru_phase s) = Throw e \<Longrightarrow> Pipeline_spec p = (Throw e, ru_ctx s)"
  using assms by (auto simp: det_inv_def)

lemma code_step_exec:
  assumes "code_step m nm fn (c, evs, a) (c', evs', a')" "outcome_of a = Ok ()"
  shows "exec (code_left fn a @ zs) c = settle (outcome_of a') c' (exec (code_left fn a' @ zs) c')"
  using assms by (auto elim!: code_stepE simp: Cons_nth_drop_Suc [symmetric])

lemma first_step:
  assumes "ru_phase s = Queued" "ru_branch s = (\<lambda>_. Idle)"
  shows "step_left p s = accesses (cur p s)"
proof -
  have "map (\<lambda>i. snd (xs ! i)) [0..<length xs] = map snd xs" for xs :: "(string \<times> 'a StepFn) list"
    by (rule nth_equalityI) simp_all
  then show ?thesis using assms by (simp add: step_left_def accesses_def branches_left_def)
qed

lemma first_failure_none: "list_all (\<lambda>x. x = Ok ()) rs \<Longrightarrow> first_failure rs = None"
  by (induction rs) auto

lemma join_all:
  assumes inv: "run_inv p s" and ok: "\<And>i. outcome_of (ru_branch s i) = Ok ()" and ph: "ru_phase s = Joining t j" "j = branches p s"
    and r: "joined p s = Some r"
  shows "r = Ok ()" "\<forall>i < branches p s. is_resolved (ru_branch s i)"
proof -
  note d = run_inv_facts [OF inv]
  let ?rs = "map (\<lambda>i. outcome_of (ru_branch s i)) [0..<branches p s]"
  have sub: "set (ru_order s) \<subseteq> {..<branches p s}" using d(6) resolved_branch [OF inv] by auto
  have "first_failure (map ((!) ?rs) (ru_order s)) = None" by (rule first_failure_none) (use sub ok in \<open>auto simp: list_all_iff\<close>)
  then have l: "r = Ok () \<and> length (ru_order s) = branches p s"
    using r joined_eq [OF inv] by (auto simp: all_of_void_def split: if_splits)
  then show "r = Ok ()" by simp
  have "set (ru_order s) = {..<branches p s}" using card_subset_eq [OF _ sub] distinct_card [OF d(5)] l by simp
  then show "\<forall>i < branches p s. is_resolved (ru_branch s i)" using d(6) by auto
qed

lemma det_hand_over:
  assumes ph: "ru_phase s = Emitted r" and inv: "run_inv p s" and d: "det_inv p s"
  shows "det_inv p (hand_over p r s)"
proof (cases r)
  case (Inl e)
  then show ?thesis using d ph by (auto simp: hand_over_def det_inv_def)
next
  case (Inr u)
  have "step_left p s = []" using ph branches_left_done [of "cur p s" "ru_branch s"] det_invD(2) [OF d] by (auto simp: step_left_def branches_def)
  then have spec: "Pipeline_spec p = exec (later p s) (ru_ctx s)" using det_invD(3) [OF d] ph Inr by simp
  show ?thesis
  proof (cases "Suc (ru_step s) = length (cp_steps p)")
    case True
    then have h: "hand_over p r s = s\<lparr>ru_phase := Resolved r, ru_result := Some r\<rparr>" using Inr by (simp add: hand_over_def)
    have "step_left p (hand_over p r s) = []"
      using h ph branches_left_done [of "cur p s" "ru_branch s"] det_invD(2) [OF d] by (auto simp: step_left_def branches_def)
    then show ?thesis using spec True d ph Inr h by (auto simp: det_inv_def later_def)
  next
    case False
    then have h: "hand_over p r s = s\<lparr>ru_step := Suc (ru_step s), ru_phase := Queued, ru_branch := (\<lambda>_. Idle), ru_order := []\<rparr>"
      using Inr by (simp add: hand_over_def)
    have "later p s = accesses (cur p (hand_over p r s)) @ later p (hand_over p r s)"
      using False run_inv_facts(1) [OF inv] h by (simp add: later_def cur_def Cons_nth_drop_Suc [symmetric])
    then show ?thesis using spec h first_step [of "hand_over p r s" p] by (simp add: det_inv_def)
  qed
qed

lemma det_sequential:
  assumes "ru_result s = None" "\<not> parallel p s"
    and step: "code_step (cp_monitor p) (sp_name (cur p s)) (sp_fn (cur p s)) (ru_ctx s, ru_events s, ru_phase s) (c, evs, a)"
    and d: "det_inv p s"
  shows "det_inv p (s\<lparr>ru_ctx := c, ru_events := evs, ru_phase := a\<rparr>)"
proof -
  have ok: "outcome_of (ru_phase s) = Ok () \<or> (\<exists>t r. ru_phase s = Ended t r)"
    using step by (auto elim!: code_stepE)
  have r: "ru_phase s \<noteq> Resolved x" "a \<noteq> Resolved x" for x using step by (auto elim!: code_stepE)
  show ?thesis
  proof (cases "\<exists>t r. ru_phase s = Ended t r")
    case True
    then obtain t q where ph: "ru_phase s = Ended t q" by blast
    then have "c = ru_ctx s" "a = Emitted q" using step by (auto elim!: code_stepE)
    then show ?thesis using assms(2) d ph by (simp add: det_inv_def step_left_def)
  next
    case False
    then show ?thesis
      using code_step_exec [OF step, of "later p s"] ok det_invD(1,3) [OF d] assms(2) r
      by (auto simp: det_inv_def step_left_def split: sum.splits)
  qed
qed

lemma det_branch:
  assumes i: "i < branches p s"
    and step: "code_step (cp_monitor p) (fst (sp_parallel (cur p s) ! i)) (branch_code p s i) (ru_ctx s, ru_events s, ru_branch s i) (c, evs, a)"
    and inv: "run_inv p s" and d: "det_inv p s" and ind: "list_all independent (cp_steps p)"
  shows "det_inv p (s\<lparr>ru_ctx := c, ru_events := evs, ru_branch := (ru_branch s)(i := a)\<rparr>)"
proof -
  let ?f = "branch_code p s i"
  note k = code_step_shape [OF step]
  have b: "ru_branch s i \<noteq> Idle" "\<not> is_resolved (ru_branch s i)" using run_inv_facts(3) [OF inv, of i] i k by auto
  then have par: "parallel p s" using run_inv_facts(2) [OF inv, of i] launched_parallel by metis
  have pj: "\<not> past_join (ru_phase s)" using det_invD(2) [OF d par, of i] b i by auto
  have st: "independent (cur p s)" using ind run_inv_facts(1) [OF inv] by (simp add: list_all_iff cur_def)
  have "outcome_of a = Ok () \<and> exec (branches_left (cur p s) (ru_branch s) @ later p s) (ru_ctx s) =
      exec (branches_left (cur p s) ((ru_branch s)(i := a)) @ later p s) c"
    using step
  proof cases
    case (access k t)
    then show ?thesis using branches_left_access [OF st par, of i "ru_branch s" t k "later p s" "ru_ctx s"] i by (simp add: branches_def)
  next
    case (throws k e t)
    then have "total_access (?f ! k)" using st par i by (auto simp: independent_def branches_def)
    then show ?thesis using throws by (auto simp: total_access_def dest: spec [of _ "ru_ctx s"])
  qed (use i det_invD(1) [OF d, of i] in \<open>auto intro!: branches_left_same [symmetric] arg_cong2 [where f = exec]\<close>)
  moreover have "outcome_of (ru_phase s) = Ok ()" using pj by (cases "ru_phase s") auto
  ultimately show ?thesis using d par pj i by (auto simp: det_inv_def step_left_def)
qed

lemma det_step:
  assumes "run_step p s s'" and inv: "run_inv p s" and d: "det_inv p s" and ind: "list_all independent (cp_steps p)"
  shows "det_inv p s'"
  using assms(1)
proof cases
  case (sequential c evs a)
  then show ?thesis using det_sequential [OF _ _ _ d] by blast
next
  case (fan_out t)
  then show ?thesis using d by (simp add: det_inv_def step_left_def)
next
  case (spawn t j)
  have "ru_branch s j = Idle" using run_inv_facts(2,4) [OF inv] spawn by auto
  then have "branches_left (cur p s) ((ru_branch s)(j := Queued)) = branches_left (cur p s) (ru_branch s)"
    by (intro branches_left_same) simp
  moreover have "parallel p s" using run_inv_facts(4) [OF inv] spawn by simp
  ultimately show ?thesis using d spawn by (auto simp: det_inv_def step_left_def)
next
  case (spawned t j)
  then show ?thesis using d run_inv_facts(4) [OF inv] by (simp add: det_inv_def step_left_def)
next
  case (attach t j)
  then show ?thesis using d run_inv_facts(4) [OF inv] by (simp add: det_inv_def step_left_def)
next
  case (branch i b c evs a)
  then show ?thesis using det_branch [OF _ _ inv d ind] by blast
next
  case (resolve i r)
  have par: "parallel p s" using run_inv_facts(2) [OF inv, of i] resolve(3) launched_parallel by (metis activity.distinct(11))
  have "branches_left (cur p s) ((ru_branch s)(i := Resolved r)) = branches_left (cur p s) (ru_branch s)"
    using resolve by (intro branches_left_same) simp
  then show ?thesis using d par resolve det_invD(1) [OF d, of i] by (auto simp: det_inv_def step_left_def)
next
  case (join t j r)
  have par: "parallel p s" using run_inv_facts(4) [OF inv] join by simp
  note all = join_all [OF inv det_invD(1) [OF d] join(2-4)]
  then show ?thesis using d par join by (simp add: det_inv_def step_left_def)
next
  case (report t r t')
  then show ?thesis using d by (simp add: det_inv_def step_left_def)
next
  case (hand_over r)
  then show ?thesis using det_hand_over [OF hand_over(2) inv d] by simp
qed

lemma det_reach:
  assumes "run_reach p s" "cp_steps p \<noteq> []" "list_all independent (cp_steps p)"
  shows "det_inv p s"
  using assms(1)
proof induction
  case init
  obtain st sts where "cp_steps p = st # sts" using assms(2) by (cases "cp_steps p") auto
  then show ?case using first_step [of "run_init p" p] by (simp add: det_inv_def run_init_def Pipeline_spec_def later_def cur_def)
next
  case (more s s')
  then show ?case using det_step run_reach_inv assms by blast
qed

lemma empty_run: "run_reach p s \<Longrightarrow> cp_steps p = [] \<Longrightarrow> s = run_init p \<and> (\<nexists>s'. run_step p s s')"
proof (induction rule: run_reach.induct)
  case init
  then show ?case by (auto elim!: run_stepE code_stepE simp: run_init_def)
qed blast

lemma run_wf: "wf {(s', s). run_reach p s \<and> run_step p s s'}"
proof (cases "cp_steps p = []")
  case True
  show ?thesis by (rule wf_subset [of "measure (run_weight p)"]) (auto dest: empty_run [OF _ True])
next
  case False
  have "run_weight p s' < run_weight p s" if "run_reach p s" "run_step p s s'" for s s'
    using run_step_weight [OF that(2) run_reach_inv [OF that(1) False]] .
  then have "{(s', s). run_reach p s \<and> run_step p s s'} \<subseteq> measure (run_weight p)" unfolding measure_def inv_image_def by blast
  then show ?thesis by (rule wf_subset [OF wf_measure])
qed

lemma run_ends: "\<exists>s. run_reach p s \<and> (\<nexists>s'. run_step p s s')"
proof -
  have "run_init p \<in> {s. run_reach p s}" by (simp add: run_reach.init)
  then obtain s where m: "s \<in> {s. run_reach p s}"
    "\<And>y. (y, s) \<in> {(s', s). run_reach p s \<and> run_step p s s'} \<Longrightarrow> y \<notin> {s. run_reach p s}"
    by (rule wfE_min [OF run_wf]) blast
  then show ?thesis using run_reach.more by blast
qed

lemma run_returns:
  assumes "run_reach p s" "\<nexists>s'. run_step p s s'"
  shows "ru_result s \<noteq> None"
proof (cases "cp_steps p = []")
  case True
  then show ?thesis using empty_run [OF assms(1)] by (simp add: run_init_def)
next
  case False
  note inv = run_reach_inv [OF assms(1) False]
  have "is_resolved (ru_phase s)" using stuck_resolved [OF inv] assms(2) by blast
  then show ?thesis using run_inv_facts(7) [OF inv] by (simp add: settled_iff)
qed

lemma run_computes:
  assumes "run_reach p s" "list_all independent (cp_steps p)" "ru_result s = Some r"
  shows "(r, ru_ctx s) = Pipeline_spec p"
proof (cases "cp_steps p = []")
  case True
  then show ?thesis using empty_run [OF assms(1)] assms(3) by (simp add: run_init_def Pipeline_spec_def)
next
  case False
  note inv = run_reach_inv [OF assms(1) False] and d = det_reach [OF assms(1) False assms(2)]
  have ph: "ru_phase s = Resolved r" using run_inv_facts(7) [OF inv] assms(3) by (cases "ru_phase s") auto
  show ?thesis
  proof (cases r)
    case (Inl e)
    then show ?thesis using det_invD(4) [OF d] ph by simp
  next
    case (Inr u)
    have "step_left p s = []"
      using ph branches_left_done [of "cur p s" "ru_branch s"] det_invD(2) [OF d] by (auto simp: step_left_def branches_def)
    moreover have "later p s = []" using d ph Inr by (simp add: det_inv_def)
    ultimately show ?thesis using det_invD(3) [OF d] ph Inr by simp
  qed
qed

section \<open>Properties\<close>


section \<open>Witness\<close>

definition set_fst :: "nat \<Rightarrow> (nat \<times> nat) access" where
  "set_fst v c = (Ok (), (v, snd c))"

definition add_snd :: "nat \<Rightarrow> (nat \<times> nat) access" where
  "add_snd v c = (Ok (), (fst c, snd c + v))"

definition demo_steps :: "(nat \<times> nat) CoroPipeline" where
  "demo_steps = Pipeline_AddSync ''last'' (add_snd 1) (Pipeline_AddParallel [(''a'', [set_fst 5, set_fst 7]), (''b'', [add_snd 2, add_snd 3])]
    (CoroPipeline_new True (0, 10)))"

lemma demo_independent: "list_all independent (cp_steps demo_steps)"
  by (simp add: demo_steps_def Pipeline_AddSync_def Pipeline_Add_def Pipeline_AddParallel_def CoroPipeline_new_def independent_def
    total_access_def commute_def set_fst_def add_snd_def less_Suc_eq numeral_2_eq_2)


section \<open>After a failure\<close>

text \<open>Once \<^verbatim>\<open>Run\<close>'s future holds an exception, no later step starts; only branches of the failed step still move.\<close>

lemma failed_run_stops:
  assumes "run_reach p s" "ru_result s = Some (Throw e)" "run_step p s s'"
  shows "ru_step s' = ru_step s \<and> ru_result s' = ru_result s \<and> ru_phase s' = ru_phase s"
proof -
  have ne: "cp_steps p \<noteq> []" using empty_run [OF assms(1)] assms(3) by blast
  have "ru_phase s = Resolved (Throw e)" using run_inv_facts(7) [OF run_reach_inv [OF assms(1) ne]] assms(2) by (cases "ru_phase s") auto
  then show ?thesis using assms(2,3) by (auto elim!: run_stepE)
qed

text \<open>They do move: \<^verbatim>\<open>AllOf\<close> resolves with the first exception, so \<^verbatim>\<open>Run\<close>'s future can be resolved while a branch has not even started;
  it will access the context and the monitor of the pipeline later.\<close>

definition fail_access :: "nat access" where
  "fail_access c = (Throw (RuntimeError ''boom''), c)"

definition failing_steps :: "nat CoroPipeline" where
  "failing_steps = Pipeline_AddParallel [(''a'', [fail_access]), (''b'', [\<lambda>c. (Ok (), Suc c)])] (CoroPipeline_new False 0)"

definition failing_state :: "activity \<Rightarrow> activity \<Rightarrow> activity \<Rightarrow> nat list \<Rightarrow> unit res option \<Rightarrow> nat run_state" where
  "failing_state ph a b od r =
    \<lparr>ru_ctx = 0, ru_events = [], ru_step = 0, ru_phase = ph, ru_branch = (\<lambda>_. Idle)(0 := a, 1 := b), ru_order = od, ru_result = r\<rparr>"

lemma failing_simps [simp]:
  "cp_monitor failing_steps = False" "length (cp_steps failing_steps) = 1"
  "cur failing_steps (failing_state ph a b od r) = \<lparr>sp_name = ''parallel(2)'', sp_fn = [], sp_parallel = [(''a'', [fail_access]), (''b'', [\<lambda>c. (Ok (), Suc c)])], sp_is_parallel = True\<rparr>"
  "branches failing_steps (failing_state ph a b od r) = 2"
  by (simp_all add: failing_steps_def Pipeline_AddParallel_def CoroPipeline_new_def cur_def branches_def failing_state_def) code_simp

lemma failing_state_simps [simp]:
  "ru_phase (failing_state ph a b od r) = ph" "ru_ctx (failing_state ph a b od r) = 0" "ru_events (failing_state ph a b od r) = []"
  "ru_order (failing_state ph a b od r) = od" "ru_result (failing_state ph a b od r) = r" "ru_step (failing_state ph a b od r) = 0"
  "ru_branch (failing_state ph a b od r) 0 = a" "ru_branch (failing_state ph a b od r) (Suc 0) = b"
  "(failing_state ph a b od r)\<lparr>ru_phase := ph'\<rparr> = failing_state ph' a b od r"
  "(failing_state ph a b od r)\<lparr>ru_ctx := 0\<rparr> = failing_state ph a b od r"
  "(failing_state ph a b od r)\<lparr>ru_events := []\<rparr> = failing_state ph a b od r"
  "(failing_state ph a b od r)\<lparr>ru_order := od'\<rparr> = failing_state ph a b od' r"
  "(failing_state ph a b od r)\<lparr>ru_result := r'\<rparr> = failing_state ph a b od r'"
  "(failing_state ph a b od r)\<lparr>ru_branch := (ru_branch (failing_state ph' a b od' r'))(0 := x)\<rparr> = failing_state ph x b od r"
  "(failing_state ph a b od r)\<lparr>ru_branch := (ru_branch (failing_state ph' a b od' r'))(Suc 0 := x)\<rparr> = failing_state ph a x od r"
  by (simp_all add: failing_state_def fun_upd_twist)

lemma abandoned_branch:
  "\<exists>s. run_reach failing_steps s \<and> ru_result s = Some (Throw (RuntimeError ''boom'')) \<and> ru_branch s 1 = Queued"
proof -
  let ?p = failing_steps and ?st = failing_state
  let ?e = "Throw (RuntimeError ''boom'') :: unit res"
  have "run_reach ?p (?st Queued Idle Idle [] None)"
    using run_reach.init [of ?p]
    by (simp add: run_init_def failing_state_def failing_steps_def Pipeline_AddParallel_def CoroPipeline_new_def fun_upd_idem)
  then have "run_reach ?p (?st (Spawning 0 0) Idle Idle [] None)"
    using run_step.fan_out [of "?st Queued Idle Idle [] None" ?p 0] by (auto intro: run_reach.more)
  then have "run_reach ?p (?st (Spawning 0 1) Queued Idle [] None)"
    using run_step.spawn [of "?st (Spawning 0 0) Idle Idle [] None" 0 0 ?p] by (auto intro: run_reach.more)
  then have "run_reach ?p (?st (Spawning 0 2) Queued Queued [] None)"
    using run_step.spawn [of "?st (Spawning 0 1) Queued Idle [] None" 0 1 ?p] by (auto intro: run_reach.more simp: numeral_2_eq_2)
  then have "run_reach ?p (?st (Joining 0 0) Queued Queued [] None)"
    using run_step.spawned [of "?st (Spawning 0 2) Queued Queued [] None" 0 2 ?p] by (auto intro: run_reach.more)
  then have "run_reach ?p (?st (Joining 0 1) Queued Queued [] None)"
    using run_step.attach [of "?st (Joining 0 0) Queued Queued [] None" 0 0 ?p] by (auto intro: run_reach.more)
  then have "run_reach ?p (?st (Joining 0 2) Queued Queued [] None)"
    using run_step.attach [of "?st (Joining 0 1) Queued Queued [] None" 0 1 ?p] by (auto intro: run_reach.more simp: numeral_2_eq_2)
  then have "run_reach ?p (?st (Joining 0 2) (Running 0 0) Queued [] None)"
    using run_step.branch [of 0 ?p "?st (Joining 0 2) Queued Queued [] None" Queued 0 "[]" "Running 0 0"]
    by (auto intro: run_reach.more code_step.start)
  then have "run_reach ?p (?st (Joining 0 2) (Ended 0 ?e) Queued [] None)"
    using run_step.branch [of 0 ?p "?st (Joining 0 2) (Running 0 0) Queued [] None" "Running 0 0" 0 "[]" "Ended 0 ?e"]
      code_step.throws [of 0 "[fail_access]" 0 "RuntimeError ''boom''" 0] by (auto intro: run_reach.more simp: fail_access_def)
  then have "run_reach ?p (?st (Joining 0 2) (Emitted ?e) Queued [] None)"
    using run_step.branch [of 0 ?p "?st (Joining 0 2) (Ended 0 ?e) Queued [] None" "Ended 0 ?e" 0 "[]" "Emitted ?e"]
      code_step.emit [of False "''a''" "[fail_access]" 0 "[]" 0 ?e 0] by (auto intro: run_reach.more simp: Pipeline_Emit_def)
  then have "run_reach ?p (?st (Joining 0 2) (Resolved ?e) Queued [0] None)"
    using run_step.resolve [of 0 ?p "?st (Joining 0 2) (Emitted ?e) Queued [] None" ?e] by (auto intro: run_reach.more)
  moreover have "joined ?p (?st (Joining 0 2) (Resolved ?e) Queued [0] None) = Some ?e" by (simp add: joined_def) code_simp
  ultimately have "run_reach ?p (?st (Ended 0 ?e) (Resolved ?e) Queued [0] None)"
    using run_step.join [of "?st (Joining 0 2) (Resolved ?e) Queued [0] None" 0 2 ?p ?e] by (auto intro: run_reach.more)
  then have "run_reach ?p (?st (Emitted ?e) (Resolved ?e) Queued [0] None)"
    using run_step.report [of ?p "?st (Ended 0 ?e) (Resolved ?e) Queued [0] None" 0 ?e 0] by (auto intro: run_reach.more simp: Pipeline_Emit_def)
  then have "run_reach ?p (?st (Resolved ?e) (Resolved ?e) Queued [0] (Some ?e))"
    using run_step.hand_over [of "?st (Emitted ?e) (Resolved ?e) Queued [0] None" ?e ?p] by (auto intro: run_reach.more simp: hand_over_def)
  then show ?thesis by force
qed

end
