(* ===== verification/Sampler.thy ===== *)
theory Sampler
  imports Profile StdNum
begin

text \<open>
  The printed flame graph, the durations of \<^verbatim>\<open>toolkit/time.h\<close>, and the sampling thread of \<^verbatim>\<open>metric/profile\<close>.

  The sampler is a controlling thread that starts and stops it, a loop that waits on a condition variable with a timeout, and the threads
  that add samples meanwhile.  \<^verbatim>\<open>notify_all\<close> reaches the loop only while it waits; \<^verbatim>\<open>Stop\<close> does not take the mutex, so it
  may come just before the wait.  Percentages are printed by a parameter (the default format of a stream).
\<close>

section \<open>Model: printing\<close>

definition FormatDuration :: "int \<Rightarrow> string" where
  "FormatDuration ns =
    (if ns < 1000 then int_to_string ns @ ''ns''
     else if ns < 1000000 then fixed_point 1 (of_int ns / 1000) @ ''us''
     else if ns < 1000000000 then fixed_point 1 (of_int ns / 1000000) @ ''ms''
     else fixed_point 1 (of_int ns / 1000000000) @ ''s'')"

definition line_end :: string where
  "line_end = [CHR 0x0A]"

definition grand_total :: "Frame \<Rightarrow> int" where
  "grand_total rt = sum_list (map fr_total (fr_children rt))"

fun print_frame :: "(real \<Rightarrow> string) \<Rightarrow> int \<Rightarrow> nat \<Rightarrow> Frame \<Rightarrow> string" where
  "print_frame shw grand depth (Frame name self tot cnt children) =
    replicate (depth * 2) (CHR '' '') @ name @ '' self='' @ FormatDuration self @ '' total='' @ FormatDuration tot @ '' count='' @
    int_to_string cnt @ '' ('' @ shw (if grand > 0 then 100 * of_int tot / of_int grand else 0) @ ''%)'' @ line_end @
    concat (map (print_frame shw grand (depth + 1)) children)"

definition TextFlameGraph :: "(real \<Rightarrow> string) \<Rightarrow> FlameGraphProfiler \<Rightarrow> string res" where
  "TextFlameGraph shw p =
    bindR (Snapshot p) (\<lambda>rt.
      Ok (''=== flame graph (total='' @ FormatDuration (grand_total rt) @ '') ==='' @ line_end @
        concat (map (print_frame shw (grand_total rt) 1) (fr_children rt))))"

section \<open>Model: the sampling thread\<close>

datatype loop_phase = NoThread | AtCheck | BeforeWait | InWait | TimedOut | Sampling | Exited
datatype control = Ready | Notifying | JoinThread

record sampler =
  sm_running :: bool
  sm_loop :: loop_phase
  sm_control :: control
  sm_events :: "Event list"
  sm_profiler :: FlameGraphProfiler

definition Sampler_new :: "FlameGraphProfiler \<Rightarrow> sampler" where
  "Sampler_new p = \<lparr>sm_running = False, sm_loop = NoThread, sm_control = Ready, sm_events = [], sm_profiler = p\<rparr>"

definition take_sample :: "bool \<Rightarrow> sampler \<Rightarrow> sampler res" where
  "take_sample monitor s =
    bindR (sample_event (sm_profiler s)) (\<lambda>ev.
      Ok (s\<lparr>sm_loop := AtCheck, sm_events := sm_events s @ (if monitor then [ev] else [])\<rparr>))"

text \<open>\<^verbatim>\<open>Start\<close>, the two steps of \<^verbatim>\<open>Stop\<close> after its exchange, and \<^verbatim>\<open>Loop\<close>; a call that finds the flag already set, or already cleared, changes nothing.\<close>

inductive sampler_step :: "bool \<Rightarrow> sampler \<Rightarrow> sampler \<Rightarrow> bool" for monitor where
  notify: "sm_control s = Notifying \<Longrightarrow>
    sampler_step monitor s (s\<lparr>sm_control := JoinThread, sm_loop := (if sm_loop s = InWait then AtCheck else sm_loop s)\<rparr>)"
| join: "sm_control s = JoinThread \<Longrightarrow> sm_loop s = Exited \<Longrightarrow> sampler_step monitor s (s\<lparr>sm_control := Ready, sm_loop := NoThread\<rparr>)"
| check: "sm_loop s = AtCheck \<Longrightarrow> sm_running s \<Longrightarrow> sampler_step monitor s (s\<lparr>sm_loop := BeforeWait\<rparr>)"
| wait: "sm_loop s = BeforeWait \<Longrightarrow> sampler_step monitor s (s\<lparr>sm_loop := InWait\<rparr>)"
| exit: "sm_loop s = AtCheck \<Longrightarrow> \<not> sm_running s \<Longrightarrow> sampler_step monitor s (s\<lparr>sm_loop := Exited\<rparr>)"
| time_out: "sm_loop s = InWait \<Longrightarrow> sampler_step monitor s (s\<lparr>sm_loop := TimedOut\<rparr>)"
| due: "sm_loop s = TimedOut \<Longrightarrow> sm_running s \<Longrightarrow> sampler_step monitor s (s\<lparr>sm_loop := Sampling\<rparr>)"
| stopped: "sm_loop s = TimedOut \<Longrightarrow> \<not> sm_running s \<Longrightarrow> sampler_step monitor s (s\<lparr>sm_loop := AtCheck\<rparr>)"
| sample: "sm_loop s = Sampling \<Longrightarrow> take_sample monitor s = Ok s' \<Longrightarrow> sampler_step monitor s s'"

inductive outside_step :: "sampler \<Rightarrow> sampler \<Rightarrow> bool" where
  start: "sm_control s = Ready \<Longrightarrow> \<not> sm_running s \<Longrightarrow> outside_step s (s\<lparr>sm_running := True, sm_loop := AtCheck\<rparr>)"
| stop: "sm_control s = Ready \<Longrightarrow> sm_running s \<Longrightarrow> outside_step s (s\<lparr>sm_running := False, sm_control := Notifying\<rparr>)"
| add_sample: "outside_step s (s\<lparr>sm_profiler := AddSample path ns (sm_profiler s)\<rparr>)"
| spurious: "sm_loop s = InWait \<Longrightarrow> outside_step s (s\<lparr>sm_loop := AtCheck\<rparr>)"

inductive sampler_reach :: "bool \<Rightarrow> FlameGraphProfiler \<Rightarrow> sampler \<Rightarrow> bool" for monitor p where
  init: "sampler_reach monitor p (Sampler_new p)"
| own: "sampler_reach monitor p s \<Longrightarrow> sampler_step monitor s s' \<Longrightarrow> sampler_reach monitor p s'"
| outside: "sampler_reach monitor p s \<Longrightarrow> outside_step s s' \<Longrightarrow> sampler_reach monitor p s'"

section \<open>Stopping\<close>

definition sampler_inv :: "sampler \<Rightarrow> bool" where
  "sampler_inv s =
    ((sm_loop s = NoThread \<longleftrightarrow> sm_control s = Ready \<and> \<not> sm_running s) \<and> (sm_control s \<noteq> Ready \<longrightarrow> \<not> sm_running s) \<and>
     (sm_loop s = Exited \<longrightarrow> \<not> sm_running s) \<and> prof_inv (sm_profiler s))"

lemma take_sample_ok:
  assumes "prof_inv (sm_profiler s)"
  obtains ev where "sample_event (sm_profiler s) = Ok ev"
    "take_sample monitor s = Ok (s\<lparr>sm_loop := AtCheck, sm_events := sm_events s @ (if monitor then [ev] else [])\<rparr>)"
proof -
  obtain cs where "Snapshot_tree (sm_profiler s) = Inr cs" using Snapshot_tree_ok [OF assms] by blast
  then show thesis using that by (simp add: Snapshot_def sample_event_def take_sample_def)
qed

lemma sampler_step_inv: "sampler_step monitor s s' \<Longrightarrow> sampler_inv s \<Longrightarrow> sampler_inv s'"
proof (induction rule: sampler_step.induct)
  case (sample s s')
  obtain ev where "take_sample monitor s = Ok (s\<lparr>sm_loop := AtCheck, sm_events := sm_events s @ (if monitor then [ev] else [])\<rparr>)"
    using take_sample_ok sample.prems unfolding sampler_inv_def by blast
  then show ?case using sample by (auto simp: sampler_inv_def)
qed (auto simp: sampler_inv_def)

lemma outside_step_inv: "outside_step s s' \<Longrightarrow> sampler_inv s \<Longrightarrow> sampler_inv s'"
  by (induction rule: outside_step.induct) (auto simp: sampler_inv_def AddSample_inv)

lemma Sampler_new_inv: "prof_inv p \<Longrightarrow> sampler_inv (Sampler_new p)"
  by (simp add: sampler_inv_def Sampler_new_def)

lemma sampler_reach_inv: "sampler_reach monitor p s \<Longrightarrow> prof_inv p \<Longrightarrow> sampler_inv s"
  by (induction rule: sampler_reach.induct) (auto intro: Sampler_new_inv sampler_step_inv outside_step_inv)

text \<open>What is left to do of a \<^verbatim>\<open>Stop\<close>.\<close>

fun loop_left :: "loop_phase \<Rightarrow> nat" where
  "loop_left NoThread = 0"
| "loop_left Exited = 1"
| "loop_left AtCheck = 2"
| "loop_left Sampling = 3"
| "loop_left TimedOut = 4"
| "loop_left InWait = 5"
| "loop_left BeforeWait = 6"

fun control_left :: "control \<Rightarrow> nat" where
  "control_left Ready = 0"
| "control_left JoinThread = 1"
| "control_left Notifying = 2"

lemma stopping_weight:
  assumes "sampler_step monitor s s'" "sampler_inv s" "sm_control s \<noteq> Ready"
  shows "loop_left (sm_loop s') + control_left (sm_control s') < loop_left (sm_loop s) + control_left (sm_control s)"
  using assms
proof (induction rule: sampler_step.induct)
  case (sample s s')
  obtain ev where "take_sample monitor s = Ok (s\<lparr>sm_loop := AtCheck, sm_events := sm_events s @ (if monitor then [ev] else [])\<rparr>)"
    using take_sample_ok sample.prems(1) unfolding sampler_inv_def by blast
  then show ?case using sample by auto
qed (auto simp: sampler_inv_def)

lemma stopping_moves:
  assumes "sampler_inv s" "sm_control s \<noteq> Ready"
  shows "\<exists>s'. sampler_step monitor s s'"
proof (cases "sm_control s")
  case JoinThread
  show ?thesis
  proof (cases "sm_loop s")
    case Sampling
    then show ?thesis using sampler_step.sample take_sample_ok assms(1) unfolding sampler_inv_def by metis
  qed (use assms JoinThread in \<open>auto simp: sampler_inv_def intro: sampler_step.intros\<close>)
qed (use assms sampler_step.notify in blast)+

text \<open>C36. From the moment \<^verbatim>\<open>Stop\<close> clears the flag, its own steps and those of the loop come to an end however they interleave, even when the
  notification is lost, and only when \<^verbatim>\<open>Stop\<close> has returned and the thread is joined; and while the sampler is stopped nothing
  is emitted.\<close>

theorem Sampler_stops:
  assumes "prof_inv p"
  shows "wf {(s', s). sampler_reach monitor p s \<and> sm_control s \<noteq> Ready \<and> sampler_step monitor s s'} \<and>
    (\<forall>s. sampler_reach monitor p s \<longrightarrow>
      (sm_control s \<noteq> Ready \<longrightarrow> (\<exists>s'. sampler_step monitor s s')) \<and>
      (sm_control s = Ready \<and> \<not> sm_running s \<longrightarrow> sm_loop s = NoThread \<and> (\<nexists>s'. sampler_step monitor s s')))"
proof -
  let ?w = "\<lambda>s. loop_left (sm_loop s) + control_left (sm_control s)"
  have "{(s', s). sampler_reach monitor p s \<and> sm_control s \<noteq> Ready \<and> sampler_step monitor s s'} \<subseteq> measure ?w"
    using stopping_weight sampler_reach_inv [OF _ assms] by auto
  then have "wf {(s', s). sampler_reach monitor p s \<and> sm_control s \<noteq> Ready \<and> sampler_step monitor s s'}" by (rule wf_subset [OF wf_measure])
  moreover have "sm_loop s = NoThread \<and> (\<nexists>s'. sampler_step monitor s s')"
    if "sampler_reach monitor p s" "sm_control s = Ready" "\<not> sm_running s" for s
  proof -
    have n: "sm_loop s = NoThread" using sampler_reach_inv [OF that(1) assms] that by (simp add: sampler_inv_def)
    have "\<not> sampler_step monitor s s'" for s' using n that(2) by (auto elim: sampler_step.cases)
    then show ?thesis using n by blast
  qed
  ultimately show ?thesis using stopping_moves sampler_reach_inv [OF _ assms] by blast
qed

text \<open>The window: \<^verbatim>\<open>Stop\<close> clears the flag and notifies after the loop has read it and before it waits, so the loop sleeps a whole interval.\<close>

lemma notification_can_be_lost:
  assumes "sm_control s = Ready" "sm_running s" "sm_loop s = BeforeWait"
  shows "\<exists>s1 s2 s3. outside_step s s1 \<and> sampler_step monitor s1 s2 \<and> sampler_step monitor s2 s3 \<and>
    sm_control s3 = JoinThread \<and> sm_loop s3 = InWait \<and> \<not> sm_running s3"
proof -
  let ?s1 = "s\<lparr>sm_running := False, sm_control := Notifying\<rparr>"
  let ?s2 = "?s1\<lparr>sm_control := JoinThread, sm_loop := BeforeWait\<rparr>"
  have "outside_step s ?s1" using assms outside_step.stop by blast
  moreover have "sampler_step monitor ?s1 ?s2" using sampler_step.notify [of ?s1 monitor] assms by simp
  moreover have "sampler_step monitor ?s2 (?s2\<lparr>sm_loop := InWait\<rparr>)" using sampler_step.wait [of ?s2 monitor] assms by simp
  moreover have "sm_control (?s2\<lparr>sm_loop := InWait\<rparr>) = JoinThread \<and> sm_loop (?s2\<lparr>sm_loop := InWait\<rparr>) = InWait \<and>
    \<not> sm_running (?s2\<lparr>sm_loop := InWait\<rparr>)" by simp
  ultimately show ?thesis by blast
qed

section \<open>Witness\<close>

definition started_sampler :: sampler where
  "started_sampler = (Sampler_new demo_profiler)\<lparr>sm_running := True, sm_loop := AtCheck\<rparr>"

lemma demo_profiler_inv: "prof_inv demo_profiler"
  unfolding demo_profiler_def by (intro AddSample_inv) (simp add: prof_inv_def)

theorem Sampler_stops_witness:
  "\<exists>s. sampler_reach True demo_profiler s \<and> sm_control s = Notifying \<and> (\<exists>s'. sampler_step True s s')"
proof -
  let ?s = "started_sampler\<lparr>sm_running := False, sm_control := Notifying\<rparr>"
  have "outside_step (Sampler_new demo_profiler) started_sampler"
    using outside_step.start [of "Sampler_new demo_profiler"] by (simp add: started_sampler_def Sampler_new_def)
  then have "sampler_reach True demo_profiler started_sampler" using sampler_reach.init sampler_reach.outside by blast
  moreover have "outside_step started_sampler ?s"
    using outside_step.stop [of started_sampler] by (simp add: started_sampler_def Sampler_new_def)
  ultimately have r: "sampler_reach True demo_profiler ?s" using sampler_reach.outside by blast
  moreover have "sm_control ?s = Notifying" by simp
  ultimately show ?thesis using Sampler_stops [OF demo_profiler_inv] by (metis control.distinct(1))
qed

end
