(* ===== verification/RpcBackends.thy ===== *)
theory RpcBackends
  imports Rpc
begin

text \<open>
  \<^verbatim>\<open>rpc/grpc_backend.cpp\<close>, \<^verbatim>\<open>rpc/brpc_backend.cpp\<close>, the in-process backend class and the factory's initial contents.  The two framework
  adapters throw in every configuration of the build; the configuration only decides the message and whether the factory knows
  their names.
\<close>

section \<open>Model\<close>

text \<open>The macros the build defines.\<close>

record build_config =
  LARK_WITH_GRPC :: bool
  LARK_WITH_BRPC :: bool

datatype RpcBackend = InProcBackend | GrpcBackend | BrpcBackend

fun backend_name :: "RpcBackend \<Rightarrow> string" where
  "backend_name InProcBackend = ''inproc''"
| "backend_name GrpcBackend = ''grpc''"
| "backend_name BrpcBackend = ''brpc''"

text \<open>A channel of the in-process backend is its endpoint.\<close>

definition InProcBackend_CreateChannel :: "RpcEndpoint \<Rightarrow> RpcEndpoint res" where
  "InProcBackend_CreateChannel endpoint = Ok endpoint"

definition InProcBackend_CreateServer :: "RpcEndpoint \<Rightarrow> 'p InProcServer res" where
  "InProcBackend_CreateServer endpoint = Ok (InProcServer_new endpoint)"

definition GrpcBackend_CreateChannel :: "build_config \<Rightarrow> RpcEndpoint \<Rightarrow> RpcEndpoint res" where
  "GrpcBackend_CreateChannel cfg endpoint =
    (if LARK_WITH_GRPC cfg then Throw (RuntimeError ''GrpcBackend::CreateChannel: adapter not yet linked'')
     else Throw (RuntimeError ''GrpcBackend is unavailable: build was configured without LARK_WITH_GRPC''))"

definition GrpcBackend_CreateServer :: "build_config \<Rightarrow> RpcEndpoint \<Rightarrow> 'p InProcServer res" where
  "GrpcBackend_CreateServer cfg endpoint =
    (if LARK_WITH_GRPC cfg then Throw (RuntimeError ''GrpcBackend::CreateServer: adapter not yet linked'')
     else Throw (RuntimeError ''GrpcBackend is unavailable: build was configured without LARK_WITH_GRPC''))"

definition BrpcBackend_CreateChannel :: "build_config \<Rightarrow> RpcEndpoint \<Rightarrow> RpcEndpoint res" where
  "BrpcBackend_CreateChannel cfg endpoint =
    (if LARK_WITH_BRPC cfg then Throw (RuntimeError ''BrpcBackend::CreateChannel: adapter not yet linked'')
     else Throw (RuntimeError ''BrpcBackend is unavailable: build was configured without LARK_WITH_BRPC''))"

definition BrpcBackend_CreateServer :: "build_config \<Rightarrow> RpcEndpoint \<Rightarrow> 'p InProcServer res" where
  "BrpcBackend_CreateServer cfg endpoint =
    (if LARK_WITH_BRPC cfg then Throw (RuntimeError ''BrpcBackend::CreateServer: adapter not yet linked'')
     else Throw (RuntimeError ''BrpcBackend is unavailable: build was configured without LARK_WITH_BRPC''))"

fun CreateChannel :: "build_config \<Rightarrow> RpcBackend \<Rightarrow> RpcEndpoint \<Rightarrow> RpcEndpoint res" where
  "CreateChannel cfg InProcBackend endpoint = InProcBackend_CreateChannel endpoint"
| "CreateChannel cfg GrpcBackend endpoint = GrpcBackend_CreateChannel cfg endpoint"
| "CreateChannel cfg BrpcBackend endpoint = BrpcBackend_CreateChannel cfg endpoint"

fun CreateServer :: "build_config \<Rightarrow> RpcBackend \<Rightarrow> RpcEndpoint \<Rightarrow> 'p InProcServer res" where
  "CreateServer cfg InProcBackend endpoint = InProcBackend_CreateServer endpoint"
| "CreateServer cfg GrpcBackend endpoint = GrpcBackend_CreateServer cfg endpoint"
| "CreateServer cfg BrpcBackend endpoint = BrpcBackend_CreateServer cfg endpoint"

definition RpcFactory_new :: "build_config \<Rightarrow> RpcBackend factories" where
  "RpcFactory_new cfg =
    (let fs = [(''inproc'', InProcBackend)];
         fs = (if LARK_WITH_GRPC cfg then fs @ [(''grpc'', GrpcBackend)] else fs)
     in if LARK_WITH_BRPC cfg then fs @ [(''brpc'', BrpcBackend)] else fs)"

section \<open>What a build offers\<close>

text \<open>In every configuration the factory knows a backend under its own name, and only the in-process backend gives a channel or a server: for a
  name the caller gets a working channel exactly when the name is \<open>inproc\<close>, and an exception otherwise.\<close>

theorem RpcFactory_channels:
  "RpcFactory_Create (RpcFactory_new cfg) name = Ok b \<Longrightarrow> backend_name b = name"
  "(\<exists>c. bindR (RpcFactory_Create (RpcFactory_new cfg) name) (\<lambda>b. CreateChannel cfg b endpoint) = Ok c) \<longleftrightarrow> name = ''inproc''"
  "(\<exists>s. bindR (RpcFactory_Create (RpcFactory_new cfg) name) (\<lambda>b. CreateServer cfg b endpoint) = Ok s) \<longleftrightarrow> name = ''inproc''"
  by (auto simp: RpcFactory_Create_def RpcFactory_new_def Let_def InProcBackend_CreateChannel_def InProcBackend_CreateServer_def
    GrpcBackend_CreateChannel_def GrpcBackend_CreateServer_def BrpcBackend_CreateChannel_def BrpcBackend_CreateServer_def split: if_splits)

end
