(* ===== verification/Schedule.thy ===== *)
theory Schedule
  imports Contexts ThreadPool Executor
begin

text \<open>
  The pools of the DAG executor (\<^verbatim>\<open>dag/executor.cpp\<close>) and the scheduling primitives of \<^verbatim>\<open>dag/schedule.h\<close>, which reach them through the
  data context.  The context holds pointers: a slot names a pool of the executor.
\<close>

section \<open>Model\<close>

record pools =
  po_compute :: pool
  po_io :: pool
  po_background :: pool

definition Executor_new :: "nat \<Rightarrow> nat \<Rightarrow> nat \<Rightarrow> nat \<Rightarrow> pools" where
  "Executor_new hw compute_threads io_threads background_threads =
    \<lparr>po_compute = ThreadPool_new_count hw (Resolve compute_threads hw) False,
     po_io = ThreadPool_new_count hw (Resolve io_threads (2 * hw)) False,
     po_background = ThreadPool_new_count hw (Resolve background_threads 2) False\<rparr>"

fun pool_at :: "PoolSlot \<Rightarrow> pools \<Rightarrow> pool" where
  "pool_at SlotCompute ps = po_compute ps"
| "pool_at SlotIo ps = po_io ps"
| "pool_at SlotBackground ps = po_background ps"

fun on_pool :: "PoolSlot \<Rightarrow> (pool \<Rightarrow> pool) \<Rightarrow> pools \<Rightarrow> pools" where
  "on_pool SlotCompute f ps = ps\<lparr>po_compute := f (po_compute ps)\<rparr>"
| "on_pool SlotIo f ps = ps\<lparr>po_io := f (po_io ps)\<rparr>"
| "on_pool SlotBackground f ps = ps\<lparr>po_background := f (po_background ps)\<rparr>"

definition InstallPoolsInto :: "('t, 'v, PoolSlot) DefaultContext \<Rightarrow> ('t, 'v, PoolSlot) DefaultContext" where
  "InstallPoolsInto ctx =
    InstallPool SlotBackground (Some SlotBackground) (InstallPool SlotIo (Some SlotIo) (InstallPool SlotCompute (Some SlotCompute) ctx))"

text \<open>\<^verbatim>\<open>co_await Schedule(ctx, kind)\<close> in the coroutine \<^verbatim>\<open>handle\<close>: the pool is looked up when the awaiter is made, and the suspended coroutine is
  put on its queue.\<close>

definition Schedule :: "('t, 'v, PoolSlot) DefaultContext \<Rightarrow> PoolSlot \<Rightarrow> PoolSlot res" where
  "Schedule ctx kd = GetPool ctx kd"

definition ScheduleAwaiter_suspend :: "PoolSlot \<Rightarrow> nat \<Rightarrow> pools \<Rightarrow> pools" where
  "ScheduleAwaiter_suspend p handle ps = on_pool p (Enqueue (Some handle)) ps"

definition hop :: "('t, 'v, PoolSlot) DefaultContext \<Rightarrow> PoolSlot \<Rightarrow> nat \<Rightarrow> pools \<Rightarrow> pools res" where
  "hop ctx kd handle ps = bindR (Schedule ctx kd) (\<lambda>p. Ok (ScheduleAwaiter_suspend p handle ps))"

definition Spawn :: "('t, 'v, PoolSlot) DefaultContext \<Rightarrow> PoolSlot \<Rightarrow> nat option \<Rightarrow> pools \<Rightarrow> pools res" where
  "Spawn ctx kd handle ps = bindR (GetPool ctx kd) (\<lambda>p. Ok (on_pool p (Enqueue handle) ps))"

section \<open>Lemmas\<close>

lemma pool_at_on_pool: "pool_at j (on_pool k f ps) = (if j = k then f (pool_at k ps) else pool_at j ps)"
  by (cases j; cases k) simp_all

lemma GetPool_installed: "GetPool (InstallPoolsInto ctx) kd = Ok kd"
  by (cases kd) (simp_all add: GetPool_def InstallPoolsInto_def InstallPool_def)

lemma GetPool_missing:
  "GetPool DefaultContext_new kd = Throw (RuntimeError ''DefaultContext::GetPool: pool not installed for requested kind'')"
  by (simp add: GetPool_def DefaultContext_new_def)

lemma pools_unbounded: "cf_max_queue (tp_config (pool_at k (Executor_new hw c i b))) = 0"
  by (cases k) (simp_all add: Executor_new_def ThreadPool_new_count_def pool_start_def ThreadPoolConfig_new_def)

text \<open>With the executor's pools installed, a hop and a spawn put the coroutine at the end of the queue of the pool they name, and leave the
  other pools alone; none is ever dropped, because these pools have no queue bound.  Without them the caller gets an exception
  before it is suspended.\<close>

theorem hop_enqueues:
  assumes "cf_max_queue (tp_config (pool_at kd ps)) = 0"
  shows "\<exists>ps'. hop (InstallPoolsInto ctx) kd h ps = Ok ps' \<and> Spawn (InstallPoolsInto ctx) kd (Some h) ps = Ok ps' \<and>
      tp_queue (pool_at kd ps') = tp_queue (pool_at kd ps) @ [h] \<and> (\<forall>j. j \<noteq> kd \<longrightarrow> pool_at j ps' = pool_at j ps)"
    and "hop DefaultContext_new kd h ps = Throw (RuntimeError ''DefaultContext::GetPool: pool not installed for requested kind'')"
  using assms by (auto simp: hop_def Spawn_def Schedule_def ScheduleAwaiter_suspend_def GetPool_installed pool_at_on_pool Enqueue_def
    GetPool_missing)

text \<open>Every pool of the executor has a worker, and all three report themselves as compute pools.\<close>

lemma executor_pools:
  "0 < pool_size (pool_at k (Executor_new hw c i b))" "cf_kind (tp_config (pool_at k (Executor_new hw c i b))) = kCompute"
  by (cases k; simp add: Executor_new_def ThreadPool_new_count_def pool_start_def ThreadPoolConfig_new_def pool_size_def at_least_one_def)+

end
