(* ===== verification/Spec2Isabelle.thy ===== *)
theory Spec2Isabelle
  imports Executor OpExecutor DagStats Contexts AsyncEvent ThreadPool Batch Str Hash ResultScope Lexer Metric Profile Cache Rpc RemoteCache FeedFetch Simd TensorExpr TableGraph BizPipeline CoroTask CoroPipeline Sampler RpcBackends Schedule
begin

text \<open>
  Verification of LARK, a C++20 library for dataflow programs: coroutine tasks and thread pools, dependency graphs of business
  nodes, and a columnar compute engine, with the caches, RPC channels, monitors and string helpers they use.  The theories model
  the sources under \<^verbatim>\<open>src/\<close> definition by definition, keep the names of the sources where the logic allows it, and prove the
  properties that make each component correct.

  \<^bold>\<open>The parts and how they meet.\<close>

  \<^item> \<^verbatim>\<open>toolkit\<close> (strings, hashes, \<^verbatim>\<open>Result\<close>, \<^verbatim>\<open>ScopeGuard\<close>, the lexer and parser base) is used by everything else.
  \<^item> \<^verbatim>\<open>metric\<close> (events, monitors, probes, profiler) receives the events that \<^verbatim>\<open>dag\<close>, \<^verbatim>\<open>coro\<close>, \<^verbatim>\<open>column\<close>, \<^verbatim>\<open>cache\<close> and \<^verbatim>\<open>rpc\<close> emit;
    the statistics collectors of \<^verbatim>\<open>dag\<close> and \<^verbatim>\<open>column\<close> are monitors.
  \<^item> \<^verbatim>\<open>coro\<close> (tasks, futures, events, thread pools, batches, pipelines) runs the work of \<^verbatim>\<open>dag\<close> and \<^verbatim>\<open>column\<close>.
  \<^item> \<^verbatim>\<open>dag\<close> builds graphs of nodes or ops and executes them in dependency order.
  \<^item> \<^verbatim>\<open>column\<close> holds typed tensors, ops on them, the compute graph that orders the ops, and the business layer (modules, expression
    language, compiler, pipeline) that produces such graphs and feeds and fetches rows.
  \<^item> \<^verbatim>\<open>cache\<close> and \<^verbatim>\<open>rpc\<close>: a local cache, its remote form over an RPC channel, and the transports.

  \<^bold>\<open>Theories, by component.\<close>

  \<^item> Foundations.  \<^verbatim>\<open>Prelude\<close>: exceptions as values (\<^verbatim>\<open>exn\<close>, \<^verbatim>\<open>res\<close>, \<^verbatim>\<open>bindR\<close>), string searches, association lists.
    \<^verbatim>\<open>Registry\<close>: the contract of name-to-factory registries.  \<^verbatim>\<open>Dependency\<close>: Kahn's algorithm and the three-colour search.
    \<^verbatim>\<open>Flt\<close>, \<^verbatim>\<open>StdNum\<close>: floating values, wrapping integers, \<^verbatim>\<open>stod\<close>, \<^verbatim>\<open>stoull\<close>, \<^verbatim>\<open>to_string\<close> and \<^verbatim>\<open>ToDouble\<close>.
  \<^item> \<^verbatim>\<open>toolkit\<close>.  \<^verbatim>\<open>Str\<close> (\<^verbatim>\<open>toolkit.cpp\<close>), \<^verbatim>\<open>Hash\<close> (\<^verbatim>\<open>hash.h\<close>), \<^verbatim>\<open>ResultScope\<close> (\<^verbatim>\<open>result.h\<close>, \<^verbatim>\<open>scope.h\<close>), \<^verbatim>\<open>Lexer\<close> (\<^verbatim>\<open>dsl.h\<close>, \<^verbatim>\<open>dsl.cpp\<close>).
    Round trips of splitting and joining, parsing and printing; every token carries its true position; hashes are folds.
  \<^item> \<^verbatim>\<open>metric\<close>.  \<^verbatim>\<open>Metric\<close> (\<^verbatim>\<open>metric.cpp\<close>, \<^verbatim>\<open>probe.h\<close>), \<^verbatim>\<open>Profile\<close> and \<^verbatim>\<open>Sampler\<close> (\<^verbatim>\<open>profile.cpp\<close>).  Monitors are objects of a store;
    the anomaly detector computes the exact mean and deviation; flame graphs lose no time; the sampling thread stops.
  \<^item> \<^verbatim>\<open>coro\<close>.  \<^verbatim>\<open>CoroTask\<close> (\<^verbatim>\<open>task.h\<close>: a heap of frames and who owns them), \<^verbatim>\<open>AsyncEvent\<close> (every atomic access a step),
    \<^verbatim>\<open>Future\<close> (\<^verbatim>\<open>future.h\<close>), \<^verbatim>\<open>ThreadPool\<close> (\<^verbatim>\<open>thread_pool.cpp\<close>, \<^verbatim>\<open>pools.cpp\<close>, \<^verbatim>\<open>tuner.cpp\<close>), \<^verbatim>\<open>Batch\<close> (\<^verbatim>\<open>batch.h\<close>),
    \<^verbatim>\<open>CoroPipeline\<close> (\<^verbatim>\<open>pipeline.cpp\<close>), and \<^verbatim>\<open>Contexts\<close> (\<^verbatim>\<open>context.h\<close> of \<^verbatim>\<open>coro\<close> and \<^verbatim>\<open>dag\<close>).  No frame is freed twice or leaked, no wake-up is
    lost, combinators and aggregates are right in every completion order, pools drain in order, parallel steps are sequential in effect.
  \<^item> \<^verbatim>\<open>dag\<close>.  \<^verbatim>\<open>DagGraph\<close> (\<^verbatim>\<open>node.cpp\<close>, \<^verbatim>\<open>graph.cpp\<close>, \<^verbatim>\<open>graph_builder.cpp\<close>), \<^verbatim>\<open>Executor\<close> (\<^verbatim>\<open>executor.cpp\<close>), \<^verbatim>\<open>Schedule\<close> (\<^verbatim>\<open>schedule.h\<close>, the pools),
    \<^verbatim>\<open>DagStats\<close> (\<^verbatim>\<open>stats.cpp\<close>), \<^verbatim>\<open>OpGraph\<close> (\<^verbatim>\<open>op_graph.h\<close>, \<^verbatim>\<open>op_graph_builder.cpp\<close>), \<^verbatim>\<open>OpExecutor\<close> (\<^verbatim>\<open>op_executor.cpp\<close>).  The builder accepts exactly the acyclic
    definitions; the executors terminate under every interleaving, respect dependencies and record each outcome once.
  \<^item> \<^verbatim>\<open>column\<close>, data.  \<^verbatim>\<open>Tensor\<close>, \<^verbatim>\<open>Quantize\<close> (\<^verbatim>\<open>tensor.cpp\<close>), \<^verbatim>\<open>TensorStore\<close> (\<^verbatim>\<open>tensor_table.cpp\<close>, \<^verbatim>\<open>tensor_store.cpp\<close>), \<^verbatim>\<open>FeedFetch\<close>
    (\<^verbatim>\<open>feed_fetch.cpp\<close>), \<^verbatim>\<open>TableGraph\<close> (\<^verbatim>\<open>graph.cpp\<close>, \<^verbatim>\<open>node/\<close>).  Well-formed buffers, quantisation error bounds, rows to columns and back.
  \<^item> \<^verbatim>\<open>column\<close>, ops.  \<^verbatim>\<open>Kernels\<close>, \<^verbatim>\<open>Ops\<close> (\<^verbatim>\<open>exec/ops_*.cpp\<close>), \<^verbatim>\<open>OpTypes\<close> (the typing theorem), \<^verbatim>\<open>Simd\<close> (\<^verbatim>\<open>compute/*.cpp\<close>),
    \<^verbatim>\<open>TensorExpr\<close> (\<^verbatim>\<open>column_engine.h\<close>).  The vectorised kernels are the op kernels on every instruction set.
  \<^item> \<^verbatim>\<open>column\<close>, graphs.  \<^verbatim>\<open>ComputeGraph\<close> (\<^verbatim>\<open>exec/compute_graph.cpp\<close>, \<^verbatim>\<open>context/execution_context.cpp\<close>), \<^verbatim>\<open>GraphRun\<close> (\<^verbatim>\<open>Execute\<close>, \<^verbatim>\<open>ExecuteAsync\<close>),
    \<^verbatim>\<open>GraphAgree\<close> (both leave the same), \<^verbatim>\<open>GraphGrowth\<close> (what wiring keeps).
  \<^item> \<^verbatim>\<open>column\<close>, business layer.  \<^verbatim>\<open>ExprDsl\<close> (\<^verbatim>\<open>biz/dsl.cpp\<close>), \<^verbatim>\<open>OpBuilders\<close> (\<^verbatim>\<open>biz/sub_graph.h\<close>, \<^verbatim>\<open>biz/module.cpp\<close>), \<^verbatim>\<open>PipelineCompiler\<close>
    (\<^verbatim>\<open>biz/pipeline_compiler.cpp\<close>, \<^verbatim>\<open>backend/backend.cpp\<close>), \<^verbatim>\<open>CompilerTables\<close>, \<^verbatim>\<open>ModuleWiring\<close>, \<^verbatim>\<open>PipelineWiring\<close> (its invariant and what it guarantees),
    \<^verbatim>\<open>BizPipeline\<close> (\<^verbatim>\<open>biz/pipeline.cpp\<close>), \<^verbatim>\<open>ColumnStats\<close> (\<^verbatim>\<open>monitor.cpp\<close>).  From source text to a graph with one writer per column and readers
    after writers; hence a run gives the rows of a sequential run, whatever the pool does.
  \<^item> \<^verbatim>\<open>cache\<close> and \<^verbatim>\<open>rpc\<close>.  \<^verbatim>\<open>Cache\<close>, \<^verbatim>\<open>RemoteCache\<close> (\<^verbatim>\<open>cache.cpp\<close>), \<^verbatim>\<open>Rpc\<close>, \<^verbatim>\<open>RpcBackends\<close> (\<^verbatim>\<open>rpc/src\<close>).  The cache refines a recency-ordered list;
    over the in-process transport the remote cache is the served one.

  \<^bold>\<open>Interfaces.\<close>  The locale \<^verbatim>\<open>named_registry\<close> is interpreted on the registries of nodes, ops, monitors, RPC backends and caches;
  \<^verbatim>\<open>symbol_table\<close> on the tensor store and, extended by \<^verbatim>\<open>dataflow\<close>, on the ops that run on it (both graph executions rest on it);
  \<^verbatim>\<open>continuation\<close> on the four continuations of futures; \<^verbatim>\<open>data_bag\<close> on both contexts; \<^verbatim>\<open>kv_cache\<close> on the local cache; \<^verbatim>\<open>stepwise_hash\<close> on both
  string hashes; \<^verbatim>\<open>compile_env\<close> on the CPU backend with an allocator.

  \<^bold>\<open>Concurrency.\<close>  Code that runs on several threads is an inductive step relation whose rules are the atomic actions of the code (a mutex
  section, an atomic access, one access to shared data); properties hold on every reachable state.  That a run ends is shown as the absence
  of infinite runs together with the absence of stuck states, never only as a property of runs that end.

  \<^bold>\<open>Fuel and bounds.\<close>  Kahn's loop gets one unit per node and one more, the depth-first search one per node and per edge and one more, the expression
  parser four per character and four more, the loops of the op language one per character and one more.  Each is proved to be enough:
  the out-of-fuel value is never returned (\<^verbatim>\<open>Compile\<close>, \<^verbatim>\<open>RejectCycles\<close>, \<^verbatim>\<open>BuildDsl\<close>, \<^verbatim>\<open>parse\<close>).  Other loops are functions with a termination proof.
  A monitor that contains itself recurses without end in the code; the model returns \<^verbatim>\<open>None\<close> there.

  \<^bold>\<open>Idealisations.\<close>  Floating values are exact reals with infinities and NaN: no rounding, no overflow, one zero.  Integer arithmetic wraps at its
  width, where signed overflow is undefined in the language but wraps in the compiled code; an out-of-range conversion gives the value the
  processor gives.  A buffer is a list of typed cells and reading it at another type, or past its end, is the outcome \<^verbatim>\<open>Undefined\<close>.
  Hash maps are association lists whose order stands for the unspecified one; ties in \<^verbatim>\<open>std::sort\<close> keep their order.  Business code (nodes, ops, hooks,
  handlers, step functions) is an arbitrary function or an arbitrary outcome.  Parameters: the clock, the number of hardware threads, the
  allocator of nodes, the instruction set, the RPC channel of the remote cache, and number formats of streams.

  \<^bold>\<open>Not modelled.\<close>  CPU pinning and thread priorities are calls of the operating system, whose result the code ignores.
  \<^verbatim>\<open>FireAndForget\<close> coroutines appear as the activities they run.  Tests, examples and documentation; interface headers and headers that
  only include others.  Time stamps of events, which no code reads.  Memory exhaustion and allocation failures.

  What the sources do differently from their comments is proved where it occurs, for instance
  \<^verbatim>\<open>OpExecutor_returns_early\<close>, \<^verbatim>\<open>notification_can_be_lost\<close>, \<^verbatim>\<open>filter_out_of_bounds\<close>, \<^verbatim>\<open>compute_add_short_operand\<close>.
\<close>

end
